(* ===== verification/Prelude.thy ===== *)
theory Prelude
  imports Complex_Main "HOL-Library.AList" "HOL-Library.Word" "HOL-Library.Product_Lexorder"
begin

text \<open>
  What the components share: the types that stand for Rust's machine integers and clocks,
  the fragment of \<open>std::collections::HashMap\<close> and of the iterator and string API the code
  uses, and the contracts (locales) under which several components rely on them.

  \<^item> \<open>std::time::Instant\<close> is a \<open>nat\<close> of nanoseconds; \<open>duration_since\<close> saturates at zero,
    as truncated subtraction on \<open>nat\<close> does.
  \<^item> Unix timestamps (\<open>i64\<close> seconds or milliseconds) are \<open>int\<close>.
  \<^item> Saturating and wrapping operations on \<open>u64\<close> are written out at their width.
  \<^item> A \<open>HashMap\<close> is an association list with distinct keys whose order stands for the
    (unspecified) iteration order; every lemma holds for all orders.
\<close>

named_theorems guard_simps "definitions unfolded in the proofs about the IP guards"
named_theorems account_simps "definitions unfolded in the proofs about accounts"
named_theorems queue_simps "definitions unfolded in the proofs about the playback queue"

section \<open>Machine integers and clocks\<close>

type_synonym u64 = "64 word"
type_synonym u32 = "32 word"
type_synonym instant = nat
type_synonym timestamp = int

definition ns_per_sec :: nat where
  "ns_per_sec = 1000000000"

definition as_secs :: "nat \<Rightarrow> nat" where
  "as_secs d = d div ns_per_sec"

definition u64_max :: nat where
  "u64_max = 2 ^ 64 - 1"

definition i64_max :: int where
  "i64_max = 2 ^ 63 - 1"

definition sat_mul_u64 :: "nat \<Rightarrow> nat \<Rightarrow> nat" where
  "sat_mul_u64 a b = min (a * b) u64_max"

definition clamp_i64 :: "int \<Rightarrow> int" where
  "clamp_i64 x = max (- (2 ^ 63)) (min i64_max x)"

definition sat_add_i64 :: "int \<Rightarrow> int \<Rightarrow> int" where
  "sat_add_i64 a b = clamp_i64 (a + b)"

definition sat_sub_i64 :: "int \<Rightarrow> int \<Rightarrow> int" where
  "sat_sub_i64 a b = clamp_i64 (a - b)"

lemma sat_mul_u64_le: "sat_mul_u64 a b \<le> a * b" and sat_mul_u64_max: "sat_mul_u64 a b \<le> u64_max"
  by (simp_all add: sat_mul_u64_def)

lemma sat_mul_u64_mono: "b \<le> c \<Longrightarrow> sat_mul_u64 a b \<le> sat_mul_u64 a c"
  by (auto simp: sat_mul_u64_def min_def intro: order_trans [OF mult_le_mono2])

lemma clamp_i64_mono: "x \<le> y \<Longrightarrow> clamp_i64 x \<le> clamp_i64 y"
  by (auto simp: clamp_i64_def)

lemma clamp_i64_id: "\<bar>x\<bar> < 2 ^ 63 \<Longrightarrow> clamp_i64 x = x"
  by (auto simp: clamp_i64_def i64_max_def)

lemma clamp_i64_pos_iff: "0 < clamp_i64 x \<longleftrightarrow> 0 < x"
  by (auto simp: clamp_i64_def i64_max_def)

lemma as_secs_mono: "a \<le> b \<Longrightarrow> as_secs a \<le> as_secs b"
  by (simp add: as_secs_def div_le_mono)

section \<open>Iterators\<close>

text \<open>\<open>Iterator::min_by_key\<close>: the first of the elements with the smallest key.\<close>

fun min_by_key :: "('a \<Rightarrow> 'b::linorder) \<Rightarrow> 'a list \<Rightarrow> 'a option" where
  "min_by_key f [] = None"
| "min_by_key f (x # xs) =
     (case min_by_key f xs of
        None \<Rightarrow> Some x
      | Some y \<Rightarrow> if f x \<le> f y then Some x else Some y)"

lemma min_by_key_None [simp]: "min_by_key f xs = None \<longleftrightarrow> xs = []"
  by (cases xs) (auto split: option.splits)

lemma min_by_key_in: "min_by_key f xs = Some x \<Longrightarrow> x \<in> set xs"
  by (induction xs arbitrary: x) (auto split: option.splits if_splits)

lemma min_by_key_least: "min_by_key f xs = Some x \<Longrightarrow> y \<in> set xs \<Longrightarrow> f x \<le> f y"
proof (induction xs arbitrary: x y)
  case Nil
  then show ?case by simp
next
  case (Cons z zs)
  show ?case
  proof (cases "min_by_key f zs")
    case None
    with Cons.prems show ?thesis by auto
  next
    case (Some w)
    with Cons.prems Cons.IH [OF Some] show ?thesis
      by (auto split: if_splits) (meson linear order_trans)+
  qed
qed

text \<open>\<open>Option<u64>\<close> minimum as the selection loops fold it: \<open>old.map_or(x, |o| o.min(x))\<close>.\<close>

definition opt_min :: "'a::linorder option \<Rightarrow> 'a \<Rightarrow> 'a option" where
  "opt_min old x = Some (case old of None \<Rightarrow> x | Some o' \<Rightarrow> min o' x)"

lemma find_append: "find P (xs @ ys) = (case find P xs of Some x \<Rightarrow> Some x | None \<Rightarrow> find P ys)"
  by (induction xs) auto

lemma opt_min_fold:
  "fold (\<lambda>x old. opt_min old x) xs acc =
     (if xs = [] then acc else Some (Min (set xs \<union> set_option acc)))"
proof (induction xs arbitrary: acc)
  case Nil
  then show ?case by simp
next
  case (Cons x xs)
  have step: "set_option (opt_min acc x) = {Min (insert x (set_option acc))}"
    by (cases acc) (auto simp: opt_min_def min.commute)
  show ?case
  proof (cases "xs = []")
    case True
    then show ?thesis by (cases acc) (auto simp: opt_min_def min.commute)
  next
    case False
    have "Min (set xs \<union> {Min (insert x (set_option acc))}) = Min (set xs \<union> insert x (set_option acc))"
      using False by (subst (1 2) Min_Un) auto
    then show ?thesis using False by (simp add: Cons.IH step)
  qed
qed

text \<open>\<open>Vec::rotate_left\<close> and \<open>sort_by_key\<close> (stable) are \<open>rotate\<close> and \<open>sort_key\<close> of the library.\<close>

lemma set_rotate_sort [simp]: "set (sort_key f (rotate n xs)) = set xs"
  by simp

lemma hd_sort_key_least:
  assumes "x \<in> set xs"
  shows "f (hd (sort_key f xs)) \<le> f x"
proof -
  have ne: "sort_key f xs \<noteq> []"
    using assms by (metis empty_iff empty_set set_sort)
  have "sorted (map f (sort_key f xs))" by simp
  moreover have "x \<in> set (sort_key f xs)" using assms by simp
  ultimately show ?thesis using ne
    by (cases "sort_key f xs") auto
qed

lemma hd_sort_key_in: "xs \<noteq> [] \<Longrightarrow> hd (sort_key f xs) \<in> set xs"
  by (metis hd_in_set set_empty set_sort)

section \<open>Strings\<close>

definition to_ascii_lower :: "char \<Rightarrow> char" where
  "to_ascii_lower c =
     (let n = (of_char c :: nat) in if 65 \<le> n \<and> n \<le> 90 then char_of (n + 32) else c)"

fun split_on :: "char \<Rightarrow> string \<Rightarrow> string list" where
  "split_on d [] = [[]]"
| "split_on d (c # cs) =
     (if c = d then [] # split_on d cs
      else (case split_on d cs of [] \<Rightarrow> [[c]] | w # ws \<Rightarrow> (c # w) # ws))"

definition starts_with :: "string \<Rightarrow> string \<Rightarrow> bool" where
  "starts_with pre s \<longleftrightarrow> take (length pre) s = pre"

definition is_ascii_digit :: "char \<Rightarrow> bool" where
  "is_ascii_digit c \<longleftrightarrow> (let n = (of_char c :: nat) in 48 \<le> n \<and> n \<le> 57)"

definition is_ascii_alpha :: "char \<Rightarrow> bool" where
  "is_ascii_alpha c \<longleftrightarrow>
     (let n = (of_char c :: nat) in (65 \<le> n \<and> n \<le> 90) \<or> (97 \<le> n \<and> n \<le> 122))"

text \<open>Decimal rendering of an unsigned integer, as \<open>to_string\<close> and \<open>format!\<close> print it.\<close>

fun show_nat :: "nat \<Rightarrow> string" where
  "show_nat n =
     (if n < 10 then [char_of (48 + n)] else show_nat (n div 10) @ [char_of (48 + n mod 10)])"

declare show_nat.simps [simp del]

definition show_int :: "int \<Rightarrow> string" where
  "show_int i = (if i < 0 then CHR ''-'' # show_nat (nat (- i)) else show_nat (nat i))"

text \<open>Decimal digits, and \<open>parse\<close> of the unsigned and signed 64-bit integers.\<close>

fun digits_val :: "nat \<Rightarrow> string \<Rightarrow> nat option" where
  "digits_val acc [] = Some acc"
| "digits_val acc (c # cs) =
     (if is_ascii_digit c then digits_val (10 * acc + (of_char c - 48)) cs else None)"

text \<open>\<open>str::parse::<u64>\<close>: an optional plus sign, at least one digit, no overflow.\<close>

definition parse_u64 :: "string \<Rightarrow> nat option" where
  "parse_u64 s =
     (let ds = (case s of c # cs \<Rightarrow> if c = CHR ''+'' then cs else s | [] \<Rightarrow> [])
      in if ds = [] then None
         else (case digits_val 0 ds of
                 Some n \<Rightarrow> if n \<le> u64_max then Some n else None
               | None \<Rightarrow> None))"

definition parse_i64 :: "string \<Rightarrow> int option" where
  "parse_i64 s =
     (let neg = (case s of c # cs \<Rightarrow> c = CHR ''-'' | [] \<Rightarrow> False);
          ds = (case s of c # cs \<Rightarrow> if c = CHR ''+'' \<or> c = CHR ''-'' then cs else s | [] \<Rightarrow> [])
      in if ds = [] then None
         else (case digits_val 0 ds of
                 Some n \<Rightarrow> (let i = (if neg then - int n else int n)
                            in if - (2 ^ 63) \<le> i \<and> i < 2 ^ 63 then Some i else None)
               | None \<Rightarrow> None))"

text \<open>\<open>trim\<close>, on ASCII white space.\<close>

definition is_ascii_space :: "char \<Rightarrow> bool" where
  "is_ascii_space c \<longleftrightarrow> (let n = (of_char c :: nat) in n = 32 \<or> (9 \<le> n \<and> n \<le> 13))"

definition trim :: "string \<Rightarrow> string" where
  "trim s = rev (dropWhile is_ascii_space (rev (dropWhile is_ascii_space s)))"

lemma digits_val_ge: "digits_val acc s = Some n \<Longrightarrow> acc \<le> n"
proof (induction s arbitrary: acc)
  case Nil
  then show ?case by simp
next
  case (Cons c s)
  then have "10 * acc + (of_char c - 48) \<le> n" by (auto split: if_splits)
  then show ?case by linarith
qed

lemma digits_val_append: "digits_val acc (s @ t) = Option.bind (digits_val acc s) (\<lambda>a. digits_val a t)"
  by (induction s arbitrary: acc) auto

lemma digit_char: "n < 10 \<Longrightarrow> is_ascii_digit (char_of (48 + n)) \<and> (of_char (char_of (48 + n) :: char) :: nat) = 48 + n"
  by (simp add: is_ascii_digit_def)

lemma show_nat_digits: "list_all is_ascii_digit (show_nat n) \<and> show_nat n \<noteq> []"
proof (induction n rule: show_nat.induct)
  case (1 n)
  then show ?case using digit_char [of n] digit_char [of "n mod 10"]
    by (subst show_nat.simps) (simp add: show_nat.simps [of n])
qed

lemma digits_val_show: "digits_val 0 (show_nat n) = Some n"
proof (induction n rule: show_nat.induct)
  case (1 n)
  show ?case
  proof (cases "n < 10")
    case True
    then show ?thesis using digit_char [of n] by (simp add: show_nat.simps [of n])
  next
    case False
    then show ?thesis using 1 digit_char [of "n mod 10"]
      by (subst show_nat.simps) (simp add: digits_val_append)
  qed
qed

lemma is_ascii_digit_plus [simp]: "\<not> is_ascii_digit CHR ''+''" "\<not> is_ascii_digit CHR ''-''"
  by (simp_all add: is_ascii_digit_def)

lemma parse_show_nat: "n \<le> u64_max \<Longrightarrow> parse_u64 (show_nat n) = Some n"
  using show_nat_digits [of n] digits_val_show [of n]
  by (cases "show_nat n") (auto simp: parse_u64_def)

lemma parse_show_int: "- (2 ^ 63) \<le> i \<Longrightarrow> i < 2 ^ 63 \<Longrightarrow> parse_i64 (show_int i) = Some i"
  using show_nat_digits [of "nat i"] digits_val_show [of "nat i"] show_nat_digits [of "nat (- i)"]
    digits_val_show [of "nat (- i)"]
  by (cases "show_nat (nat i)") (auto simp: parse_i64_def show_int_def Let_def)

lemma split_on_ne [simp]: "split_on d cs \<noteq> []"
  by (induction cs) (auto split: list.splits)

lemma split_on_no_delim: "d \<notin> set s \<Longrightarrow> split_on d (s @ d # t) = s # split_on d t"
  by (induction s) auto

lemma split_on_plain: "d \<notin> set s \<Longrightarrow> split_on d s = [s]"
  by (induction s) auto

lemma split_on_append: "split_on d (s @ d # t) = split_on d s @ split_on d t"
  by (induction s) (auto split: list.split)

lemma starts_with_append [simp]: "starts_with pre (pre @ s)"
  by (simp add: starts_with_def)

section \<open>HashMap\<close>

type_synonym ('k, 'v) hash_map = "('k \<times> 'v) list"

definition hm_get :: "('k, 'v) hash_map \<Rightarrow> 'k \<Rightarrow> 'v option" where
  "hm_get m k = map_of m k"

definition hm_insert :: "'k \<Rightarrow> 'v \<Rightarrow> ('k, 'v) hash_map \<Rightarrow> ('k, 'v) hash_map" where
  "hm_insert k v m = AList.update k v m"

definition hm_remove :: "'k \<Rightarrow> ('k, 'v) hash_map \<Rightarrow> ('k, 'v) hash_map" where
  "hm_remove k m = AList.delete k m"

definition hm_retain :: "('k \<Rightarrow> 'v \<Rightarrow> bool) \<Rightarrow> ('k, 'v) hash_map \<Rightarrow> ('k, 'v) hash_map" where
  "hm_retain P m = filter (\<lambda>(k, v). P k v) m"

definition hm_values_mut :: "('v \<Rightarrow> 'v) \<Rightarrow> ('k, 'v) hash_map \<Rightarrow> ('k, 'v) hash_map" where
  "hm_values_mut f m = map (\<lambda>(k, v). (k, f v)) m"

definition hm_wf :: "('k, 'v) hash_map \<Rightarrow> bool" where
  "hm_wf m \<longleftrightarrow> distinct (map fst m)"

text \<open>
  The contract of a keyed container as its clients use it; what follows from it is proved
  once, here.
\<close>

locale keyed_store =
  fixes get :: "'m \<Rightarrow> 'k \<Rightarrow> 'v option"
    and put :: "'k \<Rightarrow> 'v \<Rightarrow> 'm \<Rightarrow> 'm"
    and del :: "'k \<Rightarrow> 'm \<Rightarrow> 'm"
    and retain :: "('k \<Rightarrow> 'v \<Rightarrow> bool) \<Rightarrow> 'm \<Rightarrow> 'm"
    and len :: "'m \<Rightarrow> nat"
    and wf :: "'m \<Rightarrow> bool"
  assumes get_put: "get (put k v m) = (get m)(k \<mapsto> v)"
    and get_del: "get (del k m) = (get m)(k := None)"
    and get_retain: "wf m \<Longrightarrow> get (retain P m) k =
           (case get m k of None \<Rightarrow> None | Some v \<Rightarrow> if P k v then Some v else None)"
    and wf_put: "wf m \<Longrightarrow> wf (put k v m)"
    and wf_del: "wf m \<Longrightarrow> wf (del k m)"
    and wf_retain: "wf m \<Longrightarrow> wf (retain P m)"
    and len_put: "wf m \<Longrightarrow> len (put k v m) = (if get m k = None then Suc (len m) else len m)"
    and len_del: "wf m \<Longrightarrow> len (del k m) = (if get m k = None then len m else len m - 1)"
    and len_pos: "get m k \<noteq> None \<Longrightarrow> 0 < len m"
    and len_retain: "len (retain P m) \<le> len m"
begin

lemma len_del_le: "wf m \<Longrightarrow> len (del k m) \<le> len m"
  by (simp add: len_del)

lemma get_del_other: "k' \<noteq> k \<Longrightarrow> get (del k m) k' = get m k'"
  by (simp add: get_del)

lemma get_put_other: "k' \<noteq> k \<Longrightarrow> get (put k v m) k' = get m k'"
  by (simp add: get_put)

lemma get_put_same: "get (put k v m) k = Some v"
  by (simp add: get_put)

lemma len_put_bound:
  assumes "wf m" "len m \<le> n" "get m k \<noteq> None \<or> len m < n"
  shows "len (put k v m) \<le> n"
  using assms by (auto simp: len_put)

lemma len_put_Suc: "wf m \<Longrightarrow> len (put k v m) \<le> Suc (len m)"
  by (simp add: len_put)

text \<open>Evicting one present entry makes room for a new key at a full store.\<close>

lemma evict_then_put:
  assumes "wf m" "len m \<le> n" "0 < n" "get m victim \<noteq> None"
  shows "len (put k v (del victim m)) \<le> n"
proof -
  have "len (del victim m) < n"
    using assms len_pos [OF assms(4)] by (auto simp: len_del)
  then show ?thesis
    using assms(1) by (auto simp: len_put wf_del)
qed

end

lemma hm_get_update: "hm_get (hm_insert k v m) = (hm_get m)(k \<mapsto> v)"
  unfolding hm_get_def hm_insert_def by (rule ext) (simp add: update_conv')

lemma hm_get_delete: "hm_get (hm_remove k m) = (hm_get m)(k := None)"
  unfolding hm_get_def hm_remove_def by (rule ext) (simp add: delete_conv')

lemma hm_get_filter:
  assumes "hm_wf m"
  shows "hm_get (hm_retain P m) k =
    (case hm_get m k of None \<Rightarrow> None | Some v \<Rightarrow> if P k v then Some v else None)"
  using assms
proof (induction m)
  case Nil
  then show ?case by (simp add: hm_get_def hm_retain_def)
next
  case (Cons e m)
  obtain k' v where e: "e = (k', v)" by force
  from Cons.prems e have notin: "map_of m k' = None" and wf: "hm_wf m"
    by (auto simp: hm_wf_def map_of_eq_None_iff)
  show ?case
    using Cons.IH [OF wf] notin e
    by (auto simp: hm_get_def hm_retain_def split: option.splits)
qed

lemma hm_wf_insert: "hm_wf m \<Longrightarrow> hm_wf (hm_insert k v m)"
  by (simp add: hm_wf_def hm_insert_def distinct_update)

lemma hm_wf_remove: "hm_wf m \<Longrightarrow> hm_wf (hm_remove k m)"
  by (simp add: hm_wf_def hm_remove_def distinct_delete)

lemma hm_wf_retain: "hm_wf m \<Longrightarrow> hm_wf (hm_retain P m)"
  by (simp add: hm_wf_def hm_retain_def distinct_map_filter)

lemma hm_length_insert:
  "hm_wf m \<Longrightarrow> length (hm_insert k v m) = (if hm_get m k = None then Suc (length m) else length m)"
  by (induction m) (auto simp: hm_insert_def hm_get_def hm_wf_def split: if_splits)

lemma hm_remove_absent: "hm_get m k = None \<Longrightarrow> hm_remove k m = m"
  by (simp add: hm_remove_def hm_get_def AList.delete_eq map_of_eq_None_iff) (force intro: filter_True)

lemma hm_length_remove:
  "hm_wf m \<Longrightarrow> length (hm_remove k m) = (if hm_get m k = None then length m else length m - 1)"
proof (induction m)
  case Nil
  then show ?case by (simp add: hm_remove_def)
next
  case (Cons e m)
  show ?case
  proof (cases "fst e = k")
    case True
    with Cons.prems have "hm_get m k = None"
      by (auto simp: hm_wf_def hm_get_def map_of_eq_None_iff)
    then show ?thesis using True hm_remove_absent [of m k]
      by (auto simp: hm_remove_def hm_get_def AList.delete_eq split_beta)
  next
    case False
    with Cons show ?thesis
      by (cases m) (auto simp: hm_remove_def hm_get_def AList.delete_eq split_beta hm_wf_def)
  qed
qed

interpretation hm: keyed_store hm_get hm_insert hm_remove hm_retain length hm_wf
proof
  fix m :: "('a, 'b) hash_map" and k :: 'a
  show "hm_get m k \<noteq> None \<Longrightarrow> 0 < length m"
    by (cases m) (auto simp: hm_get_def)
  show "length (hm_retain P m) \<le> length m" for P :: "'a \<Rightarrow> 'b \<Rightarrow> bool"
    by (simp add: hm_retain_def)
qed (simp_all add: hm_get_update hm_get_delete hm_get_filter hm_wf_insert hm_wf_remove
    hm_wf_retain hm_length_insert hm_length_remove)

lemma hm_wf_Nil [simp]: "hm_wf []"
  by (simp add: hm_wf_def)

lemma hm_get_Nil [simp]: "hm_get [] k = None"
  by (simp add: hm_get_def)

lemma hm_get_in: "(k, v) \<in> set m \<Longrightarrow> hm_wf m \<Longrightarrow> hm_get m k = Some v"
  by (simp add: hm_get_def hm_wf_def)

lemma hm_get_SomeD: "hm_get m k = Some v \<Longrightarrow> (k, v) \<in> set m"
  by (simp add: hm_get_def map_of_SomeD)

lemma hm_get_values_mut: "hm_get (hm_values_mut f m) k = map_option f (hm_get m k)"
  by (induction m) (auto simp: hm_get_def hm_values_mut_def)

lemma hm_wf_values_mut [simp]: "hm_wf (hm_values_mut f m) = hm_wf m"
  by (simp add: hm_wf_def hm_values_mut_def split_beta comp_def)

lemma length_values_mut [simp]: "length (hm_values_mut f m) = length m"
  by (simp add: hm_values_mut_def)

lemmas hm_laws = hm.get_put hm.get_del hm.get_retain hm.wf_put hm.wf_del hm.wf_retain
  hm_get_values_mut

end
