(* ===== verification/Errors.thy ===== *)
theory Errors
  imports Prelude
begin

text \<open>
  \<open>src/error.rs\<close>: the error type every handler returns, the HTTP status it is sent with,
  the response built from it and the rule that picks the error to report after a failover.
  Status codes are numbers (\<open>StatusCode\<close> of the \<open>http\<close> crate is a checked \<open>u16\<close>); a
  response is reduced to its status, the fields of its JSON body and its \<open>Retry-After\<close>
  header. Retry delays are \<open>u64\<close> seconds, as \<open>nat\<close>.
\<close>

datatype app_error =
    NotFound string
  | BadRequest string
  | Unauthorized string
  | UpstreamError nat string
  | RateLimited nat
  | Timeout
  | BadGateway string
  | PreviewOnly string
  | ServiceUnavailable string
  | ServiceUnavailableRetry string nat
  | AccountsBusy string nat
  | Internal string

definition is_client_error :: "nat \<Rightarrow> bool" where
  "is_client_error s \<longleftrightarrow> 400 \<le> s \<and> s < 500"

fun status :: "app_error \<Rightarrow> nat" where
  "status (NotFound _) = 404"
| "status (BadRequest _) = 400"
| "status (Unauthorized _) = 401"
| "status (UpstreamError s _) = (if \<not> is_client_error s then 502 else s)"
| "status (RateLimited _) = 429"
| "status (AccountsBusy _ _) = 429"
| "status Timeout = 504"
| "status (BadGateway _) = 502"
| "status (PreviewOnly _) = 403"
| "status (ServiceUnavailable _) = 503"
| "status (ServiceUnavailableRetry _ _) = 503"
| "status (Internal _) = 500"

fun after_failover :: "app_error \<Rightarrow> app_error option \<Rightarrow> app_error" where
  "after_failover (AccountsBusy d n) previous = AccountsBusy d n"
| "after_failover other previous = (case previous of None \<Rightarrow> other | Some p \<Rightarrow> p)"

definition ACCOUNTS_BUSY :: string where
  "ACCOUNTS_BUSY = ''All playback accounts are busy''"

definition QUEUE_FULL :: string where
  "QUEUE_FULL = ''Playback queue full''"

definition CATALOG_BUSY :: string where
  "CATALOG_BUSY = ''Catalog accounts are at their concurrent request limit''"

definition is_accounts_busy :: "string \<Rightarrow> bool" where
  "is_accounts_busy detail \<longleftrightarrow>
     list_ex (\<lambda>start. starts_with start detail) [ACCOUNTS_BUSY, QUEUE_FULL, CATALOG_BUSY]"

record http_response =
  resp_status :: nat
  resp_detail :: string
  resp_code :: "string option"
  resp_retry_body :: "nat option"
  resp_retry_after :: "nat option"

definition plain_response :: "nat \<Rightarrow> string \<Rightarrow> nat option \<Rightarrow> http_response" where
  "plain_response s d r = \<lparr>resp_status = s, resp_detail = d, resp_code = None,
     resp_retry_body = None, resp_retry_after = r\<rparr>"

definition into_response :: "app_error \<Rightarrow> http_response" where
  "into_response e =
     (let st = status e in
      case e of
        NotFound d \<Rightarrow> plain_response st d None
      | BadRequest d \<Rightarrow> plain_response st d None
      | Unauthorized d \<Rightarrow> plain_response st d None
      | UpstreamError _ d \<Rightarrow> plain_response st d None
      | BadGateway d \<Rightarrow> plain_response st d None
      | ServiceUnavailable d \<Rightarrow> plain_response st d None
      | Internal d \<Rightarrow> plain_response st d None
      | RateLimited secs \<Rightarrow> plain_response st ''Tidal rate limited the account'' (Some secs)
      | Timeout \<Rightarrow> plain_response st ''Upstream timeout'' None
      | ServiceUnavailableRetry d secs \<Rightarrow>
          plain_response st d (if secs > 0 then Some secs else None)
      | PreviewOnly d \<Rightarrow> (plain_response st d None)\<lparr>resp_code := Some ''preview_only''\<rparr>
      | AccountsBusy d secs \<Rightarrow>
          \<lparr>resp_status = st, resp_detail = d, resp_code = Some ''accounts_busy'',
           resp_retry_body = Some secs, resp_retry_after = Some (max secs 1)\<rparr>)"

text \<open>\<open>Display\<close>; \<open>st\<close> is the \<open>Display\<close> of a \<open>StatusCode\<close> (its number and reason phrase).\<close>

definition display :: "(nat \<Rightarrow> string) \<Rightarrow> app_error \<Rightarrow> string" where
  "display st e = (case e of
      NotFound d \<Rightarrow> ''Not found: '' @ d
    | BadRequest d \<Rightarrow> ''Bad request: '' @ d
    | Unauthorized d \<Rightarrow> ''Unauthorized: '' @ d
    | UpstreamError s d \<Rightarrow> ''Upstream '' @ st s @ '': '' @ d
    | RateLimited s \<Rightarrow> ''Tidal rate limited the account; retry in '' @ show_nat s @ ''s''
    | Timeout \<Rightarrow> ''Timeout''
    | BadGateway d \<Rightarrow> ''Bad gateway: '' @ d
    | PreviewOnly d \<Rightarrow> d
    | ServiceUnavailable d \<Rightarrow> ''Service unavailable: '' @ d
    | ServiceUnavailableRetry d s \<Rightarrow>
        ''Service unavailable: '' @ d @ '' (retry in '' @ show_nat s @ ''s)''
    | AccountsBusy d _ \<Rightarrow> d
    | Internal d \<Rightarrow> ''Internal error: '' @ d)"

text \<open>\<open>From<reqwest::Error>\<close>, from what the error says about itself.\<close>

record send_error =
  is_timeout :: bool
  is_connect :: bool
  err_status :: "nat option"
  err_text :: string

definition of_send_error :: "(nat \<Rightarrow> string) \<Rightarrow> send_error \<Rightarrow> app_error" where
  "of_send_error st e =
     (if is_timeout e then Timeout
      else if is_connect e then BadGateway ''Connection error to Tidal''
      else case err_status e of
             Some s \<Rightarrow> UpstreamError s (''Upstream API error: '' @ st s)
           | None \<Rightarrow> Internal (''Request error: '' @ err_text e))"

fun_cases after_failover_busyE: "after_failover e p = AccountsBusy d n"

lemma status_range: "400 \<le> status e \<and> status e < 600"
  by (cases e) (auto simp: is_client_error_def)

lemma resp_status_into [simp]: "resp_status (into_response e) = status e"
  by (cases e) (simp_all add: into_response_def plain_response_def)

lemma resp_detail_nonbusy:
  "resp_code (into_response e) = Some ''accounts_busy'' \<longleftrightarrow> (\<exists>d n. e = AccountsBusy d n)"
  by (cases e) (simp_all add: into_response_def plain_response_def)

lemma after_failover_None [simp]: "after_failover e None = e"
  by (cases e) simp_all

lemma after_failover_assoc:
  "after_failover e (Some (after_failover e' p)) =
     (case e of AccountsBusy d n \<Rightarrow> e | _ \<Rightarrow> after_failover e' p)"
  by (cases e) simp_all

end
