(* ===== verification/IpGuard.thy ===== *)
theory IpGuard
  imports Prelude
begin

text \<open>
  The per-address lockout that \<open>src/scanner_guard.rs\<close> and \<open>src/admin/auth_guard.rs\<close> both
  implement: a bounded \<open>HashMap<IpAddr, IpActivity>\<close> with a sliding window of recent
  offences per address, a temporary lock once the window holds \<open>limit\<close> of them, a periodic
  clean-up and an eviction that prefers addresses that are not locked. The source writes the
  code out twice with different constants; the shared steps are defined once here over a
  record of the constants, and each guard composes them in its own order in its own theory.

  The second half states what such a guard promises without mentioning windows that are
  pruned, clean-ups or evictions (\<open>spec_strike\<close>), and proves that the steps implement it.
\<close>

datatype ip_addr = V4 "32 word" | V6 "128 word"

record guard_cfg =
  window :: nat
  lock_dur :: nat
  limit :: nat
  max_ips :: nat

record ip_activity =
  events :: "instant list"
  locked_until :: "instant option"
  last_seen :: instant

record guard_state =
  ips :: "(ip_addr, ip_activity) hash_map"
  last_cleanup :: instant

definition guard_new :: "instant \<Rightarrow> guard_state" where
  "guard_new now = \<lparr>ips = [], last_cleanup = now\<rparr>"

definition keep_activity :: "guard_cfg \<Rightarrow> instant \<Rightarrow> ip_activity \<Rightarrow> bool" where
  "keep_activity c now a \<longleftrightarrow>
     (case locked_until a of None \<Rightarrow> False | Some u \<Rightarrow> u > now) \<or> now - last_seen a < window c"

definition guard_cleanup :: "guard_cfg \<Rightarrow> instant \<Rightarrow> guard_state \<Rightarrow> guard_state" where
  "guard_cleanup c now s =
     (if now - last_cleanup s \<ge> window c
      then s\<lparr>ips := hm_retain (\<lambda>_ a. keep_activity c now a) (ips s), last_cleanup := now\<rparr>
      else s)"

text \<open>The lock in force for an address, and the seconds left on it (at least one).\<close>

definition active_lock :: "guard_state \<Rightarrow> ip_addr \<Rightarrow> instant option" where
  "active_lock s ip = Option.bind (hm_get (ips s) ip) locked_until"

definition lock_secs :: "instant \<Rightarrow> instant \<Rightarrow> nat" where
  "lock_secs u now = max 1 (as_secs (u - now))"

text \<open>An expired lock starts over with a clean count: the entry is removed.\<close>

definition drop_lock :: "ip_addr \<Rightarrow> guard_state \<Rightarrow> guard_state" where
  "drop_lock ip s = (if active_lock s ip = None then s else s\<lparr>ips := hm_remove ip (ips s)\<rparr>)"

definition victim :: "(ip_addr, ip_activity) hash_map \<Rightarrow> ip_addr option" where
  "victim m = map_option fst
     (case min_by_key (\<lambda>(ip, a). last_seen a) (filter (\<lambda>(ip, a). locked_until a = None) m) of
        None \<Rightarrow> min_by_key (\<lambda>(ip, a). last_seen a) m
      | Some v \<Rightarrow> Some v)"

definition make_room :: "guard_cfg \<Rightarrow> ip_addr \<Rightarrow> guard_state \<Rightarrow> guard_state" where
  "make_room c ip s =
     (if hm_get (ips s) ip = None \<and> length (ips s) \<ge> max_ips c
      then (case victim (ips s) of
              None \<Rightarrow> s
            | Some v \<Rightarrow> s\<lparr>ips := hm_remove v (ips s)\<rparr>)
      else s)"

definition record_event :: "guard_cfg \<Rightarrow> ip_addr \<Rightarrow> instant \<Rightarrow> guard_state \<Rightarrow> nat option \<times> guard_state" where
  "record_event c ip now s =
     (let a = (case hm_get (ips s) ip of
                 None \<Rightarrow> \<lparr>events = [], locked_until = None, last_seen = now\<rparr>
               | Some a \<Rightarrow> a);
          a = a\<lparr>last_seen := now\<rparr>;
          ps = dropWhile (\<lambda>t. now - t \<ge> window c) (events a) @ [now]
      in if length ps \<ge> limit c
         then (Some (as_secs (lock_dur c)),
               s\<lparr>ips := hm_insert ip (a\<lparr>events := [], locked_until := Some (now + lock_dur c)\<rparr>) (ips s)\<rparr>)
         else (None, s\<lparr>ips := hm_insert ip (a\<lparr>events := ps\<rparr>) (ips s)\<rparr>))"

text \<open>
  The part of the two functions from the first look at the lock to the end. \<open>counts\<close> says
  whether this call is an offence at all (always for a failed key; a path test for a probe).
\<close>

definition guard_step ::
    "guard_cfg \<Rightarrow> ip_addr \<Rightarrow> bool \<Rightarrow> instant \<Rightarrow> guard_state \<Rightarrow> nat option \<times> guard_state" where
  "guard_step c ip counts now s =
     (let s = guard_cleanup c now s in
      case active_lock s ip of
        Some u \<Rightarrow>
          if u > now then (Some (lock_secs u now), s)
          else (let s = drop_lock ip s in
                if \<not> counts then (None, s) else record_event c ip now (make_room c ip s))
      | None \<Rightarrow>
          if \<not> counts then (None, s) else record_event c ip now (make_room c ip s))"

section \<open>Well-formedness and the memory bound\<close>

definition cfg_wf :: "guard_cfg \<Rightarrow> bool" where
  "cfg_wf c \<longleftrightarrow> 0 < window c \<and> window c \<le> lock_dur c \<and> 0 < limit c \<and> 0 < max_ips c"

text \<open>
  What holds of a tracked address at time \<open>t\<close>: its events are in order and none is later
  than its last sighting, it was seen by \<open>t\<close>, fewer than \<open>limit\<close> events are kept, and a lock
  ends at most one lock duration after it was last seen.
\<close>

definition activity_ok :: "guard_cfg \<Rightarrow> instant \<Rightarrow> ip_activity \<Rightarrow> bool" where
  "activity_ok c t a \<longleftrightarrow>
     sorted (events a) \<and> (\<forall>e\<in>set (events a). e \<le> last_seen a) \<and> last_seen a \<le> t \<and>
     length (events a) < limit c \<and>
     (\<forall>u. locked_until a = Some u \<longrightarrow> events a = [] \<and> u = last_seen a + lock_dur c)"

definition guard_inv :: "guard_cfg \<Rightarrow> instant \<Rightarrow> guard_state \<Rightarrow> bool" where
  "guard_inv c t s \<longleftrightarrow>
     hm_wf (ips s) \<and> length (ips s) \<le> max_ips c \<and>
     (\<forall>ip a. hm_get (ips s) ip = Some a \<longrightarrow> activity_ok c t a)"

lemma guard_inv_new: "guard_inv c t (guard_new t')"
  by (simp add: guard_inv_def guard_new_def)

lemma activity_ok_mono: "activity_ok c t a \<Longrightarrow> t \<le> t' \<Longrightarrow> activity_ok c t' a"
  by (auto simp: activity_ok_def)

lemma guard_inv_mono: "guard_inv c t s \<Longrightarrow> t \<le> t' \<Longrightarrow> guard_inv c t' s"
  by (auto simp: guard_inv_def intro: activity_ok_mono)

lemma guard_cleanup_get:
  assumes "hm_wf (ips s)"
  shows "hm_get (ips (guard_cleanup c now s)) ip =
    (case hm_get (ips s) ip of
       None \<Rightarrow> None
     | Some a \<Rightarrow> if now - last_cleanup s \<ge> window c \<and> \<not> keep_activity c now a then None else Some a)"
  using assms by (auto simp: guard_cleanup_def hm_laws split: option.splits)

lemma guard_cleanup_wf [simp]: "hm_wf (ips s) \<Longrightarrow> hm_wf (ips (guard_cleanup c now s))"
  by (simp add: guard_cleanup_def hm_laws)

lemma guard_cleanup_len: "length (ips (guard_cleanup c now s)) \<le> length (ips s)"
  by (simp add: guard_cleanup_def hm.len_retain)

lemma guard_cleanup_inv: "guard_inv c t s \<Longrightarrow> guard_inv c t (guard_cleanup c now s)"
  using guard_cleanup_len [of c now s]
  by (auto simp: guard_inv_def guard_cleanup_get split: option.splits if_splits)

lemma drop_lock_inv: "guard_inv c t s \<Longrightarrow> guard_inv c t (drop_lock ip s)"
  using hm.len_del_le [of "ips s" ip]
  by (auto simp: guard_inv_def drop_lock_def hm_laws split: if_splits)

lemma make_room_inv: "guard_inv c t s \<Longrightarrow> guard_inv c t (make_room c ip s)"
  using hm.len_del_le [of "ips s"]
  by (auto simp: guard_inv_def make_room_def hm_laws split: option.splits if_splits
      intro: order_trans)

text \<open>The victim is an entry of the map, and a locked one only if every entry is locked.\<close>

lemma victim_Some:
  assumes "victim m = Some v"
  shows "\<exists>a. (v, a) \<in> set m \<and> (locked_until a = None \<or> (\<forall>(ip, b)\<in>set m. locked_until b \<noteq> None))"
proof (cases "min_by_key (\<lambda>(ip, a). last_seen a) (filter (\<lambda>(ip, a). locked_until a = None) m)")
  case None
  then have all: "\<forall>(ip, b)\<in>set m. locked_until b \<noteq> None"
    by (auto simp: filter_empty_conv)
  from None assms obtain a where "min_by_key (\<lambda>(ip, a). last_seen a) m = Some (v, a)"
    by (auto simp: victim_def)
  with all show ?thesis by (auto dest: min_by_key_in)
next
  case (Some p)
  with assms obtain a where "p = (v, a)" by (cases p) (auto simp: victim_def)
  with Some show ?thesis by (auto dest!: min_by_key_in)
qed

lemma victim_None: "victim m = None \<longleftrightarrow> m = []"
  by (auto simp: victim_def split: option.splits)

lemma make_room_len:
  assumes "guard_inv c t s" "cfg_wf c" "hm_get (ips s) ip = None"
  shows "length (ips (make_room c ip s)) < max_ips c"
proof (cases "length (ips s) < max_ips c")
  case True
  then show ?thesis by (simp add: make_room_def)
next
  case False
  with assms have ne: "ips s \<noteq> []" by (auto simp: cfg_wf_def)
  then obtain v where v: "victim (ips s) = Some v"
    using victim_None by (metis not_None_eq)
  then obtain a where "(v, a) \<in> set (ips s)" using victim_Some by blast
  then have "hm_get (ips s) v = Some a"
    using assms(1) by (simp add: guard_inv_def hm_get_in)
  with v assms False ne show ?thesis
    by (auto simp: make_room_def guard_inv_def hm.len_del cfg_wf_def)
qed

lemma make_room_present: "hm_get (ips s) ip \<noteq> None \<Longrightarrow> make_room c ip s = s"
  by (auto simp: make_room_def)

lemma make_room_same: "length (ips s) < max_ips c \<Longrightarrow> make_room c ip s = s"
  by (simp add: make_room_def)

lemma sorted_dropWhile: "sorted xs \<Longrightarrow> sorted (dropWhile P xs)"
  by (induction xs) auto

lemma record_event_inv:
  assumes inv: "guard_inv c t s" and "t \<le> now" and c: "cfg_wf c"
    and lock: "active_lock s ip = None"
    and room: "hm_get (ips s) ip \<noteq> None \<or> length (ips s) < max_ips c"
  shows "guard_inv c now (snd (record_event c ip now s))"
proof -
  let ?a = "case hm_get (ips s) ip of None \<Rightarrow> \<lparr>events = [], locked_until = None, last_seen = now\<rparr> | Some a \<Rightarrow> a"
  have wf: "hm_wf (ips s)" and len: "length (ips s) \<le> max_ips c"
    and ok: "\<And>ip a. hm_get (ips s) ip = Some a \<Longrightarrow> activity_ok c now a"
    using inv \<open>t \<le> now\<close> by (auto simp: guard_inv_def intro: activity_ok_mono)
  have a: "sorted (events ?a)" "\<forall>e\<in>set (events ?a). e \<le> now" "locked_until ?a = None"
    using ok lock by (auto simp: activity_ok_def active_lock_def split: option.splits)
      (meson order_trans)+
  have put: "length (hm_insert ip b (ips s)) \<le> max_ips c" for b
    using hm.len_put_bound [OF wf len] room by blast
  show ?thesis
    using a wf put ok c
    by (auto simp: record_event_def Let_def guard_inv_def hm_laws activity_ok_def cfg_wf_def
        sorted_append sorted_dropWhile dest: set_dropWhileD split: if_splits)
qed

lemma active_lock_drop: "active_lock (drop_lock ip s) ip = None"
  by (simp add: drop_lock_def active_lock_def hm_laws)

lemma active_lock_make_room_None:
  "active_lock s ip = None \<Longrightarrow> active_lock (make_room c ip s) ip = None"
  by (auto simp: make_room_def active_lock_def hm_laws split: option.splits)

lemma guard_step_inv:
  assumes inv: "guard_inv c t s" and "t \<le> now" and c: "cfg_wf c"
  shows "guard_inv c now (snd (guard_step c ip counts now s))"
proof -
  let ?s = "guard_cleanup c now s"
  have inv1: "guard_inv c t ?s" using inv by (rule guard_cleanup_inv)
  have rec: "guard_inv c now (snd (record_event c ip now (make_room c ip r)))"
    if "guard_inv c t r" "active_lock r ip = None" for r
  proof (rule record_event_inv [OF make_room_inv [OF that(1)] \<open>t \<le> now\<close> c])
    show "active_lock (make_room c ip r) ip = None"
      using that(2) by (rule active_lock_make_room_None)
    show "hm_get (ips (make_room c ip r)) ip \<noteq> None \<or> length (ips (make_room c ip r)) < max_ips c"
      using make_room_len [OF that(1) c] make_room_present [of r ip c] by metis
  qed
  show ?thesis
    using inv1 \<open>t \<le> now\<close> drop_lock_inv [OF inv1, of ip]
    by (auto simp: guard_step_def Let_def active_lock_drop rec intro: guard_inv_mono
        split: option.splits)
qed

section \<open>What a guard promises\<close>

text \<open>
  The specification keeps, for every address, all its offences since the last reset and its
  lock: nothing is pruned, cleaned up or evicted. An offence locks the address when \<open>limit\<close>
  offences, itself included, lie within one window.
\<close>

type_synonym ip_spec = "instant list \<times> instant option"

definition spec_strike ::
    "guard_cfg \<Rightarrow> bool \<Rightarrow> instant \<Rightarrow> ip_spec \<Rightarrow> nat option \<times> ip_spec" where
  "spec_strike c counts now st =
     (let locked = (case snd st of None \<Rightarrow> False | Some u \<Rightarrow> u > now);
          h = (if snd st = None then fst st else [])
      in if locked then (Some (lock_secs (the (snd st)) now), st)
         else if \<not> counts then (None, (h, None))
         else if length (filter (\<lambda>t. now - t < window c) (h @ [now])) \<ge> limit c
           then (Some (as_secs (lock_dur c)), ([], Some (now + lock_dur c)))
         else (None, (h @ [now], None)))"

type_synonym request = "ip_addr \<times> bool \<times> instant"

fun guard_run :: "guard_cfg \<Rightarrow> guard_state \<Rightarrow> request list \<Rightarrow> nat option list" where
  "guard_run c s [] = []"
| "guard_run c s ((ip, counts, now) # rs) =
     (let r = guard_step c ip counts now s in fst r # guard_run c (snd r) rs)"

fun spec_run :: "guard_cfg \<Rightarrow> (ip_addr \<Rightarrow> ip_spec) \<Rightarrow> request list \<Rightarrow> nat option list" where
  "spec_run c \<sigma> [] = []"
| "spec_run c \<sigma> ((ip, counts, now) # rs) =
     (let r = spec_strike c counts now (\<sigma> ip) in fst r # spec_run c (\<sigma>(ip := snd r)) rs)"

fun in_order :: "instant \<Rightarrow> request list \<Rightarrow> bool" where
  "in_order t [] = True"
| "in_order t ((ip, counts, now) # rs) = (t \<le> now \<and> in_order now rs)"

text \<open>
  How a tracked entry and the specification agree at time \<open>t\<close>: an absent entry means the
  lock is over and every offence is outside the window; a present one has the same lock, and
  what it has forgotten is outside the window.
\<close>

fun agrees :: "guard_cfg \<Rightarrow> instant \<Rightarrow> ip_activity option \<Rightarrow> ip_spec \<Rightarrow> bool" where
  "agrees c t None (h, l) =
     ((case l of None \<Rightarrow> True | Some u \<Rightarrow> u \<le> t) \<and> (\<forall>e\<in>set h. window c \<le> t - e))"
| "agrees c t (Some a) (h, l) =
     (locked_until a = l \<and> (\<exists>old. h = old @ events a \<and> (\<forall>e\<in>set old. window c \<le> t - e)))"

lemma agrees_mono: "agrees c t a sp \<Longrightarrow> t \<le> t' \<Longrightarrow> agrees c t' a sp"
proof (cases a; cases sp)
  fix h l
  assume asm: "agrees c t a sp" "t \<le> t'" "a = None" "sp = (h, l)"
  then show ?thesis
    by (auto split: option.splits intro: order_trans [OF _ diff_le_mono])
next
  fix a' h l
  assume asm: "agrees c t a sp" "t \<le> t'" "a = Some a'" "sp = (h, l)"
  then obtain old where "h = old @ events a'" "\<forall>e\<in>set old. window c \<le> t - e" by auto
  then have "h = old @ events a'" "\<forall>e\<in>set old. window c \<le> t' - e"
    using asm(2) by (auto intro: order_trans [OF _ diff_le_mono])
  with asm show ?thesis by auto
qed

lemma filter_recent_dropWhile:
  assumes "sorted xs"
  shows "filter (\<lambda>t. now - t < w) xs = dropWhile (\<lambda>t. (now::nat) - t \<ge> w) xs"
  using assms
proof (induction xs)
  case Nil
  then show ?case by simp
next
  case (Cons x xs)
  show ?case
  proof (cases "now - x \<ge> w")
    case True
    with Cons show ?thesis by simp
  next
    case False
    with Cons.prems have "\<forall>t\<in>set xs. now - t < w" by fastforce
    with False show ?thesis by (simp add: filter_id_conv)
  qed
qed

lemma agrees_cleanup:
  assumes inv: "guard_inv c t s" and "t \<le> now"
    and ag: "agrees c t (hm_get (ips s) ip) sp"
  shows "agrees c now (hm_get (ips (guard_cleanup c now s)) ip) sp"
proof (cases "hm_get (ips s) ip")
  case None
  with inv ag show ?thesis
    using agrees_mono [OF _ \<open>t \<le> now\<close>] by (simp add: guard_cleanup_get guard_inv_def)
next
  case (Some a)
  obtain h l where sp: "sp = (h, l)" by force
  have ok: "activity_ok c t a" using inv Some by (auto simp: guard_inv_def)
  have ag': "agrees c now (Some a) sp" using agrees_mono [OF ag \<open>t \<le> now\<close>] Some by simp
  have "agrees c now None sp" if drop: "\<not> keep_activity c now a"
  proof -
    from ag' sp obtain old where h: "h = old @ events a"
      and old: "\<forall>e\<in>set old. window c \<le> now - e" and l: "locked_until a = l" by auto
    have "\<forall>e\<in>set (events a). window c \<le> now - e"
      using ok drop by (auto simp: activity_ok_def keep_activity_def not_less
          intro: order_trans [OF _ diff_le_mono2])
    with h old l drop sp show ?thesis
      by (auto simp: keep_activity_def not_less split: option.splits)
  qed
  with ag' Some inv show ?thesis
    by (auto simp: guard_cleanup_get guard_inv_def simp del: agrees.simps)
qed

text \<open>The offence itself, on an address that is not locked.\<close>

lemma record_event_agrees:
  assumes ok: "\<And>a. hm_get (ips s) ip = Some a \<Longrightarrow> activity_ok c now a"
    and ag: "agrees c now (hm_get (ips s) ip) (h, None)" and "0 < window c"
  shows "fst (record_event c ip now s) = fst (spec_strike c True now (h, None))
       \<and> agrees c now (hm_get (ips (snd (record_event c ip now s))) ip)
           (snd (spec_strike c True now (h, None)))"
proof -
  let ?stale = "\<lambda>t. now - t \<ge> window c"
  obtain a where a: "a = (case hm_get (ips s) ip of
      None \<Rightarrow> \<lparr>events = [], locked_until = None, last_seen = now\<rparr> | Some a \<Rightarrow> a)" by blast
  obtain ps where ps: "ps = dropWhile ?stale (events a)" by blast
  obtain old where h: "h = old @ events a" and old: "\<forall>e\<in>set old. ?stale e"
    using ag a by (cases "hm_get (ips s) ip") auto
  have lock: "locked_until a = None"
    using ag a by (cases "hm_get (ips s) ip") auto
  have srt: "sorted (events a)"
    using ok a by (cases "hm_get (ips s) ip") (auto simp: activity_ok_def)
  have recent: "filter (\<lambda>t. now - t < window c) (h @ [now]) = ps @ [now]"
    using old filter_recent_dropWhile [OF srt, of now "window c"] \<open>0 < window c\<close>
    by (auto simp: h ps not_less filter_empty_conv)
  have hist: "h @ [now] = (old @ takeWhile ?stale (events a)) @ (ps @ [now])"
    by (simp add: h ps)
  have forgotten: "\<forall>e\<in>set (old @ takeWhile ?stale (events a)). ?stale e"
    using old by (auto dest: set_takeWhileD)
  have rec: "record_event c ip now s =
      (if length (ps @ [now]) \<ge> limit c
       then (Some (as_secs (lock_dur c)), s\<lparr>ips := hm_insert ip
          \<lparr>events = [], locked_until = Some (now + lock_dur c), last_seen = now\<rparr> (ips s)\<rparr>)
       else (None, s\<lparr>ips := hm_insert ip
          \<lparr>events = ps @ [now], locked_until = None, last_seen = now\<rparr> (ips s)\<rparr>))"
    using lock by (cases a) (simp add: record_event_def Let_def a [symmetric] ps)
  have spec: "spec_strike c True now (h, None) =
      (if length (ps @ [now]) \<ge> limit c
       then (Some (as_secs (lock_dur c)), ([], Some (now + lock_dur c)))
       else (None, (h @ [now], None)))"
    unfolding recent [symmetric] by (simp add: spec_strike_def Let_def del: filter.simps filter_append)
  show ?thesis
    unfolding rec spec using hist forgotten by (auto simp: hm_laws)
qed

text \<open>A map whose keys all lie in a set of at most \<open>n\<close> addresses has room for another of them.\<close>

lemma hm_room:
  assumes "hm_wf m" "dom (hm_get m) \<subseteq> K" "finite K" "card K \<le> n" "ip \<in> K" "hm_get m ip = None"
  shows "length m < n"
proof -
  have "length m = card (dom (hm_get m))"
    using assms(1) by (metis distinct_card dom_map_of_conv_image_fst hm_get_def hm_wf_def
        length_map list.set_map ext)
  also have "\<dots> < card K"
    using assms by (intro psubset_card_mono) auto
  finally show ?thesis using assms(4) by simp
qed

text \<open>
  One step against the specification: the verdicts are the same, the entry of the caller
  agrees with the specification's new state, and the entries of the others with their old one.
  At most \<open>max_ips\<close> addresses are about, so nobody is evicted.
\<close>

definition tracks :: "guard_cfg \<Rightarrow> instant \<Rightarrow> ip_addr set \<Rightarrow> guard_state \<Rightarrow> (ip_addr \<Rightarrow> ip_spec) \<Rightarrow> bool" where
  "tracks c t K s \<sigma> \<longleftrightarrow>
     guard_inv c t s \<and> dom (hm_get (ips s)) \<subseteq> K \<and>
     (\<forall>i. agrees c t (hm_get (ips s) i) (\<sigma> i) \<and> (snd (\<sigma> i) \<noteq> None \<longrightarrow> fst (\<sigma> i) = []))"

lemma record_tracks:
  assumes tr: "tracks c now K s (\<sigma>(ip := (h, None)))" and c: "cfg_wf c"
    and K: "finite K" "card K \<le> max_ips c" "ip \<in> K"
  shows "fst (record_event c ip now (make_room c ip s)) = fst (spec_strike c True now (h, None))
       \<and> tracks c now K (snd (record_event c ip now (make_room c ip s)))
           (\<sigma>(ip := snd (spec_strike c True now (h, None))))"
proof -
  have inv: "guard_inv c now s" and ag: "\<And>i. agrees c now (hm_get (ips s) i) ((\<sigma>(ip := (h, None))) i)"
    using tr by (auto simp: tracks_def simp del: agrees.simps)
  have room: "hm_get (ips s) ip \<noteq> None \<or> length (ips s) < max_ips c"
    using hm_room [of "ips s" K] tr K by (auto simp: tracks_def guard_inv_def)
  then have same: "make_room c ip s = s"
    using make_room_same make_room_present by blast
  have ag_ip: "agrees c now (hm_get (ips s) ip) (h, None)" using ag [of ip] by simp
  have lock: "active_lock s ip = None"
    using ag_ip by (cases "hm_get (ips s) ip") (auto simp: active_lock_def)
  have others: "hm_get (ips (snd (record_event c ip now s))) i = hm_get (ips s) i" if "i \<noteq> ip" for i
    using that by (auto simp: record_event_def Let_def hm_laws)
  have dom: "dom (hm_get (ips (snd (record_event c ip now s)))) \<subseteq> K"
    using tr K(3) by (auto simp: record_event_def Let_def hm_laws tracks_def split: if_splits)
  have inv': "guard_inv c now (snd (record_event c ip now s))"
    by (rule record_event_inv [OF inv order_refl c lock room])
  have step: "fst (record_event c ip now s) = fst (spec_strike c True now (h, None)) \<and>
      agrees c now (hm_get (ips (snd (record_event c ip now s))) ip) (snd (spec_strike c True now (h, None)))"
    by (rule record_event_agrees [OF _ ag_ip])
      (use inv c in \<open>auto simp: guard_inv_def cfg_wf_def\<close>)
  have reset: "snd (snd (spec_strike c True now (h, None))) \<noteq> None \<longrightarrow>
      fst (snd (spec_strike c True now (h, None))) = []"
    by (auto simp: spec_strike_def Let_def)
  show ?thesis
  proof -
    let ?s' = "snd (record_event c ip now s)" and ?sp = "snd (spec_strike c True now (h, None))"
    have "agrees c now (hm_get (ips ?s') i) ((\<sigma>(ip := ?sp)) i) \<and>
        (snd ((\<sigma>(ip := ?sp)) i) \<noteq> None \<longrightarrow> fst ((\<sigma>(ip := ?sp)) i) = [])" for i
    proof (cases "i = ip")
      case True
      with step reset show ?thesis by simp
    next
      case False
      moreover from tr False have "snd (\<sigma> i) \<noteq> None \<longrightarrow> fst (\<sigma> i) = []"
        unfolding tracks_def by (metis fun_upd_other)
      ultimately show ?thesis
        using others [OF False] ag [of i] by (simp del: agrees.simps)
    qed
    then show ?thesis
      unfolding same tracks_def using step inv' dom by blast
  qed
qed

lemma tracks_cleanup:
  assumes tr: "tracks c t K s \<sigma>" and t: "t \<le> now"
  shows "tracks c now K (guard_cleanup c now s) \<sigma>"
proof -
  have inv: "guard_inv c t s" using tr by (simp add: tracks_def)
  have "dom (hm_get (ips (guard_cleanup c now s))) \<subseteq> dom (hm_get (ips s))"
    using inv by (auto simp: guard_cleanup_get guard_inv_def split: option.splits)
  moreover have "agrees c now (hm_get (ips (guard_cleanup c now s)) i) (\<sigma> i)" for i
    using agrees_cleanup [OF inv t] tr by (simp add: tracks_def)
  ultimately show ?thesis
    using tr guard_inv_mono [OF guard_cleanup_inv [OF inv] t] unfolding tracks_def by blast
qed

lemma tracks_drop_lock:
  assumes tr: "tracks c now K s \<sigma>" and l: "active_lock s ip = Some u"
  shows "tracks c now K (drop_lock ip s) (\<sigma>(ip := ([], None)))"
proof -
  have "dom (hm_get (ips (drop_lock ip s))) \<subseteq> dom (hm_get (ips s))"
    by (auto simp: drop_lock_def hm_laws)
  moreover have "hm_get (ips (drop_lock ip s)) i = (if i = ip then None else hm_get (ips s) i)" for i
    using l by (simp add: drop_lock_def hm_laws)
  ultimately show ?thesis
    using tr drop_lock_inv [of c now s ip] unfolding tracks_def by (auto simp: subset_iff)
qed

lemma tracks_lock:
  assumes "tracks c now K s \<sigma>"
  shows "active_lock s ip = snd (\<sigma> ip) \<or>
     (hm_get (ips s) ip = None \<and> (\<exists>u\<le>now. snd (\<sigma> ip) = Some u))"
proof -
  have "agrees c now (hm_get (ips s) ip) (fst (\<sigma> ip), snd (\<sigma> ip))"
    using assms by (simp add: tracks_def)
  then show ?thesis
    by (cases "hm_get (ips s) ip"; cases "\<sigma> ip") (auto simp: active_lock_def split: option.splits)
qed

lemma tracks_unlocked:
  assumes "tracks c now K s \<sigma>" "active_lock s ip = None"
  shows "tracks c now K s (\<sigma>(ip := (if snd (\<sigma> ip) = None then fst (\<sigma> ip) else [], None)))"
proof (cases "snd (\<sigma> ip) = None")
  case True
  then have "\<sigma>(ip := (fst (\<sigma> ip), None)) = \<sigma>" by (metis fun_upd_triv prod.collapse)
  with True assms show ?thesis by simp
next
  case False
  with assms tracks_lock [OF assms(1), of ip] have none: "hm_get (ips s) ip = None" by auto
  with False assms show ?thesis by (auto simp: tracks_def)
qed

theorem guard_step_tracks:
  assumes tr: "tracks c t K s \<sigma>" and t: "t \<le> now" and c: "cfg_wf c"
    and K: "finite K" "card K \<le> max_ips c" "ip \<in> K"
  shows "fst (guard_step c ip counts now s) = fst (spec_strike c counts now (\<sigma> ip))
       \<and> tracks c now K (snd (guard_step c ip counts now s))
           (\<sigma>(ip := snd (spec_strike c counts now (\<sigma> ip))))"
proof -
  let ?s = "guard_cleanup c now s"
  let ?h = "if snd (\<sigma> ip) = None then fst (\<sigma> ip) else []"
  have tr1: "tracks c now K ?s \<sigma>" using tr t by (rule tracks_cleanup)
  have open_case: "fst (if \<not> counts then (None, r) else record_event c ip now (make_room c ip r))
        = fst (spec_strike c counts now (\<sigma> ip)) \<and>
      tracks c now K (snd (if \<not> counts then (None, r) else record_event c ip now (make_room c ip r)))
           (\<sigma>(ip := snd (spec_strike c counts now (\<sigma> ip))))"
    if r: "tracks c now K r (\<sigma>(ip := (?h, None)))"
      and over: "case snd (\<sigma> ip) of None \<Rightarrow> True | Some u \<Rightarrow> u \<le> now" for r
  proof -
    have sp: "spec_strike c True now (\<sigma> ip) = spec_strike c True now (?h, None)"
      "spec_strike c False now (\<sigma> ip) = (None, (?h, None))"
      using over by (auto simp: spec_strike_def Let_def split: option.splits)
    show ?thesis
      using record_tracks [OF r c K] r by (cases counts) (simp_all add: sp)
  qed
  show ?thesis
  proof (cases "active_lock ?s ip")
    case None
    have "case snd (\<sigma> ip) of None \<Rightarrow> True | Some u \<Rightarrow> u \<le> now"
      using tracks_lock [OF tr1, of ip] None by (auto split: option.splits)
    from open_case [OF tracks_unlocked [OF tr1 None] this] show ?thesis
      by (simp add: guard_step_def Let_def None)
  next
    case (Some u)
    then have l: "snd (\<sigma> ip) = Some u"
      using tracks_lock [OF tr1, of ip] by (auto simp: active_lock_def)
    show ?thesis
    proof (cases "u > now")
      case True
      have "\<sigma>(ip := \<sigma> ip) = \<sigma>" by simp
      then show ?thesis
        using True Some l tr1 by (simp add: guard_step_def Let_def spec_strike_def)
    next
      case False
      from open_case [of "drop_lock ip ?s"] tracks_drop_lock [OF tr1 Some] l False show ?thesis
        by (simp add: guard_step_def Let_def Some)
    qed
  qed
qed

theorem guard_run_spec:
  assumes "tracks c t K s \<sigma>" "in_order t rs" "cfg_wf c"
    and K: "finite K" "card K \<le> max_ips c" "fst ` set rs \<subseteq> K"
  shows "guard_run c s rs = spec_run c \<sigma> rs"
  using assms
proof (induction rs arbitrary: s \<sigma> t)
  case Nil
  then show ?case by simp
next
  case (Cons r rs)
  obtain ip counts now where r: "r = (ip, counts, now)" by (cases r)
  have "fst (guard_step c ip counts now s) = fst (spec_strike c counts now (\<sigma> ip))"
    and "tracks c now K (snd (guard_step c ip counts now s))
           (\<sigma>(ip := snd (spec_strike c counts now (\<sigma> ip))))"
    using guard_step_tracks [OF Cons.prems(1) _ Cons.prems(3) K(1,2), of now ip counts] Cons.prems r
    by auto
  with Cons.IH [OF this(2)] Cons.prems r show ?case
    by (simp add: Let_def fun_upd_def)
qed

lemma tracks_new: "tracks c t K (guard_new t0) (\<lambda>_. ([], None))"
  by (simp add: tracks_def guard_inv_new) (auto simp: guard_new_def)

lemma tracks_remove:
  assumes tr: "tracks c now K s \<sigma>"
  shows "tracks c now K (s\<lparr>ips := hm_remove ip (ips s)\<rparr>) (\<sigma>(ip := ([], None)))"
proof -
  have "length (hm_remove ip (ips s)) \<le> length (ips s)"
    using tr by (simp add: tracks_def guard_inv_def hm.len_del_le)
  then show ?thesis
    using tr by (auto simp: tracks_def guard_inv_def hm_laws split: if_splits)
qed

lemma tracks_mono:
  "tracks c t K s \<sigma> \<Longrightarrow> t \<le> t' \<Longrightarrow> tracks c t' K s \<sigma>"
  unfolding tracks_def using guard_inv_mono agrees_mono by blast

section \<open>The contract of a lockout\<close>

text \<open>
  What the callers of a guard rely on (the middleware in \<open>src/main.rs\<close> and the admin
  authentication): while an address is locked every request of its own is refused with
  between 1 and \<open>dur\<close> seconds, and the requests of others do not lift the lock as long as the
  table has room. The lemma below lifts this to whole runs.
\<close>

primrec answers :: "('r \<Rightarrow> instant \<Rightarrow> 's \<Rightarrow> nat option \<times> 's) \<Rightarrow> ('r \<times> instant) list \<Rightarrow> 's \<Rightarrow> nat option list \<times> 's" where
  "answers f [] s = ([], s)"
| "answers f (x # xs) s =
     (let r = f (fst x) (snd x) s; rest = answers f xs (snd r) in (fst r # fst rest, snd rest))"

fun times_in :: "instant \<Rightarrow> ('r \<times> instant) list \<Rightarrow> bool" where
  "times_in t [] = True"
| "times_in t (x # xs) = (t \<le> snd x \<and> times_in (snd x) xs)"

definition refused :: "nat \<Rightarrow> nat option \<Rightarrow> bool" where
  "refused dur v = (case v of None \<Rightarrow> False | Some w \<Rightarrow> 1 \<le> w \<and> w \<le> dur)"

text \<open>The verdicts given to one address in a run.\<close>

fun own_verdicts :: "('r \<Rightarrow> ip_addr) \<Rightarrow> ip_addr \<Rightarrow> ('r \<times> instant) list \<Rightarrow> nat option list \<Rightarrow> nat option list" where
  "own_verdicts who ip (x # xs) (v # vs) =
     (if who (fst x) = ip then [v] else []) @ own_verdicts who ip xs vs"
| "own_verdicts who ip _ _ = []"

locale lockout =
  fixes answer :: "'r \<Rightarrow> instant \<Rightarrow> 's \<Rightarrow> nat option \<times> 's"
    and who :: "'r \<Rightarrow> ip_addr"
    and lock_of :: "'s \<Rightarrow> ip_addr \<Rightarrow> instant option"
    and ok :: "instant \<Rightarrow> 's \<Rightarrow> bool"
    and tracked :: "'s \<Rightarrow> nat"
    and cap :: nat
    and dur :: nat
  assumes ok_answer: "ok t s \<Longrightarrow> t \<le> now \<Longrightarrow> ok now (snd (answer r now s))"
    and tracked_answer: "ok t s \<Longrightarrow> t \<le> now \<Longrightarrow> tracked (snd (answer r now s)) \<le> Suc (tracked s)"
    and rejects: "ok t s \<Longrightarrow> t \<le> now \<Longrightarrow> lock_of s (who r) = Some u \<Longrightarrow> now < u \<Longrightarrow>
          refused dur (fst (answer r now s))"
    and keeps: "ok t s \<Longrightarrow> t \<le> now \<Longrightarrow> lock_of s ip = Some u \<Longrightarrow> now < u \<Longrightarrow> tracked s < cap \<Longrightarrow>
          lock_of (snd (answer r now s)) ip = Some u"
    and bounded: "ok t s \<Longrightarrow> tracked s \<le> cap"
begin

lemma run_ok: "ok t s \<Longrightarrow> times_in t rs \<Longrightarrow> \<exists>t'. ok t' (snd (answers answer rs s))"
  by (induction rs arbitrary: t s) (auto simp: Let_def intro: ok_answer)

lemma run_bounded: "ok t s \<Longrightarrow> times_in t rs \<Longrightarrow> tracked (snd (answers answer rs s)) \<le> cap"
  using run_ok bounded by blast

lemma lock_holds:
  assumes "ok t s" "lock_of s ip = Some u" "times_in t rs" "\<forall>x\<in>set rs. snd x < u"
    and "tracked s + length rs \<le> cap"
  shows "lock_of (snd (answers answer rs s)) ip = Some u \<and>
    list_all (refused dur) (own_verdicts who ip rs (fst (answers answer rs s)))"
  using assms
proof (induction rs arbitrary: t s)
  case Nil
  then show ?case by simp
next
  case (Cons x rs)
  let ?s = "snd (answer (fst x) (snd x) s)"
  have "ok (snd x) ?s" "lock_of ?s ip = Some u" "tracked ?s + length rs \<le> cap"
    using Cons.prems ok_answer [of t s "snd x" "fst x"] keeps [of t s "snd x" ip u "fst x"]
      tracked_answer [of t s "snd x" "fst x"]
    by auto
  with Cons.IH [OF this(1,2)] Cons.prems
  have "lock_of (snd (answers answer rs ?s)) ip = Some u \<and>
    list_all (refused dur) (own_verdicts who ip rs (fst (answers answer rs ?s)))" by simp
  moreover have "who (fst x) = ip \<longrightarrow> refused dur (fst (answer (fst x) (snd x) s))"
    using Cons.prems rejects [of t s "snd x" "fst x" u] by auto
  ultimately show ?case by (auto simp: Let_def)
qed

end

text \<open>Facts about one step that both guards' interpretations use.\<close>

lemma lock_secs_bounds:
  assumes inv: "guard_inv c t s" and t: "t \<le> now" and l: "active_lock s ip = Some u"
    and d: "1 \<le> as_secs (lock_dur c)"
  shows "1 \<le> lock_secs u now \<and> lock_secs u now \<le> as_secs (lock_dur c)"
proof -
  obtain a where "hm_get (ips s) ip = Some a" "locked_until a = Some u"
    using l by (auto simp: active_lock_def bind_eq_Some_conv)
  moreover from this have "activity_ok c t a" using inv by (simp add: guard_inv_def)
  ultimately have "u \<le> t + lock_dur c" by (simp add: activity_ok_def)
  then have "as_secs (u - now) \<le> as_secs (lock_dur c)" using t by (intro as_secs_mono) simp
  with d show ?thesis by (simp add: lock_secs_def)
qed

lemma active_lock_cleanup:
  assumes "hm_wf (ips s)" "active_lock s ip = Some u" "now < u"
  shows "active_lock (guard_cleanup c now s) ip = Some u"
  using assms by (auto simp: active_lock_def guard_cleanup_get bind_eq_Some_conv keep_activity_def)

lemma guard_step_locked:
  assumes "hm_wf (ips s)" "active_lock s ip = Some u" "now < u"
  shows "guard_step c ip counts now s = (Some (lock_secs u now), guard_cleanup c now s)"
  using active_lock_cleanup [OF assms] assms(3) by (simp add: guard_step_def Let_def)

lemma record_event_others: "i \<noteq> ip \<Longrightarrow> active_lock (snd (record_event c ip now s)) i = active_lock s i"
  by (simp add: record_event_def Let_def active_lock_def hm_laws)

lemma drop_lock_others: "i \<noteq> ip \<Longrightarrow> active_lock (drop_lock ip s) i = active_lock s i"
  by (simp add: drop_lock_def active_lock_def hm_laws)

lemma drop_lock_len: "hm_wf (ips s) \<Longrightarrow> length (ips (drop_lock ip s)) \<le> length (ips s)"
  by (simp add: drop_lock_def hm.len_del_le)

lemma guard_step_keeps_lock:
  assumes wf: "hm_wf (ips s)" and l: "active_lock s i = Some u" and u: "now < u"
    and room: "length (ips s) < max_ips c"
  shows "active_lock (snd (guard_step c ip counts now s)) i = Some u"
proof (cases "i = ip")
  case True
  then show ?thesis using guard_step_locked [OF wf _ u] active_lock_cleanup [OF wf l u] l by simp
next
  case False
  let ?s = "guard_cleanup c now s"
  have l1: "active_lock ?s i = Some u" by (rule active_lock_cleanup [OF wf l u])
  have len: "length (ips ?s) < max_ips c"
    using guard_cleanup_len [of c now s] room by simp
  have len': "length (ips (drop_lock ip ?s)) < max_ips c"
    using drop_lock_len [of ?s ip] wf len by simp
  show ?thesis
    using False l1 record_event_others [OF False] drop_lock_others [OF False]
      make_room_same [OF len] make_room_same [OF len']
    by (simp add: guard_step_def Let_def split: option.splits)
qed

lemma guard_step_len:
  assumes inv: "guard_inv c t s"
  shows "length (ips (snd (guard_step c ip counts now s))) \<le> Suc (length (ips s))"
proof -
  have rec: "length (ips (snd (record_event c ip now (make_room c ip r)))) \<le> Suc (length (ips r))"
    if "guard_inv c t r" for r
  proof -
    have "hm_wf (ips (make_room c ip r))" "length (ips (make_room c ip r)) \<le> length (ips r)"
      using that by (auto simp: guard_inv_def make_room_def hm.len_del_le hm_laws split: option.splits)
    then show ?thesis
      using hm.len_put_Suc [of "ips (make_room c ip r)"]
      by (auto simp: record_event_def Let_def intro: order_trans)
  qed
  let ?s = "guard_cleanup c now s"
  have inv1: "guard_inv c t ?s" using inv by (rule guard_cleanup_inv)
  have "length (ips ?s) \<le> length (ips s)" by (rule guard_cleanup_len)
  moreover have "length (ips (drop_lock ip ?s)) \<le> length (ips ?s)"
    using inv1 by (simp add: guard_inv_def drop_lock_len)
  ultimately show ?thesis
    using rec [OF inv1] rec [OF drop_lock_inv [OF inv1, of ip]]
    by (auto simp: guard_step_def Let_def split: option.splits)
qed

end
