(* ===== verification/ScannerGuard.thy ===== *)
theory ScannerGuard
  imports IpGuard
begin

text \<open>
  \<open>src/scanner_guard.rs\<close>: three requests for known scanner paths within a minute ban an
  address for 15 minutes. \<open>percent_encoding::percent_decode_str(..).decode_utf8_lossy()\<close> is
  third-party code and is the parameter \<open>decode\<close>; nothing is assumed about it.
\<close>

definition scanner_cfg :: guard_cfg where
  "scanner_cfg = \<lparr>window = 60 * ns_per_sec, lock_dur = 15 * 60 * ns_per_sec,
     limit = 3, max_ips = 50000\<rparr>"

definition scanner_segment :: "string \<Rightarrow> bool" where
  "scanner_segment seg \<longleftrightarrow>
     seg = ''.env'' \<or> starts_with ''.env.'' seg \<or> seg = ''.git'' \<or> starts_with ''wp-'' seg \<or>
     seg = ''wordpress'' \<or> seg = ''xmlrpc.php'' \<or> seg = ''phpinfo.php''"

fun has_var_www :: "string list \<Rightarrow> bool" where
  "has_var_www (a # b # rest) = ((a = ''var'' \<and> b = ''www'') \<or> has_var_www (b # rest))"
| "has_var_www _ = False"

definition is_scanner_path :: "(string \<Rightarrow> string) \<Rightarrow> string \<Rightarrow> bool" where
  "is_scanner_path decode path =
     (let segments = filter (\<lambda>seg. seg \<noteq> []) (split_on CHR ''/'' (map to_ascii_lower (decode path)))
      in list_ex scanner_segment segments \<or> has_var_www segments)"

definition scanner_check ::
    "(string \<Rightarrow> string) \<Rightarrow> ip_addr \<Rightarrow> string \<Rightarrow> instant \<Rightarrow> guard_state \<Rightarrow> nat option \<times> guard_state" where
  "scanner_check decode ip path now s =
     guard_step scanner_cfg ip (is_scanner_path decode path) now s"

definition scanner_new :: "instant \<Rightarrow> guard_state" where
  "scanner_new now = guard_new now"

lemma scanner_cfg_wf: "cfg_wf scanner_cfg"
  by (simp add: cfg_wf_def scanner_cfg_def ns_per_sec_def)

lemma scanner_dur: "as_secs (lock_dur scanner_cfg) = 900"
  by (simp add: as_secs_def scanner_cfg_def ns_per_sec_def)

interpretation scan: lockout
  "\<lambda>r. scanner_check decode (fst r) (snd r)" fst active_lock "guard_inv scanner_cfg"
  "\<lambda>s. length (ips s)" "max_ips scanner_cfg" 900
  for decode :: "string \<Rightarrow> string"
proof
  fix t now :: instant and s :: guard_state and r :: "ip_addr \<times> string" and ip :: ip_addr and u
  show "guard_inv scanner_cfg t s \<Longrightarrow> length (ips s) \<le> max_ips scanner_cfg"
    by (simp add: guard_inv_def)
  assume inv: "guard_inv scanner_cfg t s" and t: "t \<le> now"
  then have wf: "hm_wf (ips s)" by (simp add: guard_inv_def)
  show "guard_inv scanner_cfg now (snd (scanner_check decode (fst r) (snd r) now s))"
    unfolding scanner_check_def by (rule guard_step_inv [OF inv t scanner_cfg_wf])
  show "length (ips (snd (scanner_check decode (fst r) (snd r) now s))) \<le> Suc (length (ips s))"
    unfolding scanner_check_def by (rule guard_step_len [OF inv])
  show "active_lock (snd (scanner_check decode (fst r) (snd r) now s)) ip = Some u"
    if "active_lock s ip = Some u" "now < u" "length (ips s) < max_ips scanner_cfg"
    unfolding scanner_check_def using that by (intro guard_step_keeps_lock [OF wf])
  show "refused 900 (fst (scanner_check decode (fst r) (snd r) now s))"
    if l: "active_lock s (fst r) = Some u" and u: "now < u"
    using lock_secs_bounds [OF inv t l] guard_step_locked [OF wf l u]
    by (simp add: scanner_check_def scanner_dur refused_def)
qed

text \<open>A whole run of requests \<open>(ip, path, now)\<close>.\<close>

definition scanner_run ::
    "(string \<Rightarrow> string) \<Rightarrow> guard_state \<Rightarrow> ((ip_addr \<times> string) \<times> instant) list \<Rightarrow> nat option list" where
  "scanner_run decode s rs = fst (answers (\<lambda>r. scanner_check decode (fst r) (snd r)) rs s)"

definition scanner_requests ::
    "(string \<Rightarrow> string) \<Rightarrow> ((ip_addr \<times> string) \<times> instant) list \<Rightarrow> request list" where
  "scanner_requests decode = map (\<lambda>((ip, path), now). (ip, is_scanner_path decode path, now))"

lemma scanner_run_guard:
  "scanner_run decode s rs = guard_run scanner_cfg s (scanner_requests decode rs)"
  by (induction rs arbitrary: s)
    (auto simp: scanner_run_def scanner_requests_def scanner_check_def Let_def)

lemma times_in_order: "times_in t rs \<Longrightarrow> in_order t (scanner_requests decode rs)"
  by (induction rs arbitrary: t) (auto simp: scanner_requests_def)

section \<open>A refusal is earned, evictions or not\<close>

text \<open>The offences of an address in a run, and the offences that justify a refusal at \<open>now\<close>.\<close>

definition offences :: "ip_addr \<Rightarrow> request list \<Rightarrow> instant list" where
  "offences ip hist = map (\<lambda>(_, _, t). t) (filter (\<lambda>(i, counts, _). i = ip \<and> counts) hist)"

definition among :: "instant list \<Rightarrow> instant list \<Rightarrow> bool" where
  "among ws xs \<longleftrightarrow> (\<forall>t. count_list ws t \<le> count_list xs t)"

definition struck :: "guard_cfg \<Rightarrow> ip_addr \<Rightarrow> request list \<Rightarrow> instant \<Rightarrow> bool" where
  "struck c ip hist b \<longleftrightarrow>
     (\<exists>ws. among (ws @ [b]) (offences ip hist) \<and> limit c \<le> length ws + 1 \<and>
        (\<forall>t \<in> set ws. t \<le> b \<and> b < t + window c))"

definition traced :: "guard_cfg \<Rightarrow> request list \<Rightarrow> guard_state \<Rightarrow> bool" where
  "traced c hist s \<longleftrightarrow>
     (\<forall>ip a. hm_get (ips s) ip = Some a \<longrightarrow>
        among (events a) (offences ip hist) \<and>
        (\<forall>u. locked_until a = Some u \<longrightarrow> (\<exists>b. struck c ip hist b \<and> u = b + lock_dur c)))"

lemma among_append: "among ws xs \<Longrightarrow> among ws (xs @ ys)"
  by (auto simp: among_def intro: le_trans)

lemma among_dropWhile: "among ws xs \<Longrightarrow> among (dropWhile P ws) xs"
proof -
  have "count_list (dropWhile P ws) t \<le> count_list ws t" for t by (induction ws) auto
  then show "among ws xs \<Longrightarrow> among (dropWhile P ws) xs" unfolding among_def by (meson le_trans)
qed

lemma among_snoc: "among ws xs \<Longrightarrow> among (ws @ [t]) (xs @ [t])"
  by (simp add: among_def)

lemma offences_append: "offences ip (hist @ later) = offences ip hist @ offences ip later"
  by (simp add: offences_def)

lemma struck_more: "struck c ip hist b \<Longrightarrow> struck c ip (hist @ later) b"
  by (auto simp: struck_def offences_append intro: among_append)

lemma traced_more: "traced c hist s \<Longrightarrow> traced c (hist @ later) s"
  by (auto simp: traced_def offences_append intro: among_append struck_more) (meson struck_more)

lemma traced_sub:
  assumes "traced c hist s" "\<And>ip a. hm_get (ips s') ip = Some a \<Longrightarrow> hm_get (ips s) ip = Some a"
  shows "traced c hist s'"
  using assms by (auto simp: traced_def)

lemma record_event_traced:
  assumes tr: "traced c hist s" and inv: "guard_inv c t s" "t \<le> now" and free: "active_lock s ip = None"
    and r: "record_event c ip now s = (res, s')"
  shows "traced c (hist @ [(ip, True, now)]) s' \<and> (res \<noteq> None \<longrightarrow> struck c ip (hist @ [(ip, True, now)]) now)"
proof -
  let ?hist = "hist @ [(ip, True, now)]"
  let ?a = "case hm_get (ips s) ip of None \<Rightarrow> \<lparr>events = [], locked_until = None, last_seen = now\<rparr> | Some a \<Rightarrow> a"
  let ?ps = "dropWhile (\<lambda>t. now - t \<ge> window c) (events ?a)"
  have wf: "hm_wf (ips s)" using inv(1) by (simp add: guard_inv_def)
  have "among (events ?a) (offences ip hist)"
    using tr by (auto simp: traced_def among_def split: option.split)
  then have ps: "among (?ps @ [now]) (offences ip ?hist)"
    by (simp add: offences_append) (simp add: offences_def among_snoc among_dropWhile)
  have a: "sorted (events ?a)" "\<forall>e \<in> set (events ?a). e \<le> now" "locked_until ?a = None"
    using inv free by (auto simp: guard_inv_def activity_ok_def active_lock_def split: option.splits) (meson order_trans)+
  have recent: "e \<le> now \<and> now < e + window c" if "e \<in> set ?ps" for e
  proof -
    have "e \<in> set (filter (\<lambda>t. now - t < window c) (events ?a))"
      using that a(1) by (simp add: filter_recent_dropWhile)
    then show ?thesis using a(2) by auto
  qed
  have str: "struck c ip ?hist now" if "limit c \<le> length (?ps @ [now])"
    unfolding struck_def using ps recent that by (intro exI [of _ ?ps]) auto
  have old: "traced c ?hist s" by (rule traced_more [OF tr])
  show ?thesis
  proof (cases "limit c \<le> length (?ps @ [now])")
    case True
    then have "s' = s\<lparr>ips := hm_insert ip (?a\<lparr>last_seen := now, events := [], locked_until := Some (now + lock_dur c)\<rparr>) (ips s)\<rparr>"
      using r by (simp add: record_event_def Let_def)
    then show ?thesis using old str [OF True] wf by (auto simp: traced_def hm_laws among_def split: if_splits)
  next
    case False
    then have "s' = s\<lparr>ips := hm_insert ip (?a\<lparr>last_seen := now, events := ?ps @ [now]\<rparr>) (ips s)\<rparr>" "res = None"
      using r by (simp_all add: record_event_def Let_def)
    then show ?thesis using old ps a(3) wf by (auto simp: traced_def hm_laws split: if_splits)
  qed
qed

lemma guard_step_traced:
  assumes tr: "traced c hist s" and inv: "guard_inv c t s" "t \<le> now" and r: "guard_step c ip counts now s = (res, s')"
  shows "traced c (hist @ [(ip, counts, now)]) s'
    \<and> (res \<noteq> None \<longrightarrow> (\<exists>b. struck c ip (hist @ [(ip, counts, now)]) b \<and> now < b + lock_dur c \<or> struck c ip (hist @ [(ip, counts, now)]) now))"
proof -
  let ?s = "guard_cleanup c now s" and ?hist = "hist @ [(ip, counts, now)]"
  have wf: "hm_wf (ips s)" using inv(1) by (simp add: guard_inv_def)
  have inv1: "guard_inv c t ?s" using inv(1) by (rule guard_cleanup_inv)
  have tr1: "traced c hist ?s"
    by (rule traced_sub [OF tr]) (auto simp: guard_cleanup_get [OF wf] split: option.splits if_splits)
  have rec: ?thesis if u: "traced c hist u" "guard_inv c t u" "active_lock u ip = None"
    "(if \<not> counts then (None, u) else record_event c ip now (make_room c ip u)) = (res, s')" for u
  proof (cases counts)
    case True
    have "traced c hist (make_room c ip u)"
      using u(2) by (intro traced_sub [OF u(1)]) (auto simp: make_room_def guard_inv_def hm_laws split: option.splits if_splits)
    from record_event_traced [OF this make_room_inv [OF u(2)] inv(2) active_lock_make_room_None [OF u(3)]] u(4) True
    show ?thesis by simp
  qed (use u(1,4) in \<open>auto simp: traced_more\<close>)
  show ?thesis
  proof (cases "active_lock ?s ip")
    case None
    then show ?thesis using rec [OF tr1 inv1] r by (simp add: guard_step_def Let_def)
  next
    case (Some u)
    show ?thesis
    proof (cases "now < u")
      case True
      then have res: "res \<noteq> None" "s' = ?s" using r Some by (auto simp: guard_step_def Let_def)
      obtain b where "struck c ip hist b" "u = b + lock_dur c"
        using tr1 Some unfolding traced_def active_lock_def bind_eq_Some_conv by blast
      then show ?thesis using True res(2) traced_more [OF tr1] struck_more [of c ip hist b] by blast
    next
      case False
      have "traced c hist (drop_lock ip ?s)"
        using inv1 by (intro traced_sub [OF tr1]) (auto simp: drop_lock_def guard_inv_def hm_laws split: if_splits)
      then show ?thesis
        using rec [OF _ drop_lock_inv [OF inv1] active_lock_drop] r Some False by (simp add: guard_step_def Let_def)
    qed
  qed
qed

lemma guard_run_earned:
  assumes "traced c hist s" "guard_inv c t s" "in_order t rs" "cfg_wf c"
    and "i < length rs" "guard_run c s rs ! i \<noteq> None" "rs ! i = (ip, counts, now)"
  shows "\<exists>b. struck c ip (hist @ take (Suc i) rs) b \<and> now < b + lock_dur c"
  using assms
proof (induction rs arbitrary: hist s t i)
  case (Cons q rs)
  obtain jp cnt n where q: "q = (jp, cnt, n)" by (metis prod_cases3)
  obtain res s1 where step: "guard_step c jp cnt n s = (res, s1)" by force
  have t: "t \<le> n" using Cons.prems(3) by (simp add: q)
  note st = guard_step_traced [OF Cons.prems(1,2) t step]
  show ?case
  proof (cases i)
    case 0
    have "0 < lock_dur c" using Cons.prems(4) by (auto simp: cfg_wf_def)
    then show ?thesis using st Cons.prems(6,7) by (auto simp: 0 q step)
  next
    case (Suc j)
    have "guard_inv c n s1" using guard_step_inv [OF Cons.prems(2) t Cons.prems(4), of jp cnt] by (simp add: step)
    from Cons.IH [OF conjunct1 [OF st] this _ Cons.prems(4), of j] show ?thesis
      using Cons.prems(3,5,6,7) by (simp add: Suc q step)
  qed
qed simp


text \<open>A concrete decoder and addresses for the witnesses.\<close>

definition plain_decode :: "string \<Rightarrow> string" where
  "plain_decode s = s"


text \<open>
  While an address is banned, every request of its own is refused with 1 to 900 seconds,
  whatever the path, and no traffic of other addresses lifts the ban while the table has room
  for it.
\<close>

lemma scanner_ban_holds:
  assumes "guard_inv scanner_cfg t s" "active_lock s ip = Some u" "times_in t rs"
    and "\<forall>x\<in>set rs. snd x < u" "length (ips s) + length rs \<le> 50000"
  shows "list_all (refused 900) (own_verdicts fst ip rs (scanner_run decode s rs))"
  using scan.lock_holds [of t s ip u rs decode] assms
  by (simp add: scanner_run_def scanner_cfg_def)

definition banned_state :: guard_state where
  "banned_state = \<lparr>ips = [(V4 1, \<lparr>events = [], locked_until = Some (900 * ns_per_sec), last_seen = 0\<rparr>)],
     last_cleanup = 0\<rparr>"

lemma scanner_ban_holds_witness:
  "list_all (refused 900) (own_verdicts fst (V4 1) [((V4 1, ''/''), 5), ((V4 2, ''/''), 6), ((V4 1, ''/''), 7)]
     (scanner_run plain_decode banned_state [((V4 1, ''/''), 5), ((V4 2, ''/''), 6), ((V4 1, ''/''), 7)]))"
  by (rule scanner_ban_holds [where t = 0 and u = "900 * ns_per_sec"])
    (auto simp: banned_state_def guard_inv_def hm_wf_def hm_get_def activity_ok_def
      active_lock_def scanner_cfg_def ns_per_sec_def split: if_splits)

text \<open>
  The table never holds more than 50000 addresses, whatever is sent and in whatever
  iteration order the map evicts.
\<close>

lemma scanner_memory_bounded:
  assumes "times_in t0 rs"
  shows "length (ips (snd (answers (\<lambda>r. scanner_check decode (fst r) (snd r)) rs (scanner_new t0)))) \<le> 50000"
  using scan.run_bounded [OF _ assms, of "scanner_new t0" decode] guard_inv_new
  by (simp add: scanner_new_def scanner_cfg_def)

lemma scanner_memory_bounded_witness:
  "length (ips (snd (answers (\<lambda>r. scanner_check plain_decode (fst r) (snd r))
     [((V4 1, ''/wp-login''), 1), ((V4 2, ''/.env''), 2)] (scanner_new 0)))) \<le> 50000"
  by (rule scanner_memory_bounded) simp

text \<open>
  Three scanner paths within a minute ban the address: from start-up the first two pass,
  the third is answered with 900 seconds.
\<close>

lemma scanner_third_probe_bans:
  assumes "t0 \<le> t1" "t1 \<le> t2" "t2 \<le> t3" "t3 < t1 + 60 * ns_per_sec"
    and "is_scanner_path decode p1" "is_scanner_path decode p2" "is_scanner_path decode p3"
  shows "scanner_run decode (scanner_new t0) [((ip, p1), t1), ((ip, p2), t2), ((ip, p3), t3)]
       = [None, None, Some 900]"
proof -
  have "scanner_run decode (scanner_new t0) [((ip, p1), t1), ((ip, p2), t2), ((ip, p3), t3)]
      = spec_run scanner_cfg (\<lambda>_. ([], None))
          (scanner_requests decode [((ip, p1), t1), ((ip, p2), t2), ((ip, p3), t3)])"
    unfolding scanner_run_guard scanner_new_def
    by (rule guard_run_spec [OF tracks_new, where K = "{ip}" and t = t0])
      (use assms scanner_cfg_wf in \<open>auto simp: scanner_requests_def scanner_cfg_def\<close>)
  also have "\<dots> = [None, None, Some 900]"
    using assms by (auto simp: scanner_requests_def spec_strike_def scanner_cfg_def as_secs_def
        ns_per_sec_def)
  finally show ?thesis .
qed

lemma scanner_third_probe_bans_witness:
  "scanner_run plain_decode (scanner_new 0)
     [((V4 1, ''/wp-login''), 1), ((V4 1, ''/.git/config''), 2), ((V4 1, ''/var/www''), 3)]
   = [None, None, Some 900]"
proof -
  have "is_scanner_path plain_decode ''/wp-login''" "is_scanner_path plain_decode ''/.git/config''"
    "is_scanner_path plain_decode ''/var/www''"
    by code_simp+
  then show ?thesis
    by (intro scanner_third_probe_bans) (simp_all add: ns_per_sec_def)
qed

end
