(* ===== verification/AuthGuard.thy ===== *)
theory AuthGuard
  imports IpGuard
begin

text \<open>
  \<open>src/admin/auth_guard.rs\<close>: five wrong admin keys within five minutes lock an address for
  15 minutes. Unlike the scanner guard the module separates looking (\<open>check\<close>), counting a
  failure (\<open>failed\<close>) and forgiving (\<open>clear\<close>); only \<open>failed\<close> cleans up and evicts.
\<close>

definition auth_cfg :: guard_cfg where
  "auth_cfg = \<lparr>window = 5 * 60 * ns_per_sec, lock_dur = 15 * 60 * ns_per_sec,
     limit = 5, max_ips = 50000\<rparr>"

definition auth_new :: "instant \<Rightarrow> guard_state" where
  "auth_new now = guard_new now"

definition auth_check :: "ip_addr \<Rightarrow> instant \<Rightarrow> guard_state \<Rightarrow> nat option \<times> guard_state" where
  "auth_check ip now s =
     (case hm_get (ips s) ip of
        None \<Rightarrow> (None, s)
      | Some a \<Rightarrow>
          (case locked_until a of
             Some u \<Rightarrow>
               if u > now then (Some (lock_secs u now), s)
               else (None, s\<lparr>ips := hm_remove ip (ips s)\<rparr>)
           | None \<Rightarrow> (None, s)))"

definition auth_failed :: "ip_addr \<Rightarrow> instant \<Rightarrow> guard_state \<Rightarrow> nat option \<times> guard_state" where
  "auth_failed ip now s = guard_step auth_cfg ip True now s"

definition auth_clear :: "ip_addr \<Rightarrow> guard_state \<Rightarrow> guard_state" where
  "auth_clear ip s = s\<lparr>ips := hm_remove ip (ips s)\<rparr>"

datatype auth_op = Check ip_addr | Failed ip_addr | Clear ip_addr

fun auth_step :: "auth_op \<Rightarrow> instant \<Rightarrow> guard_state \<Rightarrow> nat option \<times> guard_state" where
  "auth_step (Check ip) now s = auth_check ip now s"
| "auth_step (Failed ip) now s = auth_failed ip now s"
| "auth_step (Clear ip) now s = (None, auth_clear ip s)"

definition auth_run :: "guard_state \<Rightarrow> (auth_op \<times> instant) list \<Rightarrow> nat option list" where
  "auth_run s rs = fst (answers auth_step rs s)"

fun op_ip :: "auth_op \<Rightarrow> ip_addr" where
  "op_ip (Check ip) = ip"
| "op_ip (Failed ip) = ip"
| "op_ip (Clear ip) = ip"

text \<open>The specification: an unpruned history per address, as for the scanner guard.\<close>

fun auth_spec :: "auth_op \<Rightarrow> instant \<Rightarrow> ip_spec \<Rightarrow> nat option \<times> ip_spec" where
  "auth_spec (Check _) now st = spec_strike auth_cfg False now st"
| "auth_spec (Failed _) now st = spec_strike auth_cfg True now st"
| "auth_spec (Clear _) now st = (None, ([], None))"

fun auth_spec_run :: "(ip_addr \<Rightarrow> ip_spec) \<Rightarrow> (auth_op \<times> instant) list \<Rightarrow> nat option list" where
  "auth_spec_run \<sigma> [] = []"
| "auth_spec_run \<sigma> ((f, now) # rs) =
     (let r = auth_spec f now (\<sigma> (op_ip f)) in fst r # auth_spec_run (\<sigma>(op_ip f := snd r)) rs)"

lemma auth_cfg_wf: "cfg_wf auth_cfg"
  by (simp add: cfg_wf_def auth_cfg_def ns_per_sec_def)

lemma auth_dur: "as_secs (lock_dur auth_cfg) = 900"
  by (simp add: as_secs_def auth_cfg_def ns_per_sec_def)

lemma auth_check_eq:
  "auth_check ip now s =
     (case active_lock s ip of
        None \<Rightarrow> (None, s)
      | Some u \<Rightarrow> if u > now then (Some (lock_secs u now), s) else (None, drop_lock ip s))"
  by (auto simp: auth_check_def active_lock_def drop_lock_def split: option.splits)

lemma auth_check_tracks:
  assumes tr: "tracks auth_cfg now K s \<sigma>"
  shows "fst (auth_check ip now s) = fst (spec_strike auth_cfg False now (\<sigma> ip))
       \<and> tracks auth_cfg now K (snd (auth_check ip now s))
           (\<sigma>(ip := snd (spec_strike auth_cfg False now (\<sigma> ip))))"
proof (cases "active_lock s ip")
  case None
  have "case snd (\<sigma> ip) of None \<Rightarrow> True | Some u \<Rightarrow> u \<le> now"
    using tracks_lock [OF tr, of ip] None by (auto split: option.splits)
  then have "spec_strike auth_cfg False now (\<sigma> ip) =
      (None, (if snd (\<sigma> ip) = None then fst (\<sigma> ip) else [], None))"
    by (auto simp: spec_strike_def Let_def split: option.splits)
  with None tracks_unlocked [OF tr None] show ?thesis by (simp add: auth_check_eq)
next
  case (Some u)
  then have l: "snd (\<sigma> ip) = Some u"
    using tracks_lock [OF tr, of ip] by (auto simp: active_lock_def)
  show ?thesis
  proof (cases "u > now")
    case True
    then show ?thesis using Some l tr by (simp add: auth_check_eq spec_strike_def)
  next
    case False
    with tracks_drop_lock [OF tr Some] l Some show ?thesis
      by (simp add: auth_check_eq spec_strike_def Let_def)
  qed
qed

lemma auth_step_tracks:
  assumes tr: "tracks auth_cfg t K s \<sigma>" and t: "t \<le> now"
    and K: "finite K" "card K \<le> 50000" "op_ip f \<in> K"
  shows "fst (auth_step f now s) = fst (auth_spec f now (\<sigma> (op_ip f)))
       \<and> tracks auth_cfg now K (snd (auth_step f now s)) (\<sigma>(op_ip f := snd (auth_spec f now (\<sigma> (op_ip f)))))"
proof (cases f)
  case (Check ip)
  then show ?thesis using auth_check_tracks [OF tracks_mono [OF tr t]] by simp
next
  case (Failed ip)
  then show ?thesis
    using guard_step_tracks [OF tr t auth_cfg_wf K(1), of ip True] K
    by (simp add: auth_failed_def auth_cfg_def)
next
  case (Clear ip)
  then show ?thesis using tracks_remove [OF tracks_mono [OF tr t]] by (simp add: auth_clear_def)
qed

lemma auth_run_tracks:
  assumes "tracks auth_cfg t K s \<sigma>" "times_in t rs"
    and K: "finite K" "card K \<le> 50000" "(op_ip \<circ> fst) ` set rs \<subseteq> K"
  shows "auth_run s rs = auth_spec_run \<sigma> rs"
  using assms
proof (induction rs arbitrary: s \<sigma> t)
  case Nil
  then show ?case by (simp add: auth_run_def)
next
  case (Cons r rs)
  obtain f now where r: "r = (f, now)" by force
  have "fst (auth_step f now s) = fst (auth_spec f now (\<sigma> (op_ip f)))"
    and "tracks auth_cfg now K (snd (auth_step f now s)) (\<sigma>(op_ip f := snd (auth_spec f now (\<sigma> (op_ip f)))))"
    using auth_step_tracks [OF Cons.prems(1) _ K(1,2), of now f] Cons.prems r by auto
  with Cons.IH [OF this(2)] Cons.prems r show ?case
    by (simp add: Let_def fun_upd_def auth_run_def)
qed

text \<open>
  Looking, failing and clearing in any order answer exactly as the specification that
  keeps every failure since the last success: a lock starts with the fifth failure inside one
  five-minute window, lasts 15 minutes, and a success clears the count.
\<close>

lemma auth_refines_spec:
  assumes "times_in t0 rs" and "card ((op_ip \<circ> fst) ` set rs) \<le> 50000"
  shows "auth_run (auth_new t0) rs = auth_spec_run (\<lambda>_. ([], None)) rs"
  unfolding auth_new_def
  by (rule auth_run_tracks [OF tracks_new assms(1), where K = "(op_ip \<circ> fst) ` set rs"])
    (use assms(2) in auto)

lemma auth_refines_spec_witness:
  "auth_run (auth_new 0) [(Check (V4 7), 1), (Failed (V4 7), 2), (Clear (V4 7), 3), (Check (V6 1), 4)]
   = auth_spec_run (\<lambda>_. ([], None)) [(Check (V4 7), 1), (Failed (V4 7), 2), (Clear (V4 7), 3), (Check (V6 1), 4)]"
  by (rule auth_refines_spec) (simp_all add: card_insert_if)

text \<open>Until a success clears it: the operations the lockout contract covers.\<close>

interpretation auth: lockout
  "\<lambda>(wrong, ip). if wrong then auth_failed ip else auth_check ip" snd active_lock
  "guard_inv auth_cfg" "\<lambda>s. length (ips s)" "max_ips auth_cfg" 900
proof
  fix t now :: instant and s :: guard_state and r :: "bool \<times> ip_addr" and ip :: ip_addr and u
  obtain wrong i where r: "r = (wrong, i)" by force
  show "guard_inv auth_cfg t s \<Longrightarrow> length (ips s) \<le> max_ips auth_cfg"
    by (simp add: guard_inv_def)
  assume inv: "guard_inv auth_cfg t s" and t: "t \<le> now"
  then have wf: "hm_wf (ips s)" by (simp add: guard_inv_def)
  show "guard_inv auth_cfg now (snd ((case r of (wrong, ip) \<Rightarrow> if wrong then auth_failed ip else auth_check ip) now s))"
    using guard_step_inv [OF inv t auth_cfg_wf] guard_inv_mono [OF inv t]
      guard_inv_mono [OF drop_lock_inv [OF inv] t]
    by (auto simp: r auth_failed_def auth_check_eq split: option.splits)
  show "length (ips (snd ((case r of (wrong, ip) \<Rightarrow> if wrong then auth_failed ip else auth_check ip) now s)))
      \<le> Suc (length (ips s))"
    using guard_step_len [OF inv] drop_lock_len [OF wf, of i]
    by (auto simp: r auth_failed_def auth_check_eq split: option.splits)
  show "active_lock (snd ((case r of (wrong, ip) \<Rightarrow> if wrong then auth_failed ip else auth_check ip) now s)) ip = Some u"
    if l: "active_lock s ip = Some u" "now < u" "length (ips s) < max_ips auth_cfg"
    using guard_step_keeps_lock [OF wf l] l drop_lock_others [of ip i s]
    by (auto simp: r auth_failed_def auth_check_eq split: option.splits)
      (metis not_less option.inject)
  show "refused 900 (fst ((case r of (wrong, ip) \<Rightarrow> if wrong then auth_failed ip else auth_check ip) now s))"
    if l: "active_lock s (snd r) = Some u" and u: "now < u"
    using lock_secs_bounds [OF inv t l] guard_step_locked [OF wf l u] l u
    by (simp add: r auth_failed_def auth_check_eq auth_dur refused_def)
qed

text \<open>
  Once locked, an address stays locked: every look and every further failure of its own
  before the deadline is refused with 1 to 900 seconds, and failures of other addresses do
  not lift the lock while the table has room.
\<close>

lemma auth_lock_holds:
  assumes "guard_inv auth_cfg t s" "active_lock s ip = Some u" "times_in t rs"
    and "\<forall>x\<in>set rs. snd x < u" "length (ips s) + length rs \<le> 50000"
  shows "list_all (refused 900) (own_verdicts snd ip rs (fst (answers
            (\<lambda>(wrong, i). if wrong then auth_failed i else auth_check i) rs s)))"
  using auth.lock_holds [of t s ip u rs] assms by (simp add: auth_cfg_def)

lemma auth_lock_holds_witness:
  "list_all (refused 900) (own_verdicts snd (V4 1) [((False, V4 1), 5), ((True, V4 1), 6)] (fst (answers
        (\<lambda>(wrong, i). if wrong then auth_failed i else auth_check i)
        [((False, V4 1), 5), ((True, V4 1), 6)]
        \<lparr>ips = [(V4 1, \<lparr>events = [], locked_until = Some (900 * ns_per_sec), last_seen = 0\<rparr>)],
         last_cleanup = 0\<rparr>)))"
  by (rule auth_lock_holds [where t = 0 and u = "900 * ns_per_sec"])
    (auto simp: guard_inv_def hm_wf_def hm_get_def activity_ok_def active_lock_def auth_cfg_def
      ns_per_sec_def split: if_splits)

end
