(* ===== verification/Json.thy ===== *)
theory Json
  imports Prelude
begin

text \<open>
  \<open>serde_json::Value\<close> as the code reads it: the constructors it distinguishes and the accessors
  \<open>get\<close>, \<open>as_str\<close>, \<open>as_i64\<close>, \<open>as_bool\<close>, \<open>as_array\<close>. Numbers that are not integers carry no value
  here (the code reads none of them). Parsing and printing belong to the library and are
  parameters of the components that use them.
\<close>

datatype json =
    JNull
  | JBool bool
  | JInt int
  | JFloat
  | JStr string
  | JArr "json list"
  | JObj "(string \<times> json) list"

fun jget :: "string \<Rightarrow> json \<Rightarrow> json option" where
  "jget k (JObj kvs) = map_of kvs k"
| "jget k v = None"

fun as_str :: "json \<Rightarrow> string option" where
  "as_str (JStr s) = Some s"
| "as_str v = None"

fun as_i64 :: "json \<Rightarrow> int option" where
  "as_i64 (JInt i) = (if - (2 ^ 63) \<le> i \<and> i < 2 ^ 63 then Some i else None)"
| "as_i64 v = None"

fun as_bool :: "json \<Rightarrow> bool option" where
  "as_bool (JBool b) = Some b"
| "as_bool v = None"

fun as_array :: "json \<Rightarrow> json list option" where
  "as_array (JArr vs) = Some vs"
| "as_array v = None"

definition jget_str :: "string \<Rightarrow> json \<Rightarrow> string option" where
  "jget_str k v = Option.bind (jget k v) as_str"

definition jget_i64 :: "string \<Rightarrow> json \<Rightarrow> int option" where
  "jget_i64 k v = Option.bind (jget k v) as_i64"

definition jget_bool :: "string \<Rightarrow> json \<Rightarrow> bool option" where
  "jget_bool k v = Option.bind (jget k v) as_bool"

definition unwrap_or :: "'a option \<Rightarrow> 'a \<Rightarrow> 'a" where
  "unwrap_or v d = (case v of Some w \<Rightarrow> w | None \<Rightarrow> d)"

lemma unwrap_or_simps [simp]: "unwrap_or (Some w) d = w" "unwrap_or None d = d"
  by (simp_all add: unwrap_or_def)

fun opt_str :: "string option \<Rightarrow> json" where
  "opt_str (Some s) = JStr s"
| "opt_str None = JNull"

lemma as_str_opt [simp]: "as_str (opt_str v) = v"
  by (cases v) auto

end
