(* ===== verification/Accounts.thy ===== *)
theory Accounts
  imports Errors Json
begin

text \<open>
  \<open>AccountState\<close> of \<open>src/account_manager.rs\<close>: the record of one Tidal account, its
  construction, what survives a rebuild (\<open>carry_over\<close>), when its token is usable, the decayed
  error rate, and the counters a selection touches.

  Atomics and locks become plain fields: each modelled operation is one step. The \<open>db\<close> and
  \<open>uptime\<close> handles are not part of the record. Unix seconds and milliseconds are \<open>int\<close>;
  counters are \<open>nat\<close>. \<open>f64\<close> values are real numbers: rounding is the one thing not modelled.
  Percent-decoding (crate \<open>percent_encoding\<close>) is the parameter \<open>pct\<close>: the decoded string, or
  \<open>None\<close> when it is not UTF-8.
\<close>

section \<open>Recent outcomes\<close>

record recent_outcomes =
  ro_requests :: real
  ro_errors :: real
  ro_at_ms :: int

definition RECENT_HALF_LIFE_MS :: real where
  "RECENT_HALF_LIFE_MS = 15 * 60 * 1000"

definition ro_default :: recent_outcomes where
  "ro_default = \<lparr>ro_requests = 0, ro_errors = 0, ro_at_ms = 0\<rparr>"

definition decay :: "int \<Rightarrow> recent_outcomes \<Rightarrow> recent_outcomes" where
  "decay now_ms r =
     (let r = (if ro_at_ms r > 0 \<and> now_ms > ro_at_ms r
               then (let factor = (1 / 2) powr (of_int (now_ms - ro_at_ms r) / RECENT_HALF_LIFE_MS)
                     in r\<lparr>ro_requests := ro_requests r * factor, ro_errors := ro_errors r * factor\<rparr>)
               else r)
      in r\<lparr>ro_at_ms := max (ro_at_ms r) now_ms\<rparr>)"

definition error_rate :: "recent_outcomes \<Rightarrow> real" where
  "error_rate r =
     (if ro_requests r < 1 / 1000000 then 0
      else max 0 (min 1 (ro_errors r / ro_requests r)))"

lemma error_rate_range: "0 \<le> error_rate r \<and> error_rate r \<le> 1"
  by (simp add: error_rate_def)

lemma decay_at: "ro_at_ms (decay now r) = max (ro_at_ms r) now"
  by (simp add: decay_def Let_def)

lemma decay_same: "now \<le> ro_at_ms r \<Longrightarrow> decay now r = r"
  by (simp add: decay_def Let_def max_def)

text \<open>Decaying in two steps is decaying once: reading the rate does not disturb it.\<close>

lemma decay_decay:
  assumes "0 < ro_at_ms r" "a \<le> b"
  shows "decay b (decay a r) = decay b r"
proof (cases "ro_at_ms r < a")
  case False
  then show ?thesis by (simp add: decay_same)
next
  case True
  show ?thesis
  proof (cases "a = b")
    case True
    then show ?thesis using decay_same [of b "decay b r"] by (simp add: decay_at)
  next
    case False
    then have "a < b" using assms(2) by simp
    with True assms(1) show ?thesis
      unfolding decay_def Let_def
      by (simp add: max_def mult.assoc powr_add [symmetric] diff_divide_distrib)
  qed
qed

section \<open>The account record\<close>

record account =
  acc_id :: string
  label :: string
  client_id :: string
  client_secret :: string
  refresh_token :: string
  user_id :: "string option"
  access_token :: "string option"
  token_expires_at :: int
  is_active :: bool
  disabled_at :: int
  is_catalog :: bool
  auto_disabled :: bool
  heal_failures :: nat
  heal_next_retry :: int
  last_refresh_error :: "string option"
  auth_use_basic :: bool
  auth_forbidden_streak :: nat
  auth_failing_since :: int
  traffic_preview_streak :: nat
  country_code :: "string option"
  subscription :: "json option"
  subscription_checked_at :: int
  subscription_error :: "string option"
  subscription_error_at :: int
  rejected_access_token :: "string option"
  acc_notes :: string
  last_used :: int
  request_count :: nat
  error_count :: nat
  catalog_inflight :: nat
  playback_inflight :: nat
  metadata_inflight :: nat
  rest_until_ms :: int
  last_pick_ms :: int
  recent :: recent_outcomes
  hour_picks :: "int list"
  rate_limited_until :: int
  rate_limit_strikes :: nat
  premium_status :: string
  premium_checked_at :: int
  preview_streak :: int
  created_at :: int
  updated_at :: int

definition normalize_client_secret :: "(string \<Rightarrow> string option) \<Rightarrow> string \<Rightarrow> string" where
  "normalize_client_secret pct secret = (case pct secret of Some s \<Rightarrow> s | None \<Rightarrow> secret)"

definition account_new ::
    "(string \<Rightarrow> string option) \<Rightarrow> string \<Rightarrow> string \<Rightarrow> string \<Rightarrow> string \<Rightarrow> string \<Rightarrow> string option \<Rightarrow>
     bool \<Rightarrow> string \<Rightarrow> account" where
  "account_new pct i lbl cid secret refresh uid active nts =
     \<lparr>acc_id = i, label = lbl, client_id = cid,
      client_secret = normalize_client_secret pct secret, refresh_token = refresh,
      user_id = uid, access_token = None, token_expires_at = 0, is_active = active,
      disabled_at = 0, is_catalog = False, auto_disabled = False, heal_failures = 0,
      heal_next_retry = 0, last_refresh_error = None, auth_use_basic = False,
      auth_forbidden_streak = 0, auth_failing_since = 0, traffic_preview_streak = 0,
      country_code = None, subscription = None, subscription_checked_at = 0,
      subscription_error = None, subscription_error_at = 0, rejected_access_token = None,
      acc_notes = nts, last_used = 0, request_count = 0, error_count = 0, catalog_inflight = 0,
      playback_inflight = 0, metadata_inflight = 0, rest_until_ms = 0, last_pick_ms = 0,
      recent = ro_default, hour_picks = [], rate_limited_until = 0, rate_limit_strikes = 0,
      premium_status = ''unknown'', premium_checked_at = 0, preview_streak = 0,
      created_at = 0, updated_at = 0\<rparr>"

section \<open>Country\<close>

definition to_ascii_upper :: "char \<Rightarrow> char" where
  "to_ascii_upper c =
     (let n = (of_char c :: nat) in if 97 \<le> n \<and> n \<le> 122 then char_of (n - 32) else c)"

definition set_country :: "string option \<Rightarrow> account \<Rightarrow> account" where
  "set_country code a =
     (case map_option (\<lambda>c. map to_ascii_upper (trim c)) code of
        None \<Rightarrow> a
      | Some c \<Rightarrow> if length c = 2 \<and> list_all is_ascii_alpha c then a\<lparr>country_code := Some c\<rparr> else a)"

section \<open>Rebuilding an account\<close>

text \<open>
  \<open>try_read\<close> on a lock of the old record fails while a writer holds it; \<open>locks\<close> says which
  of the three reads (access token, rejected token, FULL/PREVIEW status) get through. The new
  record is not shared yet, so its locks are free.
\<close>

record read_locks =
  token_free :: bool
  rejected_free :: bool
  premium_free :: bool

definition same_credentials :: "account \<Rightarrow> account \<Rightarrow> bool" where
  "same_credentials n old \<longleftrightarrow>
     client_id n = client_id old \<and> client_secret n = client_secret old \<and>
     refresh_token n = refresh_token old"

definition carry_over :: "read_locks \<Rightarrow> account \<Rightarrow> account \<Rightarrow> account" where
  "carry_over locks new old =
     (let n = new\<lparr>
        last_used := last_used old, request_count := request_count old,
        error_count := error_count old, last_pick_ms := last_pick_ms old,
        recent := recent old, hour_picks := hour_picks old,
        rate_limited_until := rate_limited_until old,
        rate_limit_strikes := rate_limit_strikes old, created_at := created_at old,
        token_expires_at := token_expires_at old, is_catalog := is_catalog old,
        auto_disabled := auto_disabled old, disabled_at := disabled_at old,
        heal_failures := heal_failures old\<rparr>;
      n = set_country (country_code old) n;
      n = n\<lparr>subscription := subscription old,
        subscription_checked_at := subscription_checked_at old,
        subscription_error := subscription_error old,
        subscription_error_at := subscription_error_at old,
        heal_next_retry := heal_next_retry old\<rparr>
      in if same_credentials n old
         then n\<lparr>last_refresh_error := last_refresh_error old,
              auth_use_basic := auth_use_basic old,
              auth_forbidden_streak := auth_forbidden_streak old,
              auth_failing_since := auth_failing_since old,
              access_token := (if token_free locks then access_token old else access_token n),
              rejected_access_token :=
                (if rejected_free locks then rejected_access_token old else rejected_access_token n),
              premium_status := (if premium_free locks then premium_status old else premium_status n),
              premium_checked_at := premium_checked_at old,
              preview_streak := preview_streak old\<rparr>
         else n\<lparr>token_expires_at := 0, heal_failures := 0, heal_next_retry := 0,
              auth_forbidden_streak := 0\<rparr>)"

section \<open>Tokens\<close>

definition has_usable_token :: "int \<Rightarrow> account \<Rightarrow> bool" where
  "has_usable_token now a =
     (case access_token a of
        None \<Rightarrow> False
      | Some t \<Rightarrow> t \<noteq> [] \<and> token_expires_at a > now \<and> rejected_access_token a \<noteq> Some t)"

definition refresh_cooldown :: "int \<Rightarrow> account \<Rightarrow> nat option" where
  "refresh_cooldown now a =
     (if heal_next_retry a \<le> now \<or> has_usable_token now a then None
      else Some (nat (heal_next_retry a - now)))"

section \<open>Selection counters\<close>

definition recent_error_rate :: "int \<Rightarrow> account \<Rightarrow> real \<times> account" where
  "recent_error_rate now_ms a =
     (let r = decay now_ms (recent a) in (error_rate r, a\<lparr>recent := r\<rparr>))"

definition note_recent :: "int \<Rightarrow> bool \<Rightarrow> account \<Rightarrow> account" where
  "note_recent now_ms error a =
     (let r = decay now_ms (recent a)
      in a\<lparr>recent := (if error then r\<lparr>ro_errors := ro_errors r + 1\<rparr>
                     else r\<lparr>ro_requests := ro_requests r + 1\<rparr>)\<rparr>)"

definition requests_last_hour :: "int \<Rightarrow> account \<Rightarrow> nat \<times> account" where
  "requests_last_hour now_ms a =
     (let picks = dropWhile (\<lambda>p. p \<le> now_ms - 3600000) (hour_picks a)
      in (length picks, a\<lparr>hour_picks := picks\<rparr>))"

definition note_selection :: "int \<Rightarrow> account \<Rightarrow> account" where
  "note_selection now_ms a =
     (let a = note_recent now_ms False
                (a\<lparr>last_used := now_ms div 1000, last_pick_ms := now_ms,
                   request_count := request_count a + 1\<rparr>)
      in a\<lparr>hour_picks := hour_picks a @ [now_ms]\<rparr>)"

definition FULL_CHECK_MAX_AGE_SECS :: int where
  "FULL_CHECK_MAX_AGE_SECS = 8 * 60 * 60"

definition full_tier :: "int \<Rightarrow> account \<Rightarrow> nat" where
  "full_tier now a =
     (if premium_checked_at a \<le> 0 \<or> premium_checked_at a < now - FULL_CHECK_MAX_AGE_SECS then 1
      else if premium_status a = ''premium'' then 0
      else if premium_status a = ''preview-only'' then 2
      else 1)"

definition pool_inflight :: "account \<Rightarrow> nat" where
  "pool_inflight a = playback_inflight a + metadata_inflight a"

definition utc_day :: "int \<Rightarrow> int" where
  "utc_day ts = ts div 86400"

definition user_id_from_label :: "string \<Rightarrow> string option" where
  "user_id_from_label lbl =
     (let pre = ''Tidal Account (''
      in if \<not> starts_with pre lbl then None
         else (let rest = drop (length pre) lbl
               in if rest = [] \<or> last rest \<noteq> CHR '')'' then None
                  else (let inner = butlast rest
                        in if inner \<noteq> [] \<and> list_all is_ascii_digit inner then Some inner else None)))"

section \<open>Facts the components share\<close>

lemma acc_id_new [simp]: "acc_id (account_new pct i l c s r u act n) = i"
  by (simp add: account_new_def)

lemma set_country_frame [simp]:
  "acc_id (set_country c a) = acc_id a"
  "access_token (set_country c a) = access_token a"
  "refresh_token (set_country c a) = refresh_token a"
  "client_id (set_country c a) = client_id a"
  "client_secret (set_country c a) = client_secret a"
  by (auto simp: set_country_def split: option.splits)

lemma requests_last_hour_fst: "fst (requests_last_hour now_ms a) \<le> length (hour_picks a)"
  by (simp add: requests_last_hour_def Let_def length_dropWhile_le)

lemma refresh_cooldown_pos: "refresh_cooldown now a = Some s \<Longrightarrow> 0 < s"
  by (auto simp: refresh_cooldown_def split: if_splits)

lemma full_tier_le: "full_tier now a \<le> 2"
  by (simp add: full_tier_def)

end
