(* ===== verification/RateLimit.thy ===== *)
theory RateLimit
  imports Accounts
begin

text \<open>
  Rate-limit pauses (\<open>retry_after_secs\<close>, \<open>rate_limit_remaining\<close>, \<open>rate_limit_pause_secs\<close>,
  \<open>rate_limit_heat\<close>, \<open>pause_account\<close> of \<open>src/account_manager.rs\<close>): how long one 429 takes an
  account out of the rotation and how repeated ones double the pause.

  RFC 2822 date parsing (crate \<open>chrono\<close>) is the parameter \<open>rfc2822\<close>; delays are \<open>u64\<close> with
  the saturations of the source, deadlines \<open>i64\<close>. The persisted copy of the deadline is not
  modelled: \<open>pause_account\<close> only logs when that write fails.
\<close>

section \<open>Retry-After\<close>

definition DEFAULT_RATE_LIMIT_SECS :: nat where
  "DEFAULT_RATE_LIMIT_SECS = 30"

definition RATE_LIMIT_MAX_SECS :: nat where
  "RATE_LIMIT_MAX_SECS = 15 * 60"

definition RATE_LIMIT_FORGIVE_SECS :: int where
  "RATE_LIMIT_FORGIVE_SECS = 30 * 60"

definition retry_after_secs :: "(string \<Rightarrow> int option) \<Rightarrow> int \<Rightarrow> string option \<Rightarrow> nat" where
  "retry_after_secs rfc2822 now v =
     (let parsed = (case v of
            None \<Rightarrow> None
          | Some raw \<Rightarrow>
              (case parse_u64 (trim raw) of
                 Some n \<Rightarrow> Some n
               | None \<Rightarrow> map_option (\<lambda>d. nat (max 0 (sat_sub_i64 d now))) (rfc2822 (trim raw))))
      in max (case parsed of None \<Rightarrow> DEFAULT_RATE_LIMIT_SECS | Some n \<Rightarrow> n) 1)"

section \<open>Pauses\<close>

definition rate_limit_remaining :: "int \<Rightarrow> account \<Rightarrow> nat option" where
  "rate_limit_remaining now a =
     (let remaining = sat_sub_i64 (rate_limited_until a) now
      in if remaining > 0 then Some (nat remaining) else None)"

definition rate_limit_pause_secs ::
    "(string \<Rightarrow> int option) \<Rightarrow> int \<Rightarrow> string option \<Rightarrow> nat \<Rightarrow> nat" where
  "rate_limit_pause_secs rfc2822 now retry_after strike =
     (let base = retry_after_secs rfc2822 now retry_after;
          doubled = sat_mul_u64 base (2 ^ min (strike - 1) 16)
      in min doubled (max RATE_LIMIT_MAX_SECS base))"

definition rate_limit_heat :: "int \<Rightarrow> account \<Rightarrow> nat" where
  "rate_limit_heat now a =
     (if rate_limited_until a \<le> 0 \<or> now - rate_limited_until a > RATE_LIMIT_FORGIVE_SECS then 0
      else rate_limit_strikes a)"

text \<open>The strike this 429 counts as, and the strikes the account is left with.\<close>

definition next_strike :: "int \<Rightarrow> account \<Rightarrow> nat \<times> account" where
  "next_strike now a =
     (let previous_until = rate_limited_until a
      in if now < previous_until then (max (rate_limit_strikes a) 1, a)
         else if previous_until > 0 \<and> now - previous_until \<le> RATE_LIMIT_FORGIVE_SECS
           then (rate_limit_strikes a + 1, a\<lparr>rate_limit_strikes := rate_limit_strikes a + 1\<rparr>)
         else (1, a\<lparr>rate_limit_strikes := 1\<rparr>))"

definition i64_of_u64 :: "nat \<Rightarrow> int" where
  "i64_of_u64 n = (if int n \<le> i64_max then int n else i64_max)"

definition pause_account ::
    "(string \<Rightarrow> int option) \<Rightarrow> int \<Rightarrow> string option \<Rightarrow> account \<Rightarrow> nat \<times> account" where
  "pause_account rfc2822 now retry_after a =
     (let (strike, a) = next_strike now a;
          seconds = rate_limit_pause_secs rfc2822 now retry_after strike;
          until = sat_add_i64 now (i64_of_u64 seconds);
          a = a\<lparr>rate_limited_until := max (rate_limited_until a) until\<rparr>
      in (case rate_limit_remaining now a of None \<Rightarrow> seconds | Some r \<Rightarrow> r, a))"

section \<open>Bounds\<close>

lemma retry_after_pos: "1 \<le> retry_after_secs r now v"
  by (simp add: retry_after_secs_def Let_def)

lemma retry_after_absent: "retry_after_secs r now None = 30"
  by (simp add: retry_after_secs_def DEFAULT_RATE_LIMIT_SECS_def)

lemma retry_after_u64: "retry_after_secs r now v \<le> u64_max"
proof -
  have "nat (max 0 (sat_sub_i64 d now)) \<le> u64_max" for d
    by (auto simp: sat_sub_i64_def clamp_i64_def i64_max_def u64_max_def nat_le_iff)
  moreover have "parse_u64 s = Some n \<Longrightarrow> n \<le> u64_max" for s n
    by (auto simp: parse_u64_def Let_def split: option.splits if_splits)
  ultimately show ?thesis
    by (auto simp: retry_after_secs_def Let_def DEFAULT_RATE_LIMIT_SECS_def u64_max_def
        split: option.splits)
qed

lemma sat_mul_ge:
  assumes "1 \<le> k" "b \<le> u64_max"
  shows "b \<le> sat_mul_u64 b k"
  using assms by (simp add: sat_mul_u64_def)

lemma pause_secs_bounds:
  "retry_after_secs r now v \<le> rate_limit_pause_secs r now v k"
  "rate_limit_pause_secs r now v k \<le> max 900 (retry_after_secs r now v)"
  using sat_mul_ge [OF _ retry_after_u64, of "2 ^ min (k - 1) 16"]
  by (auto simp: rate_limit_pause_secs_def Let_def RATE_LIMIT_MAX_SECS_def)

lemma pause_secs_mono: "j \<le> k \<Longrightarrow> rate_limit_pause_secs r now v j \<le> rate_limit_pause_secs r now v k"
  unfolding rate_limit_pause_secs_def Let_def
  by (intro min.mono sat_mul_u64_mono power_increasing) auto

lemma remaining_Some_iff: "(\<exists>s. rate_limit_remaining now a = Some s) \<longleftrightarrow> now < rate_limited_until a"
  by (auto simp: rate_limit_remaining_def Let_def sat_sub_i64_def clamp_i64_pos_iff)

lemma remaining_pos: "rate_limit_remaining now a = Some s \<Longrightarrow> 1 \<le> s"
  by (auto simp: rate_limit_remaining_def Let_def split: if_splits)

lemma remaining_None_iff: "rate_limit_remaining now a = None \<longleftrightarrow> rate_limited_until a \<le> now"
  using remaining_Some_iff [of now a] by (metis not_None_eq not_le)

lemma next_strike_until [simp]: "rate_limited_until (snd (next_strike now a)) = rate_limited_until a"
  by (simp add: next_strike_def Let_def)

definition clock_ok :: "int \<Rightarrow> bool" where
  "clock_ok now \<longleftrightarrow> 0 < now \<and> now < 2 ^ 62"

lemma pause_until:
  "rate_limited_until (snd (pause_account r now v a)) =
     max (rate_limited_until a)
       (sat_add_i64 now (i64_of_u64 (rate_limit_pause_secs r now v (fst (next_strike now a)))))"
  by (simp add: pause_account_def split_beta Let_def)

lemma pause_later:
  assumes "clock_ok now"
  shows "now < sat_add_i64 now (i64_of_u64 (rate_limit_pause_secs r now v k))"
proof -
  have "1 \<le> rate_limit_pause_secs r now v k"
    using pause_secs_bounds(1) [of r now v k] retry_after_pos [of r now v] by linarith
  then have "1 \<le> i64_of_u64 (rate_limit_pause_secs r now v k)"
    by (auto simp: i64_of_u64_def i64_max_def)
  then show ?thesis
    using assms by (auto simp: sat_add_i64_def clamp_i64_def i64_max_def clock_ok_def)
qed

text \<open>
  A 429 always takes the account out of the rotation at once, for at least the time Tidal
  asked for and never for less than an earlier pause: the deadline does not move back, it lies
  in the future, and the caller is told the seconds that remain.
\<close>

lemma pause_takes_effect:
  assumes "clock_ok now"
  shows "let (secs, a') = pause_account r now v a
         in rate_limited_until a \<le> rate_limited_until a' \<and> now < rate_limited_until a' \<and>
            rate_limit_remaining now a' = Some secs \<and> 1 \<le> secs \<and>
            now + min (int (retry_after_secs r now v)) (i64_max - now) \<le> rate_limited_until a'"
proof -
  let ?p = "pause_account r now v a"
  let ?k = "fst (next_strike now a)"
  have fut: "now < rate_limited_until (snd ?p)"
    using pause_later [OF assms, of r v ?k] by (simp add: pause_until)
  then obtain s where s: "rate_limit_remaining now (snd ?p) = Some s"
    using remaining_Some_iff by blast
  have fst: "fst ?p = s"
    using s by (auto simp: pause_account_def split_beta Let_def)
  have "now + min (int (retry_after_secs r now v)) (i64_max - now)
      \<le> sat_add_i64 now (i64_of_u64 (rate_limit_pause_secs r now v ?k))"
    using pause_secs_bounds(1) [of r now v ?k] assms
    by (auto simp: sat_add_i64_def clamp_i64_def i64_of_u64_def i64_max_def clock_ok_def)
  with fut s fst show ?thesis
    using remaining_pos [OF s] by (simp add: split_beta Let_def pause_until le_max_iff_disj)
qed

definition no_dates :: "string \<Rightarrow> int option" where
  "no_dates s = None"

definition fresh_account :: account where
  "fresh_account = account_new (\<lambda>s. Some s) ''a1'' ''A'' ''cid'' ''sec'' ''ref'' None True ''''"

lemma pause_takes_effect_witness:
  "let (secs, a') = pause_account no_dates 1000 (Some ''7'') fresh_account
   in rate_limited_until fresh_account \<le> rate_limited_until a' \<and> 1000 < rate_limited_until a' \<and>
      rate_limit_remaining 1000 a' = Some secs \<and> 1 \<le> secs \<and>
      1000 + min (int (retry_after_secs no_dates 1000 (Some ''7''))) (i64_max - 1000) \<le> rate_limited_until a'"
  by (rule pause_takes_effect) (simp add: clock_ok_def)

section \<open>Repeated pauses\<close>

text \<open>
  The pauses of an account that is rate limited again as soon as each pause ends, by 429s
  without Retry-After.
\<close>

definition backoff :: "nat \<Rightarrow> nat" where
  "backoff i = min (30 * 2 ^ min i 16) 900"

fun relapse :: "nat \<Rightarrow> int \<Rightarrow> account \<Rightarrow> nat list" where
  "relapse 0 now a = []"
| "relapse (Suc n) now a =
     (let (secs, a') = pause_account no_dates now None a
      in secs # relapse n (rate_limited_until a') a')"

lemma pause_account_exact:
  assumes "clock_ok now" "rate_limited_until a \<le> now"
  shows "pause_account no_dates now None a =
    (let k = fst (next_strike now a); p = backoff (k - 1)
     in (p, (snd (next_strike now a))\<lparr>rate_limited_until := now + int p\<rparr>))"
proof -
  let ?k = "fst (next_strike now a)"
  obtain p where p': "p = backoff (?k - 1)" by blast
  then have p: "p = min (30 * 2 ^ min (?k - 1) 16) 900" by (simp add: backoff_def)
  have pw: "(2::nat) ^ min (?k - 1) 16 \<le> 2 ^ 16" by (intro power_increasing) auto
  then have secs: "rate_limit_pause_secs no_dates now None ?k = p"
    by (simp add: rate_limit_pause_secs_def Let_def retry_after_absent RATE_LIMIT_MAX_SECS_def
        sat_mul_u64_def u64_max_def p)
  have small: "p \<le> 900" by (simp add: p)
  have one: "1 \<le> p" by (simp add: p)
  have until: "sat_add_i64 now (i64_of_u64 p) = now + int p"
    using assms small by (simp add: sat_add_i64_def clamp_i64_def i64_of_u64_def i64_max_def clock_ok_def)
  have rem: "rate_limit_remaining now (b\<lparr>rate_limited_until := now + int p\<rparr>) = Some p" for b
    using small one by (simp add: rate_limit_remaining_def sat_sub_i64_def clamp_i64_def i64_max_def)
  have mx: "max (rate_limited_until a) (now + int p) = now + int p"
    using assms(2) by simp
  show ?thesis
    unfolding pause_account_def split_beta Let_def next_strike_until
    by (simp add: secs until mx rem, simp add: p')
qed

lemma backoff_zero: "backoff 0 = 30"
  by (simp add: backoff_def)

lemma relapse_from:
  assumes "clock_ok now" "now + 900 * int n < 2 ^ 62" "rate_limited_until a = now"
  shows "relapse n now a =
    map (\<lambda>i. backoff (rate_limit_strikes a + i)) [0..<n]"
  using assms
proof (induction n arbitrary: now a)
  case 0
  then show ?case by simp
next
  case (Suc n)
  let ?k = "rate_limit_strikes a"
  obtain p :: nat where p: "p = backoff ?k" by blast
  let ?b = "a\<lparr>rate_limit_strikes := ?k + 1, rate_limited_until := now + int p\<rparr>"
  have k: "next_strike now a = (?k + 1, a\<lparr>rate_limit_strikes := ?k + 1\<rparr>)"
    using Suc.prems by (simp add: next_strike_def Let_def RATE_LIMIT_FORGIVE_SECS_def clock_ok_def)
  have step: "pause_account no_dates now None a = (p, ?b)"
    using Suc.prems by (simp add: pause_account_exact k p Let_def)
  have small: "int p \<le> 900" by (simp add: p backoff_def)
  have "relapse n (now + int p) ?b = map (\<lambda>i. backoff (Suc (?k + i))) [0..<n]"
    using Suc.IH [of "now + int p" ?b] Suc.prems small by (simp add: clock_ok_def)
  then show ?case
    by (simp add: step p map_upt_Suc del: upt_Suc)
qed

text \<open>
  Exponential back-off: an account that was never rate limited and relapses the moment
  each pause ends is paused for 30, 60, 120, 240, 480 and then always 900 seconds.
\<close>

lemma relapse_doubles:
  assumes "clock_ok now" "now + 900 * int n < 2 ^ 62" "rate_limited_until a = 0"
  shows "relapse n now a = map backoff [0..<n]"
proof (cases n)
  case 0
  then show ?thesis by simp
next
  case (Suc m)
  let ?b = "a\<lparr>rate_limit_strikes := 1, rate_limited_until := now + 30\<rparr>"
  have step: "pause_account no_dates now None a = (30, ?b)"
    using assms by (simp add: pause_account_exact next_strike_def Let_def clock_ok_def backoff_zero)
  have "relapse m (now + 30) ?b = map (\<lambda>i. backoff (Suc i)) [0..<m]"
    using relapse_from [of "now + 30" m ?b] assms Suc by (simp add: clock_ok_def)
  with Suc step show ?thesis
    by (simp add: map_upt_Suc backoff_zero del: upt_Suc)
qed

lemma relapse_doubles_witness:
  "relapse 7 1000 fresh_account = map backoff [0..<7]
   \<and> map backoff [0..<7] = [30, 60, 120, 240, 480, 900, 900]"
  using relapse_doubles [of 1000 7 fresh_account]
  by (simp add: clock_ok_def fresh_account_def account_new_def upt_rec backoff_def)

text \<open>
  One burst is one strike: further 429s while the pause runs leave the strike count
  alone, and a 429 more than half an hour after the pause ended starts again at the first.
\<close>

lemma strikes_count_bursts:
  "(now < rate_limited_until a \<longrightarrow>
      rate_limit_strikes (snd (pause_account r now v a)) = rate_limit_strikes a)
   \<and> (rate_limited_until a + RATE_LIMIT_FORGIVE_SECS < now \<longrightarrow>
      rate_limit_strikes (snd (pause_account r now v a)) = 1 \<and> rate_limit_heat now a = 0)"
  by (auto simp: pause_account_def next_strike_def split_beta Let_def rate_limit_heat_def
      RATE_LIMIT_FORGIVE_SECS_def)

lemma strikes_count_bursts_witness:
  "rate_limit_strikes (snd (pause_account no_dates 1000 None
      (fresh_account\<lparr>rate_limited_until := 1010, rate_limit_strikes := 4\<rparr>))) = 4
   \<and> rate_limit_strikes (snd (pause_account no_dates 9000 None
      (fresh_account\<lparr>rate_limited_until := 1010, rate_limit_strikes := 4\<rparr>))) = 1"
  using strikes_count_bursts [of 1000 "fresh_account\<lparr>rate_limited_until := 1010, rate_limit_strikes := 4\<rparr>" no_dates None]
    strikes_count_bursts [of 9000 "fresh_account\<lparr>rate_limited_until := 1010, rate_limit_strikes := 4\<rparr>" no_dates None]
  by (simp add: RATE_LIMIT_FORGIVE_SECS_def)

end
