(* ===== verification/Slots.thy ===== *)
theory Slots
  imports Prelude
begin

text \<open>
  The contract of a counted concurrency slot: \<open>try_acquire\<close> succeeds exactly below its
  capacity and adds one, \<open>release\<close> gives one back. The playback queue's in-flight gate, the
  catalog accounts' metadata slots and the pool leases all claim to be one.
\<close>

datatype slot_event = Acquire nat | Release

locale slots =
  fixes busy :: "'s \<Rightarrow> nat"
    and acquire :: "nat \<Rightarrow> 's \<Rightarrow> bool \<times> 's"
    and release :: "'s \<Rightarrow> 's"
    and room :: "nat \<Rightarrow> nat \<Rightarrow> bool"
  assumes acquire_iff: "fst (acquire cap s) \<longleftrightarrow> room cap (busy s)"
    and acquire_yes: "room cap (busy s) \<Longrightarrow> busy (snd (acquire cap s)) = Suc (busy s)"
    and acquire_no: "\<not> room cap (busy s) \<Longrightarrow> busy (snd (acquire cap s)) = busy s"
    and release_busy: "busy (release s) = busy s - 1"
begin

text \<open>
  A holder count next to the state: a slot is released only by someone who holds one, as the
  drop guards of the source ensure.
\<close>

primrec slot_run :: "slot_event list \<Rightarrow> 's \<times> nat \<Rightarrow> 's \<times> nat" where
  "slot_run [] st = st"
| "slot_run (e # es) st = slot_run es
     (case e of
        Acquire cap \<Rightarrow> (let r = acquire cap (fst st) in (snd r, if fst r then Suc (snd st) else snd st))
      | Release \<Rightarrow> if snd st = 0 then st else (release (fst st), snd st - 1))"

lemma busy_is_held: "busy (fst st) = snd st \<Longrightarrow> busy (fst (slot_run es st)) = snd (slot_run es st)"
proof (induction es arbitrary: st)
  case Nil
  then show ?case by simp
next
  case (Cons e es)
  show ?case
    using Cons.prems acquire_iff acquire_yes acquire_no release_busy
    by (auto intro!: Cons.IH simp: Let_def split: slot_event.splits)
qed

lemma never_above:
  assumes "busy (fst st) = snd st" "busy (fst st) \<le> n"
    and "\<And>cap b. Acquire cap \<in> set es \<Longrightarrow> room cap b \<Longrightarrow> b < n"
  shows "busy (fst (slot_run es st)) \<le> n"
  using assms
proof (induction es arbitrary: st)
  case Nil
  then show ?case by simp
next
  case (Cons e es)
  let ?st = "case e of
        Acquire cap \<Rightarrow> (let r = acquire cap (fst st) in (snd r, if fst r then Suc (snd st) else snd st))
      | Release \<Rightarrow> if snd st = 0 then st else (release (fst st), snd st - 1)"
  have "busy (fst ?st) = snd ?st"
    using Cons.prems(1) acquire_iff acquire_yes acquire_no release_busy
    by (auto simp: Let_def split: slot_event.splits)
  moreover have "busy (fst ?st) \<le> n"
  proof (cases e)
    case (Acquire cap)
    with Cons.prems show ?thesis
      using acquire_yes [of cap "fst st"] acquire_no [of cap "fst st"]
      by (cases "room cap (busy (fst st))") (auto simp: Let_def Suc_le_eq)
  next
    case Release
    with Cons.prems show ?thesis using release_busy [of "fst st"] by auto
  qed
  ultimately have "busy (fst (slot_run es ?st)) \<le> n"
    by (rule Cons.IH) (use Cons.prems(3) in auto)
  then show ?case by (simp only: slot_run.simps)
qed

text \<open>Everything acquired and given back leaves the counter where it was.\<close>

lemma acquire_release: "room cap (busy s) \<Longrightarrow> busy (release (snd (acquire cap s))) = busy s"
  by (simp add: release_busy acquire_yes)

end

end
