(* ===== verification/Uptime.thy ===== *)
theory Uptime
  imports Prelude
begin

text \<open>
  The availability history of one account (\<open>src/account_uptime.rs\<close>): \<open>Event\<close>, \<open>AccountUptime\<close>
  (its event list), \<open>observe\<close>, \<open>reset\<close>, \<open>prune\<close>, \<open>load\<close>, \<open>summary\<close> with its segments. The table
  \<open>account_uptime_events\<close> is the list of an account's rows in id order. \<open>partition_point\<close> is a
  binary search; on the sorted histories the code builds (lemma \<open>observe_sorted\<close>) it is the
  length of the prefix that satisfies the predicate.
\<close>

definition WINDOW_SECS :: int where
  "WINDOW_SECS = 7 * 24 * 60 * 60"

record uptime_event =
  ev_at :: int
  ev_active :: bool
  ev_ready :: bool
  ev_expires :: "int option"

datatype uptime_status = Up | Down | Waiting

definition ev_status :: "int \<Rightarrow> uptime_event \<Rightarrow> uptime_status" where
  "ev_status now e =
     (if \<not> ev_active e then Down
      else if \<not> ev_ready e \<or> (case ev_expires e of None \<Rightarrow> False | Some x \<Rightarrow> x \<le> now) then Waiting
      else Up)"

type_synonym account_uptime = "uptime_event list"

section \<open>Recording\<close>

definition prune_before :: "int \<Rightarrow> account_uptime \<Rightarrow> account_uptime" where
  "prune_before since es =
     (let old = length (takeWhile (\<lambda>e. ev_at e < since) es)
      in if old > 1 then drop (old - 1) es else es)"

definition prune :: "int \<Rightarrow> account_uptime \<Rightarrow> account_uptime" where
  "prune now es = prune_before (now - WINDOW_SECS) es"

text \<open>The memory part of \<open>observe\<close>, with the event that is to be stored.\<close>

definition observe_event ::
    "bool \<Rightarrow> bool \<Rightarrow> int option \<Rightarrow> int \<Rightarrow> account_uptime \<Rightarrow> uptime_event option \<times> account_uptime" where
  "observe_event active ready expires now es =
     (let es = prune now es;
          ready = (active \<and> ready);
          expires = (if ready then expires else None)
      in if es \<noteq> [] \<and> ev_active (last es) = active \<and> ev_ready (last es) = ready
            \<and> ev_expires (last es) = expires
         then (None, es)
         else (let e = \<lparr>ev_at = (if es = [] then now else max now (ev_at (last es))),
                        ev_active = active, ev_ready = ready, ev_expires = expires\<rparr>
               in (Some e, es @ [e])))"

text \<open>Rows older than the cut, apart from the latest of them (by time, then id).\<close>

definition delete_old_rows :: "int \<Rightarrow> account_uptime \<Rightarrow> account_uptime" where
  "delete_old_rows since rows =
     (let old = filter (\<lambda>i. ev_at (rows ! i) < since) [0..<length rows];
          kept = last (sort_key (\<lambda>i. ev_at (rows ! i)) old)
      in map ((!) rows) (filter (\<lambda>i. \<not> (ev_at (rows ! i) < since \<and> i \<noteq> kept)) [0..<length rows]))"

text \<open>
  \<open>observe\<close> with the table: \<open>ok\<close> says whether the transaction succeeds. A failed one leaves the
  table as it was; the event stays in memory and the caller only logs the error.
\<close>

definition uptime_observe ::
    "bool \<Rightarrow> bool \<Rightarrow> bool \<Rightarrow> int option \<Rightarrow> int \<Rightarrow> account_uptime \<times> account_uptime \<Rightarrow>
     account_uptime \<times> account_uptime" where
  "uptime_observe ok active ready expires now st =
     (case observe_event active ready expires now (fst st) of
        (None, es) \<Rightarrow> (es, snd st)
      | (Some e, es) \<Rightarrow>
          (es, if ok then delete_old_rows (now - WINDOW_SECS) (snd st @ [e]) else snd st))"

definition uptime_reset :: "account_uptime \<times> account_uptime \<Rightarrow> account_uptime \<times> account_uptime" where
  "uptime_reset st = ([], [])"

definition uptime_load :: "int \<Rightarrow> account_uptime \<Rightarrow> account_uptime" where
  "uptime_load now rows =
     (let since = now - WINDOW_SECS;
          boundary = sort_key ev_at (filter (\<lambda>e. ev_at e < since) rows)
      in (if boundary = [] then [] else [last boundary]) @
         sort_key ev_at (filter (\<lambda>e. ev_at e \<ge> since) rows))"

section \<open>The summary\<close>

record segment =
  seg_start :: int
  seg_end :: int
  seg_active :: "bool option"
  seg_status :: "uptime_status option"

definition append_segment :: "int \<Rightarrow> int \<Rightarrow> uptime_event option \<Rightarrow> segment list \<Rightarrow> segment list" where
  "append_segment s e ev segs =
     (let st = map_option (ev_status s) ev
      in if segs \<noteq> [] \<and> seg_end (last segs) = s \<and> seg_status (last segs) = st
         then butlast segs @ [(last segs)\<lparr>seg_end := e\<rparr>]
         else segs @ [\<lparr>seg_start = s, seg_end = e, seg_active = map_option ev_active ev, seg_status = st\<rparr>])"

definition append_interval :: "int \<Rightarrow> int \<Rightarrow> uptime_event option \<Rightarrow> segment list \<Rightarrow> segment list" where
  "append_interval s e ev segs =
     (case ev of
        Some v \<Rightarrow>
          (if ev_active v \<and> ev_ready v
           then (case ev_expires v of
                   Some x \<Rightarrow> if s < x \<and> x < e
                             then append_segment x e ev (append_segment s x ev segs)
                             else append_segment s e ev segs
                 | None \<Rightarrow> append_segment s e ev segs)
           else append_segment s e ev segs)
      | None \<Rightarrow> append_segment s e ev segs)"

text \<open>The loop over the events: cursor, previous event, segments so far.\<close>

fun summary_loop ::
    "int \<Rightarrow> account_uptime \<Rightarrow> int \<Rightarrow> uptime_event option \<Rightarrow> segment list \<Rightarrow>
     int \<times> uptime_event option \<times> segment list" where
  "summary_loop now [] cursor prev segs = (cursor, prev, segs)"
| "summary_loop now (e # es) cursor prev segs =
     (if ev_at e > now then (cursor, prev, segs)
      else if ev_at e > cursor
        then summary_loop now es (ev_at e) (Some e) (append_interval cursor (ev_at e) prev segs)
      else summary_loop now es cursor (Some e) segs)"

fun status_secs :: "uptime_status option \<Rightarrow> segment list \<Rightarrow> int" where
  "status_secs st [] = 0"
| "status_secs st (g # gs) = (if seg_status g = st then seg_end g - seg_start g else 0) + status_secs st gs"

record uptime_summary =
  current_status :: "uptime_status option"
  window_start :: int
  window_end :: int
  up_seconds :: int
  down_seconds :: int
  waiting_seconds :: int
  unknown_seconds :: int
  percentage :: "real option"
  segments :: "segment list"

definition summary :: "int \<Rightarrow> account_uptime \<Rightarrow> uptime_summary \<times> account_uptime" where
  "summary now es =
     (let es = prune now es;
          start = now - WINDOW_SECS;
          (cursor, prev, segs) = summary_loop now es start None [];
          segs = (if cursor < now then append_interval cursor now prev segs else segs);
          up = status_secs (Some Up) segs;
          down = status_secs (Some Down) segs;
          waiting = status_secs (Some Waiting) segs
      in (\<lparr>current_status = map_option (ev_status now) prev, window_start = start, window_end = now,
           up_seconds = up, down_seconds = down, waiting_seconds = waiting,
           unknown_seconds = WINDOW_SECS - up - down - waiting,
           percentage = (if up + down + waiting > 0
                         then Some (of_int up * 100 / of_int (up + down + waiting)) else None),
           segments = segs\<rparr>, es))"

section \<open>The status at an instant\<close>

text \<open>The specification: the status at second \<open>t\<close> is that of the last event up to \<open>t\<close>.\<close>

fun event_at :: "uptime_event option \<Rightarrow> account_uptime \<Rightarrow> int \<Rightarrow> uptime_event option" where
  "event_at prev [] t = prev"
| "event_at prev (e # es) t = (if ev_at e \<le> t then event_at (Some e) es t else prev)"

definition status_at :: "account_uptime \<Rightarrow> int \<Rightarrow> uptime_status option" where
  "status_at es t = map_option (ev_status t) (event_at None es t)"

definition secs_with :: "(int \<Rightarrow> bool) \<Rightarrow> int \<Rightarrow> int \<Rightarrow> int" where
  "secs_with P a b = int (card {t. a \<le> t \<and> t < b \<and> P t})"

lemma secs_with_split:
  assumes "a \<le> b" "b \<le> c"
  shows "secs_with P a c = secs_with P a b + secs_with P b c"
proof -
  have fin: "finite {t::int. x \<le> t \<and> t < y \<and> P t}" for x y
    by (rule finite_subset [of _ "{x..<y}"]) auto
  have "{t. a \<le> t \<and> t < c \<and> P t} = {t. a \<le> t \<and> t < b \<and> P t} \<union> {t. b \<le> t \<and> t < c \<and> P t}"
    using assms by auto
  moreover have "{t. a \<le> t \<and> t < b \<and> P t} \<inter> {t. b \<le> t \<and> t < c \<and> P t} = {}" by auto
  ultimately show ?thesis
    unfolding secs_with_def using card_Un_disjoint [OF fin fin] by simp
qed

lemma secs_with_const:
  assumes "a \<le> b" "\<And>t. a \<le> t \<Longrightarrow> t < b \<Longrightarrow> P t = Q"
  shows "secs_with P a b = (if Q then b - a else 0)"
proof -
  have "{t. a \<le> t \<and> t < b \<and> P t} = (if Q then {a..<b} else {})" using assms(2) by auto
  then show ?thesis using assms(1) by (simp add: secs_with_def)
qed

lemma secs_with_cong: "(\<And>t. a \<le> t \<Longrightarrow> t < b \<Longrightarrow> P t = Q t) \<Longrightarrow> secs_with P a b = secs_with Q a b"
  unfolding secs_with_def by (rule arg_cong [where f = "\<lambda>s. int (card s)"]) auto

lemma status_secs_append: "status_secs st (gs @ hs) = status_secs st gs + status_secs st hs"
  by (induction gs) auto

lemma status_secs_segment:
  "status_secs st (append_segment s e ev segs)
     = status_secs st segs + (if map_option (ev_status s) ev = st then e - s else 0)"
proof (cases "segs = []")
  case False
  then obtain gs g where "segs = gs @ [g]" by (metis rev_exhaust)
  then show ?thesis by (auto simp: append_segment_def Let_def status_secs_append)
qed (simp add: append_segment_def Let_def)

lemma status_secs_interval:
  assumes "s \<le> e"
  shows "status_secs st (append_interval s e ev segs)
     = status_secs st segs + secs_with (\<lambda>t. map_option (ev_status t) ev = st) s e"
proof -
  have const: "secs_with (\<lambda>t. map_option (ev_status t) ev = st) a b
      = (if map_option (ev_status a) ev = st then b - a else 0)"
    if "a \<le> b" "\<And>t v. ev = Some v \<Longrightarrow> a \<le> t \<Longrightarrow> t < b \<Longrightarrow> ev_status t v = ev_status a v" for a b
  proof (rule secs_with_const [OF that(1)])
    note same = that(2)
    show "(map_option (ev_status t) ev = st) = (map_option (ev_status a) ev = st)"
      if "a \<le> t" "t < b" for t
    proof (cases ev)
      case (Some v)
      have "ev_status t v = ev_status a v" by (rule same [OF Some that])
      with Some show ?thesis by simp
    qed simp
  qed
  show ?thesis
  proof (cases "\<exists>v x. ev = Some v \<and> ev_active v \<and> ev_ready v \<and> ev_expires v = Some x \<and> s < x \<and> x < e")
    case True
    then obtain v x where v: "ev = Some v" "ev_active v" "ev_ready v" "ev_expires v = Some x" "s < x" "x < e"
      by blast
    have "secs_with (\<lambda>t. map_option (ev_status t) ev = st) s e
        = secs_with (\<lambda>t. map_option (ev_status t) ev = st) s x
          + secs_with (\<lambda>t. map_option (ev_status t) ev = st) x e"
      using v by (intro secs_with_split) auto
    then show ?thesis
      using v const [of s x] const [of x e]
      by (simp add: append_interval_def status_secs_segment ev_status_def)
  next
    case False
    then have "append_interval s e ev segs = append_segment s e ev segs"
      unfolding append_interval_def by (auto split: option.split)
    moreover have same: "ev_status t v = ev_status s v" if "ev = Some v" "s \<le> t" "t < e" for t v
    proof (cases "ev_expires v")
      case (Some x)
      with False that(1) have "ev_active v \<and> ev_ready v \<longrightarrow> x \<le> s \<or> e \<le> x" by fastforce
      with Some that(2,3) show ?thesis by (auto simp: ev_status_def)
    qed (simp add: ev_status_def)
    moreover have "secs_with (\<lambda>t. map_option (ev_status t) ev = st) s e
        = (if map_option (ev_status s) ev = st then e - s else 0)"
      by (rule const [OF assms same])
    ultimately show ?thesis by (simp only: status_secs_segment)
  qed
qed

lemma summary_loop_secs:
  assumes "cursor \<le> now" "summary_loop now es cursor prev segs = (c, p, gs)"
  shows "cursor \<le> c \<and> c \<le> now \<and>
    status_secs st gs + secs_with (\<lambda>t. map_option (ev_status t) p = st) c now
      = status_secs st segs + secs_with (\<lambda>t. map_option (ev_status t) (event_at prev es t) = st) cursor now"
  using assms
proof (induction es arbitrary: cursor prev segs)
  case Nil
  then show ?case by simp
next
  case (Cons e es)
  let ?P = "\<lambda>prev es t. map_option (ev_status t) (event_at prev es t) = st"
  consider "now < ev_at e" | "cursor < ev_at e" "ev_at e \<le> now" | "ev_at e \<le> cursor" "ev_at e \<le> now"
    by linarith
  then show ?case
  proof cases
    case 1
    then have "secs_with (?P prev (e # es)) cursor now
        = secs_with (\<lambda>t. map_option (ev_status t) prev = st) cursor now"
      by (intro secs_with_cong) simp
    with 1 Cons.prems show ?thesis by simp
  next
    case 2
    have "secs_with (?P prev (e # es)) cursor now
        = secs_with (?P prev (e # es)) cursor (ev_at e) + secs_with (?P prev (e # es)) (ev_at e) now"
      using 2 by (intro secs_with_split) auto
    also have "secs_with (?P prev (e # es)) cursor (ev_at e)
        = secs_with (\<lambda>t. map_option (ev_status t) prev = st) cursor (ev_at e)"
      by (intro secs_with_cong) simp
    also have "secs_with (?P prev (e # es)) (ev_at e) now = secs_with (?P (Some e) es) (ev_at e) now"
      by (intro secs_with_cong) simp
    finally show ?thesis
      using 2 Cons.prems Cons.IH [of "ev_at e" "Some e" "append_interval cursor (ev_at e) prev segs"]
      by (auto simp: status_secs_interval)
  next
    case 3
    then have "secs_with (?P prev (e # es)) cursor now = secs_with (?P (Some e) es) cursor now"
      by (intro secs_with_cong) simp
    with 3 Cons show ?thesis by simp
  qed
qed

text \<open>Pruning does not change the status inside the window.\<close>

lemma event_at_old:
  assumes "list_all (\<lambda>e. ev_at e < since) old" "old \<noteq> []" "since \<le> t"
  shows "event_at prev (old @ es) t = event_at (Some (last old)) es t"
  using assms
proof (induction old arbitrary: prev)
  case (Cons e old)
  then show ?case by (cases old) auto
qed simp

lemma drop_takeWhile_last:
  assumes "old = takeWhile P es" "1 < length old"
  shows "drop (length old - 1) es = [last old] @ dropWhile P es"
proof -
  have "drop (length old - 1) (old @ dropWhile P es)
      = drop (length old - 1) old @ dropWhile P es"
    using assms(2) by simp
  moreover have "drop (length old - 1) old = [last old]"
    using assms(2) by (metis append_butlast_last_id append_eq_conv_conj length_butlast list.size(3) not_less_zero)
  ultimately show ?thesis using assms(1) by simp
qed

lemma prune_before_alt:
  "prune_before since es =
     (let old = takeWhile (\<lambda>e. ev_at e < since) es; new = dropWhile (\<lambda>e. ev_at e < since) es
      in if old = [] then new else last old # new)"
proof -
  let ?P = "\<lambda>e. ev_at e < since"
  consider "takeWhile ?P es = []" | e where "takeWhile ?P es = [e]" | "1 < length (takeWhile ?P es)"
    by (metis One_nat_def less_one linorder_neqE_nat length_0_conv length_Suc_conv)
  then show ?thesis
  proof cases
    case 1
    then show ?thesis
      unfolding prune_before_def Let_def by (metis (no_types, lifting) append_Nil list.size(3) not_one_less_zero takeWhile_dropWhile_id)
  next
    case 2
    then have "es = [e] @ dropWhile ?P es" by (metis takeWhile_dropWhile_id)
    with 2 show ?thesis by (simp add: prune_before_def Let_def)
  next
    case 3
    then have "takeWhile ?P es \<noteq> []" by auto
    with 3 show ?thesis
      unfolding prune_before_def Let_def using drop_takeWhile_last [OF refl 3] by simp
  qed
qed

lemma prune_before_event_at:
  assumes "since \<le> t"
  shows "event_at prev (prune_before since es) t = event_at prev es t"
proof -
  let ?old = "takeWhile (\<lambda>e. ev_at e < since) es" and ?new = "dropWhile (\<lambda>e. ev_at e < since) es"
  have old: "list_all (\<lambda>e. ev_at e < since) ?old" by (auto simp: list_all_iff dest: set_takeWhileD)
  show ?thesis
  proof (cases "?old = []")
    case True
    then have "?new = es" by (metis append_Nil takeWhile_dropWhile_id)
    with True show ?thesis by (simp add: prune_before_alt)
  next
    case False
    have "event_at prev es t = event_at prev (?old @ ?new) t" by simp
    also have "\<dots> = event_at (Some (last ?old)) ?new t"
      by (rule event_at_old [OF old False assms])
    also have "\<dots> = event_at prev (last ?old # ?new) t"
    proof -
      have "ev_at (last ?old) < since" using old False by (auto simp: list_all_iff)
      then show ?thesis using assms by simp
    qed
    also have "last ?old # ?new = prune_before since es"
      using False by (simp add: prune_before_alt Let_def)
    finally show ?thesis ..
  qed
qed

lemma secs_with_disjoint:
  assumes "\<And>t. R t \<longleftrightarrow> P t \<or> Q t" "\<And>t. \<not> (P t \<and> Q t)"
  shows "secs_with P a b + secs_with Q a b = secs_with R a b"
proof -
  have fin: "finite {t::int. a \<le> t \<and> t < b \<and> S t}" for S
    by (rule finite_subset [of _ "{a..<b}"]) auto
  have "{t. a \<le> t \<and> t < b \<and> R t} = {t. a \<le> t \<and> t < b \<and> P t} \<union> {t. a \<le> t \<and> t < b \<and> Q t}"
    "{t. a \<le> t \<and> t < b \<and> P t} \<inter> {t. a \<le> t \<and> t < b \<and> Q t} = {}" using assms by auto
  then show ?thesis unfolding secs_with_def by (simp add: card_Un_disjoint [OF fin fin])
qed

lemma secs_with_empty: "b \<le> a \<Longrightarrow> secs_with P a b = 0"
proof -
  assume "b \<le> a"
  then have "{t. a \<le> t \<and> t < b \<and> P t} = {}" by auto
  then show ?thesis by (simp only: secs_with_def card.empty of_nat_0)
qed

lemma secs_with_total:
  fixes es :: account_uptime
  assumes "a \<le> b"
  defines "w \<equiv> \<lambda>st. secs_with (\<lambda>t. status_at es t = st) a b"
  shows "w (Some Up) + w (Some Down) + w (Some Waiting) + w None = b - a"
proof -
  have "w (Some Up) + w (Some Down)
      = secs_with (\<lambda>t. status_at es t = Some Up \<or> status_at es t = Some Down) a b"
    unfolding w_def by (rule secs_with_disjoint) auto
  moreover have "\<dots> + w (Some Waiting) = secs_with (\<lambda>t. status_at es t \<noteq> None) a b"
    unfolding w_def by (rule secs_with_disjoint) (auto, metis uptime_status.exhaust)
  moreover have "secs_with (\<lambda>t. status_at es t \<noteq> None) a b + w None = secs_with (\<lambda>t. True) a b"
    unfolding w_def by (rule secs_with_disjoint) auto
  moreover have "secs_with (\<lambda>t. True) a b = b - a"
    using secs_with_const [of a b "\<lambda>t. True" True] assms by simp
  ultimately show ?thesis by linarith
qed

text \<open>What the loop and the last interval count, on the pruned history.\<close>

lemma summary_secs:
  assumes "summary_loop now (prune now es) (now - WINDOW_SECS) None [] = (c, p, gs)"
  shows "status_secs st (if c < now then append_interval c now p gs else gs)
    = secs_with (\<lambda>t. status_at es t = st) (now - WINDOW_SECS) now"
proof -
  have "now - WINDOW_SECS \<le> now" by (simp add: WINDOW_SECS_def)
  note run = summary_loop_secs [OF this assms, of st]
  have "secs_with (\<lambda>t. map_option (ev_status t) (event_at None (prune now es) t) = st) (now - WINDOW_SECS) now
      = secs_with (\<lambda>t. status_at es t = st) (now - WINDOW_SECS) now"
    unfolding status_at_def prune_def by (intro secs_with_cong) (simp add: prune_before_event_at)
  then show ?thesis
    using run by (auto simp: status_secs_interval secs_with_empty)
qed

text \<open>
  The summary reports the truth about the recorded history: each total is the number of
  seconds of the window in which the account had that status (by its latest event up to that
  second, with a token's expiry inside an interval taken into account), seconds before the
  first event are unknown, nothing is counted twice, and the percentage is within 0 to 100.
\<close>

lemma summary_counts_seconds:
  "let s = fst (summary now es);
       secs = (\<lambda>st. secs_with (\<lambda>t. status_at es t = st) (now - WINDOW_SECS) now)
   in up_seconds s = secs (Some Up) \<and> down_seconds s = secs (Some Down)
    \<and> waiting_seconds s = secs (Some Waiting) \<and> unknown_seconds s = secs None
    \<and> pred_option (\<lambda>p. 0 \<le> p \<and> p \<le> 100) (percentage s)"
proof -
  define secs where "secs = (\<lambda>st. secs_with (\<lambda>t. status_at es t = st) (now - WINDOW_SECS) now)"
  obtain c p gs where loop: "summary_loop now (prune now es) (now - WINDOW_SECS) None [] = (c, p, gs)"
    by (metis prod_cases3)
  have sum: "status_secs st (if c < now then append_interval c now p gs else gs) = secs st" for st
    unfolding secs_def by (rule summary_secs [OF loop])
  have total: "secs (Some Up) + secs (Some Down) + secs (Some Waiting) + secs None = WINDOW_SECS"
    using secs_with_total [of "now - WINDOW_SECS" now es] by (simp add: secs_def WINDOW_SECS_def)
  have nonneg: "0 \<le> secs st" for st by (simp add: secs_def secs_with_def)
  show ?thesis
    unfolding summary_def Let_def loop prod.case fst_conv uptime_summary.simps sum secs_def [symmetric]
    using total nonneg [of "Some Up"] nonneg [of "Some Down"] nonneg [of "Some Waiting"]
    by (simp add: divide_le_eq)
qed

section \<open>Reloading\<close>

definition in_order :: "account_uptime \<Rightarrow> bool" where
  "in_order es \<longleftrightarrow> sorted (map ev_at es)"

lemma prune_before_rec:
  "prune_before since [] = []"
  "prune_before since [x] = [x]"
  "in_order (x # y # es) \<Longrightarrow>
    prune_before since (x # y # es) = (if ev_at y < since then prune_before since (y # es) else x # y # es)"
  by (auto simp: prune_before_alt Let_def in_order_def)

lemma in_order_Cons2: "in_order (x # y # es) \<longleftrightarrow> ev_at x \<le> ev_at y \<and> in_order (y # es)"
  by (auto simp: in_order_def)

lemma prune_before_sorted:
  assumes "in_order es"
  shows "in_order (prune_before since es)" and "prune_before since es = [] \<longleftrightarrow> es = []"
    and "last (prune_before since es) = last es"
  using assms by (induction es rule: induct_list012) (auto simp: prune_before_rec in_order_Cons2)

lemma prune_before_twice:
  "in_order es \<Longrightarrow> a \<le> b \<Longrightarrow> prune_before b (prune_before a es) = prune_before b es"
  by (induction es rule: induct_list012) (auto simp: prune_before_rec in_order_Cons2)

lemma in_order_snoc: "in_order (es @ [e]) \<longleftrightarrow> in_order es \<and> (es \<noteq> [] \<longrightarrow> ev_at (last es) \<le> ev_at e)"
  unfolding in_order_def map_append sorted_append by (cases es rule: rev_cases) (auto simp: sorted_append)

lemma prune_before_snoc:
  "in_order (es @ [e]) \<Longrightarrow>
    prune_before since (es @ [e]) = (if ev_at e < since then [e] else prune_before since es @ [e])"
proof (induction es rule: induct_list012)
  case 1
  then show ?case by (simp add: prune_before_rec)
next
  case (2 x)
  then show ?case by (simp add: prune_before_rec)
next
  case (3 x y es)
  then have "in_order (x # y # es)" "in_order (y # es @ [e])" "ev_at y \<le> ev_at e"
    by (auto simp: in_order_def sorted_append)
  with 3 show ?case by (auto simp: prune_before_rec)
qed

lemma observe_sorted:
  assumes "in_order es"
  shows "in_order (snd (observe_event active ready expires now es))"
  using assms prune_before_sorted [OF assms, of "now - WINDOW_SECS"]
  by (auto simp: observe_event_def Let_def prune_def in_order_snoc)

text \<open>On rows in time order the two SQL queries keep what \<open>prune\<close> keeps.\<close>

lemma filter_upt_less: "k \<le> n \<Longrightarrow> filter (\<lambda>i. i < k) [0..<n] = [0..<k]"
  by (induction n) (auto simp: le_Suc_eq)

lemma filter_upt_ge: "k \<le> n \<Longrightarrow> filter (\<lambda>i. k \<le> i) [0..<n] = [k..<n]"
  by (induction n) (auto simp: le_Suc_eq)

lemma in_order_less_iff:
  assumes "in_order es" "i < length es"
  shows "ev_at (es ! i) < since \<longleftrightarrow> i < length (takeWhile (\<lambda>e. ev_at e < since) es)"
proof
  let ?k = "length (takeWhile (\<lambda>e. ev_at e < since) es)"
  assume "ev_at (es ! i) < since"
  show "i < ?k"
  proof (rule ccontr)
    assume "\<not> i < ?k"
    then have "?k < length es" "\<not> ev_at (es ! ?k) < since"
      using assms(2) nth_length_takeWhile [of "\<lambda>e. ev_at e < since" es] by simp_all
    moreover have "ev_at (es ! ?k) \<le> ev_at (es ! i)"
      using assms \<open>\<not> i < ?k\<close> \<open>?k < length es\<close> sorted_nth_mono [of "map ev_at es" ?k i]
      by (simp add: in_order_def)
    ultimately show False using \<open>ev_at (es ! i) < since\<close> by simp
  qed
next
  assume "i < length (takeWhile (\<lambda>e. ev_at e < since) es)"
  then show "ev_at (es ! i) < since"
    by (metis (no_types, lifting) nth_mem set_takeWhileD takeWhile_nth)
qed

lemma delete_old_rows_prune:
  assumes "in_order rows"
  shows "delete_old_rows since rows = prune_before since rows"
proof -
  define k where "k = length (takeWhile (\<lambda>e. ev_at e < since) rows)"
  let ?n = "length rows"
  have k: "k \<le> ?n" unfolding k_def by (rule length_takeWhile_le)
  have old: "filter (\<lambda>i. ev_at (rows ! i) < since) [0..<?n] = [0..<k]"
    unfolding filter_upt_less [OF k, symmetric]
    by (rule filter_cong) (auto simp: in_order_less_iff [OF assms] k_def)
  have "sort_key (\<lambda>i. ev_at (rows ! i)) [0..<k] = [0..<k]"
  proof (rule sort_key_id_if_sorted)
    show "sorted (map (\<lambda>i. ev_at (rows ! i)) [0..<k])"
      using assms k by (auto simp: sorted_iff_nth_mono in_order_def)
  qed
  then have kept: "last (sort_key (\<lambda>i. ev_at (rows ! i)) (filter (\<lambda>i. ev_at (rows ! i) < since) [0..<?n])) = k - 1"
    if "k \<noteq> 0" using old that by simp
  show ?thesis
  proof (cases "k = 0")
    case True
    then have "\<not> ev_at (rows ! i) < since" if "i < ?n" for i
      using in_order_less_iff [OF assms that, of since] by (simp add: k_def)
    then have "filter (\<lambda>i. \<not> (ev_at (rows ! i) < since \<and> i \<noteq> c)) [0..<?n] = [0..<?n]" for c
      unfolding filter_id_conv by fastforce
    with True show ?thesis
      unfolding delete_old_rows_def Let_def prune_before_def k_def by (simp add: map_nth)
  next
    case False
    then have keep: "filter (\<lambda>i. \<not> (ev_at (rows ! i) < since \<and> i \<noteq> k - 1)) [0..<?n] = [k - 1..<?n]"
    proof -
      have "filter (\<lambda>i. \<not> (ev_at (rows ! i) < since \<and> i \<noteq> k - 1)) [0..<?n] = filter (\<lambda>i. k - 1 \<le> i) [0..<?n]"
        using False by (intro filter_cong) (auto simp: in_order_less_iff [OF assms] k_def)
      then show ?thesis using filter_upt_ge [of "k - 1" ?n] k by simp
    qed
    have "map ((!) rows) [k - 1..<?n] = drop (k - 1) rows"
      using k by (simp add: list_eq_iff_nth_eq)
    with False show ?thesis
      unfolding delete_old_rows_def Let_def kept [OF False] keep prune_before_def
      by (auto simp: k_def [symmetric] not_less le_Suc_eq)
  qed
qed

lemma uptime_load_prune:
  assumes "in_order rows"
  shows "uptime_load now rows = prune now rows"
proof -
  define c where "c = now - WINDOW_SECS"
  have split: "filter (\<lambda>e. ev_at e < c) rows = takeWhile (\<lambda>e. ev_at e < c) rows
    \<and> filter (\<lambda>e. ev_at e \<ge> c) rows = dropWhile (\<lambda>e. ev_at e < c) rows"
    using assms unfolding in_order_def
  proof (induction rows)
    case (Cons e rows)
    show ?case
    proof (cases "ev_at e < c")
      case False
      then have "list_all (\<lambda>f. c \<le> ev_at f) rows" using Cons.prems by (auto simp: list_all_iff)
      then have "filter (\<lambda>e. ev_at e < c) rows = []" "filter (\<lambda>e. ev_at e \<ge> c) rows = rows"
        by (auto simp: list_all_iff filter_empty_conv filter_id_conv not_less)
      with False show ?thesis by simp
    qed (use Cons in simp)
  qed simp
  have "sorted (map ev_at (filter P rows))" for P
    using assms unfolding in_order_def by (induction rows) (auto simp: sorted_wrt_map)
  then have sort: "sort_key ev_at (filter P rows) = filter P rows" for P
    by (rule sort_key_id_if_sorted)
  show ?thesis
    unfolding uptime_load_def prune_def prune_before_alt Let_def c_def [symmetric] sort
      split [THEN conjunct1] split [THEN conjunct2] by auto
qed

text \<open>A run of observations, each with a successful write.\<close>

type_synonym observation = "bool \<times> bool \<times> int option \<times> int"

fun uptime_run :: "observation list \<Rightarrow> account_uptime \<times> account_uptime \<Rightarrow> account_uptime \<times> account_uptime" where
  "uptime_run [] st = st"
| "uptime_run ((active, ready, expires, now) # os) st =
     uptime_run os (uptime_observe True active ready expires now st)"

definition stored :: "int \<Rightarrow> account_uptime \<times> account_uptime \<Rightarrow> bool" where
  "stored now st \<longleftrightarrow> in_order (fst st) \<and> in_order (snd st) \<and> (fst st = [] \<longleftrightarrow> snd st = []) \<and>
     last (fst st) = last (snd st) \<and> prune now (fst st) = prune now (snd st)"

lemma uptime_observe_stored:
  assumes "stored now st" "t \<le> now"
  shows "stored now (uptime_observe True active ready expires t st)"
proof -
  obtain es rows where st: "st = (es, rows)" by fastforce
  from assms have inv: "in_order es" "in_order rows" "es = [] \<longleftrightarrow> rows = []" "last es = last rows"
    "prune now es = prune now rows" by (auto simp: stored_def st)
  note p = prune_before_sorted [OF inv(1), of "t - WINDOW_SECS"]
  have twice: "prune now (prune t es) = prune now es"
    using prune_before_twice [OF inv(1)] assms(2) by (simp add: prune_def)
  show ?thesis
  proof (cases "observe_event active ready expires t es")
    case (Pair ev es')
    show ?thesis
    proof (cases ev)
      case None
      with Pair have "es' = prune t es" by (auto simp: observe_event_def Let_def split: if_splits)
      with Pair None st inv p twice show ?thesis
        by (simp add: uptime_observe_def stored_def prune_def)
    next
      case (Some e)
      with Pair have es': "es' = prune t es @ [e]" and at: "prune t es \<noteq> [] \<longrightarrow> ev_at (last (prune t es)) \<le> ev_at e"
        by (auto simp: observe_event_def Let_def split: if_splits)
      have so: "in_order (es @ [e])" "in_order (rows @ [e])" "in_order (prune t es @ [e])"
        using inv p at by (auto simp: in_order_snoc prune_def)
      have "delete_old_rows (t - WINDOW_SECS) (rows @ [e]) = prune t (rows @ [e])"
        using delete_old_rows_prune [OF so(2)] by (simp add: prune_def)
      moreover have "prune now (prune t (rows @ [e])) = prune now (prune t es @ [e])"
        using prune_before_twice [OF so(2), of "t - WINDOW_SECS" "now - WINDOW_SECS"] assms(2)
          prune_before_snoc [OF so(2)] prune_before_snoc [OF so(3)] twice inv(5)
        by (simp add: prune_def)
      ultimately show ?thesis
        using Pair Some st es' so prune_before_sorted [OF so(2)]
        by (auto simp: uptime_observe_def stored_def prune_def)
    qed
  qed
qed

text \<open>
  A restart loses no availability: after any run of observations whose writes succeeded,
  whatever the clock did in between, the history loaded from the table gives at every later
  time the summary the running process would have given.
\<close>

lemma reload_keeps_history:
  assumes "uptime_run os ([], []) = (mem, rows)" "list_all (\<lambda>(active, ready, expires, t). t \<le> now) os"
  shows "summary now (uptime_load now rows) = summary now mem"
proof -
  have "stored now (uptime_run os st)" if "stored now st" for st
    using assms(2) that
  proof (induction os arbitrary: st)
    case (Cons ob os)
    obtain active ready expires t where ob: "ob = (active, ready, expires, t)" by (cases ob)
    have "stored now (uptime_observe True active ready expires t st)"
      using Cons.prems ob by (intro uptime_observe_stored) auto
    from Cons.IH [OF _ this] Cons.prems show ?case by (simp add: ob)
  qed simp
  from this [of "([], [])"] have inv: "in_order mem" "in_order rows" "prune now mem = prune now rows"
    unfolding assms(1) by (auto simp: stored_def in_order_def)
  have "prune now (uptime_load now rows) = prune now mem"
    using inv prune_before_twice [OF inv(2)] by (simp add: uptime_load_prune prune_def)
  then show ?thesis by (simp add: summary_def)
qed

lemma reload_keeps_history_witness:
  "summary 900000 (uptime_load 900000 (snd (uptime_run
      [(True, True, Some 2000, 1000), (False, False, None, 5000), (True, True, None, 800000)] ([], []))))
   = summary 900000 (fst (uptime_run
      [(True, True, Some 2000, 1000), (False, False, None, 5000), (True, True, None, 800000)] ([], [])))"
  by (rule reload_keeps_history [OF prod.collapse [symmetric]]) simp

end
