(* ===== verification/Selection.thy ===== *)
theory Selection
  imports RateLimit Slots Uptime
begin

text \<open>
  Account selection and leases of \<open>src/account_manager.rs\<close>: \<open>try_lease\<close> with its filters and
  its ordering, the leases and their drop, the waiting loop \<open>lease_account_for\<close>, the catalog
  slots and the pool counts.

  The manager keeps \<open>Vec<Arc<AccountState>>\<close>; leases hold an \<open>Arc\<close> of their own, so a rebuilt
  account and the one an old lease points to are different objects. The model therefore has a
  heap from addresses to accounts, a list of the addresses the manager knows, and leases that
  carry an address. \<open>select_lock\<close> makes a whole \<open>try_lease\<close> one step. \<open>rr_seq\<close> and
  \<open>catalog_rr\<close> are 64-bit counters that wrap. The availability history of an account is an
  \<open>Arc\<close> of its own that a rebuilt account shares with the old one, so it is a cell: \<open>cells\<close>
  maps an address to its cell and \<open>histories\<close> a cell to its events. \<open>outbox\<close> lists the calls made
  to the shared Redis store and to the proxy manager, latest last.
\<close>

record lease_rules =
  concurrency :: nat
  rest_ms :: nat
  per_hour :: nat

datatype lease_kind = Playback | Metadata

record lease =
  lease_addr :: nat
  lease_of :: lease_kind
  lease_rest :: nat

datatype effect =
    Publish account
  | DelKeys "string list"
  | Unlist string
  | EnsureProxy string
  | ForgetProxy string
  | RotateProxy string
  | ProxyAnswered string
  | ProxyFailed string
  | TokenRequest string bool
  | ShareToken string string int nat
  | AlertForbidden string nat nat
  | AlertAllDown nat
  | AlertHealed string nat nat
  | AlertCatalogOnly string
  | AlertFreePlan string
  | AlertAuthDisabled string nat bool
  | AlertSubscription string string
record manager =
  accounts :: "nat list"
  heap :: "nat \<Rightarrow> account"
  next_addr :: nat
  rr_seq :: u64
  catalog_rr :: u64
  cells :: "nat \<Rightarrow> nat"
  histories :: "nat \<Rightarrow> account_uptime"
  outbox :: "effect list"

definition no_rules :: lease_rules where
  "no_rules = \<lparr>concurrency = 0, rest_ms = 0, per_hour = 0\<rparr>"

definition at_addr :: "nat \<Rightarrow> (account \<Rightarrow> account) \<Rightarrow> manager \<Rightarrow> manager" where
  "at_addr x f m = m\<lparr>heap := (heap m)(x := f (heap m x))\<rparr>"

definition at_addrs :: "nat list \<Rightarrow> (account \<Rightarrow> account) \<Rightarrow> manager \<Rightarrow> manager" where
  "at_addrs xs f m = m\<lparr>heap := (\<lambda>x. if x \<in> set xs then f (heap m x) else heap m x)\<rparr>"

definition manager_new :: "(nat \<Rightarrow> account) \<Rightarrow> manager" where
  "manager_new junk = \<lparr>accounts = [], heap = junk, next_addr = 0, rr_seq = 0, catalog_rr = 0,
     cells = id, histories = (\<lambda>_. []), outbox = []\<rparr>"

section \<open>Leases\<close>

fun counter :: "lease_kind \<Rightarrow> account \<Rightarrow> nat" where
  "counter Playback a = playback_inflight a"
| "counter Metadata a = metadata_inflight a"

fun set_counter :: "lease_kind \<Rightarrow> nat \<Rightarrow> account \<Rightarrow> account" where
  "set_counter Playback n a = a\<lparr>playback_inflight := n\<rparr>"
| "set_counter Metadata n a = a\<lparr>metadata_inflight := n\<rparr>"

definition take_lease :: "lease_kind \<Rightarrow> nat \<Rightarrow> int \<Rightarrow> nat \<Rightarrow> manager \<Rightarrow> lease \<times> manager" where
  "take_lease kind rest now_ms x m =
     (\<lparr>lease_addr = x, lease_of = kind, lease_rest = rest\<rparr>,
      at_addr x (\<lambda>a. note_selection now_ms (set_counter kind (counter kind a + 1) a)) m)"

text \<open>\<open>AccountManager::lease\<close>: an in-flight request on an account the caller has already chosen.\<close>

definition lease_chosen :: "int \<Rightarrow> nat \<Rightarrow> manager \<Rightarrow> lease \<times> manager" where
  "lease_chosen now_ms x m = take_lease Playback 0 now_ms x m"

definition drop_lease :: "int \<Rightarrow> lease \<Rightarrow> manager \<Rightarrow> manager" where
  "drop_lease now_ms l m =
     at_addr (lease_addr l)
       (\<lambda>a. let a = (if lease_rest l > 0
                     then a\<lparr>rest_until_ms := max (rest_until_ms a) (now_ms + int (lease_rest l))\<rparr>
                     else a)
            in set_counter (lease_of l) (counter (lease_of l) a - 1) a) m"

section \<open>One selection pass\<close>

datatype lease_class = Skip | Paused nat | Cooling nat | Ready

definition classify :: "int \<Rightarrow> account \<Rightarrow> lease_class" where
  "classify now a =
     (if \<not> is_active a \<or> is_catalog a then Skip
      else (case rate_limit_remaining now a of
              Some s \<Rightarrow> Paused s
            | None \<Rightarrow> (case refresh_cooldown now a of
                         Some s \<Rightarrow> Cooling s
                       | None \<Rightarrow> Ready)))"

definition shortest_pause :: "string list \<Rightarrow> int \<Rightarrow> account list \<Rightarrow> nat option" where
  "shortest_pause excl now as =
     fold (\<lambda>a old. case classify now a of
             Paused s \<Rightarrow> if acc_id a \<in> set excl then old else opt_min old s
           | _ \<Rightarrow> old) as None"

definition shortest_cooldown :: "int \<Rightarrow> account list \<Rightarrow> nat option" where
  "shortest_cooldown now as =
     fold (\<lambda>a old. case classify now a of Cooling s \<Rightarrow> opt_min old s | _ \<Rightarrow> old) as None"

definition is_free :: "lease_rules \<Rightarrow> int \<Rightarrow> account \<Rightarrow> bool" where
  "is_free rules now_ms a \<longleftrightarrow>
     (concurrency rules = 0 \<or> pool_inflight a < concurrency rules) \<and> rest_until_ms a \<le> now_ms"

definition admits :: "lease_rules \<Rightarrow> int \<Rightarrow> account \<Rightarrow> bool" where
  "admits rules now_ms a \<longleftrightarrow>
     is_free rules now_ms a \<and>
     (per_hour rules = 0 \<or> fst (requests_last_hour now_ms a) < per_hour rules)"

definition trunc :: "real \<Rightarrow> int" where
  "trunc x = (if 0 \<le> x then \<lfloor>x\<rfloor> else \<lceil>x\<rceil>)"

definition effective_last_use :: "int \<Rightarrow> int \<Rightarrow> real \<Rightarrow> int" where
  "effective_last_use penalty_ms last_pick rate =
     last_pick + trunc (of_int penalty_ms * max 0 (min 1 rate))"

type_synonym score = "nat \<times> nat \<times> nat \<times> int"

definition lease_score :: "int \<Rightarrow> lease_kind \<Rightarrow> int \<Rightarrow> int \<Rightarrow> account \<Rightarrow> score" where
  "lease_score penalty_ms kind now now_ms a =
     ((case kind of Playback \<Rightarrow> full_tier now a | Metadata \<Rightarrow> 0),
      pool_inflight a,
      rate_limit_heat now a,
      effective_last_use penalty_ms (last_pick_ms a) (fst (recent_error_rate now_ms a)))"

definition NO_CREDENTIALS :: string where
  "NO_CREDENTIALS = ''No Tidal credentials available; add an account via the admin panel''"

definition WAITING_REFRESH :: string where
  "WAITING_REFRESH = ''All accounts are waiting for a token refresh''"

definition ALL_INACTIVE :: string where
  "ALL_INACTIVE = ''All accounts are inactive or have expired tokens''"

definition usable_addrs :: "string list \<Rightarrow> int \<Rightarrow> manager \<Rightarrow> nat list" where
  "usable_addrs excl now m =
     filter (\<lambda>x. acc_id (heap m x) \<notin> set excl)
       (filter (\<lambda>x. classify now (heap m x) = Ready) (accounts m))"

definition eligible_addrs :: "string list \<Rightarrow> lease_rules \<Rightarrow> int \<Rightarrow> int \<Rightarrow> manager \<Rightarrow> nat list" where
  "eligible_addrs excl rules now now_ms m =
     filter (\<lambda>x. admits rules now_ms (heap m x)) (usable_addrs excl now m)"

text \<open>The accounts whose hourly count is read by the filter (short-circuit order), and pruned by it.\<close>

definition counted_addrs :: "string list \<Rightarrow> lease_rules \<Rightarrow> int \<Rightarrow> int \<Rightarrow> manager \<Rightarrow> nat list" where
  "counted_addrs excl rules now now_ms m =
     (if per_hour rules = 0 then []
      else filter (\<lambda>x. is_free rules now_ms (heap m x)) (usable_addrs excl now m))"

definition pick_addr :: "int \<Rightarrow> lease_kind \<Rightarrow> int \<Rightarrow> int \<Rightarrow> manager \<Rightarrow> nat list \<Rightarrow> nat" where
  "pick_addr penalty_ms kind now now_ms m eligible =
     (let scored = map (\<lambda>x. (lease_score penalty_ms kind now now_ms (heap m x), x)) eligible;
          rot = unat (rr_seq m) mod length scored
      in snd (hd (sort_key fst (rotate rot scored))))"

definition try_lease ::
    "int \<Rightarrow> string list \<Rightarrow> lease_kind \<Rightarrow> lease_rules \<Rightarrow> int \<Rightarrow> int \<Rightarrow> manager \<Rightarrow>
     (app_error + lease option) \<times> manager" where
  "try_lease penalty_ms excl kind rules now now_ms m =
     (if accounts m = [] then (Inl (Internal NO_CREDENTIALS), m)
      else
        let known = map (heap m) (accounts m);
            usable = usable_addrs excl now m;
            eligible = eligible_addrs excl rules now now_ms m;
            m1 = at_addrs (counted_addrs excl rules now now_ms m)
                   (\<lambda>a. snd (requests_last_hour now_ms a)) m
        in if eligible = [] \<and> usable \<noteq> [] then (Inr None, m1)
           else if eligible = [] then
             (case shortest_pause excl now known of
                Some s \<Rightarrow> (Inl (RateLimited s), m1)
              | None \<Rightarrow>
                  (case shortest_cooldown now known of
                     Some s \<Rightarrow> (Inl (ServiceUnavailableRetry WAITING_REFRESH s), m1)
                   | None \<Rightarrow> (Inl (ServiceUnavailable ALL_INACTIVE), m1)))
           else
             let best = pick_addr penalty_ms kind now now_ms m1 eligible;
                 m2 = at_addrs eligible (\<lambda>a. snd (recent_error_rate now_ms a)) m1;
                 m3 = m2\<lparr>rr_seq := rr_seq m2 + 1\<rparr>;
                 (l, m4) = take_lease kind (rest_ms rules) now_ms best m3
             in (Inr (Some l), m4))"

section \<open>Counts and catalog slots\<close>

definition playback_slots :: "int \<Rightarrow> manager \<Rightarrow> nat" where
  "playback_slots now m =
     max 1 (length (filter (\<lambda>x. \<not> is_catalog (heap m x) \<and> is_active (heap m x) \<and>
        rate_limit_remaining now (heap m x) = None \<and> has_usable_token now (heap m x)) (accounts m)))"

definition playback_count :: "manager \<Rightarrow> nat" where
  "playback_count m = length (filter (\<lambda>x. \<not> is_catalog (heap m x) \<and> is_active (heap m x)) (accounts m))"

definition find_catalog_account :: "manager \<Rightarrow> nat option" where
  "find_catalog_account m =
     (case find (\<lambda>x. is_catalog (heap m x) \<and> is_active (heap m x)) (accounts m) of
        Some x \<Rightarrow> Some x
      | None \<Rightarrow> find (\<lambda>x. is_catalog (heap m x)) (accounts m))"

definition catalog_ready :: "int \<Rightarrow> manager \<Rightarrow> nat list" where
  "catalog_ready now m =
     filter (\<lambda>x. is_catalog (heap m x) \<and> is_active (heap m x) \<and>
        rate_limit_remaining now (heap m x) = None) (accounts m)"

definition next_active_catalog :: "int \<Rightarrow> int \<Rightarrow> manager \<Rightarrow> nat option \<times> manager" where
  "next_active_catalog now now_ms m =
     (let catalog = catalog_ready now m
      in if catalog = [] then (None, m)
         else (let x = catalog ! (unat (catalog_rr m) mod length catalog)
               in (Some x, at_addr x (note_selection now_ms) (m\<lparr>catalog_rr := catalog_rr m + 1\<rparr>))))"

definition catalog_rate_limit_remaining :: "int \<Rightarrow> manager \<Rightarrow> nat option" where
  "catalog_rate_limit_remaining now m =
     (let secs = List.map_filter (\<lambda>x. rate_limit_remaining now (heap m x))
                   (filter (\<lambda>x. is_catalog (heap m x) \<and> is_active (heap m x)) (accounts m))
      in if secs = [] then None else Some (Min (set secs)))"

definition try_claim_catalog_slot :: "nat \<Rightarrow> account \<Rightarrow> bool \<times> account" where
  "try_claim_catalog_slot cap a =
     (if cap > 0 \<and> catalog_inflight a \<ge> cap then (False, a)
      else (True, a\<lparr>catalog_inflight := catalog_inflight a + 1\<rparr>))"

definition drop_catalog_slot :: "account \<Rightarrow> account" where
  "drop_catalog_slot a = a\<lparr>catalog_inflight := catalog_inflight a - 1\<rparr>"

datatype catalog_claim = Slot nat | Busy | Unavailable

fun claim_first :: "nat \<Rightarrow> int \<Rightarrow> nat list \<Rightarrow> manager \<Rightarrow> catalog_claim \<times> manager" where
  "claim_first cap now_ms [] m = (Busy, m)"
| "claim_first cap now_ms (x # xs) m =
     (let (ok, a) = try_claim_catalog_slot cap (heap m x)
      in if ok then (Slot x, at_addr x (\<lambda>_. note_selection now_ms a) m)
         else claim_first cap now_ms xs m)"

definition claim_catalog_slot :: "nat \<Rightarrow> int \<Rightarrow> int \<Rightarrow> manager \<Rightarrow> catalog_claim \<times> manager" where
  "claim_catalog_slot cap now now_ms m =
     (let catalog = filter (\<lambda>x. refresh_cooldown now (heap m x) = None) (catalog_ready now m)
      in if catalog = [] then (Unavailable, m)
         else (let start = unat (catalog_rr m) mod length catalog;
                   m1 = m\<lparr>catalog_rr := catalog_rr m + 1\<rparr>;
                   order = sort_key (\<lambda>x. rate_limit_heat now (heap m1 x)) (rotate start catalog)
               in claim_first cap now_ms order m1))"

text \<open>
  \<open>select_account_excluding\<close> takes a lease and drops it at once; \<open>Inr None\<close> is a pass after
  which the caller still waits.
\<close>

definition select_account_excluding ::
    "int \<Rightarrow> string list \<Rightarrow> int \<Rightarrow> int \<Rightarrow> manager \<Rightarrow> (app_error + nat option) \<times> manager" where
  "select_account_excluding penalty_ms excl now now_ms m =
     (case try_lease penalty_ms excl Playback no_rules now now_ms m of
        (Inl e, m1) \<Rightarrow> (Inl e, m1)
      | (Inr None, m1) \<Rightarrow> (Inr None, m1)
      | (Inr (Some l), m1) \<Rightarrow> (Inr (Some (lease_addr l)), drop_lease now_ms l m1))"

definition select_catalog_account ::
    "int \<Rightarrow> int \<Rightarrow> int \<Rightarrow> manager \<Rightarrow> (app_error + nat option) \<times> manager" where
  "select_catalog_account penalty_ms now now_ms m =
     (case next_active_catalog now now_ms m of
        (Some x, m1) \<Rightarrow> (Inr (Some x), m1)
      | (None, m1) \<Rightarrow>
          (case catalog_rate_limit_remaining now m1 of
             Some s \<Rightarrow> (Inl (RateLimited s), m1)
           | None \<Rightarrow> select_account_excluding penalty_ms [] now now_ms m1))"

section \<open>Waiting for a lease\<close>

text \<open>
  \<open>lease_account_for\<close> repeats the pass whenever a lease is released or 100 ms went by, and
  gives up at its deadline. The passes are a list: what the rest of the server did before the
  pass (\<open>p_env\<close>), and the clocks read in it. \<open>None\<close> means the caller is still waiting after
  the last pass of the list.
\<close>

record pass =
  p_env :: "manager \<Rightarrow> manager"
  p_now :: int
  p_now_ms :: int
  p_instant :: instant

definition LEASE_WAIT :: nat where
  "LEASE_WAIT = 20 * ns_per_sec"

fun join_with :: "string \<Rightarrow> string list \<Rightarrow> string" where
  "join_with d [] = []"
| "join_with d [w] = w"
| "join_with d (w # ws) = w @ d @ join_with d ws"

definition busy_message :: "lease_rules \<Rightarrow> string" where
  "busy_message rules =
     (let limits =
        (if concurrency rules > 0
         then [''at most '' @ show_nat (concurrency rules) @ '' request(s) to Tidal at a time''] else []) @
        (if rest_ms rules > 0 then [''a '' @ show_nat (rest_ms rules) @ '' ms rest after each''] else []) @
        (if per_hour rules > 0
         then [''at most '' @ show_nat (per_hour rules) @ '' requests an hour''] else [])
      in ACCOUNTS_BUSY @ '': each allows '' @ join_with '', '' limits @ '', and none freed up within '' @
         show_nat (as_secs LEASE_WAIT) @ '' s. Retry shortly.'')"

fun lease_wait ::
    "int \<Rightarrow> string list \<Rightarrow> lease_kind \<Rightarrow> lease_rules \<Rightarrow> instant \<Rightarrow> pass list \<Rightarrow> manager \<Rightarrow>
     (app_error + lease) option \<times> manager" where
  "lease_wait pen excl kind rules deadline [] m = (None, m)"
| "lease_wait pen excl kind rules deadline (p # ps) m =
     (case try_lease pen excl kind rules (p_now p) (p_now_ms p) (p_env p m) of
        (Inl e, m1) \<Rightarrow> (Some (Inl e), m1)
      | (Inr (Some l), m1) \<Rightarrow> (Some (Inr l), m1)
      | (Inr None, m1) \<Rightarrow>
          if p_instant p \<ge> deadline
          then (Some (Inl (AccountsBusy (busy_message rules) (if per_hour rules > 0 then 5 else 1))), m1)
          else lease_wait pen excl kind rules deadline ps m1)"

definition lease_account_for ::
    "int \<Rightarrow> string list \<Rightarrow> lease_kind \<Rightarrow> lease_rules \<Rightarrow> instant \<Rightarrow> pass list \<Rightarrow> manager \<Rightarrow>
     (app_error + lease) option \<times> manager" where
  "lease_account_for pen excl kind rules start ps m =
     lease_wait pen excl kind rules (start + LEASE_WAIT) ps m"

definition lease_account_excluding ::
    "int \<Rightarrow> string list \<Rightarrow> instant \<Rightarrow> pass list \<Rightarrow> manager \<Rightarrow> (app_error + lease) option \<times> manager" where
  "lease_account_excluding pen excl start ps m = lease_account_for pen excl Playback no_rules start ps m"

end
