(* ===== verification/SelectionProps.thy ===== *)
theory SelectionProps
  imports Selection
begin

text \<open>
  What account selection promises: whom it picks, when it refuses and with what, that leases
  and in-flight counters stay in step, and that the concurrency limit of an account holds.
\<close>

section \<open>Frames\<close>

text \<open>What a manager step may not touch if it is to leave the leases alone.\<close>

definition inflight :: "account \<Rightarrow> nat \<times> nat \<times> nat" where
  "inflight a = (playback_inflight a, metadata_inflight a, catalog_inflight a)"

lemma heap_at_addr [simp]: "heap (at_addr x f m) y = (if y = x then f (heap m x) else heap m y)"
  and accounts_at_addr [simp]: "accounts (at_addr x f m) = accounts m"
  and next_at_addr [simp]: "next_addr (at_addr x f m) = next_addr m"
  and rr_at_addr [simp]: "rr_seq (at_addr x f m) = rr_seq m"
  and crr_at_addr [simp]: "catalog_rr (at_addr x f m) = catalog_rr m"
  and outbox_at_addr [simp]: "outbox (at_addr x f m) = outbox m"
  and cells_at_addr [simp]: "cells (at_addr x f m) = cells m"
  and histories_at_addr [simp]: "histories (at_addr x f m) = histories m"
  by (simp_all add: at_addr_def)

lemma heap_at_addrs [simp]: "heap (at_addrs xs f m) y = (if y \<in> set xs then f (heap m y) else heap m y)"
  and accounts_at_addrs [simp]: "accounts (at_addrs xs f m) = accounts m"
  and next_at_addrs [simp]: "next_addr (at_addrs xs f m) = next_addr m"
  and rr_at_addrs [simp]: "rr_seq (at_addrs xs f m) = rr_seq m"
  by (simp_all add: at_addrs_def)

lemma full_tier_frame [simp]: "full_tier now (a\<lparr>hour_picks := v\<rparr>) = full_tier now a"
  by (simp add: full_tier_def)

lemma prune_frame [simp]:
  "inflight (snd (requests_last_hour now_ms a)) = inflight a"
  "acc_id (snd (requests_last_hour now_ms a)) = acc_id a"
  by (simp_all add: requests_last_hour_def Let_def inflight_def)

lemma prune_score [simp]:
  "lease_score p k now now_ms (snd (requests_last_hour now_ms' a)) = lease_score p k now now_ms a"
  by (cases k) (simp_all add: requests_last_hour_def Let_def lease_score_def
      pool_inflight_def rate_limit_heat_def recent_error_rate_def)

lemma decay_frame [simp]:
  "inflight (snd (recent_error_rate now_ms a)) = inflight a"
  "acc_id (snd (recent_error_rate now_ms a)) = acc_id a"
  by (simp_all add: recent_error_rate_def Let_def inflight_def)

lemma note_selection_frame [simp]:
  "inflight (note_selection now_ms a) = inflight a"
  "acc_id (note_selection now_ms a) = acc_id a"
  by (simp_all add: note_selection_def note_recent_def Let_def inflight_def)

lemma counter_set [simp]:
  "counter k (set_counter k' n a) = (if k = k' then n else counter k a)"
  by (cases k; cases k') simp_all

declare counter.simps [simp del]

lemma counter_inflight: "inflight a = inflight b \<Longrightarrow> counter k a = counter k b"
  by (cases k) (simp_all add: inflight_def counter.simps)

lemma counter_note [simp]: "counter k (note_selection now_ms a) = counter k a"
  by (rule counter_inflight) simp

lemma pool_inflight_sum: "pool_inflight a = counter Playback a + counter Metadata a"
  by (simp add: pool_inflight_def counter.simps)

lemma admits_iff: "admits r now_ms a \<longleftrightarrow>
    (concurrency r = 0 \<or> playback_inflight a + metadata_inflight a < concurrency r) \<and>
    rest_until_ms a \<le> now_ms \<and>
    (per_hour r = 0 \<or> length (dropWhile (\<lambda>p. p \<le> now_ms - 3600000) (hour_picks a)) < per_hour r)"
  by (auto simp: admits_def is_free_def pool_inflight_def requests_last_hour_def Let_def)

lemma admits_inflight: "admits r now_ms a \<Longrightarrow> concurrency r = 0 \<or> pool_inflight a < concurrency r"
  by (auto simp: admits_def is_free_def)

section \<open>Who is picked\<close>

definition can_serve :: "string list \<Rightarrow> lease_rules \<Rightarrow> int \<Rightarrow> int \<Rightarrow> account \<Rightarrow> bool" where
  "can_serve excl rules now now_ms a \<longleftrightarrow>
     is_active a \<and> \<not> is_catalog a \<and> rate_limited_until a \<le> now \<and>
     (has_usable_token now a \<or> heal_next_retry a \<le> now) \<and>
     acc_id a \<notin> set excl \<and>
     (concurrency rules = 0 \<or> playback_inflight a + metadata_inflight a < concurrency rules) \<and>
     rest_until_ms a \<le> now_ms \<and>
     (per_hour rules = 0 \<or> length (dropWhile (\<lambda>p. p \<le> now_ms - 3600000) (hour_picks a)) < per_hour rules)"

lemma classify_Ready: "classify now a = Ready \<longleftrightarrow>
    is_active a \<and> \<not> is_catalog a \<and> rate_limited_until a \<le> now \<and>
    (has_usable_token now a \<or> heal_next_retry a \<le> now)"
  using remaining_None_iff [of now a]
  by (auto simp: classify_def refresh_cooldown_def split: option.splits)

lemma eligible_iff:
  "set (eligible_addrs excl rules now now_ms m) =
     {x \<in> set (accounts m). can_serve excl rules now now_ms (heap m x)}"
  by (auto simp: eligible_addrs_def usable_addrs_def classify_Ready can_serve_def admits_iff)

lemma pick_addr_best:
  assumes "eligible \<noteq> []"
  shows "pick_addr p k now now_ms m eligible \<in> set eligible"
    and "y \<in> set eligible \<Longrightarrow>
      lease_score p k now now_ms (heap m (pick_addr p k now now_ms m eligible))
      \<le> lease_score p k now now_ms (heap m y)"
proof -
  let ?sc = "\<lambda>x. (lease_score p k now now_ms (heap m x), x)"
  let ?xs = "rotate (unat (rr_seq m) mod length eligible) (map ?sc eligible)"
  let ?b = "hd (sort_key fst ?xs)"
  have pick: "pick_addr p k now now_ms m eligible = snd ?b"
    by (simp add: pick_addr_def Let_def)
  have "?xs \<noteq> []" using assms by simp
  then have "?b \<in> set ?xs" by (rule hd_sort_key_in)
  then have b: "?b \<in> ?sc ` set eligible" by simp
  then show "pick_addr p k now now_ms m eligible \<in> set eligible"
    unfolding pick by auto
  show "lease_score p k now now_ms (heap m (pick_addr p k now now_ms m eligible))
      \<le> lease_score p k now now_ms (heap m y)" if y: "y \<in> set eligible"
  proof -
    have "?sc y \<in> set ?xs" using y by simp
    then have "fst ?b \<le> fst (?sc y)" by (rule hd_sort_key_least)
    then show ?thesis using b pick by auto
  qed
qed

lemma take_lease_counter:
  assumes "(l, m') = take_lease k r now_ms x (m\<lparr>rr_seq := n\<rparr>)"
  shows "counter j (heap m' z) =
      (if z = x \<and> j = k then counter j (heap m z) + 1 else counter j (heap m z))"
  using assms by (auto simp: take_lease_def)

text \<open>The state after a lease was granted, and what it says of the counters.\<close>

lemma try_lease_Some:
  assumes "try_lease p excl k rules now now_ms m = (Inr (Some l), m')"
  shows "lease_of l = k" "lease_rest l = rest_ms rules"
    and "lease_addr l \<in> set (eligible_addrs excl rules now now_ms m)"
    and "y \<in> set (eligible_addrs excl rules now now_ms m) \<Longrightarrow>
      lease_score p k now now_ms (heap m (lease_addr l)) \<le> lease_score p k now now_ms (heap m y)"
    and "accounts m' = accounts m" "next_addr m' = next_addr m"
    and "counter j (heap m' z) =
      (if z = lease_addr l \<and> j = k then counter j (heap m z) + 1 else counter j (heap m z))"
    and "rr_seq m' = rr_seq m + 1"
proof -
  let ?E = "eligible_addrs excl rules now now_ms m"
  let ?m1 = "at_addrs (counted_addrs excl rules now now_ms m) (\<lambda>a. snd (requests_last_hour now_ms a)) m"
  let ?x = "pick_addr p k now now_ms ?m1 ?E"
  let ?m2 = "at_addrs ?E (\<lambda>a. snd (recent_error_rate now_ms a)) ?m1"
  have ne: "?E \<noteq> []" and l: "(l, m') = take_lease k (rest_ms rules) now_ms ?x (?m2\<lparr>rr_seq := rr_seq ?m2 + 1\<rparr>)"
    using assms by (auto simp: try_lease_def Let_def split_beta split: if_splits option.splits)
  have x: "lease_addr l = ?x" using l by (simp add: take_lease_def)
  have same: "lease_score p k now now_ms (heap ?m1 z) = lease_score p k now now_ms (heap m z)" for z
    by simp
  show "lease_of l = k" "lease_rest l = rest_ms rules" "accounts m' = accounts m"
      "next_addr m' = next_addr m" "rr_seq m' = rr_seq m + 1"
    using l by (simp_all add: take_lease_def)
  show "lease_addr l \<in> set ?E" unfolding x by (rule pick_addr_best [OF ne])
  show "lease_score p k now now_ms (heap m (lease_addr l)) \<le> lease_score p k now now_ms (heap m y)"
    if "y \<in> set ?E"
    using pick_addr_best(2) [OF ne that, of p k now now_ms ?m1] unfolding x same .
  have c2: "counter j (heap ?m2 z) = counter j (heap m z)" for z j
    by (intro counter_inflight) simp
  show "counter j (heap m' z) =
      (if z = lease_addr l \<and> j = k then counter j (heap m z) + 1 else counter j (heap m z))"
    using take_lease_counter [OF l] c2 x by simp
qed

text \<open>
  C2. A granted lease is on an account that can serve now (enabled, not catalog-only, outside
  a 429 pause, not waiting for a token refresh, not excluded, below its concurrency and hourly
  limits, rested), and no other such account comes before it in the order confirmed-FULL tier,
  requests in flight, recent 429s, last use moved back by recent errors.
\<close>

theorem lease_is_best:
  assumes "try_lease p excl k rules now now_ms m = (Inr (Some l), m')"
  shows "lease_addr l \<in> set (accounts m)
    \<and> can_serve excl rules now now_ms (heap m (lease_addr l))
    \<and> list_all (\<lambda>y. lease_score p k now now_ms (heap m (lease_addr l)) \<le> lease_score p k now now_ms (heap m y))
        (filter (\<lambda>y. can_serve excl rules now now_ms (heap m y)) (accounts m))"
  using try_lease_Some(3) [OF assms] try_lease_Some(4) [OF assms]
  by (simp add: eligible_iff list_all_iff)

lemma inflight_counters: "inflight (heap m' z) = inflight (heap m z) \<longleftrightarrow>
    counter Playback (heap m' z) = counter Playback (heap m z) \<and>
    counter Metadata (heap m' z) = counter Metadata (heap m z) \<and>
    catalog_inflight (heap m' z) = catalog_inflight (heap m z)"
  by (simp add: inflight_def counter.simps)

text \<open>A refused pass changes nothing but the pruning of hourly counts.\<close>

lemma try_lease_other:
  assumes "try_lease p excl k rules now now_ms m = (r, m')" "\<nexists>l. r = Inr (Some l)"
  shows "accounts m' = accounts m" "next_addr m' = next_addr m" "rr_seq m' = rr_seq m"
    and "inflight (heap m' z) = inflight (heap m z)"
  using assms by (auto simp: try_lease_def Let_def split_beta split: if_splits option.splits)

section \<open>Why a request is refused\<close>

definition pauses :: "string list \<Rightarrow> int \<Rightarrow> account list \<Rightarrow> nat list" where
  "pauses excl now as =
     List.map_filter (rate_limit_remaining now)
       (filter (\<lambda>a. is_active a \<and> \<not> is_catalog a \<and> acc_id a \<notin> set excl) as)"

definition cooldowns :: "int \<Rightarrow> account list \<Rightarrow> nat list" where
  "cooldowns now as =
     List.map_filter (refresh_cooldown now)
       (filter (\<lambda>a. is_active a \<and> \<not> is_catalog a \<and> rate_limited_until a \<le> now) as)"

lemma remaining_Some_less: "rate_limit_remaining now a = Some s \<Longrightarrow> now < rate_limited_until a"
  using remaining_None_iff [of now a] by auto

lemma shortest_pause_min:
  "shortest_pause excl now as = (if pauses excl now as = [] then None else Some (Min (set (pauses excl now as))))"
proof -
  have "fold (\<lambda>a old. case classify now a of
             Paused s \<Rightarrow> if acc_id a \<in> set excl then old else opt_min old s
           | _ \<Rightarrow> old) as acc = fold (\<lambda>x old. opt_min old x) (pauses excl now as) acc" for acc
    by (induction as arbitrary: acc)
      (auto simp: pauses_def map_filter_simps classify_def split: option.splits)
  then show ?thesis by (simp add: shortest_pause_def opt_min_fold)
qed

lemma shortest_cooldown_min:
  "shortest_cooldown now as = (if cooldowns now as = [] then None else Some (Min (set (cooldowns now as))))"
proof -
  have "fold (\<lambda>a old. case classify now a of Cooling s \<Rightarrow> opt_min old s | _ \<Rightarrow> old) as acc
      = fold (\<lambda>x old. opt_min old x) (cooldowns now as) acc" for acc
    by (induction as arbitrary: acc)
      (auto simp: cooldowns_def map_filter_simps classify_def remaining_None_iff
        split: option.splits dest: remaining_Some_less)
  then show ?thesis by (simp add: shortest_cooldown_def opt_min_fold)
qed

text \<open>
  The answer of one pass, from the accounts alone: the reference that \<open>try_lease\<close> is compared
  with. \<open>Inr True\<close> is a lease, \<open>Inr False\<close> means that everyone usable is busy.
\<close>

definition lease_verdict :: "string list \<Rightarrow> lease_rules \<Rightarrow> int \<Rightarrow> int \<Rightarrow> account list \<Rightarrow> app_error + bool" where
  "lease_verdict excl rules now now_ms as =
     (let usable = filter (\<lambda>a. is_active a \<and> \<not> is_catalog a \<and> rate_limited_until a \<le> now \<and>
            (has_usable_token now a \<or> heal_next_retry a \<le> now) \<and> acc_id a \<notin> set excl) as
      in if as = [] then Inl (Internal NO_CREDENTIALS)
         else if list_ex (can_serve excl rules now now_ms) as then Inr True
         else if usable \<noteq> [] then Inr False
         else if pauses excl now as \<noteq> [] then Inl (RateLimited (Min (set (pauses excl now as))))
         else if cooldowns now as \<noteq> []
           then Inl (ServiceUnavailableRetry WAITING_REFRESH (Min (set (cooldowns now as))))
         else Inl (ServiceUnavailable ALL_INACTIVE))"

text \<open>
  C4. Every outcome of a pass: no account at all is an internal error; otherwise a lease is
  granted exactly if some account can serve now; otherwise the request waits exactly if some
  account is usable but busy, resting or over its hourly limit; otherwise the error names the
  shortest 429 pause of the accounts not tried yet, or else the shortest token cooldown.
\<close>

theorem try_lease_verdict:
  "map_sum id (\<lambda>l. l \<noteq> None) (fst (try_lease p excl k rules now now_ms m))
   = lease_verdict excl rules now now_ms (map (heap m) (accounts m))"
proof -
  have el: "eligible_addrs excl rules now now_ms m = [] \<longleftrightarrow>
      \<not> list_ex (can_serve excl rules now now_ms) (map (heap m) (accounts m))"
    using eligible_iff [of excl rules now now_ms m]
    by (auto simp: list_ex_iff simp flip: set_empty2)
  have us: "usable_addrs excl now m = [] \<longleftrightarrow>
      filter (\<lambda>a. is_active a \<and> \<not> is_catalog a \<and> rate_limited_until a \<le> now \<and>
            (has_usable_token now a \<or> heal_next_retry a \<le> now) \<and> acc_id a \<notin> set excl)
        (map (heap m) (accounts m)) = []"
    by (auto simp: usable_addrs_def filter_empty_conv classify_Ready)
  show ?thesis
    by (simp add: try_lease_def lease_verdict_def Let_def el us shortest_pause_min
        shortest_cooldown_min split_beta)
qed

section \<open>Leases and in-flight counters\<close>

text \<open>
  What every other operation on the manager does to the leases: nothing. Accounts that were
  known keep their counters, new objects start at zero, and the manager knows only allocated
  objects.
\<close>

definition leases_kept :: "manager \<Rightarrow> manager \<Rightarrow> bool" where
  "leases_kept m m' \<longleftrightarrow>
     next_addr m \<le> next_addr m' \<and>
     (\<forall>x<next_addr m. inflight (heap m' x) = inflight (heap m x)) \<and>
     (\<forall>x<next_addr m'. next_addr m \<le> x \<longrightarrow> inflight (heap m' x) = (0, 0, 0)) \<and>
     (set (accounts m) \<subseteq> {..<next_addr m} \<longrightarrow> set (accounts m') \<subseteq> {..<next_addr m'})"

lemma leases_kept_refl [simp]: "leases_kept m m"
  by (simp add: leases_kept_def)

lemma leases_kept_trans:
  assumes 1: "leases_kept m m'" and 2: "leases_kept m' m''"
  shows "leases_kept m m''"
proof -
  have "inflight (heap m'' x) = (0, 0, 0)" if "x < next_addr m''" "next_addr m \<le> x" for x
    using assms that by (cases "x < next_addr m'") (simp_all add: leases_kept_def)
  moreover have "inflight (heap m'' x) = inflight (heap m x)" if "x < next_addr m" for x
    using assms that by (simp add: leases_kept_def)
  moreover have "next_addr m \<le> next_addr m''"
    using assms by (simp add: leases_kept_def)
  moreover have "set (accounts m) \<subseteq> {..<next_addr m} \<longrightarrow> set (accounts m'') \<subseteq> {..<next_addr m''}"
    using assms by (simp add: leases_kept_def)
  ultimately show ?thesis unfolding leases_kept_def by blast
qed

lemma leases_kept_counter:
  "leases_kept m m' \<Longrightarrow> x < next_addr m \<Longrightarrow> counter k (heap m' x) = counter k (heap m x)"
  by (intro counter_inflight) (simp add: leases_kept_def)

lemma leases_kept_fresh:
  "leases_kept m m' \<Longrightarrow> next_addr m \<le> x \<Longrightarrow> x < next_addr m' \<Longrightarrow> counter k (heap m' x) = 0"
  by (cases k) (auto simp: leases_kept_def inflight_def counter.simps)

text \<open>
  The steps of the pool, with the leases that are out: whether each was selected from the pool
  or taken on an account the caller chose. The limits are settings that may change between two
  selections: \<open>L\<close> is the largest in force, 0 if there is none.
\<close>

inductive pool_step :: "nat \<Rightarrow> manager \<times> (bool \<times> lease) list \<Rightarrow> manager \<times> (bool \<times> lease) list \<Rightarrow> bool"
  for L :: nat where
  granted: "try_lease p excl k rules now now_ms m = (Inr (Some l), m') \<Longrightarrow>
     L = 0 \<or> 0 < concurrency rules \<and> concurrency rules \<le> L \<Longrightarrow>
     pool_step L (m, ls) (m', (True, l) # ls)"
| refused: "try_lease p excl k rules now now_ms m = (r, m') \<Longrightarrow> \<nexists>l. r = Inr (Some l) \<Longrightarrow>
     pool_step L (m, ls) (m', ls)"
| chosen: "x < next_addr m \<Longrightarrow> lease_chosen now_ms x m = (l, m') \<Longrightarrow>
     pool_step L (m, ls) (m', (False, l) # ls)"
| dropped: "(b, l) \<in> set ls \<Longrightarrow> pool_step L (m, ls) (drop_lease now_ms l m, remove1 (b, l) ls)"
| other: "leases_kept m m' \<Longrightarrow> pool_step L (m, ls) (m', ls)"

inductive pool_reachable :: "nat \<Rightarrow> manager \<times> (bool \<times> lease) list \<Rightarrow> bool" for L :: nat where
  start: "pool_reachable L (manager_new junk, [])"
| step: "pool_reachable L s \<Longrightarrow> pool_step L s t \<Longrightarrow> pool_reachable L t"

inductive_cases pool_stepE: "pool_step L (m, ls) (m', ls')"

definition held :: "nat \<Rightarrow> lease_kind \<Rightarrow> (bool \<times> lease) list \<Rightarrow> nat" where
  "held x k ls = length (filter (\<lambda>(b, l). lease_addr l = x \<and> lease_of l = k) ls)"

definition held_selected :: "nat \<Rightarrow> (bool \<times> lease) list \<Rightarrow> nat" where
  "held_selected x ls = length (filter (\<lambda>(b, l). b \<and> lease_addr l = x) ls)"

definition pool_inv :: "nat \<Rightarrow> manager \<times> (bool \<times> lease) list \<Rightarrow> bool" where
  "pool_inv L s \<longleftrightarrow> (case s of (m, ls) \<Rightarrow>
     set (accounts m) \<subseteq> {..<next_addr m} \<and>
     (\<forall>(b, l)\<in>set ls. lease_addr l < next_addr m) \<and>
     (\<forall>x k. x < next_addr m \<longrightarrow> counter k (heap m x) = held x k ls) \<and>
     (0 < L \<longrightarrow> (\<forall>x. held_selected x ls \<le> L)))"

lemma held_Cons: "held x k ((b, l) # ls) = (if lease_addr l = x \<and> lease_of l = k then 1 else 0) + held x k ls"
  by (simp add: held_def)

lemma held_selected_Cons:
  "held_selected x ((b, l) # ls) = (if b \<and> lease_addr l = x then 1 else 0) + held_selected x ls"
  by (simp add: held_selected_def)

lemma length_filter_remove1:
  "y \<in> set ys \<Longrightarrow> length (filter P (remove1 y ys)) = (if P y then length (filter P ys) - 1 else length (filter P ys))"
  by (simp add: filter_remove1 length_remove1)

lemma held_remove1:
  "(b, l) \<in> set ls \<Longrightarrow>
    held x k (remove1 (b, l) ls) = (if lease_addr l = x \<and> lease_of l = k then held x k ls - 1 else held x k ls)"
  by (simp add: held_def length_filter_remove1)

lemma held_selected_remove1: "held_selected x (remove1 y ls) \<le> held_selected x ls"
  unfolding held_selected_def filter_remove1 by (simp add: length_remove1)

lemma held_selected_le: "held_selected x ls \<le> held x Playback ls + held x Metadata ls"
proof (induction ls)
  case Nil
  then show ?case by (simp add: held_selected_def)
next
  case (Cons y ls)
  obtain b l where "y = (b, l)" by force
  with Cons show ?case by (cases "lease_of l") (auto simp: held_Cons held_selected_Cons)
qed

lemma drop_lease_counter:
  "counter k (heap (drop_lease now_ms l m) x) =
    (if x = lease_addr l \<and> k = lease_of l then counter k (heap m x) - 1 else counter k (heap m x))"
proof -
  have "counter j (a\<lparr>rest_until_ms := v\<rparr>) = counter j a" for j v and a :: account
    by (cases j) (simp_all add: counter.simps)
  then show ?thesis by (simp add: drop_lease_def Let_def)
qed

lemma drop_lease_frame [simp]:
  "accounts (drop_lease now_ms l m) = accounts m" "next_addr (drop_lease now_ms l m) = next_addr m"
  by (simp_all add: drop_lease_def)

lemma pool_inv_step:
  assumes "pool_step L s t" "pool_inv L s"
  shows "pool_inv L t"
  using assms
proof (induction rule: pool_step.induct)
  case (granted p excl k rules now now_ms m l m' ls)
  note tr = try_lease_Some [OF granted(1)]
  have x: "lease_addr l < next_addr m" "admits rules now_ms (heap m (lease_addr l))"
    using granted(3) tr(3) by (auto simp: pool_inv_def eligible_iff can_serve_def admits_iff)
  have cnt: "counter j (heap m y) = held y j ls" if "y < next_addr m" for y j
    using granted(3) that by (simp add: pool_inv_def)
  have "held_selected (lease_addr l) ls < L" if "0 < L"
    using admits_inflight [OF x(2)] that granted(2) cnt [OF x(1)]
      held_selected_le [of "lease_addr l" ls] by (simp add: pool_inflight_sum)
  then show ?case
    using granted(3) tr(1,5,6,7) x(1) cnt
    by (auto simp: pool_inv_def held_Cons held_selected_Cons)
next
  case (refused p excl k rules now now_ms m r m' ls)
  note tr = try_lease_other [OF refused(1,2)]
  have "counter j (heap m' z) = counter j (heap m z)" for j z
    using tr(4) by (rule counter_inflight)
  then show ?case using refused(3) tr(1,2) by (simp add: pool_inv_def)
next
  case (chosen x m now_ms l m' ls)
  have take: "(l, m') = take_lease Playback 0 now_ms x (m\<lparr>rr_seq := rr_seq m\<rparr>)"
    using chosen(2) by (simp add: lease_chosen_def)
  then have "lease_addr l = x" "lease_of l = Playback" "accounts m' = accounts m" "next_addr m' = next_addr m"
    by (simp_all add: take_lease_def)
  then show ?case
    using chosen(1,3) take_lease_counter [OF take]
    by (auto simp: pool_inv_def held_Cons held_selected_Cons)
next
  case (dropped b l ls m now_ms)
  have "counter j (heap (drop_lease now_ms l m) x) = held x j (remove1 (b, l) ls)"
    if "x < next_addr m" for x j
    using dropped that by (simp add: pool_inv_def drop_lease_counter held_remove1)
  moreover have "\<forall>(b', l')\<in>set (remove1 (b, l) ls). lease_addr l' < next_addr m"
    using dropped(2) set_remove1_subset [of "(b, l)" ls] by (fastforce simp: pool_inv_def)
  moreover have "held_selected x (remove1 (b, l) ls) \<le> L" if "0 < L" for x
    using dropped(2) that held_selected_remove1 [of x "(b, l)" ls]
    by (auto simp: pool_inv_def intro: order_trans)
  moreover have "set (accounts m) \<subseteq> {..<next_addr m}" using dropped(2) by (simp add: pool_inv_def)
  ultimately show ?case by (auto simp: pool_inv_def)
next
  case (other m m' ls)
  have "counter k (heap m' x) = held x k ls" if "x < next_addr m'" for x k
  proof (cases "x < next_addr m")
    case True
    then show ?thesis using other leases_kept_counter by (simp add: pool_inv_def)
  next
    case False
    have "held x k ls = 0"
      using other(2) False by (fastforce simp: pool_inv_def held_def filter_empty_conv)
    with False that other(1) show ?thesis by (simp add: leases_kept_fresh)
  qed
  moreover have "next_addr m \<le> next_addr m'" "set (accounts m') \<subseteq> {..<next_addr m'}"
    using other by (auto simp: leases_kept_def pool_inv_def)
  ultimately show ?case using other(2) by (fastforce simp: pool_inv_def)
qed

lemma pool_inv_reachable: "pool_reachable L s \<Longrightarrow> pool_inv L s"
proof (induction rule: pool_reachable.induct)
  case (start junk)
  then show ?case by (simp add: pool_inv_def manager_new_def held_selected_def)
next
  case (step s t)
  then show ?case by (blast intro: pool_inv_step)
qed


section \<open>A concrete pool\<close>

definition demo_account :: "string \<Rightarrow> bool \<Rightarrow> account" where
  "demo_account i cat = (account_new (\<lambda>s. Some s) i i ''cid'' ''sec'' ''ref'' None True [])
     \<lparr>access_token := Some ''tok'', token_expires_at := 9000, is_catalog := cat\<rparr>"

definition demo_manager :: manager where
  "demo_manager = \<lparr>accounts = [0, 1, 2],
     heap = (\<lambda>x. if x = 0 then (demo_account ''p'' False)\<lparr>rate_limited_until := 1030\<rparr>
               else if x = 1 then demo_account ''q'' False else demo_account ''c'' True),
     next_addr = 3, rr_seq = 5, catalog_rr = 0, cells = id, histories = (\<lambda>_. []), outbox = []\<rparr>"

definition one_at_a_time :: lease_rules where
  "one_at_a_time = \<lparr>concurrency = 1, rest_ms = 50, per_hour = 10\<rparr>"

lemmas demo_defs = demo_manager_def demo_account_def account_new_def one_at_a_time_def

lemma demo_eligible: "eligible_addrs [] one_at_a_time 1000 1000000 demo_manager = [1]"
  by (simp add: eligible_addrs_def usable_addrs_def classify_Ready demo_defs has_usable_token_def
      admits_def is_free_def pool_inflight_def requests_last_hour_def)

lemma demo_lease:
  "fst (try_lease 600000 [] Playback one_at_a_time 1000 1000000 demo_manager)
     = Inr (Some \<lparr>lease_addr = 1, lease_of = Playback, lease_rest = 50\<rparr>)"
proof -
  have "accounts demo_manager \<noteq> []" "rest_ms one_at_a_time = 50"
    by (simp_all add: demo_manager_def one_at_a_time_def)
  then show ?thesis
    by (simp add: try_lease_def Let_def split_beta demo_eligible take_lease_def pick_addr_def)
qed

lemma lease_is_best_witness:
  "lease_addr \<lparr>lease_addr = 1, lease_of = Playback, lease_rest = 50\<rparr> \<in> set (accounts demo_manager)
    \<and> can_serve [] one_at_a_time 1000 1000000 (heap demo_manager 1)
    \<and> list_all (\<lambda>y. lease_score 600000 Playback 1000 1000000 (heap demo_manager 1)
           \<le> lease_score 600000 Playback 1000 1000000 (heap demo_manager y))
        (filter (\<lambda>y. can_serve [] one_at_a_time 1000 1000000 (heap demo_manager y)) (accounts demo_manager))"
proof -
  have "try_lease 600000 [] Playback one_at_a_time 1000 1000000 demo_manager =
      (Inr (Some \<lparr>lease_addr = 1, lease_of = Playback, lease_rest = 50\<rparr>),
       snd (try_lease 600000 [] Playback one_at_a_time 1000 1000000 demo_manager))"
    by (simp add: prod_eq_iff demo_lease)
  from lease_is_best [OF this] show ?thesis by simp
qed

text \<open>The pool with one lease out is reachable.\<close>

definition demo_busy :: "manager \<times> (bool \<times> lease) list" where
  "demo_busy = (let (l, m) = lease_chosen 5 1 demo_manager in (m, [(False, l)]))"

lemma demo_reachable: "pool_reachable 1 demo_busy"
proof -
  have "leases_kept (manager_new (\<lambda>_. fresh_account)) demo_manager"
    by (auto simp: leases_kept_def manager_new_def demo_defs inflight_def)
  then have "pool_reachable 1 (demo_manager, [])"
    by (rule pool_reachable.step [OF pool_reachable.start pool_step.other])
  then show ?thesis
    by (rule pool_reachable.step)
      (auto simp: demo_busy_def split_beta demo_manager_def intro!: pool_step.chosen)
qed


section \<open>Waiting\<close>

lemma lease_wait_cases:
  shows "\<exists>q\<in>set ps. start + LEASE_WAIT \<le> p_instant q \<Longrightarrow>
      fst (lease_account_for pen excl k rules start ps m) \<noteq> None"
    and "fst (lease_account_for pen excl k rules start ps m) = Some (Inl (AccountsBusy d s)) \<Longrightarrow>
      (\<exists>q\<in>set ps. start + LEASE_WAIT \<le> p_instant q) \<and> is_accounts_busy d \<and> 1 \<le> s"
proof -
  show "fst (lease_account_for pen excl k rules start ps m) \<noteq> None"
    if "\<exists>q\<in>set ps. start + LEASE_WAIT \<le> p_instant q"
    using that unfolding lease_account_for_def
    by (induction ps arbitrary: m) (auto split: prod.splits sum.splits option.splits)
  have ours: "is_accounts_busy (busy_message rules)"
    by (simp add: is_accounts_busy_def busy_message_def Let_def)
  have noAB: "fst (try_lease pen excl k rules n nm m0) \<noteq> Inl (AccountsBusy d s)" for n nm m0
    by (auto simp: try_lease_def Let_def split_beta split: option.splits)
  show "(\<exists>q\<in>set ps. start + LEASE_WAIT \<le> p_instant q) \<and> is_accounts_busy d \<and> 1 \<le> s"
    if "fst (lease_account_for pen excl k rules start ps m) = Some (Inl (AccountsBusy d s))"
    using that unfolding lease_account_for_def
  proof (induction ps arbitrary: m)
    case Nil
    then show ?case by simp
  next
    case (Cons q ps)
    obtain r m1 where t: "try_lease pen excl k rules (p_now q) (p_now_ms q) (p_env q m) = (r, m1)"
      by force
    with noAB [of "p_now q" "p_now_ms q" "p_env q m"] Cons ours show ?case
      by (auto split: sum.splits option.splits if_splits)
  qed
qed

text \<open>
  C17. A waiting request always comes to an end: once a pass starts at or after the deadline
  (20 seconds after it began) it has a lease or an error; a busy pool is reported only from
  there on, and the log classifier recognises that message as ours.
\<close>

theorem lease_wait_ends:
  "((\<exists>q\<in>set ps. start + LEASE_WAIT \<le> p_instant q) \<longrightarrow>
      fst (lease_account_for pen excl k rules start ps m) \<noteq> None)
   \<and> (fst (lease_account_for pen excl k rules start ps m) = Some (Inl (AccountsBusy d s)) \<longrightarrow>
      (\<exists>q\<in>set ps. start + LEASE_WAIT \<le> p_instant q) \<and> is_accounts_busy d \<and> 1 \<le> s)"
  using lease_wait_cases by blast

definition demo_full :: manager where
  "demo_full = at_addr 1 (\<lambda>a. a\<lparr>playback_inflight := 1\<rparr>) demo_manager"

definition demo_pass :: "instant \<Rightarrow> pass" where
  "demo_pass t = \<lparr>p_env = (\<lambda>m. m), p_now = 1000, p_now_ms = 1000000, p_instant = t\<rparr>"

lemma demo_full_busy:
  "try_lease p [] Playback one_at_a_time 1000 1000000 demo_full = (Inr None, demo_full)"
proof -
  have "usable_addrs [] 1000 demo_full = [1]"
    by (simp add: usable_addrs_def classify_Ready demo_full_def demo_defs has_usable_token_def)
  moreover from this have "eligible_addrs [] one_at_a_time 1000 1000000 demo_full = []"
    "counted_addrs [] one_at_a_time 1000 1000000 demo_full = []"
    by (simp_all add: eligible_addrs_def counted_addrs_def admits_def is_free_def pool_inflight_def
        demo_full_def demo_defs)
  moreover have "accounts demo_full \<noteq> []" by (simp add: demo_full_def demo_manager_def)
  ultimately show ?thesis by (simp add: try_lease_def at_addrs_def)
qed

lemma lease_wait_ends_witness:
  "fst (lease_account_for 600000 [] Playback one_at_a_time 7 [demo_pass 8, demo_pass (LEASE_WAIT + 9)] demo_full) \<noteq> None
   \<and> is_accounts_busy (busy_message one_at_a_time)"
proof -
  let ?r = "fst (lease_account_for 600000 [] Playback one_at_a_time 7 [demo_pass 8, demo_pass (LEASE_WAIT + 9)] demo_full)"
  have "?r = Some (Inl (AccountsBusy (busy_message one_at_a_time) 5))"
    by (simp add: lease_account_for_def demo_pass_def demo_full_busy LEASE_WAIT_def ns_per_sec_def)
      (simp add: one_at_a_time_def)
  moreover have "\<exists>q\<in>set [demo_pass 8, demo_pass (LEASE_WAIT + 9)]. 7 + LEASE_WAIT \<le> p_instant q"
    by (simp add: demo_pass_def)
  ultimately show ?thesis
    using lease_wait_ends [of "[demo_pass 8, demo_pass (LEASE_WAIT + 9)]" 7 600000 "[]" Playback one_at_a_time demo_full]
    by blast
qed

section \<open>Catalog accounts\<close>

interpretation catalog: slots catalog_inflight try_claim_catalog_slot drop_catalog_slot
  "\<lambda>cap b. cap = 0 \<or> b < cap"
  by unfold_locales (auto simp: try_claim_catalog_slot_def drop_catalog_slot_def)

text \<open>
  A catalog account never serves more metadata requests than the largest limit in force
  while they were admitted, whatever the order of claims and releases, and its counter is the
  number of slots held.
\<close>

lemma catalog_slots_bounded:
  assumes "catalog_inflight a = n" "n \<le> cap"
    and "list_all (\<lambda>e. case e of Acquire c \<Rightarrow> 0 < c \<and> c \<le> cap | Release \<Rightarrow> True) es"
  shows "catalog_inflight (fst (catalog.slot_run es (a, n))) \<le> cap
    \<and> catalog_inflight (fst (catalog.slot_run es (a, n))) = snd (catalog.slot_run es (a, n))"
proof -
  have "catalog_inflight (fst (catalog.slot_run es (a, n))) \<le> cap"
    by (rule catalog.never_above)
      (use assms in \<open>force simp: list_all_iff split: slot_event.splits\<close>)+
  then show ?thesis using catalog.busy_is_held [of "(a, n)" es] assms(1) by simp
qed

lemma catalog_slots_bounded_witness:
  "catalog_inflight (fst (catalog.slot_run [Acquire 1, Acquire 1, Release, Acquire 2, Acquire 2] (fresh_account, 0))) \<le> 2
   \<and> catalog_inflight (fst (catalog.slot_run [Acquire 1, Acquire 1, Release, Acquire 2, Acquire 2] (fresh_account, 0)))
      = snd (catalog.slot_run [Acquire 1, Acquire 1, Release, Acquire 2, Acquire 2] (fresh_account, 0))"
  by (rule catalog_slots_bounded) (simp_all add: fresh_account_def account_new_def)

text \<open>Which account a claim takes: the candidates in order, and whether one has room.\<close>

lemma claim_first_cases:
  "claim_first cap now_ms xs m =
     (case find (\<lambda>x. cap = 0 \<or> catalog_inflight (heap m x) < cap) xs of
        None \<Rightarrow> (Busy, m)
      | Some x \<Rightarrow> (Slot x, at_addr x (\<lambda>a. note_selection now_ms
                     (a\<lparr>catalog_inflight := catalog_inflight a + 1\<rparr>)) m))"
  by (induction xs) (auto simp: try_claim_catalog_slot_def at_addr_def)

definition catalog_able :: "int \<Rightarrow> account \<Rightarrow> bool" where
  "catalog_able now a \<longleftrightarrow> is_catalog a \<and> is_active a \<and> rate_limited_until a \<le> now \<and>
     (has_usable_token now a \<or> heal_next_retry a \<le> now)"

lemma catalog_candidates:
  "filter (\<lambda>x. refresh_cooldown now (heap m x) = None) (catalog_ready now m)
   = filter (\<lambda>x. catalog_able now (heap m x)) (accounts m)"
  by (auto simp: catalog_ready_def catalog_able_def remaining_None_iff refresh_cooldown_def
      intro!: filter_cong)

lemma catalog_candidates_set:
  assumes "catalog = filter (\<lambda>x. catalog_able now (heap m x)) (accounts m)"
  shows "catalog = [] \<longleftrightarrow> \<not> list_ex (\<lambda>x. catalog_able now (heap m x)) (accounts m)"
  using assms by (simp add: filter_empty_conv list_ex_iff)

text \<open>
  The catalog claim: no slot and no trace when no catalog account can serve; \<open>Busy\<close>
  exactly if all that can are at the limit, again without changing an account; otherwise a
  slot on an account that can serve and has room, and none with room has fewer recent strikes.
\<close>

lemma catalog_claim_verdict:
  "case claim_catalog_slot cap now now_ms m of (r, m') \<Rightarrow>
     (r = Unavailable) = (\<not> list_ex (\<lambda>x. catalog_able now (heap m x)) (accounts m)) \<and>
     (r = Busy) = (list_ex (\<lambda>x. catalog_able now (heap m x)) (accounts m) \<and>
        \<not> list_ex (\<lambda>x. catalog_able now (heap m x) \<and> (cap = 0 \<or> catalog_inflight (heap m x) < cap)) (accounts m)) \<and>
     (case r of
        Slot x \<Rightarrow> x \<in> set (accounts m) \<and> catalog_able now (heap m x) \<and>
          (cap = 0 \<or> catalog_inflight (heap m' x) \<le> cap) \<and>
          catalog_inflight (heap m' x) = catalog_inflight (heap m x) + 1 \<and>
          list_all (\<lambda>y. rate_limit_heat now (heap m x) \<le> rate_limit_heat now (heap m y))
            (filter (\<lambda>y. catalog_able now (heap m y) \<and> (cap = 0 \<or> catalog_inflight (heap m y) < cap)) (accounts m))
      | _ \<Rightarrow> heap m' = heap m)"
proof -
  obtain cat where cat: "cat = filter (\<lambda>x. catalog_able now (heap m x)) (accounts m)" by blast
  let ?heat = "\<lambda>x. rate_limit_heat now (heap m x)"
  let ?room = "\<lambda>x. cap = 0 \<or> catalog_inflight (heap m x) < cap"
  let ?ord = "sort_key ?heat (rotate (unat (catalog_rr m) mod length cat) cat)"
  have ord: "set ?ord = set cat" by simp
  show ?thesis
  proof (cases "cat = []")
    case True
    then show ?thesis
      using catalog_candidates_set [OF cat] cat
      by (auto simp: claim_catalog_slot_def Let_def catalog_candidates list_ex_iff filter_empty_conv)
  next
    case False
    then have ex: "list_ex (\<lambda>x. catalog_able now (heap m x)) (accounts m)"
      using catalog_candidates_set [OF cat] by simp
    have eq: "claim_catalog_slot cap now now_ms m = claim_first cap now_ms ?ord (m\<lparr>catalog_rr := catalog_rr m + 1\<rparr>)"
      using False by (simp add: claim_catalog_slot_def Let_def catalog_candidates cat [symmetric])
    show ?thesis
    proof (cases "find ?room ?ord")
      case None
      then have "\<not> list_ex (\<lambda>x. catalog_able now (heap m x) \<and> ?room x) (accounts m)"
        using ord by (auto simp: find_None_iff list_ex_iff cat)
      then show ?thesis using None ex by (simp add: eq claim_first_cases)
    next
      case (Some x)
      then obtain i where i: "i < length ?ord" "?ord ! i = x" "?room x"
        "\<And>j. j < i \<Longrightarrow> \<not> ?room (?ord ! j)"
        by (auto simp: find_Some_iff)
      have x: "x \<in> set cat" using i ord by (metis nth_mem)
      have least: "?heat x \<le> ?heat y" if y: "y \<in> set cat" "?room y" for y
      proof -
        obtain j where j: "j < length ?ord" "?ord ! j = y" using y ord by (metis in_set_conv_nth)
        then have "i \<le> j" using i y by (meson not_less)
        then have "map ?heat ?ord ! i \<le> map ?heat ?ord ! j"
          by (intro sorted_nth_mono) (use j in auto)
        then show ?thesis using i j by simp
      qed
      have ex2: "list_ex (\<lambda>x. catalog_able now (heap m x) \<and> ?room x) (accounts m)"
        using x i(3) by (auto simp: cat list_ex_iff)
      show ?thesis
        using Some x least i(3) ex ex2
        by (auto simp: eq claim_first_cases cat list_all_iff note_selection_def note_recent_def Let_def)
    qed
  qed
qed

text \<open>Consecutive metadata picks, as \<open>next_active_catalog\<close> makes them.\<close>

fun catalog_picks :: "nat \<Rightarrow> int \<Rightarrow> int \<Rightarrow> manager \<Rightarrow> nat option list" where
  "catalog_picks 0 now now_ms m = []"
| "catalog_picks (Suc n) now now_ms m =
     (let (r, m') = next_active_catalog now now_ms m in r # catalog_picks n now now_ms m')"

lemma catalog_ready_pick:
  "catalog_ready now (at_addr x (note_selection now_ms) (m\<lparr>catalog_rr := r\<rparr>)) = catalog_ready now m"
  by (auto simp: catalog_ready_def note_selection_def note_recent_def Let_def rate_limit_remaining_def
      intro!: filter_cong)

lemma catalog_picks_nth:
  assumes "unat (catalog_rr m) + n < 2 ^ 64" "catalog_ready now m = cat" "cat \<noteq> []"
  shows "catalog_picks n now now_ms m = map (\<lambda>i. Some (cat ! ((unat (catalog_rr m) + i) mod length cat))) [0..<n]"
  using assms
proof (induction n arbitrary: m)
  case 0
  then show ?case by simp
next
  case (Suc n)
  let ?x = "cat ! (unat (catalog_rr m) mod length cat)"
  let ?m = "at_addr ?x (note_selection now_ms) (m\<lparr>catalog_rr := catalog_rr m + 1\<rparr>)"
  have rr: "unat (catalog_rr ?m) = Suc (unat (catalog_rr m))"
    using Suc.prems(1) by (simp add: unat_word_ariths)
  have "catalog_picks n now now_ms ?m =
      map (\<lambda>i. Some (cat ! ((unat (catalog_rr ?m) + i) mod length cat))) [0..<n]"
    by (rule Suc.IH) (use Suc.prems rr catalog_ready_pick in auto)
  then show ?case
    using Suc.prems rr by (simp add: next_active_catalog_def Let_def map_upt_Suc del: upt_Suc)
qed

text \<open>
  Metadata load spreads evenly: while the ready catalog accounts stay the same, as many
  consecutive picks as there are of them visit each exactly once, in creation order from a
  rotating start.
\<close>

lemma catalog_round_robin:
  assumes "unat (catalog_rr m) + length (catalog_ready now m) < 2 ^ 64" "catalog_ready now m \<noteq> []"
  shows "catalog_picks (length (catalog_ready now m)) now now_ms m =
    map Some (rotate (unat (catalog_rr m)) (catalog_ready now m))"
  unfolding catalog_picks_nth [OF assms(1) refl assms(2)]
  by (rule nth_equalityI) (simp_all add: nth_rotate add.commute)

lemma catalog_round_robin_witness:
  "catalog_picks (length (catalog_ready 5 (demo_manager\<lparr>accounts := [2, 1, 7, 9], catalog_rr := 4\<rparr>))) 5 5000
     (demo_manager\<lparr>accounts := [2, 1, 7, 9], catalog_rr := 4\<rparr>) = [Some 7, Some 9, Some 2]"
proof -
  let ?m = "demo_manager\<lparr>accounts := [2, 1, 7, 9], catalog_rr := 4\<rparr>"
  have ready: "catalog_ready 5 ?m = [2, 7, 9]"
    by (simp add: catalog_ready_def demo_defs rate_limit_remaining_def sat_sub_i64_def clamp_i64_def i64_max_def)
  have rr: "catalog_rr ?m = 4" by simp
  have "rotate 4 [2, 7, 9 :: nat] = [7, 9, 2]" by (simp add: rotate_def eval_nat_numeral)
  then show ?thesis
    using catalog_round_robin [of ?m 5 5000] unfolding ready rr by simp
qed

end
