(* ===== verification/Lifecycle.thy ===== *)
theory Lifecycle
  imports SelectionProps SharedStore
begin

text \<open>
  The operations of \<open>AccountManager\<close> (\<open>src/account_manager.rs\<close>) that change an account outside
  selection: owner switches, background transitions, FULL/PREVIEW bookkeeping, edits, refreshed
  credentials, adding and removing.

  SQLite is an argument: \<open>None\<close> without a database, otherwise which writes of the operation
  succeed, in order. A failed write that the source propagates with \<open>?\<close> ends the operation
  with \<open>DB_ERROR\<close> and leaves what was changed in memory before it. \<open>push_account\<close> stands for
  \<open>push_account_to_redis\<close> (a \<open>SET\<close> of the record and a \<open>SADD\<close> to the index; the calls do nothing
  without a shared store). Background transitions identify an account by its \<open>Arc\<close>
  (\<open>std::ptr::eq\<close>): by its address.
\<close>

type_synonym db = "(nat \<Rightarrow> bool) option"

definition db_fails :: "db \<Rightarrow> nat \<Rightarrow> bool" where
  "db_fails db n \<longleftrightarrow> (case db of None \<Rightarrow> False | Some ok \<Rightarrow> \<not> ok n)"

definition DB_ERROR :: app_error where
  "DB_ERROR = Internal ''Database error''"

definition account_not_found :: "string \<Rightarrow> app_error" where
  "account_not_found i = NotFound (''Account '' @ i @ '' not found'')"

definition get_account_by_id :: "string \<Rightarrow> manager \<Rightarrow> nat option" where
  "get_account_by_id i m = find (\<lambda>x. acc_id (heap m x) = i) (accounts m)"

definition push_account :: "nat \<Rightarrow> manager \<Rightarrow> manager" where
  "push_account x m = m\<lparr>outbox := outbox m @ [Publish (heap m x)]\<rparr>"

text \<open>
  \<open>AccountState::observe_uptime\<close>: the clock it reads again is the operation's \<open>now\<close>. A failed
  write of the event is only logged.
\<close>

definition observe_uptime :: "nat \<Rightarrow> int \<Rightarrow> manager \<Rightarrow> manager" where
  "observe_uptime x now m =
     (let a = heap m x;
          ready = (is_active a \<and> token_expires_at a > now \<and>
            (case access_token a of Some t \<Rightarrow> t \<noteq> [] | None \<Rightarrow> False) \<and>
            rejected_access_token a \<noteq> access_token a);
          c = cells m x
      in m\<lparr>histories := (histories m)(c := snd (observe_event (is_active a) ready
             (if ready then Some (token_expires_at a) else None) now (histories m c)))\<rparr>)"

definition reset_uptime :: "nat \<Rightarrow> int \<Rightarrow> manager \<Rightarrow> manager" where
  "reset_uptime x now m =
     observe_uptime x now (m\<lparr>histories := (histories m)(cells m x := [])\<rparr>)"

section \<open>Flags\<close>

definition set_account_catalog ::
    "string \<Rightarrow> bool \<Rightarrow> int \<Rightarrow> db \<Rightarrow> manager \<Rightarrow> (app_error + unit) \<times> manager" where
  "set_account_catalog i catalog now db m =
     (case get_account_by_id i m of
        None \<Rightarrow> (Inl (account_not_found i), m)
      | Some x \<Rightarrow>
          (let m1 = at_addr x (\<lambda>a. a\<lparr>is_catalog := catalog, updated_at := now\<rparr>) m
           in if db_fails db 0 then (Inl DB_ERROR, m1) else (Inr (), push_account x m1)))"

definition set_account_active ::
    "string \<Rightarrow> bool \<Rightarrow> int \<Rightarrow> db \<Rightarrow> manager \<Rightarrow> (app_error + unit) \<times> manager" where
  "set_account_active i active now db m =
     (case get_account_by_id i m of
        None \<Rightarrow> (Inl (account_not_found i), m)
      | Some x \<Rightarrow>
          (let m1 = at_addr x (\<lambda>a. a\<lparr>
                 is_active := active, auto_disabled := False, heal_failures := 0,
                 heal_next_retry := 0, auth_forbidden_streak := 0, auth_failing_since := 0,
                 disabled_at := (if active then 0 else if is_active a then now else disabled_at a),
                 updated_at := now\<rparr>) m;
               m1 = observe_uptime x now m1
           in if db_fails db 0 then (Inl DB_ERROR, m1) else (Inr (), push_account x m1)))"

definition set_auto_disabled ::
    "string \<Rightarrow> bool \<Rightarrow> int \<Rightarrow> db \<Rightarrow> manager \<Rightarrow> (app_error + unit) \<times> manager" where
  "set_auto_disabled i disabled now db m =
     (case get_account_by_id i m of
        None \<Rightarrow> (Inl (account_not_found i), m)
      | Some x \<Rightarrow>
          (let was_disabled = auto_disabled (heap m x);
               m1 = at_addr x (\<lambda>a. a\<lparr>auto_disabled := disabled\<rparr>) m;
               clears = \<not> disabled \<or> \<not> was_disabled;
               m2 = (if clears
                     then at_addr x (\<lambda>a. a\<lparr>heal_failures := 0, heal_next_retry := 0,
                            auth_forbidden_streak := 0\<rparr>) m1
                     else m1)
           in if clears \<and> db_fails db 0 then (Inl DB_ERROR, m2)
              else (let m3 = at_addr x (\<lambda>a. a\<lparr>updated_at := now\<rparr>) m2
                    in if db_fails db 1 then (Inl DB_ERROR, m3) else (Inr (), push_account x m3))))"

section \<open>Background transitions\<close>

definition disable_after_auth_failures ::
    "nat \<Rightarrow> int \<Rightarrow> int \<Rightarrow> db \<Rightarrow> manager \<Rightarrow> (app_error + bool) \<times> manager" where
  "disable_after_auth_failures x max_secs now db m =
     (if x \<notin> set (accounts m) then (Inr False, m)
      else
        let a = heap m x; since = auth_failing_since a; enabled = is_active a \<or> auto_disabled a
        in if max_secs \<le> 0 \<or> since \<le> 0 \<or> now - since < max_secs \<or> \<not> enabled then (Inr False, m)
           else (let m1 = at_addr x (\<lambda>a. a\<lparr>is_active := False, auto_disabled := False,
                            disabled_at := (if disabled_at a = 0 then now else disabled_at a),
                            updated_at := now\<rparr>) m;
                     m1 = observe_uptime x now m1
                 in if db_fails db 0 then (Inl DB_ERROR, m1) else (Inr True, push_account x m1)))"

definition set_system_disabled ::
    "nat \<Rightarrow> bool \<Rightarrow> int \<Rightarrow> db \<Rightarrow> manager \<Rightarrow> (app_error + bool) \<times> manager" where
  "set_system_disabled x disabled now db m =
     (if x \<notin> set (accounts m) then (Inr False, m)
      else if (if disabled then \<not> is_active (heap m x) \<and> \<not> auto_disabled (heap m x)
               else \<not> auto_disabled (heap m x)) then (Inr False, m)
      else (let m1 = at_addr x (\<lambda>a.
                   let d = (if disabled then max (disabled_at a) 1 else 0);
                       d = (if d = 1 then now else d)
                   in a\<lparr>auto_disabled := disabled, is_active := \<not> disabled,
                        disabled_at := d, updated_at := now\<rparr>) m;
                m1 = observe_uptime x now m1
            in if db_fails db 0 then (Inl DB_ERROR, m1) else (Inr True, push_account x m1)))"

definition mark_account_error :: "string \<Rightarrow> int \<Rightarrow> manager \<Rightarrow> manager" where
  "mark_account_error i now_ms m =
     (case get_account_by_id i m of
        None \<Rightarrow> m
      | Some x \<Rightarrow> at_addr x (\<lambda>a. note_recent now_ms True (a\<lparr>error_count := error_count a + 1\<rparr>)) m)"

section \<open>FULL and PREVIEW\<close>

definition PREVIEW_CHECKS_BEFORE_CATALOG :: int where
  "PREVIEW_CHECKS_BEFORE_CATALOG = 3"

definition TRAFFIC_PREVIEWS_BEFORE_PREVIEW_ONLY :: nat where
  "TRAFFIC_PREVIEWS_BEFORE_PREVIEW_ONLY = 10"

definition confirm_full :: "nat \<Rightarrow> int \<Rightarrow> manager \<Rightarrow> manager" where
  "confirm_full x now m =
     at_addr x (\<lambda>a.
       let a = a\<lparr>traffic_preview_streak := 0\<rparr>
       in if premium_checked_at a > now - 60 \<and> premium_status a = ''premium'' then a
          else a\<lparr>premium_status := ''premium'', premium_checked_at := now, preview_streak := 0\<rparr>) m"

definition note_traffic_preview :: "nat \<Rightarrow> int \<Rightarrow> manager \<Rightarrow> bool \<times> manager" where
  "note_traffic_preview x now m =
     (let streak = traffic_preview_streak (heap m x) + 1
      in if streak < TRAFFIC_PREVIEWS_BEFORE_PREVIEW_ONLY
         then (False, at_addr x (\<lambda>a. a\<lparr>traffic_preview_streak := streak\<rparr>) m)
         else (True, at_addr x (\<lambda>a. a\<lparr>traffic_preview_streak := 0,
                 premium_status := ''preview-only'', premium_checked_at := now\<rparr>) m))"

definition set_premium :: "string \<Rightarrow> string \<Rightarrow> int \<Rightarrow> manager \<Rightarrow> manager" where
  "set_premium i st now m =
     (case get_account_by_id i m of
        None \<Rightarrow> m
      | Some x \<Rightarrow> at_addr x (\<lambda>a.
          let a = a\<lparr>premium_status := st, premium_checked_at := now\<rparr>;
              a = (if st = ''premium'' then a\<lparr>traffic_preview_streak := 0\<rparr> else a)
          in if st = ''premium'' then a\<lparr>preview_streak := 0\<rparr> else a) m)"

definition note_preview_check ::
    "nat \<Rightarrow> int \<Rightarrow> db \<Rightarrow> manager \<Rightarrow> (app_error + bool) \<times> manager" where
  "note_preview_check x now db m =
     (let streak = preview_streak (heap m x) + 1;
          m1 = at_addr x (\<lambda>a. a\<lparr>preview_streak := streak\<rparr>) m
      in if streak < PREVIEW_CHECKS_BEFORE_CATALOG then (Inr False, m1)
         else (case set_account_catalog (acc_id (heap m1 x)) True now db m1 of
                 (Inl e, m2) \<Rightarrow> (Inl e, m2)
               | (Inr _, m2) \<Rightarrow> (Inr True, at_addr x (\<lambda>a. a\<lparr>preview_streak := 0\<rparr>) m2)))"

section \<open>Credentials, edits, adding and removing\<close>

text \<open>
  \<open>token_manager::persist_token\<close>, in a transaction: the UPDATE runs (0), it matches a row that
  still has these credentials (1), the token is stored and the transaction commits (2).
\<close>

definition persist_token :: "db \<Rightarrow> app_error option" where
  "persist_token db =
     (if db_fails db 0 then Some DB_ERROR
      else if db_fails db 1 then Some (ServiceUnavailable ''Account credentials changed during refresh'')
      else if db_fails db 2 then Some DB_ERROR
      else None)"

definition store_refreshed_credentials ::
    "nat \<Rightarrow> string \<Rightarrow> string option \<Rightarrow> string \<Rightarrow> int \<Rightarrow> int \<Rightarrow> db \<Rightarrow> manager \<Rightarrow> (app_error + unit) \<times> manager" where
  "store_refreshed_credentials x old_refresh rotated token expires now db m =
     (if x \<notin> set (accounts m) then (Inl (ServiceUnavailable ''Account changed during refresh''), m)
      else if refresh_token (heap m x) \<noteq> old_refresh
        then (Inl (ServiceUnavailable ''Credentials changed during refresh''), m)
      else (case persist_token db of
              Some e \<Rightarrow> (Inl e, m)
            | None \<Rightarrow>
                (let m1 = at_addr x (\<lambda>a. a\<lparr>
                        refresh_token := (case rotated of None \<Rightarrow> refresh_token a | Some r \<Rightarrow> r),
                        access_token := Some token, token_expires_at := expires\<rparr>) m;
                      m1 = observe_uptime x now m1;
                      m1 = at_addr x (\<lambda>a. a\<lparr>updated_at := now\<rparr>) m1
                  in (Inr (), push_account x m1))))"

text \<open>A new object at a fresh address, with an empty history of its own.\<close>

definition alloc :: "account \<Rightarrow> manager \<Rightarrow> nat \<times> manager" where
  "alloc a m =
     (let y = next_addr m
      in (y, m\<lparr>heap := (heap m)(y := a), next_addr := Suc y, cells := (cells m)(y := y),
               histories := (histories m)(y := [])\<rparr>))"

text \<open>The first line of \<open>carry_over\<close>: the rebuilt account keeps the history of the old one.\<close>

definition share_history :: "nat \<Rightarrow> nat \<Rightarrow> manager \<Rightarrow> manager" where
  "share_history y x m = m\<lparr>cells := (cells m)(y := cells m x)\<rparr>"

fun replace_first :: "(nat \<Rightarrow> bool) \<Rightarrow> nat \<Rightarrow> nat list \<Rightarrow> nat list" where
  "replace_first P y [] = []"
| "replace_first P y (x # xs) = (if P x then y # xs else x # replace_first P y xs)"

definition or_else :: "'a option \<Rightarrow> 'a \<Rightarrow> 'a" where
  "or_else v d = (case v of Some w \<Rightarrow> w | None \<Rightarrow> d)"

text \<open>The record an edit builds from the old one.\<close>

definition edited_account ::
    "(string \<Rightarrow> string option) \<Rightarrow> read_locks \<Rightarrow> string option \<Rightarrow> string option \<Rightarrow> string option \<Rightarrow>
     string option \<Rightarrow> string option \<Rightarrow> int \<Rightarrow> account \<Rightarrow> account" where
  "edited_account pct locks lbl cid secret refresh uid now old =
     (carry_over locks
        (account_new pct (acc_id old) (or_else lbl (label old))
           (or_else cid (client_id old)) (or_else secret (client_secret old))
           (or_else refresh (refresh_token old))
           (case uid of Some u \<Rightarrow> Some u | None \<Rightarrow> user_id old) (is_active old) (acc_notes old))
        old)\<lparr>updated_at := now\<rparr>"

definition update_account ::
    "(string \<Rightarrow> string option) \<Rightarrow> read_locks \<Rightarrow> string \<Rightarrow> string option \<Rightarrow> string option \<Rightarrow> string option \<Rightarrow>
     string option \<Rightarrow> string option \<Rightarrow> int \<Rightarrow> db \<Rightarrow> manager \<Rightarrow> (app_error + unit) \<times> manager" where
  "update_account pct locks i lbl cid secret refresh uid now db m =
     (case get_account_by_id i m of
        None \<Rightarrow> (Inl (account_not_found i), m)
      | Some x \<Rightarrow>
          (let (y, m1) = alloc (edited_account pct locks lbl cid secret refresh uid now (heap m x)) m;
               m1 = share_history y x m1
           in if db_fails db 0 then (Inl DB_ERROR, m1)
              else (let m2 = m1\<lparr>accounts := replace_first (\<lambda>z. acc_id (heap m z) = i) y (accounts m1)\<rparr>
                    in (Inr (), push_account y (observe_uptime y now m2)))))"

definition add_account ::
    "(string \<Rightarrow> string option) \<Rightarrow> bool \<Rightarrow> string \<Rightarrow> string \<Rightarrow> string \<Rightarrow> string \<Rightarrow> string \<Rightarrow> string option \<Rightarrow> int \<Rightarrow>
     db \<Rightarrow> manager \<Rightarrow> (app_error + nat) \<times> manager" where
  "add_account pct proxies uuid lbl cid secret refresh uid now db m =
     (let (y, m1) = alloc (account_new pct uuid lbl cid secret refresh uid True []) m
      in if db_fails db 0 \<or> db_fails db 1 then (Inl DB_ERROR, m1)
         else (let m2 = at_addr y (\<lambda>a. a\<lparr>created_at := now, updated_at := now\<rparr>) m1;
                   m3 = observe_uptime y now m2;
                   m4 = push_account y (m3\<lparr>accounts := accounts m3 @ [y]\<rparr>)
               in (Inr y, if proxies then m4\<lparr>outbox := outbox m4 @ [EnsureProxy uuid]\<rparr> else m4)))"

definition remove_account :: "string \<Rightarrow> db \<Rightarrow> manager \<Rightarrow> (app_error + unit) \<times> manager" where
  "remove_account i db m =
     (let m1 = m\<lparr>accounts := filter (\<lambda>x. acc_id (heap m x) \<noteq> i) (accounts m)\<rparr>
      in if db_fails db 0 then (Inl DB_ERROR, m1)
         else (Inr (), m1\<lparr>outbox := outbox m1 @ [DelKeys [k_account i, k_token i], Unlist i, ForgetProxy i]\<rparr>))"

definition active_count :: "manager \<Rightarrow> nat" where
  "active_count m = length (filter (\<lambda>x. is_active (heap m x)) (accounts m))"

definition healthy_count :: "manager \<Rightarrow> nat \<times> nat" where
  "healthy_count m = (active_count m, length (accounts m))"

definition account_count :: "manager \<Rightarrow> nat" where
  "account_count m = length (accounts m)"

end
