(* ===== verification/LifecycleProps.thy ===== *)
theory LifecycleProps
  imports Lifecycle "HOL-Library.Sublist"
begin

text \<open>
  What the operations of \<open>Lifecycle\<close> promise: they leave the leases alone, the owner's OFF wins
  over every background transition, switching off takes effect even when it cannot be stored,
  three PREVIEW checks in a row move an account to the catalog, and an edit keeps what does not
  depend on the credentials.
\<close>

section \<open>Leases survive\<close>

named_theorems lease_safe "operations that leave the leases alone"

lemma leases_kept_same:
  assumes "next_addr m' = next_addr m" "set (accounts m') \<subseteq> set (accounts m)"
    and "\<And>x. inflight (heap m' x) = inflight (heap m x)"
  shows "leases_kept m m'"
  using assms by (auto simp: leases_kept_def)

lemma get_account_in: "get_account_by_id i m = Some x \<Longrightarrow> x \<in> set (accounts m) \<and> acc_id (heap m x) = i"
  by (auto simp: get_account_by_id_def find_Some_iff)

lemma get_account_None: "get_account_by_id i m = None \<longleftrightarrow> \<not> list_ex (\<lambda>x. acc_id (heap m x) = i) (accounts m)"
  by (auto simp: get_account_by_id_def find_None_iff list_ex_iff)

lemma push_account_simps [simp]:
  "heap (push_account x m) = heap m" "accounts (push_account x m) = accounts m"
  "next_addr (push_account x m) = next_addr m" "rr_seq (push_account x m) = rr_seq m"
  "outbox (push_account x m) = outbox m @ [Publish (heap m x)]"
  "cells (push_account x m) = cells m" "histories (push_account x m) = histories m"
  by (simp_all add: push_account_def)

lemma observe_uptime_simps [simp]:
  "heap (observe_uptime x now m) = heap m" "accounts (observe_uptime x now m) = accounts m"
  "next_addr (observe_uptime x now m) = next_addr m" "rr_seq (observe_uptime x now m) = rr_seq m"
  "outbox (observe_uptime x now m) = outbox m" "cells (observe_uptime x now m) = cells m"
  by (simp_all add: observe_uptime_def Let_def del: not_None_eq)

lemma share_history_simps [simp]:
  "heap (share_history y x m) = heap m" "accounts (share_history y x m) = accounts m"
  "next_addr (share_history y x m) = next_addr m" "rr_seq (share_history y x m) = rr_seq m"
  "outbox (share_history y x m) = outbox m" "histories (share_history y x m) = histories m"
  "cells (share_history y x m) = (cells m)(y := cells m x)"
  by (simp_all add: share_history_def)

lemma set_account_catalog_safe [lease_safe]: "leases_kept m (snd (set_account_catalog i c now db m))"
  by (auto simp: set_account_catalog_def Let_def inflight_def intro!: leases_kept_same split: option.splits)

lemma set_account_active_safe [lease_safe]: "leases_kept m (snd (set_account_active i b now db m))"
  by (auto simp: set_account_active_def Let_def inflight_def intro!: leases_kept_same split: option.splits)

lemma set_auto_disabled_safe [lease_safe]: "leases_kept m (snd (set_auto_disabled i b now db m))"
  by (auto simp: set_auto_disabled_def Let_def inflight_def intro!: leases_kept_same split: option.splits)

lemma disable_after_safe [lease_safe]: "leases_kept m (snd (disable_after_auth_failures x s now db m))"
  by (auto simp: disable_after_auth_failures_def Let_def inflight_def intro!: leases_kept_same)

lemma set_system_disabled_safe [lease_safe]: "leases_kept m (snd (set_system_disabled x b now db m))"
  by (auto simp: set_system_disabled_def Let_def inflight_def intro!: leases_kept_same)

lemma mark_error_safe [lease_safe]: "leases_kept m (mark_account_error i now_ms m)"
  by (auto simp: mark_account_error_def note_recent_def Let_def inflight_def intro!: leases_kept_same
      split: option.splits)

lemma confirm_full_safe [lease_safe]: "leases_kept m (confirm_full x now m)"
  by (auto simp: confirm_full_def Let_def inflight_def intro!: leases_kept_same)

lemma traffic_preview_safe [lease_safe]: "leases_kept m (snd (note_traffic_preview x now m))"
  by (auto simp: note_traffic_preview_def Let_def inflight_def intro!: leases_kept_same)

lemma set_premium_safe [lease_safe]: "leases_kept m (set_premium i st now m)"
  by (auto simp: set_premium_def Let_def inflight_def intro!: leases_kept_same split: option.splits)

lemma preview_check_safe [lease_safe]: "leases_kept m (snd (note_preview_check x now db m))"
  by (auto simp: note_preview_check_def set_account_catalog_def Let_def inflight_def
      intro!: leases_kept_same split: option.splits prod.splits sum.splits if_splits)

lemma store_credentials_safe [lease_safe]:
  "leases_kept m (snd (store_refreshed_credentials x old rot tok ex now db m))"
  by (auto simp: store_refreshed_credentials_def Let_def inflight_def intro!: leases_kept_same split: option.splits)

lemma remove_account_safe [lease_safe]: "leases_kept m (snd (remove_account i db m))"
  by (auto simp: remove_account_def Let_def intro!: leases_kept_same)

lemma inflight_new: "inflight (account_new pct i l c s r u b n) = (0, 0, 0)"
  by (simp add: account_new_def inflight_def)

lemma country_code_triv: "a\<lparr>country_code := country_code a\<rparr> = (a :: account)"
  by (cases a) (simp only: account.simps)

lemma set_country_field: "set_country c a = a\<lparr>country_code := country_code (set_country c a)\<rparr>"
proof -
  have "set_country c a = a \<or> (\<exists>v. set_country c a = a\<lparr>country_code := v\<rparr>)"
    unfolding set_country_def by (simp only: split: option.split if_split) blast
  then show ?thesis
    by (metis country_code_triv account.select_convs(20) account.update_convs(20) account.surjective)
qed

lemma inflight_carry_over [simp]: "inflight (carry_over locks n old) = inflight n"
proof -
  obtain f where f: "\<And>a. set_country (country_code old) a = a\<lparr>country_code := f a\<rparr>"
    using set_country_field by (rule that)
  show ?thesis by (simp add: carry_over_def Let_def f inflight_def)
qed

lemma inflight_edited: "inflight (edited_account pct locks l c s r u now old) = (0, 0, 0)"
proof -
  have "inflight (a\<lparr>updated_at := now\<rparr>) = inflight a" for a by (simp add: inflight_def)
  then show ?thesis by (simp add: edited_account_def inflight_new)
qed

lemma set_replace_first: "set (replace_first P y xs) \<subseteq> insert y (set xs)"
  by (induction xs) auto

lemma update_account_safe [lease_safe]:
  "leases_kept m (snd (update_account pct locks i l c s r u now db m))"
proof (cases "get_account_by_id i m")
  case None
  then show ?thesis by (simp add: update_account_def)
next
  case (Some x)
  have "set (replace_first (\<lambda>z. acc_id (heap m z) = i) (next_addr m) (accounts m))
      \<subseteq> insert (next_addr m) (set (accounts m))" by (rule set_replace_first)
  with Some inflight_edited show ?thesis
    by (auto simp: update_account_def alloc_def leases_kept_def Let_def less_Suc_eq)
qed

lemma add_account_safe [lease_safe]:
  "leases_kept m (snd (add_account pct px uuid l c s r u now db m))"
  using inflight_new [of pct uuid l c s r u True "[]"]
  by (auto simp: add_account_def alloc_def Let_def leases_kept_def inflight_def)

section \<open>The owner's OFF wins\<close>

definition owner_off :: "account \<Rightarrow> bool" where
  "owner_off a \<longleftrightarrow> \<not> is_active a \<and> \<not> auto_disabled a"

text \<open>
  Everything that happens without the owner: selections and their drops, pauses, background
  switches, probe results and refreshed credentials, on any account object, with any clock and
  any database outcome.
\<close>

inductive background :: "manager \<Rightarrow> manager \<Rightarrow> bool" where
  lease: "background m (snd (try_lease p excl k rules now now_ms m))"
| drop: "background m (drop_lease now_ms l m)"
| catalog_slot: "background m (snd (claim_catalog_slot cap now now_ms m))"
| paused: "background m (at_addr x (\<lambda>a. snd (pause_account r now v a)) m)"
| system: "background m (snd (set_system_disabled x b now db m))"
| auth_failures: "background m (snd (disable_after_auth_failures x s now db m))"
| error: "background m (mark_account_error i now_ms m)"
| full: "background m (confirm_full x now m)"
| preview: "background m (snd (note_traffic_preview x now m))"
| probe: "background m (set_premium i st now m)"
| demote: "background m (snd (note_preview_check x now db m))"
| refreshed: "background m (snd (store_refreshed_credentials x old rot tok ex now db m))"

lemma owner_off_lease: "owner_off (heap (snd (try_lease p excl k rules now now_ms m)) z) = owner_off (heap m z)"
proof -
  have f: "owner_off (note_selection n a) = owner_off a"
    "owner_off (snd (requests_last_hour n a)) = owner_off a"
    "owner_off (snd (recent_error_rate n a)) = owner_off a"
    "owner_off (set_counter k c a) = owner_off a" for n a c
    by (cases k; simp add: owner_off_def note_selection_def note_recent_def requests_last_hour_def
        recent_error_rate_def Let_def)+
  show ?thesis
    by (auto simp: try_lease_def Let_def split_beta take_lease_def f split: option.splits)
qed

lemma owner_off_drop: "owner_off (heap (drop_lease now_ms l m) z) = owner_off (heap m z)"
  by (cases l; cases "lease_of l") (auto simp: drop_lease_def owner_off_def Let_def)

lemma owner_off_catalog: "owner_off (heap (snd (claim_catalog_slot cap now now_ms m)) z) = owner_off (heap m z)"
  by (auto simp: claim_catalog_slot_def Let_def claim_first_cases owner_off_def note_selection_def
      note_recent_def split: option.splits)

lemma background_step:
  "background m m' \<Longrightarrow> owner_off (heap m x) \<Longrightarrow>
     owner_off (heap m' x) \<and> (x \<in> set (accounts m) \<longrightarrow> x \<in> set (accounts m'))"
proof (induction rule: background.induct)
  case (lease m p excl k rules now now_ms)
  have "accounts (snd (try_lease p excl k rules now now_ms m)) = accounts m"
    by (auto simp: try_lease_def Let_def split_beta take_lease_def split: option.splits)
  with lease owner_off_lease show ?case by simp
next
  case (drop m now_ms l)
  then show ?case by (simp add: owner_off_drop)
next
  case (catalog_slot m cap now now_ms)
  have "accounts (snd (claim_catalog_slot cap now now_ms m)) = accounts m"
    by (auto simp: claim_catalog_slot_def Let_def claim_first_cases split: option.splits)
  with catalog_slot owner_off_catalog show ?case by simp
next
  case (paused m y r now v)
  then show ?case
    by (auto simp: owner_off_def pause_account_def next_strike_def Let_def split_beta)
next
  case (system m y b now db)
  then show ?case by (auto simp: set_system_disabled_def owner_off_def Let_def)
next
  case (auth_failures m y s now db)
  then show ?case by (auto simp: disable_after_auth_failures_def owner_off_def Let_def)
next
  case (error m i now_ms)
  then show ?case
    by (auto simp: mark_account_error_def note_recent_def owner_off_def Let_def split: option.splits)
next
  case (full m y now)
  then show ?case by (auto simp: confirm_full_def owner_off_def Let_def)
next
  case (preview m y now)
  then show ?case by (auto simp: note_traffic_preview_def owner_off_def Let_def)
next
  case (probe m i st now)
  then show ?case by (auto simp: set_premium_def owner_off_def Let_def split: option.splits)
next
  case (demote m y now db)
  then show ?case
    by (auto simp: note_preview_check_def set_account_catalog_def owner_off_def Let_def
        split: option.splits prod.splits sum.splits if_splits)
next
  case (refreshed m y old rot tok ex now db)
  then show ?case by (auto simp: store_refreshed_credentials_def owner_off_def Let_def split: option.splits)
qed

text \<open>
  An account its owner switched off stays off through any sequence of background
  activity, is never selected in it, and is not removed by it; neither auto-heal nor the
  disabling paths can turn it on.
\<close>

lemma owner_off_wins:
  assumes "background\<^sup>*\<^sup>* m m'" "owner_off (heap m x)" "x \<in> set (accounts m)"
  shows "owner_off (heap m' x) \<and> x \<in> set (accounts m')
    \<and> (\<nexists>l m''. try_lease p excl k rules now now_ms m' = (Inr (Some l), m'') \<and> lease_addr l = x)"
proof -
  from assms have "owner_off (heap m' x) \<and> x \<in> set (accounts m')"
    by (induction rule: rtranclp_induct) (auto dest: background_step)
  then show ?thesis
    by (auto dest: try_lease_Some(3) simp: eligible_iff can_serve_def owner_off_def)
qed

definition demo_off :: manager where
  "demo_off = demo_manager\<lparr>heap := (\<lambda>x. (heap demo_manager x)\<lparr>is_active := False, heal_next_retry := 7\<rparr>)\<rparr>"

lemma owner_off_wins_witness:
  "owner_off (heap (snd (set_system_disabled 1 False 50 None (confirm_full 1 40 demo_off))) 1)
   \<and> 1 \<in> set (accounts (snd (set_system_disabled 1 False 50 None (confirm_full 1 40 demo_off))))"
proof -
  have "background\<^sup>*\<^sup>* demo_off (snd (set_system_disabled 1 False 50 None (confirm_full 1 40 demo_off)))"
    by (rule rtranclp.rtrancl_into_rtrancl [OF r_into_rtranclp [of background, OF background.full] background.system])
  from owner_off_wins [OF this, of 1] show ?thesis
    by (simp add: owner_off_def demo_off_def demo_defs)
qed

section \<open>Switching\<close>

text \<open>
  Switching an account off stops it at once: whether or not the change can be stored, no
  later pass selects the object, and its background state is reset; switching on clears the
  off time. The other accounts are untouched.
\<close>

lemma switch_takes_effect:
  assumes "get_account_by_id i m = Some x" "set_account_active i b now db m = (r, m')"
  shows "is_active (heap m' x) = b \<and> \<not> auto_disabled (heap m' x)
    \<and> heal_failures (heap m' x) = 0 \<and> heal_next_retry (heap m' x) = 0
    \<and> auth_failing_since (heap m' x) = 0
    \<and> (r = (if db_fails db 0 then Inl DB_ERROR else Inr ()))
    \<and> outbox m' = outbox m @ (if db_fails db 0 then [] else [Publish (heap m' x)])
    \<and> heap m' = (heap m)(x := heap m' x)
    \<and> (b \<or> x \<notin> set (eligible_addrs excl rules now' now_ms m'))"
  using assms
  by (auto simp: set_account_active_def Let_def eligible_iff can_serve_def fun_eq_iff split: if_splits)

lemma switch_takes_effect_witness:
  "is_active (heap (snd (set_account_active ''q'' False 77 (Some (\<lambda>_. False)) demo_manager)) 1) = False
   \<and> fst (set_account_active ''q'' False 77 (Some (\<lambda>_. False)) demo_manager) = Inl DB_ERROR"
proof -
  have g: "get_account_by_id ''q'' demo_manager = Some 1"
    by (simp add: get_account_by_id_def demo_defs)
  from switch_takes_effect [OF g prod.collapse [symmetric], of False 77 "Some (\<lambda>_. False)"]
  show ?thesis by (simp add: db_fails_def)
qed

text \<open>
  The background switch and its recovery: a system disable keeps the time the account
  first went off, a later recovery turns it on again and clears that time, and a second
  recovery does nothing.
\<close>

lemma system_disable_recover:
  assumes "x \<in> set (accounts m)" "is_active (heap m x)" "disabled_at (heap m x) = 0" "1 < t1"
  shows "let m1 = snd (set_system_disabled x True t1 None m);
             m2 = snd (set_system_disabled x True t2 None m1);
             m3 = snd (set_system_disabled x False t3 None m2)
         in \<not> is_active (heap m1 x) \<and> auto_disabled (heap m1 x) \<and> disabled_at (heap m1 x) = t1
          \<and> disabled_at (heap m2 x) = t1
          \<and> is_active (heap m3 x) \<and> \<not> auto_disabled (heap m3 x) \<and> disabled_at (heap m3 x) = 0
          \<and> set_system_disabled x False t4 None m3 = (Inr False, m3)"
  using assms by (simp add: set_system_disabled_def Let_def db_fails_def)

lemma system_disable_recover_witness:
  "let m1 = snd (set_system_disabled 1 True 100 None demo_manager);
       m2 = snd (set_system_disabled 1 True 200 None m1);
       m3 = snd (set_system_disabled 1 False 300 None m2)
   in \<not> is_active (heap m1 1) \<and> auto_disabled (heap m1 1) \<and> disabled_at (heap m1 1) = 100
    \<and> disabled_at (heap m2 1) = 100
    \<and> is_active (heap m3 1) \<and> \<not> auto_disabled (heap m3 1) \<and> disabled_at (heap m3 1) = 0
    \<and> set_system_disabled 1 False 400 None m3 = (Inr False, m3)"
  by (rule system_disable_recover) (simp_all add: demo_defs)

section \<open>PREVIEW streaks\<close>

datatype probe = Full | Preview | Unknown

text \<open>
  What the maintenance loop does with the result of an automatic check (\<open>src/autoheal.rs\<close>):
  store it, and count a PREVIEW.
\<close>

fun probe_status :: "probe \<Rightarrow> string" where
  "probe_status Full = ''premium''"
| "probe_status Preview = ''preview-only''"
| "probe_status Unknown = ''unknown''"

definition auto_check :: "nat \<Rightarrow> int \<Rightarrow> db \<Rightarrow> probe \<Rightarrow> manager \<Rightarrow> manager" where
  "auto_check x now db v m =
     (let m1 = set_premium (acc_id (heap m x)) (probe_status v) now m
      in if v = Preview then snd (note_preview_check x now db m1) else m1)"

fun auto_checks :: "nat \<Rightarrow> db \<Rightarrow> (int \<times> probe) list \<Rightarrow> manager \<Rightarrow> manager" where
  "auto_checks x db [] m = m"
| "auto_checks x db ((now, v) # vs) m = auto_checks x db vs (auto_check x now db v m)"

text \<open>One check on an account that is the one its id names.\<close>

lemma auto_check_step:
  assumes "get_account_by_id (acc_id (heap m x)) m = Some x"
  shows "get_account_by_id (acc_id (heap (auto_check x now None v m) x)) (auto_check x now None v m) = Some x"
    and "is_catalog (heap (auto_check x now None v m) x) =
      (is_catalog (heap m x) \<or> (v = Preview \<and> 3 \<le> preview_streak (heap m x) + 1))"
    and "preview_streak (heap (auto_check x now None v m) x) =
      (case v of Full \<Rightarrow> 0 | Unknown \<Rightarrow> preview_streak (heap m x)
       | Preview \<Rightarrow> if 3 \<le> preview_streak (heap m x) + 1 then 0 else preview_streak (heap m x) + 1)"
proof -
  have id: "acc_id (heap (set_premium (acc_id (heap m x)) s now m) z) = acc_id (heap m z)"
    "accounts (set_premium (acc_id (heap m x)) s now m) = accounts m" for s z
    by (auto simp: set_premium_def Let_def split: option.splits)
  have g: "get_account_by_id (acc_id (heap m x)) (at_addr y f m0) = Some x"
    if "accounts m0 = accounts m" "\<And>z. acc_id (heap (at_addr y f m0) z) = acc_id (heap m z)" for y f m0
    using assms that by (simp add: get_account_by_id_def)
  show "is_catalog (heap (auto_check x now None v m) x) =
      (is_catalog (heap m x) \<or> (v = Preview \<and> 3 \<le> preview_streak (heap m x) + 1))"
    and "preview_streak (heap (auto_check x now None v m) x) =
      (case v of Full \<Rightarrow> 0 | Unknown \<Rightarrow> preview_streak (heap m x)
       | Preview \<Rightarrow> if 3 \<le> preview_streak (heap m x) + 1 then 0 else preview_streak (heap m x) + 1)"
    using assms g
    by (cases v; auto simp: auto_check_def set_premium_def note_preview_check_def db_fails_def
        set_account_catalog_def PREVIEW_CHECKS_BEFORE_CATALOG_def Let_def)+
  have "acc_id (heap (auto_check x now None v m) z) = acc_id (heap m z)" for z
    using assms g
    by (cases v; auto simp: auto_check_def set_premium_def note_preview_check_def db_fails_def
        set_account_catalog_def PREVIEW_CHECKS_BEFORE_CATALOG_def Let_def)
  moreover have "accounts (auto_check x now None v m) = accounts m"
    using assms g
    by (cases v; auto simp: auto_check_def set_premium_def note_preview_check_def db_fails_def
        set_account_catalog_def PREVIEW_CHECKS_BEFORE_CATALOG_def Let_def)
  ultimately show "get_account_by_id (acc_id (heap (auto_check x now None v m) x)) (auto_check x now None v m) = Some x"
    using assms by (simp add: get_account_by_id_def)
qed

text \<open>Three PREVIEWs in a row, as the run so far and the streak it left.\<close>

lemma preview_run_split:
  "sublist (replicate 3 Preview) (replicate k Preview @ Preview # vs)
     = (k \<ge> 2 \<or> sublist (replicate 3 Preview) (replicate (Suc k) Preview @ vs))"
proof -
  have shift: "replicate k Preview @ Preview # vs = replicate (Suc k) Preview @ vs"
    by (simp add: replicate_app_Cons_same)
  have "sublist (replicate 3 Preview) (replicate (Suc k) Preview @ vs)" if "k \<ge> 2"
  proof -
    have "Suc k = 3 + (k - 2)" using that by simp
    then have "replicate (Suc k) Preview @ vs = [] @ replicate 3 Preview @ (replicate (k - 2) Preview @ vs)"
      by (simp only: replicate_add append_assoc append_Nil)
    then show ?thesis unfolding sublist_def by blast
  qed
  then show ?thesis unfolding shift by blast
qed

lemma preview_run_reset:
  assumes "k < 3" "v \<noteq> Preview"
  shows "sublist (replicate 3 Preview) (replicate k Preview @ v # vs) = sublist (replicate 3 Preview) vs"
proof
  assume "sublist (replicate 3 Preview) (replicate k Preview @ v # vs)"
  then obtain ps ss where eq: "replicate k Preview @ v # vs = ps @ replicate 3 Preview @ ss"
    by (auto simp: sublist_def)
  have "k < length ps"
  proof (rule ccontr)
    assume "\<not> k < length ps"
    moreover from this have "k - length ps < 3" using assms(1) by simp
    ultimately have "(ps @ replicate 3 Preview @ ss) ! k = Preview"
      by (simp add: nth_append)
    moreover have "(replicate k Preview @ v # vs) ! k = v" by (simp add: nth_append)
    ultimately show False using eq assms(2) by simp
  qed
  then have "drop (Suc k) (ps @ replicate 3 Preview @ ss) = drop (Suc k) ps @ replicate 3 Preview @ ss"
    by simp
  moreover have "drop (Suc k) (replicate k Preview @ v # vs) = vs" by simp
  ultimately show "sublist (replicate 3 Preview) vs"
    unfolding eq by (metis sublist_appendI)
next
  assume "sublist (replicate 3 Preview) vs"
  then show "sublist (replicate 3 Preview) (replicate k Preview @ v # vs)"
    by (metis append_Cons sublist_append sublist_code(3) sublist_Cons_right)
qed

lemma auto_checks_catalog:
  assumes "get_account_by_id (acc_id (heap m x)) m = Some x" "\<not> is_catalog (heap m x)"
    and "preview_streak (heap m x) = int k" "k < 3"
  shows "is_catalog (heap (auto_checks x None vs m) x) =
    sublist (replicate 3 Preview) (replicate k Preview @ filter (\<lambda>v. v \<noteq> Unknown) (map snd vs))"
  using assms
proof (induction vs arbitrary: m k)
  case Nil
  have "\<not> sublist (replicate 3 Preview) (replicate k Preview)"
    using Nil.prems(4) sublist_length_le by fastforce
  with Nil show ?case by simp
next
  case (Cons p vs)
  obtain now v where p: "p = (now, v)" by force
  let ?m = "auto_check x now None v m"
  note step = auto_check_step [OF Cons.prems(1), of now v]
  have keep: "is_catalog (heap (auto_checks x None ws m0) x)"
    if "is_catalog (heap m0 x)" "get_account_by_id (acc_id (heap m0 x)) m0 = Some x" for ws m0
    using that
  proof (induction ws arbitrary: m0)
    case Nil
    then show ?case by simp
  next
    case (Cons q ws)
    then show ?case using auto_check_step [OF Cons.prems(2)] by (cases q) simp
  qed
  show ?case
  proof (cases v)
    case Full
    have "is_catalog (heap (auto_checks x None vs ?m) x) =
        sublist (replicate 3 Preview) (replicate 0 Preview @ filter (\<lambda>v. v \<noteq> Unknown) (map snd vs))"
      by (rule Cons.IH) (use step Cons.prems Full in auto)
    then show ?thesis using preview_run_reset [OF Cons.prems(4), of Full] by (simp add: p Full)
  next
    case Unknown
    have "is_catalog (heap (auto_checks x None vs ?m) x) =
        sublist (replicate 3 Preview) (replicate k Preview @ filter (\<lambda>v. v \<noteq> Unknown) (map snd vs))"
      by (rule Cons.IH) (use step Cons.prems Unknown in auto)
    then show ?thesis by (simp add: p Unknown)
  next
    case Preview
    show ?thesis
    proof (cases "k = 2")
      case True
      then have "is_catalog (heap ?m x)" using step Cons.prems Preview by simp
      from keep [OF this step(1)] show ?thesis
        using True by (simp add: p Preview preview_run_split)
    next
      case False
      then have "k < 2" using Cons.prems(4) by simp
      then have "is_catalog (heap (auto_checks x None vs ?m) x) =
          sublist (replicate 3 Preview) (replicate (Suc k) Preview @ filter (\<lambda>v. v \<noteq> Unknown) (map snd vs))"
        by (intro Cons.IH) (use step Cons.prems Preview in auto)
      then show ?thesis
        using \<open>k < 2\<close> preview_run_split [of k "filter (\<lambda>v. v \<noteq> Unknown) (map snd vs)"]
        by (simp add: p Preview)
    qed
  qed
qed

text \<open>
  Automatic checks move a playback account to the catalog exactly if three of them in a
  row returned PREVIEW, where inconclusive checks neither count nor interrupt and a FULL starts
  the count again.
\<close>

lemma three_previews_move_to_catalog:
  assumes "get_account_by_id (acc_id (heap m x)) m = Some x" "\<not> is_catalog (heap m x)"
    and "preview_streak (heap m x) = 0"
  shows "is_catalog (heap (auto_checks x None vs m) x) =
    sublist [Preview, Preview, Preview] (filter (\<lambda>v. v \<noteq> Unknown) (map snd vs))"
  using auto_checks_catalog [of m x 0 vs] assms by (simp add: numeral_3_eq_3)

lemma three_previews_move_to_catalog_witness:
  "is_catalog (heap (auto_checks 1 None [(1, Preview), (2, Full), (3, Preview), (4, Preview), (5, Unknown), (6, Preview)] demo_manager) 1)
   \<and> \<not> is_catalog (heap (auto_checks 1 None [(1, Preview), (2, Preview), (3, Full), (4, Preview)] demo_manager) 1)"
proof -
  have h: "get_account_by_id (acc_id (heap demo_manager 1)) demo_manager = Some 1"
    "\<not> is_catalog (heap demo_manager 1)" "preview_streak (heap demo_manager 1) = 0"
    by (simp_all add: get_account_by_id_def demo_defs)
  show ?thesis
    unfolding three_previews_move_to_catalog [OF h] by (simp add: sublist_code)
qed

section \<open>Edits\<close>

lemma edited_simps [simp]:
  "acc_id (edited_account pct locks l c s r u now old) = acc_id old"
  "rest_until_ms (edited_account pct locks l c s r u now old) = 0"
proof -
  obtain g where f: "\<And>a. set_country (country_code old) a = a\<lparr>country_code := g a\<rparr>"
    using set_country_field by (rule that)
  show "acc_id (edited_account pct locks l c s r u now old) = acc_id old"
    "rest_until_ms (edited_account pct locks l c s r u now old) = 0"
    by (simp_all add: edited_account_def carry_over_def Let_def f account_new_def)
qed

lemma find_replace_first:
  "find P xs = Some x \<Longrightarrow> Q y \<Longrightarrow> (\<And>z. z \<in> set xs \<Longrightarrow> Q z = P z) \<Longrightarrow> find Q (replace_first P y xs) = Some y"
  by (induction xs) (auto split: if_splits)

text \<open>A stored edit: the account its id names is the rebuilt one, at a new address.\<close>

lemma update_account_ok:
  assumes "get_account_by_id i m = Some x" "set (accounts m) \<subseteq> {..<next_addr m}"
    and "update_account pct locks i l c s r u now db m = (Inr (), m')"
  shows "get_account_by_id i m' = Some (next_addr m)"
    and "heap m' = (heap m)(next_addr m := edited_account pct locks l c s r u now (heap m x))"
    and "cells m' (next_addr m) = cells m x"
proof -
  from assms(3) have acc: "accounts m' = replace_first (\<lambda>z. acc_id (heap m z) = i) (next_addr m) (accounts m)"
    and h: "heap m' = (heap m)(next_addr m := edited_account pct locks l c s r u now (heap m x))"
    and c: "cells m' (next_addr m) = cells m x"
    by (auto simp: update_account_def assms(1) alloc_def Let_def split: if_splits)
       (use assms(1,2) in \<open>auto dest!: get_account_in\<close>)
  show "heap m' = (heap m)(next_addr m := edited_account pct locks l c s r u now (heap m x))"
    "cells m' (next_addr m) = cells m x" by (fact h c)+
  show "get_account_by_id i m' = Some (next_addr m)"
    unfolding get_account_by_id_def acc
  proof (rule find_replace_first)
    show "find (\<lambda>z. acc_id (heap m z) = i) (accounts m) = Some x"
      using assms(1) by (simp add: get_account_by_id_def)
    show "acc_id (heap m' (next_addr m)) = i" using get_account_in [OF assms(1)] by (simp add: h)
    show "(acc_id (heap m' z) = i) = (acc_id (heap m z) = i)" if "z \<in> set (accounts m)" for z
      using assms(2) that by (auto simp: h)
  qed
qed

definition all_free :: read_locks where
  "all_free = \<lparr>token_free = True, rejected_free = True, premium_free = True\<rparr>"

text \<open>
  An edit keeps the statistics, the 429 pause and its strikes, the hourly count and the
  availability history, and whether the account is on. Its tokens survive exactly when the
  stored credentials do not change: otherwise the access token, the refresh cooldown and the
  failure counts are dropped so that the new credentials start clean.
\<close>

lemma edit_keeps_history:
  assumes "get_account_by_id i m = Some x" "set (accounts m) \<subseteq> {..<next_addr m}"
    and "update_account pct all_free i l c s r u now db m = (Inr (), m')"
  shows "\<exists>y. get_account_by_id i m' = Some y \<and> cells m' y = cells m x \<and>
    (let old = heap m x; new = heap m' y in
       is_active new = is_active old \<and> request_count new = request_count old
       \<and> rate_limited_until new = rate_limited_until old \<and> rate_limit_strikes new = rate_limit_strikes old
       \<and> hour_picks new = hour_picks old
       \<and> (if same_credentials new old
          then access_token new = access_token old \<and> token_expires_at new = token_expires_at old
             \<and> heal_next_retry new = heal_next_retry old \<and> preview_streak new = preview_streak old
          else access_token new = None \<and> token_expires_at new = 0 \<and> heal_next_retry new = 0
             \<and> heal_failures new = 0 \<and> auth_failing_since new = 0))"
proof -
  let ?e = "edited_account pct all_free l c s r u now (heap m x)"
  obtain g where g: "\<And>a. set_country (country_code (heap m x)) a = a\<lparr>country_code := g a\<rparr>"
    using set_country_field by (rule that)
  have "let old = heap m x; new = ?e in
       is_active new = is_active old \<and> request_count new = request_count old
       \<and> rate_limited_until new = rate_limited_until old \<and> rate_limit_strikes new = rate_limit_strikes old
       \<and> hour_picks new = hour_picks old
       \<and> (if same_credentials new old
          then access_token new = access_token old \<and> token_expires_at new = token_expires_at old
             \<and> heal_next_retry new = heal_next_retry old \<and> preview_streak new = preview_streak old
          else access_token new = None \<and> token_expires_at new = 0 \<and> heal_next_retry new = 0
             \<and> heal_failures new = 0 \<and> auth_failing_since new = 0)"
    by (simp add: edited_account_def carry_over_def Let_def g same_credentials_def account_new_def all_free_def)
  then show ?thesis
    using update_account_ok [OF assms] by (intro exI [of _ "next_addr m"]) simp
qed

lemma demo_edit:
  "get_account_by_id ''q'' demo_manager = Some 1"
  "set (accounts demo_manager) \<subseteq> {..<next_addr demo_manager}"
  "fst (update_account Some locks ''q'' l None s None None 5000 None demo_manager) = Inr ()"
  by (simp_all add: get_account_by_id_def demo_manager_def demo_account_def update_account_def
      alloc_def Let_def db_fails_def)

lemma edit_keeps_history_witness:
  "let m' = snd (update_account Some all_free ''q'' (Some ''new label'') None None None None 5000 None demo_manager);
       m'' = snd (update_account Some all_free ''q'' None None (Some ''new secret'') None None 5000 None demo_manager)
   in get_account_by_id ''q'' m' = Some 3 \<and> access_token (heap m' 3) = Some ''tok''
    \<and> get_account_by_id ''q'' m'' = Some 3 \<and> access_token (heap m'' 3) = None"
proof -
  have upd: "update_account Some all_free ''q'' l None s None None 5000 None demo_manager =
      (Inr (), snd (update_account Some all_free ''q'' l None s None None 5000 None demo_manager))" for l s
    by (simp add: prod_eq_iff demo_edit)
  have same: "same_credentials (edited_account Some all_free l None s None None 5000 (heap demo_manager 1)) (heap demo_manager 1)
      = (s = None \<or> s = Some (client_secret (heap demo_manager 1)))" for l s
    by (cases s) (auto simp: edited_account_def carry_over_def Let_def same_credentials_def demo_defs or_else_def
        normalize_client_secret_def all_free_def set_country_def)
  have demo: "next_addr demo_manager = 3" "access_token (heap demo_manager 1) = Some ''tok''"
    "client_secret (heap demo_manager 1) = ''sec''"
    by (simp_all add: demo_defs normalize_client_secret_def)
  have "let m' = snd (update_account Some all_free ''q'' l None s None None 5000 None demo_manager)
      in get_account_by_id ''q'' m' = Some 3
       \<and> access_token (heap m' 3) = (if s = None \<or> s = Some ''sec'' then Some ''tok'' else None)" for l s
  proof -
    let ?m = "snd (update_account Some all_free ''q'' l None s None None 5000 None demo_manager)"
    let ?e = "edited_account Some all_free l None s None None 5000 (heap demo_manager 1)"
    have at: "get_account_by_id ''q'' ?m = Some 3" "heap ?m 3 = ?e"
      using update_account_ok(1,2) [OF demo_edit(1,2) upd, of l s] demo(1) by auto
    from edit_keeps_history [OF demo_edit(1,2) upd, of l s]
    have "if same_credentials ?e (heap demo_manager 1)
        then access_token ?e = access_token (heap demo_manager 1) else access_token ?e = None"
      unfolding at Let_def option.inject by (metis at(2))
    then show ?thesis unfolding Let_def at same demo by (auto split: if_splits)
  qed
  note this [of "Some ''new label''" None] this [of None "Some ''new secret''"]
  then show ?thesis by (simp add: Let_def)
qed

text \<open>
  An edit rebuilds the account with free slots: requests that were in flight stay counted
  on the replaced object only, so whatever the concurrency limit and the rest rule say, the
  account is free again at once.
\<close>

lemma edit_forgets_inflight:
  assumes "get_account_by_id i m = Some x" "set (accounts m) \<subseteq> {..<next_addr m}"
    and "update_account pct locks i l c s r u now db m = (Inr (), m')" "0 \<le> now_ms"
  shows "\<exists>y. get_account_by_id i m' = Some y \<and> is_free rules now_ms (heap m' y)
    \<and> inflight (heap m' x) = inflight (heap m x)"
proof -
  have "x \<noteq> next_addr m" using assms(1,2) by (auto dest!: get_account_in)
  moreover have "pool_inflight (edited_account pct locks l c s r u now (heap m x)) = 0"
    using inflight_edited [of pct locks l c s r u now "heap m x"]
    by (simp add: inflight_def pool_inflight_def)
  ultimately show ?thesis
    using update_account_ok [OF assms(1-3)] assms(4) by (auto simp: is_free_def)
qed

definition busy_manager :: manager where
  "busy_manager = at_addr 1 (\<lambda>a. a\<lparr>playback_inflight := 1\<rparr>) demo_manager"

lemma edit_forgets_inflight_witness:
  "let m' = snd (update_account Some all_free ''q'' None None None None None 5000 None busy_manager)
   in get_account_by_id ''q'' busy_manager = Some 1 \<and> \<not> is_free one_at_a_time 1000000 (heap busy_manager 1)
    \<and> (\<exists>y. get_account_by_id ''q'' m' = Some y \<and> is_free one_at_a_time 1000000 (heap m' y)
         \<and> inflight (heap m' 1) = (1, 0, 0))"
proof -
  have g: "get_account_by_id ''q'' busy_manager = Some 1"
    "set (accounts busy_manager) \<subseteq> {..<next_addr busy_manager}"
    "fst (update_account Some all_free ''q'' None None None None None 5000 None busy_manager) = Inr ()"
    by (simp_all add: get_account_by_id_def busy_manager_def demo_defs update_account_def
        alloc_def Let_def db_fails_def)
  from g(3) have upd: "update_account Some all_free ''q'' None None None None None 5000 None busy_manager =
      (Inr (), snd (update_account Some all_free ''q'' None None None None None 5000 None busy_manager))"
    by (simp add: prod_eq_iff)
  have busy: "\<not> is_free one_at_a_time 1000000 (heap busy_manager 1)" "inflight (heap busy_manager 1) = (1, 0, 0)"
    by (simp_all add: busy_manager_def is_free_def demo_defs pool_inflight_def inflight_def)
  show ?thesis
    using edit_forgets_inflight [OF g(1,2) upd, of 1000000 one_at_a_time] g(1) busy by (simp add: Let_def)
qed

end
