(* ===== verification/Merge.thy ===== *)
theory Merge
  imports LifecycleProps
begin

text \<open>
  Loading and convergence of the roster (\<open>src/account_manager.rs\<close>): \<open>load_from_db\<close>,
  \<open>reload_from_db\<close>, \<open>account_to_json\<close>, \<open>merge_accounts_from_redis\<close>, \<open>publish_all_to_redis\<close>.

  Arguments stand for what is not in the repository: \<open>pct\<close> is percent decoding, \<open>parse\<close> is
  \<open>serde_json::from_str\<close> on the stored text (of which only the parse matters, so its type is
  left open), the rows are the answer of the SELECT, the index and the payloads are
  the answers of \<open>smembers\<close> and \<open>mget\<close>, and \<open>hist\<close> is the table of availability events (\<open>None\<close>
  without a database; \<open>Some h\<close> with \<open>h id = None\<close> when its query fails). The results of the
  writes of the merge are dropped by the source. \<open>locks\<close> says which \<open>try_read\<close>s of a record
  that is rebuilt get through.
\<close>

section \<open>Loading\<close>

record db_row =
  row_id :: string
  row_label :: string
  row_client_id :: string
  row_client_secret :: string
  row_refresh_token :: string
  row_user_id :: "string option"
  row_is_active :: int
  row_auto_disabled :: "int option"
  row_disabled_at :: "int option"
  row_is_catalog :: "int option"
  row_notes :: string
  row_access_token :: "string option"
  row_expires_at :: "int option"
  row_updated_at :: "int option"
  row_created_at :: int
  row_heal_failures :: int
  row_heal_next_retry :: int
  row_rejected :: "string option"
  row_refresh_error :: "string option"
  row_preview_streak :: int
  row_rate_limited_until :: int
  row_auth_failing_since :: int
  row_country :: "string option"
  row_subscription :: "string option"
  row_subscription_checked_at :: int
  row_subscription_error :: "string option"
  row_subscription_error_at :: int

definition account_of_row ::
    "(string \<Rightarrow> string option) \<Rightarrow> (string \<Rightarrow> json option) \<Rightarrow> db_row \<Rightarrow> account" where
  "account_of_row pct sub_of row =
     (let uid = (case row_user_id row of Some u \<Rightarrow> Some u | None \<Rightarrow> user_id_from_label (row_label row));
          a = account_new pct (row_id row) (row_label row) (row_client_id row) (row_client_secret row)
                (row_refresh_token row) uid (row_is_active row \<noteq> 0) (row_notes row);
          a = (if unwrap_or (row_auto_disabled row) 0 \<noteq> 0 then a\<lparr>auto_disabled := True\<rparr> else a);
          a = (if row_is_active row = 0 then a\<lparr>disabled_at := unwrap_or (row_disabled_at row) 0\<rparr> else a);
          a = (if unwrap_or (row_is_catalog row) 0 \<noteq> 0 then a\<lparr>is_catalog := True\<rparr> else a);
          a = (case (row_access_token row, row_expires_at row) of
                 (Some t, Some e) \<Rightarrow>
                   if t \<noteq> [] \<and> e > 0 then a\<lparr>access_token := Some t, token_expires_at := e\<rparr> else a
               | _ \<Rightarrow> a);
          a = a\<lparr>created_at := row_created_at row, updated_at := unwrap_or (row_updated_at row) 0,
                heal_failures := nat (row_heal_failures row),
                heal_next_retry := max (row_heal_next_retry row) 0,
                rejected_access_token := row_rejected row,
                last_refresh_error := row_refresh_error row,
                preview_streak := max (row_preview_streak row) 0,
                rate_limited_until := max (row_rate_limited_until row) 0,
                auth_failing_since := max (row_auth_failing_since row) 0\<rparr>;
          a = set_country (row_country row) a
      in a\<lparr>subscription := Option.bind (row_subscription row) sub_of,
           subscription_checked_at := max (row_subscription_checked_at row) 0,
           subscription_error := row_subscription_error row,
           subscription_error_at := max (row_subscription_error_at row) 0\<rparr>)"

type_synonym stored_histories = "(string \<Rightarrow> account_uptime option) option"

definition load_uptime :: "stored_histories \<Rightarrow> int \<Rightarrow> nat \<Rightarrow> manager \<Rightarrow> bool \<times> manager" where
  "load_uptime hist now x m =
     (case hist of
        None \<Rightarrow> (True, observe_uptime x now m)
      | Some h \<Rightarrow>
          (case h (acc_id (heap m x)) of
             None \<Rightarrow> (False, m)
           | Some rows \<Rightarrow>
               (True, observe_uptime x now
                  (m\<lparr>histories := (histories m)(cells m x := uptime_load now rows)\<rparr>))))"

text \<open>
  The loop of \<open>load_from_db\<close>: a failing normalisation write or history query ends it, with the
  rows before that one loaded. \<open>fix_ok\<close> says whether the rewrite of a row's secret succeeds.
\<close>

fun load_rows ::
    "(string \<Rightarrow> string option) \<Rightarrow> (string \<Rightarrow> json option) \<Rightarrow> (string \<Rightarrow> bool) \<Rightarrow> stored_histories \<Rightarrow> int \<Rightarrow>
     db_row list \<Rightarrow> manager \<Rightarrow> (app_error + unit) \<times> manager" where
  "load_rows pct sub_of fix_ok hist now [] m = (Inr (), m)"
| "load_rows pct sub_of fix_ok hist now (row # rows) m =
     (if normalize_client_secret pct (row_client_secret row) \<noteq> row_client_secret row \<and> \<not> fix_ok (row_id row)
      then (Inl DB_ERROR, m)
      else let (y, m1) = alloc (account_of_row pct sub_of row) m;
               (ok, m2) = load_uptime hist now y m1
           in if \<not> ok then (Inl DB_ERROR, m2)
              else load_rows pct sub_of fix_ok hist now rows (m2\<lparr>accounts := accounts m2 @ [y]\<rparr>))"

text \<open>\<open>None\<close> as the rows: no database. A failed SELECT is \<open>Some None\<close>.\<close>

definition load_from_db ::
    "(string \<Rightarrow> string option) \<Rightarrow> (string \<Rightarrow> json option) \<Rightarrow> (string \<Rightarrow> bool) \<Rightarrow> stored_histories \<Rightarrow> int \<Rightarrow>
     db_row list option option \<Rightarrow> manager \<Rightarrow> (app_error + unit) \<times> manager" where
  "load_from_db pct sub_of fix_ok hist now answer m =
     (case answer of
        None \<Rightarrow> (Inr (), m)
      | Some None \<Rightarrow> (Inl DB_ERROR, m)
      | Some (Some rows) \<Rightarrow> load_rows pct sub_of fix_ok hist now rows m)"

section \<open>The shared record of an account\<close>

definition account_to_json :: "account \<Rightarrow> json" where
  "account_to_json a = JObj
     [(''id'', JStr (acc_id a)), (''label'', JStr (label a)), (''client_id'', JStr (client_id a)),
      (''client_secret'', JStr (client_secret a)), (''refresh_token'', JStr (refresh_token a)),
      (''user_id'', opt_str (user_id a)), (''is_active'', JBool (is_active a)),
      (''disabled_at'', JInt (disabled_at a)), (''auto_disabled'', JBool (auto_disabled a)),
      (''is_catalog'', JBool (is_catalog a)), (''notes'', JStr (acc_notes a)),
      (''created_at'', JInt (created_at a)), (''updated_at'', JInt (updated_at a))]"

text \<open>What a merge reads from a payload.\<close>

definition str_field :: "string \<Rightarrow> json \<Rightarrow> string" where
  "str_field k v = unwrap_or (jget_str k v) []"

definition remote_updated :: "json \<Rightarrow> int" where
  "remote_updated v = unwrap_or (jget_i64 ''updated_at'' v) 0"

definition remote_created :: "int \<Rightarrow> json \<Rightarrow> int" where
  "remote_created now v =
     (case jget_i64 ''created_at'' v of
        Some t \<Rightarrow> if t > 0 then t else if remote_updated v > 0 then remote_updated v else now
      | None \<Rightarrow> if remote_updated v > 0 then remote_updated v else now)"

definition remote_active :: "json \<Rightarrow> bool" where
  "remote_active v = unwrap_or (jget_bool ''is_active'' v) True"

definition remote_disabled_at :: "json \<Rightarrow> int" where
  "remote_disabled_at v = (if remote_active v then 0 else unwrap_or (jget_i64 ''disabled_at'' v) 0)"

definition remote_account :: "(string \<Rightarrow> string option) \<Rightarrow> string \<Rightarrow> json \<Rightarrow> account" where
  "remote_account pct i v =
     account_new pct i (str_field ''label'' v) (str_field ''client_id'' v) (str_field ''client_secret'' v)
       (str_field ''refresh_token'' v) (jget_str ''user_id'' v) (remote_active v) (str_field ''notes'' v)"

definition adopted_account ::
    "(string \<Rightarrow> string option) \<Rightarrow> read_locks \<Rightarrow> json \<Rightarrow> account \<Rightarrow> account" where
  "adopted_account pct locks v old =
     (carry_over locks (remote_account pct (acc_id old) v) old)\<lparr>
        disabled_at := remote_disabled_at v,
        auto_disabled := unwrap_or (jget_bool ''auto_disabled'' v) False,
        is_catalog := unwrap_or (jget_bool ''is_catalog'' v) False,
        updated_at := remote_updated v\<rparr>"

definition restored_account :: "(string \<Rightarrow> string option) \<Rightarrow> int \<Rightarrow> string \<Rightarrow> json \<Rightarrow> account" where
  "restored_account pct now i v =
     (remote_account pct i v)\<lparr>
        auto_disabled := unwrap_or (jget_bool ''auto_disabled'' v) False,
        disabled_at := remote_disabled_at v,
        is_catalog := unwrap_or (jget_bool ''is_catalog'' v) False,
        created_at := remote_created now v,
        updated_at := remote_updated v\<rparr>"

section \<open>Merging\<close>

text \<open>One id of the index with its payload; the ids restored so far are collected.\<close>

definition merge_one ::
    "(string \<Rightarrow> string option) \<Rightarrow> ('p \<Rightarrow> json option) \<Rightarrow> (string \<Rightarrow> read_locks) \<Rightarrow> stored_histories \<Rightarrow> int \<Rightarrow>
     string \<times> 'p option \<Rightarrow> manager \<times> string list \<Rightarrow> manager \<times> string list" where
  "merge_one pct parse locks hist now entry st =
     (let (i, payload) = entry; (m, restored) = st
      in case Option.bind payload parse of
           None \<Rightarrow> (m, restored)
         | Some v \<Rightarrow>
             (case get_account_by_id i m of
                Some x \<Rightarrow>
                  if remote_updated v \<le> updated_at (heap m x) then (m, restored)
                  else (let (y, m1) = alloc (adopted_account pct (locks i) v (heap m x)) m;
                            m2 = observe_uptime y now (share_history y x m1)
                        in (m2\<lparr>accounts := replace_first (\<lambda>z. acc_id (heap m z) = i) y (accounts m2)\<rparr>, restored))
              | None \<Rightarrow>
                  (let (y, m1) = alloc (restored_account pct now i v) m;
                       (_, m2) = load_uptime hist now y m1
                   in (m2\<lparr>accounts := accounts m2 @ [y]\<rparr>, restored @ [i]))))"

definition push_accounts :: "nat list \<Rightarrow> manager \<Rightarrow> manager" where
  "push_accounts xs m = fold push_account xs m"

definition merge_accounts_from_redis ::
    "(string \<Rightarrow> string option) \<Rightarrow> ('p \<Rightarrow> json option) \<Rightarrow> (string \<Rightarrow> read_locks) \<Rightarrow> stored_histories \<Rightarrow> int \<Rightarrow>
     bool \<Rightarrow> string list option \<Rightarrow> 'p option list \<Rightarrow> manager \<Rightarrow> manager" where
  "merge_accounts_from_redis pct parse locks hist now proxies index values m =
     (case index of
        None \<Rightarrow> m
      | Some ids \<Rightarrow>
          if ids = [] then m
          else (let (m1, restored) = fold (merge_one pct parse locks hist now) (zip ids values) (m, []);
                    m2 = push_accounts (filter (\<lambda>x. acc_id (heap m1 x) \<notin> set ids) (accounts m1)) m1
                in if proxies then m2\<lparr>outbox := outbox m2 @ map EnsureProxy restored\<rparr> else m2))"

definition publish_all_to_redis :: "string list option \<Rightarrow> manager \<Rightarrow> manager" where
  "publish_all_to_redis index m =
     (let m1 = push_accounts (accounts m) m;
          local_ids = map (\<lambda>x. acc_id (heap m x)) (accounts m)
      in case index of
           None \<Rightarrow> m1
         | Some ids \<Rightarrow>
             (let orphans = filter (\<lambda>i. i \<notin> set local_ids) ids
              in m1\<lparr>outbox := outbox m1 @ map Unlist orphans @ [DelKeys (map k_account orphans)]\<rparr>))"

definition reload_from_db ::
    "(string \<Rightarrow> string option) \<Rightarrow> (string \<Rightarrow> json option) \<Rightarrow> (string \<Rightarrow> bool) \<Rightarrow> ('p \<Rightarrow> json option) \<Rightarrow>
     (string \<Rightarrow> read_locks) \<Rightarrow> stored_histories \<Rightarrow> int \<Rightarrow> bool \<Rightarrow> db_row list option option \<Rightarrow>
     string list option \<Rightarrow> 'p option list \<Rightarrow> manager \<Rightarrow> (app_error + unit) \<times> manager" where
  "reload_from_db pct sub_of fix_ok parse locks hist now proxies answer index values m =
     (case load_from_db pct sub_of fix_ok hist now answer (m\<lparr>accounts := []\<rparr>) of
        (Inl e, m1) \<Rightarrow> (Inl e, m1)
      | (Inr _, m1) \<Rightarrow>
          (Inr (), merge_accounts_from_redis pct parse locks hist now proxies index values m1))"

end
