(* ===== verification/MergeProps.thy ===== *)
theory MergeProps
  imports Merge
begin

text \<open>
  What merging promises, record by record: \<open>merge_accounts_from_redis\<close> refines \<open>merge_record\<close>
  (newest wins, unknown ids are restored, everything else is kept), published records restore
  what they were made from, and two instances that merge each other's records agree.
\<close>

section \<open>The record of an id\<close>

definition record_of :: "string \<Rightarrow> manager \<Rightarrow> account option" where
  "record_of i m = map_option (heap m) (get_account_by_id i m)"

definition addrs_ok :: "manager \<Rightarrow> bool" where
  "addrs_ok m \<longleftrightarrow> set (accounts m) \<subseteq> {..<next_addr m}"

text \<open>The specification of a merge for one id: the payload found under it and the local record.\<close>

definition merge_record ::
    "(string \<Rightarrow> string option) \<Rightarrow> (string \<Rightarrow> read_locks) \<Rightarrow> int \<Rightarrow> string \<Rightarrow> json option \<Rightarrow> account option \<Rightarrow> account option" where
  "merge_record pct locks now i payload mine =
     (case payload of
        None \<Rightarrow> mine
      | Some v \<Rightarrow>
          Some (case mine of
                  None \<Rightarrow> restored_account pct now i v
                | Some a \<Rightarrow> if remote_updated v \<le> updated_at a then a
                            else adopted_account pct (locks i) v a))"

lemma find_replace_other:
  "y \<notin> set xs \<Longrightarrow> \<not> Q y \<Longrightarrow> (\<And>z. z \<in> set xs \<Longrightarrow> P z \<Longrightarrow> \<not> Q z) \<Longrightarrow> find Q (replace_first P y xs) = find Q xs"
  by (induction xs) auto

lemma find_upd: "y \<notin> set xs \<Longrightarrow> find (\<lambda>z. f ((h(y := b)) z)) xs = find (\<lambda>z. f (h z)) xs"
  by (rule find_cong) auto

lemma addrs_fresh: "addrs_ok m \<Longrightarrow> next_addr m \<notin> set (accounts m)"
  by (auto simp: addrs_ok_def)

lemma record_of_id: "record_of i m = Some a \<Longrightarrow> acc_id a = i"
  by (auto simp: record_of_def dest: get_account_in)

lemma record_of_replace:
  assumes "addrs_ok m" "get_account_by_id i m = Some x" "acc_id b = i"
    and "heap m' = (heap m)(next_addr m := b)"
    and "accounts m' = replace_first (\<lambda>z. acc_id (heap m z) = i) (next_addr m) (accounts m)"
  shows "record_of j m' = (if j = i then Some b else record_of j m)"
proof -
  let ?y = "next_addr m" and ?h = "(heap m)(next_addr m := b)"
  note fresh = addrs_fresh [OF assms(1)]
  have other: "find (\<lambda>z. acc_id (?h z) = j) (accounts m') = find (\<lambda>z. acc_id (heap m z) = j) (accounts m)"
    if "j \<noteq> i"
  proof -
    have "find (\<lambda>z. acc_id (?h z) = j) (accounts m') = find (\<lambda>z. acc_id (?h z) = j) (accounts m)"
      unfolding assms(5) using fresh assms(3) that by (intro find_replace_other) auto
    also have "\<dots> = find (\<lambda>z. acc_id (heap m z) = j) (accounts m)"
      by (rule find_upd [OF fresh, of "\<lambda>a. acc_id a = j"])
    finally show ?thesis .
  qed
  have same: "find (\<lambda>z. acc_id (?h z) = i) (accounts m') = Some ?y"
    unfolding assms(5)
  proof (rule find_replace_first)
    show "find (\<lambda>z. acc_id (heap m z) = i) (accounts m) = Some x"
      using assms(2) by (simp add: get_account_by_id_def)
  qed (use fresh assms(3) in auto)
  show ?thesis
  proof (cases "j = i")
    case True
    then show ?thesis unfolding record_of_def get_account_by_id_def assms(4) True same by simp
  next
    case False
    have "find (\<lambda>z. acc_id (heap m z) = j) (accounts m) \<noteq> Some ?y"
      using fresh by (auto simp: find_Some_iff)
    then show ?thesis
      unfolding record_of_def get_account_by_id_def assms(4) other [OF False]
      using False by (cases "find (\<lambda>z. acc_id (heap m z) = j) (accounts m)") auto
  qed
qed

lemma record_of_append:
  assumes "addrs_ok m" "get_account_by_id i m = None" "acc_id b = i"
    and "heap m' = (heap m)(next_addr m := b)" "accounts m' = accounts m @ [next_addr m]"
  shows "record_of j m' = (if j = i then Some b else record_of j m)"
proof -
  note fresh = addrs_fresh [OF assms(1)]
  have "find (\<lambda>z. acc_id (((heap m)(next_addr m := b)) z) = j) (accounts m)
      = find (\<lambda>z. acc_id (heap m z) = j) (accounts m)"
    by (rule find_upd [OF fresh, of "\<lambda>a. acc_id a = j"])
  moreover have "find (\<lambda>z. acc_id (heap m z) = j) (accounts m) \<noteq> Some (next_addr m)"
    using fresh by (auto simp: find_Some_iff)
  ultimately show ?thesis
    using assms(2,3)
    by (cases "find (\<lambda>z. acc_id (heap m z) = j) (accounts m)")
       (auto simp: record_of_def get_account_by_id_def assms(4,5) find_append split: option.splits)
qed

section \<open>One merge step\<close>

lemma alloc_simps [simp]:
  "fst (alloc a m) = next_addr m" "heap (snd (alloc a m)) = (heap m)(next_addr m := a)"
  "accounts (snd (alloc a m)) = accounts m" "next_addr (snd (alloc a m)) = Suc (next_addr m)"
  "outbox (snd (alloc a m)) = outbox m" "rr_seq (snd (alloc a m)) = rr_seq m"
  by (simp_all add: alloc_def Let_def)

lemma load_uptime_simps [simp]:
  "heap (snd (load_uptime hist now x m)) = heap m" "accounts (snd (load_uptime hist now x m)) = accounts m"
  "next_addr (snd (load_uptime hist now x m)) = next_addr m" "outbox (snd (load_uptime hist now x m)) = outbox m"
  by (auto simp: load_uptime_def split: option.splits)

lemma acc_id_carry_over [simp]: "acc_id (carry_over locks n old) = acc_id n"
proof -
  obtain g where "\<And>a. set_country (country_code old) a = a\<lparr>country_code := g a\<rparr>"
    using set_country_field by (rule that)
  then show ?thesis by (simp add: carry_over_def Let_def)
qed

lemma acc_id_adopted [simp]: "acc_id (adopted_account pct l v a) = acc_id a"
  by (simp add: adopted_account_def remote_account_def)

lemma acc_id_restored [simp]: "acc_id (restored_account pct now i v) = i"
  by (simp add: restored_account_def remote_account_def)

lemma inflight_adopted: "inflight (adopted_account pct l v a) = (0, 0, 0)"
  "inflight (restored_account pct now i v) = (0, 0, 0)"
proof -
  have "inflight (a\<lparr>disabled_at := d, auto_disabled := e, is_catalog := f, updated_at := u\<rparr>) = inflight a"
    "inflight (a\<lparr>auto_disabled := e, disabled_at := d, is_catalog := f, created_at := c, updated_at := u\<rparr>) = inflight a"
    for a d e f u c by (simp_all add: inflight_def)
  then show "inflight (adopted_account pct l v a) = (0, 0, 0)" "inflight (restored_account pct now i v) = (0, 0, 0)"
    by (simp_all add: adopted_account_def restored_account_def remote_account_def inflight_new)
qed

text \<open>The three ways a step ends.\<close>

lemma merge_one_cases:
  assumes "merge_one pct parse locks hist now (i, payload) (m, r) = (m', r')"
  obtains (skipped) "m' = m" "r' = r"
      "Option.bind payload parse = None \<or> (\<exists>v x. Option.bind payload parse = Some v \<and>
         get_account_by_id i m = Some x \<and> remote_updated v \<le> updated_at (heap m x))"
  | (adopted) v x where "Option.bind payload parse = Some v" "get_account_by_id i m = Some x"
      "updated_at (heap m x) < remote_updated v" "r' = r" "outbox m' = outbox m"
      "heap m' = (heap m)(next_addr m := adopted_account pct (locks i) v (heap m x))"
      "accounts m' = replace_first (\<lambda>z. acc_id (heap m z) = i) (next_addr m) (accounts m)"
      "next_addr m' = Suc (next_addr m)"
  | (restored) v where "Option.bind payload parse = Some v" "get_account_by_id i m = None"
      "r' = r @ [i]" "outbox m' = outbox m"
      "heap m' = (heap m)(next_addr m := restored_account pct now i v)"
      "accounts m' = accounts m @ [next_addr m]" "next_addr m' = Suc (next_addr m)"
proof (cases "Option.bind payload parse")
  case None
  then show ?thesis using assms skipped by (simp add: merge_one_def Let_def)
next
  case (Some v)
  show ?thesis
  proof (cases "get_account_by_id i m")
    case None
    show ?thesis
      by (rule restored) (use assms Some None in \<open>auto simp: merge_one_def Let_def split_beta\<close>)
  next
    case (Some x)
    note local = this
    show ?thesis
    proof (cases "remote_updated v \<le> updated_at (heap m x)")
      case True
      then show ?thesis using assms \<open>_ = Some v\<close> local skipped by (simp add: merge_one_def Let_def)
    next
      case False
      let ?a = "adopted_account pct (locks i) v (heap m x)"
      from assms \<open>Option.bind payload parse = Some v\<close> local False
      have m': "r' = r" "m' = (observe_uptime (next_addr m) now (share_history (next_addr m) x (snd (alloc ?a m))))
          \<lparr>accounts := replace_first (\<lambda>z. acc_id (heap m z) = i) (next_addr m) (accounts m)\<rparr>"
        by (auto simp: merge_one_def Let_def split_beta)
      show ?thesis
        by (rule adopted [OF \<open>Option.bind payload parse = Some v\<close> local])
           (use False m' in simp_all)
    qed
  qed
qed

lemma merge_one_record:
  assumes "addrs_ok m" "merge_one pct parse locks hist now (i, payload) (m, r) = (m', r')"
  shows "addrs_ok m' \<and> outbox m' = outbox m \<and>
    record_of j m' = (if j = i then merge_record pct locks now i (Option.bind payload parse) (record_of i m)
                      else record_of j m)"
  using assms(2)
proof (cases rule: merge_one_cases)
  case skipped
  then show ?thesis using assms(1) by (auto simp: merge_record_def record_of_def)
next
  case (adopted v x)
  have "acc_id (heap m x) = i" using get_account_in [OF adopted(2)] by simp
  then have "record_of j m' = (if j = i then Some (adopted_account pct (locks i) v (heap m x)) else record_of j m)"
    using record_of_replace [OF assms(1) adopted(2) _ adopted(6,7)] by simp
  moreover have "addrs_ok m'"
    using assms(1) adopted(7,8) set_replace_first [of _ "next_addr m" "accounts m"]
    by (fastforce simp: addrs_ok_def less_Suc_eq)
  ultimately show ?thesis using adopted by (simp add: merge_record_def record_of_def)
next
  case (restored v)
  have "record_of j m' = (if j = i then Some (restored_account pct now i v) else record_of j m)"
    using record_of_append [OF assms(1) restored(2) _ restored(5,6)] by simp
  then show ?thesis using restored assms(1) by (auto simp: merge_record_def record_of_def addrs_ok_def)
qed

lemma merge_one_safe:
  assumes "merge_one pct parse locks hist now e (m, r) = (m', r')"
  shows "leases_kept m m'"
proof -
  obtain i p where e: "e = (i, p)" by force
  from assms show ?thesis
    unfolding e
  proof (cases rule: merge_one_cases)
    case (adopted v x)
    have "set (accounts m') \<subseteq> insert (next_addr m) (set (accounts m))"
      unfolding adopted(7) by (rule set_replace_first)
    with adopted show ?thesis by (auto simp: leases_kept_def inflight_adopted less_Suc_eq)
  next
    case (restored v)
    then show ?thesis by (auto simp: leases_kept_def inflight_adopted less_Suc_eq)
  qed (simp add: leases_kept_refl)
qed

section \<open>The whole merge\<close>

lemma merge_fold_record:
  assumes "addrs_ok m" "distinct (map fst es)"
    and "fold (merge_one pct parse locks hist now) es (m, r) = (m', r')"
  shows "addrs_ok m' \<and> outbox m' = outbox m \<and> leases_kept m m' \<and>
    record_of j m' = merge_record pct locks now j (Option.bind (Option.bind (map_of es j) id) parse) (record_of j m)"
  using assms
proof (induction es arbitrary: m r)
  case Nil
  then show ?case by (simp add: merge_record_def leases_kept_refl)
next
  case (Cons e es)
  obtain i p where e: "e = (i, p)" by force
  obtain m1 r1 where one: "merge_one pct parse locks hist now (i, p) (m, r) = (m1, r1)" by force
  note step = merge_one_record [OF Cons.prems(1) one, of j]
  have rest: "fold (merge_one pct parse locks hist now) es (m1, r1) = (m', r')"
    using Cons.prems(3) one by (simp add: e)
  have "distinct (map fst es)" "map_of es i = None"
    using Cons.prems(2) by (auto simp: e map_of_eq_None_iff)
  with Cons.IH [OF _ _ rest] step leases_kept_trans [OF merge_one_safe [OF one]]
  show ?case by (auto simp: e merge_record_def split: option.splits)
qed

lemma push_accounts_simps [simp]:
  "heap (push_accounts xs m) = heap m" "accounts (push_accounts xs m) = accounts m"
  "next_addr (push_accounts xs m) = next_addr m"
  "outbox (push_accounts xs m) = outbox m @ map (\<lambda>x. Publish (heap m x)) xs"
  unfolding push_accounts_def by (induction xs arbitrary: m) auto

lemma merge_whole:
  assumes "addrs_ok m" "distinct ids" "ids \<noteq> []"
    and "merge_accounts_from_redis pct parse locks hist now proxies (Some ids) vals m = m'"
  shows "record_of i m' = merge_record pct locks now i
           (Option.bind (Option.bind (map_of (zip ids vals) i) id) parse) (record_of i m)"
    and "\<exists>rs. outbox m' = outbox m
      @ map (\<lambda>x. Publish (heap m' x)) (filter (\<lambda>x. acc_id (heap m' x) \<notin> set ids) (accounts m'))
      @ map EnsureProxy rs"
    and "leases_kept m m'"
proof -
  obtain m1 restored where f: "fold (merge_one pct parse locks hist now) (zip ids vals) (m, []) = (m1, restored)"
    by force
  have "distinct (map fst (zip ids vals))" by (metis assms(2) distinct_take map_fst_zip_take)
  note rec = merge_fold_record [OF assms(1) this f]
  have m': "heap m' = heap m1" "accounts m' = accounts m1" "next_addr m' = next_addr m1"
    "outbox m' = outbox m1 @ map (\<lambda>x. Publish (heap m1 x)) (filter (\<lambda>x. acc_id (heap m1 x) \<notin> set ids) (accounts m1))
       @ map EnsureProxy (if proxies then restored else [])"
    using assms(3,4) f by (auto simp: merge_accounts_from_redis_def Let_def)
  show "record_of i m' = merge_record pct locks now i
           (Option.bind (Option.bind (map_of (zip ids vals) i) id) parse) (record_of i m)"
    "leases_kept m m'"
    using rec [of i] m' by (auto simp: record_of_def get_account_by_id_def leases_kept_def)
  show "\<exists>rs. outbox m' = outbox m
      @ map (\<lambda>x. Publish (heap m' x)) (filter (\<lambda>x. acc_id (heap m' x) \<notin> set ids) (accounts m'))
      @ map EnsureProxy rs"
    using rec m' by auto
qed


section \<open>Records that travel\<close>

text \<open>What two instances share of an account.\<close>

definition shared_view ::
    "account \<Rightarrow> (string \<times> string \<times> string \<times> string \<times> string option \<times> string) \<times> bool \<times> int \<times> bool \<times> bool \<times> int" where
  "shared_view a =
     ((label a, client_id a, client_secret a, refresh_token a, user_id a, acc_notes a),
      is_active a, disabled_at a, auto_disabled a, is_catalog a, updated_at a)"

definition is_i64 :: "int \<Rightarrow> bool" where
  "is_i64 n \<longleftrightarrow> - (2 ^ 63) \<le> n \<and> n < 2 ^ 63"

text \<open>
  An account as the server keeps it: times are 64-bit, an enabled one has no off time, and the
  stored secret holds no further percent escape.
\<close>

definition shareable :: "(string \<Rightarrow> string option) \<Rightarrow> account \<Rightarrow> bool" where
  "shareable pct a \<longleftrightarrow> pct (client_secret a) = Some (client_secret a) \<and> is_i64 (disabled_at a) \<and>
     is_i64 (created_at a) \<and> is_i64 (updated_at a) \<and> (\<not> is_active a \<or> disabled_at a = 0)"

lemma json_fields:
  "str_field ''label'' (account_to_json a) = label a" "str_field ''client_id'' (account_to_json a) = client_id a"
  "str_field ''client_secret'' (account_to_json a) = client_secret a"
  "str_field ''refresh_token'' (account_to_json a) = refresh_token a"
  "str_field ''notes'' (account_to_json a) = acc_notes a" "jget_str ''user_id'' (account_to_json a) = user_id a"
  "remote_active (account_to_json a) = is_active a"
  "jget_bool ''auto_disabled'' (account_to_json a) = Some (auto_disabled a)"
  "jget_bool ''is_catalog'' (account_to_json a) = Some (is_catalog a)"
  by (simp_all add: account_to_json_def str_field_def jget_str_def jget_bool_def remote_active_def)

lemma json_times:
  assumes "shareable pct a"
  shows "remote_updated (account_to_json a) = updated_at a"
    and "remote_disabled_at (account_to_json a) = disabled_at a"
    and "0 < created_at a \<Longrightarrow> remote_created now (account_to_json a) = created_at a"
  using assms json_fields(7) [of a]
  by (auto simp: remote_updated_def remote_disabled_at_def remote_created_def account_to_json_def
      jget_i64_def shareable_def is_i64_def)

lemma remote_account_fields:
  assumes "shareable pct a"
  shows "label (remote_account pct i (account_to_json a)) = label a"
    "client_id (remote_account pct i (account_to_json a)) = client_id a"
    "client_secret (remote_account pct i (account_to_json a)) = client_secret a"
    "refresh_token (remote_account pct i (account_to_json a)) = refresh_token a"
    "user_id (remote_account pct i (account_to_json a)) = user_id a"
    "acc_notes (remote_account pct i (account_to_json a)) = acc_notes a"
    "is_active (remote_account pct i (account_to_json a)) = is_active a"
  using assms
  by (simp_all add: remote_account_def account_new_def json_fields normalize_client_secret_def shareable_def)

lemma restored_view:
  assumes "shareable pct a"
  shows "shared_view (restored_account pct now i (account_to_json a)) = shared_view a"
    and "0 < created_at a \<Longrightarrow> created_at (restored_account pct now i (account_to_json a)) = created_at a"
  using json_times [OF assms] remote_account_fields [OF assms]
  by (simp_all add: restored_account_def shared_view_def json_fields)

lemma adopted_view:
  assumes "shareable pct a"
  shows "shared_view (adopted_account pct l (account_to_json a) b) = shared_view a"
proof -
  obtain g where g: "\<And>c. set_country (country_code b) c = c\<lparr>country_code := g c\<rparr>"
    using set_country_field by (rule that)
  have "label (carry_over l n b) = label n" "client_id (carry_over l n b) = client_id n"
    "client_secret (carry_over l n b) = client_secret n" "refresh_token (carry_over l n b) = refresh_token n"
    "user_id (carry_over l n b) = user_id n" "acc_notes (carry_over l n b) = acc_notes n"
    "is_active (carry_over l n b) = is_active n" for n
    by (simp_all add: carry_over_def Let_def g)
  then show ?thesis
    using json_times [OF assms] remote_account_fields [OF assms]
    by (simp add: adopted_account_def shared_view_def json_fields)
qed

lemma find_distinct_ids:
  "distinct (map f xs) \<Longrightarrow> x \<in> set xs \<Longrightarrow> find (\<lambda>z. f z = f x) xs = Some x"
  by (induction xs) auto

text \<open>
  A wiped host restores itself: starting from nothing, merging what another instance
  published brings back every account with its credentials, flags, notes and times.
\<close>

lemma wiped_host_restores:
  assumes "\<And>v. parse (render v) = Some v" "accounts m = []" "accounts m0 \<noteq> []"
    and "distinct (map (\<lambda>x. acc_id (heap m0 x)) (accounts m0))"
    and "list_all (\<lambda>x. shareable pct (heap m0 x)) (accounts m0)"
  shows "map_option shared_view (record_of i (merge_accounts_from_redis pct parse locks hist now proxies
      (Some (map (\<lambda>x. acc_id (heap m0 x)) (accounts m0)))
      (map (\<lambda>x. Some (render (account_to_json (heap m0 x)))) (accounts m0)) m))
    = map_option shared_view (record_of i m0)"
proof -
  let ?ids = "map (\<lambda>x. acc_id (heap m0 x)) (accounts m0)"
  let ?vals = "map (\<lambda>x. Some (render (account_to_json (heap m0 x)))) (accounts m0)"
  have ok: "addrs_ok m" using assms(2) by (simp add: addrs_ok_def)
  have empty: "record_of i m = None" using assms(2) by (simp add: record_of_def get_account_by_id_def)
  have zip: "map_of (zip (map f xs) (map g xs)) i
      = map_option g (find (\<lambda>x. f x = i) xs)" for f :: "nat \<Rightarrow> string" and g :: "nat \<Rightarrow> 'a option" and xs
    by (induction xs) auto
  have "?ids \<noteq> []" using assms(3) by simp
  note rec = merge_whole(1) [OF ok assms(4) this refl, of i, unfolded empty]
  show ?thesis
  proof (cases "find (\<lambda>x. acc_id (heap m0 x) = i) (accounts m0)")
    case None
    then show ?thesis unfolding rec zip by (simp add: merge_record_def record_of_def get_account_by_id_def)
  next
    case (Some x)
    then have "x \<in> set (accounts m0)" by (auto simp: find_Some_iff)
    with Some assms(1,5) show ?thesis
      unfolding rec zip
      by (simp add: merge_record_def record_of_def get_account_by_id_def list_all_iff restored_view)
  qed
qed

text \<open>
  Two instances converge: when each merges the record the other one holds of an account,
  both end up with the same credentials, flags and times, those of the later change.
\<close>

lemma instances_converge:
  assumes "\<And>v. parse (render v) = Some v" "addrs_ok ma" "addrs_ok mb"
    and "record_of i ma = Some a" "record_of i mb = Some b" "updated_at a < updated_at b"
    and "shareable pct a" "shareable pct b"
    and "ma' = merge_accounts_from_redis pct parse locks hist now proxies (Some [i]) [Some (render (account_to_json b))] ma"
    and "mb' = merge_accounts_from_redis pct parse locks' hist' now' proxies' (Some [i]) [Some (render (account_to_json a))] mb"
  shows "map_option shared_view (record_of i ma') = Some (shared_view b)
    \<and> map_option shared_view (record_of i mb') = Some (shared_view b)"
proof -
  have one: "record_of i (merge_accounts_from_redis pct parse l h n px (Some [i]) [Some (render v)] m)
      = merge_record pct l n i (Some v) (record_of i m)" if "addrs_ok m" for l h n px v m
    by (simp add: merge_whole(1) [OF that _ _ refl] assms(1))
  show ?thesis
    using assms(4-8) one [OF assms(2)] one [OF assms(3)]
    by (simp add: assms(9,10) merge_record_def json_times adopted_view)
qed

text \<open>
  A delete does not stay deleted while another instance still holds the account: that
  instance's next merge publishes the record again, because the index no longer lists it, and
  the merge after that restores it on the instance that deleted it.
\<close>

lemma deleted_account_returns:
  assumes "\<And>v. parse (render v) = Some v" "addrs_ok ma" "addrs_ok mb"
    and "get_account_by_id i mb = Some x" "distinct ids" "ids \<noteq> []" "i \<notin> set ids"
    and "remove_account i None ma = (Inr (), ma')"
    and "merge_accounts_from_redis pct parse locks hist now proxies (Some ids) vals mb = mb'"
    and "merge_accounts_from_redis pct parse locks' hist' now' proxies' (Some (i # ids))
           (Some (render (account_to_json (heap mb x))) # vals') ma' = mc"
  shows "record_of i ma' = None \<and> Publish (heap mb x) \<in> set (outbox mb')
    \<and> record_of i mc = Some (restored_account pct now' i (account_to_json (heap mb x)))"
proof -
  from assms(8) have acc: "accounts ma' = filter (\<lambda>z. acc_id (heap ma z) \<noteq> i) (accounts ma)"
    and h: "heap ma' = heap ma" and n: "next_addr ma' = next_addr ma"
    by (auto simp: remove_account_def db_fails_def)
  have gone: "record_of i ma' = None"
    by (auto simp: record_of_def get_account_None list_ex_iff acc h)
  have "addrs_ok ma'" using assms(2) by (auto simp: addrs_ok_def acc n)
  from merge_whole(1) [OF this _ _ assms(10), of i] assms(1,5,7) gone
  have again: "record_of i mc = Some (restored_account pct now' i (account_to_json (heap mb x)))"
    by (simp add: merge_record_def)
  have none: "map_of (zip ids vals) i = None"
    using assms(7) by (auto simp: map_of_eq_None_iff dest: set_zip_leftD)
  note w = merge_whole [OF assms(3,5,6,9)]
  have "record_of i mb' = Some (heap mb x)"
    using w(1) [of i] assms(4) by (simp add: none merge_record_def record_of_def)
  then obtain y where y: "get_account_by_id i mb' = Some y" "heap mb' y = heap mb x"
    by (auto simp: record_of_def)
  note z = get_account_in [OF y(1)]
  obtain rs where "outbox mb' = outbox mb
      @ map (\<lambda>x. Publish (heap mb' x)) (filter (\<lambda>x. acc_id (heap mb' x) \<notin> set ids) (accounts mb'))
      @ map EnsureProxy rs" using w(2) by blast
  then have "Publish (heap mb' y) \<in> set (outbox mb')" using z assms(7) by simp
  then have "Publish (heap mb x) \<in> set (outbox mb')" by (simp only: y(2))
  with gone again show ?thesis by blast
qed

section \<open>Witnesses\<close>

definition demo_remote :: account where
  "demo_remote = (account_new Some ''q'' ''Q'' ''id2'' ''new'' ''ref2'' None True [])\<lparr>created_at := 7, updated_at := 900\<rparr>"

lemma demo_remote_shareable: "shareable Some demo_remote"
  by (simp add: demo_remote_def shareable_def account_new_def normalize_client_secret_def is_i64_def)

lemma demo_addrs: "addrs_ok demo_manager" "record_of ''q'' demo_manager = Some (heap demo_manager 1)"
  by (simp_all add: addrs_ok_def record_of_def get_account_by_id_def demo_defs)


definition demo_other :: manager where
  "demo_other = (manager_new (\<lambda>_. demo_remote))\<lparr>accounts := [0], next_addr := 1\<rparr>"

lemma demo_other_facts:
  "addrs_ok demo_other" "record_of ''q'' demo_other = Some demo_remote" "get_account_by_id ''q'' demo_other = Some 0"
  by (simp_all add: addrs_ok_def record_of_def get_account_by_id_def demo_other_def manager_new_def
      demo_remote_def)

lemma wiped_host_restores_witness:
  "map_option shared_view (record_of ''q'' (merge_accounts_from_redis Some Some (\<lambda>_. all_free) None 2000 False
      (Some [''q'']) [Some (account_to_json demo_remote)] (manager_new undefined)))
   = Some (shared_view demo_remote)"
proof -
  have "accounts demo_other = [0]" "heap demo_other 0 = demo_remote" "acc_id demo_remote = ''q''"
    by (simp_all add: demo_other_def manager_new_def demo_remote_def)
  then show ?thesis
    using wiped_host_restores [of Some id "manager_new undefined" demo_other Some "''q''" "\<lambda>_. all_free" None 2000 False]
      demo_other_facts(2) demo_remote_shareable
    by (simp add: manager_new_def)
qed

lemma demo_local_shareable: "shareable Some (heap demo_manager 1)"
  by (simp add: demo_defs shareable_def normalize_client_secret_def is_i64_def)

lemma instances_converge_witness:
  "map_option shared_view (record_of ''q'' (merge_accounts_from_redis Some Some (\<lambda>_. all_free) None 2000 False
      (Some [''q'']) [Some (account_to_json demo_remote)] demo_manager)) = Some (shared_view demo_remote)
   \<and> map_option shared_view (record_of ''q'' (merge_accounts_from_redis Some Some (\<lambda>_. all_free) None 2000 False
      (Some [''q'']) [Some (account_to_json (heap demo_manager 1))] demo_other)) = Some (shared_view demo_remote)"
proof -
  have "updated_at (heap demo_manager 1) < updated_at demo_remote"
    by (simp add: demo_defs demo_remote_def)
  from instances_converge [OF _ demo_addrs(1) demo_other_facts(1) demo_addrs(2) demo_other_facts(2) this
      demo_local_shareable demo_remote_shareable refl refl, of Some id]
  show ?thesis by simp
qed

lemma deleted_account_returns_witness:
  "record_of ''q'' (snd (remove_account ''q'' None demo_manager)) = None
   \<and> record_of ''q'' (merge_accounts_from_redis Some Some (\<lambda>_. all_free) None 2000 False
      (Some [''q'', ''z'']) [Some (account_to_json demo_remote), None]
      (snd (remove_account ''q'' None demo_manager)))
     = Some (restored_account Some 2000 ''q'' (account_to_json demo_remote))"
proof -
  have rm: "remove_account ''q'' None demo_manager = (Inr (), snd (remove_account ''q'' None demo_manager))"
    by (simp add: remove_account_def db_fails_def)
  have "heap demo_other 0 = demo_remote" by (simp add: demo_other_def manager_new_def)
  with deleted_account_returns [OF _ demo_addrs(1) demo_other_facts(1,3) _ _ _ rm refl refl, of Some id "[''z'']"]
  show ?thesis by simp
qed

end
