(* ===== verification/Playback.thy ===== *)
theory Playback
  imports Json Errors Slots
begin

text \<open>
  The playback queue of \<open>src/playback.rs\<close>: slots, pollable jobs, the worker of a queued request,
  polling, cancelling, the reaper, the answer cache and the timing samples.

  A request suspends only while its operation runs or while a worker waits for a slot, so each
  definition below is one stretch without suspension, taken as one step (\<open>PlaybackProps\<close>
  interleaves them). The operation itself (\<open>run_op\<close>, which calls the routes) is represented by
  its outcome. The answer cache is the crate \<open>moka\<close>: \<open>results\<close> is what was inserted, latest
  first, and the parameter \<open>lookup\<close> is its \<open>get\<close>, which may have evicted or expired entries.
  A UUID is an argument. \<open>usize\<close> is 64 bits wide.
\<close>

definition JOB_TTL_SECS :: int where "JOB_TTL_SECS = 300"

definition MAX_QUEUE_FACTOR :: nat where "MAX_QUEUE_FACTOR = 1"

definition PENDING_TIMEOUT_SECS :: int where "PENDING_TIMEOUT_SECS = 60"

definition TIMING_SAMPLES :: nat where "TIMING_SAMPLES = 1000"

record manifest_params =
  adaptive :: string
  manifestType :: string
  uriScheme :: string
  usage :: string
  countryCode :: "string option"
  atmos :: "string option"

datatype playback_op =
    Track int string bool
  | Manifest string manifest_params "string option" string
  | Dash string "string option"
  | Video int string string string
  | Widevine string "string option" string

datatype job_result =
    Json json
  | Redirect string
  | Binary nat string string

datatype job_state = Pending | Processing | Completed | Failed | Cancelled

fun job_state_str :: "job_state \<Rightarrow> string" where
  "job_state_str Pending = ''pending''"
| "job_state_str Processing = ''processing''"
| "job_state_str Completed = ''completed''"
| "job_state_str Failed = ''failed''"
| "job_state_str Cancelled = ''cancelled''"

type_synonym logged_account = "string \<times> string \<times> string"

record job =
  job_id :: string
  job_state :: job_state
  job_result :: "job_result option"
  job_error :: "string option"
  error_status :: nat
  error_retry_after :: "nat option"
  job_created_at :: int
  finished_at :: "int option"
  last_polled_at :: int
  job_accounts :: "logged_account list"

record track_timing =
  wait_ms :: nat
  total_ms :: nat

record queue =
  results :: "(string \<times> job_result) list"
  cache_hits :: nat
  timings :: "track_timing list"
  q_inflight :: nat
  jobs :: "(string, job) hash_map"

definition queue_new :: queue where
  "queue_new = \<lparr>results = [], cache_hits = 0, timings = [], q_inflight = 0, jobs = []\<rparr>"

section \<open>Slots\<close>

definition try_acquire :: "nat \<Rightarrow> queue \<Rightarrow> bool \<times> queue" where
  "try_acquire pool q =
     (if q_inflight q \<ge> max pool 1 then (False, q) else (True, q\<lparr>q_inflight := q_inflight q + 1\<rparr>))"

definition release :: "queue \<Rightarrow> queue" where
  "release q = q\<lparr>q_inflight := q_inflight q - 1\<rparr>"

definition usize_sat_mul :: "nat \<Rightarrow> nat \<Rightarrow> nat" where
  "usize_sat_mul = sat_mul_u64"

definition queue_limit :: "nat \<Rightarrow> nat" where
  "queue_limit pool = usize_sat_mul (max pool 1) MAX_QUEUE_FACTOR"

definition over_capacity :: "nat \<Rightarrow> nat \<Rightarrow> bool" where
  "over_capacity pending pool \<longleftrightarrow> pending \<ge> queue_limit pool"

definition capacity :: "nat \<Rightarrow> nat \<Rightarrow> nat option" where
  "capacity pool per_account = (if per_account > 0 then Some (usize_sat_mul pool per_account) else None)"

definition capacity_now :: "nat \<Rightarrow> nat \<Rightarrow> nat" where
  "capacity_now pool per_account = unwrap_or (capacity pool per_account) u64_max"

section \<open>Expiry\<close>

definition expire_job :: "int \<Rightarrow> job \<Rightarrow> job" where
  "expire_job now j =
     (if job_state j = Pending \<and> now - last_polled_at j > PENDING_TIMEOUT_SECS
      then j\<lparr>job_state := Cancelled,
             job_error := Some ''Playback request expired in queue (client stopped polling)'',
             finished_at := Some now\<rparr>
      else j)"

definition keep_job :: "int \<Rightarrow> job \<Rightarrow> bool" where
  "keep_job now j = (case finished_at j of Some f \<Rightarrow> f \<ge> now - JOB_TTL_SECS | None \<Rightarrow> True)"

definition prune_jobs :: "int \<Rightarrow> (string, job) hash_map \<Rightarrow> (string, job) hash_map" where
  "prune_jobs now js = hm_values_mut (expire_job now) (hm_retain (\<lambda>_. keep_job now) js)"

definition prune_queue :: "int \<Rightarrow> queue \<Rightarrow> queue" where
  "prune_queue now q = q\<lparr>jobs := prune_jobs now (jobs q)\<rparr>"

section \<open>Responses\<close>

text \<open>\<open>r_headers\<close> are the headers set by hand; a \<open>JsonBody\<close> implies its content type.\<close>

datatype body = JsonBody json | Bytes string | NoBody

record response =
  r_status :: nat
  r_headers :: "(string \<times> string) list"
  r_body :: body

definition status_url :: "string \<Rightarrow> string" where
  "status_url i = ''/playback/requests/'' @ i"

definition payload_fields :: "string \<Rightarrow> string \<Rightarrow> nat \<Rightarrow> nat \<Rightarrow> nat \<Rightarrow> (string \<times> json) list" where
  "payload_fields i st position pool active =
     [(''status'', JStr st), (''requestId'', JStr i), (''queuePosition'', JInt (int position)),
      (''statusUrl'', JStr (status_url i)), (''cancelUrl'', JStr (status_url i)),
      (''playbackAccounts'', JInt (int pool)), (''activePlaybackRequests'', JInt (int active))]"

definition pending_jobs :: "queue \<Rightarrow> job list" where
  "pending_jobs q = filter (\<lambda>j. job_state j = Pending) (map snd (jobs q))"

fun index_of :: "('a \<Rightarrow> bool) \<Rightarrow> 'a list \<Rightarrow> nat option" where
  "index_of P [] = None"
| "index_of P (x # xs) = (if P x then Some 0 else map_option Suc (index_of P xs))"

definition pending_position :: "string \<Rightarrow> queue \<Rightarrow> nat" where
  "pending_position i q =
     (case hm_get (jobs q) i of
        None \<Rightarrow> 0
      | Some me \<Rightarrow>
          if job_state me \<noteq> Pending then 0
          else (case index_of (\<lambda>j. job_id j = i) (sort_key job_created_at (pending_jobs q)) of
                  Some n \<Rightarrow> n + 1
                | None \<Rightarrow> 0))"

definition pending_response :: "string \<Rightarrow> nat \<Rightarrow> nat \<Rightarrow> nat \<Rightarrow> response" where
  "pending_response i position pool active =
     \<lparr>r_status = 202,
      r_headers = [(''Location'', status_url i), (''Retry-After'', ''1''),
        (''X-Playback-Queue-Position'', show_nat position), (''X-Playback-Request-Id'', i)],
      r_body = JsonBody (JObj (payload_fields i ''pending'' position pool active))\<rparr>"

definition job_result_response :: "job_result \<Rightarrow> response" where
  "job_result_response r =
     (case r of
        Json v \<Rightarrow> \<lparr>r_status = 200, r_headers = [], r_body = JsonBody v\<rparr>
      | Redirect uri \<Rightarrow> \<lparr>r_status = 307, r_headers = [(''Location'', uri)], r_body = NoBody\<rparr>
      | Binary st ct b \<Rightarrow>
          \<lparr>r_status = (if 100 \<le> st \<and> st < 1000 then st else 502),
           r_headers = [(''Content-Type'', ct)], r_body = Bytes b\<rparr>)"

definition app_error_parts :: "app_error \<Rightarrow> nat \<times> string" where
  "app_error_parts e =
     (status e,
      case e of
        RateLimited _ \<Rightarrow> ''Tidal rate limited the account''
      | Timeout \<Rightarrow> ''Upstream timeout''
      | NotFound d \<Rightarrow> d
      | BadRequest d \<Rightarrow> d
      | Unauthorized d \<Rightarrow> d
      | UpstreamError _ d \<Rightarrow> d
      | BadGateway d \<Rightarrow> d
      | PreviewOnly d \<Rightarrow> d
      | ServiceUnavailable d \<Rightarrow> d
      | ServiceUnavailableRetry d _ \<Rightarrow> d
      | AccountsBusy d _ \<Rightarrow> d
      | Internal d \<Rightarrow> d)"

section \<open>The identity of a cacheable answer\<close>

definition show_bool :: "bool \<Rightarrow> string" where
  "show_bool b = (if b then ''true'' else ''false'')"

text \<open>\<open>{:?}\<close> of an \<open>Option<String>\<close>; bytes above ASCII are printed as they are.\<close>

definition debug_char :: "char \<Rightarrow> string" where
  "debug_char c =
     (if c = CHR 0x22 \<or> c = CHR 0x5C then [CHR 0x5C, c]
      else if c = CHR 0x0A then [CHR 0x5C, CHR ''n'']
      else if c = CHR 0x0D then [CHR 0x5C, CHR ''r'']
      else if c = CHR 0x09 then [CHR 0x5C, CHR ''t'']
      else if c = CHR 0x00 then [CHR 0x5C, CHR ''0'']
      else [c])"

definition debug_opt :: "string option \<Rightarrow> string" where
  "debug_opt v =
     (case v of
        None \<Rightarrow> ''None''
      | Some s \<Rightarrow> ''Some('' @ [CHR 0x22] @ concat (map debug_char s) @ [CHR 0x22] @ '')'')"

fun join_bars :: "string list \<Rightarrow> string" where
  "join_bars [] = []"
| "join_bars [w] = w"
| "join_bars (w # ws) = w @ [CHR ''|''] @ join_bars ws"

fun cache_key :: "playback_op \<Rightarrow> string \<Rightarrow> string \<Rightarrow> string option" where
  "cache_key (Track i quality immersive) fmt v1 =
     Some (join_bars [''track'', show_int i, quality, show_bool immersive, fmt, v1])"
| "cache_key (Manifest tid p raw host) fmt v1 =
     Some (join_bars [''manifest'', tid, host, unwrap_or raw [], adaptive p, manifestType p,
       uriScheme p, usage p, debug_opt (countryCode p), debug_opt (atmos p), fmt])"
| "cache_key (Dash tid am) fmt v1 = Some (join_bars [''dash'', tid, debug_opt am, fmt, v1])"
| "cache_key (Video _ _ _ _) fmt v1 = None"
| "cache_key (Widevine _ _ _) fmt v1 = None"

section \<open>Timing samples\<close>

fun timed_op :: "playback_op \<Rightarrow> bool" where
  "timed_op (Track _ _ _) = True"
| "timed_op (Manifest _ _ _ _) = True"
| "timed_op (Dash _ _) = True"
| "timed_op _ = False"

definition record_timing :: "playback_op \<Rightarrow> bool \<Rightarrow> nat \<Rightarrow> nat \<Rightarrow> queue \<Rightarrow> queue" where
  "record_timing op ok wait elapsed q =
     (if \<not> ok \<or> \<not> timed_op op then q
      else q\<lparr>timings := (if length (timings q) \<ge> TIMING_SAMPLES then tl (timings q) else timings q)
               @ [\<lparr>wait_ms = wait, total_ms = elapsed\<rparr>]\<rparr>)"

text \<open>\<open>percentile\<close> of \<open>src/request_log.rs\<close>, with the quantile as a fraction.\<close>

definition percentile :: "nat list \<Rightarrow> real \<Rightarrow> nat option" where
  "percentile xs p =
     (if xs = [] then None
      else Some (xs ! (min (length xs) (max 1 (nat \<lceil>real (length xs) * p\<rceil>)) - 1)))"

record latency =
  lat_count :: nat
  lat_p50 :: "nat option"
  lat_p95 :: "nat option"
  lat_p99 :: "nat option"
  lat_max :: "nat option"
  lat_queued :: nat
  lat_wait_p95 :: "nat option"

definition track_latency :: "queue \<Rightarrow> latency" where
  "track_latency q =
     (let totals = sort (map total_ms (timings q));
          waits = sort (filter (\<lambda>w. w > 0) (map wait_ms (timings q)))
      in \<lparr>lat_count = length totals, lat_p50 = percentile totals (1 / 2),
          lat_p95 = percentile totals (95 / 100), lat_p99 = percentile totals (99 / 100),
          lat_max = (if totals = [] then None else Some (last totals)),
          lat_queued = length waits, lat_wait_p95 = percentile waits (95 / 100)\<rparr>)"

section \<open>Dispatch\<close>

datatype outcome = Done job_result | Err app_error | TimedOut

type_synonym answer_lookup = "(string \<times> job_result) list \<Rightarrow> string \<Rightarrow> job_result option"

datatype dispatch_result =
    Hit response
  | RunNow
  | Shed app_error
  | Queued response

definition new_job :: "string \<Rightarrow> int \<Rightarrow> job" where
  "new_job i now =
     \<lparr>job_id = i, job_state = Pending, job_result = None, job_error = None, error_status = 500,
      error_retry_after = None, job_created_at = now, finished_at = None, last_polled_at = now,
      job_accounts = []\<rparr>"

definition queue_full :: "nat \<Rightarrow> nat \<Rightarrow> app_error" where
  "queue_full pending pool =
     AccountsBusy (QUEUE_FULL @ '' ('' @ show_nat pending @ ''/'' @ show_nat (queue_limit pool) @
       ''); retry shortly'') 5"

text \<open>\<open>dispatch\<close> up to the operation, the refusal or the answer that a job was queued.\<close>

definition dispatch_begin ::
    "answer_lookup \<Rightarrow> string \<Rightarrow> string \<Rightarrow> nat \<Rightarrow> nat \<Rightarrow> string \<Rightarrow> int \<Rightarrow> playback_op \<Rightarrow> queue \<Rightarrow>
     dispatch_result \<times> queue" where
  "dispatch_begin lookup fmt v1 accounts per_account uuid now op q =
     (let q = prune_queue now q
      in case Option.bind (cache_key op fmt v1) (lookup (results q)) of
           Some hit \<Rightarrow>
             (let r = job_result_response hit
              in (Hit (r\<lparr>r_headers := r_headers r @ [(''X-Cache'', ''HIT'')]\<rparr>),
                  q\<lparr>cache_hits := cache_hits q + 1\<rparr>))
         | None \<Rightarrow>
             (let pool = capacity_now accounts per_account;
                  (ok, q1) = try_acquire pool q;
                  pending = length (pending_jobs q1)
              in if ok then (RunNow, q1)
                 else if over_capacity pending pool then (Shed (queue_full pending pool), q1)
                 else (let q2 = q1\<lparr>jobs := hm_insert uuid (new_job uuid now) (jobs q1)\<rparr>
                       in (Queued (pending_response uuid (pending_position uuid q2) accounts (q_inflight q2)), q2))))"

definition cache_outcome :: "string option \<Rightarrow> outcome \<Rightarrow> queue \<Rightarrow> queue" where
  "cache_outcome key out q =
     (case (key, out) of
        (Some k, Done r) \<Rightarrow> q\<lparr>results := (k, r) # results q\<rparr>
      | _ \<Rightarrow> q)"

definition is_done :: "outcome \<Rightarrow> bool" where
  "is_done out = (case out of Done _ \<Rightarrow> True | _ \<Rightarrow> False)"

text \<open>The rest of \<open>dispatch\<close> for a request that ran at once: the slot guard is dropped.\<close>

definition dispatch_end ::
    "string \<Rightarrow> string \<Rightarrow> playback_op \<Rightarrow> nat \<Rightarrow> outcome \<Rightarrow> queue \<Rightarrow> (app_error + response) \<times> queue" where
  "dispatch_end fmt v1 op elapsed out q =
     (let q = record_timing op (is_done out) 0 elapsed q;
          q = cache_outcome (cache_key op fmt v1) out q
      in (case out of
            Done r \<Rightarrow> Inr (job_result_response r)
          | Err e \<Rightarrow> Inl e
          | TimedOut \<Rightarrow> Inl Timeout, release q))"

section \<open>The worker of a queued job\<close>

datatype worker_result = Stop | Wait | Go

text \<open>One round of the waiting loop.\<close>

definition worker_check :: "string \<Rightarrow> nat \<Rightarrow> queue \<Rightarrow> worker_result \<times> queue" where
  "worker_check i pool_now q =
     (case hm_get (jobs q) i of
        None \<Rightarrow> (Stop, q)
      | Some j \<Rightarrow>
          if job_state j = Cancelled then (Stop, q)
          else (let (ok, q1) = try_acquire pool_now q in (if ok then Go else Wait, q1)))"

text \<open>With the slot: start the operation, or give the slot back.\<close>

definition worker_begin :: "string \<Rightarrow> queue \<Rightarrow> bool \<times> queue" where
  "worker_begin i q =
     (case hm_get (jobs q) i of
        None \<Rightarrow> (False, release q)
      | Some j \<Rightarrow>
          if job_state j = Cancelled then (False, release q)
          else (True, q\<lparr>jobs := hm_insert i (j\<lparr>job_state := Processing\<rparr>) (jobs q)\<rparr>))"

definition finish_job :: "int \<Rightarrow> logged_account list \<Rightarrow> outcome \<Rightarrow> job \<Rightarrow> job" where
  "finish_job now accs out j =
     (let j = j\<lparr>job_accounts := accs\<rparr>
      in if job_state j = Cancelled then j
         else (case out of
                 Done r \<Rightarrow> j\<lparr>job_state := Completed, job_result := Some r\<rparr>
               | Err e \<Rightarrow> j\<lparr>job_state := Failed, job_error := Some (snd (app_error_parts e)),
                           error_status := fst (app_error_parts e),
                           error_retry_after := (case e of RateLimited s \<Rightarrow> Some s
                             | AccountsBusy _ s \<Rightarrow> Some s | _ \<Rightarrow> None)\<rparr>
               | TimedOut \<Rightarrow> j\<lparr>job_state := Failed, job_error := Some (snd (app_error_parts Timeout)),
                           error_status := fst (app_error_parts Timeout)\<rparr>)
              \<lparr>finished_at := Some now\<rparr>)"

definition worker_finish ::
    "string \<Rightarrow> string \<Rightarrow> playback_op \<Rightarrow> string \<Rightarrow> nat \<Rightarrow> nat \<Rightarrow> int \<Rightarrow> logged_account list \<Rightarrow> outcome \<Rightarrow> queue \<Rightarrow> queue" where
  "worker_finish fmt v1 op i waited elapsed now accs out q =
     (let q = record_timing op (is_done out) waited elapsed q;
          q = cache_outcome (cache_key op fmt v1) out q;
          q = (case hm_get (jobs q) i of
                 None \<Rightarrow> q
               | Some j \<Rightarrow> q\<lparr>jobs := hm_insert i (finish_job now accs out j) (jobs q)\<rparr>)
      in release q)"

section \<open>Polling, cancelling, clearing\<close>

definition not_found_response :: response where
  "not_found_response = \<lparr>r_status = 404, r_headers = [],
     r_body = JsonBody (JObj [(''detail'', JStr ''Playback request not found or expired'')])\<rparr>"

definition poll_job :: "int \<Rightarrow> string \<Rightarrow> queue \<Rightarrow> queue" where
  "poll_job now i q =
     (let q = prune_queue now q
      in case hm_get (jobs q) i of
           Some j \<Rightarrow>
             if job_state j = Pending \<or> job_state j = Processing
             then q\<lparr>jobs := hm_insert i (j\<lparr>last_polled_at := now\<rparr>) (jobs q)\<rparr> else q
         | None \<Rightarrow> q)"

definition get_playback_request :: "nat \<Rightarrow> int \<Rightarrow> string \<Rightarrow> queue \<Rightarrow> response \<times> queue" where
  "get_playback_request pool now i q0 =
     (let q = poll_job now i q0; active = q_inflight q
      in (case hm_get (jobs q) i of
            None \<Rightarrow> not_found_response
          | Some j \<Rightarrow>
              (case job_state j of
                 Pending \<Rightarrow> pending_response i (pending_position i q) pool active
               | Processing \<Rightarrow> pending_response i 0 pool active
               | Completed \<Rightarrow> job_result_response (unwrap_or (job_result j) (Json (JObj [])))
               | Cancelled \<Rightarrow>
                   \<lparr>r_status = 410, r_headers = [],
                    r_body = JsonBody (JObj (payload_fields i ''cancelled'' 0 pool active @
                      [(''detail'', JStr ''Playback request was cancelled'')]))\<rparr>
               | Failed \<Rightarrow>
                   \<lparr>r_status = (if 100 \<le> error_status j \<and> error_status j < 1000 then error_status j else 500),
                    r_headers = (case error_retry_after j of Some s \<Rightarrow> [(''Retry-After'', show_nat s)] | None \<Rightarrow> []),
                    r_body = JsonBody (JObj (payload_fields i ''failed'' 0 pool active @
                      [(''detail'', JStr (unwrap_or (job_error j) ''Playback request failed''))]))\<rparr>), q))"

definition cancel_job :: "int \<Rightarrow> job \<Rightarrow> job" where
  "cancel_job now j =
     (if job_state j = Pending \<or> job_state j = Processing
      then j\<lparr>job_state := Cancelled, finished_at := Some now\<rparr> else j)"

definition cancel_playback_request :: "nat \<Rightarrow> int \<Rightarrow> string \<Rightarrow> queue \<Rightarrow> response \<times> queue" where
  "cancel_playback_request pool now i q0 =
     (let q = prune_queue now q0; active = q_inflight q
      in case hm_get (jobs q) i of
           None \<Rightarrow> (not_found_response, q)
         | Some j \<Rightarrow>
             (let j = cancel_job now j
              in (\<lparr>r_status = 200, r_headers = [],
                   r_body = JsonBody (JObj (payload_fields i (job_state_str (job_state j)) 0 pool active))\<rparr>,
                  q\<lparr>jobs := hm_insert i j (jobs q)\<rparr>)))"

definition clear_job :: "int \<Rightarrow> job \<Rightarrow> job" where
  "clear_job now j =
     (if job_state j = Pending \<or> job_state j = Processing
      then j\<lparr>job_state := Cancelled, job_error := Some ''Playback queue cleared by admin'',
             finished_at := Some now\<rparr> else j)"

definition clear_playback_queue :: "int \<Rightarrow> queue \<Rightarrow> (nat \<times> nat) \<times> queue" where
  "clear_playback_queue now q0 =
     (let q = prune_queue now q0; js = map snd (jobs q)
      in ((length (filter (\<lambda>j. job_state j = Pending) js), length (filter (\<lambda>j. job_state j = Processing) js)),
          q\<lparr>jobs := hm_values_mut (clear_job now) (jobs q)\<rparr>))"

definition clear_cache :: "queue \<Rightarrow> queue" where
  "clear_cache q = q\<lparr>results := []\<rparr>"

text \<open>The counters of \<open>snapshot\<close>: running, pending, all jobs, age of the oldest pending job.\<close>

definition snapshot :: "int \<Rightarrow> queue \<Rightarrow> nat \<times> nat \<times> nat \<times> int" where
  "snapshot now q =
     (q_inflight q, length (pending_jobs q), length (jobs q),
      fold (\<lambda>j oldest. max oldest (now - job_created_at j)) (pending_jobs q) 0)"

end
