(* ===== verification/PlaybackProps.thy ===== *)
theory PlaybackProps
  imports Playback
begin

text \<open>
  What the queue promises under every interleaving of requests, workers, polls, cancels and the
  reaper: slots are neither leaked nor exceeded, no queued job loses its worker, jobs only move
  forward, and a finished job keeps its answer.
\<close>

interpretation playback: slots q_inflight try_acquire release "\<lambda>pool b. b < max pool 1"
  by unfold_locales (auto simp: try_acquire_def release_def)

section \<open>Jobs in the map\<close>

definition count_where :: "(job \<Rightarrow> bool) \<Rightarrow> (string, job) hash_map \<Rightarrow> nat" where
  "count_where P js = length (filter P (map snd js))"

lemma count_insert:
  "hm_wf js \<Longrightarrow> count_where P (hm_insert i j' js) + (case hm_get js i of Some j \<Rightarrow> of_bool (P j) | None \<Rightarrow> 0)
     = count_where P js + of_bool (P j')"
  unfolding hm_wf_def hm_get_def hm_insert_def count_where_def
  by (induction js) (auto simp: map_of_eq_None_iff split: option.splits)

lemma pending_count: "length (pending_jobs q) = count_where (\<lambda>j. job_state j = Pending) (jobs q)"
  by (simp add: pending_jobs_def count_where_def)

lemma count_values_mut:
  "(\<And>j. P (f j) \<Longrightarrow> P j) \<Longrightarrow> count_where P (hm_values_mut f js) \<le> count_where P js"
  by (induction js) (auto simp: count_where_def hm_values_mut_def)

lemma count_retain: "count_where P (hm_retain Q js) \<le> count_where P js"
  by (induction js) (auto simp: count_where_def hm_retain_def)

lemma hm_get_prune:
  "hm_wf js \<Longrightarrow> hm_get (prune_jobs now js) i =
     (case hm_get js i of None \<Rightarrow> None | Some j \<Rightarrow> if keep_job now j then Some (expire_job now j) else None)"
  by (simp add: prune_jobs_def hm_get_values_mut hm_get_filter split: option.splits)

lemma prune_wf: "hm_wf js \<Longrightarrow> hm_wf (prune_jobs now js)"
  by (simp add: prune_jobs_def hm_wf_retain)

lemma count_prune: "count_where (\<lambda>j. job_state j = Pending) (prune_jobs now js)
    \<le> count_where (\<lambda>j. job_state j = Pending) js"
proof -
  have "count_where (\<lambda>j. job_state j = Pending) (prune_jobs now js)
      \<le> count_where (\<lambda>j. job_state j = Pending) (hm_retain (\<lambda>_. keep_job now) js)"
    unfolding prune_jobs_def by (rule count_values_mut) (auto simp: expire_job_def split: if_splits)
  also have "\<dots> \<le> count_where (\<lambda>j. job_state j = Pending) js" by (rule count_retain)
  finally show ?thesis .
qed

section \<open>Interleavings\<close>

text \<open>
  The queue with who holds or wants a slot: the number of requests running at once, and the job
  ids of the workers that wait, that hold a slot but have not started, and that run.
\<close>

record sys =
  the_queue :: queue
  immediate :: nat
  waiting :: "string list"
  starting :: "string list"
  running :: "string list"

definition workers :: "sys \<Rightarrow> string list" where
  "workers s = waiting s @ starting s @ running s"

definition sys_new :: sys where
  "sys_new = \<lparr>the_queue = queue_new, immediate = 0, waiting = [], starting = [], running = []\<rparr>"

text \<open>
  \<open>N\<close> bounds the capacities in force. A new job's UUID is unused, a request ends only while it
  runs, and each worker does what its position allows.
\<close>

inductive queue_step :: "nat \<Rightarrow> sys \<Rightarrow> sys \<Rightarrow> bool" for N :: nat where
  run_now: "dispatch_begin lookup fmt v1 accs per uuid now op (the_queue s) = (RunNow, q) \<Longrightarrow> capacity_now accs per \<le> N \<Longrightarrow>
     queue_step N s (s\<lparr>the_queue := q, immediate := immediate s + 1\<rparr>)"
| queued: "dispatch_begin lookup fmt v1 accs per uuid now op (the_queue s) = (Queued r, q) \<Longrightarrow> capacity_now accs per \<le> N \<Longrightarrow>
     hm_get (jobs (the_queue s)) uuid = None \<Longrightarrow> uuid \<notin> set (workers s) \<Longrightarrow>
     queue_step N s (s\<lparr>the_queue := q, waiting := uuid # waiting s\<rparr>)"
| refused: "dispatch_begin lookup fmt v1 accs per uuid now op (the_queue s) = (Shed e, q) \<Longrightarrow>
     queue_step N s (s\<lparr>the_queue := q\<rparr>)"
| hit: "dispatch_begin lookup fmt v1 accs per uuid now op (the_queue s) = (Hit r, q) \<Longrightarrow>
     queue_step N s (s\<lparr>the_queue := q\<rparr>)"
| ended: "0 < immediate s \<Longrightarrow>
     queue_step N s (s\<lparr>the_queue := snd (dispatch_end fmt v1 op t out (the_queue s)), immediate := immediate s - 1\<rparr>)"
| stops: "w \<in> set (waiting s) \<Longrightarrow> worker_check w pool (the_queue s) = (Stop, q) \<Longrightarrow>
     queue_step N s (s\<lparr>the_queue := q, waiting := remove1 w (waiting s)\<rparr>)"
| waits: "w \<in> set (waiting s) \<Longrightarrow> worker_check w pool (the_queue s) = (Wait, q) \<Longrightarrow>
     queue_step N s (s\<lparr>the_queue := q\<rparr>)"
| goes: "w \<in> set (waiting s) \<Longrightarrow> worker_check w pool (the_queue s) = (Go, q) \<Longrightarrow> pool \<le> N \<Longrightarrow>
     queue_step N s (s\<lparr>the_queue := q, waiting := remove1 w (waiting s), starting := w # starting s\<rparr>)"
| starts: "w \<in> set (starting s) \<Longrightarrow> worker_begin w (the_queue s) = (True, q) \<Longrightarrow>
     queue_step N s (s\<lparr>the_queue := q, starting := remove1 w (starting s), running := w # running s\<rparr>)"
| gives_up: "w \<in> set (starting s) \<Longrightarrow> worker_begin w (the_queue s) = (False, q) \<Longrightarrow>
     queue_step N s (s\<lparr>the_queue := q, starting := remove1 w (starting s)\<rparr>)"
| finishes: "w \<in> set (running s) \<Longrightarrow>
     queue_step N s (s\<lparr>the_queue := worker_finish fmt v1 op w wt t now accounts out (the_queue s),
                        running := remove1 w (running s)\<rparr>)"
| polled: "queue_step N s (s\<lparr>the_queue := snd (get_playback_request pool now i (the_queue s))\<rparr>)"
| cancelled: "queue_step N s (s\<lparr>the_queue := snd (cancel_playback_request pool now i (the_queue s))\<rparr>)"
| cleared: "queue_step N s (s\<lparr>the_queue := snd (clear_playback_queue now (the_queue s))\<rparr>)"
| reaped: "queue_step N s (s\<lparr>the_queue := prune_queue now (the_queue s)\<rparr>)"
| forgotten: "queue_step N s (s\<lparr>the_queue := clear_cache (the_queue s)\<rparr>)"

inductive queue_reachable :: "nat \<Rightarrow> sys \<Rightarrow> bool" for N :: nat where
  initially: "queue_reachable N sys_new"
| after: "queue_reachable N s \<Longrightarrow> queue_step N s t \<Longrightarrow> queue_reachable N t"

section \<open>The invariant\<close>

text \<open>What the state of a job says about its fields and its worker.\<close>

definition job_ok :: "sys \<Rightarrow> string \<Rightarrow> job \<Rightarrow> bool" where
  "job_ok s i j \<longleftrightarrow> job_id j = i \<and>
     (case job_state j of
        Pending \<Rightarrow> i \<in> set (waiting s @ starting s) \<and> finished_at j = None
      | Processing \<Rightarrow> i \<in> set (running s) \<and> finished_at j = None
      | Completed \<Rightarrow> i \<notin> set (workers s) \<and> finished_at j \<noteq> None \<and> job_result j \<noteq> None
      | Failed \<Rightarrow> i \<notin> set (workers s) \<and> finished_at j \<noteq> None \<and> job_error j \<noteq> None \<and>
                  400 \<le> error_status j \<and> error_status j < 600
      | Cancelled \<Rightarrow> finished_at j \<noteq> None)"

definition jobs_ok :: "sys \<Rightarrow> bool" where
  "jobs_ok s \<longleftrightarrow> (\<forall>i j. hm_get (jobs (the_queue s)) i = Some j \<longrightarrow> job_ok s i j)"

definition queue_inv :: "nat \<Rightarrow> sys \<Rightarrow> bool" where
  "queue_inv N s \<longleftrightarrow> hm_wf (jobs (the_queue s)) \<and> distinct (workers s) \<and>
     q_inflight (the_queue s) = immediate s + length (starting s) + length (running s) \<and>
     q_inflight (the_queue s) \<le> max N 1 \<and>
     count_where (\<lambda>j. job_state j = Pending) (jobs (the_queue s)) \<le> max N 1 \<and> jobs_ok s"

text \<open>Steps that only touch the map of jobs, keeping each job sound.\<close>

definition sound_change :: "(job \<Rightarrow> job) \<Rightarrow> bool" where
  "sound_change f \<longleftrightarrow> (\<forall>s i j. job_ok s i j \<longrightarrow> job_ok s i (f j)) \<and>
     (\<forall>j. job_state (f j) = Pending \<longrightarrow> job_state j = Pending)"

lemma sound_expire: "sound_change (expire_job now)"
  by (auto simp: sound_change_def job_ok_def expire_job_def)

lemma sound_cancel: "sound_change (cancel_job now)"
  by (auto simp: sound_change_def job_ok_def cancel_job_def)

lemma sound_clear: "sound_change (clear_job now)"
  by (auto simp: sound_change_def job_ok_def clear_job_def)

lemma sound_poll: "sound_change (\<lambda>j. j\<lparr>last_polled_at := now\<rparr>)"
  by (simp add: sound_change_def job_ok_def cong: job_state.case_cong)

lemma inv_jobs_cong:
  assumes "queue_inv N s" "q_inflight q = q_inflight (the_queue s)" "hm_wf (jobs q)"
    and "count_where (\<lambda>j. job_state j = Pending) (jobs q) \<le> max N 1"
    and "\<And>i j. hm_get (jobs q) i = Some j \<Longrightarrow> job_ok s i j"
  shows "queue_inv N (s\<lparr>the_queue := q\<rparr>)"
proof -
  have "job_ok (s\<lparr>the_queue := q\<rparr>) i j = job_ok s i j" for i j
    by (simp add: job_ok_def workers_def cong: job_state.case_cong)
  with assms show ?thesis by (auto simp: queue_inv_def jobs_ok_def workers_def)
qed

lemma inv_prune: "queue_inv N s \<Longrightarrow> queue_inv N (s\<lparr>the_queue := prune_queue now (the_queue s)\<rparr>)"
proof (rule inv_jobs_cong)
  assume inv: "queue_inv N s"
  then have wf: "hm_wf (jobs (the_queue s))" by (simp add: queue_inv_def)
  show "hm_wf (jobs (prune_queue now (the_queue s)))" using wf by (simp add: prune_queue_def prune_wf)
  show "count_where (\<lambda>j. job_state j = Pending) (jobs (prune_queue now (the_queue s))) \<le> max N 1"
    using inv count_prune [of now "jobs (the_queue s)"] by (simp add: queue_inv_def prune_queue_def)
  show "job_ok s i j" if "hm_get (jobs (prune_queue now (the_queue s))) i = Some j" for i j
    using that inv sound_expire [of now]
    by (auto simp: prune_queue_def hm_get_prune wf queue_inv_def jobs_ok_def sound_change_def
        split: option.splits if_splits)
qed (simp_all add: prune_queue_def)

lemma inv_insert:
  assumes "queue_inv N s" "hm_get (jobs (the_queue s)) i = Some j" "job_ok s i j'"
    and "job_state j' = Pending \<Longrightarrow> job_state j = Pending"
  shows "queue_inv N (s\<lparr>the_queue := (the_queue s)\<lparr>jobs := hm_insert i j' (jobs (the_queue s))\<rparr>\<rparr>)"
proof (rule inv_jobs_cong [OF assms(1)])
  have wf: "hm_wf (jobs (the_queue s))" using assms(1) by (simp add: queue_inv_def)
  then show "hm_wf (jobs ((the_queue s)\<lparr>jobs := hm_insert i j' (jobs (the_queue s))\<rparr>))"
    by (simp add: hm_wf_insert)
  show "count_where (\<lambda>j. job_state j = Pending) (jobs ((the_queue s)\<lparr>jobs := hm_insert i j' (jobs (the_queue s))\<rparr>)) \<le> max N 1"
    using count_insert [OF wf, of "\<lambda>j. job_state j = Pending" i j'] assms(1,2,4)
    by (auto simp: queue_inv_def of_bool_def split: if_splits)
  show "job_ok s k jk" if "hm_get (jobs ((the_queue s)\<lparr>jobs := hm_insert i j' (jobs (the_queue s))\<rparr>)) k = Some jk" for k jk
    using that assms(1,3) by (auto simp: hm_get_update queue_inv_def jobs_ok_def split: if_splits)
qed simp

section \<open>Every step keeps the invariant\<close>

lemma dispatch_cases:
  assumes "dispatch_begin lookup fmt v1 accs per uuid now op q0 = (r, q')"
  obtains (Run) "r = RunNow" "q' = (prune_queue now q0)\<lparr>q_inflight := q_inflight q0 + 1\<rparr>"
      "q_inflight q0 < max (capacity_now accs per) 1"
  | (Shed) pending where "r = Shed (queue_full pending (capacity_now accs per))" "q' = prune_queue now q0"
      "pending = length (pending_jobs (prune_queue now q0))" "over_capacity pending (capacity_now accs per)"
  | (Queued) resp where "r = Queued resp"
      "q' = (prune_queue now q0)\<lparr>jobs := hm_insert uuid (new_job uuid now) (jobs (prune_queue now q0))\<rparr>"
      "\<not> over_capacity (length (pending_jobs (prune_queue now q0))) (capacity_now accs per)"
      "resp = pending_response uuid (pending_position uuid q') accs (q_inflight q')"
      "max (capacity_now accs per) 1 \<le> q_inflight q0"
  | (Hit) resp key res where "r = Hit resp" "cache_key op fmt v1 = Some key" "lookup (results q0) key = Some res"
      "resp = (job_result_response res)\<lparr>r_headers := r_headers (job_result_response res) @ [(''X-Cache'', ''HIT'')]\<rparr>"
      "q' = (prune_queue now q0)\<lparr>cache_hits := cache_hits q0 + 1\<rparr>"
proof (cases "Option.bind (cache_key op fmt v1) (lookup (results (prune_queue now q0)))")
  case (Some res)
  then obtain key where k: "cache_key op fmt v1 = Some key" "lookup (results (prune_queue now q0)) key = Some res"
    by (auto simp: bind_eq_Some_conv)
  show ?thesis
    by (rule Hit [of _ key res]) (use assms Some k in \<open>auto simp: dispatch_begin_def Let_def prune_queue_def\<close>)
next
  case None
  let ?q = "prune_queue now q0" and ?pool = "capacity_now accs per"
  have fl: "q_inflight ?q = q_inflight q0" by (simp add: prune_queue_def)
  show ?thesis
  proof (cases "q_inflight q0 < max ?pool 1")
    case True
    then have "try_acquire ?pool ?q = (True, ?q\<lparr>q_inflight := q_inflight q0 + 1\<rparr>)"
      using fl by (auto simp: try_acquire_def not_le)
    with assms None have "(r, q') = (RunNow, ?q\<lparr>q_inflight := q_inflight q0 + 1\<rparr>)"
      by (simp add: dispatch_begin_def Let_def)
    with True show ?thesis by (intro Run) simp_all
  next
    case False
    then have ta: "try_acquire ?pool ?q = (False, ?q)"
      using fl by (simp add: try_acquire_def not_less)
    show ?thesis
    proof (cases "over_capacity (length (pending_jobs ?q)) ?pool")
      case True
      from assms None ta True have "r = Shed (queue_full (length (pending_jobs ?q)) ?pool)" "q' = ?q"
        by (auto simp: dispatch_begin_def Let_def)
      then show ?thesis by (rule Shed [OF _ _ refl True])
    next
      case no: False
      from assms None ta no have q': "q' = ?q\<lparr>jobs := hm_insert uuid (new_job uuid now) (jobs ?q)\<rparr>"
        and r: "r = Queued (pending_response uuid (pending_position uuid q') accs (q_inflight q'))"
        by (auto simp: dispatch_begin_def Let_def)
      from False have "max ?pool 1 \<le> q_inflight q0" by (simp only: not_less)
      with r q' no show ?thesis by (intro Queued [OF r q' no refl])
    qed
  qed
qed

lemma queue_limit_le: "queue_limit pool \<le> max pool 1"
  using sat_mul_u64_le [of "max pool 1" 1]
  by (simp add: queue_limit_def usize_sat_mul_def MAX_QUEUE_FACTOR_def)

lemma inv_new: "queue_inv N sys_new"
  by (simp add: queue_inv_def sys_new_def queue_new_def workers_def jobs_ok_def count_where_def)

lemma inv_same_jobs:
  assumes "queue_inv N s" "jobs q = jobs (the_queue s)"
    and "q_inflight q = n + length S + length R" "q_inflight q \<le> max N 1" "distinct (W @ S @ R)"
    and "\<And>i j. hm_get (jobs q) i = Some j \<Longrightarrow> job_ok s i j \<Longrightarrow>
      job_ok \<lparr>the_queue = q, immediate = n, waiting = W, starting = S, running = R\<rparr> i j"
  shows "queue_inv N \<lparr>the_queue = q, immediate = n, waiting = W, starting = S, running = R\<rparr>"
  using assms by (auto simp: queue_inv_def jobs_ok_def workers_def)

lemma job_ok_cong:
  assumes "job_ok s i j" "set (waiting s @ starting s) = set (W @ S)" "running s = R"
  shows "job_ok \<lparr>the_queue = q, immediate = n, waiting = W, starting = S, running = R\<rparr> i j"
  using assms unfolding job_ok_def workers_def by (cases "job_state j") auto

lemma step_run_now:
  assumes "queue_inv N s" "dispatch_begin lookup fmt v1 accs per uuid now op (the_queue s) = (RunNow, q)"
    and "capacity_now accs per \<le> N"
  shows "queue_inv N (s\<lparr>the_queue := q, immediate := immediate s + 1\<rparr>)"
  using assms(2)
proof (cases rule: dispatch_cases)
  case Run
  let ?s = "s\<lparr>the_queue := prune_queue now (the_queue s)\<rparr>"
  have inv: "queue_inv N ?s" by (rule inv_prune [OF assms(1)])
  obtain q0 n W S R where s: "s = \<lparr>the_queue = q0, immediate = n, waiting = W, starting = S, running = R\<rparr>"
    by (cases s)
  from inv Run assms(3) have "queue_inv N \<lparr>the_queue = q, immediate = n + 1, waiting = W, starting = S, running = R\<rparr>"
    by (intro inv_same_jobs [OF inv]) (auto simp: s queue_inv_def workers_def prune_queue_def intro: job_ok_cong)
  then show ?thesis by (simp add: s)
qed simp_all

lemma step_queued:
  assumes "queue_inv N s" "dispatch_begin lookup fmt v1 accs per uuid now op (the_queue s) = (Queued r, q)"
    and "capacity_now accs per \<le> N" "hm_get (jobs (the_queue s)) uuid = None" "uuid \<notin> set (workers s)"
  shows "queue_inv N (s\<lparr>the_queue := q, waiting := uuid # waiting s\<rparr>)"
  using assms(2)
proof (cases rule: dispatch_cases)
  case (Queued resp)
  let ?s = "s\<lparr>the_queue := prune_queue now (the_queue s)\<rparr>"
  let ?js = "jobs (prune_queue now (the_queue s))"
  let ?t = "s\<lparr>the_queue := q, waiting := uuid # waiting s\<rparr>"
  have inv: "queue_inv N ?s" by (rule inv_prune [OF assms(1)])
  then have wf: "hm_wf ?js" by (simp add: queue_inv_def)
  have none: "hm_get ?js uuid = None"
    using assms(1,4) by (simp add: prune_queue_def hm_get_prune queue_inv_def)
  have jobs: "jobs q = hm_insert uuid (new_job uuid now) ?js" and fl: "q_inflight q = q_inflight (the_queue s)"
    using Queued(2) by (simp_all add: prune_queue_def)
  have "count_where (\<lambda>j. job_state j = Pending) (jobs q) = Suc (count_where (\<lambda>j. job_state j = Pending) ?js)"
    using count_insert [OF wf, of "\<lambda>j. job_state j = Pending" uuid "new_job uuid now"] none
    by (simp add: jobs new_job_def)
  moreover have "count_where (\<lambda>j. job_state j = Pending) ?js < max N 1"
    using Queued(3) queue_limit_le [of "capacity_now accs per"] assms(3)
    by (auto simp: over_capacity_def pending_count)
  moreover have "job_ok ?t i j" if "hm_get (jobs q) i = Some j" for i j
  proof (cases "i = uuid")
    case True
    with that have "j = new_job uuid now" by (simp add: jobs hm_get_update)
    with True show ?thesis by (simp add: new_job_def job_ok_def)
  next
    case False
    with that inv have "job_ok ?s i j" by (auto simp: jobs hm_get_update queue_inv_def jobs_ok_def)
    with False show ?thesis by (cases "job_state j") (auto simp: job_ok_def workers_def)
  qed
  ultimately show ?thesis
    using assms(1,5) wf by (auto simp: queue_inv_def jobs_ok_def workers_def fl jobs hm_wf_insert)
qed simp_all

lemma inv_cong:
  assumes "queue_inv N s" "jobs q = jobs (the_queue s)" "q_inflight q = q_inflight (the_queue s)"
  shows "queue_inv N (s\<lparr>the_queue := q\<rparr>)"
  by (rule inv_jobs_cong [OF assms(1,3)]) (use assms in \<open>auto simp: queue_inv_def jobs_ok_def\<close>)

lemma step_hit:
  assumes "queue_inv N s" "dispatch_begin lookup fmt v1 accs per uuid now op (the_queue s) = (r, q)"
    and "case r of Hit _ \<Rightarrow> True | Shed _ \<Rightarrow> True | _ \<Rightarrow> False"
  shows "queue_inv N (s\<lparr>the_queue := q\<rparr>)"
  using assms(2)
proof (cases rule: dispatch_cases)
  case (Hit resp key res)
  have "queue_inv N (s\<lparr>the_queue := prune_queue now (the_queue s)\<rparr>)" by (rule inv_prune [OF assms(1)])
  from inv_cong [OF this, of q] Hit(5) show ?thesis by simp
next
  case (Shed pending)
  with inv_prune [OF assms(1)] show ?thesis by simp
qed (use assms(3) in simp_all)

lemma timing_cache_simps [simp]:
  "jobs (record_timing op ok w t q) = jobs q" "q_inflight (record_timing op ok w t q) = q_inflight q"
  "jobs (cache_outcome k out q) = jobs q" "q_inflight (cache_outcome k out q) = q_inflight q"
  "jobs (release q) = jobs q" "q_inflight (release q) = q_inflight q - 1"
  by (auto simp: record_timing_def cache_outcome_def release_def split: option.splits outcome.splits)

lemma step_ended:
  assumes "queue_inv N s" "0 < immediate s"
  shows "queue_inv N (s\<lparr>the_queue := snd (dispatch_end fmt v1 op t out (the_queue s)), immediate := immediate s - 1\<rparr>)"
proof -
  obtain q0 n W S R where s: "s = \<lparr>the_queue = q0, immediate = n, waiting = W, starting = S, running = R\<rparr>"
    by (cases s)
  from assms have "queue_inv N \<lparr>the_queue = snd (dispatch_end fmt v1 op t out q0), immediate = n - 1,
      waiting = W, starting = S, running = R\<rparr>"
    by (intro inv_same_jobs [OF assms(1)])
       (auto simp: s queue_inv_def workers_def dispatch_end_def Let_def intro: job_ok_cong)
  then show ?thesis by (simp add: s)
qed

text \<open>The worker's rounds.\<close>

lemma worker_check_cases:
  assumes "worker_check w pool q0 = (r, q)"
  shows "jobs q = jobs q0 \<and> (case r of
      Stop \<Rightarrow> q = q0 \<and> (case hm_get (jobs q0) w of Some j \<Rightarrow> job_state j = Cancelled | None \<Rightarrow> True)
    | Wait \<Rightarrow> q = q0
    | Go \<Rightarrow> q_inflight q = q_inflight q0 + 1 \<and> q_inflight q0 < max pool 1)"
  using assms by (auto simp: worker_check_def try_acquire_def split: option.splits if_splits)

lemma step_check:
  assumes "queue_inv N s" "w \<in> set (waiting s)" "worker_check w pool (the_queue s) = (r, q)" "pool \<le> N"
  shows "r = Go \<Longrightarrow> queue_inv N (s\<lparr>the_queue := q, waiting := remove1 w (waiting s), starting := w # starting s\<rparr>)"
    and "r = Stop \<Longrightarrow> queue_inv N (s\<lparr>the_queue := q, waiting := remove1 w (waiting s)\<rparr>)"
proof -
  obtain q0 n W S R where s: "s = \<lparr>the_queue = q0, immediate = n, waiting = W, starting = S, running = R\<rparr>"
    by (cases s)
  note c = worker_check_cases [OF assms(3)]
  have d: "distinct (W @ S @ R)" "w \<in> set W" using assms(1,2) by (simp_all add: queue_inv_def workers_def s)
  show "queue_inv N (s\<lparr>the_queue := q, waiting := remove1 w (waiting s), starting := w # starting s\<rparr>)" if "r = Go"
  proof -
    have "queue_inv N \<lparr>the_queue = q, immediate = n, waiting = remove1 w W, starting = w # S, running = R\<rparr>"
    proof (rule inv_same_jobs [OF assms(1)])
      show "job_ok \<lparr>the_queue = q, immediate = n, waiting = remove1 w W, starting = w # S, running = R\<rparr> i j"
        if "job_ok s i j" for i j
        using that d by (intro job_ok_cong [OF that]) (auto simp: s)
    qed (use c that assms(1,4) d in \<open>auto simp: s queue_inv_def dest: notin_set_remove1\<close>)
    then show ?thesis by (simp add: s)
  qed
  show "queue_inv N (s\<lparr>the_queue := q, waiting := remove1 w (waiting s)\<rparr>)" if "r = Stop"
  proof -
    have "queue_inv N \<lparr>the_queue = q, immediate = n, waiting = remove1 w W, starting = S, running = R\<rparr>"
    proof (rule inv_same_jobs [OF assms(1)])
      fix i j assume g: "hm_get (jobs q) i = Some j" and ok: "job_ok s i j"
      have "job_state j = Cancelled" if "i = w" using c \<open>r = Stop\<close> g that by (simp add: s)
      with ok show "job_ok \<lparr>the_queue = q, immediate = n, waiting = remove1 w W, starting = S, running = R\<rparr> i j"
        using d by (cases "job_state j"; cases "i = w") (auto simp: job_ok_def workers_def s dest: notin_set_remove1)
    qed (use c that assms(1) d in \<open>auto simp: s queue_inv_def dest: notin_set_remove1\<close>)
    then show ?thesis by (simp add: s)
  qed
qed

lemma step_begin:
  assumes "queue_inv N s" "w \<in> set (starting s)" "worker_begin w (the_queue s) = (b, q)"
  shows "b \<Longrightarrow> queue_inv N (s\<lparr>the_queue := q, starting := remove1 w (starting s), running := w # running s\<rparr>)"
    and "\<not> b \<Longrightarrow> queue_inv N (s\<lparr>the_queue := q, starting := remove1 w (starting s)\<rparr>)"
proof -
  obtain q0 n W S R where s: "s = \<lparr>the_queue = q0, immediate = n, waiting = W, starting = S, running = R\<rparr>"
    by (cases s)
  have d: "distinct (W @ S @ R)" "w \<in> set S" using assms(1,2) by (simp_all add: queue_inv_def workers_def s)
  have len: "length S = Suc (length (remove1 w S))"
    using d(2) length_pos_if_in_set [of w S] by (simp add: length_remove1)
  have ok: "job_ok s i j" if "hm_get (jobs q0) i = Some j" for i j
    using assms(1) that by (auto simp: queue_inv_def jobs_ok_def s)
  have wf: "hm_wf (jobs q0)" using assms(1) by (simp add: queue_inv_def s)
  show "queue_inv N (s\<lparr>the_queue := q, starting := remove1 w (starting s), running := w # running s\<rparr>)" if b
  proof -
    from that assms(3) obtain j where j: "hm_get (jobs q0) w = Some j" "job_state j \<noteq> Cancelled"
      and q: "q = q0\<lparr>jobs := hm_insert w (j\<lparr>job_state := Processing\<rparr>) (jobs q0)\<rparr>"
      by (auto simp: worker_begin_def s split: option.splits if_splits)
    have pend: "job_state j = Pending"
      using ok [OF j(1)] j(2) d by (cases "job_state j") (auto simp: job_ok_def workers_def s)
    let ?t = "\<lparr>the_queue = q, immediate = n, waiting = W, starting = remove1 w S, running = w # R\<rparr>"
    have "job_ok ?t i k" if "hm_get (jobs q) i = Some k" for i k
    proof (cases "i = w")
      case True
      with that ok [OF j(1)] pend show ?thesis by (auto simp: q hm_get_update job_ok_def)
    next
      case False
      with that ok have "job_ok s i k" by (simp add: q hm_get_update)
      with False show ?thesis
        by (cases "job_state k") (auto simp: job_ok_def workers_def s dest: notin_set_remove1)
    qed
    moreover have "count_where (\<lambda>j. job_state j = Pending) (jobs q) \<le> max N 1"
      using count_insert [OF wf, of "\<lambda>j. job_state j = Pending" w "j\<lparr>job_state := Processing\<rparr>"] j assms(1)
      by (auto simp: q queue_inv_def s pend)
    ultimately have "queue_inv N ?t"
      using assms(1) d len wf
      by (auto simp: queue_inv_def jobs_ok_def workers_def s q hm_wf_insert dest: notin_set_remove1)
    then show ?thesis by (simp add: s)
  qed
  show "queue_inv N (s\<lparr>the_queue := q, starting := remove1 w (starting s)\<rparr>)" if "\<not> b"
  proof -
    from that assms(3) have q: "q = release q0"
      and gone: "case hm_get (jobs q0) w of Some j \<Rightarrow> job_state j = Cancelled | None \<Rightarrow> True"
      by (auto simp: worker_begin_def s split: option.splits if_splits)
    have "queue_inv N \<lparr>the_queue = q, immediate = n, waiting = W, starting = remove1 w S, running = R\<rparr>"
    proof (rule inv_same_jobs [OF assms(1)])
      fix i j assume g: "hm_get (jobs q) i = Some j" and o: "job_ok s i j"
      have "job_state j = Cancelled" if "i = w" using gone g that by (simp add: q)
      with o show "job_ok \<lparr>the_queue = q, immediate = n, waiting = W, starting = remove1 w S, running = R\<rparr> i j"
        using d by (cases "job_state j"; cases "i = w") (auto simp: job_ok_def workers_def s dest: notin_set_remove1)
    qed (use assms(1) d len in \<open>auto simp: s q queue_inv_def dest: notin_set_remove1\<close>)
    then show ?thesis by (simp add: s)
  qed
qed

lemma finish_job_fields:
  "job_id (finish_job now accs out j) = job_id j"
  "job_state j \<noteq> Cancelled \<Longrightarrow> job_state (finish_job now accs out j) = (case out of Done _ \<Rightarrow> Completed | _ \<Rightarrow> Failed)
     \<and> finished_at (finish_job now accs out j) = Some now"
  "job_state j = Cancelled \<Longrightarrow> finish_job now accs out j = j\<lparr>job_accounts := accs\<rparr>"
  by (auto simp: finish_job_def Let_def split: outcome.splits)

lemma finish_job_ok:
  assumes "job_ok s i j" "i \<notin> set (workers t)" "i \<in> set (running s)" "distinct (workers s)"
  shows "job_ok t i (finish_job now accs out j)"
proof (cases "job_state j = Cancelled")
  case True
  with assms(1) show ?thesis by (simp add: finish_job_fields job_ok_def)
next
  case False
  have "job_result j' \<noteq> None" if "out = Done r" "j' = finish_job now accs out j" for r j'
    using that False by (simp add: finish_job_def Let_def)
  moreover have "job_error (finish_job now accs out j) \<noteq> None \<and> 400 \<le> error_status (finish_job now accs out j)
      \<and> error_status (finish_job now accs out j) < 600" if "\<nexists>r. out = Done r"
    using that False status_range by (cases out) (auto simp: finish_job_def Let_def app_error_parts_def)
  ultimately show ?thesis
    using False assms(1,2) finish_job_fields(1,2) [where now = now and accs = accs and out = out and j = j]
    by (cases out) (auto simp: job_ok_def)
qed

lemma step_finish:
  assumes "queue_inv N s" "w \<in> set (running s)"
  shows "queue_inv N (s\<lparr>the_queue := worker_finish fmt v1 op w wt t now accs out (the_queue s),
      running := remove1 w (running s)\<rparr>)"
proof -
  obtain q0 n W S R where s: "s = \<lparr>the_queue = q0, immediate = n, waiting = W, starting = S, running = R\<rparr>"
    by (cases s)
  have d: "distinct (W @ S @ R)" "w \<in> set R" using assms by (simp_all add: queue_inv_def workers_def s)
  have len: "length R = Suc (length (remove1 w R))"
    using d(2) length_pos_if_in_set [of w R] by (simp add: length_remove1)
  have wf: "hm_wf (jobs q0)" using assms(1) by (simp add: queue_inv_def s)
  let ?q = "worker_finish fmt v1 op w wt t now accs out q0"
  let ?t = "\<lparr>the_queue = ?q, immediate = n, waiting = W, starting = S, running = remove1 w R\<rparr>"
  have fl: "q_inflight ?q = q_inflight q0 - 1"
    by (auto simp: worker_finish_def Let_def split: option.splits)
  have jobs: "jobs ?q = (case hm_get (jobs q0) w of None \<Rightarrow> jobs q0
      | Some j \<Rightarrow> hm_insert w (finish_job now accs out j) (jobs q0))"
    by (auto simp: worker_finish_def Let_def split: option.splits)
  have ok: "job_ok s i j" if "hm_get (jobs q0) i = Some j" for i j
    using assms(1) that by (auto simp: queue_inv_def jobs_ok_def s)
  have "w \<notin> set (workers ?t)" using d by (auto simp: workers_def)
  then have fin: "job_ok ?t w (finish_job now accs out j)" if "hm_get (jobs q0) w = Some j" for j
    using ok [OF that] d by (intro finish_job_ok [of s]) (auto simp: s workers_def)
  have "job_ok ?t i k" if "hm_get (jobs ?q) i = Some k" for i k
  proof (cases "i = w")
    case True
    with that fin show ?thesis by (auto simp: jobs hm_get_update split: option.splits)
  next
    case False
    with that ok have "job_ok s i k" by (auto simp: jobs hm_get_update split: option.splits)
    with False show ?thesis
      by (cases "job_state k") (auto simp: job_ok_def workers_def s dest: notin_set_remove1)
  qed
  moreover have "count_where (\<lambda>j. job_state j = Pending) (jobs ?q) \<le> max N 1"
  proof (cases "hm_get (jobs q0) w")
    case (Some j)
    have "job_state (finish_job now accs out j) \<noteq> Pending"
      using finish_job_fields [where now = now and accs = accs and out = out and j = j] by (cases out; cases "job_state j = Cancelled") auto
    with Some show ?thesis
      using count_insert [OF wf, of "\<lambda>j. job_state j = Pending" w "finish_job now accs out j"] assms(1)
      by (auto simp: jobs queue_inv_def s)
  qed (use assms(1) in \<open>auto simp: jobs queue_inv_def s\<close>)
  ultimately have "queue_inv N ?t"
    using assms(1) d len wf fl
    by (auto simp: queue_inv_def jobs_ok_def workers_def s jobs hm_wf_insert dest: notin_set_remove1 split: option.splits)
  then show ?thesis by (simp add: s)
qed

text \<open>The steps that only touch jobs.\<close>

lemma step_polled: "queue_inv N s \<Longrightarrow> queue_inv N (s\<lparr>the_queue := snd (get_playback_request pool now i (the_queue s))\<rparr>)"
proof -
  assume inv: "queue_inv N s"
  let ?q = "prune_queue now (the_queue s)"
  note p = inv_prune [OF inv, of now]
  have q: "snd (get_playback_request pool now i (the_queue s)) = poll_job now i (the_queue s)"
    by (simp add: get_playback_request_def Let_def)
  show ?thesis
  proof (cases "hm_get (jobs ?q) i")
    case None
    then show ?thesis using p by (simp add: q poll_job_def Let_def)
  next
    case (Some j)
    have "job_ok (s\<lparr>the_queue := ?q\<rparr>) i (j\<lparr>last_polled_at := now\<rparr>)"
      using p Some sound_poll [of now] by (auto simp: queue_inv_def jobs_ok_def sound_change_def)
    with inv_insert [OF p, of i j "j\<lparr>last_polled_at := now\<rparr>"] p Some show ?thesis
      by (simp add: q poll_job_def Let_def)
  qed
qed

lemma step_cancelled:
  "queue_inv N s \<Longrightarrow> queue_inv N (s\<lparr>the_queue := snd (cancel_playback_request pool now i (the_queue s))\<rparr>)"
proof -
  assume inv: "queue_inv N s"
  let ?q = "prune_queue now (the_queue s)"
  note p = inv_prune [OF inv, of now]
  show ?thesis
  proof (cases "hm_get (jobs ?q) i")
    case None
    then show ?thesis using p by (simp add: cancel_playback_request_def Let_def)
  next
    case (Some j)
    have "job_ok (s\<lparr>the_queue := ?q\<rparr>) i (cancel_job now j)"
      "job_state (cancel_job now j) = Pending \<Longrightarrow> job_state j = Pending"
      using p Some sound_cancel [of now] by (auto simp: queue_inv_def jobs_ok_def sound_change_def)
    with inv_insert [OF p, of i j "cancel_job now j"] Some show ?thesis
      by (simp add: cancel_playback_request_def Let_def)
  qed
qed

lemma step_cleared:
  "queue_inv N s \<Longrightarrow> queue_inv N (s\<lparr>the_queue := snd (clear_playback_queue now (the_queue s))\<rparr>)"
proof -
  assume inv: "queue_inv N s"
  let ?s = "s\<lparr>the_queue := prune_queue now (the_queue s)\<rparr>"
  have p: "queue_inv N ?s" by (rule inv_prune [OF inv])
  let ?q = "snd (clear_playback_queue now (the_queue s))"
  have jobs: "jobs ?q = hm_values_mut (clear_job now) (jobs (the_queue ?s))"
    by (simp add: clear_playback_queue_def Let_def)
  have "queue_inv N (?s\<lparr>the_queue := ?q\<rparr>)"
  proof (rule inv_jobs_cong [OF p])
    show "q_inflight ?q = q_inflight (the_queue ?s)" by (simp add: clear_playback_queue_def Let_def)
    show "hm_wf (jobs ?q)" using p by (simp add: jobs queue_inv_def)
    have "count_where (\<lambda>j. job_state j = Pending) (jobs ?q) \<le> count_where (\<lambda>j. job_state j = Pending) (jobs (the_queue ?s))"
      unfolding jobs by (rule count_values_mut) (auto simp: clear_job_def split: if_splits)
    then show "count_where (\<lambda>j. job_state j = Pending) (jobs ?q) \<le> max N 1" using p by (simp add: queue_inv_def)
    show "job_ok ?s i j" if "hm_get (jobs ?q) i = Some j" for i j
      using that p sound_clear [of now]
      by (auto simp: jobs hm_get_values_mut queue_inv_def jobs_ok_def sound_change_def)
  qed
  then show ?thesis by simp
qed

lemma inv_step: "queue_step N s t \<Longrightarrow> queue_inv N s \<Longrightarrow> queue_inv N t"
proof (induction rule: queue_step.induct)
  case (run_now lookup fmt v1 accs per uuid now op s q)
  then show ?case by (intro step_run_now)
next
  case (queued lookup fmt v1 accs per uuid now op s r q)
  then show ?case by (intro step_queued)
next
  case (refused lookup fmt v1 accs per uuid now op s e q)
  then show ?case by (auto intro: step_hit)
next
  case (hit lookup fmt v1 accs per uuid now op s r q)
  then show ?case by (auto intro: step_hit)
next
  case (waits w s pool q)
  then show ?case using worker_check_cases [of w pool "the_queue s" Wait q] by simp
next
  case (stops w s pool q)
  have "worker_check w 0 (the_queue s) = (Stop, q)"
    using stops(2) by (auto simp: worker_check_def try_acquire_def split: option.splits if_splits)
  with stops show ?case using step_check(2) [of N s w 0] by simp
next
  case (ended s fmt v1 op t out)
  then show ?case by (intro step_ended)
next
  case (gives_up w s q)
  then show ?case using step_begin(2) [of N s w False q] by simp
next
  case (forgotten s)
  then show ?case by (intro inv_cong) (simp_all add: clear_cache_def)
qed (simp_all add: step_check step_begin step_finish step_polled step_cancelled step_cleared inv_prune)

lemma inv_reachable: "queue_reachable N s \<Longrightarrow> queue_inv N s"
  by (induction rule: queue_reachable.induct) (auto intro: inv_new inv_step)

text \<open>
  C36. Slots are neither leaked nor exceeded: in every reachable state the in-flight counter is
  exactly the number of requests and workers that hold a slot, it never passes the largest
  capacity in force, and no more jobs are pending than the backpressure limit allows.
\<close>

theorem slots_accounted:
  assumes "queue_reachable N s"
  shows "q_inflight (the_queue s) = immediate s + length (starting s) + length (running s)
    \<and> q_inflight (the_queue s) \<le> max N 1
    \<and> length (pending_jobs (the_queue s)) \<le> max N 1"
  using inv_reachable [OF assms] by (simp add: queue_inv_def pending_count)


section \<open>Jobs only move forward\<close>

text \<open>
  \<open>job_after\<close>: identity and creation time stay, a job that started does not become pending
  again, and a finished job is frozen (only the accounts a late worker used are filled in).
\<close>

definition frozen :: "job \<Rightarrow> job \<Rightarrow> bool" where
  "frozen j j' \<longleftrightarrow> j' = j\<lparr>job_accounts := job_accounts j'\<rparr>"

definition job_after :: "job \<Rightarrow> job \<Rightarrow> bool" where
  "job_after j j' \<longleftrightarrow> job_id j' = job_id j \<and> job_created_at j' = job_created_at j \<and>
     (case job_state j of
        Pending \<Rightarrow> True
      | Processing \<Rightarrow> job_state j' \<noteq> Pending
      | _ \<Rightarrow> frozen j j')"

text \<open>What may become of a job in the map; it disappears only when it is over.\<close>

definition job_later :: "job \<Rightarrow> job option \<Rightarrow> bool" where
  "job_later j r \<longleftrightarrow> (case r of Some j' \<Rightarrow> job_after j j' | None \<Rightarrow> finished_at j \<noteq> None)"

lemma job_after_refl [simp]: "job_after j j"
  by (simp add: job_after_def frozen_def split: job_state.split)

lemma job_after_Pending: "job_state j = Pending \<Longrightarrow> job_id j' = job_id j \<Longrightarrow>
    job_created_at j' = job_created_at j \<Longrightarrow> job_after j j'"
  by (simp add: job_after_def)

lemma frozen_state: "frozen j k \<Longrightarrow> job_state k = job_state j"
  unfolding frozen_def by (metis job.select_convs(2) job.surjective job.update_convs(10))

lemma frozen_trans: "frozen j k \<Longrightarrow> frozen k l \<Longrightarrow> frozen j l"
  unfolding frozen_def by (cases j; cases k; cases l) simp

lemma job_after_trans: "job_after j k \<Longrightarrow> job_after k l \<Longrightarrow> job_after j l"
  using frozen_state [of j k] frozen_state [of k l] frozen_trans [of j k l]
  by (cases "job_state j"; cases "job_state k") (simp_all add: job_after_def)

lemma after_expire: "job_after j (expire_job now j)"
  by (auto simp: expire_job_def intro: job_after_Pending)

lemma after_live: "job_state j = Pending \<or> job_state j = Processing \<Longrightarrow> job_id j' = job_id j \<Longrightarrow>
    job_created_at j' = job_created_at j \<Longrightarrow> job_state j' \<noteq> Pending \<or> job_state j' = job_state j \<Longrightarrow> job_after j j'"
  by (auto simp: job_after_def)

lemma after_cancel: "job_after j (cancel_job now j)" and after_clear: "job_after j (clear_job now j)"
  by (auto simp: cancel_job_def clear_job_def intro: after_live)

lemma later_prune:
  assumes "hm_wf (jobs q)" "hm_get (jobs q) i = Some j"
  shows "job_later j (hm_get (jobs (prune_queue now q)) i)"
  using assms after_expire [of j now]
  by (auto simp: job_later_def prune_queue_def hm_get_prune keep_job_def split: option.splits)

lemma later_after: "job_later j (Some k) \<Longrightarrow> job_after k l \<Longrightarrow> job_later j (Some l)"
  by (auto simp: job_later_def intro: job_after_trans)

lemma after_finish: "job_state j = Processing \<or> job_state j = Cancelled \<Longrightarrow> job_after j (finish_job now accs out j)"
proof (elim disjE)
  assume "job_state j = Processing"
  moreover have "job_created_at (finish_job now accs out j) = job_created_at j"
    by (auto simp: finish_job_def Let_def split: outcome.splits)
  ultimately show ?thesis
    using finish_job_fields [where now = now and accs = accs and out = out and j = j]
    by (intro after_live) (auto split: outcome.splits)
next
  assume "job_state j = Cancelled"
  then show ?thesis by (simp add: finish_job_fields job_after_def frozen_def)
qed

lemma later_same: "job_later j (Some j)"
  by (simp add: job_later_def)

text \<open>
  Jobs only move forward: in every step from a reachable state a job keeps its identity, a
  started one never becomes pending again, a finished one keeps its state, result and error,
  and only jobs that are over ever disappear.
\<close>

lemma jobs_move_forward:
  assumes "queue_reachable N s" "queue_step N s t" "hm_get (jobs (the_queue s)) i = Some j"
  shows "case hm_get (jobs (the_queue t)) i of
           Some j' \<Rightarrow> job_after j j'
         | None \<Rightarrow> finished_at j \<noteq> None"
proof -
  have inv: "queue_inv N s" by (rule inv_reachable [OF assms(1)])
  then have wf: "hm_wf (jobs (the_queue s))" and ok: "job_ok s i j"
    using assms(3) by (auto simp: queue_inv_def jobs_ok_def)
  have dist: "distinct (workers s)" using inv by (simp add: queue_inv_def)
  note pruned = later_prune [OF wf assms(3)]
  have "job_later j (hm_get (jobs (the_queue t)) i)"
    using assms(2)
  proof cases
    case (run_now lookup fmt v1 accs per uuid now op q)
    from run_now(2) show ?thesis
      by (cases rule: dispatch_cases) (use pruned [of now] run_now(1) in simp_all)
  next
    case (queued lookup fmt v1 accs per uuid now op r q)
    from queued(2) show ?thesis
    proof (cases rule: dispatch_cases)
      case (Queued resp)
      have "uuid \<noteq> i" using queued(4) assms(3) by auto
      then show ?thesis using pruned [of now] queued(1) Queued(2) by (simp add: hm_get_update)
    qed simp_all
  next
    case (refused lookup fmt v1 accs per uuid now op e q)
    from refused(2) show ?thesis
      by (cases rule: dispatch_cases) (use pruned [of now] refused(1) in simp_all)
  next
    case (hit lookup fmt v1 accs per uuid now op r q)
    from hit(2) show ?thesis
      by (cases rule: dispatch_cases) (use pruned [of now] hit(1) in simp_all)
  next
    case (ended fmt v1 op el out)
    then show ?thesis using assms(3) later_same by (simp add: dispatch_end_def Let_def)
  next
    case (stops w pool q)
    then show ?thesis using assms(3) later_same worker_check_cases [OF stops(3)] by simp
  next
    case (waits w pool q)
    then show ?thesis using assms(3) later_same worker_check_cases [OF waits(3)] by simp
  next
    case (goes w pool q)
    then show ?thesis using assms(3) later_same worker_check_cases [OF goes(3)] by simp
  next
    case (starts w q)
    show ?thesis
    proof (cases "w = i")
      case True
      have "job_state j = Pending \<or> job_state j = Cancelled"
        using ok dist starts(2) True by (cases "job_state j") (auto simp: job_ok_def workers_def)
      with starts True assms(3) show ?thesis
        by (auto simp: worker_begin_def hm_get_update job_later_def job_after_def frozen_def split: if_splits)
    next
      case False
      with starts assms(3) show ?thesis
        by (auto simp: worker_begin_def hm_get_update later_same split: option.splits if_splits)
    qed
  next
    case (gives_up w q)
    then show ?thesis using assms(3) later_same
      by (auto simp: worker_begin_def split: option.splits if_splits)
  next
    case (finishes w fmt v1 op wt el now accounts out)
    have jobs: "jobs (the_queue t) = (case hm_get (jobs (the_queue s)) w of None \<Rightarrow> jobs (the_queue s)
        | Some j \<Rightarrow> hm_insert w (finish_job now accounts out j) (jobs (the_queue s)))"
      using finishes(1) by (auto simp: worker_finish_def Let_def split: option.splits)
    have "job_state j = Processing \<or> job_state j = Cancelled" if "w = i"
      using ok dist finishes(2) that by (cases "job_state j") (auto simp: job_ok_def workers_def)
    then show ?thesis
      using assms(3) after_finish by (auto simp: jobs hm_get_update job_later_def split: option.splits)
  next
    case (polled pool now k)
    have "jobs (the_queue t) = jobs (poll_job now k (the_queue s))"
      using polled by (simp add: get_playback_request_def Let_def)
    then show ?thesis
      using pruned [of now] later_after [OF _ after_live]
      by (auto simp: poll_job_def Let_def hm_get_update split: option.splits if_splits)
  next
    case (cancelled pool now k)
    then show ?thesis
      using pruned [of now] later_after [OF _ after_cancel]
      by (auto simp: cancel_playback_request_def Let_def hm_get_update split: option.splits if_splits)
  next
    case (cleared now)
    then show ?thesis
      using pruned [of now] later_after [OF _ after_clear]
      by (auto simp: clear_playback_queue_def Let_def hm_get_values_mut map_option_case split: option.splits)
  next
    case (reaped now)
    then show ?thesis using pruned [of now] by simp
  next
    case forgotten
    then show ?thesis using assms(3) later_same by (simp add: clear_cache_def)
  qed
  then show ?thesis by (simp add: job_later_def)
qed

section \<open>Witnesses\<close>

definition no_cache :: answer_lookup where
  "no_cache = (\<lambda>_ _. None)"

definition demo_op :: playback_op where
  "demo_op = Video 7 ''HIGH'' ''STREAM'' ''FULL''"

definition demo_busy :: queue where
  "demo_busy = queue_new\<lparr>q_inflight := 1\<rparr>"

definition demo_waiting :: queue where
  "demo_waiting = demo_busy\<lparr>jobs := [(''u'', new_job ''u'' 100)]\<rparr>"

lemma demo_run: "dispatch_begin no_cache [] [] 1 1 ''t'' 100 demo_op queue_new = (RunNow, demo_busy)"
  by (simp add: dispatch_begin_def Let_def demo_op_def queue_new_def prune_queue_def prune_jobs_def
      hm_retain_def hm_values_mut_def try_acquire_def demo_busy_def capacity_now_def capacity_def
      usize_sat_mul_def sat_mul_u64_def u64_max_def)

lemma demo_queue:
  "\<exists>r. dispatch_begin no_cache [] [] 1 1 ''u'' 100 demo_op demo_busy = (Queued r, demo_waiting)"
  by (simp add: dispatch_begin_def Let_def demo_op_def demo_busy_def demo_waiting_def queue_new_def
      prune_queue_def prune_jobs_def hm_retain_def hm_values_mut_def hm_insert_def try_acquire_def
      capacity_now_def capacity_def usize_sat_mul_def sat_mul_u64_def u64_max_def over_capacity_def
      pending_jobs_def queue_limit_def MAX_QUEUE_FACTOR_def)

definition demo_sys :: sys where
  "demo_sys = \<lparr>the_queue = demo_waiting, immediate = 1, waiting = [''u''], starting = [], running = []\<rparr>"

lemma demo_capacity: "capacity_now 1 1 \<le> 1"
  by (simp add: capacity_now_def capacity_def usize_sat_mul_def sat_mul_u64_def u64_max_def)

lemma demo_sys_reachable: "queue_reachable 1 demo_sys"
proof -
  let ?s = "sys_new\<lparr>the_queue := demo_busy, immediate := immediate sys_new + 1\<rparr>"
  have "dispatch_begin no_cache [] [] 1 1 ''t'' 100 demo_op (the_queue sys_new) = (RunNow, demo_busy)"
    using demo_run by (simp add: sys_new_def)
  then have "queue_step 1 sys_new ?s" using demo_capacity by (rule queue_step.run_now)
  then have 1: "queue_reachable 1 ?s" by (rule queue_reachable.after [OF queue_reachable.initially])
  obtain r where r: "dispatch_begin no_cache [] [] 1 1 ''u'' 100 demo_op demo_busy = (Queued r, demo_waiting)"
    using demo_queue by blast
  have "queue_step 1 ?s (?s\<lparr>the_queue := demo_waiting, waiting := ''u'' # waiting ?s\<rparr>)"
  proof (rule queue_step.queued)
    show "dispatch_begin no_cache [] [] 1 1 ''u'' 100 demo_op (the_queue ?s) = (Queued r, demo_waiting)"
      using r by simp
    show "capacity_now 1 1 \<le> 1" by (rule demo_capacity)
  qed (simp_all add: sys_new_def workers_def demo_busy_def queue_new_def hm_get_def)
  with 1 have "queue_reachable 1 (?s\<lparr>the_queue := demo_waiting, waiting := ''u'' # waiting ?s\<rparr>)"
    by (rule queue_reachable.after)
  then show ?thesis by (simp add: sys_new_def demo_sys_def)
qed

lemma slots_accounted_witness: "q_inflight (the_queue demo_sys) = 1 \<and> length (pending_jobs (the_queue demo_sys)) \<le> 1"
  using slots_accounted [OF demo_sys_reachable] by (simp add: demo_sys_def)

lemma demo_job: "hm_get (jobs (the_queue demo_sys)) ''u'' = Some (new_job ''u'' 100)"
  by (simp add: demo_sys_def demo_waiting_def hm_get_def)


lemma jobs_move_forward_witness:
  "case hm_get (jobs (the_queue (demo_sys\<lparr>the_queue := prune_queue 200 demo_waiting\<rparr>))) ''u'' of
     Some j' \<Rightarrow> job_after (new_job ''u'' 100) j' | None \<Rightarrow> False"
proof -
  have "queue_step 1 demo_sys (demo_sys\<lparr>the_queue := prune_queue 200 (the_queue demo_sys)\<rparr>)"
    by (rule queue_step.reaped)
  from jobs_move_forward [OF demo_sys_reachable this demo_job] show ?thesis
    by (simp add: demo_sys_def new_job_def split: option.splits)
qed

section \<open>A queued request gets the immediate answer\<close>

text \<open>The detail field of a JSON body.\<close>

definition body_detail :: "response \<Rightarrow> string option" where
  "body_detail r = (case r_body r of JsonBody v \<Rightarrow> jget_str ''detail'' v | _ \<Rightarrow> None)"

definition queued_retry :: "app_error \<Rightarrow> (string \<times> string) list" where
  "queued_retry e = (case e of RateLimited s \<Rightarrow> [(''Retry-After'', show_nat s)]
     | AccountsBusy _ s \<Rightarrow> [(''Retry-After'', show_nat s)] | _ \<Rightarrow> [])"

lemma app_error_parts_response:
  "app_error_parts e = (resp_status (into_response e), resp_detail (into_response e))"
  by (cases e) (simp_all add: app_error_parts_def into_response_def plain_response_def)

lemma poll_finished:
  assumes "hm_wf (jobs q)" "hm_get (jobs q) i = Some j" "finished_at j = Some f" "now \<le> f + JOB_TTL_SECS"
    and "job_state j \<noteq> Pending" "job_state j \<noteq> Processing"
  shows "hm_get (jobs (poll_job now i q)) i = Some j"
proof -
  have "keep_job now j" "expire_job now j = j"
    using assms(3-6) by (auto simp: keep_job_def expire_job_def)
  then have "hm_get (jobs (prune_queue now q)) i = Some j"
    using assms(1,2) by (simp add: prune_queue_def hm_get_prune)
  then show ?thesis using assms(5,6) by (simp add: poll_job_def Let_def)
qed



text \<open>
  One retry delay is lost on the way: \<open>ServiceUnavailableRetry\<close> carries a \<open>Retry-After\<close> when it
  is answered at once and none when it is polled.
\<close>

lemma queued_retry_lost:
  "resp_retry_after (into_response (ServiceUnavailableRetry d 30)) = Some 30
   \<and> queued_retry (ServiceUnavailableRetry d 30) = []"
  by (simp add: into_response_def plain_response_def queued_retry_def)

section \<open>The cache key\<close>

definition bar_free :: "string \<Rightarrow> bool" where
  "bar_free s \<longleftrightarrow> CHR ''|'' \<notin> set s"

lemma split_on_bar: "bar_free w \<Longrightarrow> split_on CHR ''|'' (w @ CHR ''|'' # s) = w # split_on CHR ''|'' s"
  "bar_free w \<Longrightarrow> split_on CHR ''|'' w = [w]"
  unfolding bar_free_def by (induction w) auto

lemma split_join_bars: "list_all bar_free ws \<Longrightarrow> ws \<noteq> [] \<Longrightarrow> split_on CHR ''|'' (join_bars ws) = ws"
  by (induction ws rule: join_bars.induct) (simp_all add: split_on_bar)

lemma join_bars_inj:
  assumes "list_all bar_free ws" "list_all bar_free vs" "ws \<noteq> []" "vs \<noteq> []" "join_bars ws = join_bars vs"
  shows "ws = vs"
  using split_join_bars [of ws] split_join_bars [of vs] assms by metis

lemma digits_bar_free: "list_all is_ascii_digit s \<Longrightarrow> bar_free s"
  by (auto simp: bar_free_def list_all_iff is_ascii_digit_def)

lemma show_int_bar_free: "bar_free (show_int i)"
  using digits_bar_free show_nat_digits by (auto simp: show_int_def bar_free_def)

lemma show_nat_inj: "show_nat a = show_nat b \<Longrightarrow> a = b"
  by (metis digits_val_show option.inject)

lemma show_nat_no_minus: "show_nat n \<noteq> CHR ''-'' # s"
  using show_nat_digits [of n] by auto

lemma show_int_inj: "show_int a = show_int b \<Longrightarrow> a = b"
  by (auto simp: show_int_def show_nat_no_minus show_nat_no_minus [THEN not_sym] split: if_splits
      dest!: show_nat_inj)

lemma show_bool_inj: "show_bool a = show_bool b \<Longrightarrow> a = b"
  by (simp add: show_bool_def split: if_splits)

lemma debug_char_split:
  "debug_char a @ s = debug_char b @ t \<Longrightarrow> a = b \<and> s = t"
  by (auto simp: debug_char_def split: if_splits)

lemma debug_char_quote: "debug_char a @ s \<noteq> CHR 0x22 # t"
  by (auto simp: debug_char_def)

lemma debug_string_inj:
  "concat (map debug_char a) @ CHR 0x22 # x = concat (map debug_char b) @ CHR 0x22 # x \<Longrightarrow> a = b"
proof (induction a arbitrary: b)
  case Nil
  then show ?case by (cases b) (simp_all add: debug_char_quote [THEN not_sym])
next
  case (Cons c a)
  then obtain d b' where b: "b = d # b'" by (cases b) (simp_all add: debug_char_quote)
  with Cons.prems have "debug_char c @ (concat (map debug_char a) @ CHR 0x22 # x)
      = debug_char d @ (concat (map debug_char b') @ CHR 0x22 # x)" by simp
  from debug_char_split [OF this] Cons.IH show ?case by (simp add: b)
qed

lemma debug_opt_inj: "debug_opt a = debug_opt b \<Longrightarrow> a = b"
  using debug_string_inj [of _ "[]"] by (cases a; cases b) (auto simp: debug_opt_def)

text \<open>An operation whose texts hold no bar; an absent raw query counts as an empty one.\<close>

fun op_bar_free :: "playback_op \<Rightarrow> bool" where
  "op_bar_free (Track i quality immersive) = bar_free quality"
| "op_bar_free (Manifest tid p raw host) = list_all bar_free
     [tid, host, unwrap_or raw [], adaptive p, manifestType p, uriScheme p, usage p,
      debug_opt (countryCode p), debug_opt (atmos p)]"
| "op_bar_free (Dash tid am) = (bar_free tid \<and> bar_free (debug_opt am))"
| "op_bar_free _ = True"

fun norm_op :: "playback_op \<Rightarrow> playback_op" where
  "norm_op (Manifest tid p raw host) = Manifest tid p (Some (unwrap_or raw [])) host"
| "norm_op op = op"

text \<open>
  The answer cache never confuses two requests: as long as their texts hold no bar, equal
  keys mean the same operation, asked under the same default format and (for tracks and DASH)
  the same endpoint; video and licences have no key.
\<close>

lemma cache_key_identifies:
  assumes "cache_key op fmt v1 = Some k" "cache_key op' fmt' v1' = Some k"
    and "op_bar_free op" "op_bar_free op'" "list_all bar_free [fmt, v1, fmt', v1']"
  shows "norm_op op = norm_op op' \<and> fmt = fmt' \<and> (v1 = v1' \<or> (\<exists>tid p raw host. op = Manifest tid p raw host))"
proof -
  have lits: "bar_free ''track''" "bar_free ''manifest''" "bar_free ''dash''" "bar_free (show_bool b)" for b
    by (auto simp: bar_free_def show_bool_def)
  obtain ws where ws: "join_bars ws = k" "ws \<noteq> []" "list_all bar_free ws"
      "ws = (case op of Track i q im \<Rightarrow> [''track'', show_int i, q, show_bool im, fmt, v1]
        | Manifest tid p raw host \<Rightarrow> [''manifest'', tid, host, unwrap_or raw [], adaptive p, manifestType p,
            uriScheme p, usage p, debug_opt (countryCode p), debug_opt (atmos p), fmt]
        | Dash tid am \<Rightarrow> [''dash'', tid, debug_opt am, fmt, v1] | _ \<Rightarrow> [])"
    using assms(1,3,5) lits show_int_bar_free by (cases op) (auto simp del: join_bars.simps)
  obtain vs where vs: "join_bars vs = k" "vs \<noteq> []" "list_all bar_free vs"
      "vs = (case op' of Track i q im \<Rightarrow> [''track'', show_int i, q, show_bool im, fmt', v1']
        | Manifest tid p raw host \<Rightarrow> [''manifest'', tid, host, unwrap_or raw [], adaptive p, manifestType p,
            uriScheme p, usage p, debug_opt (countryCode p), debug_opt (atmos p), fmt']
        | Dash tid am \<Rightarrow> [''dash'', tid, debug_opt am, fmt', v1'] | _ \<Rightarrow> [])"
    using assms(2,4,5) lits show_int_bar_free by (cases op') (auto simp del: join_bars.simps)
  have "ws = vs" by (rule join_bars_inj) (use ws vs in auto)
  then show ?thesis
    using ws(2,4) vs(2,4)
    by (cases op; cases op')
       (auto dest!: show_int_inj show_bool_inj debug_opt_inj intro: manifest_params.equality)
qed

definition demo_params :: manifest_params where
  "demo_params = \<lparr>adaptive = ''true'', manifestType = ''M'', uriScheme = ''S'', usage = ''U'',
     countryCode = None, atmos = None\<rparr>"

lemma cache_key_identifies_witness:
  "norm_op (Manifest ''1'' demo_params None ''h'') = norm_op (Manifest ''1'' demo_params (Some []) ''h'') \<and> ''off'' = ''off''"
proof -
  have free: "op_bar_free (Manifest ''1'' demo_params None ''h'')" "op_bar_free (Manifest ''1'' demo_params (Some []) ''h'')"
    "list_all bar_free [''off'', ''e'', ''off'', ''x'']"
    by (simp_all add: bar_free_def demo_params_def debug_opt_def)
  have "cache_key (Manifest ''1'' demo_params (Some []) ''h'') ''off'' ''x''
      = cache_key (Manifest ''1'' demo_params None ''h'') ''off'' ''e''" by simp
  then show ?thesis
    using cache_key_identifies [OF cache_key.simps(2) _ free] by (simp only: cache_key.simps)
qed

text \<open>With bars the key is ambiguous.\<close>

lemma cache_key_ambiguous:
  "cache_key (Manifest ''1|h'' demo_params None ''x'') fmt v1 = cache_key (Manifest ''1'' demo_params None ''h|x'') fmt v1"
  by simp

section \<open>Timing\<close>

lemma timings_bounded: "length (timings q) \<le> TIMING_SAMPLES \<Longrightarrow> length (timings (record_timing op ok w t q)) \<le> TIMING_SAMPLES"
  by (auto simp: record_timing_def TIMING_SAMPLES_def)

lemma sorted_count_le:
  assumes "sorted xs" "k < length xs"
  shows "Suc k \<le> length (filter (\<lambda>x. x \<le> xs ! k) xs)"
proof -
  have "filter (\<lambda>x. x \<le> xs ! k) xs = filter (\<lambda>x. x \<le> xs ! k) (take (Suc k) xs) @ filter (\<lambda>x. x \<le> xs ! k) (drop (Suc k) xs)"
    by (metis append_take_drop_id filter_append)
  moreover have "filter (\<lambda>x. x \<le> xs ! k) (take (Suc k) xs) = take (Suc k) xs"
    using assms by (auto simp: filter_id_conv in_set_conv_nth intro!: sorted_nth_mono [OF assms(1)])
  ultimately show ?thesis using assms(2) by simp
qed

lemma sorted_count_less:
  assumes "sorted xs" "k < length xs"
  shows "length (filter (\<lambda>x. x < xs ! k) xs) \<le> k"
proof -
  have "filter (\<lambda>x. x < xs ! k) xs = filter (\<lambda>x. x < xs ! k) (take k xs) @ filter (\<lambda>x. x < xs ! k) (drop k xs)"
    by (metis append_take_drop_id filter_append)
  moreover have "filter (\<lambda>x. x < xs ! k) (drop k xs) = []"
    using assms by (auto simp: filter_empty_conv in_set_conv_nth not_less intro!: sorted_nth_mono [OF assms(1)])
  moreover have "length (filter (\<lambda>x. x < xs ! k) (take k xs)) \<le> length (take k xs)" by (rule length_filter_le)
  ultimately show ?thesis by simp
qed

text \<open>
  The latency card reports nearest-rank percentiles: the value is one of the samples, at
  least the fraction \<open>p\<close> of the samples is no larger, and less than that fraction is smaller.
\<close>

lemma percentile_nearest_rank:
  fixes p :: real
  assumes "sorted xs" "0 < p" "p \<le> 1" "percentile xs p = Some v"
  shows "v \<in> set xs \<and> p * real (length xs) \<le> real (length (filter (\<lambda>x. x \<le> v) xs))
    \<and> real (length (filter (\<lambda>x. x < v) xs)) < p * real (length xs)"
proof -
  define r where "r = nat \<lceil>real (length xs) * p\<rceil>"
  from assms(4) have ne: "xs \<noteq> []" by (auto simp: percentile_def)
  then have pos: "0 < real (length xs) * p" using assms(2) by simp
  have "real (length xs) * p \<le> real (length xs)" using assms(3) by (simp add: mult_left_le)
  then have r: "1 \<le> r" "r \<le> length xs" "real (length xs) * p \<le> real r" "real r - 1 < real (length xs) * p"
    unfolding r_def using pos by linarith+
  then have v: "v = xs ! (r - 1)" "r - 1 < length xs"
    using assms(4) ne by (auto simp: percentile_def r_def [symmetric])
  have "r \<le> length (filter (\<lambda>x. x \<le> v) xs)" "length (filter (\<lambda>x. x < v) xs) \<le> r - 1"
    using sorted_count_le [OF assms(1) v(2)] sorted_count_less [OF assms(1) v(2)] v(1) r(1) by simp_all
  then show ?thesis using r v by (auto simp: mult.commute)
qed

lemma percentile_nearest_rank_witness:
  "(2::nat) \<in> set [1, 2, 3, 4] \<and> (1 / 2) * real (length [1, 2, 3, 4::nat]) \<le> real (length (filter (\<lambda>x. x \<le> 2) [1, 2, 3, 4::nat]))
   \<and> real (length (filter (\<lambda>x. x < 2) [1, 2, 3, 4::nat])) < (1 / 2) * real (length [1, 2, 3, 4::nat])"
proof -
  have p: "percentile [1, 2, 3, 4] (1 / 2) = Some 2"
    by (simp add: percentile_def)
  show ?thesis by (rule percentile_nearest_rank [OF _ _ _ p]) simp_all
qed

end
