(* ===== verification/Tokens.thy ===== *)
theory Tokens
  imports Merge
begin

text \<open>
  \<open>src/token_manager.rs\<close>: when an account's access token is renewed, how often, in which form the
  request is sent, and what an answer does to the account.

  One call is one run over the manager's state with everything from outside in a record:
  the answers Tidal gives to the attempts and when they arrive, the proxy manager, the shared
  store and the outcome of the writes. The per-account lock of \<open>refresh\<close> serialises the calls for
  one account, so calls are composed one after the other. Requests, proxy calls and shared tokens
  are effects in the outbox. The account manager is set, as \<open>main.rs\<close> does; saving the refresh
  state (\<open>persist_refresh_state\<close>) only logs a failure and is left out, as are the sleeps, of which
  \<open>auth_retry_delay\<close> gives the length. \<open>no_client\<close> says why the proxy manager has no client for
  the account (a 503 in every case). The 45-second limit is the answer \<open>Cut\<close>: it ran out
  while the attempt's request was out (\<open>True\<close>) or before it was sent.
\<close>

section \<open>What is sent, and what comes back\<close>

datatype auth_answer =
    Unsent send_error
  | Answer nat "string option" json
  | Cut bool

record proxy_view =
  rotates_each :: bool
  proxies_on :: bool
  no_client :: "string option"

record auth_world =
  dates :: "string \<Rightarrow> int option"
  status_text :: "nat \<Rightarrow> string"
  proxy_of :: "proxy_view option"
  has_store :: bool
  shared :: "json option"
  answers :: "nat \<Rightarrow> auth_answer"
  times :: "nat \<Rightarrow> int"
  writes :: "nat \<Rightarrow> db"
  disable_write :: db
  jitter :: nat
  starts_at :: int
  ends_at :: int

definition AUTH_INITIAL_ATTEMPTS :: nat where "AUTH_INITIAL_ATTEMPTS = 4"

definition AUTH_RETRY_BASE_MS :: nat where "AUTH_RETRY_BASE_MS = 1500"

definition AUTH_RETRY_MAX_MS :: nat where "AUTH_RETRY_MAX_MS = 20000"

definition AUTH_FORBIDDEN_ROTATE_THRESHOLD :: nat where "AUTH_FORBIDDEN_ROTATE_THRESHOLD = 4"

text \<open>
  The form of a request: Basic credentials (each part form-encoded by \<open>form_enc\<close>) or the secret
  as a field of the body.
\<close>

definition token_form ::
    "(string \<Rightarrow> string) \<Rightarrow> bool \<Rightarrow> account \<Rightarrow> (string \<times> string) option \<times> (string \<times> string) list" where
  "token_form form_enc use_basic a =
     (let fields = [(''client_id'', client_id a), (''refresh_token'', refresh_token a),
                    (''grant_type'', ''refresh_token'')]
      in if use_basic
         then (Some (form_enc (client_id a), form_enc (client_secret a)),
               fields @ [(''scope'', ''r_usr+w_usr+w_sub'')])
         else (None, fields @ [(''client_secret'', client_secret a)]))"

definition emit :: "effect \<Rightarrow> manager \<Rightarrow> manager" where
  "emit e m = m\<lparr>outbox := outbox m @ [e]\<rparr>"

record attempt_failure =
  failed_with :: app_error
  retryable :: bool
  retry_after_of :: nat
  forbidden :: bool

definition non_retryable_attempt :: "app_error \<Rightarrow> attempt_failure" where
  "non_retryable_attempt e =
     \<lparr>failed_with = e, retryable = False, retry_after_of = 0, forbidden = False\<rparr>"

definition auth_retry_delay :: "nat \<Rightarrow> nat \<Rightarrow> nat \<Rightarrow> nat" where
  "auth_retry_delay rnd attempt retry_after =
     (let base = min (sat_mul_u64 AUTH_RETRY_BASE_MS (2 ^ min attempt 8)) AUTH_RETRY_MAX_MS;
          jitter_max = min (base div 4) 1000;
          jit = (if jitter_max = 0 then 0 else rnd mod (jitter_max + 1))
      in max (base + jit) (sat_mul_u64 retry_after 1000))"

section \<open>Tokens at hand\<close>

definition cached_token :: "int \<Rightarrow> account \<Rightarrow> string option" where
  "cached_token now a =
     (case access_token a of
        None \<Rightarrow> None
      | Some t \<Rightarrow>
          if t = [] \<or> now \<ge> token_expires_at a \<or> rejected_access_token a = Some t then None else Some t)"

definition needs_renewal :: "int \<Rightarrow> account \<Rightarrow> bool" where
  "needs_renewal now a \<longleftrightarrow> token_expires_at a \<le> now + 300 \<or> cached_token now a = None"

definition reject_access_token :: "nat \<Rightarrow> string \<Rightarrow> int \<Rightarrow> manager \<Rightarrow> manager" where
  "reject_access_token x rejected now m =
     observe_uptime x now
       (if access_token (heap m x) = Some rejected
        then at_addr x (\<lambda>a. a\<lparr>rejected_access_token := Some rejected\<rparr>) m else m)"

text \<open>Seconds to wait after the failure that makes \<open>failures\<close> in a row.\<close>

definition retry_delay :: "nat \<Rightarrow> nat \<Rightarrow> nat \<Rightarrow> nat" where
  "retry_delay rnd failures minimum =
     max (min (sat_mul_u64 30 (2 ^ min (failures - 1) 7)) 3600 + rnd mod 16) minimum"

definition defer_retry :: "nat \<Rightarrow> nat \<Rightarrow> nat \<Rightarrow> int \<Rightarrow> manager \<Rightarrow> nat \<times> manager" where
  "defer_retry rnd minimum x now m =
     (let failures = heal_failures (heap m x) + 1;
          delay = retry_delay rnd failures minimum
      in (delay, at_addr x (\<lambda>a. a\<lparr>heal_failures := failures,
            heal_next_retry := sat_add_i64 now (i64_of_u64 delay)\<rparr>) m))"

definition reject_refreshed_token :: "nat \<Rightarrow> nat \<Rightarrow> string \<Rightarrow> int \<Rightarrow> manager \<Rightarrow> manager" where
  "reject_refreshed_token rnd x rejected now m =
     snd (defer_retry rnd 30 x now
       (at_addr x (\<lambda>a. a\<lparr>last_refresh_error := Some ''Tidal HTTP 401: refreshed access token rejected''\<rparr>)
          (reject_access_token x rejected now m)))"

definition shared_token ::
    "auth_world \<Rightarrow> nat \<Rightarrow> string option \<Rightarrow> manager \<Rightarrow> string option \<times> manager" where
  "shared_token w x previous m =
     (case (Option.bind (shared w) (jget_str ''t''), Option.bind (shared w) (jget_i64 ''e'')) of
        (Some token, Some expires) \<Rightarrow>
          if token = [] \<or> starts_at w \<ge> expires - 60 \<or> previous = Some token
             \<or> rejected_access_token (heap m x) = Some token
          then (None, m)
          else (Some token,
                observe_uptime x (starts_at w)
                  (at_addr x (\<lambda>a. a\<lparr>access_token := Some token, token_expires_at := expires,
                     last_refresh_error := None, auth_failing_since := 0\<rparr>) m))
      | _ \<Rightarrow> (None, m))"

section \<open>One attempt\<close>

definition token_sent :: "nat \<Rightarrow> bool \<Rightarrow> manager \<Rightarrow> manager" where
  "token_sent x use_basic m = emit (TokenRequest (acc_id (heap m x)) use_basic) m"

definition auth_message :: "string \<Rightarrow> string \<Rightarrow> string \<Rightarrow> string" where
  "auth_message st code txt =
     ''Tidal auth HTTP '' @ st @
     (if code = [] \<and> txt = [] then []
      else if code = [] then '': '' @ txt
      else if txt = [] then '': '' @ code
      else '': '' @ code @ '' ('' @ txt @ '')'')"

definition is_success :: "nat \<Rightarrow> bool" where
  "is_success s \<longleftrightarrow> 200 \<le> s \<and> s < 300"

definition refused_answer :: "auth_world \<Rightarrow> int \<Rightarrow> nat \<Rightarrow> string option \<Rightarrow> json \<Rightarrow> attempt_failure" where
  "refused_answer w now s retry_after body =
     (let code = unwrap_or (jget_str ''error'' body) []
      in if s \<in> {400, 401} \<and> code \<in> {''invalid_grant'', ''invalid_client''}
         then non_retryable_attempt
                (Unauthorized (''Tidal auth HTTP '' @ status_text w s @ '': OAuth '' @ code))
         else (let secs = (case retry_after of None \<Rightarrow> 0 | Some v \<Rightarrow> retry_after_secs (dates w) now (Some v));
                   message = auth_message (status_text w s) code
                     (unwrap_or (jget_str ''error_description'' body) [])
               in \<lparr>failed_with = (if retry_after \<noteq> None then ServiceUnavailableRetry message secs
                                 else UpstreamError s message),
                   retryable = s \<in> {403, 408, 425, 429, 500, 502, 503, 504},
                   retry_after_of = secs, forbidden = (s = 403)\<rparr>))"

text \<open>A 2xx answer: the token, its life in seconds and the rotated refresh token.\<close>

definition granted_token :: "json \<Rightarrow> attempt_failure + string \<times> int \<times> string option" where
  "granted_token body =
     (case jget_str ''access_token'' body of
        None \<Rightarrow> Inl (non_retryable_attempt (Internal ''Empty access_token in auth response''))
      | Some t \<Rightarrow>
          if t = [] then Inl (non_retryable_attempt (Internal ''Empty access_token in auth response''))
          else (case jget_i64 ''expires_in'' body of
                  None \<Rightarrow> Inl (non_retryable_attempt (Internal ''Invalid expires_in in auth response''))
                | Some e \<Rightarrow>
                    if e \<le> 0 then Inl (non_retryable_attempt (Internal ''Invalid expires_in in auth response''))
                    else Inr (t, e, Option.bind (jget_str ''refresh_token'' body)
                                      (\<lambda>r. if r = [] then None else Some r))))"

definition expiry_time :: "int \<Rightarrow> int \<Rightarrow> int" where
  "expiry_time now expires_in = sat_sub_i64 (sat_add_i64 now expires_in) (min 60 (expires_in div 10))"

definition store_granted ::
    "auth_world \<Rightarrow> nat \<Rightarrow> string \<Rightarrow> int \<Rightarrow> db \<Rightarrow> json \<Rightarrow> string \<times> int \<times> string option \<Rightarrow> manager \<Rightarrow>
     (attempt_failure + string) \<times> manager" where
  "store_granted w x old_refresh now db body grant m =
     (let (token, expires_in, rotated) = grant;
          expires_at = expiry_time now expires_in;
          m1 = at_addr x (set_country
                 (Option.bind (Option.bind (jget ''user'' body) (jget ''countryCode'')) as_str)) m
      in case store_refreshed_credentials x old_refresh rotated token expires_at now db m1 of
           (Inl e, m2) \<Rightarrow> (Inl (non_retryable_attempt e), m2)
         | (Inr _, m2) \<Rightarrow>
             (Inr token,
              if has_store w then emit (ShareToken (acc_id (heap m2 x)) token expires_at (nat expires_in)) m2
              else m2))"

text \<open>The answer to the request that was sent with the refresh token \<open>old_refresh\<close>.\<close>

fun token_answer ::
    "auth_world \<Rightarrow> nat \<Rightarrow> string \<Rightarrow> int \<Rightarrow> db \<Rightarrow> auth_answer \<Rightarrow> manager \<Rightarrow>
     (attempt_failure + string) option \<times> manager" where
  "token_answer w x old_refresh now db (Cut out) m = (None, m)"
| "token_answer w x old_refresh now db (Unsent e) m =
     (let lost = is_connect e \<or> is_timeout e
      in (Some (Inl \<lparr>failed_with = of_send_error (status_text w) e, retryable = lost,
                    retry_after_of = 0, forbidden = False\<rparr>),
          if lost \<and> proxy_of w \<noteq> None then emit (ProxyFailed (acc_id (heap m x))) m else m))"
| "token_answer w x old_refresh now db (Answer s retry_after body) m =
     (let m1 = (if proxy_of w \<noteq> None then emit (ProxyAnswered (acc_id (heap m x))) m else m)
      in if s = 429
         then (let (secs, a) = pause_account (dates w) now retry_after (heap m1 x)
               in (Some (Inl \<lparr>failed_with = RateLimited secs, retryable = True,
                             retry_after_of = secs, forbidden = False\<rparr>), at_addr x (\<lambda>_. a) m1))
         else if \<not> is_success s then (Some (Inl (refused_answer w now s retry_after body)), m1)
         else (case granted_token body of
                 Inl f \<Rightarrow> (Some (Inl f), m1)
               | Inr g \<Rightarrow> (let (r, m2) = store_granted w x old_refresh now db body g m1
                          in (Some r, m2))))"

definition request_token_once ::
    "auth_world \<Rightarrow> nat \<Rightarrow> nat \<Rightarrow> bool \<Rightarrow> manager \<Rightarrow> (attempt_failure + string) option \<times> manager" where
  "request_token_once w x k use_basic m =
     (if answers w k = Cut False then (None, m)
      else token_answer w x (refresh_token (heap m x)) (times w k) (writes w k) (answers w k)
             (token_sent x use_basic m))"

section \<open>The attempts of one refresh\<close>

text \<open>
  The loop of \<open>request_token_cycle\<close>, with \<open>n\<close> attempts left after \<open>k\<close>; \<open>failed\<close> is the error of
  the last one. \<open>None\<close> is the 45-second limit.
\<close>

fun token_attempts ::
    "auth_world \<Rightarrow> nat \<Rightarrow> nat \<Rightarrow> nat \<Rightarrow> bool \<Rightarrow> app_error option \<Rightarrow> manager \<Rightarrow>
     (app_error + string) option \<times> manager" where
  "token_attempts w x 0 k use_basic failed m =
     (Some (Inl (unwrap_or failed (ServiceUnavailable ''No token refresh attempt completed''))), m)"
| "token_attempts w x (Suc n) k use_basic failed m =
     (case request_token_once w x k use_basic m of
        (None, m1) \<Rightarrow> (None, m1)
      | (Some (Inr token), m1) \<Rightarrow>
          (Some (Inr token), at_addr x (\<lambda>a. a\<lparr>auth_use_basic := use_basic, auth_forbidden_streak := 0\<rparr>) m1)
      | (Some (Inl f), m1) \<Rightarrow>
          (let next_basic = (if forbidden f then \<not> use_basic else use_basic);
               m2 = at_addr x (\<lambda>a.
                      if forbidden f
                      then a\<lparr>auth_forbidden_streak := auth_forbidden_streak a + 1, auth_use_basic := next_basic\<rparr>
                      else a\<lparr>auth_forbidden_streak := 0\<rparr>) m1
           in if \<not> retryable f \<or> n = 0 \<or> sat_mul_u64 (retry_after_of f) 1000 > AUTH_RETRY_MAX_MS
              then (Some (Inl (failed_with f)), m2)
              else token_attempts w x n (Suc k) next_basic (Some (failed_with f)) m2))"

definition rotate_proxy :: "nat \<Rightarrow> manager \<Rightarrow> manager" where
  "rotate_proxy x m =
     at_addr x (\<lambda>a. a\<lparr>auth_forbidden_streak := 0\<rparr>) (emit (RotateProxy (acc_id (heap m x))) m)"

definition request_token_cycle ::
    "auth_world \<Rightarrow> nat \<Rightarrow> manager \<Rightarrow> (app_error + string) option \<times> manager" where
  "request_token_cycle w x m =
     (let run = (\<lambda>m. token_attempts w x (if heal_failures (heap m x) = 0
                                         then AUTH_INITIAL_ATTEMPTS else 1)
                       0 (auth_use_basic (heap m x)) None m)
      in case proxy_of w of
           None \<Rightarrow> run m
         | Some p \<Rightarrow>
             (let m1 = (if rotates_each p
                           \<or> proxies_on p \<and> auth_forbidden_streak (heap m x) \<ge> AUTH_FORBIDDEN_ROTATE_THRESHOLD
                        then rotate_proxy x m else m)
              in case no_client p of
                   Some e \<Rightarrow> (Some (Inl (ServiceUnavailable e)), m1)
                 | None \<Rightarrow> run m1))"

section \<open>Refreshing\<close>

definition refresh_succeeded :: "nat \<Rightarrow> manager \<Rightarrow> manager" where
  "refresh_succeeded x m =
     at_addr x (\<lambda>a. a\<lparr>last_refresh_error := None, heal_failures := 0, heal_next_retry := 0,
       auth_forbidden_streak := 0, auth_failing_since := 0\<rparr>) m"

definition minimum_wait :: "app_error \<Rightarrow> nat" where
  "minimum_wait e =
     (case e of RateLimited s \<Rightarrow> s | ServiceUnavailableRetry _ s \<Rightarrow> s | Unauthorized _ \<Rightarrow> 300 | _ \<Rightarrow> 0)"

definition refresh_failed :: "auth_world \<Rightarrow> nat \<Rightarrow> app_error \<Rightarrow> manager \<Rightarrow> manager" where
  "refresh_failed w x e m =
     (let now = ends_at w;
          m1 = (case e of
                  Unauthorized _ \<Rightarrow> snd (set_system_disabled x True now (disable_write w) m)
                | _ \<Rightarrow> m);
          m2 = (case e of
                  UpstreamError s _ \<Rightarrow>
                    if s = 403 \<and> auth_failing_since (heap m1 x) = 0
                    then at_addr x (\<lambda>a. a\<lparr>auth_failing_since := now\<rparr>) m1 else m1
                | _ \<Rightarrow> m1);
          m3 = at_addr x (\<lambda>a. a\<lparr>last_refresh_error := Some (display (status_text w) e)\<rparr>) m2
      in snd (defer_retry (jitter w) (minimum_wait e) x now m3))"

definition refresh ::
    "auth_world \<Rightarrow> nat \<Rightarrow> string option \<Rightarrow> bool \<Rightarrow> manager \<Rightarrow> (app_error + string) \<times> manager" where
  "refresh w x previous force m =
     (let now = starts_at w; a = heap m x
      in case (case cached_token now a of
                 Some t \<Rightarrow> if \<not> force \<or> Some t \<noteq> previous then Some t else None
               | None \<Rightarrow> None) of
           Some t \<Rightarrow> (Inr t, m)
         | None \<Rightarrow>
             (case rate_limit_remaining now a of
                Some s \<Rightarrow> (Inl (RateLimited s), m)
              | None \<Rightarrow>
                  if heal_next_retry a - now > 0
                  then (Inl (ServiceUnavailableRetry ''Token refresh is cooling down''
                              (nat (heal_next_retry a - now))), m)
                  else (case shared_token w x (if force then previous else None) m of
                          (Some t, m1) \<Rightarrow> (Inr t, m1)
                        | (None, m1) \<Rightarrow>
                            (case request_token_cycle w x m1 of
                               (Some (Inr t), m2) \<Rightarrow> (Inr t, refresh_succeeded x m2)
                             | (Some (Inl e), m2) \<Rightarrow> (Inl e, refresh_failed w x e m2)
                             | (None, m2) \<Rightarrow> (Inl Timeout, refresh_failed w x Timeout m2)))))"

definition get_token :: "auth_world \<Rightarrow> nat \<Rightarrow> manager \<Rightarrow> (app_error + string) \<times> manager" where
  "get_token w x m =
     (case rate_limit_remaining (starts_at w) (heap m x) of
        Some s \<Rightarrow> (Inl (RateLimited s), m)
      | None \<Rightarrow>
          (case cached_token (starts_at w) (heap m x) of
             Some t \<Rightarrow> (Inr t, m)
           | None \<Rightarrow> refresh w x None False m))"

definition renew_token :: "auth_world \<Rightarrow> nat \<Rightarrow> manager \<Rightarrow> (app_error + string) \<times> manager" where
  "renew_token w x m = refresh w x (access_token (heap m x)) True m"

definition refresh_after_unauthorized ::
    "auth_world \<Rightarrow> nat \<Rightarrow> string \<Rightarrow> manager \<Rightarrow> (app_error + string) \<times> manager" where
  "refresh_after_unauthorized w x rejected m =
     refresh w x (Some rejected) True (reject_access_token x rejected (starts_at w) m)"

end
