(* ===== verification/TokenProps.thy ===== *)
theory TokenProps
  imports Tokens MergeProps
begin

text \<open>
  What the token manager guarantees: a failed refresh is followed by a growing silence, a refresh
  asks Tidal at most four times, only refused credentials switch an account off, callers that saw
  the same 401 share one refresh, a rejected token is not reused, and an answer that comes back
  after the credentials were replaced changes nothing.
\<close>

section \<open>Counting requests\<close>

fun is_request :: "effect \<Rightarrow> bool" where
  "is_request (TokenRequest i b) = True"
| "is_request e = False"

definition asked :: "manager \<Rightarrow> nat" where
  "asked m = length (filter is_request (outbox m))"

lemma outbox_frames [simp]:
  "outbox (at_addr x f m) = outbox m"
  "outbox (observe_uptime x now m) = outbox m"
  "outbox (emit e m) = outbox m @ [e]"
  "outbox (push_account x m) = outbox m @ [Publish (heap m x)]"
  by (simp_all add: at_addr_def observe_uptime_def emit_def push_account_def Let_def)

lemma heap_frames [simp]:
  "heap (observe_uptime x now m) = heap m"
  "heap (emit e m) = heap m"
  "heap (push_account x m) = heap m"
  "heap (at_addr x f m) = (heap m)(x := f (heap m x))"
  by (simp_all add: at_addr_def observe_uptime_def emit_def push_account_def Let_def)

lemma accounts_frames [simp]:
  "accounts (observe_uptime x now m) = accounts m"
  "accounts (emit e m) = accounts m"
  "accounts (push_account x m) = accounts m"
  "accounts (at_addr x f m) = accounts m"
  by (simp_all add: at_addr_def observe_uptime_def emit_def push_account_def Let_def)

lemma asked_frames [simp]:
  "asked (at_addr x f m) = asked m"
  "asked (observe_uptime x now m) = asked m"
  "asked (push_account x m) = asked m"
  "asked (emit e m) = (if is_request e then Suc (asked m) else asked m)"
  by (simp_all add: asked_def)

lemma asked_store [simp]: "asked (snd (store_refreshed_credentials x old rot t ex now db m)) = asked m"
  by (simp add: store_refreshed_credentials_def Let_def split: option.split)

lemma asked_disabled [simp]: "asked (snd (set_system_disabled x d now db m)) = asked m"
  by (simp add: set_system_disabled_def Let_def)

lemma asked_defer [simp]: "asked (snd (defer_retry r mn x now m)) = asked m"
  by (simp add: defer_retry_def Let_def)

lemma asked_reject [simp]: "asked (reject_access_token x t now m) = asked m"
  by (simp add: reject_access_token_def)

lemma asked_shared [simp]: "asked (snd (shared_token w x p m)) = asked m"
  by (simp add: shared_token_def split: option.split)

lemma asked_rotate [simp]: "asked (rotate_proxy x m) = asked m"
  by (simp add: rotate_proxy_def)

lemma asked_failed [simp]: "asked (refresh_failed w x e m) = asked m"
  by (simp add: refresh_failed_def Let_def split: app_error.split)

lemma asked_succeeded [simp]: "asked (refresh_succeeded x m) = asked m"
  by (simp add: refresh_succeeded_def)

lemma asked_granted:
  assumes "store_granted w x old now db body g m = (r, m')"
  shows "asked m' = asked m"
proof -
  obtain t e rot where g: "g = (t, e, rot)" by (cases g)
  define m1 where "m1 = at_addr x (set_country
      (Option.bind (Option.bind (jget ''user'' body) (jget ''countryCode'')) as_str)) m"
  obtain q m2 where q: "store_refreshed_credentials x old rot t (expiry_time now e) now db m1 = (q, m2)"
    by force
  have "asked m2 = asked m"
    using asked_store [of x old rot t "expiry_time now e" now db m1] by (simp add: q) (simp add: m1_def)
  with assms q show ?thesis
    by (auto simp: g store_granted_def Let_def m1_def split: sum.splits if_splits)
qed

lemma asked_answer: "asked (snd (token_answer w x old now db ans m)) = asked m"
  by (cases ans) (auto simp: Let_def split: sum.split prod.split dest!: asked_granted)

lemma asked_once:
  "asked (snd (request_token_once w x k b m)) = (if answers w k = Cut False then asked m else Suc (asked m))"
  by (simp add: request_token_once_def asked_answer token_sent_def)

lemma asked_attempts:
  "asked m \<le> asked (snd (token_attempts w x n k b fl m)) \<and>
   asked (snd (token_attempts w x n k b fl m)) \<le> asked m + n"
proof (induction n arbitrary: k b fl m)
  case (Suc n)
  obtain r m1 where o1: "request_token_once w x k b m = (r, m1)" by force
  have 1: "asked m \<le> asked m1" "asked m1 \<le> Suc (asked m)"
    using asked_once [of w x k b m] by (simp_all add: o1 split: if_splits)
  have 2: "asked m1 \<le> asked (snd (token_attempts w x n k' b' fl' (at_addr x f m1)))"
    "asked (snd (token_attempts w x n k' b' fl' (at_addr x f m1))) \<le> asked m1 + n" for k' b' fl' f
    using Suc.IH [of "at_addr x f m1"] by simp_all
  from 1 show ?case
    by (auto simp: o1 Let_def split: option.split sum.split intro: order_trans [OF _ 2(1)] order_trans [OF 2(2)])
qed simp

text \<open>What a refresh can do: answer from what is at hand, wait, or ask.\<close>

lemma cycle_asked:
  "asked m \<le> asked (snd (request_token_cycle w x m)) \<and>
   asked (snd (request_token_cycle w x m)) \<le> asked m + (if heal_failures (heap m x) = 0 then 4 else 1)"
  using asked_attempts [of m w x "if heal_failures (heap m x) = 0 then 4 else 1" 0 "auth_use_basic (heap m x)" None]
    asked_attempts [of "rotate_proxy x m" w x "if heal_failures (heap m x) = 0 then 4 else 1" 0 "auth_use_basic (heap m x)" None]
  by (auto simp: request_token_cycle_def Let_def AUTH_INITIAL_ATTEMPTS_def rotate_proxy_def split: option.split)

section \<open>What the attempts leave alone\<close>

definition standing :: "account \<Rightarrow> (nat \<times> int) \<times> (bool \<times> bool) \<times> string \<times> nat \<times> nat \<times> nat" where
  "standing a = ((heal_failures a, heal_next_retry a), (is_active a, auto_disabled a), acc_id a,
     playback_inflight a, metadata_inflight a, catalog_inflight a)"

definition steady :: "manager \<Rightarrow> manager \<Rightarrow> bool" where
  "steady m m' \<longleftrightarrow> accounts m' = accounts m \<and> (\<forall>z. standing (heap m' z) = standing (heap m z))"

lemma steady_refl [simp]: "steady m m"
  by (simp add: steady_def)

lemma steady_trans: "steady m m1 \<Longrightarrow> steady m1 m2 \<Longrightarrow> steady m m2"
  by (simp add: steady_def)

lemma steady_at: "(\<And>a. standing (f a) = standing a) \<Longrightarrow> steady m (at_addr x f m)"
  by (simp add: steady_def)

lemma steady_frames [simp]:
  "steady m (emit e m)" "steady m (observe_uptime x now m)" "steady m (push_account x m)"
  by (simp_all add: steady_def)

lemma standing_country [simp]: "standing (set_country c a) = standing a"
  by (auto simp: set_country_def standing_def split: option.split)

lemma standing_pause [simp]: "standing (snd (pause_account d now v a)) = standing a"
  by (simp add: pause_account_def next_strike_def standing_def Let_def split_beta)

lemma steady_store: "steady m (snd (store_refreshed_credentials x old rot t ex now db m))"
  by (auto simp: store_refreshed_credentials_def Let_def steady_def standing_def split: option.split)

lemma steady_granted: "store_granted w x old now db body g m = (r, m') \<Longrightarrow> steady m m'"
proof -
  assume *: "store_granted w x old now db body g m = (r, m')"
  obtain t e rot where g: "g = (t, e, rot)" by (cases g)
  let ?m1 = "at_addr x (set_country
      (Option.bind (Option.bind (jget ''user'' body) (jget ''countryCode'')) as_str)) m"
  obtain q m2 where q: "store_refreshed_credentials x old rot t (expiry_time now e) now db ?m1 = (q, m2)"
    by force
  have "steady m m2"
    using steady_trans [OF steady_at steady_store [of ?m1 x old rot t "expiry_time now e" now db]]
    by (simp only: q snd_conv standing_country)
  then have "steady m (emit ef m2)" for ef by (rule steady_trans) simp
  with \<open>steady m m2\<close> * q show ?thesis
    by (auto simp: g store_granted_def Let_def split: sum.splits if_splits)
qed

lemma steady_answer: "steady m (snd (token_answer w x old now db ans m))"
proof -
  have "steady m (at_addr x (\<lambda>_. snd (pause_account d now v (heap m x))) m)" for d v and m :: manager
    by (simp add: steady_def)
  moreover have "steady (emit e m) m' \<Longrightarrow> steady m m'" for e m'
    by (rule steady_trans [of _ "emit e m"]) simp_all
  ultimately show ?thesis
    by (cases ans) (auto simp: Let_def split: sum.split prod.split dest: steady_granted,
      (metis heap_frames(2) snd_conv)+)
qed

lemma steady_once: "steady m (snd (request_token_once w x k b m))"
  using steady_trans [OF steady_frames(1) steady_answer]
  by (simp add: request_token_once_def token_sent_def)

lemma steady_attempts: "steady m (snd (token_attempts w x n k b fl m))"
proof (induction n arbitrary: k b fl m)
  case (Suc n)
  obtain r m1 where o1: "request_token_once w x k b m = (r, m1)" by force
  then have 1: "steady m m1" using steady_once [of m w x k b] by simp
  have 2: "steady m (at_addr x f m1)" if "\<And>a. standing (f a) = standing a" for f
    by (rule steady_trans [OF 1 steady_at]) (rule that)
  have 3: "steady m (snd (token_attempts w x n k' b' fl' (at_addr x f m1)))"
    if "\<And>a. standing (f a) = standing a" for k' b' fl' f
    by (rule steady_trans [OF 2 [OF that] Suc.IH])
  show ?case
    by (auto simp: o1 1 Let_def standing_def intro!: 2 3 split: option.split sum.split)
qed simp

lemma steady_rotate: "steady m (rotate_proxy x m)"
  by (auto simp: rotate_proxy_def steady_def standing_def)

lemma steady_cycle: "steady m (snd (request_token_cycle w x m))"
  using steady_trans [OF steady_rotate steady_attempts]
  by (auto simp: request_token_cycle_def Let_def steady_attempts steady_rotate
      simp del: token_attempts.simps split: option.split)

lemma steady_shared: "steady m (snd (shared_token w x p m))"
  by (auto simp: shared_token_def steady_def standing_def split: option.split)

section \<open>The ways a refresh can go\<close>

lemma shared_None: "fst (shared_token w x p m) = None \<Longrightarrow> shared_token w x p m = (None, m)"
  by (auto simp: shared_token_def split: option.splits if_splits)

lemma refresh_cases:
  assumes "refresh w x p f m = (r, m')"
  obtains (hand) t where "r = Inr t" "m' = m" "cached_token (starts_at w) (heap m x) = Some t" "\<not> f \<or> Some t \<noteq> p"
  | (waits) e where "r = Inl e" "m' = m"
      "rate_limit_remaining (starts_at w) (heap m x) \<noteq> None \<or> starts_at w < heal_next_retry (heap m x)"
  | (shared) t where "r = Inr t" "shared_token w x (if f then p else None) m = (Some t, m')"
  | (granted) t m2 where "r = Inr t" "request_token_cycle w x m = (Some (Inr t), m2)" "m' = refresh_succeeded x m2"
  | (failed) e q m2 where "r = Inl e" "request_token_cycle w x m = (q, m2)" "m' = refresh_failed w x e m2"
      "q = Some (Inl e) \<or> q = None \<and> e = Timeout"
proof -
  define h where "h = (case cached_token (starts_at w) (heap m x) of
      Some t \<Rightarrow> if \<not> f \<or> Some t \<noteq> p then Some t else None | None \<Rightarrow> None)"
  define v where "v = shared_token w x (if f then p else None) m"
  note r = assms [unfolded refresh_def Let_def, folded h_def v_def]
  show ?thesis
  proof (cases h)
    case (Some t)
    then show ?thesis using r by (auto simp: h_def split: option.splits if_splits intro: hand)
  next
    case None
    have "v = (None, m)" if "fst v = None" using that shared_None by (auto simp: v_def)
    with r None show ?thesis
      by (cases v) (auto simp: not_le v_def [symmetric] split: option.splits if_splits prod.splits sum.splits
          intro: waits granted failed shared)
  qed
qed

lemma failed_standing:
  "heal_failures (heap (refresh_failed w x e m) x) = Suc (heal_failures (heap m x))"
  "heal_next_retry (heap (refresh_failed w x e m) x) =
     sat_add_i64 (ends_at w)
       (i64_of_u64 (retry_delay (jitter w) (Suc (heal_failures (heap m x))) (minimum_wait e)))"
  by (auto simp: refresh_failed_def defer_retry_def set_system_disabled_def Let_def split: app_error.split)

lemma retry_delay_ge:
  "min (30 * 2 ^ min n 7) 3600 \<le> retry_delay r (Suc n) mn" "mn \<le> retry_delay r (Suc n) mn"
proof -
  have "(2::nat) ^ min n 7 \<le> 2 ^ 7" by (rule power_increasing) simp_all
  then have "30 * 2 ^ min n 7 \<le> u64_max" by (simp add: u64_max_def)
  then show "min (30 * 2 ^ min n 7) 3600 \<le> retry_delay r (Suc n) mn" "mn \<le> retry_delay r (Suc n) mn"
    by (simp_all add: retry_delay_def sat_mul_u64_def)
qed

lemma deadline_ge:
  assumes "clock_ok now" "a \<le> b" "a < 2 ^ 62"
  shows "now + int a \<le> sat_add_i64 now (i64_of_u64 b)"
  using assms by (auto simp: clock_ok_def sat_add_i64_def clamp_i64_def i64_of_u64_def i64_max_def min_def max_def)

lemma refresh_silent:
  "starts_at w < heal_next_retry (heap m x) \<Longrightarrow> asked (snd (refresh w x p f m)) = asked m"
  by (simp add: refresh_def Let_def split: option.split)

text \<open>
  C38. A failed refresh is followed by silence that grows with the failures: 30, 60, 120 seconds and
  so on up to an hour, and never less than Tidal's Retry-After (or five minutes after refused
  credentials). Whoever asks for a token of the account before that, no request is sent.
\<close>

theorem failed_refresh_cools_down:
  assumes "refresh w x p f m = (Inl e, m')"
    and "rate_limit_remaining (starts_at w) (heap m x) = None" "heal_next_retry (heap m x) \<le> starts_at w"
    and "clock_ok (ends_at w)" "minimum_wait e < 2 ^ 62"
    and "starts_at w' < ends_at w
           + int (max (min (30 * 2 ^ min (heal_failures (heap m x)) 7) 3600) (minimum_wait e))"
  shows "heal_failures (heap m' x) = heal_failures (heap m x) + 1
    \<and> asked (snd (refresh w' x q g m')) = asked m'"
  using assms(1)
proof (cases rule: refresh_cases)
  case (failed e' r m2)
  have st: "standing (heap m2 x) = standing (heap m x)"
    using steady_cycle [of m w x] failed(2) by (simp add: steady_def)
  let ?n = "heal_failures (heap m x)"
  let ?a = "max (min (30 * 2 ^ min ?n 7) 3600) (minimum_wait e)"
  have n2: "heal_failures (heap m2 x) = ?n" using st by (simp add: standing_def)
  have "ends_at w + int ?a \<le> heal_next_retry (heap m' x)"
    unfolding failed(3) failed_standing n2
    using failed(1) retry_delay_ge(1) [of ?n] retry_delay_ge(2) assms(5)
    by (intro deadline_ge assms(4)) auto
  then show ?thesis
    using assms(6) n2 by (simp add: failed(3) failed_standing(1) refresh_silent)
qed (use assms(2,3) in auto)

text \<open>
  A refresh never turns into a burst: it sends at most four requests when the last one went
  well and at most one after a failure.
\<close>

lemma few_requests:
  "asked (snd (refresh w x p f m)) \<le> asked m + (if heal_failures (heap m x) = 0 then 4 else 1)"
proof -
  obtain r m' where r: "refresh w x p f m = (r, m')" by force
  from r show ?thesis
  proof (cases rule: refresh_cases)
    case (shared t)
    then show ?thesis using asked_shared [of w x "if f then p else None" m] r by simp
  next
    case (granted t m2)
    then show ?thesis using cycle_asked [of m w x] r by simp
  next
    case (failed e q m2)
    then show ?thesis using cycle_asked [of m w x] r by simp
  qed (use r in simp_all)
qed

section \<open>What no token call touches\<close>

text \<open>The roster, the ids and the requests in flight.\<close>

definition place :: "account \<Rightarrow> string \<times> nat \<times> nat \<times> nat" where
  "place a = (acc_id a, playback_inflight a, metadata_inflight a, catalog_inflight a)"

definition kept :: "manager \<Rightarrow> manager \<Rightarrow> bool" where
  "kept m m' \<longleftrightarrow> accounts m' = accounts m \<and> (\<forall>z. place (heap m' z) = place (heap m z))"

lemma kept_refl [simp]: "kept m m"
  by (simp add: kept_def)

lemma kept_trans [trans]: "kept m m1 \<Longrightarrow> kept m1 m2 \<Longrightarrow> kept m m2"
  by (simp add: kept_def)

lemma steady_kept: "steady m m' \<Longrightarrow> kept m m'"
  by (simp add: steady_def kept_def standing_def place_def)

lemma kept_at: "(\<And>a. place (f a) = place a) \<Longrightarrow> kept m (at_addr x f m)"
  by (simp add: kept_def)

lemma kept_frames [simp]:
  "kept m (emit e m)" "kept m (observe_uptime x now m)" "kept m (push_account x m)"
  by (simp_all add: kept_def)

lemma kept_disable: "kept m (snd (set_system_disabled x d now db m))"
  by (auto simp: set_system_disabled_def Let_def kept_def place_def)

lemma kept_defer: "kept m (snd (defer_retry r mn x now m))"
  by (simp add: defer_retry_def Let_def kept_def place_def)

lemma kept_reject: "kept m (reject_access_token x t now m)"
  by (simp add: reject_access_token_def kept_def place_def)

lemma kept_failed: "kept m (refresh_failed w x e m)"
  using kept_disable [of m x True "ends_at w" "disable_write w"]
  by (auto simp: refresh_failed_def defer_retry_def Let_def kept_def place_def split: app_error.split)

lemma kept_succeeded: "kept m (refresh_succeeded x m)"
  by (simp add: refresh_succeeded_def kept_def place_def)

lemma kept_refresh: "kept m (snd (refresh w x p f m))"
proof -
  obtain r m' where r: "refresh w x p f m = (r, m')" by force
  from r have "kept m m'"
  proof (cases rule: refresh_cases)
    case (shared t)
    then show ?thesis
      using steady_kept [OF steady_shared [of m w x "if f then p else None"]] by simp
  next
    case (granted t m2)
    then show ?thesis
      using kept_trans [OF steady_kept [OF steady_cycle [of m w x]] kept_succeeded [of _ x]] by simp
  next
    case (failed e q m2)
    then show ?thesis
      using kept_trans [OF steady_kept [OF steady_cycle [of m w x]] kept_failed [of _ w x e]] by simp
  qed simp_all
  with r show ?thesis by simp
qed

lemma kept_get_token: "kept m (snd (get_token w x m))"
  by (simp add: get_token_def kept_refresh split: option.split)

lemma kept_unauthorized: "kept m (snd (refresh_after_unauthorized w x t m))"
  unfolding refresh_after_unauthorized_def by (rule kept_trans [OF kept_reject kept_refresh])

lemma kept_reject_refreshed: "kept m (reject_refreshed_token r x t now m)"
proof -
  have "kept m (at_addr x (\<lambda>a. a\<lparr>last_refresh_error := e\<rparr>) (reject_access_token x t now m))" for e
    by (rule kept_trans [OF kept_reject kept_at]) (simp add: place_def)
  then show ?thesis unfolding reject_refreshed_token_def by (rule kept_trans) (rule kept_defer)
qed

section \<open>Which answers switch an account off\<close>

definition bad_credentials :: "auth_answer \<Rightarrow> bool" where
  "bad_credentials ans = (case ans of
     Answer s ra body \<Rightarrow> s \<in> {400, 401} \<and>
       jget_str ''error'' body \<in> {Some ''invalid_grant'', Some ''invalid_client''}
   | _ \<Rightarrow> False)"

lemma of_send_not_unauthorized: "of_send_error st e \<noteq> Unauthorized d"
  by (simp add: of_send_error_def split: option.split)

lemma refused_unauthorized:
  "failed_with (refused_answer w now s ra body) = Unauthorized d \<Longrightarrow> bad_credentials (Answer s ra body)"
  by (auto simp: refused_answer_def bad_credentials_def non_retryable_attempt_def unwrap_or_def Let_def
      split: if_splits option.splits)

lemma store_not_unauthorized:
  "fst (store_granted w x old now db body g m) \<noteq> Inl f \<or> failed_with f \<noteq> Unauthorized d"
  by (cases g) (auto simp: store_granted_def store_refreshed_credentials_def persist_token_def Let_def
      non_retryable_attempt_def DB_ERROR_def split: if_splits option.splits sum.splits prod.splits)

lemma answer_unauthorized:
  assumes "fst (token_answer w x old now db ans m) = Some (Inl f)" "failed_with f = Unauthorized d"
  shows "bad_credentials ans"
proof (cases ans)
  case (Answer s ra body)
  with assms store_not_unauthorized [of w x old now db body _ _ f d] show ?thesis
    by (auto simp: Let_def split_beta granted_token_def non_retryable_attempt_def
        dest: refused_unauthorized split: if_splits sum.splits option.splits)
qed (use assms of_send_not_unauthorized in \<open>auto simp: Let_def\<close>)

lemma attempts_unauthorized:
  assumes "fst (token_attempts w x n k b fl m) = Some (Inl (Unauthorized d))"
  shows "fl = Some (Unauthorized d) \<or> (\<exists>j\<ge>k. j < k + n \<and> bad_credentials (answers w j))"
  using assms
proof (induction n arbitrary: k b fl m)
  case 0
  then show ?case by (auto simp: unwrap_or_def split: option.splits)
next
  case (Suc n)
  obtain q m1 where o1: "request_token_once w x k b m = (q, m1)" by force
  have bad: "bad_credentials (answers w k)" if "q = Some (Inl f)" "failed_with f = Unauthorized d" for f
    using that o1 answer_unauthorized by (auto simp: request_token_once_def split: if_splits) (metis fst_conv)
  have later: "\<exists>j\<ge>k. j < k + Suc n \<and> bad_credentials (answers w j)"
    if "\<exists>j\<ge>Suc k. j < Suc k + n \<and> bad_credentials (answers w j)"
    using that by (metis Suc_leD add_Suc add_Suc_right)
  from Suc.prems show ?case
    by (fastforce simp: o1 Let_def split: option.splits sum.splits if_splits
        dest: bad Suc.IH intro: later)
qed

lemma cycle_unauthorized:
  assumes "fst (request_token_cycle w x m) = Some (Inl (Unauthorized d))"
  shows "list_ex (\<lambda>j. bad_credentials (answers w j)) [0..<4]"
proof -
  obtain n b m1 where n: "n \<le> 4" and "fst (token_attempts w x n 0 b None m1) = Some (Inl (Unauthorized d))"
  proof -
    have "fst (token_attempts w x (if heal_failures (heap m2 x) = 0 then AUTH_INITIAL_ATTEMPTS else 1) 0
        (auth_use_basic (heap m2 x)) None m2) = Some (Inl (Unauthorized d)) \<Longrightarrow> thesis" for m2
      by (rule that) (auto simp: AUTH_INITIAL_ATTEMPTS_def)
    then show thesis using assms
      by (auto simp: request_token_cycle_def Let_def simp del: token_attempts.simps split: option.splits)
  qed
  from attempts_unauthorized [OF this(2)] n show ?thesis
    by (auto simp: list_ex_iff)
qed

lemma disable_is_active:
  "z \<noteq> x \<Longrightarrow> heap (snd (set_system_disabled x d now db m)) z = heap m z"
  by (simp add: set_system_disabled_def Let_def)

text \<open>
  C39. Only credentials that Tidal explicitly refuses (HTTP 400 or 401 with the OAuth error
  invalid_grant or invalid_client) switch an account off: not 403s, 429s, 5xx, unreadable answers,
  lost connections, timeouts or a database that fails. No other account is touched.
\<close>

theorem only_refused_credentials_disable:
  assumes "refresh w x p f m = (r, m')" "is_active (heap m z)" "\<not> is_active (heap m' z)"
  shows "z = x \<and> list_ex (\<lambda>k. bad_credentials (answers w k)) [0..<4]"
  using assms(1)
proof (cases rule: refresh_cases)
  case (shared t)
  then show ?thesis using steady_shared [of m w x "if f then p else None"] assms(2,3)
    by (simp add: steady_def standing_def)
next
  case (granted t m2)
  then show ?thesis using steady_cycle [of m w x] assms(2,3)
    by (auto simp: steady_def standing_def refresh_succeeded_def split: if_splits)
next
  case (failed e q m2)
  have act: "is_active (heap m2 z)"
    using steady_cycle [of m w x] failed(2) assms(2) by (simp add: steady_def standing_def)
  have "z = x \<and> (\<exists>d. e = Unauthorized d)"
    using assms(3) act disable_is_active [of z x True "ends_at w" "disable_write w" m2]
    by (auto simp: failed(3) refresh_failed_def defer_retry_def Let_def split: app_error.splits if_splits)
  then show ?thesis
    using failed(2,4) cycle_unauthorized [of w x m] by auto
qed (use assms in auto)

section \<open>One refresh for everybody\<close>

text \<open>What an account holds after a token was obtained by any of the three ways.\<close>

lemma granted_token_nonempty: "granted_token body = Inr (t, e, r) \<Longrightarrow> t \<noteq> []"
  by (auto simp: granted_token_def split: option.splits if_splits)

lemma store_access:
  assumes "store_granted w x old now db body (t, e, rot) m = (Inr t', m')"
  shows "t' = t \<and> access_token (heap m' x) = Some t"
  using assms
  by (auto simp: store_granted_def store_refreshed_credentials_def Let_def split: if_splits option.splits sum.splits)

lemma once_access:
  assumes "request_token_once w x k b m = (Some (Inr t), m')"
  shows "access_token (heap m' x) = Some t \<and> t \<noteq> []"
proof -
  obtain s ra body where ans: "answers w k = Answer s ra body"
    using assms by (cases "answers w k") (auto simp: request_token_once_def Let_def split: if_splits)
  have *: "access_token (heap m2 x) = Some t' \<and> t' \<noteq> []"
    if "granted_token body = Inr g" "store_granted w x old now db body g m1 = (Inr t', m2)" for g m1 m2 t' old now db
    using that store_access granted_token_nonempty by (cases g) blast
  from assms show ?thesis
    by (auto simp: request_token_once_def ans Let_def split: if_splits sum.splits prod.splits dest: *)
qed

lemma attempts_access:
  "token_attempts w x n k b fl m = (Some (Inr t), m') \<Longrightarrow>
     access_token (heap m' x) = Some t \<and> t \<noteq> [] \<and> asked m < asked m'"
proof (induction n arbitrary: k b fl m)
  case (Suc n)
  obtain q m1 where o1: "request_token_once w x k b m = (q, m1)" by force
  have 1: "asked m \<le> asked m1" and 2: "q = Some (Inr t') \<Longrightarrow> asked m < asked m1" for t'
    using asked_once [of w x k b m] o1 by (auto simp: request_token_once_def split: if_splits)
  have 3: "q = Some (Inr t') \<Longrightarrow> access_token (heap m1 x) = Some t' \<and> t' \<noteq> []" for t'
    using once_access o1 by blast
  from Suc.prems show ?case
    by (auto simp: o1 Let_def split: option.splits sum.splits if_splits
        dest: 2 3 dest!: Suc.IH intro: le_less_trans [OF 1])
qed simp

lemma cycle_access:
  assumes "request_token_cycle w x m = (Some (Inr t), m')"
  shows "access_token (heap m' x) = Some t \<and> t \<noteq> [] \<and> asked m < asked m'"
  using assms attempts_access [of w x _ 0 _ None "rotate_proxy x m" t m']
  by (auto simp: request_token_cycle_def Let_def simp del: token_attempts.simps
      split: option.splits if_splits dest: attempts_access)

lemma refresh_access:
  assumes "refresh w x p f m = (Inr t, m')"
  shows "access_token (heap m' x) = Some t \<and> t \<noteq> []"
  using assms
proof (cases rule: refresh_cases)
  case (hand t')
  then show ?thesis by (auto simp: cached_token_def split: option.splits if_splits)
next
  case (shared t')
  then show ?thesis by (auto simp: shared_token_def split: option.splits if_splits)
next
  case (granted t' m2)
  then show ?thesis using cycle_access [of w x m t' m2] by (simp add: refresh_succeeded_def)
qed simp_all

text \<open>
  Callers that all got a 401 for the token \<open>rejected\<close>: each marks it as rejected (before or after
  the first refresh is through, \<open>late\<close>) and then refreshes.
\<close>

fun callers :: "nat \<Rightarrow> string \<Rightarrow> (bool \<times> auth_world) list \<Rightarrow> manager \<Rightarrow> (app_error + string) list \<times> manager" where
  "callers x rejected [] m = ([], m)"
| "callers x rejected ((late, w) # ws) m =
     (let m0 = (if late then reject_access_token x rejected (starts_at w) m else m);
          (r, m1) = refresh w x (Some rejected) True m0;
          (rs, m2) = callers x rejected ws m1
      in (r # rs, m2))"

lemma late_reject:
  "access_token (heap m x) \<noteq> Some r \<Longrightarrow> heap (reject_access_token x r now m) = heap m"
  by (simp add: reject_access_token_def)

lemma callers_served:
  assumes "access_token (heap m x) = Some t" "t \<noteq> []" "t \<noteq> r" "rejected_access_token (heap m x) \<noteq> Some t"
    and "list_all (\<lambda>(late, v). starts_at v < token_expires_at (heap m x)) ws"
  shows "fst (callers x r ws m) = replicate (length ws) (Inr t) \<and> asked (snd (callers x r ws m)) = asked m"
  using assms
proof (induction ws arbitrary: m)
  case (Cons c ws)
  obtain late v where c: "c = (late, v)" by force
  let ?m0 = "if late then reject_access_token x r (starts_at v) m else m"
  have h: "heap ?m0 = heap m" using Cons.prems(1,3) by (simp add: late_reject)
  have "refresh v x (Some r) True ?m0 = (Inr t, ?m0)"
    using Cons.prems by (simp add: refresh_def Let_def h c cached_token_def)
  moreover have "fst (callers x r ws ?m0) = replicate (length ws) (Inr t) \<and> asked (snd (callers x r ws ?m0)) = asked ?m0"
    using Cons.prems by (intro Cons.IH) (simp_all add: h c)
  ultimately show ?case by (simp add: c split_beta)
qed simp

text \<open>
  Callers that saw the same 401 share one refresh: once the first of them has a new token, each
  of the others gets that token, in whatever order they mark the old one as rejected, and no further
  request is sent.
\<close>

lemma one_refresh_for_all_callers:
  assumes "refresh_after_unauthorized w x r m = (Inr t, m')"
    and "t \<noteq> r" "rejected_access_token (heap m' x) \<noteq> Some t"
    and "list_all (\<lambda>(late, v). starts_at v < token_expires_at (heap m' x)) ws"
  shows "fst (callers x r ws m') = replicate (length ws) (Inr t) \<and> asked (snd (callers x r ws m')) = asked m'"
  using callers_served [of m' x t r ws] refresh_access [OF assms(1) [unfolded refresh_after_unauthorized_def]] assms(2-4)
  by simp

text \<open>
  A rejected token is not reused: whichever way an account then gets a token without asking
  Tidal (from memory or from the other instances), it is a different one.
\<close>

lemma rejected_token_not_reused:
  assumes "rejected_access_token (heap m x) = Some r" "get_token w x m = (Inr t, m')" "asked m' = asked m"
  shows "t \<noteq> r"
proof -
  have c: "cached_token (starts_at w) (heap m x) = Some t \<Longrightarrow> t \<noteq> r" for t
    using assms(1) by (auto simp: cached_token_def split: option.splits if_splits)
  from assms(2) consider "cached_token (starts_at w) (heap m x) = Some t" | "refresh w x None False m = (Inr t, m')"
    by (auto simp: get_token_def split: option.splits)
  then show ?thesis
  proof cases
    case 2
    then show ?thesis
    proof (cases rule: refresh_cases)
      case (shared t')
      then show ?thesis using assms(1) by (auto simp: shared_token_def split: option.splits if_splits)
    next
      case (granted t' m2)
      then show ?thesis using assms(3) cycle_access [of w x m t' m2] by simp
    qed (use c in auto)
  qed (rule c)
qed

section \<open>Answers that come too late\<close>

definition credentials :: "account \<Rightarrow> string \<times> string \<times> string option \<times> int" where
  "credentials a = (client_secret a, refresh_token a, access_token a, token_expires_at a)"

lemma credentials_country [simp]: "credentials (set_country c a) = credentials a"
  by (auto simp: set_country_def credentials_def split: option.split)

lemma replace_first_set: "set (replace_first P y xs) \<subseteq> insert y (set xs)"
  by (induction xs) auto

lemma replace_first_out:
  "distinct xs \<Longrightarrow> find P xs = Some x \<Longrightarrow> y \<notin> set xs \<Longrightarrow> x \<notin> set (replace_first P y xs)"
proof (induction xs)
  case (Cons a xs)
  show ?case
  proof (cases "P a")
    case True
    with Cons.prems show ?thesis by auto
  next
    case False
    with Cons.prems have "find P xs = Some x" by simp
    moreover from this have "x \<in> set xs" by (auto simp: find_Some_iff)
    ultimately show ?thesis using Cons False by auto
  qed
qed simp

lemma edited_out:
  assumes "addrs_ok m" "distinct (accounts m)" "get_account_by_id i m = Some x"
    and "update_account pct locks i l c s r u now db m = (Inr (), m1)"
  shows "x \<notin> set (accounts m1)"
  using assms(4) replace_first_out [OF assms(2) assms(3) [unfolded get_account_by_id_def]
      addrs_fresh [OF assms(1)]] assms(3)
  by (auto simp: update_account_def alloc_def share_history_def Let_def push_account_def observe_uptime_def
      split: if_splits)

fun announces :: "effect \<Rightarrow> bool" where
  "announces (ShareToken i t ex n) = True"
| "announces (Publish a) = True"
| "announces e = False"

lemma gone_answer:
  assumes "x \<notin> set (accounts m)" "token_answer w x old now db ans m = (q, m')"
  shows "q \<noteq> Some (Inr t)" "accounts m' = accounts m" "credentials (heap m' z) = credentials (heap m z)"
    and "filter announces (outbox m')
       = filter announces (outbox m)"
proof -
  have st: "store_refreshed_credentials x o' rot t ex n d (at_addr x f m'')
      = (Inl (ServiceUnavailable ''Account changed during refresh''), at_addr x f m'')"
    if "accounts m'' = accounts m" for o' rot t ex n d f m''
    using assms(1) that by (simp add: store_refreshed_credentials_def)
  have p: "credentials (snd (pause_account d n v a)) = credentials a" for d n v a
    by (simp add: pause_account_def next_strike_def credentials_def Let_def split_beta)
  note d = store_granted_def Let_def split_beta st
  show "q \<noteq> Some (Inr t)" "accounts m' = accounts m" "credentials (heap m' z) = credentials (heap m z)"
    "filter announces (outbox m')
       = filter announces (outbox m)"
    using assms(2) by (cases ans; auto simp: d p split: if_splits sum.splits)+
qed

text \<open>
  An answer that comes back after the owner edited the account is dropped: no token is handed
  out, no credential of any account changes, and nothing is published or shared with the other
  instances.
\<close>

lemma late_answer_dropped:
  assumes "addrs_ok m" "distinct (accounts m)" "get_account_by_id i m = Some x"
    and "update_account pct locks i lbl cid secret rtoken uid now db m = (Inr (), m1)"
    and "token_answer w x old_refresh now' db' ans m1 = (q, m2)"
  shows "(\<forall>t. q \<noteq> Some (Inr t)) \<and> (\<forall>z. credentials (heap m2 z) = credentials (heap m1 z))
    \<and> filter announces (outbox m2)
      = filter announces (outbox m1)"
  using gone_answer [OF edited_out [OF assms(1-4)] assms(5)] by blast

section \<open>Concrete runs\<close>

definition demo_world :: "auth_answer \<Rightarrow> json option \<Rightarrow> auth_world" where
  "demo_world ans sh = \<lparr>dates = (\<lambda>_. None), status_text = (\<lambda>_. ''400''), proxy_of = None, has_store = True,
     shared = sh, answers = (\<lambda>_. ans), times = (\<lambda>_. 9500), writes = (\<lambda>_. None), disable_write = None,
     jitter = 5, starts_at = 9400, ends_at = 9600\<rparr>"

definition refused :: auth_answer where
  "refused = Answer 400 None (JObj [(''error'', JStr ''invalid_grant'')])"

definition granted :: auth_answer where
  "granted = Answer 200 None (JObj [(''access_token'', JStr ''new''), (''expires_in'', JInt 3600)])"

lemma demo_account_c: "heap demo_manager 2 = demo_account ''c'' True" "2 \<in> set (accounts demo_manager)"
  by (simp_all add: demo_manager_def)

lemma demo_q: "acc_id (demo_account i c) = i" "heal_failures (demo_account i c) = 0"
  "heal_next_retry (demo_account i c) = 0" "rate_limited_until (demo_account i c) = 0"
  "token_expires_at (demo_account i c) = 9000" "access_token (demo_account i c) = Some ''tok''"
  "rejected_access_token (demo_account i c) = None" "is_active (demo_account i c)"
  "refresh_token (demo_account i c) = ''ref''" "\<not> auth_use_basic (demo_account i c)"
  by (simp_all add: demo_account_def account_new_def)

lemma attempts_stop:
  "request_token_once w x k b m = (Some (Inl f), m1) \<Longrightarrow> \<not> retryable f \<Longrightarrow> 0 < n \<Longrightarrow>
     fst (token_attempts w x n k b fl m) = Some (Inl (failed_with f))"
  by (cases n) (simp_all add: Let_def)

lemma attempts_done:
  "request_token_once w x k b m = (Some (Inr t), m1) \<Longrightarrow> 0 < n \<Longrightarrow>
     token_attempts w x n k b fl m =
       (Some (Inr t), at_addr x (\<lambda>a. a\<lparr>auth_use_basic := b, auth_forbidden_streak := 0\<rparr>) m1)"
  by (cases n) simp_all

lemma demo_once_refused:
  "request_token_once (demo_world refused sh) 2 0 b demo_manager =
     (Some (Inl (non_retryable_attempt (Unauthorized ''Tidal auth HTTP 400: OAuth invalid_grant''))),
      token_sent 2 b demo_manager)"
  by (simp add: request_token_once_def demo_world_def refused_def is_success_def refused_answer_def
      jget_str_def Let_def)

lemma demo_ready:
  "cached_token 9400 (heap demo_manager 2) = None" "rate_limit_remaining 9400 (heap demo_manager 2) = None"
  "heal_next_retry (heap demo_manager 2) = 0" "heal_failures (heap demo_manager 2) = 0"
  by (simp_all add: demo_account_c demo_q cached_token_def rate_limit_remaining_def sat_sub_i64_def
      clamp_i64_def i64_max_def)

lemma demo_refused:
  "fst (refresh (demo_world refused None) 2 None False demo_manager) =
     Inl (Unauthorized ''Tidal auth HTTP 400: OAuth invalid_grant'')"
proof -
  have "fst (request_token_cycle (demo_world refused None) 2 demo_manager) =
      Some (Inl (Unauthorized ''Tidal auth HTTP 400: OAuth invalid_grant''))"
    using attempts_stop [OF demo_once_refused [of None "auth_use_basic (heap demo_manager 2)"], of 4 None]
    by (simp add: request_token_cycle_def demo_ready AUTH_INITIAL_ATTEMPTS_def non_retryable_attempt_def
        demo_world_def del: token_attempts.simps)
  then show ?thesis
    by (auto simp: refresh_def demo_world_def demo_ready shared_token_def split: prod.split)
qed

lemma failed_refresh_cools_down_witness:
  "asked (snd (refresh (demo_world granted None) 2 None False
      (snd (refresh (demo_world refused None) 2 None False demo_manager))))
   = asked (snd (refresh (demo_world refused None) 2 None False demo_manager))"
proof -
  have r: "refresh (demo_world refused None) 2 None False demo_manager =
      (Inl (Unauthorized ''Tidal auth HTTP 400: OAuth invalid_grant''),
       snd (refresh (demo_world refused None) 2 None False demo_manager))"
    by (simp add: prod_eq_iff demo_refused)
  show ?thesis
    using failed_refresh_cools_down [OF r, of "demo_world granted None" None False]
    by (simp add: demo_world_def demo_ready clock_ok_def minimum_wait_def)
qed

lemma only_refused_credentials_disable_witness:
  "\<not> is_active (heap (snd (refresh (demo_world refused None) 2 None False demo_manager)) 2)
   \<and> bad_credentials refused"
proof -
  let ?m' = "snd (refresh (demo_world refused None) 2 None False demo_manager)"
  have r: "refresh (demo_world refused None) 2 None False demo_manager =
      (Inl (Unauthorized ''Tidal auth HTTP 400: OAuth invalid_grant''), ?m')"
    by (simp add: prod_eq_iff demo_refused)
  have off: "\<not> is_active (heap ?m' 2)"
    using r
  proof (cases rule: refresh_cases)
    case (waits e)
    then show ?thesis by (simp add: demo_world_def demo_ready)
  next
    case (failed e q m2)
    have "steady demo_manager m2" using steady_cycle [of demo_manager "demo_world refused None" 2] failed(2) by simp
    then have "2 \<in> set (accounts m2)" "is_active (heap m2 2)"
      by (simp_all add: steady_def standing_def demo_account_c demo_q)
    with failed(1) show ?thesis
      by (auto simp: failed(3) refresh_failed_def defer_retry_def set_system_disabled_def Let_def
          split: if_splits)
  qed simp_all
  have "bad_credentials refused"
    using only_refused_credentials_disable [OF r _ off]
    by (auto simp: list_ex_iff demo_world_def demo_account_c demo_q)
  with off show ?thesis by simp
qed

text \<open>A refresh that Tidal grants, and one that finds a fresh token in the shared store.\<close>

lemma demo_grant:
  "\<exists>m'. refresh (demo_world granted None) 2 (Some ''tok'') True m = (Inr ''new'', m') \<and>
     rejected_access_token (heap m' 2) = rejected_access_token (heap m 2) \<and>
     token_expires_at (heap m' 2) = 13040"
  if "accounts m = accounts demo_manager" "heap m 2 = (heap demo_manager 2)\<lparr>rejected_access_token := rj\<rparr>"
  for m
proof -
  have "\<exists>m1. request_token_once (demo_world granted None) 2 0 b m = (Some (Inr ''new''), m1) \<and>
      rejected_access_token (heap m1 2) = rj \<and> token_expires_at (heap m1 2) = 13040" for b
    using that demo_account_c(2)
    by (simp add: request_token_once_def demo_world_def granted_def is_success_def granted_token_def
        jget_str_def jget_i64_def Let_def store_granted_def store_refreshed_credentials_def token_sent_def
        persist_token_def db_fails_def expiry_time_def sat_add_i64_def sat_sub_i64_def clamp_i64_def i64_max_def
        split_beta set_country_def)
  then obtain m1 where "request_token_once (demo_world granted None) 2 0 (auth_use_basic (heap m 2)) m =
      (Some (Inr ''new''), m1)" and m1: "rejected_access_token (heap m1 2) = rj" "token_expires_at (heap m1 2) = 13040"
    by blast
  from attempts_done [OF this(1), of 4 None]
  have "request_token_cycle (demo_world granted None) 2 m =
      (Some (Inr ''new''), at_addr 2 (\<lambda>a. a\<lparr>auth_use_basic := auth_use_basic (heap m 2), auth_forbidden_streak := 0\<rparr>) m1)"
    using that(2) by (simp add: request_token_cycle_def demo_ready AUTH_INITIAL_ATTEMPTS_def demo_world_def
        del: token_attempts.simps)
  moreover have "shared_token (demo_world granted None) 2 (Some ''tok'') m = (None, m)"
    by (simp add: shared_token_def demo_world_def)
  moreover have "cached_token 9400 (heap m 2) = None" "rate_limit_remaining 9400 (heap m 2) = None"
    using that(2) demo_ready by (simp_all add: cached_token_def rate_limit_remaining_def demo_account_c demo_q)
  ultimately show ?thesis
    using that(2) m1
    by (simp add: refresh_def demo_world_def demo_ready refresh_succeeded_def)
qed

lemma one_refresh_for_all_callers_witness:
  "let m' = snd (refresh_after_unauthorized (demo_world granted None) 2 ''tok'' demo_manager)
   in fst (callers 2 ''tok'' [(True, demo_world granted None), (False, demo_world granted None)] m')
        = [Inr ''new'', Inr ''new'']"
proof -
  let ?m0 = "reject_access_token 2 ''tok'' 9400 demo_manager"
  have "accounts ?m0 = accounts demo_manager"
    "heap ?m0 2 = (heap demo_manager 2)\<lparr>rejected_access_token := Some ''tok''\<rparr>"
    by (simp_all add: reject_access_token_def demo_account_c demo_q)
  from demo_grant [OF this] obtain m' where
    r: "refresh_after_unauthorized (demo_world granted None) 2 ''tok'' demo_manager = (Inr ''new'', m')"
    and "rejected_access_token (heap m' 2) = Some ''tok''" "token_expires_at (heap m' 2) = 13040"
    by (auto simp: refresh_after_unauthorized_def demo_world_def reject_access_token_def demo_account_c demo_q)
  then show ?thesis
    using one_refresh_for_all_callers [OF r, of "[(True, demo_world granted None), (False, demo_world granted None)]"]
    by (simp add: demo_world_def numeral_eq_Suc del: callers.simps)
qed

definition fleet_token :: json where
  "fleet_token = JObj [(''t'', JStr ''fleet''), (''e'', JInt 20000)]"

lemma rejected_token_not_reused_witness:
  "fst (get_token (demo_world granted (Some fleet_token)) 2 (reject_access_token 2 ''tok'' 8000 demo_manager))
     = Inr ''fleet'' \<and> ''fleet'' \<noteq> ''tok''"
proof -
  let ?m = "reject_access_token 2 ''tok'' 8000 demo_manager"
  let ?w = "demo_world granted (Some fleet_token)"
  have rj: "rejected_access_token (heap ?m 2) = Some ''tok''"
    by (simp add: reject_access_token_def demo_account_c demo_q)
  have h: "heap ?m 2 = (heap demo_manager 2)\<lparr>rejected_access_token := Some ''tok''\<rparr>"
    by (simp add: reject_access_token_def demo_account_c demo_q)
  have r: "get_token ?w 2 ?m = (Inr ''fleet'', snd (shared_token ?w 2 None ?m))"
    using demo_ready by (simp add: get_token_def refresh_def demo_world_def fleet_token_def shared_token_def h
        cached_token_def rate_limit_remaining_def demo_account_c demo_q jget_str_def jget_i64_def)
  from rejected_token_not_reused [OF rj r] show ?thesis by (simp add: r)
qed

lemma late_answer_dropped_witness:
  "let m1 = snd (update_account Some all_free ''q'' (Some ''new label'') None None None None 5000 None demo_manager)
   in credentials (heap (snd (token_answer (demo_world granted None) 1 ''ref'' 9500 None granted m1)) 3)
        = credentials (heap m1 3)"
proof -
  let ?m1 = "snd (update_account Some all_free ''q'' (Some ''new label'') None None None None 5000 None demo_manager)"
  have up: "update_account Some all_free ''q'' (Some ''new label'') None None None None 5000 None demo_manager
      = (Inr (), ?m1)" by (simp add: prod_eq_iff demo_edit)
  have "distinct (accounts demo_manager)" by (simp add: demo_manager_def)
  from late_answer_dropped [OF demo_addrs(1) this demo_edit(1) up prod.collapse [symmetric],
      of "demo_world granted None" "''ref''" 9500 None granted]
  show ?thesis by simp
qed

end
