(* ===== verification/TidalClient.thy ===== *)
theory TidalClient
  imports TokenProps
begin

text \<open>
  \<open>src/tidal_client.rs\<close>: how one request reaches Tidal. \<open>make_request_with_limit\<close> walks over the
  pool's accounts, \<open>catalog_get\<close> tries the static token, a catalog account and then the pool.

  A request is one run over the manager's state; what comes from outside is in a record, indexed
  by the account try and the attempt on that account: the passes of the waits for a lease (with
  what others do meanwhile), the worlds of the token calls, the replies, whether the proxy manager
  has a client, and the clock in milliseconds. A wait whose list of passes runs out is a client
  that went away: the result is \<open>None\<close>. Headers, query parameters, the sleep before a retry and
  the development log are left out. \<open>trace\<close> records which account was asked and what it replied.
\<close>

section \<open>Fallback after a 429\<close>

definition RATE_LIMIT_FALLBACKS :: nat where "RATE_LIMIT_FALLBACKS = 2"

datatype read_body =
    BodyLost send_error
  | Unparsed string
  | Parsed json

datatype api_reply =
    NoReply send_error
  | Reply nat "string option" read_body

record rate_fallback =
  first_try :: "nat option"
  hits :: nat

record tries =
  failed_ids :: "string list"
  last_error :: "app_error option"
  limits :: rate_fallback
  previewed :: "nat list"
  trace :: "(nat \<times> api_reply) list"

definition fresh_tries :: tries where
  "fresh_tries = \<lparr>failed_ids = [], last_error = None, limits = \<lparr>first_try = None, hits = 0\<rparr>,
     previewed = [], trace = []\<rparr>"

definition schedule :: "nat \<Rightarrow> string \<Rightarrow> app_error \<Rightarrow> tries \<Rightarrow> app_error option \<times> tries" where
  "schedule i aid e t =
     (let l = limits t; h = hits l + 1
      in if h > RATE_LIMIT_FALLBACKS then (Some e, t\<lparr>limits := l\<lparr>hits := h\<rparr>\<rparr>)
         else (None, t\<lparr>limits := \<lparr>first_try = Some (unwrap_or (first_try l) i), hits = h\<rparr>,
                      failed_ids := failed_ids t @ [aid], last_error := Some e\<rparr>))"

definition exhausted :: "nat \<Rightarrow> rate_fallback \<Rightarrow> bool" where
  "exhausted i l \<longleftrightarrow> (case first_try l of None \<Rightarrow> False | Some f \<Rightarrow> i > f + RATE_LIMIT_FALLBACKS)"

section \<open>The outside of a request\<close>

record api_world =
  penalty :: int
  rules_of :: lease_rules
  per_account :: nat
  version :: string
  passes :: "nat \<Rightarrow> pass list"
  wait_from :: "nat \<Rightarrow> instant"
  token_world :: "nat \<Rightarrow> nat \<Rightarrow> auth_world"
  retry_world :: "nat \<Rightarrow> nat \<Rightarrow> auth_world"
  first_client_error :: "nat \<Rightarrow> string option"
  client_error :: "nat \<Rightarrow> nat \<Rightarrow> string option"
  reply :: "nat \<Rightarrow> nat \<Rightarrow> api_reply"
  lease_ms :: "nat \<Rightarrow> int"
  send_ms :: "nat \<Rightarrow> nat \<Rightarrow> int"
  reply_ms :: "nat \<Rightarrow> nat \<Rightarrow> int"
  drop_ms :: "nat \<Rightarrow> int"

definition secs :: "int \<Rightarrow> int" where
  "secs ms = ms div 1000"

datatype step =
    Stop "app_error + json"
  | NextAccount
  | Again bool

section \<open>What a reply means\<close>

definition give_up :: "nat \<Rightarrow> int \<Rightarrow> app_error \<Rightarrow> tries \<Rightarrow> manager \<Rightarrow> step \<times> tries \<times> manager" where
  "give_up x now_ms e t m =
     (NextAccount, t\<lparr>last_error := Some e, failed_ids := failed_ids t @ [acc_id (heap m x)]\<rparr>,
      mark_account_error (acc_id (heap m x)) now_ms m)"

definition limited :: "nat \<Rightarrow> nat \<Rightarrow> app_error \<Rightarrow> tries \<Rightarrow> manager \<Rightarrow> step \<times> tries \<times> manager" where
  "limited i x e t m =
     (case schedule i (acc_id (heap m x)) e t of
        (Some e', t1) \<Rightarrow> (Stop (Inl e'), t1, m)
      | (None, t1) \<Rightarrow> (NextAccount, t1, m))"

definition presents :: "string \<Rightarrow> json \<Rightarrow> bool" where
  "presents p data \<longleftrightarrow>
     jget_str ''assetPresentation'' data = Some p \<or>
     Option.bind (Option.bind (Option.bind (jget ''data'' data) (jget ''attributes''))
       (jget ''trackPresentation'')) as_str = Some p"

definition envelope :: "string \<Rightarrow> json \<Rightarrow> json" where
  "envelope v data = JObj [(''version'', JStr v), (''data'', data)]"

definition on_body ::
    "api_world \<Rightarrow> lease_kind \<Rightarrow> nat \<Rightarrow> nat \<Rightarrow> int \<Rightarrow> read_body \<Rightarrow> tries \<Rightarrow> manager \<Rightarrow> step \<times> tries \<times> manager" where
  "on_body w kind x s now body t m =
     (case body of
        BodyLost e \<Rightarrow> (Stop (Inl (of_send_error (status_text (token_world w 0 0)) e)), t, m)
      | Unparsed why \<Rightarrow> (Stop (Inl (UpstreamError s (''Failed to parse Tidal response: '' @ why))), t, m)
      | Parsed data \<Rightarrow>
          (let m1 = (if presents ''FULL'' data \<and> kind = Playback
                     then fold (\<lambda>y m. snd (note_traffic_preview y now m)) (previewed t) (confirm_full x now m)
                     else m)
           in if presents ''PREVIEW'' data
              then (NextAccount,
                    t\<lparr>previewed := previewed t @ [x], failed_ids := failed_ids t @ [acc_id (heap m x)],
                      last_error := Some (PreviewOnly (''Preview only for track: account ''
                        @ acc_id (heap m x) @ '' cannot provide FULL (subscription required)''))\<rparr>, m1)
              else (Stop (Inr (envelope (version w) data)), t, m1)))"

definition on_401 ::
    "api_world \<Rightarrow> nat \<Rightarrow> nat \<Rightarrow> nat \<Rightarrow> bool \<Rightarrow> bool \<Rightarrow> string \<Rightarrow> tries \<Rightarrow> manager \<Rightarrow> step \<times> tries \<times> manager" where
  "on_401 w i k x may_retry refreshed token t m =
     (if \<not> refreshed then
        (if may_retry then
           (case refresh_after_unauthorized (retry_world w i k) x token m of
              (Inr _, m1) \<Rightarrow> (Again True, t, m1)
            | (Inl (RateLimited s), m1) \<Rightarrow> limited i x (RateLimited s) t m1
            | (Inl e, m1) \<Rightarrow> give_up x (reply_ms w i k) e t m1)
         else give_up x (reply_ms w i k) (Unauthorized
                ''Tidal rejected token; per-account request limit prevented refresh retry'') t m)
      else give_up x (reply_ms w i k) (Unauthorized ''Tidal rejected refreshed token'') t
             (reject_refreshed_token (jitter (retry_world w i k)) x token (secs (reply_ms w i k)) m))"

definition UPSTREAM_ERROR :: string where "UPSTREAM_ERROR = ''Upstream API error''"

fun on_reply ::
    "api_world \<Rightarrow> lease_kind \<Rightarrow> nat \<Rightarrow> nat \<Rightarrow> nat \<Rightarrow> bool \<Rightarrow> bool \<Rightarrow> string \<Rightarrow> api_reply \<Rightarrow> tries \<Rightarrow> manager \<Rightarrow>
     step \<times> tries \<times> manager" where
  "on_reply w kind i k x may_retry refreshed token (NoReply e) t m =
     (Stop (Inl (of_send_error (status_text (token_world w i k)) e)), t,
      if is_connect e \<or> is_timeout e then emit (ProxyFailed (acc_id (heap m x))) m else m)"
| "on_reply w kind i k x may_retry refreshed token (Reply s retry_after body) t m =
     (let m1 = emit (ProxyAnswered (acc_id (heap m x))) m; now_ms = reply_ms w i k; now = secs now_ms
      in if s = 401 then on_401 w i k x may_retry refreshed token t m1
         else if s = 404 then (Stop (Inl (NotFound ''Resource not found'')), t, m1)
         else if s = 429 then
           (let (seconds, a) = pause_account (dates (token_world w i k)) now retry_after (heap m1 x);
                m2 = mark_account_error (acc_id a) now_ms (at_addr x (\<lambda>_. a) m1)
            in limited i x (RateLimited seconds) t m2)
         else if s = 403 then
           (if may_retry then (Again refreshed, t, m1)
            else (let (r, t2, m2) = give_up x now_ms (UpstreamError s UPSTREAM_ERROR) t m1
                  in (r, t2, emit (AlertForbidden (label (heap m2 x)) (fst (healthy_count m2))
                                    (snd (healthy_count m2))) m2)))
         else if \<not> is_success s then
           (if may_retry \<and> 500 \<le> s then (Again refreshed, t, m1)
            else give_up x now_ms (UpstreamError s UPSTREAM_ERROR) t m1)
         else on_body w kind x s now body t m1)"

section \<open>One account\<close>

text \<open>
  The attempts on the leased account \<open>x\<close>, with \<open>n\<close> left after \<open>k\<close>. \<open>refreshed\<close> says that a 401
  was already answered by a token refresh.
\<close>

fun account_attempts ::
    "api_world \<Rightarrow> lease_kind \<Rightarrow> nat \<Rightarrow> nat \<Rightarrow> nat \<Rightarrow> nat \<Rightarrow> bool \<Rightarrow> tries \<Rightarrow> manager \<Rightarrow>
     step \<times> tries \<times> manager" where
  "account_attempts w kind i x 0 k refreshed t m = (NextAccount, t, m)"
| "account_attempts w kind i x (Suc n) k refreshed t m =
     (case get_token (token_world w i k) x m of
        (Inl (RateLimited s), m1) \<Rightarrow> limited i x (RateLimited s) t m1
      | (Inl e, m1) \<Rightarrow> give_up x (reply_ms w i k) e t m1
      | (Inr token, m1) \<Rightarrow>
          (case rate_limit_remaining (secs (send_ms w i k)) (heap m1 x) of
             Some s \<Rightarrow> limited i x (RateLimited s) t m1
           | None \<Rightarrow>
               (case client_error w i k of
                  Some e \<Rightarrow> (Stop (Inl (ServiceUnavailable e)), t, m1)
                | None \<Rightarrow>
                    (case on_reply w kind i k x (n > 0) refreshed token (reply w i k)
                            (t\<lparr>trace := trace t @ [(x, reply w i k)]\<rparr>) m1 of
                       (Again refreshed', t2, m2) \<Rightarrow> account_attempts w kind i x n (Suc k) refreshed' t2 m2
                     | out \<Rightarrow> out))))"

section \<open>The walk over the pool\<close>

fun is_substring :: "string \<Rightarrow> string \<Rightarrow> bool" where
  "is_substring p [] = (p = [])"
| "is_substring p (c # cs) = (starts_with p (c # cs) \<or> is_substring p cs)"

definition alert_if_all_down :: "app_error \<Rightarrow> manager \<Rightarrow> manager" where
  "alert_if_all_down e m =
     (case e of
        ServiceUnavailable msg \<Rightarrow>
          if is_substring ''All accounts'' msg then emit (AlertAllDown (snd (healthy_count m))) m else m
      | _ \<Rightarrow> m)"

definition lease_pool_account ::
    "api_world \<Rightarrow> lease_kind \<Rightarrow> nat \<Rightarrow> string list \<Rightarrow> manager \<Rightarrow> (app_error + lease) option \<times> manager" where
  "lease_pool_account w kind i excluded m =
     lease_account_for (penalty w) excluded kind (rules_of w) (wait_from w i) (passes w i) m"

definition lease_or_fail ::
    "api_world \<Rightarrow> lease_kind \<Rightarrow> nat \<Rightarrow> tries \<Rightarrow> manager \<Rightarrow>
     (app_error + lease) option \<times> tries \<times> bool \<times> manager" where
  "lease_or_fail w kind i t m =
     (case lease_pool_account w kind i (failed_ids t) m of
        (Some (Inl e), m1) \<Rightarrow>
          (Some (Inl (after_failover e (last_error t))), t, False, alert_if_all_down e m1)
      | (r, m1) \<Rightarrow> (r, t, False, m1))"

text \<open>
  Which account is tried next: the preferred one at first, or an account of the pool. The flag
  says that the preferred account was in a pause, which allows only this one try.
\<close>

definition acquire ::
    "api_world \<Rightarrow> lease_kind \<Rightarrow> nat option \<Rightarrow> nat \<Rightarrow> tries \<Rightarrow> manager \<Rightarrow>
     (app_error + lease) option \<times> tries \<times> bool \<times> manager" where
  "acquire w kind preferred i t m =
     (case (if i = 0 \<and> failed_ids t = [] then preferred else None) of
        None \<Rightarrow> lease_or_fail w kind i t m
      | Some a \<Rightarrow>
          (case rate_limit_remaining (secs (lease_ms w i)) (heap m a) of
             None \<Rightarrow> (let (l, m1) = lease_chosen (lease_ms w i) a m in (Some (Inr l), t, False, m1))
           | Some s \<Rightarrow>
               (case schedule i (acc_id (heap m a)) (RateLimited s) t of
                  (Some e, t1) \<Rightarrow> (Some (Inl e), t1, True, m)
                | (None, t1) \<Rightarrow>
                    (case lease_pool_account w kind i (failed_ids t1) m of
                       (Some (Inl _), m1) \<Rightarrow> (Some (Inl (RateLimited s)), t1, True, m1)
                     | (r, m1) \<Rightarrow> (r, t1, True, m1)))))"

definition ALL_FAILED :: app_error where
  "ALL_FAILED = ServiceUnavailable ''All accounts failed after fallback''"

fun try_accounts ::
    "api_world \<Rightarrow> lease_kind \<Rightarrow> nat option \<Rightarrow> nat \<Rightarrow> nat \<Rightarrow> bool \<Rightarrow> tries \<Rightarrow> manager \<Rightarrow>
     (app_error + json) option \<times> tries \<times> manager" where
  "try_accounts w kind preferred 0 i consumed t m = (Some (Inl (unwrap_or (last_error t) ALL_FAILED)), t, m)"
| "try_accounts w kind preferred (Suc n) i consumed t m =
     (if consumed \<and> i > 0 \<or> exhausted i (limits t)
      then (Some (Inl (unwrap_or (last_error t) ALL_FAILED)), t, m)
      else (case acquire w kind preferred i t m of
              (None, t1, c, m1) \<Rightarrow> (None, t1, m1)
            | (Some (Inl e), t1, c, m1) \<Rightarrow> (Some (Inl e), t1, m1)
            | (Some (Inr l), t1, c, m1) \<Rightarrow>
                (case (case first_client_error w i of
                         Some e \<Rightarrow> (Stop (Inl (ServiceUnavailable e)), t1, m1)
                       | None \<Rightarrow> account_attempts w kind i (lease_addr l) (max (per_account w) 1) 0 False t1 m1) of
                   (Stop r, t2, m2) \<Rightarrow> (Some r, t2, drop_lease (drop_ms w i) l m2)
                 | (_, t2, m2) \<Rightarrow>
                     try_accounts w kind preferred n (Suc i) (consumed \<or> c) t2 (drop_lease (drop_ms w i) l m2))))"

definition make_request_with_limit ::
    "api_world \<Rightarrow> lease_kind \<Rightarrow> nat option \<Rightarrow> nat option \<Rightarrow> manager \<Rightarrow>
     (app_error + json) option \<times> tries \<times> manager" where
  "make_request_with_limit w kind preferred account_limit m =
     (let attempts = max 1 (playback_count m);
          attempts = (case account_limit of None \<Rightarrow> attempts | Some cap \<Rightarrow> min attempts cap)
      in try_accounts w kind preferred attempts 0 False fresh_tries m)"

definition make_request_with_account ::
    "api_world \<Rightarrow> nat option \<Rightarrow> manager \<Rightarrow> (app_error + json) option \<times> tries \<times> manager" where
  "make_request_with_account w preferred m = make_request_with_limit w Playback preferred None m"

section \<open>Metadata: static token, catalog account, pool\<close>

datatype credential =
    StaticToken
  | CatalogAccount nat
  | PoolAccount nat

type_synonym asked_of = "(credential \<times> api_reply) list"

record catalog_world =
  has_static :: bool
  static_client_error :: "string option"
  static_reply :: api_reply
  static_at :: int
  slot_cap :: nat
  claim_ms :: "nat \<Rightarrow> int"
  accounts_world :: api_world
  pool_world :: api_world
  limit_at :: int

definition read_json :: "(nat \<Rightarrow> string) \<Rightarrow> nat \<Rightarrow> read_body \<Rightarrow> app_error + json" where
  "read_json st s body =
     (case body of
        BodyLost e \<Rightarrow> Inl (of_send_error st e)
      | Unparsed why \<Rightarrow> Inl (UpstreamError s (''Failed to parse Tidal response: '' @ why))
      | Parsed data \<Rightarrow> Inr data)"

text \<open>The second component is \<open>catalog_rate_limited_until\<close>.\<close>

definition catalog_static_get :: "catalog_world \<Rightarrow> int \<Rightarrow> (app_error + json) \<times> asked_of \<times> int" where
  "catalog_static_get c until =
     (let world = token_world (accounts_world c) 0 0; remaining = sat_sub_i64 until (static_at c)
      in if remaining > 0 then (Inl (RateLimited (nat remaining)), [], until)
         else (case static_client_error c of
                 Some e \<Rightarrow> (Inl (ServiceUnavailable e), [], until)
               | None \<Rightarrow>
                   (case static_reply c of
                      NoReply e \<Rightarrow> (Inl (of_send_error (status_text world) e), [(StaticToken, static_reply c)], until)
                    | Reply s retry_after body \<Rightarrow>
                        (if s = 429
                         then (let seconds = retry_after_secs (dates world) (static_at c) retry_after
                               in (Inl (RateLimited seconds), [(StaticToken, static_reply c)],
                                   max until (sat_add_i64 (static_at c) (i64_of_u64 seconds))))
                         else if \<not> is_success s
                         then (Inl (UpstreamError s ''Catalog token request failed''), [(StaticToken, static_reply c)], until)
                         else (read_json (status_text world) s body, [(StaticToken, static_reply c)], until)))))"

fun catalog_attempts ::
    "api_world \<Rightarrow> nat \<Rightarrow> nat \<Rightarrow> nat \<Rightarrow> nat \<Rightarrow> string \<Rightarrow> asked_of \<Rightarrow> manager \<Rightarrow>
     (app_error + json) \<times> asked_of \<times> manager" where
  "catalog_attempts w i x 0 k token tr m = (Inl (Unauthorized ''Catalog account unauthorized''), tr, m)"
| "catalog_attempts w i x (Suc n) k token tr m =
     (case rate_limit_remaining (secs (send_ms w i k)) (heap m x) of
        Some s \<Rightarrow> (Inl (RateLimited s), tr, m)
      | None \<Rightarrow>
          (case client_error w i k of
             Some e \<Rightarrow> (Inl (ServiceUnavailable e), tr, m)
           | None \<Rightarrow>
               (let tr = tr @ [(CatalogAccount x, reply w i k)]; i_d = acc_id (heap m x)
                in case reply w i k of
                     NoReply e \<Rightarrow>
                       (Inl (of_send_error (status_text (token_world w i k)) e), tr,
                        if is_connect e \<or> is_timeout e then emit (ProxyFailed i_d) m else m)
                   | Reply s retry_after body \<Rightarrow>
                       (let m = emit (ProxyAnswered i_d) m; now_ms = reply_ms w i k; now = secs now_ms
                        in if s = 429 then
                             (let (seconds, a) = pause_account (dates (token_world w i k)) now retry_after (heap m x)
                              in (Inl (RateLimited seconds), tr, mark_account_error i_d now_ms (at_addr x (\<lambda>_. a) m)))
                           else if s = 401 \<and> 0 < n then
                             (case refresh_after_unauthorized (retry_world w i k) x token m of
                                (Inl e, m1) \<Rightarrow> (Inl e, tr, m1)
                              | (Inr token', m1) \<Rightarrow> catalog_attempts w i x n (Suc k) token' tr m1)
                           else
                             (let m = (if s = 401 \<and> 0 < k
                                       then reject_refreshed_token (jitter (retry_world w i k)) x token now m else m)
                              in if \<not> is_success s then
                                   (if 0 < n \<and> (s = 403 \<or> 500 \<le> s)
                                    then catalog_attempts w i x n (Suc k) token tr m
                                    else (Inl (UpstreamError s ''Catalog account request failed''), tr, m))
                                 else (read_json (status_text (token_world w i k)) s body, tr, m))))))"

definition catalog_account_get ::
    "api_world \<Rightarrow> nat \<Rightarrow> nat \<Rightarrow> asked_of \<Rightarrow> manager \<Rightarrow> (app_error + json) \<times> asked_of \<times> manager" where
  "catalog_account_get w i x tr m =
     (case rate_limit_remaining (secs (lease_ms w i)) (heap m x) of
        Some s \<Rightarrow> (Inl (RateLimited s), tr, m)
      | None \<Rightarrow>
          (case first_client_error w i of
             Some e \<Rightarrow> (Inl (ServiceUnavailable e), tr, m)
           | None \<Rightarrow>
               (case get_token (token_world w i 0) x m of
                  (Inl e, m1) \<Rightarrow> (Inl e, tr, m1)
                | (Inr token, m1) \<Rightarrow> catalog_attempts w i x (max (per_account w) 1) 0 token tr m1)))"

record catalog_state =
  limit_error :: "app_error option"
  fallback_tried :: bool
  catalog_busy :: bool

fun is_rate_limited :: "app_error \<Rightarrow> bool" where
  "is_rate_limited (RateLimited s) = True"
| "is_rate_limited e = False"

text \<open>The loop over two catalog accounts; \<open>None\<close> when it ends without an answer.\<close>

fun catalog_slots ::
    "catalog_world \<Rightarrow> nat \<Rightarrow> nat \<Rightarrow> catalog_state \<Rightarrow> asked_of \<Rightarrow> manager \<Rightarrow>
     (app_error + json) option \<times> catalog_state \<times> asked_of \<times> manager" where
  "catalog_slots c 0 i st tr m = (None, st, tr, m)"
| "catalog_slots c (Suc n) i st tr m =
     (case (limit_error st, fallback_tried st) of
        (Some e, True) \<Rightarrow> (Some (Inl e), st, tr, m)
      | _ \<Rightarrow>
          (case claim_catalog_slot (slot_cap c) (secs (claim_ms c i)) (claim_ms c i) m of
             (Busy, m1) \<Rightarrow> (None, st\<lparr>catalog_busy := True\<rparr>, tr, m1)
           | (Unavailable, m1) \<Rightarrow> (None, st, tr, m1)
           | (Slot x, m1) \<Rightarrow>
               (let st = (if limit_error st \<noteq> None then st\<lparr>fallback_tried := True\<rparr> else st);
                    (r, tr, m2) = catalog_account_get (accounts_world c) i x tr m1;
                    m3 = at_addr x drop_catalog_slot m2
                in case r of
                     Inr data \<Rightarrow> (Some (Inr data), st, tr, m3)
                   | Inl e \<Rightarrow>
                       if fallback_tried st then (Some (Inl e), st, tr, m3)
                       else if is_rate_limited e
                         then catalog_slots c n (Suc i) (st\<lparr>limit_error := Some e\<rparr>) tr m3
                       else (None, st, tr, m3))))"

definition pool_data :: "json \<Rightarrow> json" where
  "pool_data wrapped = unwrap_or (jget ''data'' wrapped) JNull"

definition catalog_pool ::
    "catalog_world \<Rightarrow> nat option \<Rightarrow> asked_of \<Rightarrow> manager \<Rightarrow> (app_error + json) option \<times> asked_of \<times> manager" where
  "catalog_pool c cap tr m =
     (let (r, t, m1) = make_request_with_limit (pool_world c) Metadata None cap m
      in (map_option (map_sum id pool_data) r, tr @ map (\<lambda>(x, rep). (PoolAccount x, rep)) (trace t), m1))"

definition catalog_get ::
    "catalog_world \<Rightarrow> int \<Rightarrow> manager \<Rightarrow> (app_error + json) option \<times> asked_of \<times> int \<times> manager" where
  "catalog_get c until m =
     (let (sr, tr, until) = (if has_static c then catalog_static_get c until else (Inl Timeout, [], until))
      in case sr of
           Inr data \<Rightarrow> (Some (Inr data), tr, until, m)
         | Inl e \<Rightarrow>
             (let st = \<lparr>limit_error = (if is_rate_limited e then Some e else None), fallback_tried = False,
                        catalog_busy = False\<rparr>;
                  (r, st, tr, m) = catalog_slots c 2 0 st tr m
              in case r of
                   Some res \<Rightarrow> (Some res, tr, until, m)
                 | None \<Rightarrow>
                     (case (if limit_error st = None
                            then map_option RateLimited (catalog_rate_limit_remaining (limit_at c) m)
                            else limit_error st) of
                        Some previous \<Rightarrow>
                          if fallback_tried st then (Some (Inl previous), tr, until, m)
                          else (let (r, tr, m) = catalog_pool c (Some 1) tr m
                                in ((case r of Some (Inl (ServiceUnavailable d)) \<Rightarrow> Some (Inl previous) | _ \<Rightarrow> r),
                                    tr, until, m))
                      | None \<Rightarrow>
                          if catalog_busy st \<and> playback_count m = 0
                          then (Some (Inl (AccountsBusy CATALOG_BUSY 1)), tr, until, m)
                          else (let (r, tr, m) = catalog_pool c None tr m in (r, tr, until, m)))))"

end
