(* ===== verification/TidalProps.thy ===== *)
theory TidalProps
  imports TidalClient
begin

text \<open>
  What one request does to the pool: it asks each account at most once (a block of attempts),
  stops after two fallbacks from a 429, gives back every lease and catalog slot, never answers
  with a preview, and a metadata request that meets a 429 uses at most one other credential.
\<close>

section \<open>Effects of a reply\<close>

lemma place_pause [simp]: "place (snd (pause_account d now v a)) = place a"
  by (simp add: pause_account_def next_strike_def place_def Let_def split_beta)

lemma kept_mark: "kept m (mark_account_error i now_ms m)"
  by (auto simp: mark_account_error_def note_recent_def kept_def place_def Let_def split: option.split)

lemma kept_confirm: "kept m (confirm_full x now m)"
  by (auto simp: confirm_full_def kept_def place_def Let_def)

lemma kept_preview: "kept m (snd (note_traffic_preview x now m))"
  by (auto simp: note_traffic_preview_def kept_def place_def Let_def)

lemma kept_previews: "kept m (fold (\<lambda>y m. snd (note_traffic_preview y now m)) ys m)"
  by (induction ys arbitrary: m) (auto intro: kept_trans [OF kept_preview])

lemma acc_id_kept: "kept m m' \<Longrightarrow> acc_id (heap m' z) = acc_id (heap m z)"
  by (simp add: kept_def place_def)

text \<open>
  \<open>settled x m t out\<close>: a reply for account \<open>x\<close> was dealt with without adding to the trace, and when
  the account is given up its id joined the failed ones.
\<close>

definition settled :: "nat \<Rightarrow> manager \<Rightarrow> tries \<Rightarrow> step \<times> tries \<times> manager \<Rightarrow> bool" where
  "settled x m t out \<longleftrightarrow>
     (let (s, t', m') = out
      in kept m m' \<and> trace t' = trace t
         \<and> (s = NextAccount \<longrightarrow> failed_ids t' = failed_ids t @ [acc_id (heap m x)])
         \<and> (\<forall>b. s = Again b \<longrightarrow> t' = t))"

lemma settled_kept: "kept m m1 \<Longrightarrow> settled x m1 t out \<Longrightarrow> settled x m t out"
  by (auto simp: settled_def acc_id_kept [of m m1] intro: kept_trans)

lemma settled_give_up: "settled x m t (give_up x now_ms e t m)"
  by (simp add: settled_def give_up_def kept_mark)

lemma settled_limited: "settled x m t (limited i x e t m)"
  by (simp add: settled_def limited_def schedule_def Let_def)

lemma settled_stop: "kept m m' \<Longrightarrow> settled x m t (Stop r, t, m')"
  by (simp add: settled_def)

lemma settled_again: "kept m m' \<Longrightarrow> settled x m t (Again b, t, m')"
  by (simp add: settled_def)

lemma settled_body: "settled x m t (on_body w kind x s now body t m)"
  using kept_trans [OF kept_confirm kept_previews] kept_confirm
  by (auto simp: on_body_def settled_def Let_def split: read_body.split)

lemma settled_401: "settled x m t (on_401 w i k x r refreshed token t m)"
proof -
  have "settled x m t (give_up x n e t (reject_refreshed_token j x token n' m))" for n e j n'
    by (rule settled_kept [OF kept_reject_refreshed settled_give_up])
  moreover obtain q m1 where q: "refresh_after_unauthorized (retry_world w i k) x token m = (q, m1)" by force
  moreover have "kept m m1" using kept_unauthorized [of m "retry_world w i k" x token] q by simp
  ultimately show ?thesis
    by (auto simp: on_401_def settled_give_up intro: settled_again
        settled_kept [OF _ settled_give_up] settled_kept [OF _ settled_limited]
        split: sum.split app_error.split)
qed

lemma settled_reply: "settled x m t (on_reply w kind i k x r refreshed token rep t m)"
proof (cases rep)
  case (NoReply e)
  then show ?thesis by (simp add: settled_stop)
next
  case (Reply s ra body)
  let ?m1 = "emit (ProxyAnswered (acc_id (heap m x))) m"
  have p: "kept ?m1 (mark_account_error (acc_id a') n (at_addr x (\<lambda>_. snd (pause_account d n' v (heap m x))) ?m1))"
    for a' n d n' v
    by (rule kept_trans [OF _ kept_mark]) (simp add: kept_def)
  have alert: "settled x ?m1 t (let (s, t', m') = give_up x n e t ?m1 in (s, t', emit (f m') m'))" for n e f
    using settled_give_up [of x ?m1 t n e] by (auto simp: settled_def give_up_def intro: kept_trans)
  have k1: "kept m ?m1" by simp
  show ?thesis
    using alert [of "reply_ms w i k" "UpstreamError s UPSTREAM_ERROR"
        "\<lambda>m'. AlertForbidden (label (heap m' x)) (fst (healthy_count m')) (snd (healthy_count m'))"]
    by (auto simp: Reply Let_def split_beta intro!: settled_kept [OF k1] settled_401 settled_again settled_stop
        settled_give_up settled_body settled_kept [OF p settled_limited])
qed

lemma schedule_facts:
  "trace (snd (schedule i a e t)) = trace t"
  "fst (schedule i a e t) = None \<Longrightarrow> failed_ids (snd (schedule i a e t)) = failed_ids t @ [a]"
  by (auto simp: schedule_def Let_def split: if_splits)

section \<open>The attempts on one account\<close>

lemma may_retry_again:
  "fst (on_reply w kind i k x r refreshed token rep t m) = Again b \<Longrightarrow> r"
  by (cases rep) (auto simp: Let_def on_401_def give_up_def limited_def on_body_def
      split: if_splits prod.splits sum.splits option.splits app_error.splits read_body.splits)

text \<open>
  One attempt: it ends before anything is sent, with the reply, or goes on to the next one.
\<close>

lemma attempts_cases:
  assumes "account_attempts w kind i x (Suc n) k refreshed t m = (s, t', m')"
  obtains (unsent) m1 where "kept m m1"
      "(\<exists>e. (s, t', m') = limited i x e t m1) \<or> (\<exists>e n'. (s, t', m') = give_up x n' e t m1) \<or>
       (\<exists>e. s = Stop (Inl e)) \<and> t' = t \<and> m' = m1"
  | (replied) token m1 where "kept m m1" "\<forall>b. s \<noteq> Again b"
      "on_reply w kind i k x (n > 0) refreshed token (reply w i k)
         (t\<lparr>trace := trace t @ [(x, reply w i k)]\<rparr>) m1 = (s, t', m')"
  | (again) token m1 b t2 m2 where "kept m m1" "0 < n"
      "on_reply w kind i k x (n > 0) refreshed token (reply w i k)
         (t\<lparr>trace := trace t @ [(x, reply w i k)]\<rparr>) m1 = (Again b, t2, m2)"
      "account_attempts w kind i x n (Suc k) b t2 m2 = (s, t', m')"
proof -
  obtain q m1 where q: "get_token (token_world w i k) x m = (q, m1)" by force
  have k1: "kept m m1" using kept_get_token [of m "token_world w i k" x] q by simp
  show ?thesis
  proof (cases q)
    case (Inl e)
    have "limited i x e t m1 = (s, t', m') \<or> give_up x (reply_ms w i k) e t m1 = (s, t', m')"
      using assms Inl by (cases e) (simp_all add: q)
    then show ?thesis by (intro unsent [OF k1]) metis
  next
    case (Inr token)
    obtain s2 t2 m2 where out: "on_reply w kind i k x (n > 0) refreshed token (reply w i k)
        (t\<lparr>trace := trace t @ [(x, reply w i k)]\<rparr>) m1 = (s2, t2, m2)" by (metis prod_cases3)
    show ?thesis
    proof (cases "rate_limit_remaining (secs (send_ms w i k)) (heap m1 x) = None \<and> client_error w i k = None")
      case False
      with assms Inr have "(\<exists>e. limited i x e t m1 = (s, t', m')) \<or> (\<exists>e. s = Stop (Inl e)) \<and> t' = t \<and> m' = m1"
        by (auto simp: q split: option.splits)
      then show ?thesis by (intro unsent [OF k1]) metis
    next
      case True
      show ?thesis
      proof (cases "\<exists>b. s2 = Again b")
        case True
        then obtain b where b: "s2 = Again b" by blast
        with out have "0 < n" using may_retry_again [of w kind i k x "0 < n"] by (metis fst_conv)
        with assms True b out \<open>_ \<and> client_error w i k = None\<close> Inr show ?thesis
          by (intro again [OF k1]) (auto simp: q)
      next
        case False
        with assms out \<open>_ \<and> client_error w i k = None\<close> Inr show ?thesis
          by (intro replied [OF k1]) (cases s2; auto simp: q)+
      qed
    qed
  qed
qed

lemma account_attempts_block:
  assumes "account_attempts w kind i x n k refreshed t m = (s, t', m')" "0 < n"
  shows "kept m m' \<and> (\<exists>rs. trace t' = trace t @ map (Pair x) rs \<and> length rs \<le> n)
    \<and> (s = NextAccount \<longrightarrow> failed_ids t' = failed_ids t @ [acc_id (heap m x)]) \<and> (\<forall>b. s \<noteq> Again b)"
  using assms
proof (induction n arbitrary: k refreshed t m)
  case (Suc n)
  from Suc.prems(1) show ?case
  proof (cases rule: attempts_cases)
    case (unsent m1)
    have "settled x m1 t (s, t', m') \<and> (\<forall>b. s \<noteq> Again b)"
      using unsent(2) settled_limited [of x m1 t i] settled_give_up [of x m1 t]
      by (auto simp: settled_stop, auto simp: limited_def give_up_def split: prod.splits option.splits)
    then show ?thesis
      using unsent(1) by (auto simp: settled_def acc_id_kept [OF unsent(1)] intro: kept_trans)
  next
    case (replied token m1)
    have "settled x m1 (t\<lparr>trace := trace t @ [(x, reply w i k)]\<rparr>) (s, t', m')"
      using settled_reply [of x m1 "t\<lparr>trace := trace t @ [(x, reply w i k)]\<rparr>"] replied(3) by metis
    with replied(1,2) show ?thesis
      by (auto simp: settled_def acc_id_kept [OF replied(1)] intro: kept_trans intro!: exI [of _ "[reply w i k]"])
  next
    case (again token m1 b t2 m2)
    have "settled x m1 (t\<lparr>trace := trace t @ [(x, reply w i k)]\<rparr>) (Again b, t2, m2)"
      using settled_reply [of x m1 "t\<lparr>trace := trace t @ [(x, reply w i k)]\<rparr>"] again(3) by metis
    then have k2: "kept m m2" and t2: "t2 = t\<lparr>trace := trace t @ [(x, reply w i k)]\<rparr>"
      by (auto simp: settled_def intro: kept_trans [OF again(1)])
    from Suc.IH [OF again(4,2)] obtain rs where "trace t' = trace t @ map (Pair x) (reply w i k # rs)" "length rs \<le> n"
      and "kept m m'" "s = NextAccount \<longrightarrow> failed_ids t' = failed_ids t @ [acc_id (heap m x)]" "\<forall>b. s \<noteq> Again b"
      using k2 t2 by (auto intro: kept_trans simp: acc_id_kept)
    then show ?thesis by (metis Suc_le_mono length_Cons)
  qed
qed simp

section \<open>Who is asked\<close>

text \<open>
  While a request waits for a lease other requests go on (\<open>p_env\<close>). The account objects keep their
  ids meanwhile: an id is set when the object is made.
\<close>

definition ids_kept :: "api_world \<Rightarrow> bool" where
  "ids_kept w \<longleftrightarrow> (\<forall>i. \<forall>p\<in>set (passes w i). \<forall>m z. acc_id (heap (p_env p m) z) = acc_id (heap m z))"

definition same_ids :: "manager \<Rightarrow> manager \<Rightarrow> bool" where
  "same_ids m m' \<longleftrightarrow> (\<forall>z. acc_id (heap m' z) = acc_id (heap m z))"

lemma same_ids_refl [simp]: "same_ids m m"
  by (simp add: same_ids_def)

lemma same_ids_trans: "same_ids m m1 \<Longrightarrow> same_ids m1 m2 \<Longrightarrow> same_ids m m2"
  by (simp add: same_ids_def)

lemma same_ids_kept: "kept m m' \<Longrightarrow> same_ids m m'"
  by (simp add: same_ids_def acc_id_kept)

lemma acc_id_note [simp]:
  "acc_id (note_selection n a) = acc_id a" "acc_id (set_counter k c a) = acc_id a"
  "acc_id (snd (requests_last_hour n a)) = acc_id a" "acc_id (snd (recent_error_rate n a)) = acc_id a"
  by (cases k; simp add: note_selection_def note_recent_def requests_last_hour_def recent_error_rate_def Let_def)+

lemma ids_try_lease: "same_ids m (snd (try_lease p excl k rules now now_ms m))"
  by (auto simp: same_ids_def try_lease_def take_lease_def at_addrs_def Let_def split_beta split: option.split)

lemma ids_drop: "same_ids m (drop_lease now_ms l m)"
  by (simp add: drop_lease_def same_ids_def Let_def)

lemma lease_wait_ids:
  assumes "lease_wait pen excl kind rules dl ps m = (r, m1)"
    and "\<And>p m z. p \<in> set ps \<Longrightarrow> acc_id (heap (p_env p m) z) = acc_id (heap m z)"
  shows "same_ids m m1" "r = Some (Inr l) \<Longrightarrow> acc_id (heap m (lease_addr l)) \<notin> set excl"
proof -
  have "same_ids m m1 \<and> (r = Some (Inr l) \<longrightarrow> acc_id (heap m (lease_addr l)) \<notin> set excl)"
    using assms
  proof (induction ps arbitrary: m)
    case (Cons p ps)
    obtain q m2 where t: "try_lease pen excl kind rules (p_now p) (p_now_ms p) (p_env p m) = (q, m2)" by force
    have "same_ids (p_env p m) m2"
      using ids_try_lease [of "p_env p m" pen excl kind rules "p_now p" "p_now_ms p"] t by simp
    moreover have "same_ids m (p_env p m)" using Cons.prems(2) by (simp add: same_ids_def)
    ultimately have s: "same_ids m m2" by (rule same_ids_trans [rotated])
    have l: "acc_id (heap m (lease_addr l)) \<notin> set excl" if "q = Inr (Some l)"
      using try_lease_Some(3) [OF t [unfolded that]] Cons.prems(2) by (simp add: eligible_iff can_serve_def)
    have IH: "lease_wait pen excl kind rules dl ps m2 = (r, m1) \<Longrightarrow>
        same_ids m2 m1 \<and> (r = Some (Inr l) \<longrightarrow> acc_id (heap m2 (lease_addr l)) \<notin> set excl)"
      by (rule Cons.IH) (simp_all add: Cons.prems(2))
    show ?case
      using Cons.prems(1) s l IH
      by (auto simp: t same_ids_def split: sum.splits option.splits if_splits)
  qed simp
  then show "same_ids m m1" "r = Some (Inr l) \<Longrightarrow> acc_id (heap m (lease_addr l)) \<notin> set excl" by simp_all
qed

lemma pool_lease_ids:
  assumes "lease_pool_account w kind i excl m = (r, m1)" "ids_kept w"
  shows "same_ids m m1" "r = Some (Inr l) \<Longrightarrow> acc_id (heap m (lease_addr l)) \<notin> set excl"
proof -
  note a = assms(1) [unfolded lease_pool_account_def lease_account_for_def]
  have e: "acc_id (heap (p_env p m) z) = acc_id (heap m z)" if "p \<in> set (passes w i)" for p m z
    using assms(2) that unfolding ids_kept_def by blast
  show "same_ids m m1" by (rule lease_wait_ids(1) [OF a]) (rule e)
  show "acc_id (heap m (lease_addr l)) \<notin> set excl" if "r = Some (Inr l)"
    by (rule lease_wait_ids(2) [OF a]) (rule e, assumption, rule that)
qed

lemma acquire_facts:
  assumes "acquire w kind pref i t m = (r, t1, c, m1)" "ids_kept w"
  shows "trace t1 = trace t \<and> same_ids m m1
    \<and> (\<forall>l. r = Some (Inr l) \<longrightarrow> set (failed_ids t) \<subseteq> set (failed_ids t1)
          \<and> acc_id (heap m (lease_addr l)) \<notin> set (failed_ids t1))"
proof (cases "if i = 0 \<and> failed_ids t = [] then pref else None")
  case None
  obtain q m2 where q: "lease_pool_account w kind i (failed_ids t) m = (q, m2)" by force
  have "same_ids m (alert_if_all_down e m2)" for e
    by (rule same_ids_trans [OF pool_lease_ids(1) [OF q assms(2)]])
      (auto simp: alert_if_all_down_def same_ids_def split: app_error.split)
  then show ?thesis
    using assms(1) pool_lease_ids [OF q assms(2)]
    by (auto simp: acquire_def None lease_or_fail_def q split: option.splits sum.splits)
next
  case (Some a)
  then have f: "failed_ids t = []" by (auto split: if_splits)
  note acq = assms(1) [unfolded acquire_def Some option.case]
  show ?thesis
  proof (cases "rate_limit_remaining (secs (lease_ms w i)) (heap m a)")
    case None
    then show ?thesis
      using acq f by (auto simp: lease_chosen_def take_lease_def same_ids_def)
  next
    case (Some s)
    let ?sch = "schedule i (acc_id (heap m a)) (RateLimited s) t"
    obtain e t2 where e: "?sch = (e, t2)" by force
    have tr: "trace t2 = trace t" using schedule_facts(1) [of i "acc_id (heap m a)" "RateLimited s" t] e by simp
    obtain q m2 where q: "lease_pool_account w kind i (failed_ids t2) m = (q, m2)" by force
    show ?thesis
      using acq tr pool_lease_ids [OF q assms(2)] f
      by (auto simp: Some e q split: option.splits sum.splits)
  qed
qed

lemma remdups_adj_block:
  "y \<notin> set xs \<Longrightarrow> distinct (remdups_adj xs) \<Longrightarrow> distinct (remdups_adj (xs @ replicate n y))"
proof (cases "xs = [] \<or> n = 0")
  case False
  moreover assume "y \<notin> set xs" "distinct (remdups_adj xs)"
  moreover from False have "remdups_adj (xs @ replicate n y) = remdups_adj xs @ remdups_adj (replicate n y)"
    using \<open>y \<notin> set xs\<close> by (intro remdups_adj_append') (use last_in_set in fastforce)
  ultimately show ?thesis by (auto simp: remdups_adj_replicate)
qed (auto simp: remdups_adj_replicate)

definition asked_ids :: "tries \<Rightarrow> manager \<Rightarrow> string list" where
  "asked_ids t m = map (\<lambda>(x, rep). acc_id (heap m x)) (trace t)"

lemma asked_ids_same: "same_ids m m' \<Longrightarrow> asked_ids t m' = asked_ids t m"
  by (simp add: asked_ids_def same_ids_def)

lemma acquire_trace:
  assumes "acquire w kind pref i t m = (r, t1, c, m1)"
  shows "trace t1 = trace t \<and> limits t1 = limits t \<or>
    trace t1 = trace t \<and> i = 0 \<and>
      (\<exists>a e f. schedule i a e t = (f, t1) \<and> (f \<noteq> None \<longrightarrow> (\<forall>l. r \<noteq> Some (Inr l))))"
proof (cases "if i = 0 \<and> failed_ids t = [] then pref else None")
  case None
  with assms show ?thesis by (auto simp: acquire_def lease_or_fail_def split: option.splits sum.splits prod.splits)
next
  case (Some a)
  note acq = assms [unfolded acquire_def Some option.case]
  show ?thesis
  proof (cases "rate_limit_remaining (secs (lease_ms w i)) (heap m a)")
    case None
    with acq show ?thesis by (simp add: split_beta Let_def)
  next
    case (Some s)
    obtain f t2 where f: "schedule i (acc_id (heap m a)) (RateLimited s) t = (f, t2)" by force
    have "trace t2 = trace t" using schedule_facts(1) [of i "acc_id (heap m a)" "RateLimited s" t] f by simp
    moreover have "t1 = t2 \<and> (f \<noteq> None \<longrightarrow> (\<forall>l. r \<noteq> Some (Inr l)))"
      using acq by (auto simp: Some f split: option.splits sum.splits prod.splits)
    moreover have "i = 0" using \<open>(if _ then _ else _) = Some a\<close> by (auto split: if_splits)
    ultimately show ?thesis using f by blast
  qed
qed

text \<open>One round of the walk: it ends without asking anybody, or one account is leased and asked.\<close>

lemma try_cases:
  assumes "try_accounts w kind pref (Suc n) i c t m = (r, t', m')"
  obtains (quits) "trace t' = trace t" "\<forall>v. r \<noteq> Some (Inr v)"
  | (asks) l t1 c1 m1 s t2 m2 rs where "acquire w kind pref i t m = (Some (Inr l), t1, c1, m1)"
      "\<not> exhausted i (limits t)" "kept m1 m2" "trace t2 = trace t @ map (Pair (lease_addr l)) rs"
      "account_attempts w kind i (lease_addr l) (max (per_account w) 1) 0 False t1 m1 = (s, t2, m2)"
      "length rs \<le> max (per_account w) 1"
      "s = NextAccount \<and> failed_ids t2 = failed_ids t1 @ [acc_id (heap m1 (lease_addr l))]
         \<and> try_accounts w kind pref n (Suc i) (c \<or> c1) t2 (drop_lease (drop_ms w i) l m2) = (r, t', m')
       \<or> (\<exists>res. s = Stop res \<and> r = Some res \<and> t' = t2 \<and> m' = drop_lease (drop_ms w i) l m2)"
proof -
  obtain q t1 c1 m1 where q: "acquire w kind pref i t m = (q, t1, c1, m1)" by (metis prod_cases4)
  have tr: "trace t1 = trace t" using acquire_trace [OF q] by auto
  show ?thesis
  proof (cases "(c \<and> 0 < i \<or> exhausted i (limits t)) \<or> (\<forall>l. q \<noteq> Some (Inr l)) \<or> first_client_error w i \<noteq> None")
    case True
    with assms tr show ?thesis
      by (intro quits) (auto simp: q split: if_splits option.splits sum.splits)
  next
    case False
    then obtain l where l: "q = Some (Inr l)" "\<not> (c \<and> 0 < i \<or> exhausted i (limits t))" "first_client_error w i = None"
      by blast
    obtain s t2 m2 where b: "account_attempts w kind i (lease_addr l) (max (per_account w) 1) 0 False t1 m1 = (s, t2, m2)"
      by (metis prod_cases3)
    then have blk: "kept m1 m2 \<and> (\<exists>rs. trace t2 = trace t1 @ map (Pair (lease_addr l)) rs \<and> length rs \<le> max (per_account w) 1)
        \<and> (s = NextAccount \<longrightarrow> failed_ids t2 = failed_ids t1 @ [acc_id (heap m1 (lease_addr l))]) \<and> (\<forall>b. s \<noteq> Again b)"
      by (rule account_attempts_block) simp
    from blk obtain rs where rs: "trace t2 = trace t @ map (Pair (lease_addr l)) rs" "length rs \<le> max (per_account w) 1"
      using tr by auto
    have "s = NextAccount \<and> try_accounts w kind pref n (Suc i) (c \<or> c1) t2 (drop_lease (drop_ms w i) l m2) = (r, t', m')
        \<or> (\<exists>res. s = Stop res \<and> r = Some res \<and> t' = t2 \<and> m' = drop_lease (drop_ms w i) l m2)"
      using assms blk by (cases s) (auto simp: q l b simp del: One_nat_def)
    then show ?thesis using q l(1,2) b blk rs by (intro asks) auto
  qed
qed

lemma count_list_block: "count_list (replicate n y) x = (if x = y then n else 0)"
  by (induction n) auto

lemma try_accounts_once:
  assumes "try_accounts w kind pref n i c t m = (r, t', m')" "ids_kept w"
    and "set (asked_ids t m) \<subseteq> set (failed_ids t)" "distinct (remdups_adj (asked_ids t m))"
    and "\<And>a. count_list (asked_ids t m) a \<le> max (per_account w) 1"
  shows "distinct (remdups_adj (asked_ids t' m))
    \<and> (\<forall>a. count_list (asked_ids t' m) a \<le> max (per_account w) 1)
    \<and> card (set (asked_ids t' m)) \<le> card (set (asked_ids t m)) + n"
  using assms
proof (induction n arbitrary: i c t m)
  case (Suc n)
  from Suc.prems(1) show ?case
  proof (cases rule: try_cases)
    case quits
    then show ?thesis using Suc.prems(4,5) by (simp add: asked_ids_def trans_le_add1)
  next
    case (asks l t1 c1 m1 s t2 m2 rs)
    let ?x = "lease_addr l" and ?m3 = "drop_lease (drop_ms w i) l m2"
    from acquire_facts [OF asks(1) Suc.prems(2)] have ids1: "same_ids m m1"
      and new: "acc_id (heap m ?x) \<notin> set (failed_ids t1)" "set (failed_ids t) \<subseteq> set (failed_ids t1)" by auto
    have ids3: "same_ids m ?m3"
      by (rule same_ids_trans [OF ids1 same_ids_trans [OF same_ids_kept [OF asks(3)] ids_drop]])
    have a2: "asked_ids t2 m = asked_ids t m @ replicate (length rs) (acc_id (heap m ?x))"
      using asks(4) by (simp add: asked_ids_def comp_def map_replicate_const)
    have d2: "distinct (remdups_adj (asked_ids t2 m))"
      unfolding a2 using Suc.prems(3,4) new by (intro remdups_adj_block) auto
    have fresh: "acc_id (heap m ?x) \<notin> set (asked_ids t m)" using Suc.prems(3) new by auto
    have n2: "count_list (asked_ids t2 m) a \<le> max (per_account w) 1" for a
      using Suc.prems(5) [of a] asks(6) fresh by (simp add: a2 count_list_block count_list_0_iff)
    have c2: "card (set (asked_ids t2 m)) \<le> card (set (asked_ids t m)) + 1"
      by (cases "length rs = 0") (auto simp: a2 set_replicate_conv_if card_insert_if)
    from asks(7) show ?thesis
    proof (elim disjE conjE exE)
      assume next_: "failed_ids t2 = failed_ids t1 @ [acc_id (heap m1 ?x)]"
        and rest: "try_accounts w kind pref n (Suc i) (c \<or> c1) t2 ?m3 = (r, t', m')"
      have "set (asked_ids t2 ?m3) \<subseteq> set (failed_ids t2)"
        using Suc.prems(3) new(2) next_ ids1 by (auto simp: asked_ids_same [OF ids3] a2 same_ids_def)
      from Suc.IH [OF rest Suc.prems(2) this] d2 n2 c2 show ?thesis
        by (auto simp: asked_ids_same [OF ids3] intro: order_trans)
    qed (use d2 n2 c2 in \<open>auto intro: order_trans\<close>)
  qed
qed simp

text \<open>
  C5. A request asks an account at most \<open>requests_per_account\<close> times (at least once is allowed), and
  all in a row: an account that was given up is never asked again for the same request. It asks no
  more accounts than the pool serves (or the caller's limit), so it sends at most so many times
  \<open>requests_per_account\<close> requests.
\<close>

theorem each_account_once:
  assumes "make_request_with_limit w kind preferred account_limit m = (r, t, m')" "ids_kept w"
  shows "(\<forall>a. count_list (asked_ids t m) a \<le> max (per_account w) 1)
    \<and> distinct (remdups_adj (asked_ids t m))
    \<and> card (set (asked_ids t m)) \<le> (case account_limit of None \<Rightarrow> max 1 (playback_count m)
                                     | Some cap \<Rightarrow> min (max 1 (playback_count m)) cap)
    \<and> length (trace t) \<le> (case account_limit of None \<Rightarrow> max 1 (playback_count m)
                          | Some cap \<Rightarrow> min (max 1 (playback_count m)) cap) * max (per_account w) 1"
    (is "?each \<and> ?row \<and> _ \<le> ?n \<and> _ \<le> ?n * ?k")
proof -
  have once: "?row \<and> ?each \<and> card (set (asked_ids t m)) \<le> ?n"
    using try_accounts_once [OF assms(1) [unfolded make_request_with_limit_def Let_def] assms(2)]
    by (simp add: asked_ids_def fresh_tries_def split: option.split_asm)
  have "length (trace t) = length (asked_ids t m)" by (simp add: asked_ids_def)
  also have "\<dots> = (\<Sum>a \<in> set (asked_ids t m). count_list (asked_ids t m) a)"
    by (simp add: sum_count_set [OF order_refl])
  also have "\<dots> \<le> of_nat (card (set (asked_ids t m))) * ?k" using once by (intro sum_bounded_above) simp
  also have "\<dots> \<le> ?n * ?k" using once by (intro mult_le_mono1) simp
  finally show ?thesis using once by blast
qed

section \<open>After a 429\<close>

fun is_429 :: "api_reply \<Rightarrow> bool" where
  "is_429 (Reply s ra body) = (s = 429)"
| "is_429 (NoReply e) = False"

definition limits_step :: "nat \<Rightarrow> tries \<Rightarrow> step \<times> tries \<times> manager \<Rightarrow> bool" where
  "limits_step i t out \<longleftrightarrow>
     (let (s, t', m') = out; l = limits t; l' = limits t'
      in l' = l \<or>
         s = NextAccount \<and> hits l' = hits l + 1 \<and> hits l' \<le> 2 \<and> first_try l' = Some (unwrap_or (first_try l) i) \<or>
         (\<exists>r. s = Stop r) \<and> hits l' = hits l + 1 \<and> first_try l' = first_try l)"

lemma limits_limited:
  "limits_step i t (limited i x e t m) \<and> hits (limits (fst (snd (limited i x e t m)))) = hits (limits t) + 1"
  by (auto simp: limits_step_def limited_def schedule_def RATE_LIMIT_FALLBACKS_def Let_def)

lemma limits_give_up: "limits_step i t (give_up x n e t m)"
  by (simp add: limits_step_def give_up_def)

lemma limits_401: "limits_step i t (on_401 w i k x r refreshed token t m)"
  using limits_limited limits_give_up
  by (auto simp: on_401_def split: sum.split app_error.split prod.split) (auto simp: limits_step_def)

lemma limits_reply:
  "limits_step i t (on_reply w kind i k x r refreshed token rep t m) \<and>
   (is_429 rep \<longrightarrow> hits (limits (fst (snd (on_reply w kind i k x r refreshed token rep t m)))) = hits (limits t) + 1)"
proof (cases rep)
  case (NoReply e)
  then show ?thesis by (simp add: limits_step_def)
next
  case (Reply s ra body)
  have "limits_step i t (fst (give_up x n e t m1), fst (snd (give_up x n e t m1)), m2)" for n e m1 m2
    by (simp add: give_up_def limits_step_def)
  moreover have "limits_step i t (on_body w kind x s' now body t m1)" for s' now m1
    by (simp add: on_body_def limits_step_def Let_def split: read_body.split)
  moreover have "limits_step i t (Stop q, t, m1)" "limits_step i t (Again b, t, m1)" for q b m1
    by (simp_all add: limits_step_def)
  ultimately show ?thesis
    using limits_limited by (simp add: Reply Let_def split_beta limits_401 limits_give_up)
qed

definition count_429 :: "(nat \<times> api_reply) list \<Rightarrow> nat" where
  "count_429 tr = length (filter (\<lambda>(x, rep). is_429 rep) tr)"

lemma count_429_append [simp]: "count_429 (xs @ ys) = count_429 xs + count_429 ys"
  by (simp add: count_429_def)

lemma count_429_block [simp]: "count_429 (map (Pair x) rs) = length (filter is_429 rs)"
  by (simp add: count_429_def filter_map comp_def)

lemma attempts_limits:
  assumes "account_attempts w kind i x n k refreshed t m = (s, t', m')"
    and "trace t' = trace t @ map (Pair x) rs"
  shows "limits_step i t (s, t', m') \<and> hits (limits t) + count_429 (map (Pair x) rs) \<le> hits (limits t')"
  using assms
proof (induction n arbitrary: k refreshed t m rs)
  case (Suc n)
  let ?t = "t\<lparr>trace := trace t @ [(x, reply w i k)]\<rparr>"
  from Suc.prems(1) show ?case
  proof (cases rule: attempts_cases)
    case (unsent m1)
    have lim: "limits_step i t (limited i x e t m1) \<and> trace (fst (snd (limited i x e t m1))) = trace t" for e
      using limits_limited settled_limited [of x m1 t i e] by (auto simp: settled_def split_beta)
    from unsent(2) have "limits_step i t (s, t', m') \<and> trace t' = trace t"
    proof (elim disjE exE conjE)
      fix e assume "(s, t', m') = limited i x e t m1"
      then show ?thesis using lim [of e] by (metis fst_conv snd_conv)
    next
      fix e n' assume "(s, t', m') = give_up x n' e t m1"
      then show ?thesis by (simp add: limits_step_def give_up_def)
    qed (simp add: limits_step_def)
    with Suc.prems(2) show ?thesis by (auto simp: limits_step_def count_429_def Let_def)
  next
    case (replied token m1)
    have "settled x m1 ?t (s, t', m')" using settled_reply [of x m1 ?t] replied(3) by metis
    with Suc.prems(2) have "map (Pair x) rs = [(x, reply w i k)]" by (simp add: settled_def)
    then have rs: "rs = [reply w i k]" by (cases rs) auto
    from limits_reply [of i ?t w kind k x "0 < n" refreshed token "reply w i k" m1] show ?thesis
      by (auto simp: replied(3) rs limits_step_def Let_def count_429_def)
  next
    case (again token m1 b t2 m2)
    have "settled x m1 ?t (Again b, t2, m2)" using settled_reply [of x m1 ?t] again(3) by metis
    then have t2: "t2 = ?t" by (simp add: settled_def)
    from account_attempts_block [OF again(4,2)] t2 obtain rs' where
      rs': "trace t' = trace t2 @ map (Pair x) rs'" by auto
    with Suc.prems(2) t2 have "map (Pair x) rs = map (Pair x) (reply w i k # rs')" by simp
    then have rs: "rs = reply w i k # rs'" by (metis injI inj_map_eq_map prod.inject)
    have "\<not> is_429 (reply w i k)"
      using limits_reply [of i ?t w kind k x "0 < n" refreshed token "reply w i k" m1] again(3) t2
      by (auto simp: limits_step_def)
    with Suc.IH [OF again(4) rs'] t2 rs show ?thesis by (simp add: limits_step_def count_429_def)
  qed
qed (simp add: limits_step_def count_429_def)

text \<open>The accounts asked from the first 429 on, that account included.\<close>

definition after_429 :: "tries \<Rightarrow> nat set" where
  "after_429 t = set (map fst (dropWhile (\<lambda>(x, rep). \<not> is_429 rep) (trace t)))"

lemma dropWhile_not_429: "count_429 xs = 0 \<Longrightarrow> dropWhile (\<lambda>(x, rep). \<not> is_429 rep) xs = []"
  by (auto simp: count_429_def dropWhile_eq_Nil_conv filter_empty_conv)

lemma set_dropWhile_append:
  "set (dropWhile P (xs @ ys)) \<subseteq> set (dropWhile P xs) \<union> set ys"
  by (induction xs) (auto dest: set_dropWhileD)

lemma after_429_block:
  assumes "trace t' = trace t @ map (Pair x) rs"
  shows "card (after_429 t') \<le> card (after_429 t) + 1"
proof -
  have "after_429 t' \<subseteq> after_429 t \<union> {x}"
    using set_dropWhile_append [of "\<lambda>(x, rep). \<not> is_429 rep" "trace t" "map (Pair x) rs"]
    by (auto simp: after_429_def assms image_iff)
  then have "card (after_429 t') \<le> card (after_429 t \<union> {x})" by (intro card_mono) (auto simp: after_429_def)
  also have "\<dots> \<le> card (after_429 t) + 1" by (metis card_Un_le card.empty card_insert_disjoint empty_iff
      finite.emptyI One_nat_def)
  finally show ?thesis .
qed

definition fallback_inv :: "nat \<Rightarrow> tries \<Rightarrow> bool" where
  "fallback_inv i t \<longleftrightarrow> count_429 (trace t) \<le> hits (limits t) \<and> hits (limits t) \<le> 2 \<and>
     (case first_try (limits t) of
        None \<Rightarrow> hits (limits t) = 0
      | Some f \<Rightarrow> f \<le> i \<and> card (after_429 t) + f \<le> i \<and> i \<le> f + 3)"

lemma acquire_inv:
  assumes "acquire w kind pref i t m = (Some (Inr l), t1, c, m1)" "fallback_inv i t"
    and "\<not> exhausted i (limits t)"
  shows "trace t1 = trace t" "count_429 (trace t) \<le> hits (limits t1)" "hits (limits t1) \<le> 2"
    and "first_try (limits t1) = None \<Longrightarrow> hits (limits t1) = 0"
    and "first_try (limits t1) = Some f \<Longrightarrow> card (after_429 t1) + f \<le> i \<and> i \<le> f + 2"
proof -
  show tr: "trace t1 = trace t" using acquire_trace [OF assms(1)] by auto
  have af: "after_429 t1 = after_429 t" by (simp add: after_429_def tr)
  have zero: "count_429 (trace t) = 0 \<Longrightarrow> card (after_429 t) = 0" by (simp add: after_429_def dropWhile_not_429)
  have "count_429 (trace t) \<le> hits (limits t1) \<and> hits (limits t1) \<le> 2
      \<and> (first_try (limits t1) = None \<longrightarrow> hits (limits t1) = 0)
      \<and> (first_try (limits t1) = Some f \<longrightarrow> card (after_429 t1) + f \<le> i \<and> i \<le> f + 2)"
  proof (cases "limits t1 = limits t")
    case True
    then show ?thesis using assms(2,3) by (auto simp: fallback_inv_def exhausted_def RATE_LIMIT_FALLBACKS_def af
          split: option.splits)
  next
    case False
    then obtain a e where "i = 0" "schedule i a e t = (None, t1)" using acquire_trace [OF assms(1)] by auto
    then show ?thesis
      using assms(2) zero by (auto simp: fallback_inv_def schedule_def RATE_LIMIT_FALLBACKS_def Let_def af
          split: option.splits if_splits)
  qed
  then show "count_429 (trace t) \<le> hits (limits t1)" "hits (limits t1) \<le> 2"
    "first_try (limits t1) = None \<Longrightarrow> hits (limits t1) = 0"
    "first_try (limits t1) = Some f \<Longrightarrow> card (after_429 t1) + f \<le> i \<and> i \<le> f + 2" by blast+
qed

lemma try_accounts_fallback:
  assumes "try_accounts w kind pref n i c t m = (r, t', m')" "fallback_inv i t"
  shows "count_429 (trace t') \<le> 3 \<and> card (after_429 t') \<le> 3"
  using assms
proof (induction n arbitrary: i c t m)
  case 0
  then show ?case by (auto simp: fallback_inv_def after_429_def dropWhile_not_429 split: option.splits)
next
  case (Suc n)
  from Suc.prems(1) show ?case
  proof (cases rule: try_cases)
    case quits
    then show ?thesis using Suc.prems(2)
      by (auto simp: fallback_inv_def after_429_def dropWhile_not_429 split: option.splits)
  next
    case (asks l t1 c1 m1 s t2 m2 rs)
    note inv1 = acquire_inv [OF asks(1) Suc.prems(2) asks(2)]
    have lim: "limits_step i t1 (s, t2, m2)"
        "hits (limits t1) + length (filter is_429 rs) \<le> hits (limits t2)"
      using attempts_limits [OF asks(5), of rs] asks(4) inv1(1) by auto
    have cnt: "count_429 (trace t2) \<le> hits (limits t2)" using lim(2) inv1(2) asks(4) by simp
    have blk: "card (after_429 t2) \<le> card (after_429 t1) + 1"
      using after_429_block [of t2 t1] asks(4) inv1(1) by simp
    have none: "card (after_429 t1) = 0" if "first_try (limits t1) = None"
      using inv1(1,2,4) that by (simp add: after_429_def dropWhile_not_429)
    have hit2: "hits (limits t2) \<le> 3"
      using lim(1) inv1(3) by (auto simp: limits_step_def Let_def)
    have card3: "card (after_429 t2) \<le> 3"
      using blk none inv1(5) by (cases "first_try (limits t1)") auto
    from asks(7) show ?thesis
    proof (elim disjE conjE exE)
      assume s: "s = NextAccount"
        and rest: "try_accounts w kind pref n (Suc i) (c \<or> c1) t2 (drop_lease (drop_ms w i) l m2) = (r, t', m')"
      have "hits (limits t2) = 0 \<Longrightarrow> after_429 t2 = {}"
        using cnt by (simp add: after_429_def dropWhile_not_429)
      then have "fallback_inv (Suc i) t2"
        using lim(1) cnt blk none inv1(3-5) s
        by (cases "first_try (limits t1)") (auto simp: fallback_inv_def limits_step_def Let_def unwrap_or_def)
      from Suc.IH [OF rest this] show ?thesis .
    qed (use cnt hit2 card3 in auto)
  qed
qed

text \<open>
  C32. Tidal's 429s stop a request early instead of walking it through the whole pool: it meets at
  most three of them, and from the first one on at most three accounts are asked, the limited one
  included.
\<close>

theorem rate_limits_stop_the_walk:
  "case make_request_with_limit w kind preferred account_limit m of
     (r, t, m') \<Rightarrow> count_429 (trace t) \<le> 3 \<and> card (after_429 t) \<le> 3"
proof -
  obtain r t m' where req: "make_request_with_limit w kind preferred account_limit m = (r, t, m')"
    by (metis prod_cases3)
  have "count_429 (trace t) \<le> 3 \<and> card (after_429 t) \<le> 3"
    by (rule try_accounts_fallback [OF req [unfolded make_request_with_limit_def Let_def]])
      (simp add: fallback_inv_def fresh_tries_def count_429_def)
  then show ?thesis by (simp add: req)
qed

section \<open>What a request returns\<close>

definition full_answer :: "string \<Rightarrow> json \<Rightarrow> nat \<times> api_reply \<Rightarrow> bool" where
  "full_answer v out entry \<longleftrightarrow>
     (case entry of
        (x, Reply s ra (Parsed data)) \<Rightarrow>
          is_success s \<and> \<not> presents ''PREVIEW'' data \<and> out = envelope v data
      | _ \<Rightarrow> False)"

lemma body_answer:
  "fst (on_body w kind x s now body t m) = Stop (Inr out) \<Longrightarrow>
     \<exists>data. body = Parsed data \<and> \<not> presents ''PREVIEW'' data \<and> out = envelope (version w) data"
  by (auto simp: on_body_def Let_def split: read_body.splits if_splits)

lemma no_answer:
  "fst (limited i x e t m) \<noteq> Stop (Inr out)" "fst (give_up x n e t m) \<noteq> Stop (Inr out)"
  "fst (on_401 w i k x r refreshed token t m) \<noteq> Stop (Inr out)"
proof -
  show 1: "fst (limited i x e t m) \<noteq> Stop (Inr out)" "fst (give_up x n e t m) \<noteq> Stop (Inr out)" for e n t m
    by (auto simp: limited_def give_up_def split: prod.splits option.splits)
  show "fst (on_401 w i k x r refreshed token t m) \<noteq> Stop (Inr out)"
    using 1 by (auto simp: on_401_def split: prod.splits sum.splits app_error.splits)
qed

lemma reply_answer:
  assumes "fst (on_reply w kind i k x r refreshed token rep t m) = Stop (Inr out)"
  shows "full_answer (version w) out (x, rep)"
proof (cases rep)
  case (Reply s ra body)
  have g: "fst (let (s, t', m') = give_up x n e t m1 in (s, t', f m')) \<noteq> Stop (Inr out)" for n e m1 f
    by (simp add: give_up_def)
  have "s \<notin> {401, 404, 429, 403} \<and> is_success s \<and>
      fst (on_body w kind x s (secs (reply_ms w i k)) body t (emit (ProxyAnswered (acc_id (heap m x))) m)) = Stop (Inr out)"
    using assms no_answer by (auto simp: Reply Let_def split_beta give_up_def split: if_splits)
  then show ?thesis using body_answer by (fastforce simp: full_answer_def Reply)
qed (use assms in simp)

lemma attempts_answer:
  "account_attempts w kind i x n k refreshed t m = (Stop (Inr out), t', m') \<Longrightarrow>
     trace t' \<noteq> [] \<and> full_answer (version w) out (last (trace t'))"
proof (induction n arbitrary: k refreshed t m)
  case (Suc n)
  from Suc.prems show ?case
  proof (cases rule: attempts_cases)
    case (unsent m1)
    then show ?thesis using no_answer by (metis fst_conv Inl_Inr_False step.inject(1))
  next
    case (replied token m1)
    have "settled x m1 (t\<lparr>trace := trace t @ [(x, reply w i k)]\<rparr>) (Stop (Inr out), t', m')"
      using settled_reply [of x m1 "t\<lparr>trace := trace t @ [(x, reply w i k)]\<rparr>"] replied(3) by metis
    then have "trace t' = trace t @ [(x, reply w i k)]" by (simp add: settled_def)
    then show ?thesis using reply_answer replied(3) by (metis fst_conv last_snoc snoc_eq_iff_butlast)
  qed (rule Suc.IH)
qed simp

lemma try_accounts_answer:
  "try_accounts w kind pref n i c t m = (Some (Inr out), t', m') \<Longrightarrow>
     trace t' \<noteq> [] \<and> full_answer (version w) out (last (trace t'))"
proof (induction n arbitrary: i c t m)
  case (Suc n)
  from Suc.prems show ?case
  proof (cases rule: try_cases)
    case (asks l t1 c1 m1 s t2 m2 rs)
    from asks(7) show ?thesis
    proof (elim disjE conjE exE)
      fix res assume "s = Stop res" "Some (Inr out) = Some res" "t' = t2"
      then show ?thesis using attempts_answer asks(5) by blast
    qed (rule Suc.IH)
  qed simp
qed simp

text \<open>
  What a request returns is the body of the last reply it got: a readable 2xx answer that is
  not a 30-second preview. A preview sends the request on to the next account.
\<close>

lemma never_a_preview:
  assumes "make_request_with_limit w kind preferred account_limit m = (Some (Inr out), t, m')"
  shows "trace t \<noteq> [] \<and> full_answer (version w) out (last (trace t))"
  by (rule try_accounts_answer [OF assms [unfolded make_request_with_limit_def Let_def]])

section \<open>A concrete request\<close>

text \<open>
  The one pool account answers 503 and then with a full track; its token is still good, so the
  token manager sends nothing.
\<close>

definition full_track :: json where
  "full_track = JObj [(''assetPresentation'', JStr ''FULL'')]"

definition demo_api :: api_world where
  "demo_api = \<lparr>penalty = 600000, rules_of = one_at_a_time, per_account = 2, version = ''2.2'',
     passes = (\<lambda>_. [demo_pass 8]), wait_from = (\<lambda>_. 7),
     token_world = (\<lambda>_ _. (demo_world granted None)\<lparr>starts_at := 1000\<rparr>),
     retry_world = (\<lambda>_ _. demo_world granted None),
     first_client_error = (\<lambda>_. None), client_error = (\<lambda>_ _. None),
     reply = (\<lambda>i k. if k = 0 then Reply 503 None (Parsed JNull) else Reply 200 None (Parsed full_track)),
     lease_ms = (\<lambda>_. 1000000), send_ms = (\<lambda>_ _. 1000100), reply_ms = (\<lambda>_ _. 1000200), drop_ms = (\<lambda>_. 1000300)\<rparr>"

lemma demo_calls:
  "get_token (token_world demo_api i k) 1 m = (Inr ''tok'', m) \<and> rate_limit_remaining 1000 (heap m 1) = None"
  if "rate_limited_until (heap m 1) = 0" "token_expires_at (heap m 1) = 9000"
    "access_token (heap m 1) = Some ''tok''" "rejected_access_token (heap m 1) = None"
  using that by (simp add: demo_api_def demo_world_def get_token_def cached_token_def rate_limit_remaining_def
      sat_sub_i64_def clamp_i64_def i64_max_def)

lemma demo_full_track: "presents ''FULL'' full_track" "\<not> presents ''PREVIEW'' full_track"
  by (simp_all add: presents_def full_track_def jget_str_def)

lemma demo_request:
  "\<exists>t m'. make_request_with_limit demo_api Metadata (Some 1) None demo_manager =
     (Some (Inr (envelope ''2.2'' full_track)), t, m') \<and>
     trace t = [(1, Reply 503 None (Parsed JNull)), (1, Reply 200 None (Parsed full_track))]"
proof -
  let ?m = "snd (lease_chosen 1000000 1 demo_manager)"
  have q: "rate_limited_until (heap ?m 1) = 0" "token_expires_at (heap ?m 1) = 9000"
    "access_token (heap ?m 1) = Some ''tok''" "rejected_access_token (heap ?m 1) = None"
    by (simp_all add: lease_chosen_def take_lease_def note_selection_def note_recent_def Let_def demo_defs)
  have pool: "playback_count demo_manager = 2"
    by (simp add: playback_count_def demo_defs)
  have free: "rate_limit_remaining 1000 (heap demo_manager 1) = None"
    by (simp add: demo_defs rate_limit_remaining_def sat_sub_i64_def clamp_i64_def i64_max_def)
  have acq: "acquire demo_api Metadata (Some 1) 0 fresh_tries demo_manager
      = (Some (Inr (fst (lease_chosen 1000000 1 demo_manager))), fresh_tries, False, ?m)"
    using free by (simp add: acquire_def fresh_tries_def demo_api_def secs_def split_beta)
  have clocks: "secs 1000100 = 1000" "per_account demo_api = 2" "send_ms demo_api i k = 1000100"
    "client_error demo_api i k = None" "first_client_error demo_api i = None" "version demo_api = ''2.2''"
    "reply demo_api i k = (if k = 0 then Reply 503 None (Parsed JNull) else Reply 200 None (Parsed full_track))" for i k
    by (simp_all add: secs_def demo_api_def)
  note calls = demo_calls [of ?m] demo_calls [of "emit e ?m" for e]
  obtain m2 where att: "account_attempts demo_api Metadata 0 1 (Suc (Suc 0)) 0 False fresh_tries ?m
      = (Stop (Inr (envelope ''2.2'' full_track)), fresh_tries\<lparr>trace := [(1, Reply 503 None (Parsed JNull)),
          (1, Reply 200 None (Parsed full_track))]\<rparr>, m2)"
    using q calls by (simp add: clocks is_success_def on_body_def demo_full_track emit_def fresh_tries_def
        del: One_nat_def)
  have x: "lease_addr (fst (lease_chosen 1000000 1 demo_manager)) = 1"
    by (simp add: lease_chosen_def take_lease_def)
  have fresh: "\<not> exhausted 0 (limits fresh_tries)" by (simp add: exhausted_def fresh_tries_def)

  have "\<exists>m'. try_accounts demo_api Metadata (Some 1) (Suc (Suc 0)) 0 False fresh_tries demo_manager =
      (Some (Inr (envelope ''2.2'' full_track)), fresh_tries\<lparr>trace := [(1, Reply 503 None (Parsed JNull)),
          (1, Reply 200 None (Parsed full_track))]\<rparr>, m')"
    unfolding try_accounts.simps(2) [of _ _ _ "Suc 0"]
    by (simp add: fresh acq clocks x att [folded numeral_2_eq_2] del: One_nat_def account_attempts.simps try_accounts.simps)
  then obtain m' where "try_accounts demo_api Metadata (Some 1) 2 0 False fresh_tries demo_manager =
      (Some (Inr (envelope ''2.2'' full_track)), fresh_tries\<lparr>trace := [(1, Reply 503 None (Parsed JNull)),
          (1, Reply 200 None (Parsed full_track))]\<rparr>, m')"
    unfolding numeral_2_eq_2 by blast
  then show ?thesis by (simp add: make_request_with_limit_def pool del: One_nat_def)
qed

lemma each_account_once_witness:
  "count_list (asked_ids (fst (snd (make_request_with_limit demo_api Metadata (Some 1) None demo_manager))) demo_manager) ''q'' \<le> 2"
proof -
  obtain r t m' where req: "make_request_with_limit demo_api Metadata (Some 1) None demo_manager = (r, t, m')"
    by (metis prod_cases3)
  have "ids_kept demo_api" by (simp add: ids_kept_def demo_api_def demo_pass_def)
  moreover have "max (per_account demo_api) 1 = 2" by (simp add: demo_api_def)
  ultimately show ?thesis using each_account_once [OF req] by (simp add: req del: One_nat_def)
qed

lemma never_a_preview_witness:
  "\<exists>t m'. make_request_with_limit demo_api Metadata (Some 1) None demo_manager =
     (Some (Inr (envelope ''2.2'' full_track)), t, m')
   \<and> full_answer (version demo_api) (envelope ''2.2'' full_track) (last (trace t))"
proof -
  from demo_request obtain t m' where req: "make_request_with_limit demo_api Metadata (Some 1) None demo_manager =
     (Some (Inr (envelope ''2.2'' full_track)), t, m')" by blast
  from never_a_preview [OF this] req show ?thesis by blast
qed

end
