(* ===== verification/TidalLeases.thy ===== *)
theory TidalLeases
  imports TidalProps
begin

text \<open>
  What a request to Tidal gives back: the leases and catalog slots it took, whichever way it ends.
\<close>

section \<open>What a request gives back\<close>

definition calm :: "api_world \<Rightarrow> bool" where
  "calm w \<longleftrightarrow> (\<forall>i. \<forall>p\<in>set (passes w i). \<forall>m. p_env p m = m)"

lemma inflight_kept: "kept m m' \<Longrightarrow> inflight (heap m' z) = inflight (heap m z)"
  by (simp add: kept_def place_def inflight_def)

lemma inflight_lease:
  "inflight (heap (snd (take_lease kind rest now_ms x m)) z) =
     (if z = x then inflight (set_counter kind (counter kind (heap m x) + 1) (heap m x)) else inflight (heap m z))"
  by (cases kind) (simp_all add: take_lease_def inflight_def note_selection_def note_recent_def Let_def)

lemma inflight_drop:
  "inflight (heap (drop_lease now_ms l m) z) =
     (if z = lease_addr l then inflight (set_counter (lease_of l) (counter (lease_of l) (heap m z) - 1) (heap m z))
      else inflight (heap m z))"
  by (cases "lease_of l") (auto simp: drop_lease_def inflight_def counter.simps Let_def)

lemma inflight_give_back:
  assumes "\<And>z. inflight (heap m' z) = (if z = lease_addr l
      then inflight (set_counter (lease_of l) (counter (lease_of l) (heap m z) + 1) (heap m z)) else inflight (heap m z))"
  shows "inflight (heap (drop_lease now_ms l m') z) = inflight (heap m z)"
  unfolding inflight_drop
  using assms [of z] by (cases "lease_of l") (auto simp: inflight_def counter.simps split: if_splits)

lemma inflight_set: "inflight a = inflight b \<Longrightarrow> inflight (set_counter k n a) = inflight (set_counter k n b)"
  by (cases k) (simp_all add: inflight_def)

text \<open>\<open>taken l m m1\<close>: from \<open>m\<close> to \<open>m1\<close> exactly the lease \<open>l\<close> was added to the counters.\<close>

definition unmoved :: "manager \<Rightarrow> manager \<Rightarrow> bool" where
  "unmoved m m' \<longleftrightarrow> (\<forall>z. inflight (heap m' z) = inflight (heap m z))"

definition taken :: "lease \<Rightarrow> manager \<Rightarrow> manager \<Rightarrow> bool" where
  "taken l m m' \<longleftrightarrow>
     (\<forall>z. inflight (heap m' z) = (if z = lease_addr l
        then inflight (set_counter (lease_of l) (counter (lease_of l) (heap m z) + 1) (heap m z))
        else inflight (heap m z)))"

lemma unmoved_refl [simp]: "unmoved m m"
  by (simp add: unmoved_def)

lemma unmoved_trans: "unmoved m m1 \<Longrightarrow> unmoved m1 m2 \<Longrightarrow> unmoved m m2"
  by (simp add: unmoved_def)

lemma unmoved_kept: "kept m m' \<Longrightarrow> unmoved m m'"
  by (simp add: unmoved_def inflight_kept)

lemma unmoved_taken: "unmoved m m1 \<Longrightarrow> taken l m1 m2 \<Longrightarrow> taken l m m2"
  by (auto simp: unmoved_def taken_def intro!: inflight_set)
    (metis counter_inflight inflight_set)

lemma taken_unmoved: "taken l m m1 \<Longrightarrow> unmoved m1 m2 \<Longrightarrow> taken l m m2"
  by (simp add: unmoved_def taken_def)

lemma taken_dropped: "taken l m m1 \<Longrightarrow> unmoved m (drop_lease now_ms l m1)"
  unfolding unmoved_def by (intro allI inflight_give_back) (simp add: taken_def)

lemma taken_lease: "taken (fst (take_lease kind rest now_ms x m)) m (snd (take_lease kind rest now_ms x m))"
  unfolding taken_def inflight_lease by (simp add: take_lease_def)

lemma try_lease_taken:
  assumes "try_lease p excl kind rules now now_ms m = (r, m')"
  shows "if \<exists>l. r = Inr (Some l) then taken (the (projr r)) m m' else unmoved m m'"
proof (cases "\<exists>l. r = Inr (Some l)")
  case True
  then obtain l where r: "r = Inr (Some l)" by blast
  let ?E = "eligible_addrs excl rules now now_ms m"
  let ?m1 = "at_addrs (counted_addrs excl rules now now_ms m) (\<lambda>a. snd (requests_last_hour now_ms a)) m"
  let ?m2 = "at_addrs ?E (\<lambda>a. snd (recent_error_rate now_ms a)) ?m1"
  have "(l, m') = take_lease kind (rest_ms rules) now_ms (pick_addr p kind now now_ms ?m1 ?E) (?m2\<lparr>rr_seq := rr_seq ?m2 + 1\<rparr>)"
    using assms by (auto simp: r try_lease_def Let_def split_beta split: if_splits option.splits)
  then have "taken l (?m2\<lparr>rr_seq := rr_seq ?m2 + 1\<rparr>) m'" by (metis taken_lease fst_conv snd_conv)
  then have "taken l m m'" by (rule unmoved_taken [rotated]) (simp add: unmoved_def)
  then show ?thesis by (simp add: r)
next
  case False
  then show ?thesis using try_lease_other(4) [OF assms] by (simp add: unmoved_def)
qed

text \<open>A lease request either adds its lease or leaves the counters alone.\<close>

definition balanced :: "manager \<Rightarrow> (app_error + lease) option \<Rightarrow> manager \<Rightarrow> bool" where
  "balanced m r m' \<longleftrightarrow> (\<forall>l. r = Some (Inr l) \<longrightarrow> taken l m m') \<and> ((\<forall>l. r \<noteq> Some (Inr l)) \<longrightarrow> unmoved m m')"

lemma balanced_kept: "balanced m r m1 \<Longrightarrow> kept m1 m2 \<Longrightarrow> balanced m r m2"
  by (auto simp: balanced_def intro: taken_unmoved unmoved_trans unmoved_kept)

lemma balanced_wait:
  assumes "lease_wait pen excl kind rules dl ps m = (r, m1)" "\<And>p m. p \<in> set ps \<Longrightarrow> p_env p m = m"
  shows "balanced m r m1"
  using assms
proof (induction ps arbitrary: m)
  case (Cons p ps)
  obtain q m2 where t: "try_lease pen excl kind rules (p_now p) (p_now_ms p) m = (q, m2)" by force
  have wait: "lease_wait pen excl kind rules dl ps m2 = (r, m1) \<Longrightarrow> balanced m2 r m1"
    by (rule Cons.IH) (simp_all add: Cons.prems(2))
  have late: "balanced m r m1" if "unmoved m m2" "balanced m2 r m1"
    using that by (auto simp: balanced_def intro: unmoved_taken unmoved_trans)
  show ?case
    using Cons.prems try_lease_taken [OF t] wait late
    by (auto simp: t balanced_def split: sum.splits option.splits if_splits)
qed (simp add: balanced_def)

lemma balanced_pool:
  "lease_pool_account w kind i excl m = (r, m1) \<Longrightarrow> calm w \<Longrightarrow> balanced m r m1"
  unfolding lease_pool_account_def lease_account_for_def calm_def
  by (rule balanced_wait) auto

lemma kept_alert_down: "kept m (alert_if_all_down e m)"
  by (simp add: alert_if_all_down_def split: app_error.split)

lemma balanced_acquire:
  assumes "acquire w kind pref i t m = (r, t1, c, m1)" "calm w"
  shows "balanced m r m1"
proof (cases "if i = 0 \<and> failed_ids t = [] then pref else None")
  case None
  obtain q m2 where q: "lease_pool_account w kind i (failed_ids t) m = (q, m2)" by force
  show ?thesis
    using assms(1) balanced_pool [OF q assms(2)]
    by (auto simp: acquire_def None lease_or_fail_def q balanced_def split: option.splits sum.splits
        intro: unmoved_trans [OF _ unmoved_kept [OF kept_alert_down]])
next
  case (Some a)
  note acq = assms(1) [unfolded acquire_def Some option.case]
  show ?thesis
  proof (cases "rate_limit_remaining (secs (lease_ms w i)) (heap m a)")
    case None
    then show ?thesis
      using acq taken_lease [of Playback 0 "lease_ms w i" a m]
      by (auto simp: lease_chosen_def balanced_def split_beta Let_def)
  next
    case (Some s)
    obtain f t2 where f: "schedule i (acc_id (heap m a)) (RateLimited s) t = (f, t2)" by force
    obtain q m2 where q: "lease_pool_account w kind i (failed_ids t2) m = (q, m2)" by force
    show ?thesis
      using acq balanced_pool [OF q assms(2)]
      by (auto simp: Some f q balanced_def split: option.splits sum.splits)
  qed
qed

lemma try_accounts_unmoved:
  assumes "try_accounts w kind pref n i c t m = (r, t', m')" "calm w"
  shows "unmoved m m'"
  using assms(1)
proof (induction n arbitrary: i c t m)
  case (Suc n)
  obtain q t1 c1 m1 where q: "acquire w kind pref i t m = (q, t1, c1, m1)" by (metis prod_cases4)
  note bal = balanced_acquire [OF q assms(2)]
  show ?case
  proof (cases "(c \<and> 0 < i \<or> exhausted i (limits t)) \<or> (\<forall>l. q \<noteq> Some (Inr l))")
    case True
    then show ?thesis
      using Suc.prems bal
      by (auto simp: q balanced_def split: if_splits option.splits sum.splits)
  next
    case False
    then obtain l where l: "q = Some (Inr l)" "\<not> (c \<and> 0 < i \<or> exhausted i (limits t))" by blast
    then have tk: "taken l m m1" using bal by (simp add: balanced_def)
    let ?d = "drop_lease (drop_ms w i) l"
    show ?thesis
    proof (cases "first_client_error w i")
      case (Some e)
      then show ?thesis using Suc.prems l taken_dropped [OF tk] by (auto simp: q)
    next
      case None
      obtain s t2 m2 where b: "account_attempts w kind i (lease_addr l) (max (per_account w) 1) 0 False t1 m1 = (s, t2, m2)"
        by (metis prod_cases3)
      then have "kept m1 m2" "\<forall>b. s \<noteq> Again b"
        using account_attempts_block [of w kind i "lease_addr l" "max (per_account w) 1"] by simp_all
      then have d: "unmoved m (?d m2)" using taken_dropped [OF taken_unmoved [OF tk unmoved_kept]] by blast
      show ?thesis
        using Suc.prems l d \<open>\<forall>b. s \<noteq> Again b\<close> unmoved_trans [OF d Suc.IH]
        by (cases s) (auto simp: q None b simp del: One_nat_def)
    qed
  qed
qed simp

text \<open>
  A request gives back every lease it took: whichever way it ends, a client that stops waiting
  for a lease included, each account has as many requests in flight as before it, as far as the
  request itself goes.
\<close>

lemma requests_give_back_leases:
  assumes "make_request_with_limit w kind preferred account_limit m = (r, t, m')" "calm w"
  shows "inflight (heap m' x) = inflight (heap m x)"
  using try_accounts_unmoved [OF assms(1) [unfolded make_request_with_limit_def Let_def] assms(2)]
  by (simp add: unmoved_def)

section \<open>Metadata requests\<close>

lemma unmoved_heap: "heap m' = heap m \<Longrightarrow> unmoved m m'"
  by (simp add: unmoved_def)

lemma at_addr_const: "at_addr x (\<lambda>_. f (heap m x)) m = at_addr x f m"
  by (simp add: at_addr_def)

lemma kept_pause:
  "kept m (mark_account_error i now_ms (at_addr x (\<lambda>_. snd (pause_account d now v (heap m x))) m))"
  by (rule kept_trans [OF _ kept_mark]) (simp add: kept_def)

lemma catalog_attempts_block:
  assumes "catalog_attempts w i x n k token tr m = (r, tr', m')"
  shows "kept m m' \<and> (\<exists>rs. tr' = tr @ map (Pair (CatalogAccount x)) rs
    \<and> ((\<exists>e. r = Inl e \<and> is_rate_limited e) \<or> filter is_429 rs = []))"
  using assms
proof (induction n arbitrary: k token tr m)
  case (Suc n)
  let ?tr = "tr @ [(CatalogAccount x, reply w i k)]"
  have quit: ?case if "kept m m'" "tr' = tr"
    using that by (auto intro!: exI [of _ "[]"])
  have one: ?case if "kept m m'" "tr' = ?tr" "\<not> is_429 (reply w i k) \<or> (\<exists>e. r = Inl e \<and> is_rate_limited e)"
    using that by (auto intro!: exI [of _ "[reply w i k]"])
  have again: ?case if "catalog_attempts w i x n (Suc k) token' ?tr m1 = (r, tr', m')" "kept m m1"
    "\<not> is_429 (reply w i k)" for token' m1
  proof -
    note h = that
    obtain rs where "kept m1 m'" "tr' = tr @ map (Pair (CatalogAccount x)) (reply w i k # rs)"
      "(\<exists>e. r = Inl e \<and> is_rate_limited e) \<or> filter is_429 (reply w i k # rs) = []"
      using Suc.IH [OF h(1)] h(3) by auto
    then show ?thesis using kept_trans [OF h(2)] by blast
  qed
  show ?case
  proof (cases "rate_limit_remaining (secs (send_ms w i k)) (heap m x) = None \<and> client_error w i k = None")
    case False
    then show ?thesis using Suc.prems quit by (auto split: option.splits)
  next
    case True
    show ?thesis
    proof (cases "reply w i k")
      case (NoReply e)
      then show ?thesis using Suc.prems True by (intro one) (auto simp: Let_def)
    next
      case (Reply s ra body)
      let ?m1 = "emit (ProxyAnswered (acc_id (heap m x))) m"
      have k1: "kept m ?m1" by simp
      let ?m2 = "if s = 401 \<and> 0 < k
          then reject_refreshed_token (jitter (retry_world w i k)) x token (secs (reply_ms w i k)) ?m1 else ?m1"
      have k2: "kept m ?m2"
        using kept_trans [OF k1 kept_reject_refreshed] by simp
      obtain q m3 where q: "refresh_after_unauthorized (retry_world w i k) x token ?m1 = (q, m3)" by force
      have k3: "kept m m3" using kept_trans [OF k1 kept_unauthorized [of ?m1 "retry_world w i k" x token]] q by simp
      consider (limited) "s = 429" | (refresh) "s \<noteq> 429" "s = 401 \<and> 0 < n"
        | (retry) "s \<noteq> 429" "\<not> (s = 401 \<and> 0 < n)" "\<not> is_success s" "0 < n \<and> (s = 403 \<or> 500 \<le> s)"
        | (final) "s \<noteq> 429" "\<not> (s = 401 \<and> 0 < n)" "\<not> (\<not> is_success s \<and> 0 < n \<and> (s = 403 \<or> 500 \<le> s))"
        by blast
      then show ?thesis
      proof cases
        case limited
        have "kept m (mark_account_error j u (at_addr x (\<lambda>_. snd (pause_account d v ra (heap ?m1 x))) ?m1))" for j u d v
          by (rule kept_trans [OF k1 kept_pause])
        then show ?thesis
          using Suc.prems True limited by (intro one) (auto simp: Reply Let_def split_beta)
      next
        case refresh
        then show ?thesis
          using Suc.prems True k3 one again
          by (cases q) (simp_all add: Reply Let_def q)
      next
        case retry
        have "catalog_attempts w i x n (Suc k) token ?tr ?m2 = (r, tr', m')"
          using Suc.prems True retry by (auto simp: Reply Let_def)
        then show ?thesis by (rule again [OF _ k2]) (simp add: Reply retry)
      next
        case final
        have "tr' = ?tr \<and> m' = ?m2"
          using Suc.prems True final by (auto simp: Reply Let_def split: if_splits)
        then show ?thesis using k2 by (intro one) (simp_all add: Reply final)
      qed
    qed
  qed
qed (auto intro!: exI [of _ "[]"])

lemma catalog_account_block:
  assumes "catalog_account_get w i x tr m = (r, tr', m')"
  shows "kept m m' \<and> (\<exists>rs. tr' = tr @ map (Pair (CatalogAccount x)) rs
    \<and> ((\<exists>e. r = Inl e \<and> is_rate_limited e) \<or> filter is_429 rs = []))"
proof -
  obtain q m1 where q: "get_token (token_world w i 0) x m = (q, m1)" by force
  have k1: "kept m m1" using kept_get_token [of m "token_world w i 0" x] q by simp
  have quit: ?thesis if "kept m m'" "tr' = tr"
    using that by (auto intro!: exI [of _ "[]"])
  have send: ?thesis if "catalog_attempts w i x n 0 token tr m1 = (r, tr', m')" for token n
    using catalog_attempts_block [OF that] kept_trans [OF k1] by blast
  show ?thesis
    using assms k1 quit send
    by (auto simp: catalog_account_get_def q split: option.splits sum.splits)
qed

lemma claim_first_slot:
  "claim_first cap n xs m = (r, m') \<Longrightarrow>
     heap m' = (case r of Slot x \<Rightarrow>
       (heap m)(x := note_selection n (heap m x\<lparr>catalog_inflight := catalog_inflight (heap m x) + 1\<rparr>)) | _ \<Rightarrow> heap m)"
  by (induction xs) (auto simp: try_claim_catalog_slot_def at_addr_def fun_upd_def split: if_splits)

lemma claim_slot_heap:
  "claim_catalog_slot cap now n m = (r, m') \<Longrightarrow>
     heap m' = (case r of Slot x \<Rightarrow>
       (heap m)(x := note_selection n (heap m x\<lparr>catalog_inflight := catalog_inflight (heap m x) + 1\<rparr>)) | _ \<Rightarrow> heap m)"
  by (auto simp: claim_catalog_slot_def Let_def dest!: claim_first_slot split: if_splits catalog_claim.split)

lemma slot_returned:
  assumes "claim_catalog_slot cap now n m = (Slot x, m1)" "kept m1 m2"
  shows "unmoved m (at_addr x drop_catalog_slot m2)"
  using claim_slot_heap [OF assms(1)] inflight_kept [OF assms(2)]
  by (auto simp: unmoved_def drop_catalog_slot_def inflight_def note_selection_def note_recent_def Let_def
      split: if_splits)

text \<open>The credentials that replied from the first 429 on, the limited one included.\<close>

definition asked_since_429 :: "asked_of \<Rightarrow> credential set" where
  "asked_since_429 tr = set (map fst (dropWhile (\<lambda>(c, rep). \<not> is_429 rep) tr))"

definition no_429 :: "asked_of \<Rightarrow> bool" where
  "no_429 tr \<longleftrightarrow> filter (\<lambda>(c, rep). is_429 rep) tr = []"

lemma since_429_append:
  "no_429 tr \<Longrightarrow> asked_since_429 (tr @ tr') = asked_since_429 tr'"
  "\<not> no_429 tr \<Longrightarrow> asked_since_429 (tr @ tr') = asked_since_429 tr \<union> set (map fst tr')"
  by (induction tr) (auto simp: no_429_def asked_since_429_def split: if_splits)

lemma since_429_none: "no_429 tr \<Longrightarrow> asked_since_429 tr = {}"
  using since_429_append(1) [of tr "[]"] by (simp add: asked_since_429_def)

lemma since_429_finite [simp]: "finite (asked_since_429 tr)"
  by (simp add: asked_since_429_def)

lemma since_429_credential:
  assumes "set (map fst tr') \<subseteq> {c}"
  shows "card (asked_since_429 (tr @ tr')) \<le> card (asked_since_429 tr) + 1"
proof -
  have "asked_since_429 (tr @ tr') \<subseteq> asked_since_429 tr \<union> {c}"
    using assms set_dropWhile_append [of "\<lambda>(c, rep). \<not> is_429 rep" tr tr']
    by (auto simp: asked_since_429_def)
  then have "card (asked_since_429 (tr @ tr')) \<le> card (asked_since_429 tr \<union> {c})"
    by (intro card_mono) auto
  also have "\<dots> \<le> card (asked_since_429 tr) + 1"
    by (metis card_Un_le card.empty card_insert_disjoint empty_iff finite.emptyI One_nat_def)
  finally show ?thesis .
qed

text \<open>
  What the loop over the catalog accounts keeps: at most one credential since the first 429 until
  the fallback is used, at most two then.
\<close>

lemma catalog_slots_block:
  assumes "catalog_slots c n i st tr m = (r, st', tr', m')" "\<not> fallback_tried st"
    and "limit_error st = None \<Longrightarrow> no_429 tr" "card (asked_since_429 tr) \<le> 1"
  shows "unmoved m m' \<and> card (asked_since_429 tr') \<le> 2
    \<and> (r = None \<longrightarrow> \<not> fallback_tried st' \<and> (limit_error st' = None \<longrightarrow> no_429 tr') \<and> card (asked_since_429 tr') \<le> 1)"
  using assms
proof (induction n arbitrary: i st tr m)
  case (Suc n)
  obtain q m1 where q: "claim_catalog_slot (slot_cap c) (secs (claim_ms c i)) (claim_ms c i) m = (q, m1)" by force
  show ?case
  proof (cases q)
    case (Slot x)
    obtain s tr2 m2 where g: "catalog_account_get (accounts_world c) i x tr m1 = (s, tr2, m2)" by (metis prod_cases3)
    from catalog_account_block [OF g] obtain rs where k: "kept m1 m2"
      and tr2: "tr2 = tr @ map (Pair (CatalogAccount x)) rs"
      and rs: "(\<exists>e. s = Inl e \<and> is_rate_limited e) \<or> filter is_429 rs = []" by blast
    let ?m3 = "at_addr x drop_catalog_slot m2"
    have u: "unmoved m ?m3" by (rule slot_returned [OF q [unfolded Slot] k])
    have one: "card (asked_since_429 tr2) \<le> card (asked_since_429 tr) + 1"
      unfolding tr2 by (rule since_429_credential [of _ "CatalogAccount x"]) auto
    have clear: "no_429 tr2" if "no_429 tr" "filter is_429 rs = []"
      using that by (simp add: no_429_def tr2 filter_map comp_def)
    have first: "card (asked_since_429 tr) = 0" if "limit_error st = None"
      using since_429_none Suc.prems(3) that by simp
    note d = Suc.prems(1) [unfolded catalog_slots.simps q Slot]
    show ?thesis
    proof (cases "limit_error st")
      case None
      have IH: ?thesis if "s = Inl e" "catalog_slots c n (Suc i) (st\<lparr>limit_error := Some e\<rparr>) tr2 ?m3 = (r, st', tr', m')" for e
        using Suc.IH [OF that(2)] Suc.prems(2) one first [OF None] unmoved_trans [OF u] by simp
      show ?thesis
        using d Suc.prems(2,3) IH u one first [OF None] clear rs
        by (auto simp: None g Let_def split: sum.splits if_splits)
    next
      case (Some e)
      show ?thesis
        using d Suc.prems(2,4) u one by (auto simp: Some g Let_def split: sum.splits)
    qed
  next
    case Busy
    then have "unmoved m m1" using claim_slot_heap [OF q] by (simp add: unmoved_def)
    then show ?thesis
      using Suc.prems by (auto simp: q Busy split: option.splits)
  next
    case Unavailable
    then have "unmoved m m1" using claim_slot_heap [OF q] by (simp add: unmoved_def)
    then show ?thesis
      using Suc.prems by (auto simp: q Unavailable split: option.splits)
  qed
qed auto

lemma try_one_account:
  assumes "try_accounts w kind pref n i c t m = (r, t', m')" "n \<le> 1" "trace t = []"
  shows "\<exists>x. fst ` set (trace t') \<subseteq> {x}"
proof (cases n)
  case 0
  then show ?thesis using assms by auto
next
  case (Suc k)
  then have n: "n = Suc 0" using assms(2) by simp
  show ?thesis
    by (cases rule: try_cases [OF assms(1) [unfolded n]]) (use assms(3) in auto)
qed

lemma pool_block:
  assumes "catalog_pool c cap tr m = (r, tr', m')"
  obtains ps where "tr' = tr @ map (\<lambda>(x, rep). (PoolAccount x, rep)) ps"
    "card (set (map fst (dropWhile (\<lambda>(x, rep). \<not> is_429 rep) ps))) \<le> 3"
    "cap = Some 1 \<Longrightarrow> \<exists>x. fst ` set ps \<subseteq> {x}"
    "calm (pool_world c) \<Longrightarrow> unmoved m m'"
proof -
  obtain q t m1 where req: "make_request_with_limit (pool_world c) Metadata None cap m = (q, t, m1)" by (metis prod_cases3)
  note walk = req [unfolded make_request_with_limit_def Let_def]
  show thesis
  proof (rule that [of "trace t"])
    show "card (set (map fst (dropWhile (\<lambda>(x, rep). \<not> is_429 rep) (trace t)))) \<le> 3"
      using try_accounts_fallback [OF walk]
      by (simp add: fallback_inv_def fresh_tries_def count_429_def after_429_def)
    show "\<exists>x. fst ` set (trace t) \<subseteq> {x}" if "cap = Some 1"
      by (rule try_one_account [OF walk]) (simp_all add: that fresh_tries_def)
    show "unmoved m m'" if "calm (pool_world c)"
      using try_accounts_unmoved [OF walk that] assms by (simp add: catalog_pool_def req)
    show "tr' = tr @ map (\<lambda>(x, rep). (PoolAccount x, rep)) (trace t)"
      using assms by (simp add: catalog_pool_def req)
  qed
qed

definition first_limited :: "asked_of \<Rightarrow> credential option" where
  "first_limited tr = map_option fst (find (\<lambda>(c, rep). is_429 rep) tr)"

definition fallback_bound :: "asked_of \<Rightarrow> nat" where
  "fallback_bound tr = (case first_limited tr of Some (PoolAccount x) \<Rightarrow> 3 | _ \<Rightarrow> 2)"

lemma pool_since_429:
  "asked_since_429 (map (\<lambda>(x, rep). (PoolAccount x, rep)) ps)
   = PoolAccount ` set (map fst (dropWhile (\<lambda>(x, rep). \<not> is_429 rep) ps))"
  by (simp add: asked_since_429_def dropWhile_map comp_def case_prod_beta' image_image)

lemma pool_first_limited:
  "no_429 tr \<Longrightarrow> first_limited (tr @ map (\<lambda>(x, rep). (PoolAccount x, rep)) ps) = Some c \<Longrightarrow> \<exists>x. c = PoolAccount x"
proof (induction tr)
  case Nil
  then show ?case by (induction ps) (auto simp: first_limited_def split: if_splits)
qed (auto simp: no_429_def first_limited_def split: if_splits)

lemma none_limited: "first_limited tr = None \<Longrightarrow> asked_since_429 tr = {}"
  by (rule since_429_none) (auto simp: first_limited_def no_429_def find_None_iff filter_empty_conv)

lemma pool_bound:
  assumes "catalog_pool c cap tr m = (r, tr', m')"
    and "no_429 tr \<or> cap = Some 1 \<and> card (asked_since_429 tr) \<le> 1"
  shows "card (asked_since_429 tr') \<le> fallback_bound tr'"
proof -
  from pool_block [OF assms(1)] obtain ps where tr': "tr' = tr @ map (\<lambda>(x, rep). (PoolAccount x, rep)) ps"
    and three: "card (set (map fst (dropWhile (\<lambda>(x, rep). \<not> is_429 rep) ps))) \<le> 3"
    and one: "cap = Some 1 \<Longrightarrow> \<exists>x. fst ` set ps \<subseteq> {x}" by metis
  show ?thesis
  proof (cases "no_429 tr")
    case True
    have "asked_since_429 tr' = PoolAccount ` set (map fst (dropWhile (\<lambda>(x, rep). \<not> is_429 rep) ps))"
      by (simp add: tr' since_429_append(1) [OF True] pool_since_429)
    then have "card (asked_since_429 tr') \<le> 3" using three card_image_le le_trans by (metis List.finite_set)
    then show ?thesis
      using pool_first_limited [OF True, of ps] none_limited [of tr']
      by (cases "first_limited tr'") (auto simp: fallback_bound_def tr')
  next
    case False
    then obtain x where "fst ` set ps \<subseteq> {x}" using one assms(2) by blast
    then have "set (map fst (map (\<lambda>(x, rep). (PoolAccount x, rep)) ps)) \<subseteq> {PoolAccount x}" by force
    from since_429_credential [OF this, of tr] False assms(2) show ?thesis
      by (auto simp: fallback_bound_def tr' split: option.split credential.split)
  qed
qed

lemma static_block:
  assumes "catalog_static_get c until = (r, tr, u)"
  shows "card (asked_since_429 tr) \<le> 1 \<and> (no_429 tr \<or> (\<exists>s. r = Inl (RateLimited s)))"
  using assms
  by (auto simp: catalog_static_get_def Let_def no_429_def asked_since_429_def
      split: if_splits option.splits api_reply.splits)

text \<open>The whole of a metadata request, as the two facts below use it.\<close>

lemma catalog_get_block:
  assumes "catalog_get c until m = (r, tr, u, m')"
  shows "card (asked_since_429 tr) \<le> fallback_bound tr \<and> (calm (pool_world c) \<longrightarrow> unmoved m m')"
proof -
  obtain sr tr0 u0 where s: "(if has_static c then catalog_static_get c until else (Inl Timeout, [], until)) = (sr, tr0, u0)"
    by (metis prod_cases3)
  have s0: "card (asked_since_429 tr0) \<le> 1" "no_429 tr0 \<or> (\<exists>s. sr = Inl (RateLimited s))"
    using s static_block by (auto split: if_splits simp: asked_since_429_def no_429_def)
  have two: "card (asked_since_429 tr) \<le> 2 \<Longrightarrow> card (asked_since_429 tr) \<le> fallback_bound tr" for tr
    by (auto simp: fallback_bound_def split: option.split credential.split)
  show ?thesis
  proof (cases sr)
    case (Inr data)
    then show ?thesis using assms s s0 two by (simp add: catalog_get_def)
  next
    case (Inl e)
    let ?st = "\<lparr>limit_error = (if is_rate_limited e then Some e else None), fallback_tried = False, catalog_busy = False\<rparr>"
    obtain q st1 tr1 m1 where l: "catalog_slots c 2 0 ?st tr0 m = (q, st1, tr1, m1)" by (metis prod_cases4)
    have blk: "unmoved m m1 \<and> card (asked_since_429 tr1) \<le> 2
        \<and> (q = None \<longrightarrow> \<not> fallback_tried st1 \<and> (limit_error st1 = None \<longrightarrow> no_429 tr1) \<and> card (asked_since_429 tr1) \<le> 1)"
      by (rule catalog_slots_block [OF l]) (use s0 Inl in auto)
    show ?thesis
    proof (cases q)
      case (Some res)
      then show ?thesis using assms s Inl l blk two by (simp add: catalog_get_def)
    next
      case None
      have pool: ?thesis if "catalog_pool c cap tr1 m1 = (p, tr, m')"
        "no_429 tr1 \<or> cap = Some 1" for p cap
        using pool_bound [OF that(1)] pool_block [OF that(1)] blk None that(2) by (metis unmoved_trans)
      show ?thesis
        using assms blk None two pool [of None] pool [of "Some 1"]
        by (auto simp: catalog_get_def s Inl l split_beta prod_eq_iff Let_def split: option.splits if_splits)
    qed
  qed
qed

text \<open>
  C33. A metadata request that meets a 429 uses few further credentials: after a 429 of the static
  token or of a catalog account at most one other credential is asked, the playback pool included;
  only when the first 429 came from a pool account are there two.
\<close>

theorem catalog_uses_one_fallback:
  "case catalog_get c until m of (r, tr, u, m') \<Rightarrow> card (asked_since_429 tr) \<le> fallback_bound tr"
  using catalog_get_block [of c until m] by (auto split: prod.splits)

text \<open>
  A metadata request gives back the catalog slots and pool leases it took: each account has
  as many requests in flight afterwards as before, as far as the request itself goes.
\<close>

lemma metadata_gives_back_slots:
  assumes "catalog_get c until m = (r, tr, u, m')" "calm (pool_world c)"
  shows "inflight (heap m' x) = inflight (heap m x)"
  using catalog_get_block [OF assms(1)] assms(2) by (simp add: unmoved_def)

section \<open>Concrete requests\<close>

lemma requests_give_back_leases_witness:
  "inflight (heap (snd (snd (make_request_with_limit demo_api Metadata (Some 1) None demo_manager))) 1)
   = inflight (heap demo_manager 1)
   \<and> counter Playback (heap (snd (lease_chosen 1000000 1 demo_manager)) 1) = 1"
proof -
  obtain r t m' where req: "make_request_with_limit demo_api Metadata (Some 1) None demo_manager = (r, t, m')"
    by (metis prod_cases3)
  have "calm demo_api" by (simp add: calm_def demo_api_def demo_pass_def)
  from requests_give_back_leases [OF req this, of 1]
  have "inflight (heap (snd (snd (make_request_with_limit demo_api Metadata (Some 1) None demo_manager))) 1)
      = inflight (heap demo_manager 1)"
    by (simp add: req del: One_nat_def)
  moreover have "counter Playback (heap (snd (lease_chosen 1000000 1 demo_manager)) 1) = 1"
    by (simp add: lease_chosen_def take_lease_def) (simp add: demo_defs counter.simps)
  ultimately show ?thesis by blast
qed

text \<open>The static token meets a 429; the catalog account answers.\<close>

definition demo_catalog :: catalog_world where
  "demo_catalog = \<lparr>has_static = True, static_client_error = None, static_reply = Reply 429 (Some ''7'') (Parsed JNull),
     static_at = 1000, slot_cap = 2, claim_ms = (\<lambda>_. 1000000), accounts_world = demo_api, pool_world = demo_api,
     limit_at = 1000\<rparr>"

lemma metadata_gives_back_slots_witness:
  "inflight (heap (snd (snd (snd (catalog_get demo_catalog 0 demo_manager)))) 2) = inflight (heap demo_manager 2)
   \<and> fst (claim_catalog_slot (slot_cap demo_catalog) 1000 1000000 demo_manager) = Slot 2"
proof -
  obtain r tr u m' where g: "catalog_get demo_catalog 0 demo_manager = (r, tr, u, m')" by (metis prod_cases4)
  have "calm (pool_world demo_catalog)" by (simp add: demo_catalog_def calm_def demo_api_def demo_pass_def)
  from metadata_gives_back_slots [OF g this, of 2]
  have "inflight (heap (snd (snd (snd (catalog_get demo_catalog 0 demo_manager)))) 2) = inflight (heap demo_manager 2)"
    by (simp add: g)
  moreover have "catalog_ready 1000 demo_manager = [2]" "refresh_cooldown 1000 (heap demo_manager 2) = None"
    "catalog_inflight (heap demo_manager 2) = 0" "slot_cap demo_catalog = 2"
    by (simp_all add: catalog_ready_def refresh_cooldown_def demo_defs rate_limit_remaining_def sat_sub_i64_def
        clamp_i64_def i64_max_def has_usable_token_def demo_catalog_def)
  ultimately show ?thesis
    by (simp add: claim_catalog_slot_def try_claim_catalog_slot_def)
qed

end
