(* ===== verification/AdminAuth.thy ===== *)
theory AdminAuth
  imports AuthGuard Json
begin

text \<open>
  \<open>src/admin/mod.rs\<close>: who may use the admin panel. A request carries the admin key in a header or
  a session cookie signed with it; wrong keys count towards the lock of \<open>AuthGuard\<close>. SHA-256 is the
  parameter \<open>sha\<close>, base64 (URL-safe, unpadded) the parameters \<open>enc\<close> and \<open>dec\<close>, address parsing
  \<open>parse_ip\<close> and \<open>to_canonical\<close> the parameters of \<open>client_ip\<close>. Headers are given as far as they are
  read, \<open>None\<close> when absent or not text. The guard's clock is monotonic (\<open>now\<close>), sessions use Unix
  seconds (\<open>unix\<close>).
\<close>

unbundle bit_operations_syntax

section \<open>Session signatures\<close>

type_synonym byte = "8 word"

definition SESSION_COOKIE :: string where
  "SESSION_COOKIE = ''hifi_admin_session''"

definition SESSION_SECONDS :: int where
  "SESSION_SECONDS = 30 * 24 * 60 * 60"

definition bytes_of :: "string \<Rightarrow> byte list" where
  "bytes_of s = map (\<lambda>c. word_of_nat (of_char c)) s"

text \<open>The key in a block of 64 bytes: hashed when it is longer, padded with zeros.\<close>

definition key_block :: "(byte list \<Rightarrow> byte list) \<Rightarrow> string \<Rightarrow> byte list" where
  "key_block sha key =
     (let k = (if length (bytes_of key) > 64 then sha (bytes_of key) else bytes_of key)
      in k @ replicate (64 - length k) 0)"

definition session_signature :: "(byte list \<Rightarrow> byte list) \<Rightarrow> string \<Rightarrow> int \<Rightarrow> byte list" where
  "session_signature sha key expiry =
     (let block = key_block sha key;
          inner_pad = map (\<lambda>b. 0x36 XOR b) block;
          outer_pad = map (\<lambda>b. 0x5c XOR b) block;
          inner = sha (inner_pad @ bytes_of (''hifi-admin-session-v1:'' @ show_int expiry))
      in sha (outer_pad @ inner))"

text \<open>The comparison that takes the same time wherever two signatures differ.\<close>

definition same_bytes :: "byte list \<Rightarrow> byte list \<Rightarrow> bool" where
  "same_bytes xs ys \<longleftrightarrow>
     length xs = length ys \<and> fold (\<lambda>(a, b) acc. acc OR (a XOR b)) (zip xs ys) 0 = 0"

section \<open>Sessions\<close>

definition strip_prefix :: "string \<Rightarrow> string \<Rightarrow> string option" where
  "strip_prefix p s = (if starts_with p s then Some (drop (length p) s) else None)"

fun find_map :: "('a \<Rightarrow> 'b option) \<Rightarrow> 'a list \<Rightarrow> 'b option" where
  "find_map f [] = None"
| "find_map f (x # xs) = (case f x of Some y \<Rightarrow> Some y | None \<Rightarrow> find_map f xs)"

definition session_value :: "string \<Rightarrow> string option" where
  "session_value cookie =
     find_map (\<lambda>part. strip_prefix (SESSION_COOKIE @ ''='') (trim part)) (split_on CHR '';'' cookie)"

definition valid_session ::
    "(byte list \<Rightarrow> byte list) \<Rightarrow> (string \<Rightarrow> byte list option) \<Rightarrow> int \<Rightarrow> string option \<Rightarrow> string \<Rightarrow> bool" where
  "valid_session sha dec unix cookie key =
     (case Option.bind cookie session_value of
        None \<Rightarrow> False
      | Some val \<Rightarrow>
          (case split_on CHR ''.'' val of
             [v, e, s] \<Rightarrow>
               v = ''v1'' \<and>
               (case parse_i64 e of
                  None \<Rightarrow> False
                | Some expiry \<Rightarrow>
                    \<not> (expiry < unix \<or> expiry > unix + SESSION_SECONDS) \<and>
                    (case dec s of
                       None \<Rightarrow> False
                     | Some signature \<Rightarrow> same_bytes signature (session_signature sha key expiry)))
           | _ \<Rightarrow> False))"

definition session_cookie ::
    "(byte list \<Rightarrow> byte list) \<Rightarrow> (byte list \<Rightarrow> string) \<Rightarrow> string \<Rightarrow> int \<Rightarrow> string" where
  "session_cookie sha enc key unix =
     (let expiry = unix + SESSION_SECONDS
      in ''v1.'' @ show_int expiry @ ''.'' @ enc (session_signature sha key expiry))"

section \<open>The client's address\<close>

definition client_ip ::
    "(string \<Rightarrow> ip_addr option) \<Rightarrow> (ip_addr \<Rightarrow> ip_addr) \<Rightarrow> bool \<Rightarrow> string option \<Rightarrow> string option \<Rightarrow> ip_addr \<Rightarrow> ip_addr" where
  "client_ip parse_ip to_canonical trust_proxy xff real_ip fallback =
     (case (if trust_proxy
            then (case Option.bind xff (\<lambda>v. parse_ip (trim (hd (split_on CHR '','' v)))) of
                    Some ip \<Rightarrow> Some ip
                  | None \<Rightarrow> Option.bind real_ip (\<lambda>v. parse_ip (trim v)))
            else None) of
        Some ip \<Rightarrow> to_canonical ip
      | None \<Rightarrow> to_canonical fallback)"

section \<open>Login and the panel\<close>

datatype admin_answer =
    LockedOut nat
  | Denied string
  | Granted "string option"

text \<open>The cookie of a successful login, with its attributes.\<close>

definition login ::
    "(byte list \<Rightarrow> byte list) \<Rightarrow> (byte list \<Rightarrow> string) \<Rightarrow> string \<Rightarrow> bool \<Rightarrow> string \<Rightarrow> ip_addr \<Rightarrow> instant \<Rightarrow> int \<Rightarrow>
     guard_state \<Rightarrow> admin_answer \<times> guard_state" where
  "login sha enc admin_key secure key ip now unix s =
     (case auth_check ip now s of
        (Some retry_after, s) \<Rightarrow> (LockedOut retry_after, s)
      | (None, s) \<Rightarrow>
          if admin_key \<noteq> [] \<and> key \<noteq> admin_key
          then (case auth_failed ip now s of
                  (Some retry_after, s) \<Rightarrow> (LockedOut retry_after, s)
                | (None, s) \<Rightarrow> (Denied ''Invalid admin key'', s))
          else (Granted (if admin_key = [] then None
                         else Some (SESSION_COOKIE @ ''='' @ session_cookie sha enc admin_key unix @
                            ''; Path=/admin; Max-Age='' @ show_int SESSION_SECONDS @
                            ''; HttpOnly; SameSite=Strict'' @ (if secure then ''; Secure'' else []))),
                auth_clear ip s))"

definition admin_auth ::
    "(byte list \<Rightarrow> byte list) \<Rightarrow> (string \<Rightarrow> byte list option) \<Rightarrow> string \<Rightarrow> string option \<Rightarrow> string option \<Rightarrow>
     ip_addr \<Rightarrow> instant \<Rightarrow> int \<Rightarrow> guard_state \<Rightarrow> admin_answer \<times> guard_state" where
  "admin_auth sha dec admin_key header cookie ip now unix s =
     (case auth_check ip now s of
        (Some retry_after, s) \<Rightarrow> (LockedOut retry_after, s)
      | (None, s) \<Rightarrow>
          (let given = unwrap_or header []
           in if admin_key = [] \<or> given = admin_key \<or> valid_session sha dec unix cookie admin_key
              then (Granted None, auth_clear ip s)
              else (case (if given \<noteq> [] then auth_failed ip now s else (None, s)) of
                      (Some retry_after, s) \<Rightarrow> (LockedOut retry_after, s)
                    | (None, s) \<Rightarrow> (Denied ''Invalid or missing admin session'', s))))"

section \<open>What a session is worth\<close>

lemma same_bytes_iff: "same_bytes xs ys \<longleftrightarrow> xs = ys"
proof -
  have "fold (\<lambda>(a, b) acc. acc OR (a XOR b)) zs c = 0 \<longleftrightarrow> c = 0 \<and> list_all (\<lambda>(a, b). a = b) zs"
    for zs :: "(byte \<times> byte) list" and c
  proof (induction zs arbitrary: c)
    case (Cons z zs)
    obtain a b where z: "z = (a, b)" by force
    have "c OR (a XOR b) = 0 \<longleftrightarrow> c = 0 \<and> a = b"
      by (auto simp: bit_eq_iff bit_or_iff bit_xor_iff)
    with Cons z show ?case by auto
  qed simp
  moreover have "length xs = length ys \<Longrightarrow> list_all (\<lambda>(a, b). a = b) (zip xs ys) \<longleftrightarrow> xs = ys"
    by (induction xs ys rule: list_induct2) auto
  ultimately show ?thesis by (auto simp: same_bytes_def)
qed

lemma valid_session_iff:
  "valid_session sha dec unix (Some cookie) key \<longleftrightarrow>
     (\<exists>e s expiry. Option.bind (session_value cookie) (\<lambda>v. Some (split_on CHR ''.'' v)) = Some [''v1'', e, s]
        \<and> parse_i64 e = Some expiry \<and> unix \<le> expiry \<and> expiry \<le> unix + SESSION_SECONDS
        \<and> dec s = Some (session_signature sha key expiry))"
  by (auto simp: valid_session_def same_bytes_iff split: option.splits list.splits)

text \<open>
  Nobody gets in with a cookie they made up: a cookie is accepted only if it holds, under the
  panel's name, an expiry time within the next 30 days and the keyed signature of that very time.
\<close>

lemma sessions_are_signed:
  assumes "valid_session sha dec unix (Some cookie) key"
  shows "\<exists>expiry s. session_value cookie \<noteq> None \<and> list_ex (\<lambda>w. dec w = Some s) (split_on CHR ''.'' (the (session_value cookie)))
    \<and> s = session_signature sha key expiry \<and> unix \<le> expiry \<and> expiry \<le> unix + SESSION_SECONDS"
proof -
  from assms obtain e w expiry where "session_value cookie \<noteq> None"
      "split_on CHR ''.'' (the (session_value cookie)) = [''v1'', e, w]"
      "dec w = Some (session_signature sha key expiry)" "unix \<le> expiry" "expiry \<le> unix + SESSION_SECONDS"
    unfolding valid_session_iff by (cases "session_value cookie") auto
  then show ?thesis by auto
qed

lemma trim_plain: "s \<noteq> [] \<Longrightarrow> list_all (\<lambda>c. \<not> is_ascii_space c) s \<Longrightarrow> trim s = s"
proof -
  assume s: "s \<noteq> []" "list_all (\<lambda>c. \<not> is_ascii_space c) s"
  then have "dropWhile is_ascii_space s = s" "dropWhile is_ascii_space (rev s) = rev s"
    by (auto simp: dropWhile_eq_self_iff list_all_iff hd_rev)
  then show "trim s = s" by (simp add: trim_def)
qed

lemma trim_space: "is_ascii_space c \<Longrightarrow> trim (c # s) = trim s"
  by (simp add: trim_def)

lemma find_map_append: "find_map f (xs @ ys) = (case find_map f xs of Some y \<Rightarrow> Some y | None \<Rightarrow> find_map f ys)"
  by (induction xs) (auto split: option.split)

lemma show_int_clean: "list_all (\<lambda>c. is_ascii_digit c \<or> c = CHR ''-'') (show_int i)"
  using show_nat_digits by (auto simp: show_int_def list_all_iff)

text \<open>The characters a session value is made of, given the alphabet of the encoding.\<close>

definition cookie_safe :: "string \<Rightarrow> bool" where
  "cookie_safe s \<longleftrightarrow> list_all (\<lambda>c. c \<noteq> CHR '';'' \<and> c \<noteq> CHR ''.'' \<and> \<not> is_ascii_space c) s"

lemma cookie_safe_int: "cookie_safe (show_int i)"
proof -
  have "c \<noteq> CHR '';'' \<and> c \<noteq> CHR ''.'' \<and> \<not> is_ascii_space c" if "is_ascii_digit c \<or> c = CHR ''-''" for c
    using that by (auto simp: is_ascii_digit_def is_ascii_space_def Let_def)
  then show ?thesis using show_int_clean [of i] by (auto simp: cookie_safe_def list_all_iff)
qed

lemma session_value_issued:
  assumes "cookie_safe (enc (session_signature sha key (t + SESSION_SECONDS)))"
    and "others = [] \<or> (\<exists>ck. others = ck @ ''; '' \<and> session_value ck = None)"
  shows "session_value (others @ SESSION_COOKIE @ ''='' @ session_cookie sha enc key t)
    = Some (session_cookie sha enc key t)"
proof -
  let ?v = "session_cookie sha enc key t" and ?p = "SESSION_COOKIE @ ''=''"
  have safe: "list_all (\<lambda>c. c \<noteq> CHR '';'' \<and> \<not> is_ascii_space c) (?p @ ?v)"
  proof -
    let ?P = "\<lambda>c. c \<noteq> CHR '';'' \<and> \<not> is_ascii_space c"
    have "list_all ?P (show_int (t + SESSION_SECONDS))"
      "list_all ?P (enc (session_signature sha key (t + SESSION_SECONDS)))"
      using assms(1) cookie_safe_int [of "t + SESSION_SECONDS"] by (simp_all add: cookie_safe_def list_all_iff)
    moreover have "list_all ?P ''v1.''" "list_all ?P ''.''" "list_all ?P ?p"
      by (simp_all add: is_ascii_space_def SESSION_COOKIE_def)
    ultimately show ?thesis by (simp add: session_cookie_def Let_def)
  qed
  then have one: "split_on CHR '';'' (?p @ ?v) = [?p @ ?v]"
    by (intro split_on_plain) (auto simp: list_all_iff)
  have tr: "trim (?p @ ?v) = ?p @ ?v" "trim (CHR '' '' # ?p @ ?v) = ?p @ ?v"
  proof -
    have "list_all (\<lambda>c. \<not> is_ascii_space c) (?p @ ?v)" using safe by (simp add: list_all_iff)
    then show "trim (?p @ ?v) = ?p @ ?v" by (intro trim_plain) simp_all
    moreover have "is_ascii_space CHR '' ''" by (simp add: is_ascii_space_def)
    ultimately show "trim (CHR '' '' # ?p @ ?v) = ?p @ ?v" using trim_space by metis
  qed
  have strip: "strip_prefix ?p (?p @ ?v) = Some ?v" by (simp add: strip_prefix_def starts_with_def)
  from assms(2) show ?thesis
  proof (elim disjE exE conjE)
    assume "others = []"
    then show ?thesis using one tr strip by (simp add: session_value_def)
  next
    fix ck assume o: "others = ck @ ''; ''" and none: "session_value ck = None"
    have "split_on CHR '';'' (CHR '' '' # ?p @ ?v) = [CHR '' '' # ?p @ ?v]"
      using safe by (intro split_on_plain) (auto simp: list_all_iff)
    then have "split_on CHR '';'' (others @ ?p @ ?v) = split_on CHR '';'' ck @ [CHR '' '' # ?p @ ?v]"
      by (simp add: o split_on_append)
    then show ?thesis
      using none tr strip by (simp add: session_value_def find_map_append)
  qed
qed

lemma issued_session_valid:
  assumes "\<And>bs. dec (enc bs) = Some bs" "\<And>bs. cookie_safe (enc bs)"
    and "0 \<le> t" "t + SESSION_SECONDS < 2 ^ 63"
    and "others = [] \<or> (\<exists>ck. others = ck @ ''; '' \<and> session_value ck = None)"
  shows "valid_session sha dec unix (Some (others @ SESSION_COOKIE @ ''='' @ session_cookie sha enc key t)) key
    \<longleftrightarrow> t \<le> unix \<and> unix \<le> t + SESSION_SECONDS"
proof -
  let ?x = "t + SESSION_SECONDS"
  have "split_on CHR ''.'' (session_cookie sha enc key t) = [''v1'', show_int ?x, enc (session_signature sha key ?x)]"
  proof -
    have s: "split_on CHR ''.'' (w @ CHR ''.'' # u) = w # split_on CHR ''.'' u" if "cookie_safe w" for w u
      using that by (intro split_on_no_delim) (auto simp: cookie_safe_def list_all_iff)
    have "split_on CHR ''.'' (enc (session_signature sha key ?x)) = [enc (session_signature sha key ?x)]"
      using assms(2) by (intro split_on_plain) (auto simp: cookie_safe_def list_all_iff)
    then show ?thesis
      using s [of "''v1''" "show_int ?x @ CHR ''.'' # enc (session_signature sha key ?x)"] s [OF cookie_safe_int]
      by (simp add: session_cookie_def Let_def cookie_safe_def is_ascii_space_def)
  qed
  moreover have "parse_i64 (show_int ?x) = Some ?x"
    using assms(3,4) by (intro parse_show_int) (simp_all add: SESSION_SECONDS_def)
  moreover have "0 \<le> SESSION_SECONDS" by (simp add: SESSION_SECONDS_def)
  ultimately show ?thesis
    using assms(1) session_value_issued [of enc sha key t others] assms(2,5)
    by (auto simp: valid_session_iff)
qed

text \<open>
  A login lasts 30 days: the cookie it sets, sent back alone or after other cookies, is
  accepted from that moment on for exactly 30 days. Base64 without padding decodes what it encoded
  and uses neither semicolons, dots nor white space.
\<close>

lemma session_lasts_thirty_days:
  assumes "\<And>bs. dec (enc bs) = Some bs" "\<And>bs. cookie_safe (enc bs)"
    and "0 \<le> t" "t + SESSION_SECONDS < 2 ^ 63"
    and "others = [] \<or> (\<exists>ck. others = ck @ ''; '' \<and> session_value ck = None)"
  shows "valid_session sha dec unix (Some (others @ SESSION_COOKIE @ ''='' @ session_cookie sha enc key t)) key
    \<longleftrightarrow> t \<le> unix \<and> unix \<le> t + SESSION_SECONDS"
  by (rule issued_session_valid [OF assms])

section \<open>The lock in front of the panel\<close>

text \<open>
  What a request amounts to, and the specification over it: the address' failures since its last
  success, and its lock.
\<close>

datatype attempt = Right | Wrong | Anonymous

datatype admin_request =
    Login string bool
  | Panel "string option" "string option"

fun attempt_of ::
    "(byte list \<Rightarrow> byte list) \<Rightarrow> (string \<Rightarrow> byte list option) \<Rightarrow> string \<Rightarrow> int \<Rightarrow> admin_request \<Rightarrow> attempt" where
  "attempt_of sha dec admin_key unix (Login key secure) =
     (if admin_key = [] \<or> key = admin_key then Right else Wrong)"
| "attempt_of sha dec admin_key unix (Panel header cookie) =
     (if admin_key = [] \<or> header = Some admin_key \<or> valid_session sha dec unix cookie admin_key then Right
      else if header = None \<or> header = Some [] then Anonymous else Wrong)"

fun admin_spec :: "attempt \<Rightarrow> instant \<Rightarrow> ip_spec \<Rightarrow> nat option \<times> ip_spec" where
  "admin_spec a now st =
     (case spec_strike auth_cfg False now st of
        (Some secs, st1) \<Rightarrow> (Some secs, st1)
      | (None, st1) \<Rightarrow>
          (case a of
             Right \<Rightarrow> (None, ([], None))
           | Wrong \<Rightarrow> spec_strike auth_cfg True now st1
           | Anonymous \<Rightarrow> (None, st1)))"

text \<open>A request with its address and the Unix time, on the guard.\<close>

fun admin_step ::
    "(byte list \<Rightarrow> byte list) \<Rightarrow> (byte list \<Rightarrow> string) \<Rightarrow> (string \<Rightarrow> byte list option) \<Rightarrow> string \<Rightarrow>
     admin_request \<times> ip_addr \<times> int \<Rightarrow> instant \<Rightarrow> guard_state \<Rightarrow> admin_answer \<times> guard_state" where
  "admin_step sha enc dec admin_key (Login key secure, ip, unix) now s =
     login sha enc admin_key secure key ip now unix s"
| "admin_step sha enc dec admin_key (Panel header cookie, ip, unix) now s =
     admin_auth sha dec admin_key header cookie ip now unix s"

fun verdict :: "admin_answer \<Rightarrow> nat option \<times> bool" where
  "verdict (LockedOut secs) = (Some secs, False)"
| "verdict (Denied why) = (None, False)"
| "verdict (Granted cookie) = (None, True)"

fun admin_run ::
    "(byte list \<Rightarrow> byte list) \<Rightarrow> (byte list \<Rightarrow> string) \<Rightarrow> (string \<Rightarrow> byte list option) \<Rightarrow> string \<Rightarrow>
     guard_state \<Rightarrow> ((admin_request \<times> ip_addr \<times> int) \<times> instant) list \<Rightarrow> (nat option \<times> bool) list" where
  "admin_run sha enc dec key s [] = []"
| "admin_run sha enc dec key s ((r, now) # rs) =
     (let (a, s1) = admin_step sha enc dec key r now s in verdict a # admin_run sha enc dec key s1 rs)"

fun admin_spec_run ::
    "(byte list \<Rightarrow> byte list) \<Rightarrow> (string \<Rightarrow> byte list option) \<Rightarrow> string \<Rightarrow>
     (ip_addr \<Rightarrow> ip_spec) \<Rightarrow> ((admin_request \<times> ip_addr \<times> int) \<times> instant) list \<Rightarrow> (nat option \<times> bool) list" where
  "admin_spec_run sha dec key \<sigma> [] = []"
| "admin_spec_run sha dec key \<sigma> (((q, ip, unix), now) # rs) =
     (let a = attempt_of sha dec key unix q; (secs, st) = admin_spec a now (\<sigma> ip)
      in (secs, secs = None \<and> a = Right) # admin_spec_run sha dec key (\<sigma>(ip := st)) rs)"

text \<open>Both entries are one gate over the attempt they amount to.\<close>

definition gate :: "attempt \<Rightarrow> ip_addr \<Rightarrow> instant \<Rightarrow> guard_state \<Rightarrow> (nat option \<times> bool) \<times> guard_state" where
  "gate a ip now s =
     (case auth_check ip now s of
        (Some secs, s) \<Rightarrow> ((Some secs, False), s)
      | (None, s) \<Rightarrow>
          (case a of
             Right \<Rightarrow> ((None, True), auth_clear ip s)
           | Wrong \<Rightarrow> (let (secs, s) = auth_failed ip now s in ((secs, False), s))
           | Anonymous \<Rightarrow> ((None, False), s)))"

lemma admin_step_gate:
  "(\<lambda>(a, s1). (verdict a, s1)) (admin_step sha enc dec key (q, ip, unix) now s)
   = gate (attempt_of sha dec key unix q) ip now s"
  by (cases q) (auto simp: login_def admin_auth_def gate_def unwrap_or_def Let_def
      split: prod.splits option.splits if_splits)

lemma gate_tracks:
  assumes tr: "tracks auth_cfg t K s \<sigma>" and t: "t \<le> now" and K: "finite K" "card K \<le> 50000" "ip \<in> K"
    and spec: "admin_spec a now (\<sigma> ip) = (secs, st)"
  shows "fst (gate a ip now s) = (secs, secs = None \<and> a = Right)
    \<and> tracks auth_cfg now K (snd (gate a ip now s)) (\<sigma>(ip := st))"
proof -
  obtain c s1 where c: "auth_check ip now s = (c, s1)" by force
  obtain d st1 where d: "spec_strike auth_cfg False now (\<sigma> ip) = (d, st1)" by (metis prod.exhaust)
  have ok: "c = d" "tracks auth_cfg now K s1 (\<sigma>(ip := st1))"
    using auth_check_tracks [OF tracks_mono [OF tr t], of ip] c d by simp_all
  show ?thesis
  proof (cases d)
    case (Some n)
    then show ?thesis using spec ok c d by (auto simp: gate_def)
  next
    case None
    show ?thesis
    proof (cases a)
      case Right
      then show ?thesis using spec ok None c d tracks_remove [OF ok(2), of ip] by (simp add: gate_def auth_clear_def)
    next
      case Anonymous
      then show ?thesis using spec ok None c d by (simp add: gate_def)
    next
      case Wrong
      have f: "fst (auth_failed ip now s1) = fst (spec_strike auth_cfg True now st1)
        \<and> tracks auth_cfg now K (snd (auth_failed ip now s1))
            (\<sigma>(ip := snd (spec_strike auth_cfg True now st1)))"
        using auth_step_tracks [OF ok(2) order_refl K(1,2), of "Failed ip"] K(3) by simp
      obtain e s2 where "auth_failed ip now s1 = (e, s2)" by force
      with f spec ok None c d Wrong show ?thesis by (simp add: gate_def)
    qed
  qed
qed

lemma admin_run_tracks:
  assumes "tracks auth_cfg t K s \<sigma>" "times_in t rs"
    and K: "finite K" "card K \<le> 50000" "(\<lambda>r. fst (snd (fst r))) ` set rs \<subseteq> K"
  shows "admin_run sha enc dec key s rs = admin_spec_run sha dec key \<sigma> rs"
  using assms
proof (induction rs arbitrary: s \<sigma> t)
  case (Cons r rs)
  obtain q ip unix now where r: "r = ((q, ip, unix), now)" by (metis prod.exhaust)
  let ?a = "attempt_of sha dec key unix q"
  obtain secs st where st: "admin_spec ?a now (\<sigma> ip) = (secs, st)" by (metis prod.exhaust)
  obtain a s1 where s1: "admin_step sha enc dec key (q, ip, unix) now s = (a, s1)" by force
  have "fst (gate ?a ip now s) = (secs, secs = None \<and> ?a = Right)
      \<and> tracks auth_cfg now K (snd (gate ?a ip now s)) (\<sigma>(ip := st))"
    by (rule gate_tracks [OF Cons.prems(1) _ K(1,2) _ st]) (use Cons.prems r in auto)
  moreover have "gate ?a ip now s = (verdict a, s1)"
    using admin_step_gate [of sha enc dec key q ip unix now s] s1 by simp
  ultimately have v: "verdict a = (secs, secs = None \<and> ?a = Right)" and tr: "tracks auth_cfg now K s1 (\<sigma>(ip := st))"
    by simp_all
  have "admin_run sha enc dec key s1 rs = admin_spec_run sha dec key (\<sigma>(ip := st)) rs"
    by (rule Cons.IH [OF tr]) (use Cons.prems r in auto)
  then show ?case by (simp add: r s1 v st Let_def del: admin_step.simps admin_spec.simps)
qed simp

text \<open>
  The panel's door refines its specification: logins and panel requests in any order, from up
  to 50000 addresses, are let in, refused or locked out exactly as the history of wrong keys of
  their own address says; the fifth wrong key in five minutes locks the address for 15 minutes,
  the right key included, and a session cookie or no key at all never counts as a guess.
\<close>

lemma panel_refines_spec:
  assumes "times_in t0 rs" "card ((\<lambda>r. fst (snd (fst r))) ` set rs) \<le> 50000"
  shows "admin_run sha enc dec key (auth_new t0) rs = admin_spec_run sha dec key (\<lambda>_. ([], None)) rs"
  unfolding auth_new_def
  by (rule admin_run_tracks [OF tracks_new assms(1), where K = "(\<lambda>r. fst (snd (fst r))) ` set rs"])
    (use assms(2) in auto)

section \<open>Concrete runs\<close>

text \<open>A stand-in for base64: two letters per byte.\<close>

definition letters :: "byte list \<Rightarrow> string" where
  "letters bs = concat (map (\<lambda>b. [char_of (97 + unat b div 16), char_of (97 + unat b mod 16)]) bs)"

fun of_letters :: "string \<Rightarrow> byte list option" where
  "of_letters [] = Some []"
| "of_letters [c] = None"
| "of_letters (c # d # cs) =
     map_option (Cons (word_of_nat ((of_char c - 97) * 16 + (of_char d - 97)))) (of_letters cs)"

lemma of_letters: "of_letters (letters bs) = Some bs"
proof (induction bs)
  case (Cons b bs)
  have "unat b div 16 < 16" "unat b mod 16 < 16" using unsigned_less [of b, where ?'a = nat] by simp_all
  then have "of_char (char_of (97 + unat b div 16) :: char) = 97 + unat b div 16"
      "of_char (char_of (97 + unat b mod 16) :: char) = 97 + unat b mod 16" by (simp_all add: of_char_of)
  with Cons show ?case by (simp add: letters_def)
qed (simp add: letters_def)

lemma letters_safe: "cookie_safe (letters bs)"
proof -
  have "c \<noteq> CHR '';'' \<and> c \<noteq> CHR ''.'' \<and> \<not> is_ascii_space c" if "c = char_of (97 + n)" "n < (16 :: nat)" for c n
  proof -
    have "(of_char c :: nat) = 97 + n" using that by (simp add: of_char_of)
    then show ?thesis by (auto simp: is_ascii_space_def)
  qed
  moreover have "unat b div 16 < 16" "unat b mod 16 < 16" for b :: byte using unsigned_less [of b, where ?'a = nat] by simp_all
  ultimately show ?thesis by (auto simp: cookie_safe_def letters_def list_all_iff)
qed

lemma demo_session: "session_value ''theme=dark'' = None"
  by (simp add: session_value_def strip_prefix_def starts_with_def SESSION_COOKIE_def trim_def is_ascii_space_def)

lemma session_lasts_thirty_days_witness:
  "valid_session id of_letters 2000 (Some (''theme=dark; '' @ SESSION_COOKIE @ ''='' @ session_cookie id letters ''owner'' 1000)) ''owner''
   \<and> \<not> valid_session id of_letters 2593001 (Some (''theme=dark; '' @ SESSION_COOKIE @ ''='' @ session_cookie id letters ''owner'' 1000)) ''owner''"
  using session_lasts_thirty_days [OF of_letters letters_safe, of 1000 "''theme=dark; ''" id _ "''owner''"] demo_session
  by (auto simp: SESSION_SECONDS_def)

lemma sessions_are_signed_witness:
  "\<exists>expiry s. list_ex (\<lambda>w. of_letters w = Some s)
       (split_on CHR ''.'' (the (session_value (SESSION_COOKIE @ ''='' @ session_cookie id letters ''owner'' 1000))))
     \<and> s = session_signature id ''owner'' expiry \<and> 2000 \<le> expiry"
proof -
  have "valid_session id of_letters 2000 (Some ([] @ SESSION_COOKIE @ ''='' @ session_cookie id letters ''owner'' 1000)) ''owner''"
    using issued_session_valid [OF of_letters letters_safe, of 1000 "[]" id 2000 "''owner''"]
    by (simp add: SESSION_SECONDS_def)
  from sessions_are_signed [OF this] show ?thesis by (metis append_Nil)
qed

lemma panel_refines_spec_witness:
  "admin_run id letters of_letters ''k'' (auth_new 0) [((Login ''x'' False, V4 1, 5), 1), ((Panel (Some ''k'') None, V4 1, 5), 2)]
   = admin_spec_run id of_letters ''k'' (\<lambda>_. ([], None)) [((Login ''x'' False, V4 1, 5), 1), ((Panel (Some ''k'') None, V4 1, 5), 2)]"
  by (rule panel_refines_spec) simp_all

end
