(* ===== verification/ApiKeys.thy ===== *)
theory ApiKeys
  imports AdminAuth Errors SharedStore
begin

text \<open>
  \<open>src/api_keys.rs\<close>: the keys clients present, their quotas, their copies in the shared store, and
  the middleware that lets a request through. SHA-256 is the parameter \<open>sha\<close>, the random bytes and
  the id of a new key are arguments. A database is a list of rows; \<open>db\<close> is \<open>None\<close> without one and
  otherwise says whether the operation's write succeeds. What the module sends to the shared store
  is logged in \<open>key_log\<close> when one is attached (\<open>has_shared\<close>); the operations it has no effect on
  in the caller (\<open>incrby\<close> in a spawned task) are logged in the same way.
\<close>

record api_key =
  key_id :: string
  key_label :: string
  key_hash :: string
  key_prefix :: string
  quota :: "64 word"
  used :: "64 word"
  key_active :: bool
  key_updated :: int

datatype key_effect =
    PublishKey api_key
  | DropKeys "string list"
  | UnlistKey string
  | CountUse string

record key_table =
  keys :: "api_key list"
  has_shared :: bool
  key_log :: "key_effect list"

definition key_table_new :: "bool \<Rightarrow> key_table" where
  "key_table_new sh = \<lparr>keys = [], has_shared = sh, key_log = []\<rparr>"

section \<open>Secrets\<close>

definition hex_digit :: "nat \<Rightarrow> char" where
  "hex_digit n = (if n < 10 then char_of (48 + n) else char_of (87 + n))"

definition hex_encode :: "byte list \<Rightarrow> string" where
  "hex_encode bs = concat (map (\<lambda>b. [hex_digit (unat b div 16), hex_digit (unat b mod 16)]) bs)"

definition hash_key :: "(byte list \<Rightarrow> byte list) \<Rightarrow> string \<Rightarrow> string" where
  "hash_key sha raw = hex_encode (sha (bytes_of raw))"

definition generate_key :: "byte list \<Rightarrow> string" where
  "generate_key bytes = ''hifi_'' @ hex_encode bytes"

section \<open>The table\<close>

definition find_key :: "string \<Rightarrow> key_table \<Rightarrow> api_key option" where
  "find_key i t = find (\<lambda>k. key_id k = i) (keys t)"

fun map_first :: "('a \<Rightarrow> bool) \<Rightarrow> ('a \<Rightarrow> 'a) \<Rightarrow> 'a list \<Rightarrow> 'a list" where
  "map_first P f [] = []"
| "map_first P f (x # xs) = (if P x then f x # xs else x # map_first P f xs)"

definition log_keys :: "key_effect list \<Rightarrow> key_table \<Rightarrow> key_table" where
  "log_keys es t = (if has_shared t then t\<lparr>key_log := key_log t @ es\<rparr> else t)"

definition key_not_found :: "string \<Rightarrow> app_error" where
  "key_not_found i = NotFound (''API key '' @ i @ '' not found'')"

record key_row =
  r_id :: string
  r_label :: string
  r_hash :: string
  r_prefix :: string
  r_quota :: int
  r_used :: int
  r_active :: int

definition key_of_row :: "key_row \<Rightarrow> api_key" where
  "key_of_row r = \<lparr>key_id = r_id r, key_label = r_label r, key_hash = r_hash r, key_prefix = r_prefix r,
     quota = word_of_int (max (r_quota r) 0), used = word_of_int (max (r_used r) 0),
     key_active = (r_active r \<noteq> 0), key_updated = 0\<rparr>"

text \<open>\<open>None\<close>: no database; \<open>Some None\<close>: the SELECT fails.\<close>

definition load_keys :: "key_row list option option \<Rightarrow> key_table \<Rightarrow> (app_error + unit) \<times> key_table" where
  "load_keys answer t =
     (case answer of
        None \<Rightarrow> (Inr (), t)
      | Some None \<Rightarrow> (Inl (Internal ''Database error''), t)
      | Some (Some rows) \<Rightarrow> (Inr (), t\<lparr>keys := keys t @ map key_of_row rows\<rparr>))"

definition create_key ::
    "(byte list \<Rightarrow> byte list) \<Rightarrow> byte list \<Rightarrow> string \<Rightarrow> string \<Rightarrow> 64 word \<Rightarrow> int \<Rightarrow> bool option \<Rightarrow> key_table \<Rightarrow>
     (app_error + api_key \<times> string) \<times> key_table" where
  "create_key sha bytes uuid lbl q now db t =
     (let raw = generate_key bytes;
          k = \<lparr>key_id = uuid, key_label = lbl, key_hash = hash_key sha raw, key_prefix = take 12 raw,
               quota = q, used = 0, key_active = True, key_updated = now\<rparr>
      in if db = Some False then (Inl (Internal ''Database error''), t)
         else (Inr (k, raw), log_keys [PublishKey k] (t\<lparr>keys := keys t @ [k]\<rparr>)))"

definition active_keys :: "key_table \<Rightarrow> nat" where
  "active_keys t = length (filter key_active (keys t))"

definition set_key_active ::
    "string \<Rightarrow> bool \<Rightarrow> int \<Rightarrow> bool option \<Rightarrow> key_table \<Rightarrow> (app_error + unit) \<times> key_table" where
  "set_key_active i active now db t =
     (case find_key i t of
        None \<Rightarrow> (Inl (key_not_found i), t)
      | Some k \<Rightarrow>
          (let k' = k\<lparr>key_active := active, key_updated := now\<rparr>;
               t1 = t\<lparr>keys := map_first (\<lambda>k. key_id k = i) (\<lambda>_. k') (keys t)\<rparr>
           in if db = Some False then (Inl (Internal ''Database error''), t1)
              else (Inr (), log_keys [PublishKey k'] t1)))"

definition remove_key :: "string \<Rightarrow> bool option \<Rightarrow> key_table \<Rightarrow> (app_error + unit) \<times> key_table" where
  "remove_key i db t =
     (if find_key i t = None then (Inl (key_not_found i), t)
      else (let t1 = t\<lparr>keys := filter (\<lambda>k. key_id k \<noteq> i) (keys t)\<rparr>
            in if db = Some False then (Inl (Internal ''Database error''), t1)
               else (Inr (), log_keys [DropKeys [k_apikeydef i, k_apikey i], UnlistKey i] t1)))"

section \<open>Quotas\<close>

definition usable_key :: "(byte list \<Rightarrow> byte list) \<Rightarrow> string \<Rightarrow> api_key \<Rightarrow> bool" where
  "usable_key sha raw k \<longleftrightarrow> key_hash k = hash_key sha raw \<and> key_active k"

definition check_and_consume ::
    "(byte list \<Rightarrow> byte list) \<Rightarrow> string \<Rightarrow> key_table \<Rightarrow> (app_error + string) \<times> key_table" where
  "check_and_consume sha raw t =
     (case find (usable_key sha raw) (keys t) of
        None \<Rightarrow> (Inl (Unauthorized ''Invalid or inactive API key''), t)
      | Some k \<Rightarrow>
          if quota k > 0
          then (let t1 = t\<lparr>keys := map_first (usable_key sha raw) (\<lambda>k. k\<lparr>used := used k + 1\<rparr>) (keys t)\<rparr>
                in if used k + 1 > quota k then (Inl (Unauthorized ''API key quota exhausted''), t1)
                   else (Inr (key_label k), log_keys [CountUse (key_id k)] t1))
          else (Inr (key_label k), t))"

text \<open>
  \<open>sync_usage_from_redis\<close>; \<open>counts\<close> is the answer to the \<open>MGET\<close> of the counters of the keys with
  a quota, in that order.
\<close>

definition fleet_count :: "string \<Rightarrow> 64 word" where
  "fleet_count v = word_of_int (max (unwrap_or (parse_i64 v) 0) 0)"

definition limited_ids :: "key_table \<Rightarrow> string list" where
  "limited_ids t = map key_id (filter (\<lambda>k. quota k > 0) (keys t))"

definition raise_used :: "string \<times> string option \<Rightarrow> api_key list \<Rightarrow> api_key list" where
  "raise_used entry ks =
     (case entry of
        (i, None) \<Rightarrow> ks
      | (i, Some v) \<Rightarrow> map_first (\<lambda>k. key_id k = i) (\<lambda>k. k\<lparr>used := max (used k) (fleet_count v)\<rparr>) ks)"

definition sync_usage :: "string option list \<Rightarrow> key_table \<Rightarrow> key_table" where
  "sync_usage counts t =
     (if \<not> has_shared t then t else t\<lparr>keys := fold raise_used (zip (limited_ids t) counts) (keys t)\<rparr>)"

section \<open>Copies in the shared store\<close>

definition key_to_json :: "api_key \<Rightarrow> json" where
  "key_to_json k = JObj
     [(''id'', JStr (key_id k)), (''label'', JStr (key_label k)), (''key_hash'', JStr (key_hash k)),
      (''key_prefix'', JStr (key_prefix k)), (''quota'', JInt (uint (quota k))),
      (''is_active'', JBool (key_active k)), (''updated_at'', JInt (key_updated k))]"

definition key_field :: "string \<Rightarrow> json \<Rightarrow> string" where
  "key_field k v = unwrap_or (jget_str k v) []"

fun as_u64 :: "json \<Rightarrow> int option" where
  "as_u64 (JInt i) = (if 0 \<le> i \<and> i < 2 ^ 64 then Some i else None)"
| "as_u64 v = None"

definition remote_quota :: "json \<Rightarrow> 64 word" where
  "remote_quota v = word_of_int (unwrap_or (Option.bind (jget ''quota'' v) as_u64) 0)"

definition adopt_key :: "json \<Rightarrow> api_key \<Rightarrow> api_key" where
  "adopt_key v k = k\<lparr>quota := remote_quota v, key_active := unwrap_or (jget_bool ''is_active'' v) True,
     key_updated := unwrap_or (jget_i64 ''updated_at'' v) 0\<rparr>"

definition restored_key :: "string \<Rightarrow> json \<Rightarrow> api_key" where
  "restored_key i v = \<lparr>key_id = i, key_label = key_field ''label'' v, key_hash = key_field ''key_hash'' v,
     key_prefix = key_field ''key_prefix'' v, quota = remote_quota v, used = 0,
     key_active = unwrap_or (jget_bool ''is_active'' v) True,
     key_updated = unwrap_or (jget_i64 ''updated_at'' v) 0\<rparr>"

text \<open>One id of the index with its payload, parsed by \<open>parse\<close>.\<close>

definition merge_key :: "('p \<Rightarrow> json option) \<Rightarrow> string \<times> 'p option \<Rightarrow> key_table \<Rightarrow> key_table" where
  "merge_key parse entry t =
     (let (i, payload) = entry
      in case Option.bind payload parse of
           None \<Rightarrow> t
         | Some v \<Rightarrow>
             (let updated = unwrap_or (jget_i64 ''updated_at'' v) 0; hash = key_field ''key_hash'' v
              in case find_key i t of
                   Some k \<Rightarrow>
                     if updated \<le> key_updated k then t
                     else if length hash = 64 \<and> hash \<noteq> key_hash k then t
                     else t\<lparr>keys := map_first (\<lambda>k. key_id k = i) (adopt_key v) (keys t)\<rparr>
                 | None \<Rightarrow>
                     if length hash \<noteq> 64 then t else t\<lparr>keys := keys t @ [restored_key i v]\<rparr>))"

definition push_keys :: "api_key list \<Rightarrow> key_table \<Rightarrow> key_table" where
  "push_keys ks t = log_keys (map PublishKey ks) t"

definition merge_keys ::
    "('p \<Rightarrow> json option) \<Rightarrow> string list option \<Rightarrow> 'p option list \<Rightarrow> key_table \<Rightarrow> key_table" where
  "merge_keys parse index values t =
     (case index of
        None \<Rightarrow> t
      | Some ids \<Rightarrow>
          if \<not> has_shared t \<or> ids = [] then t
          else (let t1 = fold (merge_key parse) (zip ids values) t
                in push_keys (filter (\<lambda>k. key_id k \<notin> set ids) (keys t1)) t1))"

definition publish_keys :: "string list option \<Rightarrow> key_table \<Rightarrow> key_table" where
  "publish_keys index t =
     (let t1 = push_keys (keys t) t
      in case index of
           None \<Rightarrow> t1
         | Some ids \<Rightarrow>
             (let orphans = filter (\<lambda>i. i \<notin> key_id ` set (keys t)) ids
              in log_keys (map UnlistKey orphans @
                   [DropKeys (concat (map (\<lambda>i. [k_apikeydef i, k_apikey i]) orphans))]) t1))"

definition reload_keys ::
    "('p \<Rightarrow> json option) \<Rightarrow> key_row list option option \<Rightarrow> string option list \<Rightarrow> string list option \<Rightarrow>
     'p option list \<Rightarrow> key_table \<Rightarrow> (app_error + unit) \<times> key_table" where
  "reload_keys parse answer counts index values t =
     (case load_keys answer (t\<lparr>keys := []\<rparr>) of
        (Inl e, t1) \<Rightarrow> (Inl e, t1)
      | (Inr _, t1) \<Rightarrow> (Inr (), merge_keys parse index values (sync_usage counts t1)))"

section \<open>The middleware\<close>

record client_request =
  req_path :: string
  admin_header :: "string option"
  key_header :: "string option"
  from_ip :: ip_addr

datatype access =
    PassOn
  | Locked nat
  | Refuse string

definition BAD_KEY :: string where
  "BAD_KEY = ''Invalid API key, inactive, or quota exhausted''"

definition exempt :: "string \<Rightarrow> bool" where
  "exempt path \<longleftrightarrow> path = ''/'' \<or> path = ''/health'' \<or> starts_with ''/admin'' path"

definition key_access ::
    "(byte list \<Rightarrow> byte list) \<Rightarrow> client_request \<Rightarrow> key_table \<Rightarrow> access \<times> key_table" where
  "key_access sha req t =
     (case key_header req of
        None \<Rightarrow> (Refuse ''Missing X-API-Key header'', t)
      | Some raw \<Rightarrow>
          (case check_and_consume sha raw t of
             (Inr _, t1) \<Rightarrow> (PassOn, t1)
           | (Inl _, t1) \<Rightarrow> (Refuse BAD_KEY, t1)))"

definition enforce_api_key ::
    "(byte list \<Rightarrow> byte list) \<Rightarrow> string \<Rightarrow> client_request \<Rightarrow> instant \<Rightarrow> key_table \<times> guard_state \<Rightarrow>
     access \<times> key_table \<times> guard_state" where
  "enforce_api_key sha admin_key req now st =
     (let (t, s) = st; given = unwrap_or (admin_header req) []
      in if exempt (req_path req) \<or> active_keys t = 0 then (PassOn, t, s)
         else if admin_key \<noteq> [] \<and> given \<noteq> []
         then (case auth_check (from_ip req) now s of
                 (Some retry_after, s) \<Rightarrow> (Locked retry_after, t, s)
               | (None, s) \<Rightarrow>
                   if given = admin_key then (PassOn, t, auth_clear (from_ip req) s)
                   else (case auth_failed (from_ip req) now s of
                           (Some retry_after, s) \<Rightarrow> (Locked retry_after, t, s)
                         | (None, s) \<Rightarrow> (let (a, t) = key_access sha req t in (a, t, s))))
         else (let (a, t) = key_access sha req t in (a, t, s)))"

section \<open>Quotas hold\<close>

definition with_hash :: "string \<Rightarrow> api_key list \<Rightarrow> api_key option" where
  "with_hash h ks = find (\<lambda>k. key_hash k = h) ks"

lemma map_first_hash:
  "(\<And>k. key_hash (f k) = key_hash k) \<Longrightarrow> map key_hash (map_first P f ks) = map key_hash ks"
  by (induction ks) auto

lemma with_hash_map_first:
  assumes "\<And>k. key_hash (f k) = key_hash k" "with_hash h ks = Some k"
  shows "\<exists>k'. with_hash h (map_first P f ks) = Some k' \<and> (k' = k \<or> k' = f k)"
  using assms by (induction ks) (auto simp: with_hash_def)

lemma with_hash_other:
  assumes "\<And>k. key_hash (f k) = key_hash k" "\<And>k. P k \<Longrightarrow> key_hash k \<noteq> h"
  shows "with_hash h (map_first P f ks) = with_hash h ks"
  using assms by (induction ks) (auto simp: with_hash_def)

lemma map_first_const: "find P ks = Some z \<Longrightarrow> map_first P (\<lambda>_. f z) ks = map_first P f ks"
  by (induction ks) (auto split: if_splits)

lemma with_hash_found:
  assumes "distinct (map key_hash ks)" "find P ks = Some k" "\<And>k. P k \<Longrightarrow> key_hash k = h"
  shows "with_hash h ks = Some k"
    and "(\<And>k. key_hash (f k) = key_hash k) \<Longrightarrow> with_hash h (map_first P f ks) = Some (f k)"
proof -
  have "with_hash h ks = Some k \<and>
      ((\<forall>k. key_hash (f k) = key_hash k) \<longrightarrow> with_hash h (map_first P f ks) = Some (f k))"
    using assms(1,2)
  proof (induction ks)
    case (Cons x xs)
    show ?case
    proof (cases "P x")
      case True
      then show ?thesis using Cons.prems(2) assms(3) [OF True] by (simp add: with_hash_def)
    next
      case False
      then have f: "find P xs = Some k" using Cons.prems(2) by simp
      then have "k \<in> set xs" "P k" by (auto simp: find_Some_iff)
      then have "h \<in> key_hash ` set xs" using assms(3) by (metis imageI)
      then have "key_hash x \<noteq> h" using Cons.prems(1) by auto
      then show ?thesis using Cons.IH Cons.prems(1) f False by (simp add: with_hash_def)
    qed
  qed simp
  then show "with_hash h ks = Some k"
    "(\<And>k. key_hash (f k) = key_hash k) \<Longrightarrow> with_hash h (map_first P f ks) = Some (f k)" by blast+
qed

text \<open>What happens to the table between restarts: requests, switches, reconciliations.\<close>

datatype key_event =
    Present string
  | Switch string bool int "bool option"
  | Sync "string option list"

fun key_step :: "(byte list \<Rightarrow> byte list) \<Rightarrow> key_event \<Rightarrow> key_table \<Rightarrow> bool \<times> key_table" where
  "key_step sha (Present raw) t = (case check_and_consume sha raw t of (r, t1) \<Rightarrow> (\<not> isl r, t1))"
| "key_step sha (Switch i b now db) t = (False, snd (set_key_active i b now db t))"
| "key_step sha (Sync counts) t = (False, sync_usage counts t)"

text \<open>How many requests were served for the secret with hash \<open>h\<close>.\<close>

fun served :: "(byte list \<Rightarrow> byte list) \<Rightarrow> string \<Rightarrow> key_event list \<Rightarrow> key_table \<Rightarrow> nat" where
  "served sha h [] t = 0"
| "served sha h (e # es) t =
     (let (ok, t1) = key_step sha e t
      in (if ok \<and> (\<exists>raw. e = Present raw \<and> hash_key sha raw = h) then 1 else 0) + served sha h es t1)"

lemma log_keys_table [simp]: "keys (log_keys es t) = keys t" "has_shared (log_keys es t) = has_shared t"
  by (simp_all add: log_keys_def)

lemma fleet_count_small: "unat (fleet_count v) < 2 ^ 63"
proof -
  obtain i :: int where i: "fleet_count v = word_of_int i" "0 \<le> i" "i < 2 ^ 63"
  proof (cases "parse_i64 v")
    case (Some j)
    then have "j < 2 ^ 63" by (auto simp: parse_i64_def Let_def split: if_splits option.splits)
    with Some show ?thesis by (intro that [of "max j 0"]) (simp_all add: fleet_count_def)
  qed (simp add: fleet_count_def that [of 0])
  then have "uint (word_of_int i :: 64 word) = i"
    by (intro word_of_int_inverse) auto
  then show ?thesis using i by (simp add: unat_eq_nat_uint)
qed

text \<open>
  A step other than a request with this secret never lowers its use nor touches its quota, and
  raises its use to below \<open>2 ^ 63\<close> at most.
\<close>

lemma raise_used_hash:
  "with_hash h ks = Some k \<Longrightarrow>
     \<exists>k'. with_hash h (raise_used e ks) = Some k' \<and> quota k' = quota k \<and> used k \<le> used k'
        \<and> unat (used k') \<le> max (unat (used k)) (2 ^ 63)"
proof -
  assume a: "with_hash h ks = Some k"
  obtain i v where e: "e = (i, v)" by force
  show ?thesis
  proof (cases v)
    case None
    then show ?thesis using a by (simp add: raise_used_def e)
  next
    case (Some c)
    have "\<exists>k'. with_hash h (raise_used e ks) = Some k' \<and> (k' = k \<or> k' = k\<lparr>used := max (used k) (fleet_count c)\<rparr>)"
      unfolding raise_used_def e Some by (simp, rule with_hash_map_first [OF _ a]) simp
    then show ?thesis using fleet_count_small [of c] by (auto simp: max_def)
  qed
qed

lemma raise_used_hashes: "map key_hash (raise_used e ks) = map key_hash ks"
  by (auto simp: raise_used_def split: prod.split option.split intro: map_first_hash)

lemma raise_all_hash:
  "with_hash h ks = Some k \<Longrightarrow>
     map key_hash (fold raise_used es ks) = map key_hash ks \<and>
     (\<exists>k'. with_hash h (fold raise_used es ks) = Some k' \<and> quota k' = quota k \<and> used k \<le> used k'
        \<and> unat (used k') \<le> max (unat (used k)) (2 ^ 63))"
proof (induction es arbitrary: ks k)
  case (Cons e es)
  from raise_used_hash [OF Cons.prems, of e] obtain k1 where k1: "with_hash h (raise_used e ks) = Some k1"
      "quota k1 = quota k" "used k \<le> used k1" "unat (used k1) \<le> max (unat (used k)) (2 ^ 63)" by blast
  from Cons.IH [OF k1(1)] k1 raise_used_hashes [of e ks] show ?case
    by (auto intro: order_trans)
qed auto

lemma set_active_hash:
  assumes "with_hash h (keys t) = Some k"
  shows "map key_hash (keys (snd (set_key_active i b now db t))) = map key_hash (keys t) \<and>
    (\<exists>k'. with_hash h (keys (snd (set_key_active i b now db t))) = Some k' \<and> quota k' = quota k \<and> used k' = used k)"
proof (cases "find_key i t")
  case None
  then show ?thesis using assms by (simp add: set_key_active_def)
next
  case (Some z)
  note f = map_first_const [OF Some [unfolded find_key_def], of "\<lambda>k. k\<lparr>key_active := b, key_updated := now\<rparr>"]
  have "\<exists>k'. with_hash h (map_first (\<lambda>k. key_id k = i) (\<lambda>k. k\<lparr>key_active := b, key_updated := now\<rparr>) (keys t)) = Some k'
      \<and> (k' = k \<or> k' = k\<lparr>key_active := b, key_updated := now\<rparr>)"
    by (rule with_hash_map_first [OF _ assms]) simp
  moreover have "map key_hash (map_first (\<lambda>k. key_id k = i) (\<lambda>k. k\<lparr>key_active := b, key_updated := now\<rparr>) (keys t))
      = map key_hash (keys t)" by (rule map_first_hash) simp
  ultimately show ?thesis
    using Some f by (auto simp: set_key_active_def Let_def)
qed

lemma consume_hash:
  assumes "with_hash h (keys t) = Some k" "distinct (map key_hash (keys t))"
    and "check_and_consume sha raw t = (r, t')"
  shows "map key_hash (keys t') = map key_hash (keys t)"
    and "hash_key sha raw \<noteq> h \<Longrightarrow> with_hash h (keys t') = Some k"
    and "hash_key sha raw = h \<Longrightarrow> 0 < quota k \<Longrightarrow>
      (isl r \<and> with_hash h (keys t') = Some k) \<or>
      (isl r \<longleftrightarrow> quota k < used k + 1) \<and> with_hash h (keys t') = Some (k\<lparr>used := used k + 1\<rparr>)"
proof -
  let ?up = "\<lambda>k. k\<lparr>used := used k + 1\<rparr>"
  have P: "usable_key sha raw z \<Longrightarrow> key_hash z = hash_key sha raw" for z by (simp add: usable_key_def)
  have fr: "key_hash (?up z) = key_hash z" for z by simp
  show "map key_hash (keys t') = map key_hash (keys t)"
    using assms(3) by (auto simp: check_and_consume_def Let_def split: option.splits if_splits
        intro!: map_first_hash)
  show "with_hash h (keys t') = Some k" if "hash_key sha raw \<noteq> h"
    using assms(1,3) that P with_hash_other [of ?up "usable_key sha raw" h "keys t"]
    by (auto simp: check_and_consume_def Let_def split: option.splits if_splits)
  show "(isl r \<and> with_hash h (keys t') = Some k) \<or>
      (isl r \<longleftrightarrow> quota k < used k + 1) \<and> with_hash h (keys t') = Some (k\<lparr>used := used k + 1\<rparr>)"
    if "hash_key sha raw = h" "0 < quota k"
  proof (cases "find (usable_key sha raw) (keys t)")
    case None
    then show ?thesis using assms(1,3) by (auto simp: check_and_consume_def)
  next
    case (Some z)
    have P': "usable_key sha raw z \<Longrightarrow> key_hash z = h" for z using P that(1) by simp
    have "z = k" using with_hash_found(1) [OF assms(2) Some P'] assms(1) by simp
    moreover have "with_hash h (map_first (usable_key sha raw) ?up (keys t)) = Some (?up z)"
      by (rule with_hash_found(2) [OF assms(2) Some P' fr])
    ultimately show ?thesis
      using assms(3) Some that(2) by (auto simp: check_and_consume_def Let_def split: if_splits)
  qed
qed

lemma served_bound:
  assumes "with_hash h (keys t) = Some k" "distinct (map key_hash (keys t))" "0 < quota k"
    and "unat (used k) + length es < 2 ^ 64" "length es < 2 ^ 63"
  shows "served sha h es t \<le> unat (quota k) - unat (used k)"
  using assms
proof (induction es arbitrary: t k)
  case (Cons e es)
  obtain ok t1 where st: "key_step sha e t = (ok, t1)" by force
  have small: "length es < 2 ^ 63" "unat (used k) + 1 < 2 ^ 64" using Cons.prems(4,5) by simp_all
  have inc: "unat (used k + 1) = unat (used k) + 1"
    using small(2) by (simp add: unat_plus_if' )
  have go: "served sha h es t1 \<le> unat (quota k) - unat u"
    if "with_hash h (keys t1) = Some k1" "map key_hash (keys t1) = map key_hash (keys t)"
      "quota k1 = quota k" "used k1 = u" "unat u + length es < 2 ^ 64" for k1 u
    using Cons.IH [OF that(1)] that Cons.prems(2,3) small by metis
  have next_: "served sha h es t1 \<le> unat (quota k) - unat (used k)"
    if "with_hash h (keys t1) = Some k1" "map key_hash (keys t1) = map key_hash (keys t)"
      "quota k1 = quota k" "used k \<le> used k1" "unat (used k1) + length es < 2 ^ 64" for k1
    using go [OF that(1-3) refl that(5)] that(4) by (simp add: word_le_nat_alt)
  show ?case
  proof (cases e)
    case (Present raw)
    obtain r where r: "check_and_consume sha raw t = (r, t1)" "ok = (\<not> isl r)"
      using st Present by (auto split: prod.splits)
    note c = consume_hash [OF Cons.prems(1,2) r(1)]
    show ?thesis
    proof (cases "hash_key sha raw = h")
      case False
      then show ?thesis
        using next_ [OF c(2) c(1)] Cons.prems(4) st Present by simp
    next
      case True
      from c(3) [OF True Cons.prems(3)] show ?thesis
      proof (elim disjE conjE)
        assume "isl r" "with_hash h (keys t1) = Some k"
        then show ?thesis using next_ [OF _ c(1)] Cons.prems(4) st Present r True by simp
      next
        assume i: "isl r \<longleftrightarrow> quota k < used k + 1" and w: "with_hash h (keys t1) = Some (k\<lparr>used := used k + 1\<rparr>)"
        have "served sha h es t1 \<le> unat (quota k) - (unat (used k) + 1)"
          using go [OF w c(1), of "used k + 1"] Cons.prems(4) inc by simp
        moreover have "ok \<Longrightarrow> unat (used k) + 1 \<le> unat (quota k)"
          using i r(2) inc by (simp add: word_less_nat_alt not_less)
        ultimately show ?thesis using st Present True by (auto split: if_splits)
      qed
    qed
  next
    case (Switch i b now db)
    from set_active_hash [OF Cons.prems(1), of i b now db] Switch st
    obtain k1 where "with_hash h (keys t1) = Some k1" "map key_hash (keys t1) = map key_hash (keys t)"
      "quota k1 = quota k" "used k1 = used k" by auto
    then show ?thesis using next_ Cons.prems(4) st Switch by simp
  next
    case (Sync counts)
    show ?thesis
    proof (cases "has_shared t")
      case False
      then show ?thesis using next_ [of k] Cons.prems(1,4) st Sync by (simp add: sync_usage_def)
    next
      case True
      then have t1: "keys t1 = fold raise_used (zip (limited_ids t) counts) (keys t)" "\<not> ok"
        using st Sync by (auto simp: sync_usage_def)
      from raise_all_hash [OF Cons.prems(1), of "zip (limited_ids t) counts"] obtain k1 where
        "with_hash h (keys t1) = Some k1" "map key_hash (keys t1) = map key_hash (keys t)"
        "quota k1 = quota k" "used k \<le> used k1" "unat (used k1) \<le> max (unat (used k)) (2 ^ 63)"
        unfolding t1 by blast
      then show ?thesis using next_ [of k1] Cons.prems(4) small(1) st Sync t1(2) by simp
    qed
  qed
qed simp


text \<open>
  Who gets past the key check: the exempt paths, everybody while no key is active, the right
  admin key of an address that is not locked, and otherwise exactly the requests with the secret of
  an active key whose quota is not used up, unless a wrong admin key with it locks the address.
\<close>

lemma access_decision:
  "fst (enforce_api_key sha admin_key req now (t, s)) = PassOn \<longleftrightarrow>
     (let wrong = admin_key \<noteq> [] \<and> admin_header req \<noteq> None \<and> admin_header req \<noteq> Some []
            \<and> admin_header req \<noteq> Some admin_key;
          looked = auth_check (from_ip req) now s
      in exempt (req_path req) \<or> list_all (\<lambda>k. \<not> key_active k) (keys t)
       \<or> (admin_key \<noteq> [] \<and> admin_header req = Some admin_key \<and> fst looked = None)
       \<or> (admin_key = [] \<or> admin_header req \<noteq> Some admin_key) \<and>
         (wrong \<longrightarrow> fst looked = None \<and> fst (auth_failed (from_ip req) now (snd looked)) = None) \<and>
         (\<exists>raw. key_header req = Some raw \<and>
           (case find (\<lambda>k. key_hash k = hash_key sha raw \<and> key_active k) (keys t) of
              None \<Rightarrow> False
            | Some k \<Rightarrow> quota k = 0 \<or> used k + 1 \<le> quota k)))"
proof -
  have none: "active_keys t = 0 \<longleftrightarrow> list_all (\<lambda>k. \<not> key_active k) (keys t)"
    by (simp add: active_keys_def filter_empty_conv list_all_iff)
  have acc: "fst (key_access sha req t) = PassOn \<longleftrightarrow> (\<exists>raw. key_header req = Some raw \<and>
       (case find (\<lambda>k. key_hash k = hash_key sha raw \<and> key_active k) (keys t) of
          None \<Rightarrow> False
        | Some k \<Rightarrow> quota k = 0 \<or> used k + 1 \<le> quota k))"
    by (auto simp: key_access_def check_and_consume_def usable_key_def [abs_def] Let_def not_less
        word_neq_0_conv split: option.splits if_splits)
  show ?thesis
    unfolding enforce_api_key_def none [symmetric] acc [symmetric]
    by (cases "admin_header req"; cases "auth_check (from_ip req) now s")
      (auto simp: Let_def split_beta split: option.splits prod.splits)
qed

section \<open>Restart\<close>

text \<open>
  The row a key has in the database after \<open>create_key\<close> or \<open>check_and_consume\<close> wrote it: the
  unsigned columns are bound with \<open>as i64\<close>.
\<close>

definition row_of_key :: "api_key \<Rightarrow> key_row" where
  "row_of_key k = \<lparr>r_id = key_id k, r_label = key_label k, r_hash = key_hash k, r_prefix = key_prefix k,
     r_quota = sint (quota k), r_used = sint (used k), r_active = (if key_active k then 1 else 0)\<rparr>"

lemma sint64: "sint (w::64 word) = (if uint w < 2^63 then uint w else uint w - 2^64)"
proof -
  have b: "0 \<le> uint w" "uint w < 2^64" using uint_bounded [of w] by simp_all
  have s: "sint w = (uint w + 2 ^ 63) mod 2 ^ 64 - 2 ^ 63"
    by (simp add: sint_uint signed_take_bit_eq_take_bit_shift take_bit_eq_mod)
  show ?thesis
  proof (cases "uint w < 2 ^ 63")
    case True
    then have "(uint w + 2 ^ 63) mod 2 ^ 64 = uint w + 2 ^ 63" using b by (intro mod_pos_pos_trivial) simp_all
    then show ?thesis using s True by simp
  next
    case False
    have "(uint w + 2 ^ 63) mod 2 ^ 64 = (uint w - 2 ^ 63 + 1 * 2 ^ 64) mod 2 ^ 64" by (simp add: add.commute)
    also have "\<dots> = (uint w - 2 ^ 63) mod 2 ^ 64" by (rule mod_mult_self1)
    also have "\<dots> = uint w - 2 ^ 63" using b False by (intro mod_pos_pos_trivial) simp_all
    finally show ?thesis using s False by simp
  qed
qed
lemma unat63: "unat w < 2 ^ 63 \<longleftrightarrow> uint w < 2 ^ 63" for w :: "64 word"
proof -
  have "unat w < 2 ^ 63 \<longleftrightarrow> int (unat w) < int (2 ^ 63)" by (simp only: of_nat_less_iff)
  then show ?thesis by simp
qed
lemma sint_max: "word_of_int (max (sint w) 0) = (if unat w < 2 ^ 63 then w else 0)" for w :: "64 word"
proof (cases "uint w < 2 ^ 63")
  case True
  then have "max (sint w) 0 = uint w" by (simp add: sint64)
  then show ?thesis using True by (simp only: unat63 word_of_int_uint if_True)
next
  case False
  then have "max (sint w) 0 = 0" using uint_bounded [of w] by (simp add: sint64)
  then show ?thesis using False by (simp only: unat63 word_of_int_0 if_False)
qed

text \<open>
  A restart keeps the keys: secrets, labels, switches, use and quotas come back from their
  rows (only the time of the last change is lost), with one exception: a quota of \<open>2 ^ 63\<close> or more
  comes back as 0, which means unlimited.
\<close>

lemma keys_survive_restart:
  "key_of_row (row_of_key k) = k\<lparr>key_updated := 0,
     quota := (if unat (quota k) < 2 ^ 63 then quota k else 0),
     used := (if unat (used k) < 2 ^ 63 then used k else 0)\<rparr>"
  by (cases k) (simp add: key_of_row_def row_of_key_def sint_max)

section \<open>Refused requests count\<close>

fun present :: "(byte list \<Rightarrow> byte list) \<Rightarrow> string \<Rightarrow> nat \<Rightarrow> key_table \<Rightarrow> key_table" where
  "present sha raw 0 t = t"
| "present sha raw (Suc n) t = present sha raw n (snd (check_and_consume sha raw t))"

lemma present_used:
  assumes "find (usable_key sha raw) (keys t) = Some k" "distinct (map key_hash (keys t))" "0 < quota k"
  shows "find (usable_key sha raw) (keys (present sha raw n t)) = Some (k\<lparr>used := used k + word_of_nat n\<rparr>)"
  using assms
proof (induction n arbitrary: t k)
  case (Suc n)
  let ?up = "\<lambda>k. k\<lparr>used := used k + 1\<rparr>"
  have fu: "find (usable_key sha raw) (map_first (usable_key sha raw) ?up ks) = Some (?up k)"
    if "find (usable_key sha raw) ks = Some k" for ks
    using that by (induction ks) (auto simp: usable_key_def split: if_splits)
  have "keys (snd (check_and_consume sha raw t)) = map_first (usable_key sha raw) ?up (keys t)"
    using Suc.prems by (simp add: check_and_consume_def Let_def)
  moreover have hs: "map key_hash (map_first (usable_key sha raw) ?up (keys t)) = map key_hash (keys t)"
    by (rule map_first_hash) simp
  ultimately have "find (usable_key sha raw) (keys (snd (check_and_consume sha raw t))) = Some (?up k)"
    "distinct (map key_hash (keys (snd (check_and_consume sha raw t))))"
    using fu [OF Suc.prems(1)] hs Suc.prems(2) by (simp, metis)
  from Suc.IH [OF this] Suc.prems(3) show ?case by (simp add: add.assoc)
qed simp

text \<open>
  Requests that are refused for their quota use it up all the same: after \<open>n\<close> of them a key
  whose quota is then raised by \<open>n\<close> or less, by a newer definition from another instance, is
  still refused.
\<close>

lemma refused_requests_count:
  assumes "find (usable_key sha raw) (keys t) = Some k" "distinct (map key_hash (keys t))"
    and "0 < quota k" "quota k \<le> used k" "unat (used k) + n + 1 < 2 ^ 64"
    and "unat (remote_quota v) \<le> unat (used k) + n"
    and "keys t' = map_first (usable_key sha raw) (adopt_key v) (keys (present sha raw n t))"
    and "0 < remote_quota v" "unwrap_or (jget_bool ''is_active'' v) True"
  shows "isl (fst (check_and_consume sha raw t'))"
proof -
  let ?k = "k\<lparr>used := used k + word_of_nat n\<rparr>"
  have "find (usable_key sha raw) (map_first (usable_key sha raw) (adopt_key v) ks) = Some (adopt_key v z)"
    if "find (usable_key sha raw) ks = Some z" for ks z
    using that assms(9) by (induction ks) (auto simp: usable_key_def adopt_key_def split: if_splits)
  then have f: "find (usable_key sha raw) (keys t') = Some (adopt_key v ?k)"
    using present_used [OF assms(1-3), of n] assms(7) by simp
  have "unat (used k + word_of_nat n + 1) = unat (used k) + n + 1"
    using assms(5) by (simp add: unat_word_ariths unat_of_nat take_bit_nat_eq_self_iff)
  then have "remote_quota v < used k + word_of_nat n + 1"
    using assms(6) by (simp add: word_less_nat_alt)
  then show ?thesis
    using f assms(8) by (simp add: check_and_consume_def Let_def adopt_key_def)
qed

section \<open>Merging\<close>

text \<open>What a merge does to one id, from the payload and the local definition alone.\<close>

definition key_merge_spec :: "string \<Rightarrow> json option \<Rightarrow> api_key option \<Rightarrow> api_key option" where
  "key_merge_spec i payload old =
     (case (payload, old) of
        (None, _) \<Rightarrow> old
      | (Some v, Some k) \<Rightarrow>
          if unwrap_or (jget_i64 ''updated_at'' v) 0 \<le> key_updated k then old
          else if length (key_field ''key_hash'' v) = 64 \<and> key_field ''key_hash'' v \<noteq> key_hash k then old
          else Some (k\<lparr>quota := remote_quota v, key_active := unwrap_or (jget_bool ''is_active'' v) True,
                       key_updated := unwrap_or (jget_i64 ''updated_at'' v) 0\<rparr>)
      | (Some v, None) \<Rightarrow>
          if length (key_field ''key_hash'' v) \<noteq> 64 then None
          else Some \<lparr>key_id = i, key_label = key_field ''label'' v, key_hash = key_field ''key_hash'' v,
                  key_prefix = key_field ''key_prefix'' v, quota = remote_quota v, used = 0,
                  key_active = unwrap_or (jget_bool ''is_active'' v) True,
                  key_updated = unwrap_or (jget_i64 ''updated_at'' v) 0\<rparr>)"

lemma find_map_first:
  assumes "\<And>k. key_id (f k) = key_id k"
  shows "find (\<lambda>k. key_id k = j) (map_first (\<lambda>k. key_id k = i) f ks) =
    (if i = j then map_option f (find (\<lambda>k. key_id k = j) ks) else find (\<lambda>k. key_id k = j) ks)"
  using assms by (induction ks) auto

lemma merge_key_find:
  "find_key j (merge_key parse (i, p) t) =
     (if i = j then key_merge_spec j (Option.bind p parse) (find_key j t) else find_key j t)"
proof (cases "Option.bind p parse")
  case None
  then show ?thesis by (simp add: merge_key_def key_merge_spec_def split: option.split)
next
  case (Some v)
  have adopt: "key_id (adopt_key v k) = key_id k" for k by (simp add: adopt_key_def)
  show ?thesis
  proof (cases "find_key i t")
    case None
    then show ?thesis
      using Some by (auto simp: merge_key_def key_merge_spec_def Let_def find_key_def find_append
          restored_key_def split: option.splits)
  next
    case (Some k)
    then show ?thesis
      using \<open>Option.bind p parse = Some v\<close>
      by (auto simp: merge_key_def key_merge_spec_def Let_def find_key_def find_map_first [OF adopt]
          simp flip: adopt_key_def)
  qed
qed

lemma merge_keys_find:
  assumes "distinct (map fst es)"
  shows "find_key j (fold (merge_key parse) es t) =
    key_merge_spec j (Option.bind (map_of es j) (\<lambda>p. Option.bind p parse)) (find_key j t)"
  using assms
proof (induction es arbitrary: t)
  case Nil
  then show ?case by (simp add: key_merge_spec_def split: option.split)
next
  case (Cons e es)
  obtain i p where e: "e = (i, p)" by force
  have "map_of es i = None" using Cons.prems by (auto simp: e map_of_eq_None_iff)
  then show ?case
    using Cons.IH [of "merge_key parse e t"] Cons.prems
    by (auto simp: e merge_key_find) (simp add: key_merge_spec_def split: option.split)
qed

text \<open>
  A merge with the shared store refines its specification, id by id: a payload that is not
  newer or that carries another secret changes nothing, a newer one sets quota and switch and
  keeps secret, label and use, an unknown id is restored with its secret, and every other key stays
  as it is.
\<close>

lemma key_merge_refines_spec:
  assumes "distinct ids" "length values = length ids" "has_shared t"
  shows "find_key i (merge_keys parse (Some ids) values t) =
    key_merge_spec i (Option.bind (map_of (zip ids values) i) (\<lambda>p. Option.bind p parse)) (find_key i t)"
proof -
  have k: "find_key i (push_keys ks t') = find_key i t'" for ks t'
    by (simp add: push_keys_def find_key_def)
  show ?thesis
    using merge_keys_find [of "zip ids values" i parse t] assms
    by (auto simp: merge_keys_def k Let_def key_merge_spec_def split: option.split)
qed

section \<open>Concrete runs\<close>

text \<open>A stand-in for SHA-256 that pads to 32 bytes.\<close>

definition pad_hash :: "byte list \<Rightarrow> byte list" where
  "pad_hash bs = take 32 (bs @ replicate 32 0)"

definition demo_key :: api_key where
  "demo_key = \<lparr>key_id = ''a'', key_label = ''app'', key_hash = hash_key pad_hash ''s3cret'', key_prefix = ''s3'',
     quota = 2, used = 0, key_active = True, key_updated = 10\<rparr>"

definition demo_keys :: key_table where
  "demo_keys = \<lparr>keys = [demo_key], has_shared = True, key_log = []\<rparr>"


lemma access_decision_witness:
  "fst (enforce_api_key pad_hash ''admin'' \<lparr>req_path = ''/track/'', admin_header = None, key_header = Some ''s3cret'',
      from_ip = V4 7\<rparr> 5 (demo_keys, auth_new 1)) = PassOn"
proof -
  have "find (\<lambda>k. key_hash k = hash_key pad_hash ''s3cret'' \<and> key_active k) (keys demo_keys) = Some demo_key"
    by (simp add: demo_keys_def) (simp add: demo_key_def)
  then show ?thesis
    unfolding access_decision by (simp add: demo_key_def Let_def)
qed

lemma refused_requests_count_witness:
  "isl (fst (check_and_consume pad_hash ''s3cret''
     (present pad_hash ''s3cret'' 3 (demo_keys\<lparr>keys := [demo_key\<lparr>used := 2\<rparr>]\<rparr>)
        \<lparr>keys := map_first (usable_key pad_hash ''s3cret'') (adopt_key (JObj [(''quota'', JInt 5)]))
           (keys (present pad_hash ''s3cret'' 3 (demo_keys\<lparr>keys := [demo_key\<lparr>used := 2\<rparr>]\<rparr>)))\<rparr>)))"
proof (rule refused_requests_count)
  show "find (usable_key pad_hash ''s3cret'') (keys (demo_keys\<lparr>keys := [demo_key\<lparr>used := 2\<rparr>]\<rparr>)) = Some (demo_key\<lparr>used := 2\<rparr>)"
    by (simp add: usable_key_def) (simp add: demo_key_def)
  have q: "remote_quota (JObj [(''quota'', JInt 5)]) = 5" by (simp add: remote_quota_def)
  show "unat (remote_quota (JObj [(''quota'', JInt 5)])) \<le> unat (used (demo_key\<lparr>used := 2\<rparr>)) + 3"
    "0 < remote_quota (JObj [(''quota'', JInt 5)])" unfolding q by simp_all
qed (simp_all add: demo_keys_def demo_key_def jget_bool_def)

lemma key_merge_refines_spec_witness:
  "find_key ''a'' (merge_keys Some (Some [''a'']) [Some (key_to_json (demo_key\<lparr>key_active := False, key_updated := 11\<rparr>))] demo_keys)
   = Some (demo_key\<lparr>key_active := False, key_updated := 11\<rparr>)"
proof -
  have "find_key ''a'' demo_keys = Some demo_key" by (simp add: find_key_def demo_keys_def demo_key_def)
  then show ?thesis
    using key_merge_refines_spec [of "[''a'']" "[Some (key_to_json (demo_key\<lparr>key_active := False, key_updated := 11\<rparr>))]"
        demo_keys "''a''" Some]
    by (simp add: demo_keys_def key_merge_spec_def key_to_json_def jget_i64_def jget_bool_def key_field_def
        jget_str_def remote_quota_def demo_key_def)
qed

end
