(* ===== verification/Cache.thy ===== *)
theory Cache
  imports Prelude "HOL-Library.List_Lexorder" "HOL-Library.Char_ord" "HOL-Library.Product_Lexorder"
begin

text \<open>
  \<open>src/cache.rs\<close>: the cache of metadata answers in front of the routes. Answers are kept fresh and
  then stale for as long again, errors for seconds; requests for one key wait for each other.

  The caches are moka's: an entry may disappear at any time (capacity, time to live), which the
  step relation of \<open>CacheProps\<close> allows; the per-key mutexes live in such a cache as well. Decoding
  and encoding of query strings is form_urlencoded's (\<open>pairs_of\<close>, \<open>query_of\<close>). A reply of the
  routes is its status, its headers (with the text of the value where it is text), and its body as
  the chunks of a stream, in which \<open>None\<close> is a read error. \<open>clk\<close> gives the successive readings of
  the clock in one call.
\<close>

section \<open>Which answers, and for how long\<close>

definition HOUR_SECS :: nat where "HOUR_SECS = 3600"

definition MAX_FRESH_SECS :: nat where "MAX_FRESH_SECS = 12 * HOUR_SECS"

definition MAX_BODY_BYTES :: nat where "MAX_BODY_BYTES = 2 * 1024 * 1024"

definition cacheable :: "string \<Rightarrow> bool" where
  "cacheable path \<longleftrightarrow> list_ex (\<lambda>p. starts_with p path)
     [''/info/'', ''/search/'', ''/album/'', ''/artist/'', ''/mix/'', ''/playlist/'', ''/cover/'', ''/lyrics/'',
      ''/recommendations/'']"

definition normalize_query ::
    "(string \<Rightarrow> (string \<times> string) list) \<Rightarrow> ((string \<times> string) list \<Rightarrow> string) \<Rightarrow> string option \<Rightarrow> string" where
  "normalize_query pairs_of query_of query =
     (let q = (case query of Some s \<Rightarrow> s | None \<Rightarrow> [])
      in if q = [] then []
         else (let pairs = pairs_of q in if length pairs < 2 then query_of pairs else query_of (sort pairs)))"

definition cache_key ::
    "(string \<Rightarrow> (string \<times> string) list) \<Rightarrow> ((string \<times> string) list \<Rightarrow> string) \<Rightarrow> string \<Rightarrow> string option \<Rightarrow> string" where
  "cache_key pairs_of query_of path query = path @ ''?'' @ normalize_query pairs_of query_of query"

definition fresh_secs :: "string \<Rightarrow> nat" where
  "fresh_secs path =
     (if starts_with ''/playlist/'' path \<or> starts_with ''/mix/'' path then 15 * 60
      else if starts_with ''/search/'' path then 4 * HOUR_SECS
      else MAX_FRESH_SECS)"

definition stale_secs :: "string \<Rightarrow> nat" where
  "stale_secs path = min (fresh_secs path) MAX_FRESH_SECS"

datatype freshness = Fresh | Stale | Expired

definition freshness_of :: "string \<Rightarrow> int \<Rightarrow> freshness" where
  "freshness_of path age =
     (if age < int (fresh_secs path) then Fresh
      else if age < int (fresh_secs path + stale_secs path) then Stale
      else Expired)"

definition negative_ttl :: "nat \<Rightarrow> nat option" where
  "negative_ttl s =
     (if s = 404 then Some 60 else if s \<in> {429, 500, 502, 503, 504} then Some 15 else None)"

section \<open>The state\<close>

record cached_response =
  c_status :: nat
  c_headers :: "(string \<times> string) list"
  c_body :: string
  fetched_at :: int

record negative_entry =
  n_status :: nat
  n_headers :: "(string \<times> string) list"
  n_body :: string
  expires_at :: int

record response_cache =
  entries :: "string \<Rightarrow> cached_response option"
  negatives :: "string \<Rightarrow> negative_entry option"
  guards :: "string \<Rightarrow> nat option"
  next_guard :: nat
  held_guards :: "nat set"
  hits :: nat
  misses :: nat
  coalesced :: nat
  stale_hits :: nat
  negative_hits :: nat

definition response_cache_new :: response_cache where
  "response_cache_new = \<lparr>entries = (\<lambda>_. None), negatives = (\<lambda>_. None), guards = (\<lambda>_. None), next_guard = 0,
     held_guards = {}, hits = 0, misses = 0, coalesced = 0, stale_hits = 0, negative_hits = 0\<rparr>"

definition invalidate_all :: "response_cache \<Rightarrow> response_cache" where
  "invalidate_all c = c\<lparr>entries := (\<lambda>_. None), negatives := (\<lambda>_. None)\<rparr>"

section \<open>Replies\<close>

record upstream_reply =
  u_status :: nat
  u_headers :: "(string \<times> string option) list"
  u_chunks :: "string option list"

record sent_response =
  s_status :: nat
  s_headers :: "(string \<times> string option) list"
  s_chunks :: "string option list"

definition lower :: "string \<Rightarrow> string" where
  "lower = map to_ascii_lower"

definition build_response :: "nat \<Rightarrow> (string \<times> string) list \<Rightarrow> string \<Rightarrow> string \<Rightarrow> sent_response" where
  "build_response s hs body lbl =
     \<lparr>s_status = s,
      s_headers = map (\<lambda>(k, v). (k, Some v))
        (filter (\<lambda>(k, v). lower k \<notin> {''content-length'', ''transfer-encoding''}) hs @ [(lower ''X-Cache'', lbl)]),
      s_chunks = [Some body]\<rparr>"

definition body_too_big :: "upstream_reply \<Rightarrow> bool" where
  "body_too_big u =
     (case Option.bind (map_of (u_headers u) ''content-length'') (\<lambda>v. Option.bind v parse_u64) of
        Some n \<Rightarrow> n > MAX_BODY_BYTES
      | None \<Rightarrow> False)"

text \<open>Reading a body: complete, too long (the reply goes on unbuffered), or broken off.\<close>

datatype body_read =
    Whole string
  | TooLong
  | Broken

fun read_chunks :: "nat \<Rightarrow> string \<Rightarrow> string option list \<Rightarrow> body_read" where
  "read_chunks seen acc [] = Whole acc"
| "read_chunks seen acc (None # cs) = Broken"
| "read_chunks seen acc (Some c # cs) =
     (if seen + length c > MAX_BODY_BYTES then TooLong else read_chunks (seen + length c) (acc @ c) cs)"

definition text_headers :: "upstream_reply \<Rightarrow> (string \<times> string) list" where
  "text_headers u = List.map_filter (\<lambda>(k, v). map_option (Pair k) v) (u_headers u)"

definition pass_through :: "upstream_reply \<Rightarrow> sent_response" where
  "pass_through u = \<lparr>s_status = u_status u, s_headers = u_headers u, s_chunks = u_chunks u\<rparr>"

definition BROKEN_BODY :: sent_response where
  "BROKEN_BODY = \<lparr>s_status = 502, s_headers = [], s_chunks = [Some ''Upstream body read failed'']\<rparr>"

text \<open>\<open>Inr\<close>: status, headers and body to keep; \<open>Inl\<close>: the response to send instead.\<close>

definition collect_parts :: "upstream_reply \<Rightarrow> sent_response + nat \<times> (string \<times> string) list \<times> string" where
  "collect_parts u =
     (case read_chunks 0 [] (u_chunks u) of
        Whole body \<Rightarrow> Inr (u_status u, text_headers u, body)
      | TooLong \<Rightarrow> Inl (pass_through u)
      | Broken \<Rightarrow> Inl BROKEN_BODY)"

definition set_header :: "string \<Rightarrow> string \<Rightarrow> sent_response \<Rightarrow> sent_response" where
  "set_header k v r = r\<lparr>s_headers := filter (\<lambda>(h, _). h \<noteq> lower k) (s_headers r) @ [(lower k, Some v)]\<rparr>"

section \<open>A request\<close>

text \<open>What the first look at the caches says.\<close>

datatype look =
    Serve sent_response
  | ServeAndRefresh sent_response
  | Miss

definition serve_hit :: "cached_response \<Rightarrow> string \<Rightarrow> sent_response" where
  "serve_hit e lbl = build_response (c_status e) (c_headers e) (c_body e) lbl"

definition serve_negative :: "negative_entry \<Rightarrow> sent_response" where
  "serve_negative n = build_response (n_status n) (n_headers n) (n_body n) ''NEGATIVE''"

definition look_negative :: "string \<Rightarrow> int \<Rightarrow> response_cache \<Rightarrow> look \<times> response_cache" where
  "look_negative key now c =
     (case negatives c key of
        Some n \<Rightarrow>
          if now < expires_at n then (Serve (serve_negative n), c\<lparr>negative_hits := negative_hits c + 1\<rparr>)
          else (Miss, c)
      | None \<Rightarrow> (Miss, c))"

definition first_look :: "string \<Rightarrow> string \<Rightarrow> (nat \<Rightarrow> int) \<Rightarrow> response_cache \<Rightarrow> look \<times> response_cache" where
  "first_look path key clk c =
     (case entries c key of
        None \<Rightarrow> look_negative key (clk 2) c
      | Some e \<Rightarrow>
          if freshness_of path (clk 0 - fetched_at e) = Fresh
          then (Serve (serve_hit e ''HIT''), c\<lparr>hits := hits c + 1\<rparr>)
          else if freshness_of path (clk 1 - fetched_at e) = Stale
          then (ServeAndRefresh (serve_hit e ''STALE''), c\<lparr>hits := hits c + 1, stale_hits := stale_hits c + 1\<rparr>)
          else look_negative key (clk 2) c)"

text \<open>The mutex of a key, made when there is none.\<close>

definition get_guard :: "string \<Rightarrow> response_cache \<Rightarrow> nat \<times> response_cache" where
  "get_guard key c =
     (case guards c key of
        Some g \<Rightarrow> (g, c)
      | None \<Rightarrow> (next_guard c, c\<lparr>guards := (guards c)(key \<mapsto> next_guard c), next_guard := next_guard c + 1\<rparr>))"

definition release_guard :: "nat \<Rightarrow> response_cache \<Rightarrow> response_cache" where
  "release_guard g c = c\<lparr>held_guards := held_guards c - {g}\<rparr>"

text \<open>The second look, with the mutex held.\<close>

definition second_look :: "string \<Rightarrow> string \<Rightarrow> (nat \<Rightarrow> int) \<Rightarrow> response_cache \<Rightarrow> look \<times> response_cache" where
  "second_look path key clk c =
     (case entries c key of
        None \<Rightarrow> look_negative key (clk 2) c
      | Some e \<Rightarrow>
          if freshness_of path (clk 0 - fetched_at e) \<noteq> Expired
          then (Serve (serve_hit e (if freshness_of path (clk 1 - fetched_at e) = Fresh then ''HIT'' else ''STALE'')),
                c\<lparr>hits := hits c + 1, coalesced := coalesced c + 1\<rparr>)
          else look_negative key (clk 2) c)"

definition count_miss :: "response_cache \<Rightarrow> response_cache" where
  "count_miss c = c\<lparr>misses := misses c + 1\<rparr>"

text \<open>The reply of the routes to a miss: what is kept and what is sent.\<close>

definition store_reply :: "string \<Rightarrow> int \<Rightarrow> upstream_reply \<Rightarrow> response_cache \<Rightarrow> sent_response \<times> response_cache" where
  "store_reply key now u c =
     (if u_status u = 200 then
        (if body_too_big u then (set_header ''X-Cache'' ''SKIP'' (pass_through u), c)
         else (case collect_parts u of
                 Inr (s, hs, body) \<Rightarrow>
                   (build_response s hs body ''MISS'',
                    c\<lparr>entries := (entries c)(key \<mapsto> \<lparr>c_status = s, c_headers = hs, c_body = body, fetched_at = now\<rparr>)\<rparr>)
               | Inl r \<Rightarrow> (set_header ''X-Cache'' ''SKIP'' r, c)))
      else (case negative_ttl (u_status u) of
              None \<Rightarrow> (pass_through u, c)
            | Some ttl \<Rightarrow>
                if body_too_big u then (pass_through u, c)
                else (case collect_parts u of
                        Inr (s, hs, body) \<Rightarrow>
                          (build_response (u_status u) hs body ''MISS'',
                           c\<lparr>negatives := (negatives c)(key \<mapsto>
                               \<lparr>n_status = u_status u, n_headers = hs, n_body = body, expires_at = now + int ttl\<rparr>)\<rparr>)
                      | Inl r \<Rightarrow> (set_header ''X-Cache'' ''SKIP'' r, c))))"

text \<open>The background refresh keeps a 200 and drops everything else.\<close>

definition store_refresh :: "string \<Rightarrow> int \<Rightarrow> upstream_reply \<Rightarrow> response_cache \<Rightarrow> response_cache" where
  "store_refresh key now u c =
     (if u_status u = 200 then
        (case collect_parts u of
           Inr (s, hs, body) \<Rightarrow>
             c\<lparr>entries := (entries c)(key \<mapsto> \<lparr>c_status = s, c_headers = hs, c_body = body, fetched_at = now\<rparr>)\<rparr>
         | Inl r \<Rightarrow> c)
      else c)"

end
