(* ===== verification/CacheProps.thy ===== *)
theory CacheProps
  imports Cache "HOL-Library.Multiset"
begin

text \<open>
  What the cache promises: requests share an entry exactly if they ask for the same thing, what is
  served was fetched for that key and is not too old, requests for one key do not stampede, and
  nobody waits for ever.
\<close>

section \<open>Keys\<close>

lemma normalize_sorts:
  assumes "pairs_of [] = []" "query_of [] = []"
  shows "normalize_query pairs_of query_of q = query_of (sort (pairs_of (case q of Some s \<Rightarrow> s | None \<Rightarrow> [])))"
proof -
  have "sort xs = xs" if "length xs < 2" for xs :: "(string \<times> string) list"
    using that by (cases xs) (auto simp: length_Suc_conv less_2_cases_iff)
  then show ?thesis by (auto simp: normalize_query_def Let_def assms)
qed

lemma path_query_split:
  "CHR ''?'' \<notin> set p \<Longrightarrow> CHR ''?'' \<notin> set p' \<Longrightarrow> p @ CHR ''?'' # q = p' @ CHR ''?'' # q' \<longleftrightarrow> p = p' \<and> q = q'"
proof (induction p arbitrary: p')
  case Nil
  then show ?case by (cases p') auto
next
  case (Cons c p)
  then show ?case by (cases p') auto
qed

text \<open>
  Two requests share a cache entry exactly if they have the same path and, once decoded, the
  same query fields with the same values, in whatever order and encoding they were written. The
  encoder writes different lists of fields differently.
\<close>

lemma key_identifies_request:
  assumes "inj query_of" "pairs_of [] = []" "query_of [] = []"
    and "CHR ''?'' \<notin> set path" "CHR ''?'' \<notin> set path'"
  shows "cache_key pairs_of query_of path (Some q) = cache_key pairs_of query_of path' (Some q') \<longleftrightarrow>
    path = path' \<and> mset (pairs_of q) = mset (pairs_of q')"
proof -
  have "sort (pairs_of q) = sort (pairs_of q') \<longleftrightarrow> mset (pairs_of q) = mset (pairs_of q')" (is "?s = ?s' \<longleftrightarrow> ?m = ?m'")
  proof
    assume "?s = ?s'"
    then have "mset ?s = mset ?s'" by simp
    then show "?m = ?m'" by simp
  next
    assume "?m = ?m'"
    then show "?s = ?s'" by (intro properties_for_sort) (simp_all add: sorted_sort)
  qed
  then show ?thesis
    using assms by (simp add: cache_key_def normalize_sorts path_query_split inj_eq)
qed

section \<open>Requests side by side\<close>

datatype phase =
    Queued nat
  | Fetching nat
  | Scheduled
  | Refreshing nat

record flight =
  f_path :: string
  f_key :: string
  f_phase :: phase

text \<open>
  The server's view: the caches, the requests and refreshes in progress, and what the routes have
  replied so far.
\<close>

record cache_run =
  cache :: response_cache
  flights :: "nat \<Rightarrow> flight option"
  fetched :: "(string \<times> int \<times> upstream_reply) list"

definition fly :: "nat \<Rightarrow> flight option \<Rightarrow> response_cache \<Rightarrow> cache_run \<Rightarrow> cache_run" where
  "fly i f c s = s\<lparr>cache := c, flights := (flights s)(i := f)\<rparr>"

text \<open>
  One step. An entry, an error verdict or (when \<open>forget\<close>) a mutex may drop out of its cache; a
  client may go away, which frees the mutex it holds. Which flight is used for a refresh is left
  open, as the task starts on its own.
\<close>

inductive cache_step :: "bool \<Rightarrow> cache_run \<Rightarrow> cache_run \<Rightarrow> bool" for forget :: bool where
  served: "first_look path key clk (cache s) = (Serve r, c) \<Longrightarrow> cache_step forget s (s\<lparr>cache := c\<rparr>)"
| served_stale: "first_look path key clk (cache s) = (ServeAndRefresh r, c) \<Longrightarrow> flights s i = None \<Longrightarrow>
     cache_step forget s (fly i (Some \<lparr>f_path = path, f_key = key, f_phase = Scheduled\<rparr>) c s)"
| queues: "first_look path key clk (cache s) = (Miss, c) \<Longrightarrow> flights s i = None \<Longrightarrow> get_guard key c = (g, c') \<Longrightarrow>
     cache_step forget s (fly i (Some \<lparr>f_path = path, f_key = key, f_phase = Queued g\<rparr>) c' s)"
| follows: "flights s i = Some f \<Longrightarrow> f_phase f = Queued g \<Longrightarrow> g \<notin> held_guards (cache s) \<Longrightarrow>
     second_look (f_path f) (f_key f) clk (cache s) = (Serve r, c) \<Longrightarrow> cache_step forget s (fly i None c s)"
| leads: "flights s i = Some f \<Longrightarrow> f_phase f = Queued g \<Longrightarrow> g \<notin> held_guards (cache s) \<Longrightarrow>
     second_look (f_path f) (f_key f) clk (cache s) = (Miss, c) \<Longrightarrow>
     cache_step forget s (fly i (Some (f\<lparr>f_phase := Fetching g\<rparr>)) ((count_miss c)\<lparr>held_guards := insert g (held_guards c)\<rparr>) s)"
| replied: "flights s i = Some f \<Longrightarrow> f_phase f = Fetching g \<Longrightarrow> store_reply (f_key f) now u (cache s) = (r, c) \<Longrightarrow>
     cache_step forget s ((fly i None (release_guard g c) s)\<lparr>fetched := fetched s @ [(f_key f, now, u)]\<rparr>)"
| refreshes: "flights s i = Some f \<Longrightarrow> f_phase f = Scheduled \<Longrightarrow> get_guard (f_key f) (cache s) = (g, c) \<Longrightarrow>
     g \<notin> held_guards c \<Longrightarrow>
     cache_step forget s (fly i (Some (f\<lparr>f_phase := Refreshing g\<rparr>)) (c\<lparr>held_guards := insert g (held_guards c)\<rparr>) s)"
| skips: "flights s i = Some f \<Longrightarrow> f_phase f = Scheduled \<Longrightarrow> get_guard (f_key f) (cache s) = (g, c) \<Longrightarrow>
     g \<in> held_guards c \<Longrightarrow> cache_step forget s (fly i None c s)"
| refreshed: "flights s i = Some f \<Longrightarrow> f_phase f = Refreshing g \<Longrightarrow>
     cache_step forget s ((fly i None (release_guard g (store_refresh (f_key f) now u (cache s))) s)
       \<lparr>fetched := fetched s @ [(f_key f, now, u)]\<rparr>)"
| leaves: "flights s i = Some f \<Longrightarrow> f_phase f = Queued g \<Longrightarrow> cache_step forget s (fly i None (cache s) s)"
| aborts: "flights s i = Some f \<Longrightarrow> f_phase f = Fetching g \<Longrightarrow>
     cache_step forget s (fly i None (release_guard g (cache s)) s)"
| evicts: "cache_step forget s (s\<lparr>cache := (cache s)\<lparr>entries := (entries (cache s))(key := None)\<rparr>\<rparr>)"
| evicts_error: "cache_step forget s (s\<lparr>cache := (cache s)\<lparr>negatives := (negatives (cache s))(key := None)\<rparr>\<rparr>)"
| forgets: "forget \<Longrightarrow> cache_step forget s (s\<lparr>cache := (cache s)\<lparr>guards := (guards (cache s))(key := None)\<rparr>\<rparr>)"
| clears: "cache_step forget s (s\<lparr>cache := invalidate_all (cache s)\<rparr>)"

inductive cache_reachable :: "bool \<Rightarrow> cache_run \<Rightarrow> bool" for forget :: bool where
  cold: "cache_reachable forget \<lparr>cache = response_cache_new, flights = (\<lambda>_. None), fetched = []\<rparr>"
| step: "cache_reachable forget s \<Longrightarrow> cache_step forget s t \<Longrightarrow> cache_reachable forget t"

section \<open>Where entries come from\<close>

definition kept_from :: "(string \<times> int \<times> upstream_reply) list \<Rightarrow> string \<Rightarrow> cached_response \<Rightarrow> bool" where
  "kept_from h key e \<longleftrightarrow>
     list_ex (\<lambda>(k, t, u). k = key \<and> t = fetched_at e \<and> u_status u = 200 \<and>
        collect_parts u = Inr (c_status e, c_headers e, c_body e)) h"

definition refused_from :: "(string \<times> int \<times> upstream_reply) list \<Rightarrow> string \<Rightarrow> negative_entry \<Rightarrow> bool" where
  "refused_from h key n \<longleftrightarrow>
     list_ex (\<lambda>(k, t, u). k = key \<and> u_status u = n_status n \<and> u_status u \<noteq> 200 \<and>
        negative_ttl (u_status u) = Some (nat (expires_at n - t)) \<and> t \<le> expires_at n \<and>
        (\<exists>s. collect_parts u = Inr (s, n_headers n, n_body n))) h"

definition provenance :: "cache_run \<Rightarrow> bool" where
  "provenance s \<longleftrightarrow>
     (\<forall>key e. entries (cache s) key = Some e \<longrightarrow> kept_from (fetched s) key e) \<and>
     (\<forall>key n. negatives (cache s) key = Some n \<longrightarrow> refused_from (fetched s) key n)"

lemma kept_from_more: "kept_from h key e \<Longrightarrow> kept_from (h @ h') key e"
  and refused_from_more: "refused_from h key n \<Longrightarrow> refused_from (h @ h') key n"
  by (simp_all add: kept_from_def refused_from_def)

text \<open>What the looks and the mutexes leave alone.\<close>

definition same_entries :: "response_cache \<Rightarrow> response_cache \<Rightarrow> bool" where
  "same_entries c c' \<longleftrightarrow> entries c' = entries c \<and> negatives c' = negatives c"

definition same_guards :: "response_cache \<Rightarrow> response_cache \<Rightarrow> bool" where
  "same_guards c c' \<longleftrightarrow> guards c' = guards c \<and> next_guard c' = next_guard c \<and> held_guards c' = held_guards c"

lemma look_negative_same: "look_negative key now c = (r, c') \<Longrightarrow> same_entries c c' \<and> same_guards c c'"
  by (auto simp: look_negative_def same_entries_def same_guards_def split: option.splits if_splits)

lemma first_look_same: "first_look path key clk c = (r, c') \<Longrightarrow> same_entries c c' \<and> same_guards c c'"
  by (auto simp: first_look_def same_entries_def same_guards_def split: option.splits if_splits
      dest: look_negative_same [unfolded same_entries_def same_guards_def])

lemma second_look_same: "second_look path key clk c = (r, c') \<Longrightarrow> same_entries c c' \<and> same_guards c c'"
  by (auto simp: second_look_def same_entries_def same_guards_def split: option.splits if_splits
      dest: look_negative_same [unfolded same_entries_def same_guards_def])

lemma get_guard_entries: "get_guard key c = (g, c') \<Longrightarrow> same_entries c c'"
  by (auto simp: get_guard_def same_entries_def split: option.splits)

lemma store_reply_guards: "store_reply key now u c = (r, c') \<Longrightarrow> same_guards c c'"
  by (auto simp: store_reply_def same_guards_def split: if_splits sum.splits option.splits prod.splits)

lemma store_refresh_guards: "same_guards c (store_refresh key now u c)"
  by (auto simp: store_refresh_def same_guards_def split: sum.splits prod.splits)

lemma ttl_pos: "negative_ttl s = Some ttl \<Longrightarrow> ttl \<le> 60 \<and> s \<noteq> 200"
  by (auto simp: negative_ttl_def split: if_splits)

lemma store_reply_entries:
  assumes "store_reply key now u c = (r, c')"
  shows "entries c' k = Some e \<Longrightarrow> entries c k = Some e \<or> kept_from [(key, now, u)] k e"
    and "negatives c' k = Some n \<Longrightarrow> negatives c k = Some n \<or> refused_from [(key, now, u)] k n"
  using assms
  by (auto simp: store_reply_def kept_from_def refused_from_def collect_parts_def
      split: if_splits sum.splits option.splits prod.splits body_read.splits)

lemma store_refresh_entries:
  "entries (store_refresh key now u c) k = Some e \<Longrightarrow> entries c k = Some e \<or> kept_from [(key, now, u)] k e"
  "negatives (store_refresh key now u c) = negatives c"
  by (auto simp: store_refresh_def kept_from_def split: if_splits sum.splits prod.splits)

lemma provenance_same:
  "provenance s \<Longrightarrow> same_entries (cache s) c \<Longrightarrow> provenance (fly i f c s)"
  "provenance s \<Longrightarrow> same_entries (cache s) c \<Longrightarrow> provenance (s\<lparr>cache := c\<rparr>)"
  by (simp_all add: provenance_def same_entries_def fly_def)

lemma provenance_fetched:
  assumes "provenance s"
    and "\<And>k e. entries c k = Some e \<Longrightarrow> entries (cache s) k = Some e \<or> kept_from [x] k e"
    and "\<And>k n. negatives c k = Some n \<Longrightarrow> negatives (cache s) k = Some n \<or> refused_from [x] k n"
  shows "provenance ((fly i f (release_guard g c) s)\<lparr>fetched := fetched s @ [x]\<rparr>)"
  using assms
  by (fastforce simp: provenance_def fly_def release_guard_def kept_from_def refused_from_def)

lemma provenance_step:
  assumes "cache_step forget s t" "provenance s"
  shows "provenance t"
  using assms
proof (induction rule: cache_step.induct)
  case (queues path key clk s c i g c')
  then have "same_entries (cache s) c'"
    using first_look_same get_guard_entries by (metis same_entries_def)
  with queues show ?case by (simp add: provenance_same)
next
  case (leads s i f g clk c)
  then have "same_entries (cache s) ((count_miss c)\<lparr>held_guards := insert g (held_guards c)\<rparr>)"
    using second_look_same by (simp add: same_entries_def count_miss_def)
  with leads show ?case by (simp add: provenance_same)
next
  case (replied s i f g now u r c)
  then show ?case by (intro provenance_fetched) (blast dest: store_reply_entries)+
next
  case (refreshes s i f g c)
  then have "same_entries (cache s) (c\<lparr>held_guards := insert g (held_guards c)\<rparr>)"
    using get_guard_entries by (simp add: same_entries_def)
  with refreshes show ?case by (simp add: provenance_same)
next
  case (refreshed s i f g now u)
  then show ?case
    by (intro provenance_fetched) (auto dest: store_refresh_entries(1) simp: store_refresh_entries(2))
next
  case (aborts s i f g)
  then have "same_entries (cache s) (release_guard g (cache s))" by (simp add: same_entries_def release_guard_def)
  with aborts show ?case by (simp add: provenance_same)
qed (auto intro: provenance_same dest: first_look_same second_look_same get_guard_entries
    simp: same_entries_def, auto simp: provenance_def invalidate_all_def same_entries_def)

lemma provenance_reachable: "cache_reachable forget s \<Longrightarrow> provenance s"
proof (induction rule: cache_reachable.induct)
  case cold
  then show ?case by (simp add: provenance_def response_cache_new_def)
qed (rule provenance_step)

text \<open>An answer made of a reply of the routes, marked \<open>lbl\<close>.\<close>

definition answer_of :: "upstream_reply \<Rightarrow> string \<Rightarrow> sent_response \<Rightarrow> bool" where
  "answer_of u lbl r \<longleftrightarrow>
     (case collect_parts u of Inr (s, hs, body) \<Rightarrow> r = build_response (u_status u) hs body lbl | Inl _ \<Rightarrow> False)"

definition served_from ::
    "(string \<times> int \<times> upstream_reply) list \<Rightarrow> string \<Rightarrow> string \<Rightarrow> (nat \<Rightarrow> int) \<Rightarrow> sent_response \<Rightarrow> bool" where
  "served_from h path key clk r \<longleftrightarrow>
     list_ex (\<lambda>(k, t, u). k = key \<and>
       (if u_status u = 200
        then (answer_of u ''HIT'' r \<or> answer_of u ''STALE'' r) \<and>
             (clk 0 < t + int (fresh_secs path + stale_secs path) \<or> clk 1 < t + int (fresh_secs path + stale_secs path))
        else answer_of u ''NEGATIVE'' r \<and> clk 2 < t + 60)) h"

lemma collect_status: "collect_parts u = Inr (s, hs, body) \<Longrightarrow> s = u_status u"
  by (auto simp: collect_parts_def split: body_read.splits)

lemma answer_of_hit:
  "u_status u = 200 \<Longrightarrow> collect_parts u = Inr (c_status e, c_headers e, c_body e) \<Longrightarrow> answer_of u lbl (serve_hit e lbl)"
  by (auto simp: answer_of_def serve_hit_def dest: collect_status)

lemma served_from_entry:
  assumes "kept_from h key e" "clk i - fetched_at e < int (fresh_secs path + stale_secs path)" "i \<in> {0, 1}"
    and "lbl \<in> {''HIT'', ''STALE''}"
  shows "served_from h path key clk (serve_hit e lbl)"
proof -
  obtain u where u: "(key, fetched_at e, u) \<in> set h" "u_status u = 200"
      "collect_parts u = Inr (c_status e, c_headers e, c_body e)"
    using assms(1) by (auto simp: kept_from_def list_ex_iff)
  note a = answer_of_hit [OF u(2,3), of lbl]
  have t: "clk i < fetched_at e + int (fresh_secs path + stale_secs path)" using assms(2) by linarith
  have "answer_of u ''HIT'' (serve_hit e lbl) \<or> answer_of u ''STALE'' (serve_hit e lbl)" using a assms(4) by blast
  moreover have "clk 0 < fetched_at e + int (fresh_secs path + stale_secs path) \<or>
      clk 1 < fetched_at e + int (fresh_secs path + stale_secs path)" using t assms(3) by blast
  ultimately show ?thesis
    unfolding served_from_def list_ex_iff by (intro bexI [OF _ u(1)]) (simp only: u prod.case simp_thms if_True)
qed

lemma served_from_error:
  assumes "refused_from h key n" "clk 2 < expires_at n"
  shows "served_from h path key clk (serve_negative n)"
proof -
  obtain t u s where u: "(key, t, u) \<in> set h" "u_status u = n_status n" "u_status u \<noteq> 200"
      "negative_ttl (u_status u) = Some (nat (expires_at n - t))" "t \<le> expires_at n"
      "collect_parts u = Inr (s, n_headers n, n_body n)"
    using assms(1) by (auto simp: refused_from_def list_ex_iff)
  have "clk 2 < t + 60" using ttl_pos [OF u(4)] u(5) assms(2) by linarith
  moreover have "answer_of u ''NEGATIVE'' (serve_negative n)"
    using u by (simp add: answer_of_def serve_negative_def)
  ultimately show ?thesis
    unfolding served_from_def list_ex_iff by (intro bexI [OF _ u(1)]) (simp only: u(3) prod.case simp_thms if_False)
qed

lemma stale_window: "freshness_of path a \<noteq> Expired \<Longrightarrow> a < int (fresh_secs path + stale_secs path)"
  by (auto simp: freshness_of_def split: if_splits)

lemma look_negative_served:
  assumes "provenance s" "look_negative key (clk 2) (cache s) = (l, c)" "l = Serve r \<or> l = ServeAndRefresh r"
  shows "served_from (fetched s) path key clk r"
  using assms by (auto simp: look_negative_def provenance_def split: option.splits if_splits intro: served_from_error)

lemma first_look_served:
  assumes "provenance s" "first_look path key clk (cache s) = (l, c)" "l = Serve r \<or> l = ServeAndRefresh r"
  shows "served_from (fetched s) path key clk r"
proof (cases "entries (cache s) key")
  case None
  with assms show ?thesis by (auto simp: first_look_def intro: look_negative_served)
next
  case (Some e)
  then have "kept_from (fetched s) key e" using assms(1) by (simp add: provenance_def)
  note served = served_from_entry [OF this stale_window]
  from Some assms show ?thesis
    by (auto simp: first_look_def split: if_splits intro: served [where i = 0] served [where i = 1] look_negative_served)
qed

lemma second_look_served:
  assumes "provenance s" "second_look path key clk (cache s) = (l, c)" "l = Serve r \<or> l = ServeAndRefresh r"
  shows "served_from (fetched s) path key clk r"
proof (cases "entries (cache s) key")
  case None
  with assms show ?thesis by (auto simp: second_look_def intro: look_negative_served)
next
  case (Some e)
  then have "kept_from (fetched s) key e" using assms(1) by (simp add: provenance_def)
  note served = served_from_entry [OF this stale_window]
  from Some assms show ?thesis
    by (auto simp: second_look_def split: if_splits intro: served [where i = 0] look_negative_served)
qed

text \<open>
  C29. Whatever the cache serves, at the first look or after waiting for another request, is what
  the routes replied for the very same key: a 200 less than the fresh and stale time of its path
  old, or an error less than a minute old. No refresh, eviction, aborted client or race between
  requests can put another answer there.
\<close>

theorem cache_serves_genuine_answers:
  assumes "cache_reachable forget s"
    and "first_look path key clk (cache s) = (l, c) \<or> second_look path key clk (cache s) = (l, c)"
    and "l = Serve r \<or> l = ServeAndRefresh r"
  shows "served_from (fetched s) path key clk r"
  using assms provenance_reachable by (blast intro: first_look_served second_look_served)

section \<open>One request at a time\<close>

definition holds_guard :: "flight \<Rightarrow> nat \<Rightarrow> bool" where
  "holds_guard f g \<longleftrightarrow> f_phase f = Fetching g \<or> f_phase f = Refreshing g"

definition uses_guard :: "flight \<Rightarrow> nat \<Rightarrow> bool" where
  "uses_guard f g \<longleftrightarrow> f_phase f = Queued g \<or> holds_guard f g"

text \<open>Every locked mutex is held by exactly one flight, and every flight that fetches holds its mutex.\<close>

definition guards_held :: "cache_run \<Rightarrow> bool" where
  "guards_held s \<longleftrightarrow>
     (\<forall>g. g \<in> held_guards (cache s) \<longleftrightarrow> (\<exists>i f. flights s i = Some f \<and> holds_guard f g)) \<and>
     (\<forall>i j f f' g. flights s i = Some f \<longrightarrow> flights s j = Some f' \<longrightarrow> holds_guard f g \<longrightarrow> holds_guard f' g \<longrightarrow> i = j)"

text \<open>While no mutex is dropped, a key has one.\<close>

definition guards_keyed :: "cache_run \<Rightarrow> bool" where
  "guards_keyed s \<longleftrightarrow>
     (\<forall>i f g. flights s i = Some f \<longrightarrow> uses_guard f g \<longrightarrow> guards (cache s) (f_key f) = Some g)"

lemma guards_heldI:
  assumes "\<And>g i f. flights s i = Some f \<Longrightarrow> holds_guard f g \<Longrightarrow> g \<in> held_guards (cache s)"
    and "\<And>g. g \<in> held_guards (cache s) \<Longrightarrow> \<exists>i f. flights s i = Some f \<and> holds_guard f g"
    and "\<And>i j f f' g. flights s i = Some f \<Longrightarrow> flights s j = Some f' \<Longrightarrow> holds_guard f g \<Longrightarrow> holds_guard f' g \<Longrightarrow> i = j"
  shows "guards_held s"
  using assms unfolding guards_held_def by blast

lemma guards_held_same:
  assumes "guards_held s" "held_guards c = held_guards (cache s)"
    and "\<And>g. \<not> (\<exists>f. flights s i = Some f \<and> holds_guard f g)" "\<And>f' g. f = Some f' \<Longrightarrow> \<not> holds_guard f' g"
  shows "guards_held (fly i f c s)"
proof -
  have eq: "flights (fly i f c s) j = Some f' \<and> holds_guard f' g \<longleftrightarrow> flights s j = Some f' \<and> holds_guard f' g" for j f' g
    using assms(3,4) by (auto simp: fly_def)
  have h: "held_guards (cache (fly i f c s)) = held_guards (cache s)" using assms(2) by (simp add: fly_def)
  show ?thesis
  proof (rule guards_heldI)
    show "g \<in> held_guards (cache (fly i f c s))" if "flights (fly i f c s) j = Some f'" "holds_guard f' g" for g j f'
      using that eq [of j f' g] h assms(1) unfolding guards_held_def by blast
    show "\<exists>j f'. flights (fly i f c s) j = Some f' \<and> holds_guard f' g" if "g \<in> held_guards (cache (fly i f c s))" for g
      unfolding eq using that assms(1) unfolding h guards_held_def by blast
    show "j = k" if "flights (fly i f c s) j = Some f1" "flights (fly i f c s) k = Some f2" "holds_guard f1 g" "holds_guard f2 g"
      for j k f1 f2 g
      using that eq [of j f1 g] eq [of k f2 g] assms(1) unfolding guards_held_def by blast
  qed
qed

lemma guards_held_take:
  assumes "guards_held s" "flights s i = Some f" "\<And>g. \<not> holds_guard f g"
    and "g \<notin> held_guards (cache s)" "\<And>g'. holds_guard f' g' \<longleftrightarrow> g' = g" "held_guards c = insert g (held_guards (cache s))"
  shows "guards_held (fly i (Some f') c s)"
proof (rule guards_heldI)
  fix g' assume "g' \<in> held_guards (cache (fly i (Some f') c s))"
  then have "g' = g \<or> g' \<in> held_guards (cache s)" using assms(6) by (simp add: fly_def)
  then show "\<exists>j f''. flights (fly i (Some f') c s) j = Some f'' \<and> holds_guard f'' g'"
  proof
    assume "g' = g"
    then have "flights (fly i (Some f') c s) i = Some f' \<and> holds_guard f' g'" using assms(5) by (simp add: fly_def)
    then show ?thesis by blast
  next
    assume "g' \<in> held_guards (cache s)"
    then obtain j f'' where j: "flights s j = Some f''" "holds_guard f'' g'" using assms(1) unfolding guards_held_def by blast
    then have "j \<noteq> i" using assms(2,3) by auto
    with j show ?thesis by (auto simp: fly_def)
  qed
next
  fix j f'' g' assume "flights (fly i (Some f') c s) j = Some f''" "holds_guard f'' g'"
  then show "g' \<in> held_guards (cache (fly i (Some f') c s))"
    using assms(1,5,6) by (auto simp: fly_def guards_held_def split: if_splits)
next
  fix j k f1 f2 g'
  assume "flights (fly i (Some f') c s) j = Some f1" "flights (fly i (Some f') c s) k = Some f2"
    "holds_guard f1 g'" "holds_guard f2 g'"
  then show "j = k"
    using assms(1,4,5) unfolding guards_held_def by (auto simp: fly_def split: if_splits)
qed

lemma guards_held_release:
  assumes "guards_held s" "flights s i = Some f" "holds_guard f g" "held_guards c = held_guards (cache s)"
  shows "guards_held (fly i None (release_guard g c) s)"
proof (rule guards_heldI)
  have only: "g' = g" if "holds_guard f g'" for g' using assms(3) that by (auto simp: holds_guard_def)
  fix g' assume g': "g' \<in> held_guards (cache (fly i None (release_guard g c) s))"
  then obtain j f'' where j: "flights s j = Some f''" "holds_guard f'' g'"
    using assms(1,4) unfolding guards_held_def by (auto simp: fly_def release_guard_def)
  with g' only assms(2) have "j \<noteq> i" by (auto simp: fly_def release_guard_def)
  with j show "\<exists>j f''. flights (fly i None (release_guard g c) s) j = Some f'' \<and> holds_guard f'' g'"
    by (auto simp: fly_def)
next
  fix j f'' g' assume j: "flights (fly i None (release_guard g c) s) j = Some f''" "holds_guard f'' g'"
  then have "j \<noteq> i" "flights s j = Some f''" by (auto simp: fly_def split: if_splits)
  with j(2) assms show "g' \<in> held_guards (cache (fly i None (release_guard g c) s))"
    unfolding guards_held_def by (auto simp: fly_def release_guard_def)
next
  fix j k f1 f2 g'
  assume "flights (fly i None (release_guard g c) s) j = Some f1" "flights (fly i None (release_guard g c) s) k = Some f2"
    "holds_guard f1 g'" "holds_guard f2 g'"
  then show "j = k" using assms(1) unfolding guards_held_def by (auto simp: fly_def split: if_splits)
qed

lemma guards_held_fetched: "guards_held (s\<lparr>fetched := h\<rparr>) = guards_held s"
  by (simp add: guards_held_def)

lemma guards_held_cache: "held_guards c = held_guards (cache s) \<Longrightarrow> guards_held (s\<lparr>cache := c\<rparr>) = guards_held s"
  by (simp add: guards_held_def)

lemma get_guard_held: "get_guard key c = (g, c') \<Longrightarrow> held_guards c' = held_guards c"
  by (auto simp: get_guard_def split: option.splits)

lemma guards_held_step:
  assumes "cache_step forget s t" "guards_held s"
  shows "guards_held t"
  using assms
proof (induction rule: cache_step.induct)
  case (served path key clk s r c)
  then show ?case using first_look_same by (simp add: guards_held_cache same_guards_def)
next
  case (served_stale path key clk s r c i)
  then show ?case
    using first_look_same by (intro guards_held_same) (auto simp: same_guards_def holds_guard_def)
next
  case (queues path key clk s c i g c')
  then show ?case
    using first_look_same get_guard_held by (intro guards_held_same) (auto simp: same_guards_def holds_guard_def)
next
  case (follows s i f g clk r c)
  then show ?case using second_look_same by (intro guards_held_same) (auto simp: same_guards_def holds_guard_def)
next
  case (leads s i f g clk c)
  then have "held_guards c = held_guards (cache s)" using second_look_same by (simp add: same_guards_def)
  with leads show ?case by (intro guards_held_take [where f = f and g = g]) (auto simp: holds_guard_def count_miss_def)
next
  case (replied s i f g now u r c)
  then have "held_guards c = held_guards (cache s)" using store_reply_guards by (simp add: same_guards_def)
  with replied show ?case
    by (simp add: guards_held_fetched guards_held_release holds_guard_def)
next
  case (refreshes s i f g c)
  then have "held_guards c = held_guards (cache s)" using get_guard_held by simp
  with refreshes show ?case by (intro guards_held_take [where f = f and g = g]) (auto simp: holds_guard_def)
next
  case (skips s i f g c)
  then show ?case using get_guard_held by (intro guards_held_same) (auto simp: holds_guard_def)
next
  case (refreshed s i f g now u)
  then show ?case
    using store_refresh_guards by (simp add: guards_held_fetched guards_held_release holds_guard_def same_guards_def)
next
  case (leaves s i f g)
  then show ?case by (intro guards_held_same) (auto simp: holds_guard_def)
next
  case (aborts s i f g)
  then show ?case by (intro guards_held_release) (auto simp: holds_guard_def)
qed (simp_all add: guards_held_cache invalidate_all_def)

lemma guards_held_reachable: "cache_reachable forget s \<Longrightarrow> guards_held s"
proof (induction rule: cache_reachable.induct)
  case cold
  then show ?case by (simp add: guards_held_def response_cache_new_def)
qed (rule guards_held_step)

definition guards_grow :: "response_cache \<Rightarrow> response_cache \<Rightarrow> bool" where
  "guards_grow c c' \<longleftrightarrow> (\<forall>k g. guards c k = Some g \<longrightarrow> guards c' k = Some g)"

lemma same_guards_grow: "same_guards c c' \<Longrightarrow> guards_grow c c'"
  by (simp add: same_guards_def guards_grow_def)

lemma get_guard_grow: "get_guard key c = (g, c') \<Longrightarrow> guards_grow c c' \<and> guards c' key = Some g"
  by (auto simp: get_guard_def guards_grow_def split: option.splits)

lemma guards_grow_fields [simp]:
  "guards_grow c (c'\<lparr>held_guards := x\<rparr>) = guards_grow c c'" "guards_grow c (count_miss c') = guards_grow c c'"
  "guards_grow c (release_guard h c') = guards_grow c c'" "guards_grow c c"
  by (simp_all add: guards_grow_def count_miss_def release_guard_def)

lemma guards_grow_trans: "guards_grow a b \<Longrightarrow> guards_grow b c \<Longrightarrow> guards_grow a c"
  by (simp add: guards_grow_def)

lemma guards_keyed_fly:
  assumes "guards_keyed s" "guards_grow (cache s) c"
    and "\<And>f' g. f = Some f' \<Longrightarrow> uses_guard f' g \<Longrightarrow> guards c (f_key f') = Some g"
  shows "guards_keyed (fly i f c s)"
  using assms by (auto simp: guards_keyed_def guards_grow_def fly_def split: if_splits)

lemma guards_keyed_fetched: "guards_keyed (s\<lparr>fetched := h\<rparr>) = guards_keyed s"
  by (simp add: guards_keyed_def)

lemma guards_keyed_cache: "guards_keyed s \<Longrightarrow> guards_grow (cache s) c \<Longrightarrow> guards_keyed (s\<lparr>cache := c\<rparr>)"
  by (auto simp: guards_keyed_def guards_grow_def)

lemma guards_keyed_step:
  assumes "cache_step False s t" "guards_keyed s"
  shows "guards_keyed t"
  using assms
proof (induction rule: cache_step.induct)
  case (served path key clk s r c)
  then show ?case using first_look_same same_guards_grow by (blast intro: guards_keyed_cache)
next
  case (served_stale path key clk s r c i)
  then show ?case
    using first_look_same same_guards_grow by (intro guards_keyed_fly) (auto simp: uses_guard_def holds_guard_def)
next
  case (queues path key clk s c i g c')
  then have "guards_grow (cache s) c'"
    using first_look_same same_guards_grow get_guard_grow guards_grow_trans by blast
  with queues show ?case
    using get_guard_grow by (intro guards_keyed_fly) (auto simp: uses_guard_def holds_guard_def)
next
  case (follows s i f g clk r c)
  then show ?case using second_look_same same_guards_grow by (intro guards_keyed_fly) auto
next
  case (leads s i f g clk c)
  then have "guards (cache s) (f_key f) = Some g" by (simp add: guards_keyed_def uses_guard_def)
  moreover have "guards_grow (cache s) c" using leads second_look_same same_guards_grow by blast
  ultimately show ?case
    using leads by (intro guards_keyed_fly) (auto simp: uses_guard_def holds_guard_def guards_grow_def count_miss_def)
next
  case (replied s i f g now u r c)
  then show ?case
    using same_guards_grow [OF store_reply_guards]
    by (simp only: guards_keyed_fetched) (rule guards_keyed_fly, auto)
next
  case (refreshes s i f g c)
  then show ?case
    using get_guard_grow by (intro guards_keyed_fly) (auto simp: uses_guard_def holds_guard_def)
next
  case (skips s i f g c)
  then show ?case using get_guard_grow by (intro guards_keyed_fly) auto
next
  case (refreshed s i f g now u)
  then show ?case
    using same_guards_grow [OF store_refresh_guards]
    by (simp only: guards_keyed_fetched) (rule guards_keyed_fly, auto)
next
  case (leaves s i f g)
  then show ?case by (intro guards_keyed_fly) auto
next
  case (aborts s i f g)
  then show ?case by (intro guards_keyed_fly) auto
next
  case (evicts s key)
  then show ?case by (intro guards_keyed_cache) (simp_all add: guards_grow_def)
next
  case (evicts_error s key)
  then show ?case by (intro guards_keyed_cache) (simp_all add: guards_grow_def)
next
  case (clears s)
  then show ?case by (intro guards_keyed_cache) (simp_all add: guards_grow_def invalidate_all_def)
qed simp

lemma guards_keyed_reachable: "cache_reachable False s \<Longrightarrow> guards_keyed s"
proof (induction rule: cache_reachable.induct)
  case cold
  then show ?case by (simp add: guards_keyed_def)
qed (rule guards_keyed_step)

text \<open>
  C30. No stampede: at any moment at most one request or background refresh is asking the routes
  for a key, however many clients want it, as long as the key's mutex is not dropped from its
  cache (which happens a minute after it was made, or when ten thousand keys are in use).
\<close>

theorem one_fetch_per_key:
  assumes "cache_reachable False s" "flights s i = Some f" "flights s j = Some f'"
    and "f_key f = f_key f'" "holds_guard f g" "holds_guard f' g'"
  shows "i = j"
proof -
  have "g = g'" using guards_keyed_reachable [OF assms(1)] assms unfolding guards_keyed_def uses_guard_def
    by (metis option.inject)
  then show ?thesis
    using guards_held_reachable [OF assms(1)] assms unfolding guards_held_def by blast
qed

lemma step_to: "cache_step forget s t \<Longrightarrow> P t \<Longrightarrow> \<exists>t. cache_step forget s t \<and> P t"
  by blast

text \<open>
  C12. Nobody waits for ever: a request that waits for a mutex finds it free, in which case it is
  answered or becomes the one that asks the routes, or the mutex is held by a request or refresh
  that is asking the routes, and then it is free as soon as that one has its reply, whatever the
  reply is. This holds whether or not mutexes are dropped, and if clients go away.
\<close>

theorem nobody_waits_for_ever:
  assumes "cache_reachable forget s" "flights s i = Some f" "f_phase f = Queued g"
  shows "(g \<notin> held_guards (cache s) \<and>
      (\<exists>t. cache_step forget s t \<and> (flights t i = None \<or> flights t i = Some (f\<lparr>f_phase := Fetching g\<rparr>)) \<and>
         fetched t = fetched s)) \<or>
    (\<exists>j f'. flights s j = Some f' \<and> holds_guard f' g \<and>
      (\<forall>now u. \<exists>t. cache_step forget s t \<and> flights t j = None \<and> g \<notin> held_guards (cache t) \<and>
         flights t i = Some f \<and> fetched t = fetched s @ [(f_key f', now, u)]))"
proof (cases "g \<in> held_guards (cache s)")
  case False
  obtain l c where look: "second_look (f_path f) (f_key f) (\<lambda>_. 0) (cache s) = (l, c)" by fastforce
  have "\<exists>t. cache_step forget s t \<and> (flights t i = None \<or> flights t i = Some (f\<lparr>f_phase := Fetching g\<rparr>)) \<and>
      fetched t = fetched s"
  proof (cases l)
    case (Serve r)
    from follows [OF assms(2,3) False look [unfolded Serve]] show ?thesis
      by (rule step_to) (simp add: fly_def)
  next
    case (ServeAndRefresh r)
    with look show ?thesis by (auto simp: second_look_def look_negative_def split: option.splits if_splits)
  next
    case Miss
    from leads [OF assms(2,3) False look [unfolded Miss]] show ?thesis
      by (rule step_to) (simp add: fly_def)
  qed
  with False show ?thesis by blast
next
  case True
  then obtain j f' where j: "flights s j = Some f'" "holds_guard f' g"
    using guards_held_reachable [OF assms(1)] unfolding guards_held_def by blast
  then have ji: "j \<noteq> i" using assms(2,3) by (auto simp: holds_guard_def)
  have "\<exists>t. cache_step forget s t \<and> flights t j = None \<and> g \<notin> held_guards (cache t) \<and>
         flights t i = Some f \<and> fetched t = fetched s @ [(f_key f', now, u)]" for now u
  proof (cases "f_phase f' = Fetching g")
    case True
    obtain r c where "store_reply (f_key f') now u (cache s) = (r, c)" by fastforce
    from replied [OF j(1) True this] show ?thesis
      by (rule step_to) (use ji assms(2) in \<open>simp add: fly_def release_guard_def\<close>)
  next
    case False
    with j(2) have "f_phase f' = Refreshing g" by (simp add: holds_guard_def)
    from refreshed [OF j(1) this] show ?thesis
      by (rule step_to) (use ji assms(2) in \<open>simp add: fly_def release_guard_def\<close>)
  qed
  with j show ?thesis by blast
qed

text \<open>
  What the first request fetches, all that waited for it get: after a 200 that fits into the
  cache, or an error worth remembering when the cache has no entry, the second look of a waiting
  request finds the same status, headers and body, differing only in the X-Cache mark.
\<close>

lemma waiting_requests_share_the_answer:
  assumes "collect_parts u = Inr (st, hs, body)" "\<not> body_too_big u" "store_reply key now u c = (r, c')"
    and "u_status u = 200 \<and> clk 0 - now < int (fresh_secs path + stale_secs path) \<or>
         entries c key = None \<and> negative_ttl (u_status u) = Some ttl \<and> clk 2 < now + int ttl"
  shows "r = build_response st hs body ''MISS'' \<and>
    (\<exists>lbl. fst (second_look path key clk c') = Serve (build_response st hs body lbl))"
proof -
  have st: "st = u_status u" using assms(1) by (rule collect_status)
  from assms(4) show ?thesis
  proof
    assume ok: "u_status u = 200 \<and> clk 0 - now < int (fresh_secs path + stale_secs path)"
    then have "r = build_response st hs body ''MISS''"
        "entries c' key = Some \<lparr>c_status = st, c_headers = hs, c_body = body, fetched_at = now\<rparr>"
      using assms(1-3) st by (auto simp: store_reply_def)
    with ok show ?thesis by (auto simp: second_look_def freshness_of_def serve_hit_def)
  next
    assume err: "entries c key = None \<and> negative_ttl (u_status u) = Some ttl \<and> clk 2 < now + int ttl"
    then have "u_status u \<noteq> 200" using ttl_pos by blast
    with err have "r = build_response st hs body ''MISS''" "entries c' key = None"
        "negatives c' key = Some \<lparr>n_status = st, n_headers = hs, n_body = body, expires_at = now + int ttl\<rparr>"
      using assms(1-3) st by (auto simp: store_reply_def)
    with err show ?thesis by (auto simp: second_look_def look_negative_def serve_negative_def)
  qed
qed

section \<open>Witnesses\<close>

text \<open>An encoder that is one to one: every character behind a percent sign.\<close>

definition quoted :: "string \<Rightarrow> string" where
  "quoted s = concat (map (\<lambda>c. [CHR ''%'', c]) s)"

definition quoted_pairs :: "(string \<times> string) list \<Rightarrow> string" where
  "quoted_pairs ps = concat (map (\<lambda>(k, v). quoted k @ ''='' @ quoted v @ ''&'') ps)"

lemma quoted_cancel:
  "x \<noteq> CHR ''%'' \<Longrightarrow> quoted s @ x # r = quoted s' @ x # r' \<longleftrightarrow> s = s' \<and> r = r'"
proof (induction s arbitrary: s')
  case Nil
  then show ?case by (cases s') (auto simp: quoted_def)
next
  case (Cons c s)
  then show ?case by (cases s') (auto simp: quoted_def)
qed

lemma quoted_pairs_inj: "quoted_pairs ps = quoted_pairs qs \<longleftrightarrow> ps = qs"
proof (induction ps arbitrary: qs)
  case Nil
  then show ?case by (cases qs) (auto simp: quoted_pairs_def)
next
  case (Cons p ps)
  show ?case
  proof (cases qs)
    case (Cons q qs')
    obtain k v k' v' where pq: "p = (k, v)" "q = (k', v')" by (metis prod.exhaust)
    have "quoted_pairs (p # ps) = quoted k @ CHR ''='' # (quoted v @ CHR ''&'' # quoted_pairs ps)"
        "quoted_pairs (q # qs') = quoted k' @ CHR ''='' # (quoted v' @ CHR ''&'' # quoted_pairs qs')"
      by (simp_all add: quoted_pairs_def pq)
    with Cons Cons.IH show ?thesis by (simp add: quoted_cancel pq)
  qed (auto simp: quoted_pairs_def split: prod.splits)
qed

theorem key_identifies_request_witness:
  "cache_key (\<lambda>s. map (\<lambda>c. ([c], [c])) s) quoted_pairs ''/search/'' (Some ''ba'') =
   cache_key (\<lambda>s. map (\<lambda>c. ([c], [c])) s) quoted_pairs ''/search/'' (Some ''ab'')"
  using key_identifies_request [of quoted_pairs "map (\<lambda>c. ([c], [c]))" "''/search/''" "''/search/''" "''ba''" "''ab''"]
  by (simp add: inj_def quoted_pairs_inj add_mset_commute) (simp add: quoted_pairs_def)

definition demo_reply :: upstream_reply where
  "demo_reply = \<lparr>u_status = 200, u_headers = [(''content-type'', Some ''application/json'')], u_chunks = [Some ''{'', Some ''}'']\<rparr>"

definition demo_path :: string where "demo_path = ''/album/''"

definition demo_entry_key :: string where "demo_entry_key = ''/album/?id=1''"

definition demo_flight :: "phase \<Rightarrow> flight" where
  "demo_flight p = \<lparr>f_path = demo_path, f_key = demo_entry_key, f_phase = p\<rparr>"

definition cold_run :: cache_run where
  "cold_run = \<lparr>cache = response_cache_new, flights = (\<lambda>_. None), fetched = []\<rparr>"

definition guarded_cache :: response_cache where
  "guarded_cache = response_cache_new\<lparr>guards := [demo_entry_key \<mapsto> 0], next_guard := 1\<rparr>"

text \<open>Two clients ask for one album, the first of them asks the routes.\<close>

definition queued_run :: cache_run where
  "queued_run = fly 2 (Some (demo_flight (Queued 0))) guarded_cache
     (fly 1 (Some (demo_flight (Queued 0))) guarded_cache cold_run)"

definition asking_run :: cache_run where
  "asking_run = fly 1 (Some (demo_flight (Fetching 0))) ((count_miss guarded_cache)\<lparr>held_guards := insert 0 {}\<rparr>) queued_run"

lemma look_nothing:
  "entries c key = None \<Longrightarrow> negatives c key = None \<Longrightarrow> first_look path key clk c = (Miss, c)"
  "entries c key = None \<Longrightarrow> negatives c key = None \<Longrightarrow> second_look path key clk c = (Miss, c)"
  by (simp_all add: first_look_def second_look_def look_negative_def)

lemma queued_run_reachable: "cache_reachable forget queued_run"
proof -
  have cold: "cache_reachable forget cold_run" unfolding cold_run_def by (rule cache_reachable.cold)
  have g: "get_guard demo_entry_key response_cache_new = (0, guarded_cache)" "get_guard demo_entry_key guarded_cache = (0, guarded_cache)"
    by (simp_all add: get_guard_def guarded_cache_def response_cache_new_def)
  let ?one = "fly 1 (Some (demo_flight (Queued 0))) guarded_cache cold_run"
  have "first_look demo_path demo_entry_key (\<lambda>_. 0) (cache cold_run) = (Miss, response_cache_new)"
      "first_look demo_path demo_entry_key (\<lambda>_. 0) (cache ?one) = (Miss, guarded_cache)"
    by (simp_all add: cold_run_def fly_def guarded_cache_def response_cache_new_def look_nothing(1))
  note look = this
  have "cache_step forget cold_run ?one"
    unfolding demo_flight_def by (rule queues [OF look(1) _ g(1)]) (simp add: cold_run_def)
  moreover have "cache_step forget ?one queued_run"
    unfolding queued_run_def
    using queues [OF look(2) _ g(2), of 2 forget] by (simp add: demo_flight_def cold_run_def fly_def)
  ultimately show ?thesis using cold cache_reachable.step by blast
qed

lemma asking_run_reachable: "cache_reachable forget asking_run"
proof -
  have "cache_step forget queued_run
      (fly 1 (Some (demo_flight (Queued 0)\<lparr>f_phase := Fetching 0\<rparr>)) ((count_miss guarded_cache)\<lparr>held_guards := insert 0 {}\<rparr>) queued_run)"
    using leads [where s = queued_run and i = 1 and f = "demo_flight (Queued 0)" and g = 0 and c = guarded_cache
        and clk = "\<lambda>_. 0" and forget = forget]
    by (simp add: queued_run_def fly_def demo_flight_def guarded_cache_def response_cache_new_def
        look_nothing(2) count_miss_def)
  then have "cache_step forget queued_run asking_run" by (simp add: asking_run_def demo_flight_def)
  then show ?thesis using queued_run_reachable cache_reachable.step by blast
qed

definition answered_run :: cache_run where
  "answered_run = (fly 1 None (release_guard 0 (snd (store_reply demo_entry_key 100 demo_reply (cache asking_run)))) asking_run)
     \<lparr>fetched := [(demo_entry_key, 100, demo_reply)]\<rparr>"

lemma answered_run_reachable: "cache_reachable forget answered_run"
proof -
  have "cache_step forget asking_run answered_run"
    using replied [where s = asking_run and i = 1 and f = "demo_flight (Fetching 0)" and g = 0 and now = 100
        and u = demo_reply and forget = forget and r = "fst (store_reply demo_entry_key 100 demo_reply (cache asking_run))"]
    by (simp add: answered_run_def asking_run_def queued_run_def cold_run_def fly_def demo_flight_def)
  then show ?thesis using asking_run_reachable cache_reachable.step by blast
qed

theorem cache_serves_genuine_answers_witness:
  "\<exists>r c. first_look demo_path demo_entry_key (\<lambda>_. 200) (cache answered_run) = (Serve r, c) \<and>
     served_from (fetched answered_run) demo_path demo_entry_key (\<lambda>_. 200) r"
proof -
  have "entries (cache answered_run) demo_entry_key = Some \<lparr>c_status = 200, c_headers = [(''content-type'', ''application/json'')],
      c_body = ''{}'', fetched_at = 100\<rparr>"
    by (simp add: answered_run_def fly_def release_guard_def store_reply_def demo_reply_def body_too_big_def
        collect_parts_def MAX_BODY_BYTES_def text_headers_def List.map_filter_def)
  then obtain r c where l: "first_look demo_path demo_entry_key (\<lambda>_. 200) (cache answered_run) = (Serve r, c)"
    by (simp add: first_look_def freshness_of_def fresh_secs_def demo_path_def starts_with_def MAX_FRESH_SECS_def HOUR_SECS_def)
  with cache_serves_genuine_answers [OF answered_run_reachable disjI1 [OF l]] show ?thesis by blast
qed

theorem one_fetch_per_key_witness:
  "{j. \<exists>f. flights asking_run j = Some f \<and> f_key f = demo_entry_key \<and> holds_guard f 0} = {1}"
proof -
  have one: "flights asking_run 1 = Some (demo_flight (Fetching 0))" "holds_guard (demo_flight (Fetching 0)) 0"
      "f_key (demo_flight (Fetching 0)) = demo_entry_key"
    by (simp_all add: asking_run_def fly_def demo_flight_def holds_guard_def)
  then show ?thesis
    using one_fetch_per_key [OF asking_run_reachable _ one(1) _ _ one(2)] by fastforce
qed

theorem nobody_waits_for_ever_witness:
  "\<exists>j f'. flights asking_run j = Some f' \<and> holds_guard f' 0 \<and>
     (\<exists>t. cache_step True asking_run t \<and> flights t j = None \<and> 0 \<notin> held_guards (cache t) \<and>
        flights t 2 = Some (demo_flight (Queued 0)))"
proof -
  have "flights asking_run 2 = Some (demo_flight (Queued 0))" "f_phase (demo_flight (Queued 0)) = Queued 0"
      "0 \<in> held_guards (cache asking_run)"
    by (simp_all add: asking_run_def queued_run_def fly_def demo_flight_def)
  with nobody_waits_for_ever [OF asking_run_reachable, of 2 "demo_flight (Queued 0)" 0 True] show ?thesis by blast
qed

theorem waiting_requests_share_the_answer_witness:
  "\<exists>lbl. fst (second_look demo_path demo_entry_key (\<lambda>_. 200) (snd (store_reply demo_entry_key 100 demo_reply guarded_cache))) =
     Serve (build_response 200 [(''content-type'', ''application/json'')] ''{}'' lbl)"
  using waiting_requests_share_the_answer [of demo_reply 200 "[(''content-type'', ''application/json'')]" "''{}''" demo_entry_key 100
      guarded_cache "fst (store_reply demo_entry_key 100 demo_reply guarded_cache)"
      "snd (store_reply demo_entry_key 100 demo_reply guarded_cache)" "\<lambda>_. 200" demo_path 0]
  by (simp add: demo_reply_def collect_parts_def MAX_BODY_BYTES_def text_headers_def List.map_filter_def body_too_big_def
      fresh_secs_def stale_secs_def demo_path_def starts_with_def MAX_FRESH_SECS_def HOUR_SECS_def)

end
