(* ===== verification/Probe.thy ===== *)
theory Probe
  imports TidalProps
begin

text \<open>
  The requests of \<open>src/tidal_client.rs\<close> about one account: the FULL/PREVIEW probe
  (\<open>probe_account_premium\<close>), the subscription lookup (\<open>account_subscription\<close>) and
  \<open>make_authed_request\<close>.

  A run takes what comes from outside from a record, indexed by the request of the run (the track,
  or the session and the subscription) and the attempt. A reply is late (the 20-second limit), lost, or
  has a status, the \<open>Retry-After\<close> text, what \<open>response.json()\<close> makes of the body and the body's
  text. The last component of a result before the manager lists the replies.
\<close>

section \<open>Replies\<close>

datatype probe_reply =
    Late
  | Lost send_error
  | Got nat "string option" "json option" string

record probe_world =
  auth :: auth_world
  reauth :: "nat \<Rightarrow> auth_world"
  no_egress :: "string option"
  egress_lost :: "nat \<Rightarrow> nat \<Rightarrow> bool"
  asked_at :: "nat \<Rightarrow> nat \<Rightarrow> int"
  answered_ms :: "nat \<Rightarrow> nat \<Rightarrow> int"
  probe_replies :: "nat \<Rightarrow> nat \<Rightarrow> probe_reply"

text \<open>What a reply tells the proxy manager.\<close>

fun note_egress :: "probe_reply \<Rightarrow> nat \<Rightarrow> manager \<Rightarrow> manager" where
  "note_egress Late x m = emit (ProxyFailed (acc_id (heap m x))) m"
| "note_egress (Lost e) x m =
     (if is_connect e \<or> is_timeout e then emit (ProxyFailed (acc_id (heap m x))) m else m)"
| "note_egress (Got s retry_after body txt) x m = emit (ProxyAnswered (acc_id (heap m x))) m"

text \<open>A 429: the pause it asks for, and the account's error count.\<close>

definition note_429 :: "auth_world \<Rightarrow> int \<Rightarrow> string option \<Rightarrow> nat \<Rightarrow> manager \<Rightarrow> nat \<times> manager" where
  "note_429 w now_ms retry_after x m =
     (let (seconds, a) = pause_account (dates w) (secs now_ms) retry_after (heap m x)
      in (seconds, mark_account_error (acc_id a) now_ms (at_addr x (\<lambda>_. a) m)))"

section \<open>The FULL/PREVIEW probe\<close>

definition PROBE_TRACK_IDS :: "int list" where
  "PROBE_TRACK_IDS = [427520487, 39249713, 58990511, 144371283]"

datatype probe_end =
    Verdict string string
  | Previewed string

definition RATE_LIMITED :: probe_end where
  "RATE_LIMITED = Verdict ''unknown'' ''Account is rate limited''"

definition NO_EGRESS :: probe_end where
  "NO_EGRESS = Verdict ''unknown'' ''No working egress for this account''"

definition probe_200 :: "json option \<Rightarrow> string \<Rightarrow> probe_end" where
  "probe_200 body token =
     (case body of
        None \<Rightarrow> Verdict ''unknown'' ''Invalid playback response''
      | Some v \<Rightarrow>
          if jget_str ''assetPresentation'' v = Some ''FULL'' then Verdict ''premium'' []
          else if jget_str ''assetPresentation'' v = Some ''PREVIEW'' then Previewed token
          else Verdict ''unknown'' ''Playback response has no clear presentation'')"

text \<open>One track; \<open>retried\<close> says that a 401 was already answered by a token refresh.\<close>

function probe_track ::
    "probe_world \<Rightarrow> nat \<Rightarrow> nat \<Rightarrow> bool \<Rightarrow> string \<Rightarrow> (nat \<times> probe_reply) list \<Rightarrow> manager \<Rightarrow>
     probe_end \<times> (nat \<times> probe_reply) list \<times> manager" where
  "probe_track w i x retried token tr m =
     (let k = (if retried then 1 else 0)
      in if rate_limit_remaining (asked_at w i k) (heap m x) \<noteq> None then (RATE_LIMITED, tr, m)
         else if egress_lost w i k then (NO_EGRESS, tr, m)
         else
           (let m1 = note_egress (probe_replies w i k) x m; tr1 = tr @ [(i, probe_replies w i k)];
                now_ms = answered_ms w i k
            in case probe_replies w i k of
                 Late \<Rightarrow> (Verdict ''unknown'' ''Network error reaching Tidal'', tr1, m1)
               | Lost e \<Rightarrow> (Verdict ''unknown'' ''Network error reaching Tidal'', tr1, m1)
               | Got s retry_after body txt \<Rightarrow>
                   if s = 200 then (probe_200 body token, tr1, m1)
                   else if s = 401 then
                     (if \<not> retried then
                        (case refresh_after_unauthorized (reauth w i) x token m1 of
                           (Inr fresh, m2) \<Rightarrow> probe_track w i x True fresh tr1 m2
                         | (Inl e, m2) \<Rightarrow>
                             (Verdict ''unknown'' ''Tidal returned 401 and token refresh failed'', tr1, m2))
                      else (Verdict ''unknown'' ''Tidal returned 401 after token refresh'', tr1,
                            reject_refreshed_token (jitter (reauth w i)) x token (secs now_ms) m1))
                   else if s = 403 then
                     (Verdict ''unknown'' ''Tidal returned 403; account may be restricted'', tr1, m1)
                   else if s = 429 then
                     (Verdict ''unknown'' ''Tidal throttled the probe'', tr1,
                      snd (note_429 (auth w) now_ms retry_after x m1))
                   else (Verdict ''unknown'' (''Tidal HTTP '' @ show_nat s), tr1, m1)))"
  by pat_completeness auto
termination
  by (relation "measure (\<lambda>(w, i, x, retried, token, tr, m). if retried then 0 else 1)") auto

declare probe_track.simps [simp del]

fun probe_tracks ::
    "probe_world \<Rightarrow> nat \<Rightarrow> int list \<Rightarrow> nat \<Rightarrow> nat \<Rightarrow> string \<Rightarrow> (nat \<times> probe_reply) list \<Rightarrow> manager \<Rightarrow>
     (string \<times> string) \<times> (nat \<times> probe_reply) list \<times> manager" where
  "probe_tracks w x [] i previews token tr m =
     ((if previews = length PROBE_TRACK_IDS then (''preview-only'', ''All probe tracks returned PREVIEW'')
       else (''unknown'', ''Probe did not get a conclusive response'')), tr, m)"
| "probe_tracks w x (t # ts) i previews token tr m =
     (case probe_track w i x False token tr m of
        (Verdict s why, tr1, m1) \<Rightarrow> ((s, why), tr1, m1)
      | (Previewed token1, tr1, m1) \<Rightarrow> probe_tracks w x ts (Suc i) (previews + 1) token1 tr1 m1)"

definition probe_account_premium ::
    "probe_world \<Rightarrow> nat \<Rightarrow> manager \<Rightarrow> (string \<times> string) \<times> (nat \<times> probe_reply) list \<times> manager" where
  "probe_account_premium w x m =
     (if rate_limit_remaining (starts_at (auth w)) (heap m x) \<noteq> None
      then ((''unknown'', ''Account is rate limited''), [], m)
      else if no_egress w \<noteq> None then ((''unknown'', ''No working egress for this account''), [], m)
      else (case get_token (auth w) x m of
              (Inl e, m1) \<Rightarrow> ((''error'', ''Token unavailable''), [], m1)
            | (Inr token, m1) \<Rightarrow> probe_tracks w x PROBE_TRACK_IDS 0 0 token [] m1))"

section \<open>The subscription\<close>

text \<open>Each request with its path and the country it names (empty without one).\<close>

type_synonym subscription_trace = "((string \<times> string) \<times> probe_reply) list"

function subscription_get ::
    "probe_world \<Rightarrow> nat \<Rightarrow> string \<times> string \<Rightarrow> nat \<Rightarrow> bool \<Rightarrow> string \<Rightarrow> subscription_trace \<Rightarrow> manager \<Rightarrow>
     (app_error + json) \<times> string \<times> subscription_trace \<times> manager" where
  "subscription_get w i url x retried token tr m =
     (let k = (if retried then 1 else 0)
      in case rate_limit_remaining (asked_at w i k) (heap m x) of
           Some seconds \<Rightarrow> (Inl (RateLimited seconds), token, tr, m)
         | None \<Rightarrow>
             (let m1 = note_egress (probe_replies w i k) x m; tr1 = tr @ [(url, probe_replies w i k)];
                  now_ms = answered_ms w i k
              in case probe_replies w i k of
                   Late \<Rightarrow> (Inl Timeout, token, tr1, m1)
                 | Lost e \<Rightarrow> (Inl (BadGateway (''Network error reaching Tidal: '' @ err_text e)), token, tr1, m1)
                 | Got s retry_after body txt \<Rightarrow>
                     if s = 200 then
                       ((case body of Some v \<Rightarrow> Inr v
                         | None \<Rightarrow> Inl (UpstreamError 502 ''Invalid subscription response from Tidal'')), token, tr1, m1)
                     else if s = 401 \<and> \<not> retried then
                       (case refresh_after_unauthorized (reauth w i) x token m1 of
                          (Inr fresh, m2) \<Rightarrow> subscription_get w i url x True fresh tr1 m2
                        | (Inl e, m2) \<Rightarrow> (Inl e, token, tr1, m2))
                     else if s = 429 then
                       (let (seconds, m2) = note_429 (auth w) now_ms retry_after x m1
                        in (Inl (RateLimited seconds), token, tr1, m2))
                     else
                       (Inl (UpstreamError 502 (''Tidal HTTP '' @ show_nat s @ '': '' @ take 200 txt)), token, tr1,
                        if s = 401 then reject_refreshed_token (jitter (reauth w i)) x token (secs now_ms) m1 else m1)))"
  by pat_completeness auto
termination
  by (relation "measure (\<lambda>(w, i, url, x, retried, token, tr, m). if retried then 0 else 1)") auto

declare subscription_get.simps [simp del]

text \<open>\<open>fl\<close> is the text of a number that is not an integer.\<close>

fun user_of :: "string \<Rightarrow> json option \<Rightarrow> string option" where
  "user_of fl (Some (JInt i)) = Some (show_int i)"
| "user_of fl (Some JFloat) = Some fl"
| "user_of fl (Some (JStr s)) = Some s"
| "user_of fl v = None"

definition known_user :: "account \<Rightarrow> string option" where
  "known_user a =
     (case user_id a of None \<Rightarrow> None
      | Some i \<Rightarrow> if i \<noteq> [] \<and> list_all is_ascii_digit i then Some i else None)"

definition subscription_answer :: "string \<Rightarrow> json \<Rightarrow> json" where
  "subscription_answer uid body = JObj [(''user_id'', JStr uid), (''subscription'', body)]"

text \<open>The second request, for a known user.\<close>

definition subscription_of ::
    "probe_world \<Rightarrow> string \<Rightarrow> string \<Rightarrow> nat \<Rightarrow> string \<Rightarrow> subscription_trace \<Rightarrow> manager \<Rightarrow>
     (app_error + json) \<times> subscription_trace \<times> manager" where
  "subscription_of w uid country x token tr m =
     (case subscription_get w 1 (''/users/'' @ uid @ ''/subscription'', country) x False token tr m of
        (Inl e, _, tr1, m1) \<Rightarrow> (Inl e, tr1, m1)
      | (Inr body, _, tr1, m1) \<Rightarrow> (Inr (subscription_answer uid body), tr1, m1))"

definition account_subscription ::
    "probe_world \<Rightarrow> string \<Rightarrow> string \<Rightarrow> nat \<Rightarrow> manager \<Rightarrow>
     (app_error + json) \<times> subscription_trace \<times> manager" where
  "account_subscription w fl configured x m =
     (case no_egress w of
        Some e \<Rightarrow> (Inl (ServiceUnavailable e), [], m)
      | None \<Rightarrow>
          (case get_token (auth w) x m of
             (Inl e, m1) \<Rightarrow> (Inl e, [], m1)
           | (Inr token, m1) \<Rightarrow>
               (case (known_user (heap m1 x), country_code (heap m1 x)) of
                  (Some uid, Some c) \<Rightarrow> subscription_of w uid c x token [] m1
                | _ \<Rightarrow>
                    (case subscription_get w 0 (''/sessions'', []) x False token [] m1 of
                       (Inl e, _, tr, m2) \<Rightarrow> (Inl e, tr, m2)
                     | (Inr session, token, tr, m2) \<Rightarrow>
                         (case user_of fl (jget ''userId'' session) of
                            None \<Rightarrow> (Inl (UpstreamError 502 ''Tidal session has no user id''), tr, m2)
                          | Some uid \<Rightarrow>
                              (let m3 = at_addr x (set_country (jget_str ''countryCode'' session)) m2
                               in subscription_of w uid (unwrap_or (country_code (heap m3 x)) configured)
                                    x token tr m3))))))"

section \<open>A request with a token of its own\<close>

text \<open>
  \<open>make_authed_request\<close> names its account by id, which need not exist (any more); the id is
  reported to the proxy manager either way.
\<close>

definition make_authed_request ::
    "auth_world \<Rightarrow> string \<Rightarrow> string option \<Rightarrow> int \<Rightarrow> int \<Rightarrow> api_reply \<Rightarrow> manager \<Rightarrow>
     (app_error + json) \<times> manager" where
  "make_authed_request w i egress sent_at now_ms rep m =
     (let account = get_account_by_id i m
      in case Option.bind account (\<lambda>x. rate_limit_remaining sent_at (heap m x)) of
           Some seconds \<Rightarrow> (Inl (RateLimited seconds), m)
         | None \<Rightarrow>
             (case egress of
                Some e \<Rightarrow> (Inl (ServiceUnavailable e), m)
              | None \<Rightarrow>
                  (case rep of
                     NoReply e \<Rightarrow>
                       (Inl (of_send_error (status_text w) e),
                        if is_connect e \<or> is_timeout e then emit (ProxyFailed i) m else m)
                   | Reply s retry_after body \<Rightarrow>
                       (let m1 = emit (ProxyAnswered i) m
                        in if s = 429 then
                             (let (seconds, m2) =
                                (case account of
                                   Some x \<Rightarrow>
                                     (let (seconds, a) = pause_account (dates w) (secs now_ms) retry_after (heap m1 x)
                                      in (seconds, at_addr x (\<lambda>_. a) m1))
                                 | None \<Rightarrow> (retry_after_secs (dates w) (secs now_ms) retry_after, m1))
                              in (Inl (RateLimited seconds), mark_account_error i now_ms m2))
                           else if \<not> is_success s then (Inl (UpstreamError s UPSTREAM_ERROR), m1)
                           else (read_json (status_text w) s body, m1)))))"

end
