(* ===== verification/AutoHeal.thy ===== *)
theory AutoHeal
  imports Probe "HOL-Library.Word"
begin

unbundle bit_operations_syntax

text \<open>
  \<open>src/autoheal.rs\<close>: what the maintenance task does with one account on each of its passes, and the
  subscription checks it shares with the panel (with \<open>store_subscription\<close> and
  \<open>store_subscription_error\<close> of \<open>src/account_manager.rs\<close>).

  Up to four accounts are worked on at a time and the owner, the requests and the token calls go
  on meanwhile: \<open>others k\<close> is what the rest of the program does to the manager at the \<open>k\<close>-th point
  where the task waits. A token call, a probe and a lookup are each one step. Dates are parsed by
  \<open>until_of\<close> (chrono): the time, and its two printed forms. Saving to SQLite only logs a failure
  here and is left out of \<open>store_subscription\<close>; the writes whose outcome matters are in \<open>dbs\<close>.
\<close>

section \<open>When a check is due\<close>

definition FULL_CHECK_INTERVAL_SECS :: int where "FULL_CHECK_INTERVAL_SECS = 60 * 60"

definition FULL_CHECK_INITIAL_SPREAD_SECS :: int where "FULL_CHECK_INITIAL_SPREAD_SECS = 5 * 60"

definition FULL_CHECK_REPEAT_SPREAD_SECS :: int where "FULL_CHECK_REPEAT_SPREAD_SECS = 15 * 60"

definition SUBSCRIPTION_CHECK_INTERVAL_SECS :: int where "SUBSCRIPTION_CHECK_INTERVAL_SECS = 24 * 60 * 60"

definition SUBSCRIPTION_INITIAL_SPREAD_SECS :: int where "SUBSCRIPTION_INITIAL_SPREAD_SECS = 10 * 60"

definition SUBSCRIPTION_REPEAT_SPREAD_SECS :: int where "SUBSCRIPTION_REPEAT_SPREAD_SECS = 60 * 60"

definition SUBSCRIPTION_RETRY_SECS :: int where "SUBSCRIPTION_RETRY_SECS = 60 * 60"

definition SUBSCRIPTION_AFTER_REFRESH_SECS :: int where "SUBSCRIPTION_AFTER_REFRESH_SECS = 60 * 60"

definition SUBSCRIPTION_WARN_SECS :: int where "SUBSCRIPTION_WARN_SECS = 3 * 24 * 60 * 60"

text \<open>FNV-1 over the bytes of the id, in 64 bits.\<close>

definition spread_hash :: "string \<Rightarrow> 64 word" where
  "spread_hash i = fold (\<lambda>c h. (h * 0x100000001b3) XOR of_nat (of_char c)) i 0xcbf29ce484222325"

definition account_spread_secs :: "string \<Rightarrow> int \<Rightarrow> int" where
  "account_spread_secs i window = uint (spread_hash i) mod max window 1"

definition out_of_checks :: "int \<Rightarrow> account \<Rightarrow> bool" where
  "out_of_checks clk a \<longleftrightarrow> \<not> is_active a \<or> is_catalog a \<or> rate_limit_remaining clk a \<noteq> None"

definition full_check_due :: "int \<Rightarrow> account \<Rightarrow> int \<Rightarrow> int \<Rightarrow> bool" where
  "full_check_due clk a now started =
     (if out_of_checks clk a then False
      else (let checked_at = premium_checked_at a;
                due_at = (if checked_at > 0
                  then checked_at + FULL_CHECK_INTERVAL_SECS
                       + account_spread_secs (acc_id a) FULL_CHECK_REPEAT_SPREAD_SECS
                  else started + account_spread_secs (acc_id a) FULL_CHECK_INITIAL_SPREAD_SECS)
            in now \<ge> due_at))"

definition subscription_check_due :: "int \<Rightarrow> account \<Rightarrow> int \<Rightarrow> int \<Rightarrow> bool" where
  "subscription_check_due clk a now started =
     (if out_of_checks clk a then False
      else (let checked_at = subscription_checked_at a; failed_at = subscription_error_at a;
                due_at = (if failed_at > 0 then failed_at + SUBSCRIPTION_RETRY_SECS
                  else if checked_at > 0
                  then checked_at + SUBSCRIPTION_CHECK_INTERVAL_SECS
                       + account_spread_secs (acc_id a) SUBSCRIPTION_REPEAT_SPREAD_SECS
                  else started + account_spread_secs (acc_id a) SUBSCRIPTION_INITIAL_SPREAD_SECS)
            in now \<ge> due_at))"

section \<open>What a subscription answer means\<close>

definition subscription_problem ::
    "(string \<Rightarrow> (int \<times> string \<times> string) option) \<Rightarrow> json \<Rightarrow> int \<Rightarrow> string option" where
  "subscription_problem until_of v now =
     (if jget_bool ''paymentOverdue'' v = Some True then Some ''Payment is overdue.''
      else if jget_bool ''premiumAccess'' v = Some False then Some ''Tidal reports no premium access.''
      else (case Option.bind (jget_str ''validUntil'' v) until_of of
              None \<Rightarrow> None
            | Some (until, day, minute) \<Rightarrow>
                (let left = until - now
                 in if left \<le> 0 then Some (''Subscription ended on '' @ day @ ''.'')
                    else if left \<le> SUBSCRIPTION_WARN_SECS
                    then Some (''Subscription ends on '' @ minute @ '' (in '' @ show_int (left div 3600) @ '' h).'')
                    else None)))"

definition plan_name :: "json \<Rightarrow> string option" where
  "plan_name v =
     (case Option.bind (jget ''subscription'' v) (jget_str ''type'') of
        Some p \<Rightarrow> Some p
      | None \<Rightarrow> jget_str ''type'' v)"

definition subscription_is_free :: "json \<Rightarrow> bool" where
  "subscription_is_free v \<longleftrightarrow>
     jget_bool ''premiumAccess'' v \<noteq> Some True \<and>
     (case plan_name v of Some p \<Rightarrow> map to_ascii_lower p = ''free'' | None \<Rightarrow> False)"

definition store_subscription :: "json \<Rightarrow> int \<Rightarrow> account \<Rightarrow> account" where
  "store_subscription v checked_at a = a\<lparr>subscription := Some v, subscription_error := None,
     subscription_error_at := 0, subscription_checked_at := checked_at\<rparr>"

definition store_subscription_error :: "string \<Rightarrow> int \<Rightarrow> account \<Rightarrow> account" where
  "store_subscription_error e failed_at a =
     a\<lparr>subscription_error := Some e, subscription_error_at := failed_at\<rparr>"

definition apply_subscription ::
    "(string \<Rightarrow> (int \<times> string \<times> string) option) \<Rightarrow> nat \<Rightarrow> json \<Rightarrow> int \<Rightarrow> int \<Rightarrow> db \<Rightarrow> manager \<Rightarrow> manager" where
  "apply_subscription until_of x v now written db m =
     (let m1 = at_addr x (store_subscription v now) m
      in if subscription_is_free v then
           (if is_catalog (heap m1 x) then m1
            else (case set_account_catalog (acc_id (heap m1 x)) True written db m1 of
                    (Inr _, m2) \<Rightarrow> emit (AlertFreePlan (label (heap m2 x))) m2
                  | (Inl e, m2) \<Rightarrow> m2))
         else (case subscription_problem until_of v now of
                 Some problem \<Rightarrow> emit (AlertSubscription (label (heap m1 x)) problem) m1
               | None \<Rightarrow> m1))"

section \<open>One account, one pass\<close>

record heal_world =
  observed :: int
  loop_started :: int
  off_after_hours :: nat
  limit_clock :: "nat \<Rightarrow> int"
  written_at :: "nat \<Rightarrow> int"
  dbs :: "nat \<Rightarrow> db"
  others :: "nat \<Rightarrow> manager \<Rightarrow> manager"
  renewal :: auth_world
  probing :: probe_world
  lookup :: probe_world
  lookup_at :: int
  home_country :: string
  number_text :: string
  dates_of :: "string \<Rightarrow> (int \<times> string \<times> string) option"

record heal_plan =
  refresh_due :: bool
  check_full :: bool
  check_subscription :: bool

definition ACCOUNT_SUSPENDED :: string where "ACCOUNT_SUSPENDED = ''abuse_detected''"

definition suspended_by :: "account \<Rightarrow> bool" where
  "suspended_by a \<longleftrightarrow>
     (case last_refresh_error a of Some e \<Rightarrow> is_substring ACCOUNT_SUSPENDED e | None \<Rightarrow> False)"

text \<open>\<open>active\<close> and \<open>auto\<close> were read when the pass began.\<close>

definition plan_of :: "heal_world \<Rightarrow> bool \<Rightarrow> bool \<Rightarrow> account \<Rightarrow> heal_plan" where
  "plan_of w active auto a =
     (let now = observed w; cooling_down = heal_next_retry a > now;
          limited = rate_limit_remaining (limit_clock w 0) a \<noteq> None
      in \<lparr>refresh_due = \<not> cooling_down \<and> \<not> limited \<and> (auto \<or> active \<and> needs_renewal (limit_clock w 1) a),
          check_full = \<not> cooling_down \<and> \<not> limited \<and> full_check_due (limit_clock w 2) a now (loop_started w),
          check_subscription = \<not> cooling_down \<and> \<not> limited
            \<and> subscription_check_due (limit_clock w 3) a now (loop_started w)\<rparr>)"

text \<open>The renewal; \<open>False\<close> ends the pass.\<close>

definition heal_refresh :: "heal_world \<Rightarrow> heal_plan \<Rightarrow> nat \<Rightarrow> manager \<Rightarrow> bool \<times> heal_plan \<times> manager" where
  "heal_refresh w p x m =
     (if \<not> refresh_due p then (True, p, m)
      else case renew_token (renewal w) x m of
        (Inl e, m1) \<Rightarrow> (False, p, m1)
      | (Inr t, m1) \<Rightarrow>
          (let m1 = others w 2 m1; a = heap m1 x;
               last_attempt = max (subscription_checked_at a) (subscription_error_at a);
               p1 = p\<lparr>check_subscription := check_subscription p
                 \<or> observed w - last_attempt \<ge> SUBSCRIPTION_AFTER_REFRESH_SECS \<and> \<not> is_catalog a\<rparr>
           in case set_system_disabled x False (written_at w 0) (dbs w 1) m1 of
                (Inr True, m2) \<Rightarrow>
                  (True, p1, emit (AlertHealed (label (heap m2 x)) (fst (healthy_count m2)) (snd (healthy_count m2))) m2)
              | (_, m2) \<Rightarrow> (True, p1, m2)))"

definition heal_probe :: "heal_world \<Rightarrow> heal_plan \<Rightarrow> nat \<Rightarrow> manager \<Rightarrow> manager" where
  "heal_probe w p x m =
     (if check_full p \<and> is_active (heap m x) \<and> rate_limit_remaining (limit_clock w 4) (heap m x) = None
      then (let ((st, why), tr, m1) = probe_account_premium (probing w) x m;
                m2 = set_premium (acc_id (heap m1 x)) st (written_at w 1) (others w 4 m1)
            in if st = ''preview-only''
               then (case note_preview_check x (written_at w 2) (dbs w 2) m2 of
                       (Inr True, m3) \<Rightarrow> emit (AlertCatalogOnly (label (heap m3 x))) m3
                     | (_, m3) \<Rightarrow> m3)
               else m2)
      else m)"

definition check_subscription_now :: "heal_world \<Rightarrow> nat \<Rightarrow> manager \<Rightarrow> manager" where
  "check_subscription_now w x m =
     (case account_subscription (lookup w) (number_text w) (home_country w) x m of
        (Inr v, tr, m1) \<Rightarrow>
          apply_subscription (dates_of w) x (unwrap_or (jget ''subscription'' v) JNull) (lookup_at w)
            (written_at w 3) (dbs w 3) (others w 6 m1)
      | (Inl e, tr, m1) \<Rightarrow>
          at_addr x (store_subscription_error (display (status_text (auth (lookup w))) e) (lookup_at w)) (others w 6 m1))"

definition heal_lookup :: "heal_world \<Rightarrow> heal_plan \<Rightarrow> nat \<Rightarrow> manager \<Rightarrow> manager" where
  "heal_lookup w p x m =
     (if check_subscription p \<and> is_active (heap m x) then check_subscription_now w x m else m)"

definition heal_checks :: "heal_world \<Rightarrow> heal_plan \<Rightarrow> nat \<Rightarrow> manager \<Rightarrow> manager" where
  "heal_checks w p x m =
     (case heal_refresh w p x (others w 1 m) of
        (False, p1, m1) \<Rightarrow> m1
      | (True, p1, m1) \<Rightarrow> heal_lookup w p1 x (others w 5 (heal_probe w p1 x (others w 3 m1))))"

definition maintain :: "heal_world \<Rightarrow> nat \<Rightarrow> manager \<Rightarrow> manager" where
  "maintain w x m =
     (let a = heap m x; active = is_active a; auto = auto_disabled a
      in if \<not> active \<and> \<not> auto then m
         else case disable_after_auth_failures x (int (off_after_hours w) * 3600) (observed w) (dbs w 0) m of
                (Inr True, m1) \<Rightarrow>
                  emit (AlertAuthDisabled (label (heap m1 x)) (off_after_hours w) (suspended_by a)) m1
              | (_, m1) \<Rightarrow>
                  (let m2 = others w 0 m1; p = plan_of w active auto (heap m2 x)
                   in if \<not> refresh_due p \<and> \<not> check_full p \<and> \<not> check_subscription p then m2
                      else heal_checks w p x m2))"

text \<open>One pass over the roster, in the order in which the accounts are taken up.\<close>

definition maintenance_pass :: "(nat \<Rightarrow> heal_world) \<Rightarrow> manager \<Rightarrow> manager" where
  "maintenance_pass ws m = fold (\<lambda>x m. maintain (ws x) x m) (accounts m) m"

end
