(* ===== verification/HealProps.thy ===== *)
theory HealProps
  imports AutoHeal
begin

text \<open>
  Maintenance never undoes the owner's OFF: no token call, probe, lookup or switch of the task does,
  and neither does a pass as a whole, whenever the owner switches the account off.
\<close>

section \<open>Off stays off\<close>

definition off_stays :: "nat \<Rightarrow> manager \<Rightarrow> manager \<Rightarrow> bool" where
  "off_stays z m m' \<longleftrightarrow> (owner_off (heap m z) \<longrightarrow> owner_off (heap m' z))"

named_theorems off_intros "steps that keep an owner's OFF"

lemma off_refl [simp]: "off_stays z m m"
  by (simp add: off_stays_def)

lemma off_trans [trans]: "off_stays z m m1 \<Longrightarrow> off_stays z m1 m2 \<Longrightarrow> off_stays z m m2"
  by (simp add: off_stays_def)

lemma off_background: "background m m' \<Longrightarrow> off_stays z m m'"
  by (auto simp: off_stays_def dest: background_step)

lemma off_steady: "steady m m' \<Longrightarrow> off_stays z m m'"
  by (simp add: steady_def standing_def off_stays_def owner_off_def)

lemma off_at [off_intros]: "(\<And>a. owner_off (f a) = owner_off a) \<Longrightarrow> off_stays z m (at_addr x f m)"
  by (simp add: off_stays_def)

lemma off_emit [simp]: "off_stays z m (emit e m') = off_stays z m m'" "off_stays z (emit e m) m' = off_stays z m m'"
  by (simp_all add: off_stays_def emit_def)

lemma off_failed: "off_stays z m (refresh_failed w x e m)"
  using background_step [OF background.system [of m x True "ends_at w" "disable_write w"]]
  by (auto simp: off_stays_def refresh_failed_def defer_retry_def Let_def owner_off_def split: app_error.split)

lemma off_succeeded: "off_stays z m (refresh_succeeded x m)"
  by (simp add: off_stays_def refresh_succeeded_def owner_off_def)

lemma off_refresh: "off_stays z m (snd (refresh w x p f m))"
proof -
  obtain r m' where r: "refresh w x p f m = (r, m')" by force
  from r have "off_stays z m m'"
  proof (cases rule: refresh_cases)
    case (shared t)
    then show ?thesis
      using off_steady [OF steady_shared [of m w x "if f then p else None"]] by simp
  next
    case (granted t m2)
    then show ?thesis
      using off_trans [OF off_steady [OF steady_cycle [of m w x]] off_succeeded [of _ _ x]] by simp
  next
    case (failed e q m2)
    then show ?thesis
      using off_trans [OF off_steady [OF steady_cycle [of m w x]] off_failed [of _ _ w x e]] by simp
  qed simp_all
  with r show ?thesis by simp
qed

lemma off_get_token: "off_stays z m (snd (get_token w x m))"
  by (simp add: get_token_def off_refresh split: option.split)

lemma off_renew: "off_stays z m (snd (renew_token w x m))"
  by (simp add: renew_token_def off_refresh)

lemma off_reject: "off_stays z m (reject_access_token x t now m)"
  by (simp add: off_stays_def reject_access_token_def owner_off_def)

lemma off_unauthorized: "off_stays z m (snd (refresh_after_unauthorized w x t m))"
  unfolding refresh_after_unauthorized_def by (rule off_trans [OF off_reject off_refresh])

lemma off_reject_refreshed: "off_stays z m (reject_refreshed_token r x t now m)"
  by (simp add: off_stays_def reject_refreshed_token_def reject_access_token_def defer_retry_def Let_def owner_off_def)

lemma off_egress: "off_stays z m (note_egress r x m)"
  by (cases r) simp_all

lemma off_429: "off_stays z m (snd (note_429 w n v x m))"
proof -
  have "owner_off (snd (pause_account d now v a)) = owner_off a" for d now a
    by (simp add: owner_off_def pause_account_def next_strike_def Let_def split_beta)
  then have "off_stays z m (at_addr x (\<lambda>_. snd (pause_account (dates w) (secs n) v (heap m x))) m)"
    by (simp add: off_stays_def)
  from off_trans [OF this off_background [OF background.error]] show ?thesis
    by (simp add: note_429_def split_beta Let_def)
qed

text \<open>How a track ends: before a request, with its reply, or after one token refresh.\<close>

lemma probe_track_cases:
  assumes "probe_track w i x retried token tr m = (e, tr', m')"
  obtains (blocked) "e = RATE_LIMITED \<or> e = NO_EGRESS" "tr' = tr" "m' = m"
  | (full) v body tx where "probe_replies w i (if retried then 1 else 0) = Got 200 v body tx"
      "e = probe_200 body token" "tr' = tr @ [(i, Got 200 v body tx)]"
      "m' = note_egress (Got 200 v body tx) x m"
  | (other) r where "probe_replies w i (if retried then 1 else 0) = r" "\<exists>why. e = Verdict ''unknown'' why"
      "tr' = tr @ [(i, r)]" "\<forall>v body tx. r \<noteq> Got 200 v body tx"
      "m' = note_egress r x m \<or> (\<exists>n v. m' = snd (note_429 (auth w) n v x (note_egress r x m))) \<or>
       (\<exists>j n. m' = reject_refreshed_token j x token n (note_egress r x m)) \<or>
       m' = snd (refresh_after_unauthorized (reauth w i) x token (note_egress r x m))"
  | (again) v body tx fresh m2 where "\<not> retried" "probe_replies w i 0 = Got 401 v body tx"
      "refresh_after_unauthorized (reauth w i) x token (note_egress (Got 401 v body tx) x m) = (Inr fresh, m2)"
      "probe_track w i x True fresh (tr @ [(i, Got 401 v body tx)]) m2 = (e, tr', m')"
proof -
  define k :: nat where "k = (if retried then 1 else 0)"
  note eq = assms [unfolded probe_track.simps [of w i x retried] Let_def, folded k_def]
  show ?thesis
  proof (cases "rate_limit_remaining (asked_at w i k) (heap m x) \<noteq> None \<or> egress_lost w i k")
    case True
    then show ?thesis using eq by (auto intro: blocked split: if_splits)
  next
    case False
    note eq = eq [unfolded if_not_P [OF False [THEN iffD1 [OF de_Morgan_disj], THEN conjunct1]]
        if_not_P [OF False [THEN iffD1 [OF de_Morgan_disj], THEN conjunct2]]]
    show ?thesis
    proof (cases "probe_replies w i k")
      case Late
      with eq show ?thesis by (intro other [of Late]) (auto simp: k_def)
    next
      case (Lost er)
      with eq show ?thesis by (intro other [of "Lost er"]) (auto simp: k_def)
    next
      case (Got st v body tx)
      note eq = eq [unfolded Got probe_reply.case]
      consider "st = 200" | "st = 401" "\<not> retried" | "st = 401" retried | "st = 429" | "st \<notin> {200, 401, 429}" by blast
      then show ?thesis
      proof cases
        case 1
        with eq Got show ?thesis by (intro full [of v body tx]) (auto simp: k_def)
      next
        case 2
        show ?thesis
        proof (cases "refresh_after_unauthorized (reauth w i) x token (note_egress (Got st v body tx) x m)")
          case (Pair q m2)
          show ?thesis
          proof (cases q)
            case (Inl er)
            with eq Pair 2 Got show ?thesis
              by (intro other [of "Got st v body tx"]) (auto simp del: note_egress.simps simp: k_def)
          next
            case (Inr fresh)
            with eq Pair 2 Got show ?thesis
              by (intro again [of v body tx fresh m2]) (auto simp del: note_egress.simps simp: k_def)
          qed
        qed
      next
        case 3
        with eq Got show ?thesis
          by (intro other [of "Got st v body tx"]) (auto simp del: note_egress.simps simp: k_def)
      next
        case 4
        with eq Got show ?thesis
          by (intro other [of "Got st v body tx"]) (auto simp del: note_egress.simps simp: k_def)
      next
        case 5
        with eq Got show ?thesis
          by (intro other [of "Got st v body tx"]) (auto simp del: note_egress.simps simp: k_def split: if_splits)
      qed
    qed
  qed
qed

lemma off_probe_last:
  assumes "m' = note_egress r x m \<or> (\<exists>n v. m' = snd (note_429 w n v x (note_egress r x m))) \<or>
       (\<exists>j n. m' = reject_refreshed_token j x token n (note_egress r x m)) \<or>
       m' = snd (refresh_after_unauthorized w' x token (note_egress r x m))"
  shows "off_stays z m m'"
  using assms off_trans [OF off_egress off_429] off_trans [OF off_egress off_reject_refreshed]
    off_trans [OF off_egress off_unauthorized] off_egress by (elim disjE exE) simp_all

lemma off_probe_track:
  "probe_track w i x retried token tr m = (e, tr', m') \<Longrightarrow> off_stays z m m'"
proof (induction "if retried then 0 else 1 :: nat" arbitrary: retried token tr m rule: less_induct)
  case less
  from less.prems show ?case
  proof (cases rule: probe_track_cases)
    case (again v body tx fresh m2)
    let ?m1 = "note_egress (Got 401 v body tx) x m"
    have "off_stays z ?m1 m2" using off_unauthorized [of z ?m1 "reauth w i" x token] again(3) by simp
    with off_egress have "off_stays z m m2" by (rule off_trans)
    with less.hyps [OF _ again(4)] again(1) show ?thesis by (auto intro: off_trans)
  qed (use off_egress off_probe_last in auto)
qed

lemma off_probe_tracks:
  "probe_tracks w x ts i n token tr m = (v, tr', m') \<Longrightarrow> off_stays z m m'"
proof (induction ts arbitrary: i n token tr m)
  case (Cons t ts)
  obtain e tr1 m1 where p: "probe_track w i x False token tr m = (e, tr1, m1)" by (metis prod.exhaust)
  note first = off_probe_track [OF p]
  show ?case
  proof (cases e)
    case (Verdict s why)
    with Cons.prems p first show ?thesis by auto
  next
    case (Previewed tok)
    with Cons.prems p have "probe_tracks w x ts (Suc i) (n + 1) tok tr1 m1 = (v, tr', m')" by simp
    from off_trans [OF first Cons.IH [OF this]] show ?thesis .
  qed
qed simp

lemma off_probe: "probe_account_premium w x m = (v, tr, m') \<Longrightarrow> off_stays z m m'"
proof -
  assume *: "probe_account_premium w x m = (v, tr, m')"
  obtain r m1 where g: "get_token (auth w) x m = (r, m1)" by force
  have a: "off_stays z m m1" using off_get_token [of z m "auth w" x] g by simp
  then have "off_stays z m m2" if "probe_tracks w x ts i n token tr0 m1 = (v, tr, m2)" for ts i n token tr0 m2
    using off_trans off_probe_tracks [OF that] by blast
  with a * g show ?thesis
    by (auto simp: probe_account_premium_def simp del: probe_tracks.simps split: if_splits sum.splits)
qed

lemma subscription_get_cases:
  assumes "subscription_get w i url x retried token tr m = (e, token', tr', m')"
  obtains (blocked) s where "e = Inl (RateLimited s)" "tr' = tr" "m' = m"
  | (full) v body tx where "probe_replies w i (if retried then 1 else 0) = Got 200 v body tx" "token' = token"
      "e = (case body of Some v \<Rightarrow> Inr v | None \<Rightarrow> Inl (UpstreamError 502 ''Invalid subscription response from Tidal''))"
      "tr' = tr @ [(url, Got 200 v body tx)]" "m' = note_egress (Got 200 v body tx) x m"
  | (other) r where "probe_replies w i (if retried then 1 else 0) = r" "\<exists>er. e = Inl er"
      "tr' = tr @ [(url, r)]" "\<forall>v body tx. r \<noteq> Got 200 v body tx"
      "m' = note_egress r x m \<or> (\<exists>n v. m' = snd (note_429 (auth w) n v x (note_egress r x m))) \<or>
       (\<exists>j n. m' = reject_refreshed_token j x token n (note_egress r x m)) \<or>
       m' = snd (refresh_after_unauthorized (reauth w i) x token (note_egress r x m))"
  | (again) v body tx fresh m2 where "\<not> retried" "probe_replies w i 0 = Got 401 v body tx"
      "refresh_after_unauthorized (reauth w i) x token (note_egress (Got 401 v body tx) x m) = (Inr fresh, m2)"
      "subscription_get w i url x True fresh (tr @ [(url, Got 401 v body tx)]) m2 = (e, token', tr', m')"
proof -
  define k :: nat where "k = (if retried then 1 else 0)"
  note eq = assms [unfolded subscription_get.simps [of w i url x retried] Let_def, folded k_def]
  show ?thesis
  proof (cases "rate_limit_remaining (asked_at w i k) (heap m x)")
    case (Some s)
    then show ?thesis using eq by (intro blocked [of s]) auto
  next
    case None
    note eq = eq [unfolded None option.case]
    show ?thesis
    proof (cases "probe_replies w i k")
      case Late
      with eq show ?thesis by (intro other [of Late]) (auto simp: k_def)
    next
      case (Lost er)
      with eq show ?thesis by (intro other [of "Lost er"]) (auto simp: k_def)
    next
      case (Got st v body tx)
      note eq = eq [unfolded Got probe_reply.case]
      consider "st = 200" | "st = 401" "\<not> retried" | "st = 401" retried | "st = 429" | "st \<notin> {200, 401, 429}" by blast
      then show ?thesis
      proof cases
        case 1
        with eq Got show ?thesis by (intro full [of v body tx]) (auto simp: k_def)
      next
        case 2
        show ?thesis
        proof (cases "refresh_after_unauthorized (reauth w i) x token (note_egress (Got st v body tx) x m)")
          case (Pair q m2)
          show ?thesis
          proof (cases q)
            case (Inl er)
            with eq Pair 2 Got show ?thesis
              by (intro other [of "Got st v body tx"]) (auto simp del: note_egress.simps simp: k_def)
          next
            case (Inr fresh)
            with eq Pair 2 Got show ?thesis
              by (intro again [of v body tx fresh m2]) (auto simp del: note_egress.simps simp: k_def)
          qed
        qed
      next
        case 3
        with eq Got show ?thesis
          by (intro other [of "Got st v body tx"]) (auto simp del: note_egress.simps simp: k_def)
      next
        case 4
        have "m' = snd (note_429 (auth w) (answered_ms w i k) v x (note_egress (Got st v body tx) x m))"
            "\<exists>er. e = Inl er" "tr' = tr @ [(url, Got st v body tx)]"
          using eq 4 by (auto simp: split_beta simp del: note_egress.simps)
        with Got 4 show ?thesis
          by (intro other [of "Got st v body tx"]) (auto simp del: note_egress.simps simp: k_def)
      next
        case 5
        with eq Got show ?thesis
          by (intro other [of "Got st v body tx"]) (auto simp del: note_egress.simps simp: k_def split: if_splits)
      qed
    qed
  qed
qed

lemma off_subscription_get:
  "subscription_get w i url x retried token tr m = (e, token', tr', m') \<Longrightarrow> off_stays z m m'"
proof (induction "if retried then 0 else 1 :: nat" arbitrary: retried token tr m rule: less_induct)
  case less
  from less.prems show ?case
  proof (cases rule: subscription_get_cases)
    case (again v body tx fresh m2)
    let ?m1 = "note_egress (Got 401 v body tx) x m"
    have "off_stays z ?m1 m2" using off_unauthorized [of z ?m1 "reauth w i" x token] again(3) by simp
    with off_egress have "off_stays z m m2" by (rule off_trans)
    with less.hyps [OF _ again(4)] again(1) show ?thesis by (auto intro: off_trans)
  qed (use off_egress off_probe_last in auto)
qed

lemma off_subscription_of: "subscription_of w uid c x token tr m = (e, tr', m') \<Longrightarrow> off_stays z m m'"
  by (auto simp: subscription_of_def split: prod.splits sum.splits dest: off_subscription_get)

lemma off_country: "off_stays z m (at_addr x (set_country c) m)"
  using standing_country [of c] by (intro off_at) (simp add: standing_def owner_off_def)

lemma off_account_subscription:
  assumes "account_subscription w fl conf x m = (e, tr, m')"
  shows "off_stays z m m'"
proof -
  obtain r m1 where g: "get_token (auth w) x m = (r, m1)" by force
  have a: "off_stays z m m1" using off_get_token [of z m "auth w" x] g by simp
  have b: "off_stays z m m3" if "subscription_of w uid c x token tr0 m1 = (e', tr1, m3)" for uid c token tr0 e' tr1 m3
    using a off_subscription_of [OF that] by (rule off_trans)
  have d: "off_stays z m m2" if "subscription_get w 0 url x False token tr0 m1 = (q, tok, tr1, m2)" for url token tr0 q tok tr1 m2
    using a off_subscription_get [OF that] by (rule off_trans)
  have f: "off_stays z m m4" if "subscription_get w 0 url x False token tr0 m1 = (q, tok, tr1, m2)"
      "subscription_of w uid c x token2 tr2 (at_addr x (set_country cc) m2) = (e', tr3, m4)"
      for url token tr0 q tok tr1 m2 uid c token2 tr2 cc e' tr3 m4
    using d [OF that(1)] off_country off_subscription_of [OF that(2)] off_trans by blast
  from assms a g show ?thesis
    by (auto simp: account_subscription_def Let_def split: option.splits sum.splits prod.splits intro: b d f)
qed

lemma off_catalog: "off_stays z m (snd (set_account_catalog i c now db m))"
  by (auto simp: off_stays_def set_account_catalog_def owner_off_def Let_def split: option.split)

lemma off_apply: "off_stays z m (apply_subscription until_of x v now wr db m)"
proof -
  let ?m1 = "at_addr x (store_subscription v now) m"
  have a: "off_stays z m ?m1" by (intro off_at) (simp add: store_subscription_def owner_off_def)
  have "off_stays z m m2" if "set_account_catalog i True wr db ?m1 = (q, m2)" for i q m2
    using off_trans [OF a off_catalog [of z ?m1 i True wr db]] that by simp
  with a show ?thesis
    by (auto simp: apply_subscription_def Let_def split: option.split prod.split sum.split)
qed


definition respects_owner :: "heal_world \<Rightarrow> nat \<Rightarrow> bool" where
  "respects_owner w z \<longleftrightarrow> (\<forall>k m. off_stays z m (others w k m))"

lemma off_others: "respects_owner w z \<Longrightarrow> off_stays z m (others w k m)"
  by (simp add: respects_owner_def)

lemma off_system: "off_stays z m (snd (set_system_disabled x b now db m))"
  by (rule off_background [OF background.system])

lemma off_system_eq: "set_system_disabled x b now db m = (q, m') \<Longrightarrow> off_stays z m m'"
  using off_system [of z m x b now db] by simp

lemma off_recover:
  assumes "respects_owner w z" "renew_token (renewal w) x m = (Inr t, m1)" "refresh_due p"
  shows "off_stays z (others w 2 m1) (snd (snd (heal_refresh w p x m)))"
  using assms
  by (auto simp: heal_refresh_def Let_def split: prod.split sum.split bool.split intro: off_system_eq)

lemma off_heal_refresh:
  assumes "respects_owner w z"
  shows "off_stays z m (snd (snd (heal_refresh w p x m)))"
proof (cases "refresh_due p")
  case True
  obtain r m1 where r: "renew_token (renewal w) x m = (r, m1)" by force
  have 1: "off_stays z m m1" using off_renew [of z m "renewal w" x] r by simp
  show ?thesis
  proof (cases r)
    case (Inl e)
    with 1 r True show ?thesis by (simp add: heal_refresh_def)
  next
    case (Inr t)
    then show ?thesis
      using off_trans [OF 1 off_others [OF assms]] off_trans off_recover [OF assms _ True] r by blast
  qed
qed (simp add: heal_refresh_def)

lemma off_set_premium: "off_stays z m (set_premium i st now m)"
  by (rule off_background [OF background.probe])

lemma off_preview_check: "off_stays z m (snd (note_preview_check x now db m))"
  by (rule off_background [OF background.demote])

lemma off_heal_probe:
  assumes "respects_owner w z"
  shows "off_stays z m (heal_probe w p x m)"
proof (cases "check_full p \<and> is_active (heap m x) \<and> rate_limit_remaining (limit_clock w 4) (heap m x) = None")
  case True
  obtain st why tr m1 where pr: "probe_account_premium (probing w) x m = ((st, why), tr, m1)"
    by (metis prod.exhaust)
  let ?m2 = "set_premium (acc_id (heap m1 x)) st (written_at w 1) (others w 4 m1)"
  have 2: "off_stays z m ?m2"
    by (rule off_trans [OF off_trans [OF off_probe [OF pr] off_others [OF assms]] off_set_premium])
  obtain q m3 where n: "note_preview_check x (written_at w 2) (dbs w 2) ?m2 = (q, m3)" by force
  have 3: "off_stays z m m3"
    using off_trans [OF 2 off_preview_check [of z ?m2 x "written_at w 2" "dbs w 2"]] n by simp
  show ?thesis
    using True 2 3 n by (auto simp: heal_probe_def pr Let_def simp del: One_nat_def split: sum.split bool.split)
qed (auto simp: heal_probe_def)

lemma off_heal_lookup:
  assumes "respects_owner w z"
  shows "off_stays z m (heal_lookup w p x m)"
proof (cases "check_subscription p \<and> is_active (heap m x)")
  case True
  obtain r tr m1 where s: "account_subscription (lookup w) (number_text w) (home_country w) x m = (r, tr, m1)"
    by (metis prod.exhaust)
  have 1: "off_stays z m (others w 6 m1)"
    using off_account_subscription [OF s] off_others [OF assms] off_trans by blast
  have "off_stays z m (at_addr x (store_subscription_error e n) (others w 6 m1))" for e n
    using 1 by (rule off_trans) (intro off_at, simp add: store_subscription_error_def owner_off_def)
  with True show ?thesis
    using off_trans [OF 1 off_apply]
    by (auto simp: heal_lookup_def check_subscription_now_def s split: sum.split)
qed (auto simp: heal_lookup_def)

lemma off_heal_checks:
  assumes "respects_owner w z"
  shows "off_stays z (others w 1 m) (heal_checks w p x m)"
proof -
  obtain go p1 m1 where h: "heal_refresh w p x (others w 1 m) = (go, p1, m1)" by (metis prod.exhaust)
  have 1: "off_stays z (others w 1 m) m1" using off_heal_refresh [OF assms, of "others w 1 m" p x] h by simp
  have "off_stays z (others w 1 m) (heal_lookup w p1 x (others w 5 (heal_probe w p1 x (others w 3 m1))))"
    using 1 off_others [OF assms] off_heal_probe [OF assms] off_heal_lookup [OF assms] off_trans by meson
  with 1 show ?thesis by (simp add: heal_checks_def h del: One_nat_def split: bool.split)
qed

lemma off_maintain:
  assumes "respects_owner w z"
  shows "off_stays z m (maintain w x m)"
proof -
  obtain q m1 where d: "disable_after_auth_failures x (int (off_after_hours w) * 3600) (observed w) (dbs w 0) m = (q, m1)"
    by force
  have 1: "off_stays z m m1"
    using off_background [OF background.auth_failures] d by (metis snd_conv)
  have 2: "off_stays z m (others w 0 m1)" by (rule off_trans [OF 1 off_others [OF assms]])
  have 3: "off_stays z m (heal_checks w p x (others w 0 m1))" for p
    using 2 off_others [OF assms] off_heal_checks [OF assms] off_trans by meson
  from 1 2 3 show ?thesis
    by (auto simp: maintain_def d Let_def split: sum.split bool.split)
qed

text \<open>
  C13. Maintenance never undoes the owner's OFF: an account that is switched off stays off through
  any pass, on it or on another account, whatever the token call, the probe and the subscription
  lookup answer and whichever writes fail; and if the owner switches it off while the task sleeps
  or while the renewal is on its way, the granted token does not bring it back. The rest of the program
  is free to do anything meanwhile but switch the account on.
\<close>

theorem maintenance_keeps_owner_off:
  assumes "respects_owner w z"
  shows "(owner_off (heap m z) \<longrightarrow> owner_off (heap (maintain w x m) z)) \<and>
    (owner_off (heap (others w 1 m) z) \<longrightarrow> owner_off (heap (heal_checks w p x m) z)) \<and>
    (\<forall>t m1. refresh_due p \<longrightarrow> renew_token (renewal w) x m = (Inr t, m1) \<longrightarrow> owner_off (heap (others w 2 m1) z) \<longrightarrow>
       owner_off (heap (snd (snd (heal_refresh w p x m))) z))"
  using off_maintain [OF assms] off_heal_checks [OF assms] off_recover [OF assms]
  unfolding off_stays_def by blast

end
