(* ===== verification/HealLive.thy ===== *)
theory HealLive
  imports HealProps
begin

text \<open>
  What maintenance must do: bring a recovered account back, give up one that keeps failing, leave
  a cooling one alone and try it again, run its checks regularly but spread out; and what the
  verdicts of the probe and the subscription lookup mean.
\<close>

section \<open>Accounts that work again, and accounts that do not\<close>

lemma renewed_flags:
  assumes "renew_token w x m = (Inr t, m1)"
  shows "accounts m1 = accounts m \<and> is_active (heap m1 z) = is_active (heap m z)
    \<and> auto_disabled (heap m1 z) = auto_disabled (heap m z)"
  using assms unfolding renew_token_def
proof (cases rule: refresh_cases)
  case (shared t')
  then show ?thesis using steady_shared [of m w x "access_token (heap m x)"]
    by (simp add: steady_def standing_def)
next
  case (granted t' m2)
  then show ?thesis using steady_cycle [of m w x]
    by (simp add: steady_def standing_def refresh_succeeded_def)
qed simp_all

lemma recover_effect:
  assumes "x \<in> set (accounts m)" "auto_disabled (heap m x)" "\<not> db_fails db 0"
  obtains m' where "set_system_disabled x False now db m = (Inr True, m')" "is_active (heap m' x)"
    "\<not> auto_disabled (heap m' x)" "label (heap m' x) = label (heap m x)"
  using assms by (fastforce simp: set_system_disabled_def Let_def)

definition quiet :: "heal_world \<Rightarrow> bool" where
  "quiet w \<longleftrightarrow> (\<forall>k m. others w k m = m)"

definition failing_too_long :: "heal_world \<Rightarrow> account \<Rightarrow> bool" where
  "failing_too_long w a \<longleftrightarrow> 0 < off_after_hours w \<and> 0 < auth_failing_since a
     \<and> observed w - auth_failing_since a \<ge> int (off_after_hours w) * 3600"

lemma disable_after_cases:
  assumes "x \<in> set (accounts m)" "is_active (heap m x) \<or> auto_disabled (heap m x)"
  shows "\<not> failing_too_long w (heap m x) \<Longrightarrow>
      disable_after_auth_failures x (int (off_after_hours w) * 3600) (observed w) db m = (Inr False, m)"
    and "failing_too_long w (heap m x) \<Longrightarrow> \<not> db_fails db 0 \<Longrightarrow>
      \<exists>m'. disable_after_auth_failures x (int (off_after_hours w) * 3600) (observed w) db m = (Inr True, m')
        \<and> owner_off (heap m' x) \<and> label (heap m' x) = label (heap m x) \<and> asked m' = asked m"
  using assms by (auto simp: disable_after_auth_failures_def failing_too_long_def Let_def owner_off_def
      asked_def push_account_def)


text \<open>
  C15. An account whose renewal Tidal has refused with 403 for the configured hours is switched
  off for good on the next pass: it is off like one its owner switched off, so no later pass
  brings it back, the owner is told, and no further request for a token is sent.
\<close>

theorem hopeless_account_goes_off:
  assumes "x \<in> set (accounts m)" "is_active (heap m x) \<or> auto_disabled (heap m x)"
    and "failing_too_long w (heap m x)" "\<not> db_fails (dbs w 0) 0"
  shows "owner_off (heap (maintain w x m) x) \<and> asked (maintain w x m) = asked m
    \<and> last (outbox (maintain w x m)) =
        AlertAuthDisabled (label (heap m x)) (off_after_hours w) (suspended_by (heap m x))
    \<and> maintain w' x (maintain w x m) = maintain w x m"
proof -
  from disable_after_cases(2) [OF assms(1,2,3,4)] obtain m' where
    d: "disable_after_auth_failures x (int (off_after_hours w) * 3600) (observed w) (dbs w 0) m = (Inr True, m')"
    and m': "owner_off (heap m' x)" "label (heap m' x) = label (heap m x)" "asked m' = asked m" by blast
  have e: "maintain w x m = emit (AlertAuthDisabled (label (heap m x)) (off_after_hours w) (suspended_by (heap m x))) m'"
    using assms(2) by (auto simp: maintain_def d m'(2) Let_def)
  have "maintain w' x m'' = m''" if "owner_off (heap m'' x)" for m''
    using that by (simp add: maintain_def owner_off_def Let_def)
  with e m' show ?thesis by (simp add: emit_def asked_def owner_off_def)
qed

text \<open>
  An account that is cooling down after a failed renewal is left alone: until its retry time
  a pass sends no request for it and changes nothing, unless it is switched off for good.
\<close>

lemma cooling_account_left_alone:
  assumes "observed w < heal_next_retry (heap m x)" "quiet w" "x \<in> set (accounts m)"
    and "\<not> failing_too_long w (heap m x)"
  shows "maintain w x m = m"
proof (cases "is_active (heap m x) \<or> auto_disabled (heap m x)")
  case True
  then show ?thesis
    using disable_after_cases(1) [OF assms(3) True assms(4), of "dbs w 0"] assms(1,2)
    by (auto simp: maintain_def plan_of_def quiet_def Let_def)
qed (simp add: maintain_def Let_def)

text \<open>
  And it is tried again: a failed renewal puts the next one off by at most an hour and a quarter minute, or
  by the time Tidal asked for or five minutes after a refusal of the credentials if that is longer; the
  first pass after that renews an account that is switched off by the system.
\<close>

lemma failed_renewal_is_retried:
  assumes "clock_ok (ends_at a)" "minimum_wait e < 2 ^ 62"
    and "observed w \<ge> ends_at a + int (max 3615 (minimum_wait e))"
    and "rate_limit_remaining (limit_clock w 0) (heap (refresh_failed a x e m) x) = None"
  shows "refresh_due (plan_of w active True (heap (refresh_failed a x e m) x))"
proof -
  have "sat_mul_u64 30 (2 ^ min n 7) \<le> 30 * 2 ^ min n 7" for n by (simp add: sat_mul_u64_def)
  then have "retry_delay r (Suc n) mn \<le> max 3615 mn" for r n mn
    unfolding retry_delay_def by (auto intro: max.coboundedI1 simp: min_def max_def le_diff_conv)
  then have d: "retry_delay (jitter a) (Suc (heal_failures (heap m x))) (minimum_wait e) \<le> max 3615 (minimum_wait e)"
    (is "?r \<le> ?mx") .
  then have "?r < 2 ^ 62" using assms(2) by simp
  then have "i64_of_u64 ?r = int ?r" by (simp add: i64_of_u64_def i64_max_def)
  moreover have "sat_add_i64 t v \<le> t + v" if "0 < t" "0 \<le> v" for t v
    using that by (simp add: sat_add_i64_def clamp_i64_def)
  ultimately have "sat_add_i64 (ends_at a) (i64_of_u64 ?r) \<le> ends_at a + int ?r"
    using assms(1) by (simp add: clock_ok_def)
  also have "\<dots> \<le> ends_at a + int ?mx" using d by simp
  finally have "heal_next_retry (heap (refresh_failed a x e m) x) \<le> observed w"
    unfolding failed_standing using assms(3) by linarith
  with assms(4) show ?thesis by (simp add: plan_of_def Let_def)
qed


section \<open>When checks run\<close>

lemma spread_range: "0 \<le> account_spread_secs i n \<and> account_spread_secs i n < max n 1"
  by (simp add: account_spread_secs_def)

text \<open>The earliest and the latest time of the next check.\<close>

definition full_window :: "account \<Rightarrow> int \<Rightarrow> int \<times> int" where
  "full_window a started =
     (if premium_checked_at a > 0 then (premium_checked_at a + 3600, premium_checked_at a + 4500)
      else (started, started + 300))"

definition subscription_window :: "account \<Rightarrow> int \<Rightarrow> int \<times> int" where
  "subscription_window a started =
     (if subscription_error_at a > 0 then (subscription_error_at a + 3600, subscription_error_at a + 3600)
      else if subscription_checked_at a > 0
      then (subscription_checked_at a + 86400, subscription_checked_at a + 90000)
      else (started, started + 600))"

text \<open>
  Checks are regular but spread: an account in playback that is not paused gets its FULL check
  at the earliest an hour after the last and at the latest an hour and a quarter; the subscription
  is looked up after a day to a day and an hour, or exactly an hour after a failed attempt; and
  the first checks are due within five and ten minutes of the start.
\<close>

lemma checks_are_spread:
  assumes "\<not> out_of_checks clk a"
  shows "(full_check_due clk a now started \<longrightarrow> fst (full_window a started) \<le> now) \<and>
    (snd (full_window a started) \<le> now \<longrightarrow> full_check_due clk a now started) \<and>
    (subscription_check_due clk a now started \<longrightarrow> fst (subscription_window a started) \<le> now) \<and>
    (snd (subscription_window a started) \<le> now \<longrightarrow> subscription_check_due clk a now started)"
  using assms spread_range [of "acc_id a" 900] spread_range [of "acc_id a" 300] spread_range [of "acc_id a" 3600]
    spread_range [of "acc_id a" 600]
  by (simp add: full_check_due_def subscription_check_due_def full_window_def subscription_window_def Let_def
      FULL_CHECK_INTERVAL_SECS_def FULL_CHECK_REPEAT_SPREAD_SECS_def FULL_CHECK_INITIAL_SPREAD_SECS_def
      SUBSCRIPTION_CHECK_INTERVAL_SECS_def SUBSCRIPTION_REPEAT_SPREAD_SECS_def SUBSCRIPTION_INITIAL_SPREAD_SECS_def
      SUBSCRIPTION_RETRY_SECS_def)

section \<open>Subscriptions\<close>

definition plan_warns :: "(string \<Rightarrow> (int \<times> string \<times> string) option) \<Rightarrow> json \<Rightarrow> int \<Rightarrow> bool" where
  "plan_warns until_of v now \<longleftrightarrow>
     jget_bool ''paymentOverdue'' v = Some True \<or> jget_bool ''premiumAccess'' v = Some False \<or>
     (case Option.bind (jget_str ''validUntil'' v) until_of of
        Some (until, _) \<Rightarrow> until \<le> now + 3 * 86400 | None \<Rightarrow> False)"

lemma problem_iff: "subscription_problem until_of v now \<noteq> None \<longleftrightarrow> plan_warns until_of v now"
  by (auto simp: subscription_problem_def plan_warns_def Let_def SUBSCRIPTION_WARN_SECS_def split: option.split)

fun is_alert :: "effect \<Rightarrow> bool" where
  "is_alert (AlertFreePlan l) = True"
| "is_alert (AlertSubscription l p) = True"
| "is_alert e = False"

definition alerts :: "manager \<Rightarrow> effect list" where
  "alerts m = filter is_alert (outbox m)"

definition plan_alerts :: "(string \<Rightarrow> (int \<times> string \<times> string) option) \<Rightarrow> json \<Rightarrow> int \<Rightarrow> account \<Rightarrow> effect list" where
  "plan_alerts until_of v now a =
     (if subscription_is_free v then (if is_catalog a then [] else [AlertFreePlan (label a)])
      else if plan_warns until_of v now
      then [AlertSubscription (label a) (the (subscription_problem until_of v now))] else [])"

text \<open>
  What a subscription answer does: it is stored and the last error forgotten; a FREE plan
  without premium access leaves playback for metadata, with one message on the way out; any other
  plan stays where it is, and the owner is warned exactly if payment is overdue, premium access is
  denied or the plan ends within three days.
\<close>

lemma subscription_applied:
  assumes "get_account_by_id (acc_id (heap m x)) m = Some x" "\<not> db_fails db 0"
  shows "let m' = apply_subscription until_of x v now wr db m; a = heap m' x
    in subscription a = Some v \<and> subscription_error a = None \<and> subscription_checked_at a = now
       \<and> is_catalog a = (is_catalog (heap m x) \<or> subscription_is_free v)
       \<and> alerts m' = alerts m @ plan_alerts until_of v now (heap m x)"
proof -
  let ?m1 = "at_addr x (store_subscription v now) m"
  have id: "acc_id (heap ?m1 x) = acc_id (heap m x)" "label (heap ?m1 x) = label (heap m x)"
      "is_catalog (heap ?m1 x) = is_catalog (heap m x)"
    by (simp_all add: store_subscription_def)
  have "acc_id (heap ?m1 z) = acc_id (heap m z)" for z by (simp add: store_subscription_def)
  moreover have "accounts ?m1 = accounts m" by simp
  ultimately have g: "get_account_by_id (acc_id (heap m x)) ?m1 = Some x"
    using assms(1) unfolding get_account_by_id_def by simp
  show ?thesis
    using assms(2) problem_iff [of until_of v now] g
    by (auto simp: apply_subscription_def Let_def id set_account_catalog_def plan_alerts_def alerts_def emit_def
        push_account_def store_subscription_def split: option.split)
qed


section \<open>What the probe's verdict means\<close>

text \<open>A reply that delivers the track in this presentation.\<close>

definition delivers :: "string \<Rightarrow> probe_reply \<Rightarrow> bool" where
  "delivers p r \<longleftrightarrow>
     (case r of Got s v (Some body) tx \<Rightarrow> s = 200 \<and> jget_str ''assetPresentation'' body = Some p | _ \<Rightarrow> False)"

definition deliveries :: "string \<Rightarrow> (nat \<times> probe_reply) list \<Rightarrow> nat" where
  "deliveries p tr = length (filter (\<lambda>(i, r). delivers p r) tr)"

lemma deliveries_simps [simp]:
  "deliveries p [] = 0" "deliveries p (xs @ ys) = deliveries p xs + deliveries p ys"
  "deliveries p [(i, r)] = (if delivers p r then 1 else 0)"
  by (simp_all add: deliveries_def)

lemma delivers_one: "delivers ''FULL'' r \<Longrightarrow> \<not> delivers ''PREVIEW'' r"
  by (auto simp: delivers_def split: probe_reply.splits option.splits)

lemma delivers_other [simp]: "\<not> delivers p (Got 401 v body tx)" "\<not> delivers p Late" "\<not> delivers p (Lost e)"
  by (auto simp: delivers_def split: option.splits)

text \<open>What one track adds to the trace.\<close>

definition track_adds :: "probe_end \<Rightarrow> nat \<Rightarrow> nat \<Rightarrow> bool" where
  "track_adds e full preview \<longleftrightarrow>
     (case e of
        Previewed t \<Rightarrow> full = 0 \<and> preview = 1
      | Verdict s why \<Rightarrow> s \<in> {''premium'', ''unknown''} \<and> full = (if s = ''premium'' then 1 else 0) \<and> preview = 0)"

lemma probe_200_adds:
  "track_adds (probe_200 body token) (deliveries ''FULL'' [(i, Got 200 v body tx)]) (deliveries ''PREVIEW'' [(i, Got 200 v body tx)])"
  by (auto simp: probe_200_def track_adds_def delivers_def split: option.split)

lemma probe_track_adds:
  assumes "probe_track w i x retried token tr m = (e, tr', m')"
  shows "\<exists>rs. tr' = tr @ rs \<and> length rs \<le> (if retried then 1 else 2)
    \<and> track_adds e (deliveries ''FULL'' rs) (deliveries ''PREVIEW'' rs)"
  using assms
proof (induction "if retried then 0 else 1 :: nat" arbitrary: retried token tr m rule: less_induct)
  case less
  from less.prems show ?case
  proof (cases rule: probe_track_cases)
    case blocked
    then show ?thesis by (auto simp: track_adds_def RATE_LIMITED_def NO_EGRESS_def)
  next
    case (full v body tx)
    then show ?thesis using probe_200_adds by (intro exI [of _ "[(i, Got 200 v body tx)]"]) simp
  next
    case (other r)
    then have "\<not> delivers p r" for p by (auto simp: delivers_def split: probe_reply.splits option.splits)
    with other show ?thesis by (intro exI [of _ "[(i, r)]"]) (auto simp: track_adds_def)
  next
    case (again v body tx fresh m2)
    from less.hyps [OF _ again(4)] again(1) obtain rs where
      "tr' = tr @ ((i, Got 401 v body tx) # rs)" "length rs \<le> 1"
      "track_adds e (deliveries ''FULL'' rs) (deliveries ''PREVIEW'' rs)" by auto
    with again(1) show ?thesis
      by (intro exI [of _ "(i, Got 401 v body tx) # rs"]) (simp add: deliveries_def)
  qed
qed

lemma probe_tracks_adds:
  assumes "probe_tracks w x ts i n token tr m = ((st, why), tr', m')" "deliveries ''FULL'' tr = 0"
    and "deliveries ''PREVIEW'' tr = n" "n + length ts = 4"
  shows "st \<in> {''premium'', ''preview-only'', ''unknown''}
    \<and> deliveries ''FULL'' tr' = (if st = ''premium'' then 1 else 0)
    \<and> (st = ''preview-only'' \<longleftrightarrow> deliveries ''PREVIEW'' tr' = 4) \<and> length tr' \<le> length tr + 2 * length ts"
  using assms
proof (induction ts arbitrary: i n token tr m)
  case Nil
  then show ?case by (auto simp: PROBE_TRACK_IDS_def)
next
  case (Cons t ts)
  obtain e tr1 m1 where p: "probe_track w i x False token tr m = (e, tr1, m1)" by (metis prod.exhaust)
  from probe_track_adds [OF p] obtain rs where rs: "tr1 = tr @ rs" "length rs \<le> 2"
      "track_adds e (deliveries ''FULL'' rs) (deliveries ''PREVIEW'' rs)" by auto
  show ?case
  proof (cases e)
    case (Verdict s wh)
    then have eq: "s = st" "tr' = tr1" using Cons.prems(1) p by simp_all
    have lp: "deliveries ''PREVIEW'' tr' < 4" "length tr' \<le> length tr + 2 * length (t # ts)"
      using rs Cons.prems(3,4) Verdict by (simp_all add: eq track_adds_def)
    have "st \<in> {''premium'', ''unknown''}" "deliveries ''FULL'' tr' = (if st = ''premium'' then 1 else 0)"
      using rs Cons.prems(2) Verdict by (simp_all add: eq track_adds_def)
    with lp show ?thesis by auto
  next
    case (Previewed tok)
    with rs(3) have c: "deliveries ''FULL'' rs = 0" "deliveries ''PREVIEW'' rs = 1" by (simp_all add: track_adds_def)
    from Cons.prems p Previewed have "probe_tracks w x ts (Suc i) (n + 1) tok tr1 m1 = ((st, why), tr', m')" by simp
    from Cons.IH [OF this] Cons.prems(2-4) rs(1,2) c show ?thesis by auto
  qed
qed

text \<open>
  C16. The probe's verdict is what Tidal delivered: it says premium exactly if a track came in FULL
  (once, it stops there), preview-only exactly if all four tracks came as PREVIEW, and a lost
  connection, a 401, 403, 429 or 5xx, an unreadable answer or a missing token never counts against the account.
  It sends at most eight requests.
\<close>

theorem probe_verdict:
  "let ((st, why), tr, m') = probe_account_premium w x m
   in st \<in> {''premium'', ''preview-only'', ''unknown'', ''error''}
      \<and> deliveries ''FULL'' tr = (if st = ''premium'' then 1 else 0)
      \<and> (st = ''preview-only'' \<longleftrightarrow> deliveries ''PREVIEW'' tr = 4) \<and> length tr \<le> 8"
proof -
  obtain st why tr m' where p: "probe_account_premium w x m = ((st, why), tr, m')" by (metis prod.exhaust)
  have len: "length PROBE_TRACK_IDS = 4" by (simp add: PROBE_TRACK_IDS_def)
  from p consider "tr = []" "st = ''unknown'' \<or> st = ''error''"
    | token m1 where "probe_tracks w x PROBE_TRACK_IDS 0 0 token [] m1 = ((st, why), tr, m')"
    unfolding probe_account_premium_def by (auto split: if_splits sum.splits prod.splits)
  then show ?thesis
  proof cases
    case 1
    then show ?thesis unfolding p by auto
  next
    case (2 token m1)
    from probe_tracks_adds [OF this] len show ?thesis unfolding p by auto
  qed
qed


section \<open>Concrete runs\<close>

definition blind :: "auth_world \<Rightarrow> probe_world" where
  "blind aw = \<lparr>auth = aw, reauth = (\<lambda>_. aw), no_egress = Some ''no proxy'', egress_lost = (\<lambda>_ _. True),
     asked_at = (\<lambda>_ _. 9400), answered_ms = (\<lambda>_ _. 9400000), probe_replies = (\<lambda>_ _. Late)\<rparr>"

definition demo_heal :: "auth_world \<Rightarrow> heal_world" where
  "demo_heal aw = \<lparr>observed = 9400, loop_started = 9000, off_after_hours = 1, limit_clock = (\<lambda>_. 9400),
     written_at = (\<lambda>_. 9500), dbs = (\<lambda>_. None), others = (\<lambda>_ m. m), renewal = aw, probing = blind aw,
     lookup = blind aw, lookup_at = 9500, home_country = ''US'', number_text = ''1.5'', dates_of = (\<lambda>_. None)\<rparr>"

definition with_two :: "(account \<Rightarrow> account) \<Rightarrow> manager" where
  "with_two f = at_addr 2 f demo_manager"

lemma with_two_heap: "heap (with_two f) 2 = f (demo_account ''c'' True)" "2 \<in> set (accounts (with_two f))"
  by (simp_all add: with_two_def demo_account_c)

lemma demo_heal_simps [simp]:
  "observed (demo_heal aw) = 9400" "off_after_hours (demo_heal aw) = 1" "limit_clock (demo_heal aw) = (\<lambda>_. 9400)"
  "dbs (demo_heal aw) = (\<lambda>_. None)" "others (demo_heal aw) = (\<lambda>_ m. m)" "renewal (demo_heal aw) = aw"
  by (simp_all add: demo_heal_def)

lemma demo_quiet: "quiet (demo_heal aw)"
  by (simp add: quiet_def)

lemma demo_unpaused: "rate_limited_until a = 0 \<Longrightarrow> rate_limit_remaining 9400 a = None"
  by (simp add: rate_limit_remaining_def sat_sub_i64_def clamp_i64_def i64_max_def)

text \<open>
  The doc comment of the probe says that it never changes the account's availability. It asks for a
  token first, and a refusal of the credentials switches the account off.
\<close>

lemma probe_may_switch_off:
  "is_active (heap demo_manager 2) \<and>
   \<not> is_active (heap (snd (snd (probe_account_premium ((blind (demo_world refused None))\<lparr>no_egress := None\<rparr>) 2 demo_manager))) 2)"
proof -
  have r: "refresh (demo_world refused None) 2 None False demo_manager =
      (Inl (Unauthorized ''Tidal auth HTTP 400: OAuth invalid_grant''),
       snd (refresh (demo_world refused None) 2 None False demo_manager))"
    by (simp add: prod_eq_iff demo_refused)
  have "\<not> is_active (heap (snd (refresh (demo_world refused None) 2 None False demo_manager)) 2)"
    using r
  proof (cases rule: refresh_cases)
    case (waits e)
    then show ?thesis by (simp add: demo_world_def demo_ready)
  next
    case (failed e q m2)
    have "steady demo_manager m2" using steady_cycle [of demo_manager "demo_world refused None" 2] failed(2) by simp
    then have "2 \<in> set (accounts m2)" "is_active (heap m2 2)"
      by (simp_all add: steady_def standing_def demo_account_c demo_q)
    with failed(1) show ?thesis
      by (auto simp: failed(3) refresh_failed_def defer_retry_def set_system_disabled_def Let_def split: if_splits)
  qed simp_all
  moreover have "snd (snd (probe_account_premium ((blind (demo_world refused None))\<lparr>no_egress := None\<rparr>) 2 demo_manager))
      = snd (refresh (demo_world refused None) 2 None False demo_manager)"
    using demo_refused demo_ready
    by (simp add: probe_account_premium_def blind_def get_token_def demo_world_def split_beta r split: sum.split)
  ultimately show ?thesis by (simp add: demo_account_c demo_q)
qed

lemma maintenance_keeps_owner_off_witness:
  "owner_off (heap (maintain (demo_heal (demo_world refused None)) 2 (with_two (\<lambda>a. a\<lparr>is_active := False\<rparr>))) 2)"
  using maintenance_keeps_owner_off [where w = "demo_heal (demo_world refused None)" and z = 2 and x = 2
      and m = "with_two (\<lambda>a. a\<lparr>is_active := False\<rparr>)"]
  by (simp add: respects_owner_def owner_off_def with_two_heap demo_account_def account_new_def)


lemma hopeless_account_goes_off_witness:
  "owner_off (heap (maintain (demo_heal (demo_world refused None)) 2 (with_two (\<lambda>a. a\<lparr>auth_failing_since := 5000\<rparr>))) 2)"
  using hopeless_account_goes_off [of 2 "with_two (\<lambda>a. a\<lparr>auth_failing_since := 5000\<rparr>)" "demo_heal (demo_world refused None)"]
  by (simp add: with_two_heap demo_account_def account_new_def failing_too_long_def db_fails_def)

lemma cooling_account_left_alone_witness:
  "maintain (demo_heal (demo_world granted None)) 2 (with_two (\<lambda>a. a\<lparr>heal_next_retry := 9401\<rparr>))
     = with_two (\<lambda>a. a\<lparr>heal_next_retry := 9401\<rparr>)"
  by (rule cooling_account_left_alone)
    (simp_all add: demo_quiet with_two_heap demo_account_def account_new_def failing_too_long_def)

lemma failed_renewal_is_retried_witness:
  "refresh_due (plan_of ((demo_heal (demo_world granted None))\<lparr>observed := 20000\<rparr>) False True
     (heap (refresh_failed (demo_world refused None) 2 Timeout demo_manager) 2))"
proof -
  have "rate_limited_until (heap (refresh_failed (demo_world refused None) 2 Timeout demo_manager) 2) = 0"
    by (simp add: refresh_failed_def defer_retry_def Let_def demo_account_c demo_q)
  then show ?thesis
    by (intro failed_renewal_is_retried)
      (simp_all add: demo_world_def clock_ok_def minimum_wait_def demo_unpaused)
qed

lemma checks_are_spread_witness:
  "full_check_due 9400 ((demo_account ''q'' False)\<lparr>premium_checked_at := 4000\<rparr>) 8500 0
   \<and> \<not> full_check_due 9400 ((demo_account ''q'' False)\<lparr>premium_checked_at := 4000\<rparr>) 7599 0"
proof -
  have "\<not> out_of_checks 9400 ((demo_account ''q'' False)\<lparr>premium_checked_at := 4000\<rparr>)"
    by (simp add: out_of_checks_def demo_unpaused demo_account_def account_new_def)
  from checks_are_spread [OF this, of 8500 0] checks_are_spread [OF this, of 7599 0]
  show ?thesis by (simp add: full_window_def)
qed

lemma subscription_applied_witness:
  "is_catalog (heap (apply_subscription (\<lambda>_. None) 1 (JObj [(''type'', JStr ''free'')]) 9400 9500 None demo_manager) 1)"
proof -
  have "get_account_by_id (acc_id (heap demo_manager 1)) demo_manager = Some 1" by (simp add: get_account_by_id_def demo_defs)
  moreover have "subscription_is_free (JObj [(''type'', JStr ''free'')])"
    by (simp add: subscription_is_free_def plan_name_def jget_bool_def jget_str_def to_ascii_lower_def)
  ultimately show ?thesis
    using subscription_applied [of demo_manager 1 None "\<lambda>_. None" "JObj [(''type'', JStr ''free'')]" 9400 9500]
    by (simp add: Let_def db_fails_def)
qed

end
