(* ===== verification/ProxyPool.thy ===== *)
theory ProxyPool
  imports ApiKeys "HOL-Library.Multiset"
begin

text \<open>
  The parts of \<open>src/proxy_manager.rs\<close> that keep no state: the clients traffic leaves through, what a
  probe says about a proxy, the list the owner types in, the order in which an account tries the
  proxies, the agreement with the other instances, and what is shown of a proxy address.

  \<open>reqwest\<close> is outside the repository: an \<open>egress\<close> says which proxy addresses \<open>Proxy::all\<close> refuses and
  which clients \<open>ClientBuilder::build\<close> cannot build. A client is what it was built from. The hash
  that spreads the accounts (\<open>DefaultHasher\<close>) and SHA-256 are parameters.
\<close>

section \<open>Clients\<close>

record http_client =
  via :: "string option"
  headers :: "(string \<times> string) list"
  user_agent :: string
  http1_only :: bool
  pool_idle :: nat
  follows_redirects :: bool

record egress =
  bad_url :: "string \<Rightarrow> string option"
  unbuildable :: "http_client \<Rightarrow> string option"

definition tidal_headers :: "bool \<Rightarrow> (string \<times> string) list" where
  "tidal_headers for_auth =
     [(''Accept'', if for_auth then ''application/json'' else ''*/*''), (''Accept-Encoding'', ''gzip'')] @
     (if for_auth then []
      else [(''Accept-Language'', ''en-US,en;q=0.9''), (''X-Platform'', ''android''),
            (''X-Tidal-Platform'', ''android'')])"

definition tidal_client_spec :: "string option \<Rightarrow> string \<Rightarrow> bool \<Rightarrow> http_client" where
  "tidal_client_spec url agent for_auth =
     \<lparr>via = url, headers = tidal_headers for_auth, user_agent = agent, http1_only = for_auth,
      pool_idle = (if for_auth then 2 else 20), follows_redirects = False\<rparr>"

definition build_tidal_client :: "egress \<Rightarrow> string option \<Rightarrow> string \<Rightarrow> bool \<Rightarrow> string + http_client" where
  "build_tidal_client net url agent for_auth =
     (case Option.bind url (bad_url net) of
        Some e \<Rightarrow> Inl (''Invalid proxy URL: '' @ e)
      | None \<Rightarrow>
          (let c = tidal_client_spec url agent for_auth
           in case unbuildable net c of
                Some e \<Rightarrow> Inl (''Failed to build HTTP client: '' @ e)
              | None \<Rightarrow> Inr c))"

definition build_client :: "egress \<Rightarrow> string option \<Rightarrow> string \<Rightarrow> string + http_client" where
  "build_client net url agent = build_tidal_client net url agent False"

definition build_auth_client :: "egress \<Rightarrow> string option \<Rightarrow> string \<Rightarrow> string + http_client" where
  "build_auth_client net url agent = build_tidal_client net url agent True"

lemma build_via: "build_tidal_client net url agent for_auth = Inr c \<Longrightarrow> via c = url"
  by (auto simp: build_tidal_client_def tidal_client_spec_def Let_def split: option.splits)

lemmas built_via = build_via [of _ _ _ False, folded build_client_def]
  build_via [of _ _ _ True, folded build_auth_client_def]

section \<open>Probes\<close>

datatype proxy_health = Healthy | Blocked | Dead

text \<open>\<open>str::contains\<close>.\<close>

fun contains_str :: "string \<Rightarrow> string \<Rightarrow> bool" where
  "contains_str pat [] \<longleftrightarrow> pat = []"
| "contains_str pat (c # cs) \<longleftrightarrow> starts_with pat (c # cs) \<or> contains_str pat cs"

definition classify_probe :: "nat \<Rightarrow> string option \<Rightarrow> proxy_health" where
  "classify_probe st content_type =
     (let is_json = (case content_type of None \<Rightarrow> False
                     | Some v \<Rightarrow> contains_str ''json'' (map to_ascii_lower v))
      in if st = 407 then Dead
         else if st = 403 \<and> \<not> is_json then Blocked
         else Healthy)"

text \<open>
  One probe. \<open>seen\<close> is what the network makes of the request through a proxy: nothing (no answer in
  eight seconds, no tunnel), or a status and the content type.
\<close>

type_synonym probes = "string \<Rightarrow> (nat \<times> string option) option"

definition probe_proxy :: "egress \<Rightarrow> string \<Rightarrow> probes \<Rightarrow> string \<Rightarrow> proxy_health" where
  "probe_proxy net agent seen url =
     (case build_client net (Some url) agent of
        Inl _ \<Rightarrow> Dead
      | Inr _ \<Rightarrow> (case seen url of Some (st, ct) \<Rightarrow> classify_probe st ct | None \<Rightarrow> Dead))"

lemma probe_not_dead: "probe_proxy net agent seen url \<noteq> Dead \<Longrightarrow> \<exists>c. build_client net (Some url) agent = Inr c"
  by (auto simp: probe_proxy_def split: sum.splits)

section \<open>The proxy list\<close>

definition add_new :: "string \<Rightarrow> string list \<Rightarrow> string list" where
  "add_new u us = (if u \<in> set us then us else us @ [u])"

fun normalize_loop :: "egress \<Rightarrow> string list \<Rightarrow> string list \<Rightarrow> app_error + string list" where
  "normalize_loop net acc [] = Inr acc"
| "normalize_loop net acc (raw # rest) =
     (let url = trim raw
      in if url = [] then normalize_loop net acc rest
         else case bad_url net url of
                Some e \<Rightarrow> Inl (BadRequest (''Invalid proxy URL: '' @ e))
              | None \<Rightarrow> normalize_loop net (add_new url acc) rest)"

text \<open>The Russian message of the empty list is a parameter of its own: it is not ASCII.\<close>

definition normalize_proxies :: "egress \<Rightarrow> string \<Rightarrow> string list \<Rightarrow> bool \<Rightarrow> app_error + string list" where
  "normalize_proxies net add_one proxies enable =
     (case normalize_loop net [] proxies of
        Inl e \<Rightarrow> Inl e
      | Inr us \<Rightarrow> if enable \<and> us = [] then Inl (BadRequest add_one) else Inr us)"

text \<open>\<open>load_proxies_from_file\<close>: the lines of the file; a missing or unreadable file is \<open>None\<close>.\<close>

definition load_proxies_from_file :: "string option \<Rightarrow> string list" where
  "load_proxies_from_file content =
     (case content of
        None \<Rightarrow> []
      | Some text \<Rightarrow> filter (\<lambda>l. l \<noteq> []) (map trim (split_on (CHR 0x0A) text)))"

lemma normalize_loop_fold:
  "normalize_loop net acc raws =
     (let us = filter (\<lambda>u. u \<noteq> []) (map trim raws)
      in case List.find (\<lambda>u. bad_url net u \<noteq> None) us of
           Some u \<Rightarrow> Inl (BadRequest (''Invalid proxy URL: '' @ the (bad_url net u)))
         | None \<Rightarrow> Inr (fold add_new us acc))"
  by (induction raws arbitrary: acc) (auto simp: Let_def split: option.splits)

lemma fold_add_new: "distinct acc \<Longrightarrow> distinct (fold add_new us acc) \<and> set (fold add_new us acc) = set acc \<union> set us"
  by (induction us arbitrary: acc) (auto simp: add_new_def)

section \<open>The order an account tries the proxies in\<close>

record account_proxy =
  url :: string
  api_client :: http_client
  auth_client :: http_client
  failures :: nat
  verified :: bool

type_synonym assignments = "(string, account_proxy) hash_map"

definition uses :: "assignments \<Rightarrow> string \<Rightarrow> nat" where
  "uses routes u = length (filter (\<lambda>r. url r = u) (map snd routes))"

definition candidate_key ::
    "(string \<Rightarrow> nat) \<Rightarrow> string \<Rightarrow> string list \<Rightarrow> assignments \<Rightarrow> string option \<Rightarrow> nat \<times> string \<Rightarrow>
     nat \<times> nat \<times> nat" where
  "candidate_key hash account_id entries routes avoid = (\<lambda>(index, u).
     (if Some u = avoid \<and> length entries > 1 then 1 else 0, uses routes u,
      (index + length entries - hash account_id mod length entries) mod length entries))"

definition ordered_candidates ::
    "(string \<Rightarrow> nat) \<Rightarrow> string \<Rightarrow> string list \<Rightarrow> assignments \<Rightarrow> string option \<Rightarrow> string list" where
  "ordered_candidates hash account_id entries routes avoid =
     map snd (sort_key (candidate_key hash account_id entries routes avoid) (enumerate 0 entries))"

section \<open>Agreement with the other instances\<close>

definition proxy_fingerprint :: "(byte list \<Rightarrow> byte list) \<Rightarrow> string \<Rightarrow> string" where
  "proxy_fingerprint sha u = hex_encode (sha (bytes_of u))"

datatype shared_binding = Publish | Keep | Adopt string | Offer

definition reconcile_binding ::
    "(string \<Rightarrow> string) \<Rightarrow> string \<Rightarrow> string option \<Rightarrow> string list \<Rightarrow> string option \<Rightarrow> shared_binding" where
  "reconcile_binding fp mine shared entries avoided =
     (case shared of
        None \<Rightarrow> Publish
      | Some s \<Rightarrow>
          if s = fp mine then Keep
          else case List.find (\<lambda>u. fp u = s) entries of
                 None \<Rightarrow> Keep
               | Some target \<Rightarrow> if avoided = Some target then Offer else Adopt target)"

section \<open>What is shown of an address\<close>

text \<open>\<open>split_once("://")\<close> and \<open>rsplit_once('@')\<close>.\<close>

fun split_scheme :: "string \<Rightarrow> (string \<times> string) option" where
  "split_scheme [] = None"
| "split_scheme (c # cs) =
     (if starts_with ''://'' (c # cs) then Some ([], drop 2 cs)
      else map_option (\<lambda>(s, rest). (c # s, rest)) (split_scheme cs))"

fun after_last_at :: "string \<Rightarrow> string option" where
  "after_last_at [] = None"
| "after_last_at (c # cs) =
     (case after_last_at cs of
        Some host \<Rightarrow> Some host
      | None \<Rightarrow> if c = CHR ''@'' then Some cs else None)"

definition mask_proxy :: "string \<Rightarrow> string" where
  "mask_proxy u =
     (case split_scheme u of
        Some (scheme, rest) \<Rightarrow>
          (case after_last_at rest of
             Some host \<Rightarrow> scheme @ ''://***@'' @ host
           | None \<Rightarrow> u)
      | None \<Rightarrow> u)"

section \<open>Lemmas\<close>

lemma candidates_set: "mset (ordered_candidates hash i entries routes avoid) = mset entries"
  unfolding ordered_candidates_def mset_map mset_sort
  by (simp flip: mset_map)

lemma candidates_sorted:
  assumes "a < b" "b < length entries" and cs: "cs = ordered_candidates hash i entries routes avoid"
  shows "(if Some (cs ! a) = avoid \<and> length entries > 1 then 1 else 0 :: nat, uses routes (cs ! a)) \<le>
         (if Some (cs ! b) = avoid \<and> length entries > 1 then 1 else 0, uses routes (cs ! b))"
proof -
  let ?k = "candidate_key hash i entries routes avoid"
  let ?xs = "sort_key ?k (enumerate 0 entries)"
  have "sorted (map ?k ?xs)" by simp
  then have "?k (?xs ! a) \<le> ?k (?xs ! b)"
    using sorted_nth_mono [of "map ?k ?xs" a b] assms(1, 2) by simp
  moreover have "cs ! a = snd (?xs ! a)" "cs ! b = snd (?xs ! b)"
    using assms(1, 2) by (simp_all add: cs ordered_candidates_def)
  ultimately show ?thesis
    by (cases "?xs ! a"; cases "?xs ! b") (auto simp: candidate_key_def less_eq_prod_def split: if_splits)
qed

text \<open>Distinct proxies come before shared ones, and the avoided proxy comes last.\<close>

lemma uses_0: "uses routes u = 0 \<longleftrightarrow> (\<forall>r \<in> set (map snd routes). url r \<noteq> u)"
  by (auto simp: uses_def filter_empty_conv)

lemma candidates_length [simp]: "length (ordered_candidates hash i entries routes avoid) = length entries"
  by (metis candidates_set size_mset)

lemma free_first:
  assumes "u \<in> set entries" "uses routes u = 0" "avoid \<noteq> Some u"
  shows "uses routes (hd (ordered_candidates hash i entries routes avoid)) = 0 \<and>
    (length entries > 1 \<longrightarrow> avoid \<noteq> Some (hd (ordered_candidates hash i entries routes avoid)))"
proof -
  let ?cs = "ordered_candidates hash i entries routes avoid"
  have "u \<in> set ?cs" by (metis assms(1) candidates_set set_mset_mset)
  then obtain b where b: "b < length entries" "?cs ! b = u"
    by (metis candidates_length in_set_conv_nth)
  have hd: "hd ?cs = ?cs ! 0"
    using b(1) by (metis candidates_length hd_conv_nth length_greater_0_conv not_less_zero list.size(3))
  show ?thesis
  proof (cases b)
    case 0
    then show ?thesis using b assms hd by auto
  next
    case (Suc n)
    with candidates_sorted [of 0 b entries ?cs hash i routes avoid] b assms
    show ?thesis by (auto simp: hd less_eq_prod_def split: if_splits)
  qed
qed

lemma last_at: "CHR ''@'' \<notin> set host \<Longrightarrow> after_last_at (user @ CHR ''@'' # host) = Some host"
proof (induction user)
  case Nil
  then have "after_last_at host = None"
    by (induction host) auto
  then show ?case by simp
qed simp

lemma scheme_split: "CHR '':'' \<notin> set scheme \<Longrightarrow> split_scheme (scheme @ ''://'' @ rest) = Some (scheme, rest)"
  by (induction scheme) (auto simp: starts_with_def)

end
