(* ===== verification/ProxyManager.thy ===== *)
theory ProxyManager
  imports ProxyPool "HOL-Library.List_Lexorder" "HOL-Library.Char_ord"
begin

text \<open>
  \<open>ProxyManager\<close> of \<open>src/proxy_manager.rs\<close>: which address the server's requests leave through, in
  general and for each account, and how that changes when a proxy fails, when the owner edits the list
  and when other instances share the accounts.

  What runs under \<open>switch_lock\<close> is one step: nothing else changes the list or a binding meanwhile (the
  operations outside the lock only count failures and set \<open>ready\<close>, \<open>fails\<close> and \<open>last_try\<close>). The resolve
  of a general proxy gives way to the rest of the program while it probes; \<open>others k\<close> is what that does.
  Writes to the database and the shared store, whose failures are only logged, are listed in
  \<open>out\<close>. Generations and failure counters are \<open>nat\<close>.
\<close>

section \<open>State\<close>

datatype proxy_effect =
    SaveBinding string string
  | DropBinding string
  | ShareFp string string
  | ShareFpNx string string
  | UnshareFp string

record proxy_env =
  net :: egress
  agent :: string
  spread :: "string \<Rightarrow> nat"
  fp :: "string \<Rightarrow> string"
  use_proxies :: bool
  fallback_to_direct :: bool
  rotate_on_refresh :: bool
  add_one :: string
  has_db :: bool
  has_store :: bool

record proxy_manager =
  enabled :: bool
  proxies :: "string list"
  direct_client :: http_client
  direct_auth_client :: http_client
  client :: http_client
  current :: "string option"
  ready :: bool
  fails :: nat
  last_try :: int
  rotating :: bool
  generation :: nat
  routes :: assignments
  avoided :: "(string, string) hash_map"
  last_failed :: "(string, int) hash_map"
  out :: "proxy_effect list"

definition proxy_manager_new :: "proxy_env \<Rightarrow> http_client \<Rightarrow> http_client \<Rightarrow> string option \<Rightarrow> proxy_manager" where
  "proxy_manager_new e direct direct_auth file =
     \<lparr>enabled = use_proxies e, proxies = load_proxies_from_file file, direct_client = direct,
      direct_auth_client = direct_auth, client = direct, current = None, ready = False, fails = 0,
      last_try = 0, rotating = False, generation = 0, routes = [], avoided = [], last_failed = [], out = []\<rparr>"

definition emit_to :: "bool \<Rightarrow> proxy_effect \<Rightarrow> proxy_manager \<Rightarrow> proxy_manager" where
  "emit_to attached x m = (if attached then m\<lparr>out := out m @ [x]\<rparr> else m)"

section \<open>Bindings\<close>

definition assign :: "proxy_env \<Rightarrow> string \<Rightarrow> string \<Rightarrow> bool \<Rightarrow> proxy_manager \<Rightarrow> http_client option \<times> proxy_manager" where
  "assign e aid u ok m =
     (case (build_client (net e) (Some u) (agent e), build_auth_client (net e) (Some u) (agent e)) of
        (Inr c, Inr a) \<Rightarrow>
          (Some c,
           emit_to (has_store e) (ShareFp aid (fp e u))
             (emit_to (has_db e) (SaveBinding aid u)
                (m\<lparr>routes := hm_insert aid
                     \<lparr>url = u, api_client = c, auth_client = a, failures = 0, verified = ok\<rparr> (routes m),
                   avoided := hm_remove aid (avoided m), last_failed := hm_remove aid (last_failed m)\<rparr>)))
      | _ \<Rightarrow> (None, m))"

definition clear_assignment :: "proxy_env \<Rightarrow> string \<Rightarrow> proxy_manager \<Rightarrow> proxy_manager" where
  "clear_assignment e aid m = emit_to (has_store e) (UnshareFp aid) (emit_to (has_db e) (DropBinding aid) m)"

definition rotate_account :: "proxy_env \<Rightarrow> string \<Rightarrow> proxy_manager \<Rightarrow> proxy_manager" where
  "rotate_account e aid m =
     (case hm_get (routes m) aid of
        None \<Rightarrow> m\<lparr>routes := hm_remove aid (routes m)\<rparr>
      | Some r \<Rightarrow>
          clear_assignment e aid
            (m\<lparr>routes := hm_remove aid (routes m), avoided := hm_insert aid (url r) (avoided m),
               last_failed := hm_remove aid (last_failed m)\<rparr>))"

definition forget_account :: "proxy_env \<Rightarrow> string \<Rightarrow> proxy_manager \<Rightarrow> proxy_manager" where
  "forget_account e aid m =
     clear_assignment e aid
       (m\<lparr>routes := hm_remove aid (routes m), avoided := hm_remove aid (avoided m),
          last_failed := hm_remove aid (last_failed m)\<rparr>)"

definition note_success_for :: "string \<Rightarrow> proxy_manager \<Rightarrow> proxy_manager" where
  "note_success_for aid m =
     (case hm_get (routes m) aid of
        None \<Rightarrow> m
      | Some r \<Rightarrow> m\<lparr>routes := hm_insert aid (r\<lparr>failures := 0\<rparr>) (routes m)\<rparr>)"

definition note_failure_for :: "proxy_env \<Rightarrow> string \<Rightarrow> proxy_manager \<Rightarrow> proxy_manager" where
  "note_failure_for e aid m =
     (if \<not> enabled m then m
      else case hm_get (routes m) aid of
             None \<Rightarrow> m
           | Some r \<Rightarrow>
               (let n = failures r + 1; m = m\<lparr>routes := hm_insert aid (r\<lparr>failures := n\<rparr>) (routes m)\<rparr>
                in if n \<ge> 3 then rotate_account e aid m else m))"

section \<open>Rebalancing\<close>

definition loads_of :: "assignments \<Rightarrow> (string, nat) hash_map" where
  "loads_of rs = fold (\<lambda>r l. hm_insert (url r) ((case hm_get l (url r) of None \<Rightarrow> 0 | Some n \<Rightarrow> n) + 1) l)
     (map snd rs) []"

text \<open>The most loaded address that is shared, the last in order among equals.\<close>

definition pick_source :: "(string, nat) hash_map \<Rightarrow> string option" where
  "pick_source loads =
     (case filter (\<lambda>(u, n). n > 1) loads of
        [] \<Rightarrow> None
      | shared \<Rightarrow> Some (snd (Max (set (map (\<lambda>(u, n). (n, u)) shared)))))"

definition last_on :: "string \<Rightarrow> assignments \<Rightarrow> string option" where
  "last_on u rs =
     (case map fst (filter (\<lambda>(_, r). url r = u) rs) of
        [] \<Rightarrow> None
      | ids \<Rightarrow> Some (Max (set ids)))"

fun rebalance_loop ::
    "proxy_env \<Rightarrow> (string \<times> proxy_health) list \<Rightarrow> (string, nat) hash_map \<Rightarrow> proxy_manager \<Rightarrow> proxy_manager" where
  "rebalance_loop e [] loads m = m"
| "rebalance_loop e ((target, health) # rest) loads m =
     (if health \<noteq> Healthy then rebalance_loop e rest loads m
      else case pick_source loads of
             None \<Rightarrow> m
           | Some source \<Rightarrow>
               (case last_on source (routes m) of
                  None \<Rightarrow> rebalance_loop e rest loads m
                | Some aid \<Rightarrow>
                    (case assign e aid target True m of
                       (None, m) \<Rightarrow> rebalance_loop e rest loads m
                     | (Some _, m) \<Rightarrow>
                         rebalance_loop e rest
                           (hm_insert target 1
                              (hm_insert source (the (hm_get loads source) - 1) loads)) m)))"

definition rebalance_assignments_locked ::
    "proxy_env \<Rightarrow> probes \<Rightarrow> string list \<Rightarrow> proxy_manager \<Rightarrow> proxy_manager" where
  "rebalance_assignments_locked e seen entries m =
     (let loads = loads_of (routes m)
      in if \<not> list_ex (\<lambda>(_, n). n > 1) loads then m
         else (let free = filter (\<lambda>u. hm_get loads u = None) entries
               in rebalance_loop e (map (\<lambda>u. (u, probe_proxy (net e) (agent e) seen u)) free) loads m))"

section \<open>Starting and configuring\<close>

text \<open>\<open>load_assignments\<close>; \<open>rows\<close> is what the query gives, \<open>None\<close> when it fails. The sign-in client of a row is
  built with \<open>expect\<close>: a proxy whose other client could be built is taken to have it.\<close>

definition restore_row :: "proxy_env \<Rightarrow> string list \<Rightarrow> string \<times> string \<Rightarrow> assignments \<Rightarrow> assignments" where
  "restore_row e entries = (\<lambda>(aid, u) rs.
     if u \<notin> set entries then rs
     else case (build_client (net e) (Some u) (agent e), build_auth_client (net e) (Some u) (agent e)) of
            (Inr c, Inr a) \<Rightarrow>
              hm_insert aid \<lparr>url = u, api_client = c, auth_client = a, failures = 0, verified = False\<rparr> rs
          | _ \<Rightarrow> rs)"

definition load_assignments ::
    "proxy_env \<Rightarrow> probes \<Rightarrow> (string \<times> string) list option \<Rightarrow> proxy_manager \<Rightarrow> proxy_manager" where
  "load_assignments e seen rows m =
     (case (has_db e, rows) of
        (True, Some rows) \<Rightarrow>
          (let m = m\<lparr>routes := fold (restore_row e (proxies m)) rows [], avoided := [], last_failed := []\<rparr>
           in if enabled m then rebalance_assignments_locked e seen (proxies m) m else m)
      | _ \<Rightarrow> m)"

text \<open>The stores \<open>configure\<close> makes before it looks at the bindings, one by one.\<close>

definition configure_stores :: "bool \<Rightarrow> string list \<Rightarrow> (proxy_manager \<Rightarrow> proxy_manager) list" where
  "configure_stores enable us =
     [\<lambda>m. m\<lparr>generation := generation m + 1\<rparr>,
      \<lambda>m. m\<lparr>proxies := us\<rparr>,
      \<lambda>m. m\<lparr>current := None\<rparr>,
      \<lambda>m. m\<lparr>client := direct_client m\<rparr>,
      \<lambda>m. m\<lparr>enabled := enable\<rparr>,
      \<lambda>m. m\<lparr>ready := \<not> enable\<rparr>,
      \<lambda>m. m\<lparr>fails := 0\<rparr>,
      \<lambda>m. m\<lparr>last_try := 0\<rparr>]"

definition configure_routes :: "proxy_env \<Rightarrow> string list \<Rightarrow> proxy_manager \<Rightarrow> proxy_manager" where
  "configure_routes e us m =
     (let removed = map fst (filter (\<lambda>(_, r). url r \<notin> set us) (routes m))
      in fold (clear_assignment e) removed
           (m\<lparr>routes := hm_retain (\<lambda>_ r. url r \<in> set us) (routes m),
              avoided := hm_retain (\<lambda>_ u. u \<in> set us) (avoided m), last_failed := []\<rparr>))"

definition configure ::
    "proxy_env \<Rightarrow> probes \<Rightarrow> bool \<Rightarrow> string list \<Rightarrow> proxy_manager \<Rightarrow> (app_error + unit) \<times> proxy_manager" where
  "configure e seen enable raw m =
     (case normalize_proxies (net e) (add_one e) raw enable of
        Inl err \<Rightarrow> (Inl err, m)
      | Inr us \<Rightarrow>
          (let added = (\<exists>u \<in> set us. u \<notin> set (proxies m));
               was_enabled = enabled m;
               m = configure_routes e us (fold (\<lambda>f. f) (configure_stores enable us) m)
           in (Inr (), if enable \<and> (added \<or> \<not> was_enabled) then rebalance_assignments_locked e seen us m
                       else m)))"

section \<open>Shared bindings\<close>

definition sync_one ::
    "proxy_env \<Rightarrow> string list \<Rightarrow> (string \<Rightarrow> string option) \<Rightarrow> string \<times> string \<Rightarrow> proxy_manager \<Rightarrow> proxy_manager" where
  "sync_one e entries shared = (\<lambda>(aid, u) m.
     case reconcile_binding (fp e) u (shared aid) entries (hm_get (avoided m) aid) of
       Keep \<Rightarrow> m
     | Publish \<Rightarrow> emit_to True (ShareFpNx aid (fp e u)) m
     | Offer \<Rightarrow> emit_to True (ShareFp aid (fp e u)) m
     | Adopt target \<Rightarrow> snd (assign e aid target False m))"

definition sync_shared_assignments ::
    "proxy_env \<Rightarrow> bool \<Rightarrow> (string \<Rightarrow> string option) \<Rightarrow> proxy_manager \<Rightarrow> proxy_manager" where
  "sync_shared_assignments e alive shared m =
     (if \<not> has_store e \<or> \<not> enabled m \<or> \<not> alive then m
      else fold (sync_one e (proxies m) shared) (map (\<lambda>(aid, r). (aid, url r)) (routes m)) m)"

section \<open>The proxy of one account\<close>

definition unavailable_for :: "proxy_env \<Rightarrow> proxy_manager \<Rightarrow> app_error + http_client" where
  "unavailable_for e m =
     (if fallback_to_direct e then Inr (direct_client m)
      else Inl (ServiceUnavailable ''No working proxy available and direct fallback is disabled''))"

text \<open>
  The candidates in groups of five: a group is probed at once, its answers are read in order. The
  result is the client of the first one that answers and can be bound, or the refused proxy to fall
  back on.
\<close>

fun try_group ::
    "proxy_env \<Rightarrow> string \<Rightarrow> (string \<times> proxy_health) list \<Rightarrow> string option \<Rightarrow> proxy_manager \<Rightarrow>
     (http_client + string option) \<times> proxy_manager" where
  "try_group e aid [] fallback m = (Inr fallback, m)"
| "try_group e aid ((u, health) # rest) fallback m =
     (case health of
        Blocked \<Rightarrow> try_group e aid rest (case fallback of None \<Rightarrow> Some u | Some f \<Rightarrow> Some f) m
      | Dead \<Rightarrow> try_group e aid rest fallback m
      | Healthy \<Rightarrow>
          (case assign e aid u True m of
             (Some c, m) \<Rightarrow> (Inl c, m)
           | (None, m) \<Rightarrow> try_group e aid rest fallback m))"

function try_candidates ::
    "proxy_env \<Rightarrow> probes \<Rightarrow> string \<Rightarrow> string list \<Rightarrow> string option \<Rightarrow> proxy_manager \<Rightarrow>
     (http_client + string option) \<times> proxy_manager" where
  "try_candidates e seen aid cs fallback m =
     (if cs = [] then (Inr fallback, m)
      else case try_group e aid (map (\<lambda>u. (u, probe_proxy (net e) (agent e) seen u)) (take 5 cs)) fallback m of
             (Inl c, m) \<Rightarrow> (Inl c, m)
           | (Inr fallback, m) \<Rightarrow> try_candidates e seen aid (drop 5 cs) fallback m)"
  by pat_completeness auto
termination by (relation "measure (\<lambda>(e, seen, aid, cs, fallback, m). length cs)") auto

declare try_candidates.simps [simp del]

definition shared_proxy_for :: "proxy_env \<Rightarrow> string option \<Rightarrow> string list \<Rightarrow> string option" where
  "shared_proxy_for e shared entries =
     (if has_store e then Option.bind shared (\<lambda>s. List.find (\<lambda>u. fp e u = s) entries) else None)"

text \<open>
  What a call finds out there: the two rounds of probes (the binding that is not verified, then the
  candidates), the clock and the shared fingerprint.
\<close>

record proxy_run =
  recheck :: probes
  search :: probes
  clock :: int
  shared_fp :: "string option"

datatype existing_end =
    Served http_client
  | NoBinding "string option"

definition try_existing ::
    "proxy_env \<Rightarrow> probes \<Rightarrow> string \<Rightarrow> proxy_manager \<Rightarrow> existing_end \<times> proxy_manager" where
  "try_existing e seen aid m =
     (case hm_get (routes m) aid of
        None \<Rightarrow> (NoBinding None, m)
      | Some r \<Rightarrow>
          if url r \<notin> set (proxies m) then (NoBinding None, m\<lparr>routes := hm_remove aid (routes m)\<rparr>)
          else if verified r then (Served (api_client r), m)
          else (let health = probe_proxy (net e) (agent e) seen (url r)
                in if health = Healthy
                   then (Served (api_client r), m\<lparr>routes := hm_insert aid (r\<lparr>verified := True\<rparr>) (routes m)\<rparr>)
                   else (NoBinding (if health = Blocked then Some (url r) else None),
                         m\<lparr>avoided := hm_insert aid (url r) (avoided m), routes := hm_remove aid (routes m)\<rparr>)))"

definition candidates_for :: "proxy_env \<Rightarrow> proxy_run \<Rightarrow> string \<Rightarrow> proxy_manager \<Rightarrow> string list" where
  "candidates_for e w aid m =
     (let avoid = hm_get (avoided m) aid; cs = ordered_candidates (spread e) aid (proxies m) (routes m) avoid
      in case shared_proxy_for e (shared_fp w) (proxies m) of
           None \<Rightarrow> cs
         | Some s \<Rightarrow> if avoid \<noteq> Some s then s # filter (\<lambda>u. u \<noteq> s) cs else cs)"

definition search_for ::
    "proxy_env \<Rightarrow> proxy_run \<Rightarrow> string \<Rightarrow> string option \<Rightarrow> proxy_manager \<Rightarrow>
     (app_error + http_client) \<times> proxy_manager" where
  "search_for e w aid fallback m =
     (if (case hm_get (last_failed m) aid of None \<Rightarrow> False | Some t \<Rightarrow> clock w - t < 30)
      then (unavailable_for e m, m)
      else
        (let unserved = (\<lambda>m. (unavailable_for e m, m\<lparr>last_failed := hm_insert aid (clock w) (last_failed m)\<rparr>))
         in case try_candidates e (search w) aid (candidates_for e w aid m) fallback m of
              (Inl c, m) \<Rightarrow> (Inr c, m)
            | (Inr None, m) \<Rightarrow> unserved m
            | (Inr (Some u), m) \<Rightarrow>
                (case assign e aid u True m of
                   (Some c, m) \<Rightarrow> (Inr c, m)
                 | (None, m) \<Rightarrow> unserved m)))"

definition working_client_for ::
    "proxy_env \<Rightarrow> proxy_run \<Rightarrow> string \<Rightarrow> proxy_manager \<Rightarrow> (app_error + http_client) \<times> proxy_manager" where
  "working_client_for e w aid m =
     (if \<not> enabled m then (Inr (direct_client m), m)
      else case Option.bind (hm_get (routes m) aid) (\<lambda>r. if verified r then Some (api_client r) else None) of
        Some c \<Rightarrow> (Inr c, m)
      | None \<Rightarrow>
          (case try_existing e (recheck w) aid m of
             (Served c, m) \<Rightarrow> (Inr c, m)
           | (NoBinding fallback, m) \<Rightarrow> search_for e w aid fallback m))"

definition working_auth_client_for ::
    "proxy_env \<Rightarrow> proxy_run \<Rightarrow> (proxy_manager \<Rightarrow> proxy_manager) \<Rightarrow> string \<Rightarrow> proxy_manager \<Rightarrow>
     (app_error + http_client) \<times> proxy_manager" where
  "working_auth_client_for e w others aid m =
     (case working_client_for e w aid m of
        (Inl err, m) \<Rightarrow> (Inl err, m)
      | (Inr _, m) \<Rightarrow>
          (let m = others m
           in (if \<not> enabled m then Inr (direct_auth_client m)
               else case hm_get (routes m) aid of
                      Some r \<Rightarrow> Inr (auth_client r)
                    | None \<Rightarrow>
                        if fallback_to_direct e then Inr (direct_auth_client m)
                        else Inl (ServiceUnavailable ''Account proxy changed during auth resolution''), m)))"

section \<open>The general proxy\<close>

definition current_client :: "proxy_manager \<Rightarrow> http_client" where
  "current_client m = (if enabled m then client m else direct_client m)"

text \<open>\<open>get_working_proxy\<close>: a shuffle with the random numbers \<open>rng\<close>, then at most three probes.\<close>

definition swap_at :: "nat \<Rightarrow> nat \<Rightarrow> 'a list \<Rightarrow> 'a list" where
  "swap_at i j xs = xs[i := xs ! j, j := xs ! i]"

definition shuffle_proxies :: "(nat \<Rightarrow> nat) \<Rightarrow> 'a list \<Rightarrow> 'a list" where
  "shuffle_proxies rng xs = fold (\<lambda>i ys. swap_at i (rng i mod (i + 1)) ys) (rev [1..<length xs]) xs"

fun first_working :: "proxy_env \<Rightarrow> probes \<Rightarrow> string list \<Rightarrow> string option \<Rightarrow> string option" where
  "first_working e seen [] blocked = blocked"
| "first_working e seen (u # us) blocked =
     (case probe_proxy (net e) (agent e) seen u of
        Healthy \<Rightarrow> Some u
      | Blocked \<Rightarrow> first_working e seen us (case blocked of None \<Rightarrow> Some u | Some b \<Rightarrow> Some b)
      | Dead \<Rightarrow> first_working e seen us blocked)"

definition get_working_proxy ::
    "proxy_env \<Rightarrow> probes \<Rightarrow> (nat \<Rightarrow> nat) \<Rightarrow> string option \<Rightarrow> proxy_manager \<Rightarrow> string option" where
  "get_working_proxy e seen rng avoid m =
     first_working e seen
       (take 3 (filter (\<lambda>u. avoid \<noteq> Some u) (shuffle_proxies rng (proxies m)))) None"

definition swap_to :: "proxy_env \<Rightarrow> string option \<Rightarrow> nat \<Rightarrow> proxy_manager \<Rightarrow> bool \<times> proxy_manager" where
  "swap_to e proxy gen m =
     (if \<not> enabled m \<or> generation m \<noteq> gen then (False, m)
      else case build_client (net e) proxy (agent e) of
             Inr c \<Rightarrow> (True, m\<lparr>client := c, current := proxy, ready := True, fails := 0\<rparr>)
           | Inl _ \<Rightarrow> (False, m\<lparr>ready := False\<rparr>))"

text \<open>
  A resolve: \<open>others 0\<close> runs before the list is read, \<open>others 1\<close> while the proxies are probed.
\<close>

record resolve_run =
  probed :: probes
  rng :: "nat \<Rightarrow> nat"
  resolve_clock :: int
  others :: "nat \<Rightarrow> proxy_manager \<Rightarrow> proxy_manager"

definition resolve_and_swap ::
    "proxy_env \<Rightarrow> resolve_run \<Rightarrow> string option \<Rightarrow> nat \<Rightarrow> proxy_manager \<Rightarrow> bool \<times> proxy_manager" where
  "resolve_and_swap e w avoid gen m =
     (let m = others w 0 m
      in case get_working_proxy e (probed w) (rng w) avoid m of
           Some p \<Rightarrow> swap_to e (Some p) gen (others w 1 m)
         | None \<Rightarrow> (False, others w 1 m))"

definition try_resolve :: "proxy_env \<Rightarrow> resolve_run \<Rightarrow> proxy_manager \<Rightarrow> bool \<times> proxy_manager" where
  "try_resolve e w m =
     (if ready m then (True, m)
      else if resolve_clock w - last_try m < 30 then (False, m)
      else resolve_and_swap e w None (generation m) (m\<lparr>last_try := resolve_clock w\<rparr>))"

definition working_client :: "proxy_env \<Rightarrow> resolve_run \<Rightarrow> proxy_manager \<Rightarrow> (app_error + http_client) \<times> proxy_manager" where
  "working_client e w m =
     (if \<not> enabled m then (Inr (direct_client m), m)
      else if ready m then (Inr (current_client m), m)
      else case try_resolve e w m of
             (True, m) \<Rightarrow> (Inr (current_client m), m)
           | (False, m) \<Rightarrow> (unavailable_for e m, m))"

definition working_auth_client ::
    "proxy_env \<Rightarrow> resolve_run \<Rightarrow> (proxy_manager \<Rightarrow> proxy_manager) \<Rightarrow> proxy_manager \<Rightarrow>
     (app_error + http_client) \<times> proxy_manager" where
  "working_auth_client e w later m =
     (case working_client e w m of
        (Inl err, m) \<Rightarrow> (Inl err, m)
      | (Inr _, m) \<Rightarrow>
          (let m = later m
           in (if \<not> enabled m then Inr (direct_auth_client m)
               else case current m of
                      Some u \<Rightarrow>
                        (case build_auth_client (net e) (Some u) (agent e) of
                           Inr c \<Rightarrow> Inr c
                         | Inl err \<Rightarrow> Inl (ServiceUnavailable err))
                    | None \<Rightarrow>
                        if fallback_to_direct e then Inr (direct_auth_client m)
                        else Inl (ServiceUnavailable ''No auth proxy available''), m)))"

definition replace_auth_client ::
    "proxy_env \<Rightarrow> resolve_run \<Rightarrow> resolve_run \<Rightarrow> (proxy_manager \<Rightarrow> proxy_manager) \<Rightarrow> proxy_manager \<Rightarrow>
     (app_error + http_client) \<times> proxy_manager" where
  "replace_auth_client e w again later m =
     (if \<not> enabled m then (Inr (direct_auth_client m), m)
      else case resolve_and_swap e w (current m) (generation m) (m\<lparr>ready := False\<rparr>) of
             (True, m) \<Rightarrow> working_auth_client e again later m
           | (False, m) \<Rightarrow>
               (if fallback_to_direct e then Inr (direct_auth_client m)
                else Inl (ServiceUnavailable ''No other working proxy for Tidal sign-in''), m))"

definition spawn_initial_resolve :: "proxy_env \<Rightarrow> resolve_run \<Rightarrow> proxy_manager \<Rightarrow> proxy_manager" where
  "spawn_initial_resolve e w m =
     (if \<not> enabled m then m\<lparr>ready := True\<rparr> else snd (try_resolve e w m))"

definition note_success :: "proxy_manager \<Rightarrow> proxy_manager" where
  "note_success m = m\<lparr>fails := 0\<rparr>"

definition should_rotate_on_refresh :: "proxy_env \<Rightarrow> proxy_manager \<Rightarrow> bool" where
  "should_rotate_on_refresh e m \<longleftrightarrow> enabled m \<and> rotate_on_refresh e"

text \<open>
  \<open>rotate\<close>: the task it spawns, unless one is running. \<open>others 0\<close> runs before the task reads the list,
  \<open>others 1\<close> before the switch, \<open>others 2\<close> after it and \<open>others 3\<close> while the new proxy is probed.
\<close>

fun position :: "'a \<Rightarrow> 'a list \<Rightarrow> nat option" where
  "position x [] = None"
| "position x (y # ys) = (if y = x then Some 0 else map_option Suc (position x ys))"

definition rotation_target :: "proxy_manager \<Rightarrow> string option" where
  "rotation_target m =
     (if proxies m = [] then None
      else (let start = (case Option.bind (current m) (\<lambda>c. position c (proxies m)) of
                           Some i \<Rightarrow> (i + 1) mod length (proxies m) | None \<Rightarrow> 0)
            in Some (proxies m ! start)))"

definition rotate_task :: "proxy_env \<Rightarrow> resolve_run \<Rightarrow> proxy_manager \<Rightarrow> proxy_manager" where
  "rotate_task e w m =
     (let gen = generation m; m = others w 0 m
      in case rotation_target m of
           Some p \<Rightarrow>
             (case swap_to e (Some p) gen (others w 1 m) of
                (False, m) \<Rightarrow> m\<lparr>rotating := False\<rparr>
              | (True, m) \<Rightarrow>
                  (let m = others w 2 m; check = current m; m = others w 3 m;
                       bad = (case check of None \<Rightarrow> False
                              | Some u \<Rightarrow> probe_proxy (net e) (agent e) (probed w) u = Dead)
                   in (if bad \<and> generation m = gen then m\<lparr>ready := False\<rparr> else m)\<lparr>rotating := False\<rparr>))
         | None \<Rightarrow> (if generation m = gen then m\<lparr>ready := False\<rparr> else m)\<lparr>rotating := False\<rparr>)"

definition rotate_now :: "proxy_env \<Rightarrow> resolve_run \<Rightarrow> proxy_manager \<Rightarrow> proxy_manager" where
  "rotate_now e w m = (if rotating m then m else rotate_task e w (m\<lparr>rotating := True\<rparr>))"

definition note_failure :: "proxy_env \<Rightarrow> resolve_run \<Rightarrow> proxy_manager \<Rightarrow> proxy_manager" where
  "note_failure e w m =
     (if \<not> enabled m then m
      else (let n = fails m + 1
            in if n \<ge> 3 then rotate_now e w (m\<lparr>fails := 0\<rparr>) else m\<lparr>fails := n\<rparr>))"

section \<open>Status\<close>

record binding_view =
  view_account :: string
  view_proxy :: string
  view_verified :: bool
  view_fails :: nat

record status_view =
  view_enabled :: bool
  view_ready :: bool
  view_current :: "string option"
  view_pool :: nat
  view_total_fails :: nat
  view_last_try :: int
  view_fallback :: bool
  view_entries :: "string list"
  view_bindings :: "binding_view list"

definition proxy_status :: "proxy_env \<Rightarrow> proxy_manager \<Rightarrow> status_view" where
  "proxy_status e m =
     \<lparr>view_enabled = enabled m, view_ready = (ready m \<or> list_ex (\<lambda>(_, r). verified r) (routes m)),
      view_current = map_option mask_proxy (current m), view_pool = length (proxies m),
      view_total_fails = fails m, view_last_try = last_try m, view_fallback = fallback_to_direct e,
      view_entries = proxies m,
      view_bindings = sort_key view_account
        (map (\<lambda>(aid, r). \<lparr>view_account = aid, view_proxy = mask_proxy (url r), view_verified = verified r,
           view_fails = failures r\<rparr>) (routes m))\<rparr>"

end
