(* ===== verification/ProxyProps.thy ===== *)
theory ProxyProps
  imports ProxyManager
begin

text \<open>
  What the proxy manager guarantees: its well-formedness, that no traffic of a server in proxy mode
  leaves from the host's own address, which proxy an account gets, and that accounts do not disturb
  each other.
\<close>

section \<open>Steps\<close>

inductive proxy_step :: "proxy_env \<Rightarrow> proxy_manager \<Rightarrow> proxy_manager \<Rightarrow> bool" for e where
  by_configure: "configure e seen enable raw m = (r, m') \<Longrightarrow> proxy_step e m m'"
| by_load: "proxy_step e m (load_assignments e seen rows m)"
| by_sync: "proxy_step e m (sync_shared_assignments e alive shared m)"
| by_account: "working_client_for e w aid m = (r, m') \<Longrightarrow> proxy_step e m m'"
| by_success_for: "proxy_step e m (note_success_for aid m)"
| by_failure_for: "proxy_step e m (note_failure_for e aid m)"
| by_rotate: "proxy_step e m (rotate_account e aid m)"
| by_forget: "proxy_step e m (forget_account e aid m)"
| by_swap: "swap_to e (Some p) gen m = (b, m') \<Longrightarrow> proxy_step e m m'"
| by_clock: "proxy_step e m (m\<lparr>last_try := t\<rparr>)"
| by_unready: "proxy_step e m (m\<lparr>ready := False\<rparr>)"
| by_direct: "\<not> enabled m \<Longrightarrow> proxy_step e m (m\<lparr>ready := True\<rparr>)"
| by_count: "proxy_step e m (m\<lparr>fails := n\<rparr>)"
| by_flag: "proxy_step e m (m\<lparr>rotating := b\<rparr>)"

definition binding_ok :: "proxy_env \<Rightarrow> string list \<Rightarrow> account_proxy \<Rightarrow> bool" where
  "binding_ok e us r \<longleftrightarrow>
     url r \<in> set us \<and> build_client (net e) (Some (url r)) (agent e) = Inr (api_client r) \<and>
     build_auth_client (net e) (Some (url r)) (agent e) = Inr (auth_client r)"

definition routes_ok :: "proxy_env \<Rightarrow> string list \<Rightarrow> assignments \<Rightarrow> bool" where
  "routes_ok e us rs \<longleftrightarrow> hm_wf rs \<and> (\<forall>x \<in> set rs. binding_ok e us (snd x))"

definition pool_ok :: "proxy_env \<Rightarrow> proxy_manager \<Rightarrow> bool" where
  "pool_ok e m \<longleftrightarrow>
     routes_ok e (proxies m) (routes m) \<and> via (direct_client m) = None \<and> via (direct_auth_client m) = None \<and>
     via (client m) = current m \<and> (enabled m \<and> ready m \<longrightarrow> current m \<noteq> None)"

section \<open>Bindings\<close>

lemma found: "List.find P xs = Some x \<Longrightarrow> x \<in> set xs \<and> P x"
  by (induction xs) (auto split: if_splits)

lemma routes_okD: "routes_ok e us rs \<Longrightarrow> hm_get rs aid = Some r \<Longrightarrow> binding_ok e us r"
  unfolding routes_ok_def hm_get_def by (force dest: map_of_SomeD)

lemma routes_ok_empty [simp]: "routes_ok e us []"
  by (simp add: routes_ok_def hm_wf_def)

lemma set_hm_insert: "x \<in> set (hm_insert k v rs) \<Longrightarrow> x = (k, v) \<or> x \<in> set rs"
  unfolding hm_insert_def by (induction rs) (auto split: if_splits)

lemma routes_ok_insert:
  "routes_ok e us rs \<Longrightarrow> binding_ok e us r \<Longrightarrow> routes_ok e us (hm_insert aid r rs)"
  unfolding routes_ok_def by (auto simp: hm_wf_insert dest: set_hm_insert)

lemma routes_ok_remove: "routes_ok e us rs \<Longrightarrow> routes_ok e us (hm_remove aid rs)"
  unfolding routes_ok_def hm_remove_def AList.delete_eq by (auto simp: hm_wf_def distinct_map_filter)

lemma routes_ok_touch:
  "routes_ok e us rs \<Longrightarrow> hm_get rs aid = Some r \<Longrightarrow>
    routes_ok e us (hm_insert aid (r\<lparr>failures := n\<rparr>) rs) \<and> routes_ok e us (hm_insert aid (r\<lparr>verified := b\<rparr>) rs)"
  by (auto intro!: routes_ok_insert dest: routes_okD simp: binding_ok_def)

lemma emit_fields [simp]:
  "routes (emit_to b x m) = routes m" "proxies (emit_to b x m) = proxies m" "client (emit_to b x m) = client m"
  "current (emit_to b x m) = current m" "enabled (emit_to b x m) = enabled m" "ready (emit_to b x m) = ready m"
  "direct_client (emit_to b x m) = direct_client m" "direct_auth_client (emit_to b x m) = direct_auth_client m"
  "avoided (emit_to b x m) = avoided m" "last_failed (emit_to b x m) = last_failed m"
  "generation (emit_to b x m) = generation m"
  by (simp_all add: emit_to_def)

lemma clear_fields [simp]:
  "routes (clear_assignment e aid m) = routes m" "proxies (clear_assignment e aid m) = proxies m"
  "client (clear_assignment e aid m) = client m" "current (clear_assignment e aid m) = current m"
  "enabled (clear_assignment e aid m) = enabled m" "ready (clear_assignment e aid m) = ready m"
  "direct_client (clear_assignment e aid m) = direct_client m"
  "direct_auth_client (clear_assignment e aid m) = direct_auth_client m"
  "avoided (clear_assignment e aid m) = avoided m" "last_failed (clear_assignment e aid m) = last_failed m"
  "generation (clear_assignment e aid m) = generation m"
  by (simp_all add: clear_assignment_def)

text \<open>What a step about bindings leaves alone.\<close>

definition same_egress :: "proxy_manager \<Rightarrow> proxy_manager \<Rightarrow> bool" where
  "same_egress m m' \<longleftrightarrow>
     proxies m' = proxies m \<and> client m' = client m \<and> current m' = current m \<and> enabled m' = enabled m \<and>
     ready m' = ready m \<and> direct_client m' = direct_client m \<and> direct_auth_client m' = direct_auth_client m \<and>
     generation m' = generation m"

lemma same_egress_refl [simp, intro]: "same_egress m m"
  by (simp add: same_egress_def)

lemma same_egress_trans: "same_egress a b \<Longrightarrow> same_egress b c \<Longrightarrow> same_egress a c"
  by (simp add: same_egress_def)

lemma pool_ok_same:
  "pool_ok e m \<Longrightarrow> same_egress m m' \<Longrightarrow> routes_ok e (proxies m) (routes m') \<Longrightarrow> pool_ok e m'"
  unfolding pool_ok_def same_egress_def by metis

definition bindable :: "proxy_env \<Rightarrow> string \<Rightarrow> bool" where
  "bindable e u \<longleftrightarrow>
     (case (build_client (net e) (Some u) (agent e), build_auth_client (net e) (Some u) (agent e)) of
        (Inr _, Inr _) \<Rightarrow> True | _ \<Rightarrow> False)"

lemma assign_cases:
  obtains (bound) r where "bindable e u" "url r = u" "failures r = 0" "verified r = ok"
      "u \<in> set us \<longrightarrow> binding_ok e us r"
      "fst (assign e aid u ok m) = Some (api_client r)" "via (api_client r) = Some u" "via (auth_client r) = Some u"
      "routes (snd (assign e aid u ok m)) = hm_insert aid r (routes m)"
      "avoided (snd (assign e aid u ok m)) = hm_remove aid (avoided m)"
      "last_failed (snd (assign e aid u ok m)) = hm_remove aid (last_failed m)"
  | (refused) "\<not> bindable e u" "assign e aid u ok m = (None, m)"
proof (cases "bindable e u")
  case True
  then obtain c a where b: "build_client (net e) (Some u) (agent e) = Inr c"
      "build_auth_client (net e) (Some u) (agent e) = Inr a"
    by (auto simp: bindable_def split: sum.splits)
  show ?thesis
    by (rule bound [of "\<lparr>url = u, api_client = c, auth_client = a, failures = 0, verified = ok\<rparr>"])
       (use True b built_via in \<open>auto simp: assign_def binding_ok_def\<close>)
next
  case False
  then show ?thesis
    by (intro refused) (auto simp: bindable_def assign_def split: sum.splits)
qed

lemma assign_same: "same_egress m (snd (assign e aid u ok m))"
  by (auto simp: assign_def same_egress_def split: sum.splits)

lemma assign_routes_ok:
  assumes "routes_ok e us (routes m)" "u \<in> set us"
  shows "routes_ok e us (routes (snd (assign e aid u ok m)))"
  by (rule assign_cases [of e u ok us aid m]) (use assms in \<open>auto intro: routes_ok_insert\<close>)

lemma assign_other: "other \<noteq> aid \<Longrightarrow> hm_get (routes (snd (assign e aid u ok m))) other = hm_get (routes m) other"
  by (rule assign_cases [of e u ok "[]" aid m]) (auto simp: hm_get_update)

section \<open>Every operation keeps the table well formed\<close>

lemma rotate_same: "same_egress m (rotate_account e aid m)" and forget_same: "same_egress m (forget_account e aid m)"
  and success_same: "same_egress m (note_success_for aid m)"
  by (auto simp: rotate_account_def forget_account_def note_success_for_def same_egress_def split: option.splits)

lemma failure_same: "same_egress m (note_failure_for e aid m)"
proof (cases "hm_get (routes m) aid")
  case (Some r)
  let ?m = "m\<lparr>routes := hm_insert aid (r\<lparr>failures := failures r + 1\<rparr>) (routes m)\<rparr>"
  have "same_egress m ?m" by (simp add: same_egress_def)
  moreover have "same_egress m (rotate_account e aid ?m)"
    using rotate_same by (rule same_egress_trans [rotated]) (simp add: same_egress_def)
  ultimately show ?thesis using Some by (simp add: note_failure_for_def Let_def)
qed (simp add: note_failure_for_def)

lemma rotate_routes: "routes (rotate_account e aid m) = hm_remove aid (routes m)"
  by (simp add: rotate_account_def split: option.split)

lemma failure_routes_ok:
  assumes "routes_ok e us (routes m)" shows "routes_ok e us (routes (note_failure_for e aid m))"
  using assms routes_ok_touch [OF assms, of aid]
  by (auto simp: note_failure_for_def Let_def rotate_routes intro: routes_ok_remove split: option.splits)

lemma success_routes_ok:
  "routes_ok e us (routes m) \<Longrightarrow> routes_ok e us (routes (note_success_for aid m))"
  by (auto simp: note_success_for_def dest: routes_ok_touch split: option.splits)

lemma rebalance_loop_inv:
  assumes "P m" "\<And>aid target m. P m \<Longrightarrow> target \<in> fst ` set ts \<Longrightarrow> P (snd (assign e aid target True m))"
  shows "P (rebalance_loop e ts loads m)"
  using assms
proof (induction ts arbitrary: loads m)
  case (Cons x rest)
  have step: "assign e aid (fst x) True m = (c, m') \<Longrightarrow> P m'" for aid c m'
    using Cons.prems(1) Cons.prems(2) [of m "fst x" aid] by simp
  have IH: "P m' \<Longrightarrow> P (rebalance_loop e rest ls m')" for ls m'
    using Cons.prems(2) by (intro Cons.IH) auto
  show ?case
    by (cases x) (use Cons.prems(1) step IH in \<open>auto split: option.split prod.split\<close>)
qed simp

lemma rebalance_loop_same: "same_egress m (rebalance_loop e ts loads m)"
  by (rule rebalance_loop_inv) (auto intro: same_egress_trans assign_same)

lemma rebalance_loop_routes:
  "routes_ok e us (routes m) \<Longrightarrow> fst ` set ts \<subseteq> set us \<Longrightarrow> routes_ok e us (routes (rebalance_loop e ts loads m))"
  by (rule rebalance_loop_inv) (auto intro: assign_routes_ok)

lemma rebalance_same: "same_egress m (rebalance_assignments_locked e seen us m)"
  by (simp add: rebalance_assignments_locked_def Let_def rebalance_loop_same)

lemma rebalance_routes_ok:
  "routes_ok e us (routes m) \<Longrightarrow> routes_ok e us (routes (rebalance_assignments_locked e seen us m))"
  by (auto simp: rebalance_assignments_locked_def Let_def intro!: rebalance_loop_routes)

lemma restore_row_ok: "routes_ok e us rs \<Longrightarrow> routes_ok e us (restore_row e us x rs)"
  by (auto simp: restore_row_def binding_ok_def intro!: routes_ok_insert split: prod.split sum.split)

lemma fold_keeps: "(\<And>x y. P y \<Longrightarrow> P (f x y)) \<Longrightarrow> P y \<Longrightarrow> P (fold f xs y)"
  by (induction xs arbitrary: y) auto

lemma load_pool_ok:
  assumes "pool_ok e m" shows "pool_ok e (load_assignments e seen rows m)"
proof (cases "has_db e \<and> rows \<noteq> None")
  case True
  then obtain rs where rs: "rows = Some rs" by auto
  let ?m = "m\<lparr>routes := fold (restore_row e (proxies m)) rs [], avoided := [], last_failed := []\<rparr>"
  have ok: "routes_ok e (proxies m) (routes ?m)"
    by (simp, rule fold_keeps) (auto intro: restore_row_ok)
  have same: "same_egress m ?m" by (simp add: same_egress_def)
  have "same_egress m (rebalance_assignments_locked e seen (proxies m) ?m)"
    using same rebalance_same by (rule same_egress_trans)
  then show ?thesis
    using True rs ok same pool_ok_same [OF assms] rebalance_routes_ok [OF ok] by (simp add: load_assignments_def Let_def)
next
  case False
  then show ?thesis using assms by (auto simp: load_assignments_def split: bool.split)
qed

lemma clear_all_fields [simp]:
  "routes (fold (clear_assignment e) xs m) = routes m" "proxies (fold (clear_assignment e) xs m) = proxies m"
  "client (fold (clear_assignment e) xs m) = client m" "current (fold (clear_assignment e) xs m) = current m"
  "enabled (fold (clear_assignment e) xs m) = enabled m" "ready (fold (clear_assignment e) xs m) = ready m"
  "direct_client (fold (clear_assignment e) xs m) = direct_client m"
  "direct_auth_client (fold (clear_assignment e) xs m) = direct_auth_client m"
  "avoided (fold (clear_assignment e) xs m) = avoided m" "last_failed (fold (clear_assignment e) xs m) = last_failed m"
  "generation (fold (clear_assignment e) xs m) = generation m"
  by (induction xs arbitrary: m) auto

lemma retain_routes_ok:
  "routes_ok e us rs \<Longrightarrow> routes_ok e us' (hm_retain (\<lambda>_ r. url r \<in> set us') rs)"
  unfolding routes_ok_def by (auto simp: hm_wf_retain) (auto simp: hm_retain_def binding_ok_def)

lemma configure_pool_ok:
  assumes "pool_ok e m" "configure e seen enable raw m = (r, m')" shows "pool_ok e m'"
proof (cases "normalize_proxies (net e) (add_one e) raw enable")
  case (Inr us)
  let ?m = "configure_routes e us (fold (\<lambda>f. f) (configure_stores enable us) m)"
  have "pool_ok e ?m"
    using assms(1) retain_routes_ok [of e "proxies m" "routes m" us]
    by (simp add: pool_ok_def configure_routes_def configure_stores_def Let_def)
  moreover have "proxies ?m = us" by (simp add: configure_routes_def configure_stores_def Let_def)
  ultimately have "pool_ok e (rebalance_assignments_locked e seen us ?m)"
    using rebalance_same [of ?m e seen us] rebalance_routes_ok [of e us ?m seen]
    by (metis pool_ok_def pool_ok_same)
  with \<open>pool_ok e ?m\<close> show ?thesis
    using assms(2) Inr by (auto simp: configure_def Let_def split: if_splits)
qed (use assms in \<open>simp add: configure_def\<close>)

lemma sync_one_keeps:
  "same_egress m (sync_one e us shared x m) \<and>
    (routes_ok e us (routes m) \<longrightarrow> routes_ok e us (routes (sync_one e us shared x m)))"
proof -
  obtain aid u where x: "x = (aid, u)" by force
  show ?thesis
  proof (cases "reconcile_binding (fp e) u (shared aid) us (hm_get (avoided m) aid)")
    case (Adopt target)
    then have "target \<in> set us"
      by (auto simp: reconcile_binding_def dest: found split: option.splits if_splits)
    then show ?thesis using Adopt assign_same assign_routes_ok by (simp add: sync_one_def x)
  qed (simp_all add: sync_one_def x same_egress_def)
qed

lemma sync_pool_ok:
  assumes "pool_ok e m" shows "pool_ok e (sync_shared_assignments e alive shared m)"
proof -
  let ?P = "\<lambda>m'. same_egress m m' \<and> routes_ok e (proxies m) (routes m')"
  have "?P (fold (sync_one e (proxies m) shared) xs m)" for xs
    by (rule fold_keeps) (use assms sync_one_keeps in \<open>auto simp: pool_ok_def intro: same_egress_trans\<close>)
  then show ?thesis using assms pool_ok_same by (auto simp: sync_shared_assignments_def)
qed

section \<open>The search for an account's proxy\<close>

text \<open>Reading a list of probed candidates from the front, without groups.\<close>

definition first_healthy :: "proxy_env \<Rightarrow> probes \<Rightarrow> string list \<Rightarrow> string option" where
  "first_healthy e seen cs = List.find (\<lambda>u. probe_proxy (net e) (agent e) seen u = Healthy \<and> bindable e u) cs"

definition first_blocked :: "proxy_env \<Rightarrow> probes \<Rightarrow> string option \<Rightarrow> string list \<Rightarrow> string option" where
  "first_blocked e seen fallback cs =
     (case fallback of Some f \<Rightarrow> Some f
      | None \<Rightarrow> List.find (\<lambda>u. probe_proxy (net e) (agent e) seen u = Blocked) cs)"

definition search_in_order ::
    "proxy_env \<Rightarrow> probes \<Rightarrow> string \<Rightarrow> string list \<Rightarrow> string option \<Rightarrow> proxy_manager \<Rightarrow>
     (http_client + string option) \<times> proxy_manager" where
  "search_in_order e seen aid cs fallback m =
     (case first_healthy e seen cs of
        Some u \<Rightarrow> (Inl (the (fst (assign e aid u True m))), snd (assign e aid u True m))
      | None \<Rightarrow> (Inr (first_blocked e seen fallback cs), m))"

lemma assign_bindable: "bindable e u \<Longrightarrow> \<exists>c. fst (assign e aid u ok m) = Some c"
  and assign_unbindable: "\<not> bindable e u \<Longrightarrow> assign e aid u ok m = (None, m)"
  by (rule assign_cases [of e u ok "[]" aid m]; auto)+

lemma try_group_in_order:
  "try_group e aid (map (\<lambda>u. (u, probe_proxy (net e) (agent e) seen u)) cs) fallback m =
     search_in_order e seen aid cs fallback m"
proof (induction cs arbitrary: fallback)
  case Nil
  then show ?case by (simp add: search_in_order_def first_healthy_def first_blocked_def split: option.split)
next
  case (Cons u cs)
  show ?case
  proof (cases "probe_proxy (net e) (agent e) seen u")
    case Healthy
    then show ?thesis
      using assign_bindable [of e u aid True m] assign_unbindable [of e u aid True m] Cons.IH
      by (cases "bindable e u")
        (auto simp: search_in_order_def first_healthy_def first_blocked_def split: prod.split option.split)
  qed (use Cons.IH in \<open>auto simp: search_in_order_def first_healthy_def first_blocked_def split: option.split\<close>)
qed

lemma try_candidates_in_order:
  "try_candidates e seen aid cs fallback m = search_in_order e seen aid cs fallback m"
proof (induction e seen aid cs fallback m rule: try_candidates.induct)
  case (1 e seen aid cs fallback m)
  show ?case
  proof (cases "cs = []")
    case True
    then show ?thesis
      by (simp add: try_candidates.simps search_in_order_def first_healthy_def first_blocked_def split: option.split)
  next
    case False
    have cs: "cs = take 5 cs @ drop 5 cs" by simp
    have healthy: "first_healthy e seen cs =
        (case first_healthy e seen (take 5 cs) of Some u \<Rightarrow> Some u | None \<Rightarrow> first_healthy e seen (drop 5 cs))"
      by (subst cs) (simp only: first_healthy_def find_append)
    have blocked: "first_blocked e seen fallback cs =
        first_blocked e seen (first_blocked e seen fallback (take 5 cs)) (drop 5 cs)"
      by (subst cs) (simp add: first_blocked_def find_append del: append_take_drop_id split: option.split)
    have IH: "try_candidates e seen aid (drop 5 cs) (first_blocked e seen fallback (take 5 cs)) m =
        search_in_order e seen aid (drop 5 cs) (first_blocked e seen fallback (take 5 cs)) m"
      if "first_healthy e seen (take 5 cs) = None"
      using False that by (intro "1.IH") (auto simp: try_group_in_order search_in_order_def)
    show ?thesis
    proof (cases "first_healthy e seen (take 5 cs)")
      case None
      then have "try_candidates e seen aid cs fallback m =
          try_candidates e seen aid (drop 5 cs) (first_blocked e seen fallback (take 5 cs)) m"
        using False by (subst try_candidates.simps) (simp add: try_group_in_order search_in_order_def)
      moreover have "search_in_order e seen aid cs fallback m =
          search_in_order e seen aid (drop 5 cs) (first_blocked e seen fallback (take 5 cs)) m"
        using None by (simp only: search_in_order_def healthy blocked option.case)
      ultimately show ?thesis using IH [OF None] by simp
    next
      case (Some u)
      then have "first_healthy e seen cs = Some u" by (simp add: healthy)
      then show ?thesis
        using False Some by (subst try_candidates.simps) (simp add: try_group_in_order search_in_order_def)
    qed
  qed
qed

lemma candidates_for_set: "set (candidates_for e w aid m) = set (proxies m)"
proof -
  have cs: "set (ordered_candidates (spread e) aid (proxies m) (routes m) av) = set (proxies m)" for av
    by (metis candidates_set set_mset_mset)
  show ?thesis
  proof (cases "shared_proxy_for e (shared_fp w) (proxies m)")
    case (Some s)
    then have "s \<in> set (proxies m)"
      by (auto simp: shared_proxy_for_def bind_eq_Some_conv dest: found split: if_splits)
    then have "insert s {u \<in> set (proxies m). u \<noteq> s} = set (proxies m)" by blast
    then show ?thesis by (simp add: candidates_for_def Let_def Some cs)
  qed (simp add: candidates_for_def Let_def cs)
qed

text \<open>What a call for an account's client comes to.\<close>

lemma search_for_cases:
  obtains (throttled) "search_for e w aid fallback m = (unavailable_for e m, m)"
  | (bound) u where "bindable e u" "u \<in> set (proxies m) \<or> fallback = Some u"
      "search_for e w aid fallback m = (Inr (the (fst (assign e aid u True m))), snd (assign e aid u True m))"
      "first_healthy e (search w) (candidates_for e w aid m) = Some u \<or>
       first_healthy e (search w) (candidates_for e w aid m) = None \<and>
       first_blocked e (search w) fallback (candidates_for e w aid m) = Some u"
  | (unserved) "first_healthy e (search w) (candidates_for e w aid m) = None"
      "search_for e w aid fallback m =
         (unavailable_for e m, m\<lparr>last_failed := hm_insert aid (clock w) (last_failed m)\<rparr>)"
proof (cases "(case hm_get (last_failed m) aid of None \<Rightarrow> False | Some t \<Rightarrow> clock w - t < 30)")
  case True
  then show ?thesis by (intro throttled) (simp add: search_for_def)
next
  case False
  let ?cs = "candidates_for e w aid m"
  show ?thesis
  proof (cases "first_healthy e (search w) ?cs")
    case (Some u)
    then have "bindable e u" "u \<in> set (proxies m)"
      using candidates_for_set [of e w aid m] by (auto simp: first_healthy_def dest: found)
    then show ?thesis using False Some
      by (intro bound [of u])
        (auto simp: search_for_def Let_def try_candidates_in_order search_in_order_def)
  next
    case None
    show ?thesis
    proof (cases "first_blocked e (search w) fallback ?cs")
      case (Some u)
      have "u \<in> set (proxies m) \<or> fallback = Some u"
        using Some candidates_for_set [of e w aid m]
        by (auto simp: first_blocked_def dest: found split: option.splits)
      show ?thesis
      proof (cases "bindable e u")
        case True
        show ?thesis
          by (rule bound [of u])
            (use True False None Some assign_bindable [OF True, of aid True m]
               \<open>u \<in> set (proxies m) \<or> fallback = Some u\<close> in
              \<open>auto simp: search_for_def Let_def try_candidates_in_order search_in_order_def split: prod.split\<close>)
      next
        case unbindable: False
        show ?thesis
          by (rule unserved)
            (use unbindable False None Some assign_unbindable [OF unbindable, of aid True m] in
              \<open>simp_all add: search_for_def Let_def try_candidates_in_order search_in_order_def\<close>)
      qed
    qed (use False None in \<open>auto intro!: unserved
             simp: search_for_def Let_def try_candidates_in_order search_in_order_def\<close>)
  qed
qed

lemma first_blocked_in:
  "first_blocked e seen fallback cs = Some u \<Longrightarrow> fallback = Some u \<or> u \<in> set cs \<and> probe_proxy (net e) (agent e) seen u = Blocked"
  by (auto simp: first_blocked_def dest: found split: option.splits)

lemma try_existing_same: "same_egress m (snd (try_existing e seen aid m))"
  by (auto simp: try_existing_def same_egress_def Let_def split: option.split)

lemma try_existing_ok:
  assumes "routes_ok e us (routes m)" shows "routes_ok e us (routes (snd (try_existing e seen aid m)))"
  using assms routes_ok_touch [OF assms]
  by (auto simp: try_existing_def Let_def intro: routes_ok_remove split: option.split)

lemma try_existing_fallback:
  "try_existing e seen aid m = (NoBinding (Some u), m') \<Longrightarrow>
    u \<in> set (proxies m) \<and> probe_proxy (net e) (agent e) seen u = Blocked \<and>
    (\<exists>r. hm_get (routes m) aid = Some r \<and> url r = u \<and> \<not> verified r)"
  by (auto simp: try_existing_def Let_def split: option.splits if_splits)

lemma try_existing_served:
  assumes "routes_ok e (proxies m) (routes m)" "try_existing e seen aid m = (Served c, m')"
  shows "\<exists>u \<in> set (proxies m). via c = Some u"
  using assms routes_okD [OF assms(1), of aid] built_via(1)
  by (auto simp: try_existing_def Let_def binding_ok_def split: option.splits if_splits)

lemma search_same: "same_egress m (snd (search_for e w aid fallback m))"
  by (rule search_for_cases [of e w aid fallback m]) (auto simp: assign_same, simp add: same_egress_def)

lemma search_ok:
  assumes "routes_ok e us (routes m)" "set (proxies m) \<subseteq> set us" "\<And>u. fallback = Some u \<Longrightarrow> u \<in> set us"
  shows "routes_ok e us (routes (snd (search_for e w aid fallback m)))"
  by (rule search_for_cases [of e w aid fallback m]) (use assms in \<open>auto intro: assign_routes_ok\<close>)

lemma search_client:
  assumes "search_for e w aid fallback m = (Inr c, m')" "\<not> fallback_to_direct e"
  shows "\<exists>u. (u \<in> set (proxies m) \<or> fallback = Some u) \<and> via c = Some u"
proof (rule search_for_cases [of e w aid fallback m])
  fix u assume u: "bindable e u" "u \<in> set (proxies m) \<or> fallback = Some u"
    "search_for e w aid fallback m = (Inr (the (fst (assign e aid u True m))), snd (assign e aid u True m))"
  show ?thesis by (rule assign_cases [of e u True "[]" aid m]) (use u assms in auto)
qed (use assms in \<open>auto simp: unavailable_for_def\<close>)

lemma account_client_keeps:
  assumes "routes_ok e (proxies m) (routes m)"
  shows "same_egress m (snd (working_client_for e w aid m)) \<and>
    routes_ok e (proxies m) (routes (snd (working_client_for e w aid m)))"
proof (cases "try_existing e (recheck w) aid m")
  case (Pair r m1)
  have m1: "same_egress m m1" "routes_ok e (proxies m) (routes m1)"
    using try_existing_same [of m e "recheck w" aid] try_existing_ok [OF assms, of "recheck w" aid] Pair by simp_all
  have m2: "same_egress m (snd (search_for e w aid fb m1)) \<and> routes_ok e (proxies m) (routes (snd (search_for e w aid fb m1)))"
    if "r = NoBinding fb" for fb
  proof
    show "same_egress m (snd (search_for e w aid fb m1))"
      using m1(1) search_same by (rule same_egress_trans)
    have "proxies m1 = proxies m" using m1(1) by (simp add: same_egress_def)
    then show "routes_ok e (proxies m) (routes (snd (search_for e w aid fb m1)))"
      using m1(2) that Pair try_existing_fallback [of e "recheck w" aid m] by (auto intro!: search_ok)
  qed
  show ?thesis
    using assms m1 m2 Pair by (auto simp: working_client_for_def split: option.split existing_end.split)
qed

lemma account_client_pool: "pool_ok e m \<Longrightarrow> pool_ok e (snd (working_client_for e w aid m))"
  using account_client_keeps [of e m w aid] pool_ok_same by (metis pool_ok_def)

section \<open>The table is well formed in every reachable state\<close>

lemma swap_cases:
  obtains (swapped) c where "enabled m" "generation m = gen" "build_client (net e) proxy (agent e) = Inr c"
      "swap_to e proxy gen m = (True, m\<lparr>client := c, current := proxy, ready := True, fails := 0\<rparr>)"
  | (stale) "\<not> enabled m \<or> generation m \<noteq> gen" "swap_to e proxy gen m = (False, m)"
  | (unbuilt) "swap_to e proxy gen m = (False, m\<lparr>ready := False\<rparr>)"
proof (cases "enabled m \<and> generation m = gen")
  case True
  show ?thesis
  proof (cases "build_client (net e) proxy (agent e)")
    case (Inl err)
    show ?thesis by (rule unbuilt) (simp add: swap_to_def True Inl)
  next
    case (Inr c)
    show ?thesis by (rule swapped [of c]) (simp_all add: swap_to_def True Inr)
  qed
next
  case False
  then show ?thesis by (intro stale) (auto simp: swap_to_def)
qed

lemma swap_pool:
  assumes "pool_ok e m" "swap_to e (Some p) gen m = (b, m')" shows "pool_ok e m'"
proof (rule swap_cases [of m gen e "Some p"])
  fix c assume "build_client (net e) (Some p) (agent e) = Inr c"
    "swap_to e (Some p) gen m = (True, m\<lparr>client := c, current := Some p, ready := True, fails := 0\<rparr>)"
  then show ?thesis using assms built_via(1) by (auto simp: pool_ok_def)
qed (use assms in \<open>simp_all add: pool_ok_def\<close>)

lemma proxy_step_pool: "proxy_step e m m' \<Longrightarrow> pool_ok e m \<Longrightarrow> pool_ok e m'"
proof (induction rule: proxy_step.induct)
  case (by_configure seen enable raw m r m') then show ?case using configure_pool_ok by metis
next
  case (by_load m seen rows) then show ?case by (rule load_pool_ok)
next
  case (by_sync m alive shared) then show ?case by (rule sync_pool_ok)
next
  case (by_account w aid m r m') then show ?case using account_client_pool [of e m w aid] by simp
next
  case (by_swap p gen m b m') then show ?case using swap_pool by metis
next
  case (by_success_for m aid)
  then show ?case using pool_ok_same success_same success_routes_ok by (metis pool_ok_def)
next
  case (by_failure_for m aid)
  then show ?case using pool_ok_same failure_same failure_routes_ok by (metis pool_ok_def)
next
  case (by_rotate m aid)
  then show ?case using pool_ok_same rotate_same rotate_routes routes_ok_remove by (metis pool_ok_def)
next
  case (by_forget m aid)
  have "routes (forget_account e aid m) = hm_remove aid (routes m)" by (simp add: forget_account_def)
  with by_forget show ?case using pool_ok_same forget_same routes_ok_remove by (metis pool_ok_def)
qed (auto simp: pool_ok_def)

end
