(* ===== verification/EgressProps.thy ===== *)
theory EgressProps
  imports ProxyProps
begin

text \<open>
  The properties of the proxy manager: no request of a server in proxy mode leaves from the host's own
  address, which proxy an account gets and keeps, rebalancing, restart, and the agreement of several
  instances.
\<close>

section \<open>Reachable states\<close>

definition reachable_pool :: "proxy_env \<Rightarrow> proxy_manager \<Rightarrow> bool" where
  "reachable_pool e m \<longleftrightarrow>
     (\<exists>d a file. via d = None \<and> via a = None \<and> (proxy_step e)\<^sup>*\<^sup>* (proxy_manager_new e d a file) m)"

definition step_world :: "proxy_env \<Rightarrow> resolve_run \<Rightarrow> bool" where
  "step_world e w \<longleftrightarrow> (\<forall>k m. (proxy_step e)\<^sup>*\<^sup>* m (others w k m))"

lemma pool_steps: "(proxy_step e)\<^sup>*\<^sup>* m m' \<Longrightarrow> pool_ok e m \<Longrightarrow> pool_ok e m'"
  by (induction rule: rtranclp_induct) (auto intro: proxy_step_pool)

lemma pool_new: "via d = None \<Longrightarrow> via a = None \<Longrightarrow> pool_ok e (proxy_manager_new e d a file)"
  by (simp add: pool_ok_def proxy_manager_new_def)

lemma reachable_pool_ok: "reachable_pool e m \<Longrightarrow> pool_ok e m"
  unfolding reachable_pool_def using pool_new pool_steps by metis

lemma reachable_steps: "reachable_pool e m \<Longrightarrow> (proxy_step e)\<^sup>*\<^sup>* m m' \<Longrightarrow> reachable_pool e m'"
  unfolding reachable_pool_def by (meson rtranclp_trans)

lemma swap_step: "(proxy_step e)\<^sup>*\<^sup>* m (snd (swap_to e (Some p) gen m))"
  by (metis by_swap prod.collapse r_into_rtranclp)

lemma step_first: "proxy_step e m m1 \<Longrightarrow> (proxy_step e)\<^sup>*\<^sup>* m1 m' \<Longrightarrow> (proxy_step e)\<^sup>*\<^sup>* m m'"
  and step_last: "(proxy_step e)\<^sup>*\<^sup>* m m1 \<Longrightarrow> proxy_step e m1 m' \<Longrightarrow> (proxy_step e)\<^sup>*\<^sup>* m m'"
  by (simp_all add: converse_rtranclp_into_rtranclp)

lemma world_steps:
  assumes "step_world e w"
  shows "(proxy_step e)\<^sup>*\<^sup>* m a \<Longrightarrow> (proxy_step e)\<^sup>*\<^sup>* m (others w k a)"
  using assms unfolding step_world_def by (meson rtranclp_trans)

lemma resolve_steps:
  assumes w: "step_world e w"
  shows "(proxy_step e)\<^sup>*\<^sup>* m (snd (resolve_and_swap e w avoid gen m))"
proof -
  have o: "(proxy_step e)\<^sup>*\<^sup>* m (others w 1 (others w 0 m))"
    by (intro world_steps [OF w] rtranclp.rtrancl_refl)
  then show ?thesis
    using rtranclp_trans [OF o swap_step] by (auto simp: resolve_and_swap_def Let_def split: option.split)
qed

lemma try_resolve_steps: "step_world e w \<Longrightarrow> (proxy_step e)\<^sup>*\<^sup>* m (snd (try_resolve e w m))"
  unfolding try_resolve_def by (auto intro: step_first [OF by_clock resolve_steps])

lemma working_client_steps: "step_world e w \<Longrightarrow> (proxy_step e)\<^sup>*\<^sup>* m (snd (working_client e w m))"
  using try_resolve_steps [of e w m] by (auto simp: working_client_def split: prod.split bool.split)

lemma rotate_steps: "step_world e w \<Longrightarrow> (proxy_step e)\<^sup>*\<^sup>* m (rotate_now e w m)"
proof -
  assume w: "step_world e w"
  have swap: "(proxy_step e)\<^sup>*\<^sup>* m a \<Longrightarrow> swap_to e (Some p) gen a = (b, m') \<Longrightarrow> (proxy_step e)\<^sup>*\<^sup>* m m'" for m a p gen b m'
    by (rule step_last [OF _ by_swap])
  have task: "(proxy_step e)\<^sup>*\<^sup>* m (rotate_task e w m)" for m
    unfolding rotate_task_def Let_def
    by (auto split: option.split prod.split bool.split
        intro!: step_last [OF _ by_flag] step_last [OF _ by_unready] world_steps [OF w]
        intro: swap [OF world_steps [OF w world_steps [OF w rtranclp.rtrancl_refl]]])
  show ?thesis
    using step_first [OF by_flag task, of m True] by (simp add: rotate_now_def)
qed

lemma note_failure_steps: "step_world e w \<Longrightarrow> (proxy_step e)\<^sup>*\<^sup>* m (note_failure e w m)"
  using step_first [OF by_count rotate_steps, of e w m 0] by_count [of e m]
  by (auto simp: note_failure_def Let_def)

section \<open>The host's own address\<close>

text \<open>
  Two operations make several stores that lock-free readers see one by one: \<open>configure\<close> and the switch of
  the general proxy (\<open>swap_to\<close>). Here they take a step per store. A state is the manager with the stores the
  holder of \<open>switch_lock\<close> has still to make; with none left every step of \<open>proxy_step\<close> is possible, with
  some left only what runs without the lock: the counters, the clock, \<open>ready\<close> and the flag of the rotation.
  The look of \<open>spawn_initial_resolve\<close> at the mode and its store of \<open>ready\<close> are one step (\<open>by_direct\<close>).
\<close>

type_synonym store = "proxy_manager \<Rightarrow> proxy_manager"

definition edit_stores :: "proxy_env \<Rightarrow> probes \<Rightarrow> bool \<Rightarrow> string list \<Rightarrow> proxy_manager \<Rightarrow> store list" where
  "edit_stores e seen enable us m =
     configure_stores enable us @
       [configure_routes e us,
        if enable \<and> ((\<exists>u \<in> set us. u \<notin> set (proxies m)) \<or> \<not> enabled m) then rebalance_assignments_locked e seen us else id]"

definition swap_stores :: "http_client \<Rightarrow> string \<Rightarrow> store list" where
  "swap_stores c p =
     [\<lambda>m. m\<lparr>client := c\<rparr>, \<lambda>m. m\<lparr>current := Some p\<rparr>, \<lambda>m. m\<lparr>ready := True\<rparr>, \<lambda>m. m\<lparr>fails := 0\<rparr>]"

text \<open>Run to the end they are the operations.\<close>

lemma edit_stores_configure:
  "normalize_proxies (net e) (add_one e) raw enable = Inr us \<Longrightarrow>
     configure e seen enable raw m = (Inr (), fold (\<lambda>f. f) (edit_stores e seen enable us m) m)"
  by (auto simp: configure_def edit_stores_def Let_def)

lemma swap_stores_swap:
  "enabled m \<Longrightarrow> generation m = gen \<Longrightarrow> build_client (net e) (Some p) (agent e) = Inr c \<Longrightarrow>
     swap_to e (Some p) gen m = (True, fold (\<lambda>f. f) (swap_stores c p) m)"
  by (simp add: swap_to_def swap_stores_def)

inductive store_step :: "proxy_env \<Rightarrow> proxy_manager \<times> store list \<Rightarrow> proxy_manager \<times> store list \<Rightarrow> bool" for e where
  settled: "proxy_step e m m' \<Longrightarrow> store_step e (m, []) (m', [])"
| edits: "normalize_proxies (net e) (add_one e) raw enable = Inr us \<Longrightarrow>
     store_step e (m, []) (m, edit_stores e seen enable us m)"
| swaps: "enabled m \<Longrightarrow> build_client (net e) (Some p) (agent e) = Inr c \<Longrightarrow> store_step e (m, []) (m, swap_stores c p)"
| stores: "store_step e (m, f # fs) (f m, fs)"
| clock_meanwhile: "store_step e (m, fs) (m\<lparr>last_try := t\<rparr>, fs)"
| unready_meanwhile: "store_step e (m, fs) (m\<lparr>ready := False\<rparr>, fs)"
| direct_meanwhile: "\<not> enabled m \<Longrightarrow> store_step e (m, fs) (m\<lparr>ready := True\<rparr>, fs)"
| count_meanwhile: "store_step e (m, fs) (m\<lparr>fails := n\<rparr>, fs)"
| flag_meanwhile: "store_step e (m, fs) (m\<lparr>rotating := b\<rparr>, fs)"
| tally_meanwhile: "hm_get (routes m) aid = Some r \<Longrightarrow>
     store_step e (m, fs) (m\<lparr>routes := hm_insert aid (r\<lparr>failures := n\<rparr>) (routes m)\<rparr>, fs)"

definition own_clients :: "proxy_env \<Rightarrow> proxy_manager \<Rightarrow> bool" where
  "own_clients e m \<longleftrightarrow> (\<exists>us. routes_ok e us (routes m)) \<and> via (direct_client m) = None \<and> via (direct_auth_client m) = None"

definition on_list :: "proxy_env \<Rightarrow> proxy_manager \<Rightarrow> bool" where
  "on_list e m \<longleftrightarrow> routes_ok e (proxies m) (routes m)"

text \<open>What holds before the \<open>k\<close>-th store of an edit.\<close>

definition edit_at :: "proxy_env \<Rightarrow> bool \<Rightarrow> string list \<Rightarrow> nat \<Rightarrow> proxy_manager \<Rightarrow> bool" where
  "edit_at e enable us k m \<longleftrightarrow>
     own_clients e m \<and>
     (k < 2 \<longrightarrow> on_list e m) \<and>
     (k \<le> 2 \<longrightarrow> via (client m) = current m) \<and>
     (k \<le> 3 \<longrightarrow> enabled m \<and> ready m \<longrightarrow> via (client m) \<noteq> None) \<and>
     (2 \<le> k \<longrightarrow> proxies m = us) \<and>
     (3 \<le> k \<longrightarrow> current m = None) \<and>
     (4 \<le> k \<longrightarrow> via (client m) = None) \<and>
     (5 \<le> k \<longrightarrow> enabled m = enable) \<and>
     (6 \<le> k \<longrightarrow> ready m \<longrightarrow> \<not> enable) \<and>
     (9 \<le> k \<longrightarrow> on_list e m)"

definition swap_at_store :: "proxy_env \<Rightarrow> http_client \<Rightarrow> string \<Rightarrow> nat \<Rightarrow> proxy_manager \<Rightarrow> bool" where
  "swap_at_store e c p k m \<longleftrightarrow>
     own_clients e m \<and> on_list e m \<and> via c = Some p \<and> enabled m \<and>
     (k = 0 \<longrightarrow> pool_ok e m) \<and> (1 \<le> k \<longrightarrow> client m = c) \<and> (2 \<le> k \<longrightarrow> current m = Some p)"

definition pending_ok :: "proxy_env \<Rightarrow> proxy_manager \<times> store list \<Rightarrow> bool" where
  "pending_ok e s \<longleftrightarrow> (case s of (m, fs) \<Rightarrow>
     (fs = [] \<and> pool_ok e m) \<or>
     (\<exists>seen enable us m0 k. k < 10 \<and> fs = drop k (edit_stores e seen enable us m0) \<and> edit_at e enable us k m) \<or>
     (\<exists>c p k. k < 4 \<and> fs = drop k (swap_stores c p) \<and> swap_at_store e c p k m))"

text \<open>What runs without the lock leaves all this alone.\<close>

definition calm :: "proxy_env \<Rightarrow> proxy_manager \<Rightarrow> proxy_manager \<Rightarrow> bool" where
  "calm e m m' \<longleftrightarrow>
     proxies m' = proxies m \<and> client m' = client m \<and> current m' = current m \<and> enabled m' = enabled m \<and>
     direct_client m' = direct_client m \<and> direct_auth_client m' = direct_auth_client m \<and>
     (\<forall>vs. routes_ok e vs (routes m) \<longrightarrow> routes_ok e vs (routes m')) \<and> (ready m' \<longrightarrow> ready m \<or> \<not> enabled m)"

lemma calm_pool: "calm e m m' \<Longrightarrow> pool_ok e m \<Longrightarrow> pool_ok e m'"
  unfolding calm_def pool_ok_def by auto

lemma calm_own: "calm e m m' \<Longrightarrow> own_clients e m \<Longrightarrow> own_clients e m'"
  and calm_list: "calm e m m' \<Longrightarrow> on_list e m \<Longrightarrow> on_list e m'"
  unfolding calm_def own_clients_def on_list_def by auto

lemma calm_same:
  assumes "calm e m m'"
  shows "proxies m' = proxies m" "client m' = client m" "current m' = current m" "enabled m' = enabled m"
    "ready m' \<Longrightarrow> ready m \<or> \<not> enabled m"
  using assms by (auto simp: calm_def)

lemma calm_edit:
  assumes "calm e m m'" "edit_at e enable us k m"
  shows "edit_at e enable us k m'"
proof -
  have "5 \<le> k" if "6 \<le> k" using that by simp
  with assms(2) calm_own [OF assms(1)] calm_list [OF assms(1)] calm_same(5) [OF assms(1)] show ?thesis
    unfolding edit_at_def calm_same(1-4) [OF assms(1)] by blast
qed

lemma calm_swap:
  assumes "calm e m m'" "swap_at_store e c p k m"
  shows "swap_at_store e c p k m'"
  using assms(2) calm_own [OF assms(1)] calm_list [OF assms(1)] calm_pool [OF assms(1)]
  unfolding swap_at_store_def calm_same(1-4) [OF assms(1)] by blast

lemma pending_cases:
  assumes "pending_ok e (m, fs)"
  obtains (idle) "fs = []" "pool_ok e m"
  | (edit) seen enable us m0 k where "k < 10" "fs = drop k (edit_stores e seen enable us m0)" "edit_at e enable us k m"
  | (swap) c p k where "k < 4" "fs = drop k (swap_stores c p)" "swap_at_store e c p k m"
  using assms unfolding pending_ok_def prod.case by blast

lemma pending_editI:
  "k < 10 \<Longrightarrow> edit_at e enable us k m \<Longrightarrow> pending_ok e (m, drop k (edit_stores e seen enable us m0))"
  unfolding pending_ok_def prod.case by blast

lemma pending_swapI: "k < 4 \<Longrightarrow> swap_at_store e c p k m \<Longrightarrow> pending_ok e (m, drop k (swap_stores c p))"
  unfolding pending_ok_def prod.case by blast

lemma pending_idleI: "pool_ok e m \<Longrightarrow> pending_ok e (m, [])"
  unfolding pending_ok_def prod.case by blast

lemma pending_calm: "pending_ok e (m, fs) \<Longrightarrow> calm e m m' \<Longrightarrow> pending_ok e (m', fs)"
  by (erule pending_cases) (auto intro: pending_idleI pending_editI pending_swapI calm_pool calm_edit calm_swap)

text \<open>The stores of an edit, one after the other.\<close>

lemma edit_length [simp]: "length (edit_stores e seen enable us m0) = 10"
  by (simp add: edit_stores_def configure_stores_def)

lemma swap_length [simp]: "length (swap_stores c p) = 4"
  by (simp add: swap_stores_def)

lemma edit_nth:
  "edit_stores e seen enable us m0 ! 0 = (\<lambda>m. m\<lparr>generation := generation m + 1\<rparr>)"
  "edit_stores e seen enable us m0 ! Suc 0 = (\<lambda>m. m\<lparr>proxies := us\<rparr>)"
  "edit_stores e seen enable us m0 ! 2 = (\<lambda>m. m\<lparr>current := None\<rparr>)"
  "edit_stores e seen enable us m0 ! 3 = (\<lambda>m. m\<lparr>client := direct_client m\<rparr>)"
  "edit_stores e seen enable us m0 ! 4 = (\<lambda>m. m\<lparr>enabled := enable\<rparr>)"
  "edit_stores e seen enable us m0 ! 5 = (\<lambda>m. m\<lparr>ready := \<not> enable\<rparr>)"
  "edit_stores e seen enable us m0 ! 6 = (\<lambda>m. m\<lparr>fails := 0\<rparr>)"
  "edit_stores e seen enable us m0 ! 7 = (\<lambda>m. m\<lparr>last_try := 0\<rparr>)"
  "edit_stores e seen enable us m0 ! 8 = configure_routes e us"
  "edit_stores e seen enable us m0 ! 9 =
     (if enable \<and> ((\<exists>u \<in> set us. u \<notin> set (proxies m0)) \<or> \<not> enabled m0) then rebalance_assignments_locked e seen us else id)"
  by (simp_all add: edit_stores_def configure_stores_def)

lemma edit_at_steps:
  "edit_at e enable us 0 m \<Longrightarrow> edit_at e enable us (Suc 0) ((edit_stores e seen enable us m0 ! 0) m)"
  "edit_at e enable us (Suc 0) m \<Longrightarrow> edit_at e enable us 2 ((edit_stores e seen enable us m0 ! Suc 0) m)"
  "edit_at e enable us 2 m \<Longrightarrow> edit_at e enable us 3 ((edit_stores e seen enable us m0 ! 2) m)"
  "edit_at e enable us 3 m \<Longrightarrow> edit_at e enable us 4 ((edit_stores e seen enable us m0 ! 3) m)"
  "edit_at e enable us 4 m \<Longrightarrow> edit_at e enable us 5 ((edit_stores e seen enable us m0 ! 4) m)"
  "edit_at e enable us 5 m \<Longrightarrow> edit_at e enable us 6 ((edit_stores e seen enable us m0 ! 5) m)"
  "edit_at e enable us 6 m \<Longrightarrow> edit_at e enable us 7 ((edit_stores e seen enable us m0 ! 6) m)"
  "edit_at e enable us 7 m \<Longrightarrow> edit_at e enable us 8 ((edit_stores e seen enable us m0 ! 7) m)"
  by (auto simp: edit_nth edit_at_def own_clients_def on_list_def) metis+

lemma edit_at_own: "edit_at e enable us k m \<Longrightarrow> own_clients e m"
  unfolding edit_at_def by (elim conjE)

lemma edit_at_end:
  "edit_at e enable us 9 m \<Longrightarrow> pool_ok e m \<and> proxies m = us"
  by (simp add: edit_at_def pool_ok_def own_clients_def on_list_def) blast

lemma edit_at_next:
  assumes "k < 10" "edit_at e enable us k m"
  shows "if Suc k = 10 then pool_ok e ((edit_stores e seen enable us m0 ! k) m)
    else edit_at e enable us (Suc k) ((edit_stores e seen enable us m0 ! k) m)"
proof -
  have "k = 0 \<or> k = 1 \<or> k = 2 \<or> k = 3 \<or> k = 4 \<or> k = 5 \<or> k = 6 \<or> k = 7 \<or> k = 8 \<or> k = 9"
    using assms(1) by presburger
  then show ?thesis
  proof (elim disjE)
    assume k: "k = 8"
    obtain vs where "routes_ok e vs (routes m)" using edit_at_own [OF assms(2)] by (auto simp: own_clients_def)
    then have "routes_ok e us (hm_retain (\<lambda>_ r. url r \<in> set us) (routes m))" by (rule retain_routes_ok)
    then have "\<exists>vs. routes_ok e vs (hm_retain (\<lambda>_ r. url r \<in> set us) (routes m))" by blast
    with \<open>routes_ok e us (hm_retain (\<lambda>_ r. url r \<in> set us) (routes m))\<close> show ?thesis using assms(2) k
      by (simp add: edit_nth edit_at_def own_clients_def on_list_def configure_routes_def Let_def)
  next
    assume k: "k = 9"
    have ok: "pool_ok e m" "proxies m = us" using edit_at_end assms(2) k by auto
    then have "pool_ok e (rebalance_assignments_locked e seen us m)"
      using rebalance_same [of m e seen us] rebalance_routes_ok [of e us m seen] by (metis pool_ok_def pool_ok_same)
    then show ?thesis using ok(1) k by (simp add: edit_nth)
  qed (use assms(2) edit_at_steps [of e enable us m seen m0] in \<open>simp_all add: eval_nat_numeral\<close>)
qed

lemma swap_at_next:
  assumes "k < 4" "swap_at_store e c p k m"
  shows "if Suc k = 4 then pool_ok e ((swap_stores c p ! k) m)
    else swap_at_store e c p (Suc k) ((swap_stores c p ! k) m)"
proof -
  have "k = 0 \<or> k = 1 \<or> k = 2 \<or> k = 3" using assms(1) by presburger
  then show ?thesis
    using assms(2)
    by (elim disjE; simp add: swap_stores_def swap_at_store_def own_clients_def on_list_def pool_ok_def; fastforce)
qed

lemma drop_head: "drop k xs = f # fs \<Longrightarrow> k < length xs \<and> f = xs ! k \<and> fs = drop (Suc k) xs"
  by (metis Cons_nth_drop_Suc drop_eq_Nil leI list.distinct(1) list.sel(1) list.sel(3))

lemma pending_stores:
  assumes "pending_ok e (m, f # fs)"
  shows "pending_ok e (f m, fs)"
  using assms
proof (cases rule: pending_cases)
  case (edit seen enable us m0 k)
  from drop_head [OF edit(2) [symmetric]] edit_at_next [OF edit(1,3), of seen m0] edit(1)
  show ?thesis by (cases "Suc k = 10") (auto intro: pending_idleI pending_editI)
next
  case (swap c p k)
  from drop_head [OF swap(2) [symmetric]] swap_at_next [OF swap(1,3)] swap(1)
  show ?thesis by (cases "Suc k = 4") (auto intro: pending_idleI pending_swapI)
qed simp

lemma pending_quiet: "pending_ok e (m, []) \<Longrightarrow> pool_ok e m"
  by (erule pending_cases) auto

lemma store_step_ok: "store_step e s t \<Longrightarrow> pending_ok e s \<Longrightarrow> pending_ok e t"
proof (induction rule: store_step.induct)
  case (settled m m')
  then show ?case using proxy_step_pool pending_quiet pending_idleI by metis
next
  case (edits raw enable us m seen)
  then have "edit_at e enable us 0 m"
    using pending_quiet [of e m] by (auto simp: edit_at_def pool_ok_def own_clients_def on_list_def)
  from pending_editI [OF _ this, of seen m] show ?case by simp
next
  case (swaps m p c)
  then have "swap_at_store e c p 0 m"
    using pending_quiet [of e m] built_via(1) by (auto simp: swap_at_store_def pool_ok_def own_clients_def on_list_def)
  from pending_swapI [OF _ this] show ?case by simp
next
  case (stores m f fs) then show ?case by (rule pending_stores)
next
  case (tally_meanwhile m aid r fs n)
  have "routes_ok e vs (hm_insert aid (r\<lparr>failures := n\<rparr>) (routes m))" if "routes_ok e vs (routes m)" for vs
    using routes_okD [OF that tally_meanwhile(1)] that by (intro routes_ok_insert) (auto simp: binding_ok_def)
  then show ?case by (intro pending_calm [OF tally_meanwhile(2)]) (simp add: calm_def)
qed (auto elim!: pending_calm simp: calm_def)

definition reachable_store :: "proxy_env \<Rightarrow> proxy_manager \<Rightarrow> store list \<Rightarrow> bool" where
  "reachable_store e m fs \<longleftrightarrow>
     (\<exists>d a file. via d = None \<and> via a = None \<and> (store_step e)\<^sup>*\<^sup>* (proxy_manager_new e d a file, []) (m, fs))"

lemma reachable_store_ok: "reachable_store e m fs \<Longrightarrow> pending_ok e (m, fs)"
proof -
  have "(store_step e)\<^sup>*\<^sup>* s t \<Longrightarrow> pending_ok e s \<Longrightarrow> pending_ok e t" for s t
    by (induction rule: rtranclp_induct) (auto intro: store_step_ok)
  then show "reachable_store e m fs \<Longrightarrow> pending_ok e (m, fs)"
    unfolding reachable_store_def using pool_new by (fastforce simp: pending_ok_def)
qed

lemma pending_clients:
  assumes "pending_ok e (m, fs)" "hm_get (routes m) aid = Some r"
  shows "build_client (net e) (Some (url r)) (agent e) = Inr (api_client r)
    \<and> build_auth_client (net e) (Some (url r)) (agent e) = Inr (auth_client r)"
proof -
  have "\<exists>us. routes_ok e us (routes m)"
    by (cases rule: pending_cases [OF assms(1)]) (auto simp: edit_at_def swap_at_store_def own_clients_def pool_ok_def)
  then show ?thesis using routes_okD assms(2) by (fastforce simp: binding_ok_def)
qed


text \<open>
  C6. An account's requests and its sign-in never leave from the host's own address in proxy mode when the
  direct fallback is off: the client handed out goes through a proxy on the list, or the call fails with
  503. Whatever runs between the two lookups of the sign-in call does not change that while proxy mode
  stays on.
\<close>

theorem account_traffic_stays_behind_proxies:
  assumes "reachable_pool e m" "enabled m" "\<not> fallback_to_direct e" "(proxy_step e)\<^sup>*\<^sup>* m1 (between m1)"
    "m1 = snd (working_client_for e w aid m)" "enabled (between m1)"
  shows "(case fst (working_client_for e w aid m) of
            Inr c \<Rightarrow> \<exists>u \<in> set (proxies m). via c = Some u
          | Inl err \<Rightarrow> status err = 503) \<and>
         (case fst (working_auth_client_for e w between aid m) of
            Inr c \<Rightarrow> \<exists>u \<in> set (proxies (between m1)). via c = Some u
          | Inl err \<Rightarrow> status err = 503)"
proof -
  have ok: "routes_ok e (proxies m) (routes m)"
    using reachable_pool_ok [OF assms(1)] by (simp add: pool_ok_def)
  have un: "unavailable_for e m' = Inl err \<Longrightarrow> status err = 503" "unavailable_for e m' \<noteq> Inr c" for m' err c
    using assms(3) by (auto simp: unavailable_for_def)
  have search: "search_for e w aid fb m2 = (Inl err, m') \<Longrightarrow> status err = 503" for fb m2 err m'
    by (rule search_for_cases [of e w aid fb m2]) (use assms(3) in \<open>auto simp: unavailable_for_def\<close>)
  have api: "case fst (working_client_for e w aid m) of
      Inr c \<Rightarrow> \<exists>u \<in> set (proxies m). via c = Some u | Inl err \<Rightarrow> status err = 503"
  proof (cases "Option.bind (hm_get (routes m) aid) (\<lambda>r. if verified r then Some (api_client r) else None)")
    case (Some c)
    then show ?thesis
      using routes_okD [OF ok, of aid] built_via(1) assms(2)
      by (auto simp: working_client_for_def binding_ok_def bind_eq_Some_conv split: if_splits)
  next
    case None
    show ?thesis
    proof (cases "try_existing e (recheck w) aid m")
      case (Pair r m2)
      have px: "proxies m2 = proxies m"
        using try_existing_same [of m e "recheck w" aid] Pair by (simp add: same_egress_def)
      show ?thesis
      proof (cases r)
        case (Served c)
        then show ?thesis using None Pair assms(2) try_existing_served [OF ok] by (simp add: working_client_for_def)
      next
        case (NoBinding fb)
        with Pair None assms(2) have w: "working_client_for e w aid m = search_for e w aid fb m2"
          by (simp add: working_client_for_def)
        have fb: "fb = Some u \<Longrightarrow> u \<in> set (proxies m)" for u
          using try_existing_fallback Pair NoBinding by metis
        show ?thesis
          using search [of fb m2] search_client [of e w aid fb m2] assms(3) fb px
          by (cases "search_for e w aid fb m2") (auto simp: w split: sum.split)
      qed
    qed
  qed
  moreover have "case fst (working_auth_client_for e w between aid m) of
            Inr c \<Rightarrow> \<exists>u \<in> set (proxies (between m1)). via c = Some u | Inl err \<Rightarrow> status err = 503"
  proof (cases "working_client_for e w aid m")
    case (Pair r m')
    have "pool_ok e (between m1)"
      using pool_steps [OF assms(4)] account_client_pool [OF reachable_pool_ok [OF assms(1)]] assms(5) by simp
    then have "routes_ok e (proxies (between m1)) (routes (between m1))" by (simp add: pool_ok_def)
    then show ?thesis
      using Pair api assms(3, 5, 6) routes_okD built_via(2)
      by (auto simp: working_auth_client_for_def Let_def binding_ok_def split: sum.splits option.splits)
         (metis binding_ok_def)
  qed
  ultimately show ?thesis by simp
qed

text \<open>
  The general client, which anonymous and sign-in traffic uses, goes through a proxy as well, whatever the rest
  of the program does while a proxy is being looked for: if proxy mode is on at the end of the call and
  the direct fallback is off, the client handed out is that of the current proxy.
\<close>

lemma general_traffic_stays_behind_proxies:
  assumes "reachable_pool e m" "step_world e w" "\<not> fallback_to_direct e" "enabled m"
    "working_client e w m = (r, m')" "enabled m'"
  shows "case r of Inr c \<Rightarrow> \<exists>u. via c = Some u \<and> current m' = Some u | Inl err \<Rightarrow> status err = 503"
proof -
  have "(proxy_step e)\<^sup>*\<^sup>* m m'" using working_client_steps [OF assms(2), of m] assms(5) by simp
  then have ok: "pool_ok e m'" using pool_steps reachable_pool_ok [OF assms(1)] by blast
  have ready: "try_resolve e w m = (True, m'') \<Longrightarrow> ready m''" for m''
    by (auto simp: try_resolve_def resolve_and_swap_def swap_to_def Let_def
        split: if_splits option.splits sum.splits)
  show ?thesis
    using assms ok ready
    by (auto simp: working_client_def pool_ok_def current_client_def unavailable_for_def
        split: if_splits prod.splits bool.splits)
qed

section \<open>Which proxy an account gets\<close>

lemma binding_after_bound:
  assumes "bindable e u"
  shows "\<exists>c r. fst (assign e aid u True m) = Some c \<and> via c = Some u \<and>
    hm_get (routes (snd (assign e aid u True m))) aid = Some r \<and> url r = u \<and> verified r"
  by (rule assign_cases [of e u True "[]" aid m]) (use assms in \<open>auto simp: hm_get_update\<close>)

lemma search_verdict:
  assumes "\<And>u. fallback = Some u \<Longrightarrow> turned u" "\<not> fallback_to_direct e"
    "search_for e w aid fallback m = (Inr c, m')"
  defines "h \<equiv> probe_proxy (net e) (agent e) (search w)"
  shows "\<exists>u r. via c = Some u \<and> hm_get (routes m') aid = Some r \<and> url r = u \<and> verified r \<and>
    (h u = Healthy \<or> (turned u \<or> h u = Blocked) \<and> (\<forall>v \<in> set (proxies m). h v = Healthy \<longrightarrow> \<not> bindable e v))"
proof (rule search_for_cases [of e w aid fallback m])
  fix u assume u: "bindable e u"
    "search_for e w aid fallback m = (Inr (the (fst (assign e aid u True m))), snd (assign e aid u True m))"
    "first_healthy e (search w) (candidates_for e w aid m) = Some u \<or>
       first_healthy e (search w) (candidates_for e w aid m) = None \<and>
       first_blocked e (search w) fallback (candidates_for e w aid m) = Some u"
  have "h u = Healthy \<or> (turned u \<or> h u = Blocked) \<and> (\<forall>v \<in> set (proxies m). h v = Healthy \<longrightarrow> \<not> bindable e v)"
    using u(3) assms(1) candidates_for_set [of e w aid m]
    by (auto simp: first_healthy_def h_def find_None_iff dest: found first_blocked_in)
  then show ?thesis using binding_after_bound [OF u(1), of aid m] u(2) assms(3) by auto
qed (use assms(2, 3) in \<open>auto simp: unavailable_for_def\<close>)


text \<open>
  An account is never refused while a proxy works: if some proxy on the list answers the search and its
  clients can be built, and the last failed search for this account is not less than 30 seconds old, the
  call succeeds.
\<close>

lemma account_gets_a_working_proxy:
  assumes "u \<in> set (proxies m)" "probe_proxy (net e) (agent e) (search w) u = Healthy" "bindable e u"
    "case hm_get (last_failed m) aid of None \<Rightarrow> True | Some t \<Rightarrow> clock w - t \<ge> 30"
  shows "\<exists>c m'. working_client_for e w aid m = (Inr c, m')"
proof (cases "enabled m \<and> Option.bind (hm_get (routes m) aid) (\<lambda>r. if verified r then Some (api_client r) else None) = None")
  case True
  obtain x m2 where x: "try_existing e (recheck w) aid m = (x, m2)" by force
  show ?thesis
  proof (cases x)
    case (NoBinding fb)
    have same: "last_failed m2 = last_failed m"
      using x by (auto simp: try_existing_def Let_def split: option.splits if_splits)
    have "u \<in> set (candidates_for e w aid m2)"
      using candidates_for_set [of e w aid m2] assms(1) try_existing_same [of m e "recheck w" aid] x
      by (simp add: same_egress_def)
    then have healthy: "first_healthy e (search w) (candidates_for e w aid m2) \<noteq> None"
      using assms(2, 3) by (auto simp: first_healthy_def find_None_iff)
    have "\<exists>c m'. search_for e w aid fb m2 = (Inr c, m')"
    proof (rule search_for_cases [of e w aid fb m2])
      fix u assume "search_for e w aid fb m2 = (Inr (the (fst (assign e aid u True m2))), snd (assign e aid u True m2))"
      then show ?thesis by blast
    next
      assume "search_for e w aid fb m2 = (unavailable_for e m2, m2)"
      moreover have "\<not> (case hm_get (last_failed m2) aid of None \<Rightarrow> False | Some t \<Rightarrow> clock w - t < 30)"
        using assms(4) same by (simp split: option.splits)
      ultimately show ?thesis using healthy
        by (auto simp: search_for_def Let_def try_candidates_in_order search_in_order_def dest: sym)
    qed (use healthy in simp)
    then show ?thesis using True x NoBinding by (simp add: working_client_for_def)
  qed (use True x in \<open>simp add: working_client_for_def\<close>)
qed (auto simp: working_client_for_def)

lemma find_filter: "List.find P (filter Q xs) = List.find (\<lambda>x. Q x \<and> P x) xs"
  by (induction xs) auto

lemma avoided_last:
  assumes "distinct entries" "v \<in> set entries" "v \<noteq> x"
    "List.find P (ordered_candidates hash i entries rs (Some x)) = Some x"
  shows "\<not> P v"
proof
  assume "P v"
  let ?cs = "ordered_candidates hash i entries rs (Some x)"
  have "v \<in> set ?cs" using assms(2) by (metis candidates_set set_mset_mset)
  then obtain a where a: "a < length entries" "?cs ! a = v" by (metis candidates_length in_set_conv_nth)
  obtain b where b: "b < length entries" "?cs ! b = x" "\<And>j. j < b \<Longrightarrow> \<not> P (?cs ! j)"
    using assms(4) by (auto simp: find_Some_iff)
  have "x \<in> set entries" using b by (metis candidates_length candidates_set nth_mem set_mset_mset)
  then have many: "length entries > 1"
    using assms(2, 3) by (auto simp: in_set_conv_nth) (metis Suc_lessI less_Suc0 gr_implies_not0 neq0_conv)
  have "a \<noteq> b" using a b assms(3) by auto
  then consider "a < b" | "b < a" by linarith
  then show False
  proof cases
    case 1
    then show False using a b \<open>P v\<close> by blast
  next
    case 2
    then show False
      using candidates_sorted [of b a entries ?cs hash i rs "Some x"] a b assms(3) many
      by (auto simp: less_eq_prod_def)
  qed
qed

lemma candidates_avoid:
  assumes "distinct (proxies m)" "v \<in> set (proxies m)" "v \<noteq> x" "hm_get (avoided m) aid = Some x"
    "probe_proxy (net e) (agent e) seen v = Healthy" "bindable e v"
    "first_healthy e seen (candidates_for e w aid m) = Some u"
  shows "u \<noteq> x"
proof
  assume ux: "u = x"
  let ?P = "\<lambda>u. probe_proxy (net e) (agent e) seen u = Healthy \<and> bindable e u"
  let ?cs = "ordered_candidates (spread e) aid (proxies m) (routes m) (Some x)"
  show False
  proof (cases "case shared_proxy_for e (shared_fp w) (proxies m) of None \<Rightarrow> None | Some s \<Rightarrow> if s = x then None else Some s")
    case None
    then have "List.find ?P ?cs = Some x"
      using assms(4, 7) ux by (auto simp: candidates_for_def first_healthy_def Let_def split: option.splits if_splits)
    then show False using avoided_last [OF assms(1-3)] assms(5, 6) by blast
  next
    case (Some s)
    then have s: "shared_proxy_for e (shared_fp w) (proxies m) = Some s" "s \<noteq> x"
      by (auto split: option.splits if_splits)
    then have "List.find ?P (s # filter (\<lambda>u. u \<noteq> s) ?cs) = Some x"
      using assms(4, 7) ux by (simp add: candidates_for_def first_healthy_def Let_def)
    then have "\<not> ?P s" "List.find (\<lambda>u. u \<noteq> s \<and> ?P u) ?cs = Some x"
      using s(2) by (auto simp: find_filter split: if_splits)
    then show False using avoided_last [OF assms(1-3)] assms(5, 6) by blast
  qed
qed

section \<open>Accounts do not disturb each other\<close>

lemma emit_routes_other: "other \<noteq> aid \<Longrightarrow> hm_get (hm_remove aid rs) other = hm_get rs other"
  "other \<noteq> aid \<Longrightarrow> hm_get (hm_insert aid r rs) other = hm_get rs other"
  by (simp_all add: hm_get_delete hm_get_update)

lemma insert_again: "hm_insert k v (hm_insert k v' rs) = hm_insert k v rs"
  unfolding hm_insert_def by (induction rs) auto

lemma rotate_other: "other \<noteq> aid \<Longrightarrow> hm_get (routes (rotate_account e aid m)) other = hm_get (routes m) other"
  by (simp add: rotate_routes emit_routes_other)

lemma failure_other: "other \<noteq> aid \<Longrightarrow> hm_get (routes (note_failure_for e aid m)) other = hm_get (routes m) other"
  by (simp add: note_failure_for_def Let_def rotate_other emit_routes_other split: option.split)

lemma search_other:
  "other \<noteq> aid \<Longrightarrow> hm_get (routes (snd (search_for e w aid fb m))) other = hm_get (routes m) other"
  by (rule search_for_cases [of e w aid fb m]) (auto simp: assign_other)

text \<open>
  Nothing that happens to one account's proxy (finding one, losing it after failures, being forgotten)
  moves another account: its binding, with its failure count, stays what it was.
\<close>

lemma accounts_keep_their_own_proxy:
  assumes "other \<noteq> aid"
  shows "hm_get (routes (snd (working_client_for e w aid m))) other = hm_get (routes m) other \<and>
    hm_get (routes (note_failure_for e aid m)) other = hm_get (routes m) other \<and>
    hm_get (routes (note_success_for aid m)) other = hm_get (routes m) other \<and>
    hm_get (routes (rotate_account e aid m)) other = hm_get (routes m) other \<and>
    hm_get (routes (forget_account e aid m)) other = hm_get (routes m) other"
proof (intro conjI)
  have ex: "hm_get (routes (snd (try_existing e seen aid m))) other = hm_get (routes m) other" for seen
    using assms by (auto simp: try_existing_def Let_def emit_routes_other split: option.split)
  show "hm_get (routes (snd (working_client_for e w aid m))) other = hm_get (routes m) other"
    using search_other [OF assms] ex [of "recheck w"]
    by (auto simp: working_client_for_def split: option.split prod.split existing_end.split)
qed (use assms in \<open>auto simp: failure_other rotate_other note_success_for_def forget_account_def emit_routes_other
       split: option.split\<close>)

text \<open>
  C8. Three failures in a row, and not fewer, take the proxy away from an account. The next search avoids that proxy:
  as long as another proxy on the list answers, the account does not come back to it.
\<close>

theorem failing_proxy_is_left:
  assumes "enabled m" "hm_get (routes m) aid = Some r" "failures r = 0" "\<not> fallback_to_direct e"
    "distinct (proxies m)" "v \<in> set (proxies m)" "v \<noteq> url r"
    "probe_proxy (net e) (agent e) (search w) v = Healthy" "bindable e v"
    "working_client_for e w aid (((note_failure_for e aid) ^^ 3) m) = (res, m')"
  shows "(\<exists>r2. hm_get (routes (((note_failure_for e aid) ^^ 2) m)) aid = Some r2 \<and> url r2 = url r) \<and>
    hm_get (routes (((note_failure_for e aid) ^^ 3) m)) aid = None \<and>
    (\<exists>c u. res = Inr c \<and> via c = Some u \<and> u \<noteq> url r)"
proof -
  let ?f = "note_failure_for e aid"
  let ?touch = "\<lambda>n. m\<lparr>routes := hm_insert aid (r\<lparr>failures := n\<rparr>) (routes m)\<rparr>"
  have touch_get: "hm_get (routes (?touch n)) aid = Some (r\<lparr>failures := n\<rparr>)" for n
    by (simp add: hm_get_update)
  have f1: "?f m = ?touch 1" using assms(1-3) by (simp add: note_failure_for_def Let_def)
  have f2: "?f (?touch 1) = ?touch 2"
    using assms(1) by (simp add: note_failure_for_def Let_def hm_get_update insert_again eval_nat_numeral)
  have f3: "?f (?touch 2) = rotate_account e aid (?touch 3)"
    using assms(1) by (simp add: note_failure_for_def Let_def hm_get_update insert_again eval_nat_numeral)
  have two: "(?f ^^ 2) m = ?touch 2" and three: "(?f ^^ 3) m = rotate_account e aid (?touch 3)"
    using f1 f2 f3 by (simp_all add: eval_nat_numeral)
  let ?m = "rotate_account e aid (?touch 3)"
  have gone: "hm_get (routes ?m) aid = None" by (simp add: rotate_routes hm_get_delete)
  have state: "enabled ?m" "proxies ?m = proxies m" "hm_get (avoided ?m) aid = Some (url r)"
      "hm_get (last_failed ?m) aid = None"
    using assms(1) by (simp_all add: rotate_account_def hm_get_update hm_get_delete)
  have run: "working_client_for e w aid ?m = search_for e w aid None ?m"
    using state(1) gone by (simp add: working_client_for_def try_existing_def)
  obtain u where u: "first_healthy e (search w) (candidates_for e w aid ?m) = Some u"
    using candidates_for_set [of e w aid ?m] assms(6, 8, 9) state(2)
    by (cases "first_healthy e (search w) (candidates_for e w aid ?m)")
      (auto simp: first_healthy_def find_None_iff)
  then have "u \<noteq> url r"
    by (intro candidates_avoid [of ?m v "url r" aid e "search w" w u]) (use assms(5-9) state in simp_all)
  moreover have "bindable e u" using u by (auto simp: first_healthy_def dest: found)
  then have "\<exists>c. search_for e w aid None ?m = (Inr c, snd (assign e aid u True ?m)) \<and> via c = Some u"
    using binding_after_bound [of e u aid ?m] u state(4)
    by (auto simp: search_for_def Let_def try_candidates_in_order search_in_order_def)
  ultimately show ?thesis using assms(10) run two three gone touch_get [of 2] by auto
qed

section \<open>Switching\<close>

text \<open>
  A proxy that was found under an older configuration never becomes current: a resolve or a rotation that was
  running when the owner changed the configuration (each change raises the generation) leaves everything
  as the change left it, and so does one that ends after proxy mode was switched off.
\<close>

lemma outdated_search_changes_nothing:
  assumes "generation (others w 1 (others w 0 m)) \<noteq> gen \<or> \<not> enabled (others w 1 (others w 0 m))"
  shows "resolve_and_swap e w avoid gen m = (False, others w 1 (others w 0 m))"
  using assms by (auto simp: resolve_and_swap_def swap_to_def Let_def split: option.split)

lemma configure_raises: "configure e seen enable raw m = (Inr (), m') \<Longrightarrow> generation m' = generation m + 1"
  using rebalance_same
  by (auto simp: configure_def Let_def configure_routes_def configure_stores_def same_egress_def
      split: sum.splits if_splits)

text \<open>
  While \<open>configure\<close> is at work on a manager that is in use, its stores are seen one by one: after it has put the
  direct client in place, and until it clears \<open>ready\<close>, a request still finds the manager in proxy mode
  and ready, and is given the direct client. The same holds when proxy mode is being switched on.
\<close>

lemma edit_leaks_the_host_address:
  assumes "ready m" "k = 5 \<or> k = 4 \<and> enabled m"
  shows "enabled (fold (\<lambda>f. f) (take k (configure_stores True us)) m) \<and>
    working_client e w (fold (\<lambda>f. f) (take k (configure_stores True us)) m) =
      (Inr (direct_client m), fold (\<lambda>f. f) (take k (configure_stores True us)) m)"
  using assms by (auto simp: configure_stores_def working_client_def current_client_def)

section \<open>What is shown of a proxy\<close>

text \<open>
  The log and the status page show where a proxy is and never the credentials in its address: whatever stands
  between the scheme and the last at-sign is replaced by three asterisks, and an address without
  credentials is shown as it is.
\<close>

lemma credentials_are_masked:
  assumes "CHR '':'' \<notin> set scheme" "CHR ''@'' \<notin> set host"
  shows "mask_proxy (scheme @ ''://'' @ credentials @ ''@'' @ host) = scheme @ ''://***@'' @ host \<and>
    mask_proxy (scheme @ ''://'' @ host) = scheme @ ''://'' @ host"
proof -
  have "after_last_at host = None" using assms(2) by (induction host) auto
  then show ?thesis
    using scheme_split [OF assms(1), of "credentials @ CHR ''@'' # host"] scheme_split [OF assms(1), of host]
      last_at [OF assms(2), of credentials]
    by (simp add: mask_proxy_def)
qed

text \<open>
  An address without a scheme, which \<open>Proxy::all\<close> reads as an HTTP proxy, keeps its credentials.
\<close>

lemma credentials_without_scheme_are_shown:
  "CHR '':'' \<notin> set name \<Longrightarrow> CHR ''/'' \<notin> set rest \<Longrightarrow>
    mask_proxy (name @ '':'' @ rest) = name @ '':'' @ rest"
proof -
  assume name: "CHR '':'' \<notin> set name" and rest: "CHR ''/'' \<notin> set rest"
  have slash: "starts_with ''://'' s \<Longrightarrow> CHR ''/'' \<in> set (tl s)" for s
    by (cases s rule: list.exhaust; cases "tl s") (auto simp: starts_with_def)
  have tail: "split_scheme rest = None" using rest
  proof (induction rest)
    case (Cons c cs)
    then show ?case using slash [of "c # cs"] by auto
  qed simp
  then have "split_scheme (CHR '':'' # rest) = None" using slash [of "CHR '':'' # rest"] rest by auto
  then have "split_scheme (name @ '':'' @ rest) = None"
    using name by (induction name) (auto simp: starts_with_def)
  then show ?thesis by (simp add: mask_proxy_def)
qed

section \<open>A small setting\<close>

definition plain_env :: proxy_env where
  "plain_env = \<lparr>net = \<lparr>bad_url = \<lambda>u. None, unbuildable = \<lambda>c. None\<rparr>, agent = ''tidal'', spread = \<lambda>a. 0,
     fp = \<lambda>u. u, use_proxies = True, fallback_to_direct = False, rotate_on_refresh = False,
     add_one = ''add a proxy'', has_db = True, has_store = True\<rparr>"

definition all_up :: probes where
  "all_up u = Some (200, None)"

definition plain_run :: proxy_run where
  "plain_run = \<lparr>recheck = all_up, search = all_up, clock = 1000, shared_fp = None\<rparr>"

definition quiet_run :: resolve_run where
  "quiet_run = \<lparr>probed = all_up, rng = \<lambda>i. 0, resolve_clock = 1000, others = \<lambda>k m. m\<rparr>"

definition plain_new :: proxy_manager where
  "plain_new = proxy_manager_new plain_env (tidal_client_spec None ''tidal'' False) (tidal_client_spec None ''tidal'' True) None"

definition plain_pool :: proxy_manager where
  "plain_pool = snd (configure plain_env all_up True [''http://a:1'', ''http://b:2''] plain_new)"

definition plain_bound :: proxy_manager where
  "plain_bound = snd (working_client_for plain_env plain_run ''one'' plain_pool)"

lemma plain_pool_reachable: "reachable_pool plain_env plain_pool"
proof -
  have "proxy_step plain_env plain_new plain_pool"
    unfolding plain_pool_def by (metis by_configure prod.collapse)
  then show ?thesis
    unfolding reachable_pool_def plain_new_def by (force simp: tidal_client_spec_def)
qed

lemma quiet_world: "step_world e quiet_run"
  by (simp add: step_world_def quiet_run_def)

lemma plain_edit_reachable:
  "reachable_store plain_env (fold (\<lambda>f. f) (take 4 (edit_stores plain_env all_up True [''http://c:3''] plain_bound)) plain_bound)
     (drop 4 (edit_stores plain_env all_up True [''http://c:3''] plain_bound))"
proof -
  let ?l = "edit_stores plain_env all_up True [''http://c:3''] plain_bound"
  have "proxy_step plain_env plain_new plain_pool" unfolding plain_pool_def by (metis by_configure prod.collapse)
  moreover have "proxy_step plain_env plain_pool plain_bound" unfolding plain_bound_def by (metis by_account prod.collapse)
  moreover have "normalize_proxies (net plain_env) (add_one plain_env) [''http://c:3''] True = Inr [''http://c:3'']" by code_simp
  ultimately have start: "(store_step plain_env)\<^sup>*\<^sup>* (plain_new, []) (plain_bound, ?l)"
    by (meson settled edits converse_rtranclp_into_rtranclp rtranclp.rtrancl_refl)
  have "(store_step plain_env)\<^sup>*\<^sup>* (m, fs) (fold (\<lambda>f. f) (take k fs) m, drop k fs)" for k m fs
  proof (induction k arbitrary: m fs)
    case (Suc k)
    show ?case
    proof (cases fs)
      case (Cons f gs)
      have "store_step plain_env (m, f # gs) (f m, gs)" by (rule stores)
      with Suc [of "f m" gs] show ?thesis unfolding Cons by (simp add: converse_rtranclp_into_rtranclp)
    qed simp
  qed simp
  from rtranclp_trans [OF start this [of plain_bound ?l 4]] show ?thesis
    unfolding reachable_store_def plain_new_def by (force simp: tidal_client_spec_def)
qed


theorem account_traffic_stays_behind_proxies_witness:
  "case fst (working_auth_client_for plain_env plain_run (\<lambda>m. m) ''one'' plain_pool) of
     Inr c \<Rightarrow> via c \<in> {Some ''http://a:1'', Some ''http://b:2''} | Inl err \<Rightarrow> False"
proof -
  have on: "enabled plain_pool" "\<not> fallback_to_direct plain_env" "enabled plain_bound"
    "proxies plain_bound = [''http://a:1'', ''http://b:2'']"
    "\<not> isl (fst (working_auth_client_for plain_env plain_run (\<lambda>m. m) ''one'' plain_pool))"
    by (code_simp+)
  have "case fst (working_auth_client_for plain_env plain_run (\<lambda>m. m) ''one'' plain_pool) of
      Inr c \<Rightarrow> \<exists>u \<in> set (proxies plain_bound). via c = Some u | Inl err \<Rightarrow> status err = 503"
    by (rule account_traffic_stays_behind_proxies [OF plain_pool_reachable on(1, 2) _ plain_bound_def, THEN conjunct2])
      (simp_all add: on(3))
  then show ?thesis using on(4, 5) by (simp split: sum.splits)
qed

theorem general_traffic_stays_behind_proxies_witness:
  "case fst (working_client plain_env quiet_run plain_pool) of
     Inr c \<Rightarrow> \<exists>u. via c = Some u | Inl err \<Rightarrow> False"
proof -
  have on: "\<not> fallback_to_direct plain_env" "enabled plain_pool"
    "enabled (snd (working_client plain_env quiet_run plain_pool))"
    "\<not> isl (fst (working_client plain_env quiet_run plain_pool))"
    by (code_simp+)
  from general_traffic_stays_behind_proxies [OF plain_pool_reachable quiet_world on(1, 2) prod.collapse [symmetric] on(3)]
  show ?thesis using on(4) by (auto split: sum.splits)
qed

definition half_up :: probes where
  "half_up u = (if u = ''http://b:2'' then Some (200, None) else Some (403, None))"

definition half_run :: proxy_run where
  "half_run = plain_run\<lparr>recheck := half_up, search := half_up\<rparr>"


theorem account_gets_a_working_proxy_witness:
  "\<exists>c m'. working_client_for plain_env half_run ''one'' plain_pool = (Inr c, m')"
proof (rule account_gets_a_working_proxy [of "''http://b:2''"])
  show "''http://b:2'' \<in> set (proxies plain_pool)" by code_simp
  show "probe_proxy (net plain_env) (agent plain_env) (search half_run) ''http://b:2'' = Healthy" by code_simp
  show "bindable plain_env ''http://b:2''" by code_simp
  show "case hm_get (last_failed plain_pool) ''one'' of None \<Rightarrow> True | Some t \<Rightarrow> clock half_run - t \<ge> 30"
    by code_simp
qed

theorem accounts_keep_their_own_proxy_witness:
  "hm_get (routes (snd (working_client_for plain_env plain_run ''two'' plain_bound))) ''one'' \<noteq> None"
proof -
  have "hm_get (routes plain_bound) ''one'' \<noteq> None" by code_simp
  then show ?thesis using accounts_keep_their_own_proxy [of "''one''" "''two''"] by simp
qed

theorem failing_proxy_is_left_witness:
  "\<exists>c u r. hm_get (routes plain_bound) ''one'' = Some r \<and>
    fst (working_client_for plain_env plain_run ''one'' (((note_failure_for plain_env ''one'') ^^ 3) plain_bound)) = Inr c \<and>
    via c = Some u \<and> u \<noteq> url r"
proof -
  have on: "enabled plain_bound" "\<not> fallback_to_direct plain_env" "distinct (proxies plain_bound)"
    "''http://b:2'' \<in> set (proxies plain_bound)"
    "probe_proxy (net plain_env) (agent plain_env) (search plain_run) ''http://b:2'' = Healthy"
    "bindable plain_env ''http://b:2''"
    "map_option (\<lambda>r. (url r, failures r)) (hm_get (routes plain_bound) ''one'') = Some (''http://a:1'', 0)"
    by (code_simp+)
  then obtain r where r: "hm_get (routes plain_bound) ''one'' = Some r" "failures r = 0" "url r = ''http://a:1''"
    by auto
  have "''http://b:2'' \<noteq> url r" by (simp add: r(3))
  from failing_proxy_is_left [OF on(1) r(1, 2) on(2-4) this on(5, 6) prod.collapse [symmetric]] r(1)
  show ?thesis by blast
qed

theorem outdated_search_changes_nothing_witness:
  "resolve_and_swap plain_env quiet_run None 0 plain_pool = (False, plain_pool)"
proof -
  have "generation plain_pool \<noteq> 0" by code_simp
  then show ?thesis
    using outdated_search_changes_nothing [of quiet_run plain_pool 0 plain_env None] by (simp add: quiet_run_def)
qed

theorem credentials_are_masked_witness:
  "mask_proxy ''http://bob:pw@host:80'' = ''http://***@host:80''"
  using credentials_are_masked [of "''http''" "''host:80''" "''bob:pw''"] by simp

lemma edit_leaks_the_host_address_witness:
  "fst (working_client plain_env quiet_run
     (fold (\<lambda>f. f) (take 4 (configure_stores True [''http://c:3'']))
       (snd (working_client plain_env quiet_run plain_pool)))) = Inr (tidal_client_spec None ''tidal'' False)"
proof -
  let ?m = "snd (working_client plain_env quiet_run plain_pool)"
  have on: "ready ?m" "enabled ?m" "direct_client ?m = tidal_client_spec None ''tidal'' False"
    by (code_simp+)
  then show ?thesis using edit_leaks_the_host_address [of ?m 4 "[''http://c:3'']" plain_env quiet_run] by simp
qed

end
