(* ===== verification/ProxyFleet.thy ===== *)
theory ProxyFleet
  imports EgressProps
begin

text \<open>
  Bindings as a whole: what rebalancing may move, what a restart restores, and how the instances that
  share a Redis come to use one address per account.
\<close>

section \<open>Rebalancing\<close>

definition load :: "(string, nat) hash_map \<Rightarrow> string \<Rightarrow> nat" where
  "load l u = (case hm_get l u of None \<Rightarrow> 0 | Some n \<Rightarrow> n)"

lemma load_insert: "load (hm_insert k n l) u = (if u = k then n else load l u)"
  by (simp add: load_def hm_get_update)

lemma uses_insert:
  "hm_get rs aid = Some r \<Longrightarrow>
    uses (hm_insert aid r' rs) u + (if url r = u then 1 else 0) = uses rs u + (if url r' = u then 1 else 0)"
  unfolding uses_def hm_get_def hm_insert_def by (induction rs) auto

lemma loads_of_match: "load (loads_of rs) u = uses rs u \<and> hm_wf (loads_of rs)"
proof -
  let ?f = "\<lambda>r l. hm_insert (url r) ((case hm_get l (url r) of None \<Rightarrow> 0 | Some n \<Rightarrow> n) + 1) l"
  have "hm_wf l \<Longrightarrow> load (fold ?f xs l) u = load l u + length (filter (\<lambda>r. url r = u) xs) \<and> hm_wf (fold ?f xs l)"
    for xs :: "account_proxy list" and l
  proof (induction xs arbitrary: l)
    case (Cons r xs)
    have "load (?f r l) u = load l u + (if url r = u then 1 else 0)"
      by (auto simp: load_def hm_get_update)
    then show ?case using Cons.IH [of "?f r l"] Cons.prems by (simp add: hm_wf_insert)
  qed simp
  from this [of "[]"] show ?thesis by (simp add: loads_of_def uses_def load_def hm_get_def hm_wf_def)
qed

lemma pick_source_loaded:
  assumes "pick_source loads = Some s" "hm_wf loads" shows "load loads s > 1 \<and> hm_get loads s = Some (load loads s)"
proof -
  let ?shared = "filter (\<lambda>(u, n). n > 1) loads"
  have ne: "?shared \<noteq> []" and s: "s = snd (Max (set (map (\<lambda>(u, n). (n, u)) ?shared)))"
    using assms(1) by (cases ?shared; simp add: pick_source_def)+
  let ?ps = "map (\<lambda>(u, n). (n, u)) ?shared"
  have "Max (set ?ps) \<in> set ?ps"
    using ne by (intro Max_in) (auto simp: filter_empty_conv)
  then obtain u n where un: "(u, n) \<in> set ?shared" "Max (set ?ps) = (n, u)"
    unfolding set_map by (elim imageE) (metis case_prod_conv surj_pair)
  then have n: "(s, n) \<in> set loads" "n > 1" by (simp_all add: s)
  then have "hm_get loads s = Some n" using assms(2) by (simp add: hm_get_def hm_wf_def)
  then show ?thesis using n by (simp add: load_def)
qed

lemma last_on_bound:
  assumes "last_on s rs = Some aid" "hm_wf rs" shows "\<exists>r. hm_get rs aid = Some r \<and> url r = s"
proof -
  let ?ids = "map fst (filter (\<lambda>(_, r). url r = s) rs)"
  have "?ids \<noteq> []" "aid = Max (set ?ids)" using assms(1) by (cases ?ids; simp add: last_on_def)+
  then have "aid \<in> set ?ids" using Max_in by (metis List.finite_set set_empty)
  then show ?thesis using assms(2) by (force simp: hm_get_def hm_wf_def)
qed

text \<open>What has been moved so far, compared with the bindings before.\<close>

definition moved_fairly :: "proxy_env \<Rightarrow> probes \<Rightarrow> string list \<Rightarrow> assignments \<Rightarrow> assignments \<Rightarrow> bool" where
  "moved_fairly e seen entries rs rs' \<longleftrightarrow>
     (\<forall>u. uses rs' u \<le> max (uses rs u) 1 \<and> (uses rs u \<ge> 1 \<longrightarrow> uses rs' u \<ge> 1)) \<and>
     (\<forall>aid. hm_get rs' aid = hm_get rs aid \<or>
       (\<exists>r r'. hm_get rs aid = Some r \<and> hm_get rs' aid = Some r' \<and> uses rs (url r) > 1 \<and>
          url r' \<in> set entries \<and> uses rs (url r') = 0 \<and> uses rs' (url r') = 1 \<and> verified r' \<and>
          probe_proxy (net e) (agent e) seen (url r') = Healthy))"

lemma moved_fairly_refl: "moved_fairly e seen entries rs rs"
  by (simp add: moved_fairly_def)

lemma moved_fairly_step:
  assumes fair: "moved_fairly e seen entries rs rs1"
    and r: "hm_get rs1 aid = Some r" "uses rs1 (url r) > 1"
    and r': "verified r'" "url r' \<in> set entries" "probe_proxy (net e) (agent e) seen (url r') = Healthy"
      "uses rs1 (url r') = 0" "uses rs (url r') = 0"
  shows "moved_fairly e seen entries rs (hm_insert aid r' rs1)"
proof -
  let ?rs = "hm_insert aid r' rs1"
  have uses: "uses ?rs u + (if url r = u then 1 else 0) = uses rs1 u + (if url r' = u then 1 else 0)" for u
    by (rule uses_insert [OF r(1)])
  have ne: "url r \<noteq> url r'" using r(2) r'(4) by auto
  have before: "uses rs (url r) > 1"
    using fair r(2) by (auto simp: moved_fairly_def max_def dest: spec [of _ "url r"] split: if_splits)
  have counts: "uses ?rs u \<le> max (uses rs u) 1 \<and> (uses rs u \<ge> 1 \<longrightarrow> uses ?rs u \<ge> 1)" for u
  proof -
    have "uses rs1 u \<le> max (uses rs u) 1" "uses rs u \<ge> 1 \<longrightarrow> uses rs1 u \<ge> 1"
      using fair by (simp_all add: moved_fairly_def)
    then show ?thesis using uses [of u] r(2) r'(4, 5) ne by (auto split: if_splits)
  qed
  have "hm_get rs aid = Some r"
    using fair r by (auto simp: moved_fairly_def dest: spec [of _ aid])
  then have own: "\<exists>r0 r1. hm_get rs aid = Some r0 \<and> hm_get ?rs aid = Some r1 \<and> uses rs (url r0) > 1 \<and>
      url r1 \<in> set entries \<and> uses rs (url r1) = 0 \<and> uses ?rs (url r1) = 1 \<and> verified r1 \<and>
      probe_proxy (net e) (agent e) seen (url r1) = Healthy"
    using before r' uses [of "url r'"] ne by (auto simp: hm_get_update)
  have "hm_get ?rs x = hm_get rs x \<or>
      (\<exists>r0 r1. hm_get rs x = Some r0 \<and> hm_get ?rs x = Some r1 \<and> uses rs (url r0) > 1 \<and>
      url r1 \<in> set entries \<and> uses rs (url r1) = 0 \<and> uses ?rs (url r1) = 1 \<and> verified r1 \<and>
      probe_proxy (net e) (agent e) seen (url r1) = Healthy)" for x
  proof (cases "x = aid")
    case False
    then have get: "hm_get ?rs x = hm_get rs1 x" by (simp add: hm_get_update)
    show ?thesis
    proof (cases "hm_get rs1 x = hm_get rs x")
      case False
      then obtain r0 r1 where x: "hm_get rs x = Some r0" "hm_get rs1 x = Some r1" "uses rs (url r0) > 1"
          "url r1 \<in> set entries" "uses rs (url r1) = 0" "uses rs1 (url r1) = 1" "verified r1"
          "probe_proxy (net e) (agent e) seen (url r1) = Healthy"
        using fair unfolding moved_fairly_def by metis
      then have "uses ?rs (url r1) = 1" using uses [of "url r1"] r(2) r'(4) by (auto split: if_splits)
      then show ?thesis using x get by auto
    qed (simp add: get)
  qed (use own in simp)
  then show ?thesis using counts unfolding moved_fairly_def by blast
qed

lemma rebalance_loop_fair:
  assumes "moved_fairly e seen entries rs (routes m)" "hm_wf (routes m)" "hm_wf loads"
    "\<forall>u. load loads u = uses (routes m) u" "distinct (map fst ts)"
    "\<forall>(t, h) \<in> set ts. t \<in> set entries \<and> h = probe_proxy (net e) (agent e) seen t \<and> uses rs t = 0 \<and> load loads t = 0"
  shows "moved_fairly e seen entries rs (routes (rebalance_loop e ts loads m))"
  using assms
proof (induction ts arbitrary: loads m)
  case (Cons x ts)
  obtain t h where x: "x = (t, h)" by force
  note t = Cons.prems(6) [unfolded x, simplified]
  have skip: "moved_fairly e seen entries rs (routes (rebalance_loop e ts loads m))"
    using Cons.prems by (intro Cons.IH) auto
  show ?case
  proof (cases "h = Healthy \<and> pick_source loads \<noteq> None")
    case True
    then obtain s where s: "pick_source loads = Some s" and h: "h = Healthy" by auto
    have src: "load loads s > 1" "hm_get loads s = Some (load loads s)"
      using pick_source_loaded [OF s Cons.prems(3)] by simp_all
    show ?thesis
    proof (cases "last_on s (routes m)")
      case (Some aid)
      obtain r where r: "hm_get (routes m) aid = Some r" "url r = s"
        using last_on_bound [OF Some Cons.prems(2)] by auto
      show ?thesis
      proof (rule assign_cases [of e t True "[]" aid m])
        fix r' assume r': "url r' = t" "verified r' = True" "fst (assign e aid t True m) = Some (api_client r')"
          "routes (snd (assign e aid t True m)) = hm_insert aid r' (routes m)"
        let ?m = "snd (assign e aid t True m)" and ?loads = "hm_insert t 1 (hm_insert s (load loads s - 1) loads)"
        have ne: "s \<noteq> t" using src t by auto
        have loads: "load ?loads u = uses (hm_insert aid r' (routes m)) u" for u
          using uses_insert [OF r(1), of r' u] Cons.prems(4) r(2) r'(1) src t ne
          by (auto simp: load_insert split: if_splits)
        have rest: "load ?loads t' = 0" if "(t', h') \<in> set ts" for t' h'
        proof -
          have "t' \<noteq> t" using Cons.prems(5) x that by (force simp: image_iff)
          moreover have "load loads t' = 0" using Cons.prems(6) that by auto
          moreover then have "t' \<noteq> s" using src by auto
          ultimately show ?thesis by (simp add: load_insert)
        qed
        have fair: "moved_fairly e seen entries rs (hm_insert aid r' (routes m))"
          by (rule moved_fairly_step [OF Cons.prems(1) r(1)]) (use r r' src t h Cons.prems(4) in auto)
        have "moved_fairly e seen entries rs (routes (rebalance_loop e ts ?loads ?m))"
          by (rule Cons.IH) (use Cons.prems r' loads rest fair in \<open>auto simp: hm_wf_insert\<close>)
        moreover obtain m1 where "assign e aid t True m = (Some (api_client r'), m1)"
          using r'(3) by (metis prod.collapse)
        ultimately show ?thesis by (simp add: x s Some h src(2))
      next
        assume "assign e aid t True m = (None, m)"
        then show ?thesis using x s Some h skip by simp
      qed
    qed (use x s h skip in simp)
  qed (use x skip Cons.prems(1) in \<open>auto split: option.split\<close>)
qed simp

text \<open>
  C10. Rebalancing spreads accounts onto spare proxies and does nothing else: an account keeps its binding, or it
  shared its proxy with another and now has one that nobody used and that just answered, alone. No
  proxy that was in use is left empty, and none gets more accounts than it had.
\<close>

theorem rebalancing_moves_only_crowded_accounts:
  assumes "hm_wf (routes m)" "distinct entries"
  shows "moved_fairly e seen entries (routes m) (routes (rebalance_assignments_locked e seen entries m))"
proof -
  let ?loads = "loads_of (routes m)"
  let ?free = "filter (\<lambda>u. hm_get ?loads u = None) entries"
  have match: "load ?loads u = uses (routes m) u" for u using loads_of_match by blast
  then have free: "hm_get ?loads u = None \<Longrightarrow> uses (routes m) u = 0" for u
    by (metis load_def option.simps(4))
  have "moved_fairly e seen entries (routes m)
      (routes (rebalance_loop e (map (\<lambda>u. (u, probe_proxy (net e) (agent e) seen u)) ?free) ?loads m))"
    by (rule rebalance_loop_fair)
      (use assms loads_of_match match free moved_fairly_refl in \<open>auto simp: comp_def\<close>)
  then show ?thesis
    using moved_fairly_refl by (simp add: rebalance_assignments_locked_def Let_def)
qed

section \<open>Restart\<close>

text \<open>What the written effects make of the binding table and of the shared store.\<close>

fun db_effect :: "proxy_effect \<Rightarrow> (string, string) hash_map \<Rightarrow> (string, string) hash_map" where
  "db_effect (SaveBinding aid u) db = hm_insert aid u db"
| "db_effect (DropBinding aid) db = hm_remove aid db"
| "db_effect x db = db"

fun share_effect :: "proxy_effect \<Rightarrow> (string, string) hash_map \<Rightarrow> (string, string) hash_map" where
  "share_effect (ShareFp aid f) s = hm_insert aid f s"
| "share_effect (ShareFpNx aid f) s = (if hm_get s aid = None then hm_insert aid f s else s)"
| "share_effect (UnshareFp aid) s = hm_remove aid s"
| "share_effect x s = s"

definition table_after :: "(string, string) hash_map \<Rightarrow> proxy_manager \<Rightarrow> (string, string) hash_map" where
  "table_after db m = fold db_effect (out m) db"

definition stored :: "(string, string) hash_map \<Rightarrow> proxy_manager \<Rightarrow> bool" where
  "stored db m \<longleftrightarrow>
     (\<forall>aid r. hm_get (routes m) aid = Some r \<longrightarrow> hm_get (table_after db m) aid = Some (url r))"

lemma storedD: "stored db m \<Longrightarrow> hm_get (routes m) aid = Some r \<Longrightarrow> hm_get (table_after db m) aid = Some (url r)"
  and storedI: "(\<And>aid r. hm_get (routes m) aid = Some r \<Longrightarrow> hm_get (table_after db m) aid = Some (url r)) \<Longrightarrow> stored db m"
  by (simp_all add: stored_def)

lemma table_upd [simp]:
  "table_after db (m\<lparr>routes := x\<rparr>) = table_after db m" "table_after db (m\<lparr>avoided := y\<rparr>) = table_after db m"
  "table_after db (m\<lparr>last_failed := z\<rparr>) = table_after db m"
  by (simp_all add: table_after_def)

lemma assign_table:
  assumes "has_db e" "stored db m" shows "stored db (snd (assign e aid u ok m))"
proof (cases "bindable e u")
  case True
  then obtain c a where "build_client (net e) (Some u) (agent e) = Inr c"
      "build_auth_client (net e) (Some u) (agent e) = Inr a"
    by (auto simp: bindable_def split: sum.splits)
  then show ?thesis
    using assms(1) storedD [OF assms(2)]
    by (intro storedI) (auto simp: assign_def emit_to_def table_after_def hm_get_update split: if_splits)
next
  case False
  then show ?thesis using assms by (simp add: assign_unbindable)
qed

lemma clear_table: "hm_get (table_after db (clear_assignment e aid m)) other =
    (if has_db e \<and> other = aid then None else hm_get (table_after db m) other)"
  by (auto simp: clear_assignment_def emit_to_def table_after_def hm_get_delete)

lemma clear_all_table: "hm_get (table_after db (fold (clear_assignment e) xs m)) other =
    (if has_db e \<and> other \<in> set xs then None else hm_get (table_after db m) other)"
  by (induction xs arbitrary: m) (auto simp: clear_table)

lemma table_out: "out m' = out m \<Longrightarrow> table_after db m' = table_after db m"
  by (simp add: table_after_def)

lemma stored_fewer:
  assumes "stored db m" "out m' = out m"
    "\<And>aid r. hm_get (routes m') aid = Some r \<Longrightarrow> \<exists>r0. hm_get (routes m) aid = Some r0 \<and> url r0 = url r"
  shows "stored db m'"
  using storedD [OF assms(1)] assms(3) table_out [OF assms(2)] by (intro storedI) metis

lemma rotate_stored: "has_db e \<Longrightarrow> stored db m \<Longrightarrow> stored db (rotate_account e aid m)"
  by (auto intro!: storedI dest: storedD
      simp: rotate_account_def clear_table hm_get_delete split: option.splits if_splits)

lemma forget_stored: "has_db e \<Longrightarrow> stored db m \<Longrightarrow> stored db (forget_account e aid m)"
  by (auto intro!: storedI dest: storedD
      simp: forget_account_def clear_table hm_get_delete split: if_splits)

lemma touch_stored:
  "stored db m \<Longrightarrow> hm_get (routes m) aid = Some r \<Longrightarrow> url r' = url r \<Longrightarrow>
    stored db (m\<lparr>routes := hm_insert aid r' (routes m)\<rparr>)"
  by (rule stored_fewer) (auto simp: hm_get_update split: if_splits)

lemma success_stored: "stored db m \<Longrightarrow> stored db (note_success_for aid m)"
  by (auto simp: note_success_for_def intro: touch_stored split: option.split)

lemma failure_stored: "has_db e \<Longrightarrow> stored db m \<Longrightarrow> stored db (note_failure_for e aid m)"
  using touch_stored [of db m aid] by (auto simp: note_failure_for_def Let_def intro!: rotate_stored split: option.split)

lemma search_stored: "has_db e \<Longrightarrow> stored db m \<Longrightarrow> stored db (snd (search_for e w aid fb m))"
  by (rule search_for_cases [of e w aid fb m]) (auto intro: assign_table stored_fewer)

lemma existing_stored: "stored db m \<Longrightarrow> stored db (snd (try_existing e seen aid m))"
  by (auto simp: try_existing_def Let_def intro: touch_stored stored_fewer split: option.split)
     (auto intro!: stored_fewer [of db m] simp: hm_get_delete split: if_splits)

lemma account_stored: "has_db e \<Longrightarrow> stored db m \<Longrightarrow> stored db (snd (working_client_for e w aid m))"
  using existing_stored [of db m e "recheck w" aid]
  by (auto simp: working_client_for_def intro: search_stored split: option.split prod.split existing_end.split)

lemma rebalance_stored: "has_db e \<Longrightarrow> stored db m \<Longrightarrow> stored db (rebalance_assignments_locked e seen us m)"
  by (auto simp: rebalance_assignments_locked_def Let_def intro!: rebalance_loop_inv [where P = "stored db"] assign_table)

lemma sync_stored: "has_db e \<Longrightarrow> stored db m \<Longrightarrow> stored db (sync_shared_assignments e alive shared m)"
proof -
  assume db: "has_db e" and m: "stored db m"
  have one: "stored db m \<Longrightarrow> stored db (sync_one e us shared x m)" for us x m
    using assign_table [OF db, of db m]
    by (cases x) (auto simp: sync_one_def emit_to_def stored_def table_after_def split: shared_binding.split)
  show ?thesis
    using fold_keeps [of "stored db" "sync_one e (proxies m) shared", OF one m] m
    by (simp add: sync_shared_assignments_def)
qed

lemma configure_stored:
  assumes "has_db e" "stored db m" "hm_wf (routes m)"
  shows "stored db (snd (configure e seen enable raw m))"
proof (cases "normalize_proxies (net e) (add_one e) raw enable")
  case (Inr us)
  let ?m = "configure_routes e us (fold (\<lambda>f. f) (configure_stores enable us) m)"
  have "stored db ?m"
  proof (rule storedI)
    fix aid r assume "hm_get (routes ?m) aid = Some r"
    then have r: "hm_get (routes m) aid = Some r" "url r \<in> set us"
      using hm_get_filter [OF assms(3), of "\<lambda>_ r. url r \<in> set us" aid]
      by (auto simp: configure_routes_def configure_stores_def Let_def split: option.splits if_splits)
    have "aid \<notin> set (map fst (filter (\<lambda>(_, r). url r \<notin> set us) (routes m)))"
      using r assms(3) by (auto simp: hm_get_def hm_wf_def) (metis eq_key_imp_eq_value map_of_SomeD)
    then show "hm_get (table_after db ?m) aid = Some (url r)"
      using storedD [OF assms(2) r(1)]
      by (simp add: configure_routes_def configure_stores_def Let_def clear_all_table) (simp add: table_after_def)
  qed
  then show ?thesis using Inr assms(1) by (auto simp: configure_def Let_def intro: rebalance_stored)
qed (use assms in \<open>simp add: configure_def\<close>)

text \<open>
  The database follows the bindings: whatever operation changes them, afterwards the table still holds the proxy
  of every bound account (it may hold more: a binding that was dropped because its proxy did not answer
  is only overwritten by the next one).
\<close>

lemma database_follows_bindings:
  assumes "has_db e" "stored db m" "hm_wf (routes m)"
  shows "stored db (snd (working_client_for e w aid m)) \<and> stored db (note_failure_for e aid m) \<and>
    stored db (note_success_for aid m) \<and> stored db (rotate_account e aid m) \<and> stored db (forget_account e aid m) \<and>
    stored db (snd (configure e seen enable raw m)) \<and> stored db (sync_shared_assignments e alive shared m)"
  by (intro conjI account_stored failure_stored success_stored rotate_stored forget_stored configure_stored
      sync_stored assms)

lemma restore_row_get:
  "map_option url (hm_get (restore_row e us (aid, u) rs) other) =
     (if other = aid \<and> u \<in> set us \<and> bindable e u then Some u else map_option url (hm_get rs other))"
  by (cases "build_client (net e) (Some u) (agent e)"; cases "build_auth_client (net e) (Some u) (agent e)")
    (simp_all add: restore_row_def bindable_def hm_get_update)

lemma restore_get:
  "distinct (map fst rows) \<Longrightarrow>
    map_option url (hm_get (fold (restore_row e us) rows rs) aid) =
      (case map_of rows aid of
         Some u \<Rightarrow> if u \<in> set us \<and> bindable e u then Some u else map_option url (hm_get rs aid)
       | None \<Rightarrow> map_option url (hm_get rs aid))"
proof (induction rows arbitrary: rs)
  case (Cons x rows)
  obtain k u where x: "x = (k, u)" by force
  have "map_of rows k = None" using Cons.prems x by (auto simp: map_of_eq_None_iff)
  then show ?case
    using Cons.IH [of "restore_row e us x rs"] Cons.prems
    by (auto simp: x restore_row_get split: option.split)
qed simp

lemma restore_wf: "hm_wf rs \<Longrightarrow> hm_wf (fold (restore_row e us) rows rs)"
  by (rule fold_keeps) (auto simp: restore_row_def hm_wf_insert split: sum.split)

lemma binding_bindable: "binding_ok e us r \<Longrightarrow> bindable e (url r)"
  by (simp add: binding_ok_def bindable_def)

text \<open>
  A restart gives every account back its proxy: the rows read at startup restore each binding the previous process
  had, as long as its proxy is still on the list, and rebalancing then moves only accounts that share a
  proxy.
\<close>

lemma bindings_survive_a_restart:
  assumes "has_db e" "stored db m" "pool_ok e m" "distinct (proxies m)"
    "proxies m1 = proxies m" "map_of rows = hm_get (table_after db m)" "distinct (map fst rows)"
    "hm_get (routes m) aid = Some r"
  shows "map_option url (hm_get (fold (restore_row e (proxies m)) rows []) aid) = Some (url r) \<and>
    moved_fairly e seen (proxies m) (fold (restore_row e (proxies m)) rows [])
      (routes (load_assignments e seen (Some rows) m1))"
proof
  have "url r \<in> set (proxies m)" "bindable e (url r)"
    using routes_okD [of e "proxies m" "routes m" aid r] assms(3, 8) binding_bindable
    by (auto simp: pool_ok_def binding_ok_def)
  then show "map_option url (hm_get (fold (restore_row e (proxies m)) rows []) aid) = Some (url r)"
    using restore_get [OF assms(7), of e "proxies m" "[]" aid] storedD [OF assms(2, 8)] assms(6) by simp
  have "hm_wf (fold (restore_row e (proxies m)) rows [])"
    by (rule restore_wf) (simp add: hm_wf_def)
  then show "moved_fairly e seen (proxies m) (fold (restore_row e (proxies m)) rows [])
      (routes (load_assignments e seen (Some rows) m1))"
    using rebalancing_moves_only_crowded_accounts
      [of "m1\<lparr>routes := fold (restore_row e (proxies m)) rows [], avoided := [], last_failed := []\<rparr>" "proxies m" e seen]
      moved_fairly_refl assms(1, 4, 5)
    by (simp add: load_assignments_def Let_def)
qed

section \<open>Several instances\<close>

text \<open>What one pass makes of an account's binding and of its shared fingerprint.\<close>

definition agreed :: "proxy_env \<Rightarrow> string list \<Rightarrow> string option \<Rightarrow> string option \<Rightarrow> string \<Rightarrow> string" where
  "agreed e us shared avoid u =
     (case reconcile_binding (fp e) u shared us avoid of
        Adopt t \<Rightarrow> if bindable e t then t else u | _ \<Rightarrow> u)"

definition announced ::
    "proxy_env \<Rightarrow> string list \<Rightarrow> string option \<Rightarrow> string option \<Rightarrow> string \<Rightarrow> string option \<Rightarrow> string option" where
  "announced e us shared avoid u now =
     (case reconcile_binding (fp e) u shared us avoid of
        Keep \<Rightarrow> now
      | Publish \<Rightarrow> (case now of None \<Rightarrow> Some (fp e u) | Some f \<Rightarrow> Some f)
      | Offer \<Rightarrow> Some (fp e u)
      | Adopt t \<Rightarrow> if bindable e t then Some (fp e t) else now)"

definition news :: "proxy_manager \<Rightarrow> proxy_manager \<Rightarrow> (string, string) hash_map \<Rightarrow> (string, string) hash_map" where
  "news m m' s = fold share_effect (drop (length (out m)) (out m')) s"

lemma sync_one_account:
  assumes "has_store e" "hm_get (routes m) k = Some r" "url r = u"
  shows "\<exists>es. out (sync_one e us shared (k, u) m) = out m @ es \<and>
    (\<forall>s aid. hm_get (fold share_effect es s) aid =
       (if aid = k then announced e us (shared k) (hm_get (avoided m) k) u (hm_get s k) else hm_get s aid)) \<and>
    (\<forall>aid. map_option url (hm_get (routes (sync_one e us shared (k, u) m)) aid) =
       (if aid = k then Some (agreed e us (shared k) (hm_get (avoided m) k) u)
        else map_option url (hm_get (routes m) aid))) \<and>
    (\<forall>aid. aid \<noteq> k \<longrightarrow> hm_get (avoided (sync_one e us shared (k, u) m)) aid = hm_get (avoided m) aid)"
proof (cases "reconcile_binding (fp e) u (shared k) us (hm_get (avoided m) k)")
  case (Adopt t)
  show ?thesis
  proof (cases "bindable e t")
    case True
    then obtain c a where "build_client (net e) (Some t) (agent e) = Inr c"
        "build_auth_client (net e) (Some t) (agent e) = Inr a"
      by (auto simp: bindable_def split: sum.splits)
    then show ?thesis
      using Adopt True assms
      by (cases "has_db e")
        (auto simp: sync_one_def assign_def emit_to_def announced_def agreed_def hm_get_update hm_get_delete)
  qed (use Adopt assms in \<open>auto simp: sync_one_def assign_unbindable announced_def agreed_def\<close>)
qed (use assms in \<open>auto simp: sync_one_def emit_to_def announced_def agreed_def hm_get_update split: option.split\<close>)

lemma sync_all_accounts:
  assumes "has_store e" "distinct (map fst xs)"
    "\<forall>(k, u) \<in> set xs. map_option url (hm_get (routes m) k) = Some u"
  shows "\<exists>es. out (fold (sync_one e us shared) xs m) = out m @ es \<and>
    (\<forall>s aid. hm_get (fold share_effect es s) aid =
       (case map_of xs aid of
          None \<Rightarrow> hm_get s aid
        | Some u \<Rightarrow> announced e us (shared aid) (hm_get (avoided m) aid) u (hm_get s aid))) \<and>
    (\<forall>aid. map_option url (hm_get (routes (fold (sync_one e us shared) xs m)) aid) =
       (case map_of xs aid of
          None \<Rightarrow> map_option url (hm_get (routes m) aid)
        | Some u \<Rightarrow> Some (agreed e us (shared aid) (hm_get (avoided m) aid) u)))"
  using assms(2, 3)
proof (induction xs arbitrary: m)
  case (Cons x xs)
  obtain k u where x: "x = (k, u)" by force
  obtain r where r: "hm_get (routes m) k = Some r" "url r = u" using Cons.prems(2) x by auto
  let ?m = "sync_one e us shared (k, u) m"
  obtain es1 where es1: "out ?m = out m @ es1"
    "\<And>s aid. hm_get (fold share_effect es1 s) aid =
       (if aid = k then announced e us (shared k) (hm_get (avoided m) k) u (hm_get s k) else hm_get s aid)"
    "\<And>aid. map_option url (hm_get (routes ?m) aid) =
       (if aid = k then Some (agreed e us (shared k) (hm_get (avoided m) k) u) else map_option url (hm_get (routes m) aid))"
    "\<And>aid. aid \<noteq> k \<Longrightarrow> hm_get (avoided ?m) aid = hm_get (avoided m) aid"
    using sync_one_account [OF assms(1) r, of us shared] by blast
  have k: "map_of xs k = None" using Cons.prems(1) x by (auto simp: map_of_eq_None_iff)
  have keep: "\<forall>(k', u') \<in> set xs. map_option url (hm_get (routes ?m) k') = Some u'"
    using Cons.prems x es1(3) by (auto simp: rev_image_eqI)
  obtain es2 where es2: "out (fold (sync_one e us shared) xs ?m) = out ?m @ es2"
    "\<And>s aid. hm_get (fold share_effect es2 s) aid =
       (case map_of xs aid of None \<Rightarrow> hm_get s aid
        | Some u \<Rightarrow> announced e us (shared aid) (hm_get (avoided ?m) aid) u (hm_get s aid))"
    "\<And>aid. map_option url (hm_get (routes (fold (sync_one e us shared) xs ?m)) aid) =
       (case map_of xs aid of None \<Rightarrow> map_option url (hm_get (routes ?m) aid)
        | Some u \<Rightarrow> Some (agreed e us (shared aid) (hm_get (avoided ?m) aid) u))"
    using Cons.IH [OF _ keep] Cons.prems(1) by auto
  have other: "map_of xs aid = Some v \<Longrightarrow> aid \<noteq> k" for aid v using k by auto
  show ?case
  proof (intro exI [of _ "es1 @ es2"] conjI allI)
    fix s aid
    show "hm_get (fold share_effect (es1 @ es2) s) aid = (case map_of (x # xs) aid of None \<Rightarrow> hm_get s aid
        | Some u \<Rightarrow> announced e us (shared aid) (hm_get (avoided m) aid) u (hm_get s aid))"
      using es1(2, 4) es2(2) k other by (auto simp: x split: option.split)
    show "map_option url (hm_get (routes (fold (sync_one e us shared) (x # xs) m)) aid) =
        (case map_of (x # xs) aid of None \<Rightarrow> map_option url (hm_get (routes m) aid)
        | Some u \<Rightarrow> Some (agreed e us (shared aid) (hm_get (avoided m) aid) u))"
      using es1(3, 4) es2(3) k other by (auto simp: x split: option.split)
  qed (use es1(1) es2(1) x in simp)
qed simp

lemma sync_account:
  assumes "has_store e" "enabled m" "hm_wf (routes m)" "hm_get (routes m) aid = Some r"
  shows "map_option url (hm_get (routes (sync_shared_assignments e True shared m)) aid) =
      Some (agreed e (proxies m) (shared aid) (hm_get (avoided m) aid) (url r))"
    and "hm_get (news m (sync_shared_assignments e True shared m) s) aid =
      announced e (proxies m) (shared aid) (hm_get (avoided m) aid) (url r) (hm_get s aid)"
proof -
  let ?xs = "map (\<lambda>(aid, r). (aid, url r)) (routes m)"
  have at: "map_of ?xs k = map_option url (hm_get (routes m) k)" for k
    unfolding hm_get_def by (induction "routes m") (auto simp: map_of_map)
  have wf: "distinct (map fst ?xs)" using assms(3) by (simp add: hm_wf_def comp_def case_prod_beta)
  have each: "map_option url (hm_get (routes m) (fst x)) = Some (snd x)" if "x \<in> set ?xs" for x
    using map_of_is_SomeI [OF wf, of "fst x" "snd x"] at that by simp
  have "\<forall>(k, u) \<in> set ?xs. map_option url (hm_get (routes m) k) = Some u"
    by (intro ballI) (simp only: case_prod_beta each)
  note all = sync_all_accounts [OF assms(1) wf this, of "proxies m" shared]
  have xa: "map_of ?xs aid = Some (url r)" by (simp add: at assms(4))
  have sync: "sync_shared_assignments e True shared m = fold (sync_one e (proxies m) shared) ?xs m"
    using assms(1, 2) by (simp add: sync_shared_assignments_def)
  have "\<exists>es. out (sync_shared_assignments e True shared m) = out m @ es \<and>
      hm_get (fold share_effect es s) aid =
         announced e (proxies m) (shared aid) (hm_get (avoided m) aid) (url r) (hm_get s aid) \<and>
      map_option url (hm_get (routes (sync_shared_assignments e True shared m)) aid) =
         Some (agreed e (proxies m) (shared aid) (hm_get (avoided m) aid) (url r))"
    using all unfolding sync by (elim ex_forward conj_forward) (simp_all add: xa del: map_map)
  then show "map_option url (hm_get (routes (sync_shared_assignments e True shared m)) aid) =
      Some (agreed e (proxies m) (shared aid) (hm_get (avoided m) aid) (url r))"
    "hm_get (news m (sync_shared_assignments e True shared m) s) aid =
      announced e (proxies m) (shared aid) (hm_get (avoided m) aid) (url r) (hm_get s aid)"
    by (auto simp: news_def)
qed

lemma sync_not_avoided:
  assumes "hm_get (avoided m) aid = None"
  shows "hm_get (avoided (sync_shared_assignments e alive shared m)) aid = None"
proof -
  have "hm_get (avoided m) aid = None \<Longrightarrow> hm_get (avoided (sync_one e us shared x m)) aid = None" for us x m
    by (cases x) (auto simp: sync_one_def assign_def hm_get_delete split: shared_binding.split sum.split)
  then show ?thesis
    using fold_keeps [of "\<lambda>m. hm_get (avoided m) aid = None" "sync_one e (proxies m) shared", OF _ assms] assms
    by (simp add: sync_shared_assignments_def)
qed

lemma agreed_on_entry:
  assumes "inj_on (fp e) (set us)" "t \<in> set us" "bindable e t" "u \<in> set us"
  shows "agreed e us (Some (fp e t)) None u = t"
    "announced e us (Some (fp e t)) None u (Some (fp e t)) = Some (fp e t)"
proof -
  have "List.find (\<lambda>v. fp e v = fp e t) us = Some t"
    using found [of "\<lambda>v. fp e v = fp e t" us] assms(1, 2)
    by (cases "List.find (\<lambda>v. fp e v = fp e t) us") (auto simp: find_None_iff inj_on_def)
  then show "agreed e us (Some (fp e t)) None u = t"
    "announced e us (Some (fp e t)) None u (Some (fp e t)) = Some (fp e t)"
    using assms by (auto simp: agreed_def announced_def reconcile_binding_def inj_on_def)
qed

lemma announced_first: "announced e us None avoid u now = (case now of None \<Rightarrow> Some (fp e u) | Some f \<Rightarrow> Some f)"
  by (simp add: announced_def reconcile_binding_def)

lemma bound_listed: "routes_ok e us rs \<Longrightarrow> hm_get rs aid = Some r \<Longrightarrow> url r \<in> set us"
  using routes_okD by (simp add: binding_ok_def)

lemma sync_same: "same_egress m (sync_shared_assignments e alive shared m)"
proof -
  have "same_egress m (fold (sync_one e us shared) xs m)" for us xs
    by (rule fold_keeps) (auto intro: same_egress_trans sync_one_keeps [THEN conjunct1])
  then show ?thesis by (simp add: sync_shared_assignments_def)
qed

lemma settled_pass:
  assumes "has_store e" "pool_ok e m" "enabled m" "proxies m = us" "hm_get (avoided m) aid = None"
    "hm_get (routes m) aid \<noteq> None" "hm_get s aid = Some (fp e t)" "inj_on (fp e) (set us)" "t \<in> set us" "bindable e t"
  shows "map_option url (hm_get (routes (sync_shared_assignments e True (hm_get s) m)) aid) = Some t"
proof -
  obtain r where r: "hm_get (routes m) aid = Some r" using assms(6) by auto
  have ok: "routes_ok e us (routes m)" using assms(2, 4) by (simp add: pool_ok_def)
  then have "hm_wf (routes m)" by (simp add: routes_ok_def)
  from sync_account(1) [OF assms(1, 3) this r, of "hm_get s"] show ?thesis
    using agreed_on_entry(1) [OF assms(8-10) bound_listed [OF ok r]] assms(4, 5, 7) by simp
qed

text \<open>
  A fleet: the shared store, the managers, and what each has read of the store for the pass it is making.
  A pass reads at one moment and acts at a later one; passes of different instances interleave freely.
\<close>

record fleet =
  shelf :: "(string, string) hash_map"
  host :: "nat \<Rightarrow> proxy_manager"
  seen :: "nat \<Rightarrow> string \<Rightarrow> string option"

datatype fleet_event = Reads nat | Acts nat

fun fleet_step :: "proxy_env \<Rightarrow> fleet_event \<Rightarrow> fleet \<Rightarrow> fleet" where
  "fleet_step e (Reads i) F = F\<lparr>seen := (seen F)(i := hm_get (shelf F))\<rparr>"
| "fleet_step e (Acts i) F =
     (let m = sync_shared_assignments e True (seen F i) (host F i)
      in F\<lparr>host := (host F)(i := m), shelf := news (host F i) m (shelf F)\<rparr>)"

definition fleet_run :: "proxy_env \<Rightarrow> fleet_event list \<Rightarrow> fleet \<Rightarrow> fleet" where
  "fleet_run e es F = fold (fleet_step e) es F"

definition host_ok :: "proxy_env \<Rightarrow> string list \<Rightarrow> string \<Rightarrow> proxy_manager \<Rightarrow> bool" where
  "host_ok e us aid m \<longleftrightarrow>
     pool_ok e m \<and> enabled m \<and> proxies m = us \<and> hm_get (avoided m) aid = None \<and> hm_get (routes m) aid \<noteq> None"

definition address :: "string \<Rightarrow> proxy_manager \<Rightarrow> string option" where
  "address aid m = map_option url (hm_get (routes m) aid)"

lemma host_address:
  assumes "host_ok e us aid m"
  obtains r where "hm_get (routes m) aid = Some r" "address aid m = Some (url r)" "url r \<in> set us"
proof -
  obtain r where r: "hm_get (routes m) aid = Some r" using assms by (auto simp: host_ok_def)
  have "routes_ok e us (routes m)" using assms by (auto simp: host_ok_def pool_ok_def)
  from that [OF r _ bound_listed [OF this r]] r show thesis by (simp add: address_def)
qed

lemma host_pass:
  fixes shared :: "string \<Rightarrow> string option"
  assumes "has_store e" "host_ok e us aid m" "inj_on (fp e) (set us)" "\<forall>u \<in> set us. bindable e u"
  defines "m' \<equiv> sync_shared_assignments e True shared m"
  shows "shared aid = None \<Longrightarrow> address aid m' = address aid m \<and>
      hm_get (news m m' s) aid = (case hm_get s aid of None \<Rightarrow> map_option (fp e) (address aid m) | Some f \<Rightarrow> Some f)"
    and "shared aid = Some (fp e t) \<Longrightarrow> t \<in> set us \<Longrightarrow> address aid m' = Some t \<and>
      (hm_get s aid = Some (fp e t) \<longrightarrow> hm_get (news m m' s) aid = Some (fp e t))"
    and "shared aid = None \<or> (\<exists>t \<in> set us. shared aid = Some (fp e t)) \<Longrightarrow> host_ok e us aid m'"
proof -
  obtain r where r: "hm_get (routes m) aid = Some r" "address aid m = Some (url r)" "url r \<in> set us"
    using host_address [OF assms(2)] by blast
  have wf: "hm_wf (routes m)" "enabled m" "proxies m = us" "hm_get (avoided m) aid = None"
    using assms(2) by (auto simp: host_ok_def pool_ok_def routes_ok_def)
  note pass = sync_account [OF assms(1) wf(2,1) r(1), of shared]
  have none: "agreed e us None None u = u" for u by (simp add: agreed_def reconcile_binding_def)
  show "address aid m' = address aid m \<and>
      hm_get (news m m' s) aid = (case hm_get s aid of None \<Rightarrow> map_option (fp e) (address aid m) | Some f \<Rightarrow> Some f)"
    if "shared aid = None"
    using pass that r(2) by (auto simp: address_def m'_def wf announced_first none split: option.split)
  show "address aid m' = Some t \<and> (hm_get s aid = Some (fp e t) \<longrightarrow> hm_get (news m m' s) aid = Some (fp e t))"
    if "shared aid = Some (fp e t)" "t \<in> set us"
    using pass that agreed_on_entry [OF assms(3) that(2) assms(4) [rule_format, OF that(2)] r(3)]
    by (simp add: address_def m'_def wf)
  show "host_ok e us aid m'" if "shared aid = None \<or> (\<exists>t \<in> set us. shared aid = Some (fp e t))"
    using assms(2) sync_pool_ok [of e m True shared] sync_not_avoided [OF wf(4), of e True shared] pass(1)
      sync_same [of m e True shared]
    by (auto simp: host_ok_def m'_def same_egress_def)
qed

text \<open>Nothing is shared yet and nobody has read anything, or one listed address is, and nobody has read another.\<close>

definition unset :: "proxy_env \<Rightarrow> string list \<Rightarrow> string \<Rightarrow> fleet \<Rightarrow> bool" where
  "unset e us aid F \<longleftrightarrow>
     (\<forall>i. host_ok e us aid (host F i)) \<and> hm_get (shelf F) aid = None \<and> (\<forall>i. seen F i aid = None)"

definition set_to :: "proxy_env \<Rightarrow> string list \<Rightarrow> string \<Rightarrow> string \<Rightarrow> fleet \<Rightarrow> bool" where
  "set_to e us aid t F \<longleftrightarrow>
     (\<forall>i. host_ok e us aid (host F i)) \<and> t \<in> set us \<and> hm_get (shelf F) aid = Some (fp e t) \<and>
     (\<forall>i. seen F i aid = None \<or> seen F i aid = Some (fp e t))"

definition fleet_env :: "proxy_env \<Rightarrow> string list \<Rightarrow> bool" where
  "fleet_env e us \<longleftrightarrow> has_store e \<and> inj_on (fp e) (set us) \<and> (\<forall>u \<in> set us. bindable e u)"

lemma fleet_envD:
  assumes "fleet_env e us"
  shows "has_store e" "inj_on (fp e) (set us)" "\<forall>u \<in> set us. bindable e u"
  using assms by (auto simp: fleet_env_def)

lemma set_to_step:
  assumes env: "fleet_env e us" and set: "set_to e us aid t F"
  shows "set_to e us aid t (fleet_step e ev F)"
    and "address aid (host F i) = Some t \<Longrightarrow> address aid (host (fleet_step e ev F) i) = Some t"
    and "ev = Acts i \<Longrightarrow> seen F i aid = Some (fp e t) \<Longrightarrow> address aid (host (fleet_step e ev F) i) = Some t"
    and "seen F i aid = Some (fp e t) \<or> ev = Reads i \<Longrightarrow> seen (fleet_step e ev F) i aid = Some (fp e t)"
proof -
  have ok: "host_ok e us aid (host F j)" "t \<in> set us" "hm_get (shelf F) aid = Some (fp e t)"
    "seen F j aid = None \<or> seen F j aid = Some (fp e t)" for j
    using set by (auto simp: set_to_def)
  note pass = host_pass [OF fleet_envD(1) [OF env] ok(1) fleet_envD(2,3) [OF env]]
  show "set_to e us aid t (fleet_step e ev F)"
  proof (cases ev)
    case (Acts j)
    have "host_ok e us aid (sync_shared_assignments e True (seen F j) (host F j))" using pass(3) ok(2,4) by metis
    moreover have "hm_get (news (host F j) (sync_shared_assignments e True (seen F j) (host F j)) (shelf F)) aid = Some (fp e t)"
      using ok(4) [of j] pass(1) [of "seen F j" j "shelf F"] pass(2) [of "seen F j" t j "shelf F"] ok(2,3) by auto
    ultimately show ?thesis using set Acts by (auto simp: set_to_def Let_def)
  qed (use set in \<open>auto simp: set_to_def\<close>)
  show "address aid (host (fleet_step e ev F) i) = Some t" if "address aid (host F i) = Some t"
    using that ok(4) [of i] pass(1) [of "seen F i" i] pass(2) [of "seen F i" t i] ok(2) by (cases ev) (auto simp: Let_def)
  show "address aid (host (fleet_step e ev F) i) = Some t" if "ev = Acts i" "seen F i aid = Some (fp e t)"
    using that pass(2) [of "seen F i" t i] ok(2) by (auto simp: Let_def)
  show "seen (fleet_step e ev F) i aid = Some (fp e t)" if "seen F i aid = Some (fp e t) \<or> ev = Reads i"
    using that ok(3) by (cases ev) (auto simp: Let_def)
qed

lemma set_to_run:
  assumes env: "fleet_env e us" and set: "set_to e us aid t F"
  shows "set_to e us aid t (fleet_run e es F)"
    and "address aid (host F i) = Some t \<Longrightarrow> address aid (host (fleet_run e es F) i) = Some t"
    and "seen F i aid = Some (fp e t) \<Longrightarrow> Acts i \<in> set es \<Longrightarrow> address aid (host (fleet_run e es F) i) = Some t"
    and "es = xs @ Reads i # ys \<Longrightarrow> Acts i \<in> set ys \<Longrightarrow> address aid (host (fleet_run e es F) i) = Some t"
proof -
  have run: "set_to e us aid t (fleet_run e es F) \<and> (address aid (host F i) = Some t \<longrightarrow> address aid (host (fleet_run e es F) i) = Some t)"
    if "set_to e us aid t F" for F es i
    using that by (induction es arbitrary: F) (auto simp: fleet_run_def intro: set_to_step [OF env])
  show "set_to e us aid t (fleet_run e es F)"
    "address aid (host F i) = Some t \<Longrightarrow> address aid (host (fleet_run e es F) i) = Some t"
    using run [OF set] by blast+
  have acts: "address aid (host (fleet_run e es F) i) = Some t"
    if "set_to e us aid t F" "seen F i aid = Some (fp e t)" "Acts i \<in> set es" for F es
    using that
  proof (induction es arbitrary: F)
    case (Cons ev es)
    note st = set_to_step [OF env Cons.prems(1)]
    show ?case
    proof (cases "ev = Acts i")
      case True
      have "address aid (host (fleet_run e es (fleet_step e ev F)) i) = Some t"
        using run [OF st(1)] st(3) [OF True Cons.prems(2)] by blast
      then show ?thesis by (simp add: fleet_run_def)
    next
      case False
      then show ?thesis using Cons.IH [OF st(1)] st(4) Cons.prems(2,3) by (auto simp: fleet_run_def)
    qed
  qed simp
  show "address aid (host (fleet_run e es F) i) = Some t" if "seen F i aid = Some (fp e t)" "Acts i \<in> set es"
    using acts set that by blast
  show "address aid (host (fleet_run e es F) i) = Some t" if "es = xs @ Reads i # ys" "Acts i \<in> set ys"
  proof -
    have s: "set_to e us aid t (fleet_run e xs F)" using run [OF set] by blast
    have "address aid (host (fleet_run e ys (fleet_step e (Reads i) (fleet_run e xs F))) i) = Some t"
      using set_to_step(4) [OF env s, of i "Reads i"] by (intro acts [OF set_to_step(1) [OF env s] _ that(2)]) blast
    then show ?thesis by (simp add: that(1) fleet_run_def)
  qed
qed

lemma unset_step:
  assumes env: "fleet_env e us" and un: "unset e us aid F"
  shows "(\<forall>j. ev \<noteq> Acts j) \<and> unset e us aid (fleet_step e ev F) \<or> (\<exists>t. set_to e us aid t (fleet_step e ev F))"
proof (cases ev)
  case (Acts j)
  have ok: "host_ok e us aid (host F j)" "seen F j aid = None" "hm_get (shelf F) aid = None" using un by (auto simp: unset_def)
  obtain r :: account_proxy where r: "address aid (host F j) = Some (url r)" "url r \<in> set us"
    using host_address [OF ok(1)] by blast
  have "set_to e us aid (url r) (fleet_step e ev F)"
    using un Acts r ok host_pass(1) [OF fleet_envD(1) [OF env] ok(1) fleet_envD(2,3) [OF env], of "seen F j" "shelf F"]
      host_pass(3) [OF fleet_envD(1) [OF env] ok(1) fleet_envD(2,3) [OF env], of "seen F j"]
    by (auto simp: set_to_def unset_def Let_def)
  then show ?thesis by blast
qed (use un in \<open>auto simp: unset_def\<close>)

lemma somebody_sets:
  assumes env: "fleet_env e us"
    and "unset e us aid F \<or> (\<exists>t. set_to e us aid t F)" "\<exists>j. Acts j \<in> set es"
  shows "\<exists>t. set_to e us aid t (fleet_run e es F)"
  using assms(2,3)
proof (induction es arbitrary: F)
  case (Cons ev es)
  show ?case
  proof (cases "\<exists>t. set_to e us aid t (fleet_step e ev F)")
    case True
    then obtain t where "set_to e us aid t (fleet_step e ev F)" by blast
    from set_to_run(1) [OF env this, of es] show ?thesis by (auto simp: fleet_run_def)
  next
    case False
    then have "unset e us aid (fleet_step e ev F)" "\<forall>j. ev \<noteq> Acts j"
      using Cons.prems(1) unset_step [OF env] set_to_step(1) [OF env] by blast+
    then show ?thesis using Cons.IH [of "fleet_step e ev F"] Cons.prems(2) by (auto simp: fleet_run_def)
  qed
qed simp

text \<open>
  C11. Instances with the same proxy list come to use one address for an account, whatever each used
  before and however their passes interleave, a pass acting on what it read long ago included: once one
  pass has acted, every instance that then reads the store and acts uses the address that was published
  first. The hypotheses: each instance is in proxy mode, has the account bound and has not just seen an
  address fail for it; the addresses of the list have different fingerprints and usable clients; the store
  holds nothing for the account, or the fingerprint of a listed address, and no pass under way has read
  anything else.
\<close>

theorem instances_agree_on_an_address:
  assumes "has_store e" "inj_on (fp e) (set us)" "\<forall>u \<in> set us. bindable e u"
    "\<forall>i. host_ok e us aid (host F i)"
    "hm_get (shelf F) aid = None \<or> (\<exists>t \<in> set us. hm_get (shelf F) aid = Some (fp e t))"
    "\<forall>i. seen F i aid = None \<or> seen F i aid = hm_get (shelf F) aid"
    "Acts j \<in> set es" "\<forall>i \<in> I. \<exists>xs ys. es' = xs @ Reads i # ys \<and> Acts i \<in> set ys"
  shows "\<exists>t \<in> set us. \<forall>i \<in> I. address aid (host (fleet_run e (es @ es') F) i) = Some t"
proof -
  have env: "fleet_env e us" using assms(1-3) by (simp add: fleet_env_def)
  have "unset e us aid F \<or> (\<exists>t. set_to e us aid t F)"
  proof (cases "hm_get (shelf F) aid")
    case None
    then show ?thesis using assms(4,6) by (simp add: unset_def)
  next
    case (Some f)
    then obtain t where "t \<in> set us" "f = fp e t" using assms(5) by auto
    then have "set_to e us aid t F" using Some assms(4,6) by (simp add: set_to_def)
    then show ?thesis by blast
  qed
  then obtain t where t: "set_to e us aid t (fleet_run e es F)"
    using somebody_sets [OF env] assms(7) by blast
  have "address aid (host (fleet_run e (es @ es') F) i) = Some t" if "i \<in> I" for i
    using assms(8) that set_to_run(4) [OF env t] by (fastforce simp: fleet_run_def)
  then show ?thesis using t by (auto simp: set_to_def)
qed

section \<open>The properties at work\<close>

lemma plain_pool_ok: "pool_ok plain_env plain_pool"
  by (rule reachable_pool_ok [OF plain_pool_reachable])

lemma plain_bound_ok: "pool_ok plain_env plain_bound"
  unfolding plain_bound_def by (rule account_client_pool [OF plain_pool_ok])

lemma plain_pool_stored: "stored [] plain_pool"
proof -
  have "routes plain_pool = []" by code_simp
  then show ?thesis by (simp add: stored_def hm_get_def)
qed

definition crowded :: proxy_manager where
  "crowded = snd (assign plain_env ''two'' ''http://a:1'' True plain_bound)"

theorem rebalancing_moves_only_crowded_accounts_witness:
  "moved_fairly plain_env all_up [''http://a:1'', ''http://b:2''] (routes crowded)
     (routes (rebalance_assignments_locked plain_env all_up [''http://a:1'', ''http://b:2''] crowded)) \<and>
   uses (routes crowded) ''http://a:1'' = 2"
proof
  have wf: "hm_wf (routes crowded)" by code_simp
  show "moved_fairly plain_env all_up [''http://a:1'', ''http://b:2''] (routes crowded)
     (routes (rebalance_assignments_locked plain_env all_up [''http://a:1'', ''http://b:2''] crowded))"
    by (rule rebalancing_moves_only_crowded_accounts [OF wf]) simp
  show "uses (routes crowded) ''http://a:1'' = 2" by code_simp
qed

theorem database_follows_bindings_witness: "stored [] plain_bound"
proof -
  have on: "has_db plain_env" "hm_wf (routes plain_pool)" by (code_simp+)
  from database_follows_bindings [OF on(1) plain_pool_stored on(2)] show ?thesis
    unfolding plain_bound_def by blast
qed

lemma plain_bound_stored: "stored [] plain_bound"
proof -
  have "has_db plain_env" by code_simp
  then show ?thesis unfolding plain_bound_def by (rule account_stored [OF _ plain_pool_stored])
qed

theorem bindings_survive_a_restart_witness:
  "map_option url (hm_get (fold (restore_row plain_env [''http://a:1'', ''http://b:2'']) [(''one'', ''http://a:1'')] []) ''one'') =
     Some ''http://a:1''"
proof -
  have on: "has_db plain_env" "distinct (proxies plain_bound)" "proxies plain_pool = proxies plain_bound"
    "table_after [] plain_bound = [(''one'', ''http://a:1'')]" "distinct (map fst [(''one'', ''http://a:1'')])"
    "map_option url (hm_get (routes plain_bound) ''one'') = Some ''http://a:1''"
    "proxies plain_bound = [''http://a:1'', ''http://b:2'']"
    by (code_simp+)
  obtain r where r: "hm_get (routes plain_bound) ''one'' = Some r" "url r = ''http://a:1''" using on(6) by auto
  have rows: "map_of [(''one'', ''http://a:1'')] = hm_get (table_after [] plain_bound)"
    unfolding on(4) hm_get_def by (rule refl)
  show ?thesis
    using bindings_survive_a_restart [OF on(1) plain_bound_stored plain_bound_ok on(2, 3) rows on(5) r(1)] on(7) r(2) by simp
qed

definition elsewhere :: proxy_manager where
  "elsewhere = snd (assign plain_env ''one'' ''http://b:2'' True plain_pool)"

definition two_hosts :: fleet where
  "two_hosts = \<lparr>shelf = [], host = (\<lambda>i. if i = 0 then plain_bound else elsewhere), seen = (\<lambda>_ _. None)\<rparr>"

theorem instances_agree_on_an_address_witness:
  "\<exists>u. address ''one'' (host (fleet_run plain_env ([Reads 1, Reads 0, Acts 0, Acts 1] @ [Reads 0, Reads 1, Acts 1, Acts 0]) two_hosts) 0) = Some u \<and>
   address ''one'' (host (fleet_run plain_env ([Reads 1, Reads 0, Acts 0, Acts 1] @ [Reads 0, Reads 1, Acts 1, Acts 0]) two_hosts) 1) = Some u"
proof -
  let ?us = "[''http://a:1'', ''http://b:2'']" and ?es = "[Reads 0, Reads 1, Acts 1, Acts 0]"
  have on: "has_store plain_env" "enabled plain_bound" "enabled elsewhere" "proxies plain_bound = ?us"
    "proxies elsewhere = ?us" "\<forall>u \<in> set ?us. bindable plain_env u"
    "hm_get (routes plain_bound) ''one'' \<noteq> None" "hm_get (routes elsewhere) ''one'' \<noteq> None"
    "hm_get (avoided plain_bound) ''one'' = None" "hm_get (avoided elsewhere) ''one'' = None"
    by (code_simp+)
  have "''http://b:2'' \<in> set (proxies plain_pool)" by code_simp
  then have ok: "pool_ok plain_env elsewhere"
    unfolding elsewhere_def
    by (intro pool_ok_same [OF plain_pool_ok assign_same] assign_routes_ok)
      (use plain_pool_ok in \<open>simp_all add: pool_ok_def\<close>)
  have inj: "inj_on (fp plain_env) (set ?us)" by (simp add: plain_env_def inj_on_def)
  have hosts: "\<forall>i. host_ok plain_env ?us ''one'' (host two_hosts i)"
    using on plain_bound_ok ok by (simp add: host_ok_def two_hosts_def)
  have empty: "hm_get (shelf two_hosts) ''one'' = None \<or> (\<exists>t \<in> set ?us. hm_get (shelf two_hosts) ''one'' = Some (fp plain_env t))"
    "\<forall>i. seen two_hosts i ''one'' = None \<or> seen two_hosts i ''one'' = hm_get (shelf two_hosts) ''one''"
    by (simp_all add: two_hosts_def hm_get_def)
  have pass: "\<exists>xs ys. ?es = xs @ Reads i # ys \<and> Acts i \<in> set ys" if "i \<in> {0, 1}" for i
    using that
    by (auto intro: exI [of _ "[]"] exI [of _ "[Reads 0]"])
  from instances_agree_on_an_address [OF on(1) inj on(6) hosts empty, of 0 "[Reads 1, Reads 0, Acts 0, Acts 1]" "{0, 1}" ?es] pass
  show ?thesis by (simp del: append.simps) blast
qed

end
