(* ===== verification/Settings.thy ===== *)
theory Settings
  imports Json Errors
begin

text \<open>
  \<open>src/settings.rs\<close> and the handler of \<open>src/admin/settings.rs\<close>: the preferences of the server, how an
  update changes them, and how they are kept in SQLite and shared through Redis.

  The table and the shared store are maps. A write may fail: \<open>ok\<close> says which keys are written. The
  32-bit limits are natural numbers; \<open>parse_u32\<close> and \<open>first_opt_u32\<close> refuse what does not fit.
\<close>

section \<open>State\<close>

datatype v1_playback_endpoint = Postpaywall | Legacy

fun endpoint_str :: "v1_playback_endpoint \<Rightarrow> string" where
  "endpoint_str Postpaywall = ''playbackinfopostpaywall''"
| "endpoint_str Legacy = ''playbackinfo''"

definition parse_endpoint :: "string \<Rightarrow> string + v1_playback_endpoint" where
  "parse_endpoint v =
     (if trim v = ''playbackinfopostpaywall'' then Inr Postpaywall
      else if trim v = ''playbackinfo'' then Inr Legacy
      else Inl ''v1_playback_endpoint must be playbackinfopostpaywall or playbackinfo'')"

record app_settings =
  v1_endpoint :: v1_playback_endpoint
  atmos_mode :: string
  track_requests_per_account :: nat
  catalog_requests_per_account :: nat
  catalog_concurrency_per_account :: nat
  track_concurrency_per_account :: nat
  track_request_delay_ms :: nat
  auth_failure_disable_hours :: nat
  requests_per_hour_per_account :: nat
  discord_webhook_url :: string

definition normalize_atmos_mode :: "string \<Rightarrow> string" where
  "normalize_atmos_mode s =
     (let v = map to_ascii_lower (trim s)
      in if v = ''prefer'' then ''prefer'' else if v = ''high'' then ''high'' else ''off'')"

definition default_atmos_mode :: "string option \<Rightarrow> string" where
  "default_atmos_mode env =
     (case env of
        Some v \<Rightarrow> if trim v \<noteq> [] then normalize_atmos_mode v else ''prefer''
      | None \<Rightarrow> ''prefer'')"

definition normalize_requests_per_account :: "nat \<Rightarrow> nat" where
  "normalize_requests_per_account v = max 1 (min v 10)"

definition normalize_concurrency_per_account :: "nat \<Rightarrow> nat" where
  "normalize_concurrency_per_account v = min v 1000"

definition normalize_requests_per_hour :: "nat \<Rightarrow> nat" where
  "normalize_requests_per_hour v = min v 10000"

definition normalize_disable_hours :: "nat \<Rightarrow> nat" where
  "normalize_disable_hours v = min v 720"

definition normalize_request_delay_ms :: "nat \<Rightarrow> nat" where
  "normalize_request_delay_ms v = min v 10000"

lemmas normalize_defs = normalize_requests_per_account_def normalize_concurrency_per_account_def
  normalize_requests_per_hour_def normalize_disable_hours_def normalize_request_delay_ms_def

definition settings_from_env :: "string option \<Rightarrow> string option \<Rightarrow> app_settings" where
  "settings_from_env atmos webhook =
     \<lparr>v1_endpoint = Postpaywall, atmos_mode = default_atmos_mode atmos, track_requests_per_account = 1,
      catalog_requests_per_account = 1, catalog_concurrency_per_account = 0,
      track_concurrency_per_account = 1, track_request_delay_ms = 0, auth_failure_disable_hours = 24,
      requests_per_hour_per_account = 0, discord_webhook_url = (case webhook of None \<Rightarrow> [] | Some w \<Rightarrow> w)\<rparr>"

definition settings_snapshot :: "app_settings \<Rightarrow> json" where
  "settings_snapshot s = JObj
     [(''v1_playback_endpoint'', JStr (endpoint_str (v1_endpoint s))),
      (''auto_heal'', JBool True),
      (''atmos_mode'', JStr (atmos_mode s)),
      (''track_requests_per_account'', JInt (int (track_requests_per_account s))),
      (''catalog_requests_per_account'', JInt (int (catalog_requests_per_account s))),
      (''catalog_concurrency_per_account'', JInt (int (catalog_concurrency_per_account s))),
      (''track_concurrency_per_account'', JInt (int (track_concurrency_per_account s))),
      (''track_request_delay_ms'', JInt (int (track_request_delay_ms s))),
      (''auth_failure_disable_hours'', JInt (int (auth_failure_disable_hours s))),
      (''requests_per_hour_per_account'', JInt (int (requests_per_hour_per_account s)))]"

section \<open>Updates\<close>

definition parse_u32 :: "string \<Rightarrow> nat option" where
  "parse_u32 s = (case parse_u64 s of Some n \<Rightarrow> if n < 2 ^ 32 then Some n else None | None \<Rightarrow> None)"

definition first_opt_u32 :: "string \<Rightarrow> json \<Rightarrow> string + nat option" where
  "first_opt_u32 key obj =
     (case jget key obj of
        None \<Rightarrow> Inr None
      | Some JNull \<Rightarrow> Inr None
      | Some (JInt i) \<Rightarrow> if 0 \<le> i \<and> i < 2 ^ 32 then Inr (Some (nat i)) else Inl (key @ '' must be an integer'')
      | Some (JStr v) \<Rightarrow>
          (case parse_u32 v of Some n \<Rightarrow> Inr (Some n) | None \<Rightarrow> Inl (key @ '' must be an integer''))
      | Some _ \<Rightarrow> Inl (key @ '' must be an integer''))"

fun first_opt_string :: "string list \<Rightarrow> json \<Rightarrow> string + string option" where
  "first_opt_string [] obj = Inr None"
| "first_opt_string (key # keys) obj =
     (case jget key obj of
        None \<Rightarrow> first_opt_string keys obj
      | Some JNull \<Rightarrow> Inr None
      | Some (JStr s) \<Rightarrow> Inr (Some s)
      | Some _ \<Rightarrow> Inl (key @ '' must be a string''))"

text \<open>
  One setting at a time, in the order of the code. An error leaves the state as the updates before it
  made it.
\<close>

type_synonym setting_update = "json \<Rightarrow> app_settings \<Rightarrow> string + app_settings"

definition set_u32 :: "string \<Rightarrow> (nat \<Rightarrow> app_settings \<Rightarrow> app_settings) \<Rightarrow> setting_update" where
  "set_u32 key store updates s =
     (case first_opt_u32 key updates of
        Inl err \<Rightarrow> Inl err
      | Inr None \<Rightarrow> Inr s
      | Inr (Some v) \<Rightarrow> Inr (store v s))"

definition set_endpoint :: setting_update where
  "set_endpoint updates s =
     (case first_opt_string [''v1_playback_endpoint''] updates of
        Inl err \<Rightarrow> Inl err
      | Inr None \<Rightarrow> Inr s
      | Inr (Some v) \<Rightarrow>
          (case parse_endpoint v of Inl err \<Rightarrow> Inl err | Inr p \<Rightarrow> Inr (s\<lparr>v1_endpoint := p\<rparr>)))"

definition set_atmos :: setting_update where
  "set_atmos updates s =
     (case first_opt_string [''atmos_mode''] updates of
        Inl err \<Rightarrow> Inl err
      | Inr None \<Rightarrow> Inr s
      | Inr (Some v) \<Rightarrow> Inr (s\<lparr>atmos_mode := normalize_atmos_mode v\<rparr>))"

definition setting_updates :: "setting_update list" where
  "setting_updates =
     [set_endpoint, set_atmos,
      set_u32 ''track_requests_per_account''
        (\<lambda>v s. s\<lparr>track_requests_per_account := normalize_requests_per_account v\<rparr>),
      set_u32 ''catalog_requests_per_account''
        (\<lambda>v s. s\<lparr>catalog_requests_per_account := normalize_requests_per_account v\<rparr>),
      set_u32 ''catalog_concurrency_per_account''
        (\<lambda>v s. s\<lparr>catalog_concurrency_per_account := normalize_concurrency_per_account v\<rparr>),
      set_u32 ''track_concurrency_per_account''
        (\<lambda>v s. s\<lparr>track_concurrency_per_account := normalize_concurrency_per_account v\<rparr>),
      set_u32 ''requests_per_hour_per_account''
        (\<lambda>v s. s\<lparr>requests_per_hour_per_account := normalize_requests_per_hour v\<rparr>),
      set_u32 ''auth_failure_disable_hours''
        (\<lambda>v s. s\<lparr>auth_failure_disable_hours := normalize_disable_hours v\<rparr>),
      set_u32 ''track_request_delay_ms''
        (\<lambda>v s. s\<lparr>track_request_delay_ms := normalize_request_delay_ms v\<rparr>)]"

fun apply_updates :: "setting_update list \<Rightarrow> json \<Rightarrow> app_settings \<Rightarrow> (string + unit) \<times> app_settings" where
  "apply_updates [] updates s = (Inr (), s)"
| "apply_updates (f # fs) updates s =
     (case f updates s of Inl err \<Rightarrow> (Inl err, s) | Inr t \<Rightarrow> apply_updates fs updates t)"

definition apply_settings :: "json \<Rightarrow> app_settings \<Rightarrow> (string + unit) \<times> app_settings" where
  "apply_settings = apply_updates setting_updates"

section \<open>Stored settings\<close>

definition apply_u32 :: "string \<Rightarrow> (nat \<Rightarrow> app_settings \<Rightarrow> app_settings) \<Rightarrow> app_settings \<Rightarrow> app_settings" where
  "apply_u32 v store s = (case parse_u32 v of Some n \<Rightarrow> store n s | None \<Rightarrow> s)"

definition setting_loaders :: "(string \<times> (string \<Rightarrow> app_settings \<Rightarrow> app_settings)) list" where
  "setting_loaders =
     [(''v1_playback_endpoint'',
       \<lambda>v s. case parse_endpoint v of Inr p \<Rightarrow> s\<lparr>v1_endpoint := p\<rparr> | Inl _ \<Rightarrow> s),
      (''atmos_mode'', \<lambda>v s. s\<lparr>atmos_mode := normalize_atmos_mode v\<rparr>),
      (''discord_webhook_url'', \<lambda>v s. s\<lparr>discord_webhook_url := v\<rparr>),
      (''track_requests_per_account'',
       \<lambda>v. apply_u32 v (\<lambda>n s. s\<lparr>track_requests_per_account := normalize_requests_per_account n\<rparr>)),
      (''catalog_requests_per_account'',
       \<lambda>v. apply_u32 v (\<lambda>n s. s\<lparr>catalog_requests_per_account := normalize_requests_per_account n\<rparr>)),
      (''catalog_concurrency_per_account'',
       \<lambda>v. apply_u32 v (\<lambda>n s. s\<lparr>catalog_concurrency_per_account := normalize_concurrency_per_account n\<rparr>)),
      (''track_concurrency_per_account'',
       \<lambda>v. apply_u32 v (\<lambda>n s. s\<lparr>track_concurrency_per_account := normalize_concurrency_per_account n\<rparr>)),
      (''requests_per_hour_per_account'',
       \<lambda>v. apply_u32 v (\<lambda>n s. s\<lparr>requests_per_hour_per_account := normalize_requests_per_hour n\<rparr>)),
      (''auth_failure_disable_hours'',
       \<lambda>v. apply_u32 v (\<lambda>n s. s\<lparr>auth_failure_disable_hours := normalize_disable_hours n\<rparr>)),
      (''track_request_delay_ms'',
       \<lambda>v. apply_u32 v (\<lambda>n s. s\<lparr>track_request_delay_ms := normalize_request_delay_ms n\<rparr>))]"

definition apply_kv :: "string \<Rightarrow> string \<Rightarrow> app_settings \<Rightarrow> app_settings" where
  "apply_kv key v s = (case map_of setting_loaders key of Some load \<Rightarrow> load v s | None \<Rightarrow> s)"

definition REDIS_SETTING_NAMES :: "string list" where
  "REDIS_SETTING_NAMES =
     [''v1_playback_endpoint'', ''atmos_mode'', ''discord_webhook_url'', ''track_requests_per_account'',
      ''catalog_requests_per_account'', ''catalog_concurrency_per_account'',
      ''track_concurrency_per_account'', ''track_request_delay_ms'', ''auth_failure_disable_hours'',
      ''requests_per_hour_per_account'']"

definition settings_entries :: "app_settings \<Rightarrow> (string \<times> string) list" where
  "settings_entries s =
     [(''v1_playback_endpoint'', endpoint_str (v1_endpoint s)),
      (''atmos_mode'', atmos_mode s),
      (''discord_webhook_url'', discord_webhook_url s),
      (''track_requests_per_account'', show_nat (track_requests_per_account s)),
      (''catalog_requests_per_account'', show_nat (catalog_requests_per_account s)),
      (''catalog_concurrency_per_account'', show_nat (catalog_concurrency_per_account s)),
      (''track_concurrency_per_account'', show_nat (track_concurrency_per_account s)),
      (''track_request_delay_ms'', show_nat (track_request_delay_ms s)),
      (''auth_failure_disable_hours'', show_nat (auth_failure_disable_hours s)),
      (''requests_per_hour_per_account'', show_nat (requests_per_hour_per_account s))]"

type_synonym kv_store = "(string, string) hash_map"

definition put_all :: "(string \<Rightarrow> bool) \<Rightarrow> (string \<times> string) list \<Rightarrow> kv_store \<Rightarrow> kv_store" where
  "put_all ok kvs store = fold (\<lambda>(k, v) st. if ok k then hm_insert k v st else st) kvs store"

definition save_to_db :: "(string \<Rightarrow> bool) \<Rightarrow> app_settings \<Rightarrow> kv_store \<Rightarrow> kv_store" where
  "save_to_db ok s db = put_all ok (settings_entries s) db"

definition save_to_redis :: "(string \<Rightarrow> bool) \<Rightarrow> app_settings \<Rightarrow> kv_store option \<Rightarrow> kv_store option" where
  "save_to_redis ok s store = map_option (put_all ok (settings_entries s)) store"

text \<open>\<open>rows\<close> is what the query gives, \<open>None\<close> when it fails.\<close>

definition load_settings :: "(string \<times> string) list option \<Rightarrow> string option \<Rightarrow> app_settings \<Rightarrow> app_settings" where
  "load_settings rows webhook_env s =
     (case rows of
        None \<Rightarrow> s
      | Some rows \<Rightarrow>
          (let t = fold (\<lambda>(k, v). apply_kv k v) rows s
           in if list_ex (\<lambda>(k, _). k = ''discord_webhook_url'') rows then t
              else apply_kv ''discord_webhook_url'' (case webhook_env of None \<Rightarrow> [] | Some w \<Rightarrow> w) t))"

definition apply_seen :: "(string \<times> string option) list \<Rightarrow> app_settings \<Rightarrow> app_settings" where
  "apply_seen kvs s = fold (\<lambda>(k, v) s. case v of Some v \<Rightarrow> apply_kv k v s | None \<Rightarrow> s) kvs s"

definition load_from_redis :: "kv_store option \<Rightarrow> app_settings \<Rightarrow> nat \<times> app_settings" where
  "load_from_redis store s =
     (case store of
        None \<Rightarrow> (0, s)
      | Some st \<Rightarrow>
          (let vs = map (hm_get st) REDIS_SETTING_NAMES
           in (length (filter (\<lambda>v. v \<noteq> None) vs), apply_seen (zip REDIS_SETTING_NAMES vs) s)))"

text \<open>
  \<open>seed_and_load\<close>: \<open>present\<close> is read first and pairs the names with the entries by position; a \<open>SETNX\<close>
  succeeds on an absent key that is written.
\<close>

definition seed_step ::
    "(string \<Rightarrow> bool) \<Rightarrow> (string option \<times> string \<times> string) \<Rightarrow> nat \<times> kv_store \<Rightarrow> nat \<times> kv_store" where
  "seed_step ok = (\<lambda>(present, k, v) (n, st).
     if present = None \<and> ok k \<and> hm_get st k = None then (n + 1, hm_insert k v st) else (n, st))"

definition seed_and_load ::
    "(string \<Rightarrow> bool) \<Rightarrow> kv_store option \<Rightarrow> app_settings \<Rightarrow> (nat \<times> nat) \<times> kv_store option \<times> app_settings" where
  "seed_and_load ok store s =
     (case store of
        None \<Rightarrow> ((0, 0), None, s)
      | Some st \<Rightarrow>
          (let present = map (hm_get st) REDIS_SETTING_NAMES;
               (seeded, st) = fold (seed_step ok) (zip present (settings_entries s)) (0, st);
               (applied, s) = load_from_redis (Some st) s
           in ((seeded, applied), Some st, s)))"

definition set_discord_webhook_url ::
    "string \<Rightarrow> bool \<Rightarrow> (string \<Rightarrow> bool) \<Rightarrow> kv_store option \<Rightarrow> kv_store option \<Rightarrow> app_settings \<Rightarrow>
     bool \<times> kv_store option \<times> kv_store option \<times> app_settings" where
  "set_discord_webhook_url u db_ok ok db store s =
     (if db \<noteq> None \<and> \<not> db_ok then (False, db, store, s)
      else (True, map_option (hm_insert ''discord_webhook_url'' u) db,
            map_option (put_all ok [(''discord_webhook_url'', u)]) store, s\<lparr>discord_webhook_url := u\<rparr>))"

section \<open>The update handler\<close>

definition update_settings ::
    "json \<Rightarrow> (string \<Rightarrow> bool) \<Rightarrow> (string \<Rightarrow> bool) \<Rightarrow> kv_store option \<Rightarrow> kv_store option \<Rightarrow> app_settings \<Rightarrow>
     (app_error + json) \<times> kv_store option \<times> kv_store option \<times> app_settings" where
  "update_settings body db_ok ok db store s =
     (let updates = (case jget ''settings'' body of
                       Some u \<Rightarrow> u
                     | None \<Rightarrow> (case jget ''rate_limits'' body of Some u \<Rightarrow> u | None \<Rightarrow> body))
      in case apply_settings updates s of
           (Inl err, s) \<Rightarrow> (Inl (BadRequest err), db, store, s)
         | (Inr _, s) \<Rightarrow> (Inr (settings_snapshot s), map_option (save_to_db db_ok s) db, save_to_redis ok s store, s))"

end
