(* ===== verification/SettingsProps.thy ===== *)
theory SettingsProps
  imports Settings
begin

text \<open>
  The properties of the settings: every operation keeps them in their ranges, saving and loading gives
  them back, hosts that share a Redis come to the same settings, and the webhook stays secret.
\<close>

definition mode_ok :: "string \<Rightarrow> bool" where
  "mode_ok v \<longleftrightarrow> v = ''prefer'' \<or> v = ''high'' \<or> v = ''off''"

definition settings_ok :: "app_settings \<Rightarrow> bool" where
  "settings_ok s \<longleftrightarrow>
     mode_ok (atmos_mode s) \<and>
     1 \<le> track_requests_per_account s \<and> track_requests_per_account s \<le> 10 \<and>
     1 \<le> catalog_requests_per_account s \<and> catalog_requests_per_account s \<le> 10 \<and>
     catalog_concurrency_per_account s \<le> 1000 \<and> track_concurrency_per_account s \<le> 1000 \<and>
     track_request_delay_ms s \<le> 10000 \<and> auth_failure_disable_hours s \<le> 720 \<and>
     requests_per_hour_per_account s \<le> 10000"

section \<open>Ranges\<close>

lemma normalized_mode [simp]: "mode_ok (normalize_atmos_mode v)"
  by (simp add: mode_ok_def normalize_atmos_mode_def Let_def)

lemma default_mode [simp]: "mode_ok (default_atmos_mode v)"
  by (auto simp: mode_ok_def [of "''prefer''"] default_atmos_mode_def split: option.split)

lemma set_u32_ok:
  "\<lbrakk>set_u32 key store updates s = Inr t; settings_ok s; \<And>v. settings_ok (store v s)\<rbrakk> \<Longrightarrow> settings_ok t"
  by (auto simp: set_u32_def split: sum.splits option.splits)

lemma updates_ok:
  assumes "f \<in> set setting_updates" "f updates s = Inr t" "settings_ok s" shows "settings_ok t"
proof -
  have "settings_ok t" if "set_endpoint updates s = Inr t"
    using that assms(3) by (auto simp: set_endpoint_def settings_ok_def split: sum.splits option.splits)
  moreover have "settings_ok t" if "set_atmos updates s = Inr t"
    using that assms(3) by (auto simp: set_atmos_def settings_ok_def split: sum.splits option.splits)
  ultimately show ?thesis
    using assms unfolding setting_updates_def
    by (auto elim!: set_u32_ok) (auto simp: settings_ok_def normalize_defs)
qed

lemma apply_updates_ok:
  "settings_ok s \<Longrightarrow> set fs \<subseteq> set setting_updates \<Longrightarrow> settings_ok (snd (apply_updates fs updates s))"
  by (induction fs arbitrary: s) (auto split: sum.split intro: updates_ok)

lemma apply_u32_ok: "settings_ok s \<Longrightarrow> (\<And>n. settings_ok (store n s)) \<Longrightarrow> settings_ok (apply_u32 v store s)"
  by (simp add: apply_u32_def split: option.split)

lemma apply_kv_ok: "settings_ok s \<Longrightarrow> settings_ok (apply_kv k v s)"
proof -
  assume s: "settings_ok s"
  have "settings_ok (load v s)" if "(key, load) \<in> set setting_loaders" for key load
    using that s unfolding setting_loaders_def
    by (auto intro!: apply_u32_ok split: sum.split) (auto simp: settings_ok_def normalize_defs)
  then show ?thesis using s by (auto simp: apply_kv_def dest: map_of_SomeD split: option.split)
qed

lemma fold_invariant: "(\<And>x y. P y \<Longrightarrow> P (f x y)) \<Longrightarrow> P y \<Longrightarrow> P (fold f xs y)"
  by (induction xs arbitrary: y) auto

lemma load_settings_ok: "settings_ok s \<Longrightarrow> settings_ok (load_settings rows webhook s)"
  unfolding load_settings_def Let_def
  by (auto intro!: apply_kv_ok fold_invariant [where P = settings_ok] split: option.split)

lemma load_from_redis_ok: "settings_ok s \<Longrightarrow> settings_ok (snd (load_from_redis store s))"
  unfolding load_from_redis_def apply_seen_def Let_def
  by (auto intro!: fold_invariant [where P = settings_ok] apply_kv_ok split: option.split)

lemma seed_and_load_ok: "settings_ok s \<Longrightarrow> settings_ok (snd (snd (seed_and_load ok store s)))"
  using load_from_redis_ok by (auto simp: seed_and_load_def Let_def split: option.split prod.split) (metis snd_conv)

lemma apply_settings_ok: "settings_ok s \<Longrightarrow> settings_ok (snd (apply_settings u s))"
  unfolding apply_settings_def by (rule apply_updates_ok) simp_all

lemma settings_stay_in_range_core: "settings_ok s \<Longrightarrow> settings_ok (snd (snd (snd (update_settings body db_ok ok db store s))))"
  using apply_settings_ok unfolding update_settings_def Let_def
  by (auto split: prod.split sum.split) (metis snd_conv)+

text \<open>
  C18. The settings are always usable: they start in their ranges, and no update of the panel, no stored row, no value
  in the shared store, however wrong, takes them out of them.
\<close>

theorem settings_stay_in_range:
  "settings_ok (settings_from_env atmos webhook) \<and>
   (settings_ok s \<longrightarrow>
      settings_ok (snd (snd (snd (update_settings body db_ok ok db store s)))) \<and>
      settings_ok (load_settings rows webhook s) \<and> settings_ok (snd (load_from_redis store s)) \<and>
      settings_ok (snd (snd (seed_and_load ok store s))) \<and>
      settings_ok (snd (snd (snd (set_discord_webhook_url u b ok db store s)))))"
proof (intro conjI impI)
  show "settings_ok (settings_from_env atmos webhook)"
    by (simp add: settings_from_env_def settings_ok_def)
  assume s: "settings_ok s"
  then show "settings_ok (snd (snd (snd (update_settings body db_ok ok db store s))))"
    by (rule settings_stay_in_range_core)
  show "settings_ok (snd (snd (snd (set_discord_webhook_url u b ok db store s))))"
    using s by (auto simp: set_discord_webhook_url_def settings_ok_def)
qed (simp_all add: load_settings_ok load_from_redis_ok seed_and_load_ok)

section \<open>Stored values\<close>

definition stored_value :: "app_settings \<Rightarrow> string \<Rightarrow> string option" where
  "stored_value s = map_of (settings_entries s)"

lemma stored_names: "map fst (settings_entries s) = REDIS_SETTING_NAMES"
  by (simp add: settings_entries_def REDIS_SETTING_NAMES_def)

lemma names_distinct: "distinct REDIS_SETTING_NAMES"
  by (simp add: REDIS_SETTING_NAMES_def)

lemma load_entries:
  "list_all (\<lambda>(k, load). settings_entries (load v s) =
     AList.update k (the (map_of (settings_entries (load v s)) k)) (settings_entries s)) setting_loaders"
  by (cases "parse_u32 v"; cases "parse_endpoint v")
    (simp_all add: setting_loaders_def settings_entries_def apply_u32_def)

lemma apply_other: "k \<noteq> k' \<Longrightarrow> stored_value (apply_kv k v s) k' = stored_value s k'"
proof (cases "map_of setting_loaders k")
  case (Some load)
  assume "k \<noteq> k'"
  moreover obtain w where "settings_entries (load v s) = AList.update k w (settings_entries s)"
    using load_entries [of v s] map_of_SomeD [OF Some] unfolding list_all_iff by blast
  ultimately show ?thesis
    by (simp only: apply_kv_def Some option.case stored_value_def update_conv' fun_upd_other not_sym not_False_eq_True)
qed (simp add: apply_kv_def)

lemma parse_show: "n < 2 ^ 32 \<Longrightarrow> parse_u32 (show_nat n) = Some n"
  using parse_show_nat [of n] by (simp add: parse_u32_def u64_max_def)

lemma parse_endpoint_str: "parse_endpoint (endpoint_str p) = Inr p"
  by (cases p) (simp_all add: parse_endpoint_def trim_def is_ascii_space_def)

lemma normalize_mode: "mode_ok v \<Longrightarrow> normalize_atmos_mode v = v"
  unfolding mode_ok_def by (elim disjE; hypsubst; code_simp)

lemma own_values:
  assumes "settings_ok t"
  shows "list_all (\<lambda>k. \<forall>v. stored_value t k = Some v \<longrightarrow> stored_value (apply_kv k v s) k = Some v) REDIS_SETTING_NAMES"
  using assms
  by (simp add: REDIS_SETTING_NAMES_def stored_value_def settings_entries_def apply_kv_def setting_loaders_def
      apply_u32_def parse_endpoint_str normalize_mode parse_show settings_ok_def normalize_defs)

lemma apply_own:
  assumes "settings_ok t" "stored_value t k = Some v" shows "stored_value (apply_kv k v s) k = Some v"
proof -
  have "k \<in> set REDIS_SETTING_NAMES"
    using map_of_SomeD [of "settings_entries t" k v] assms(2)
    by (auto simp: stored_value_def simp flip: stored_names [of t] intro: rev_image_eqI)
  then have "stored_value t k = Some v \<longrightarrow> stored_value (apply_kv k v s) k = Some v"
    using assms(1) own_values [of t s] by (simp add: list_all_iff)
  then show ?thesis using assms(2) by simp
qed

lemma digits_inj: "show_nat m = show_nat n \<Longrightarrow> m = n"
  by (metis digits_val_show option.inject)

lemma endpoint_str_inj: "endpoint_str p = endpoint_str q \<Longrightarrow> p = q"
  by (cases p; cases q) auto

lemma same_values:
  assumes "\<And>k. k \<in> set REDIS_SETTING_NAMES \<Longrightarrow> stored_value s k = stored_value t k" shows "s = t"
proof -
  have "list_all (\<lambda>k. stored_value s k = stored_value t k) REDIS_SETTING_NAMES"
    using assms by (simp add: list_all_iff)
  then show ?thesis
    by (intro app_settings.equality)
      (auto simp: REDIS_SETTING_NAMES_def stored_value_def settings_entries_def dest: digits_inj endpoint_str_inj)
qed

definition canonical :: "string \<Rightarrow> string \<Rightarrow> bool" where
  "canonical k v \<longleftrightarrow> (\<exists>t. settings_ok t \<and> stored_value t k = Some v)"

lemma load_values:
  assumes "distinct (map fst rows)" "\<And>k v. (k, v) \<in> set rows \<Longrightarrow> k \<in> set REDIS_SETTING_NAMES \<Longrightarrow> canonical k v"
    "k \<in> set REDIS_SETTING_NAMES"
  shows "stored_value (fold (\<lambda>(k, v). apply_kv k v) rows s) k =
    (case map_of rows k of Some v \<Rightarrow> Some v | None \<Rightarrow> stored_value s k)"
  using assms(1, 2)
proof (induction rows arbitrary: s)
  case (Cons x rows)
  obtain k' v where x: "x = (k', v)" by force
  have IH: "stored_value (fold (\<lambda>(k, v). apply_kv k v) rows (apply_kv k' v s)) k =
      (case map_of rows k of Some v \<Rightarrow> Some v | None \<Rightarrow> stored_value (apply_kv k' v s) k)"
    using Cons.prems by (intro Cons.IH) auto
  show ?case
  proof (cases "k = k'")
    case True
    have "map_of rows k' = None" using Cons.prems(1) x by (auto simp: map_of_eq_None_iff)
    moreover have "stored_value (apply_kv k' v s) k' = Some v"
      using Cons.prems(2) [of k' v] x assms(3) True apply_own by (auto simp: canonical_def)
    ultimately show ?thesis using IH True x by simp
  next
    case False
    then show ?thesis using IH apply_other [of k' k v s] x by (simp split: option.split)
  qed
qed simp

lemma put_all_get:
  "distinct (map fst kvs) \<Longrightarrow> hm_get (put_all ok kvs st) k =
     (case map_of kvs k of Some v \<Rightarrow> if ok k then Some v else hm_get st k | None \<Rightarrow> hm_get st k)"
proof (induction kvs arbitrary: st)
  case (Cons x kvs)
  obtain k' v where x: "x = (k', v)" by force
  have "map_of kvs k' = None" using Cons.prems x by (auto simp: map_of_eq_None_iff)
  then show ?case
    using Cons.IH Cons.prems by (auto simp: put_all_def x hm_get_update split: option.split)
qed (simp add: put_all_def)

lemma put_all_wf: "hm_wf st \<Longrightarrow> hm_wf (put_all ok kvs st)"
  unfolding put_all_def by (rule fold_invariant) (auto simp: hm_wf_insert)

lemma entries_distinct: "distinct (map fst (settings_entries s))"
  unfolding stored_names by (rule names_distinct)

lemma has_value: "k \<in> set REDIS_SETTING_NAMES \<longleftrightarrow> stored_value s k \<noteq> None"
  unfolding stored_value_def stored_names [of s, symmetric] by (simp add: map_of_eq_None_iff)

lemma rows_get: "hm_wf rows \<Longrightarrow> (k, v) \<in> set rows \<longleftrightarrow> hm_get rows k = Some v"
  by (auto simp: hm_wf_def hm_get_def)

lemma saved_back:
  assumes "settings_ok t" "hm_wf db"
  shows "load_settings (Some (save_to_db (\<lambda>k. True) t db)) webhook s = t"
proof -
  let ?rows = "save_to_db (\<lambda>k. True) t db"
  have wf: "hm_wf ?rows" using assms(2) by (simp add: save_to_db_def put_all_wf)
  have get: "hm_get ?rows k = (case stored_value t k of Some v \<Rightarrow> Some v | None \<Rightarrow> hm_get db k)" for k
    unfolding save_to_db_def stored_value_def by (simp add: put_all_get [OF entries_distinct] split: option.split)
  have listed: "k \<in> fst ` set ?rows" if k: "k \<in> set REDIS_SETTING_NAMES" for k
  proof -
    obtain v where "stored_value t k = Some v" using k has_value [of k t] by auto
    then have "(k, v) \<in> set ?rows" using rows_get [OF wf] get by simp
    then show ?thesis by force
  qed
  have "''discord_webhook_url'' \<in> fst ` set ?rows" by (rule listed) (simp add: REDIS_SETTING_NAMES_def)
  then have hook: "list_ex (\<lambda>(k, _). k = ''discord_webhook_url'') ?rows" by (force simp: list_ex_iff)
  have "fold (\<lambda>(k, v). apply_kv k v) ?rows s = t"
  proof (rule same_values)
    fix k assume k: "k \<in> set REDIS_SETTING_NAMES"
    have "canonical k' v" if "(k', v) \<in> set ?rows" "k' \<in> set REDIS_SETTING_NAMES" for k' v
      using that rows_get [OF wf] get has_value [of k' t] assms(1) by (auto simp: canonical_def)
    then show "stored_value (fold (\<lambda>(k, v). apply_kv k v) ?rows s) k = stored_value t k"
      using load_values [OF _ _ k, of ?rows s] wf get [of k] has_value [of k t] k
      by (auto simp: hm_wf_def hm_get_def)
  qed
  then show ?thesis using hook by (simp add: load_settings_def Let_def)
qed

text \<open>
  Saving and loading are inverse: a process that reads the table another one saved has exactly its settings,
  whatever it had before and whatever else the table holds.
\<close>

lemma saved_settings_come_back:
  assumes "settings_ok t" "hm_wf db"
  shows "load_settings (Some (save_to_db (\<lambda>k. True) t db)) webhook s = t"
  by (rule saved_back [OF assms])

section \<open>Several hosts\<close>

lemma apply_seen_rows:
  "apply_seen (zip ks (map f ks)) s =
     fold (\<lambda>(k, v). apply_kv k v) (List.map_filter (\<lambda>k. map_option (Pair k) (f k)) ks) s"
  by (induction ks arbitrary: s) (auto simp: apply_seen_def List.map_filter_simps split: option.split)

lemma seen_rows: "map_of (List.map_filter (\<lambda>k. map_option (Pair k) (f k)) ks) k = (if k \<in> set ks then f k else None)"
  and seen_keys: "map fst (List.map_filter (\<lambda>k. map_option (Pair k) (f k)) ks) = filter (\<lambda>k. f k \<noteq> None) ks"
  by (induction ks) (auto simp: List.map_filter_simps split: option.split)

definition canonical_store :: "kv_store \<Rightarrow> bool" where
  "canonical_store st \<longleftrightarrow> (\<forall>k \<in> set REDIS_SETTING_NAMES. \<forall>v. hm_get st k = Some v \<longrightarrow> canonical k v)"

lemma redis_values:
  assumes "canonical_store st" "k \<in> set REDIS_SETTING_NAMES"
  shows "stored_value (snd (load_from_redis (Some st) s)) k =
    (case hm_get st k of Some v \<Rightarrow> Some v | None \<Rightarrow> stored_value s k)"
proof -
  let ?rows = "List.map_filter (\<lambda>k. map_option (Pair k) (hm_get st k)) REDIS_SETTING_NAMES"
  have d: "distinct (map fst ?rows)" unfolding seen_keys using names_distinct by simp
  have "canonical k' v" if "(k', v) \<in> set ?rows" for k' v
  proof -
    have "map_of ?rows k' = Some v" by (rule map_of_is_SomeI [OF d that])
    then show ?thesis using assms(1) by (auto simp: seen_rows canonical_store_def split: if_splits)
  qed
  from load_values [OF d this assms(2), of s] show ?thesis
    using assms(2) by (simp add: load_from_redis_def Let_def apply_seen_rows seen_rows split: option.split)
qed

lemma seed_fold:
  assumes "distinct (map (fst \<circ> snd) xs)" "\<forall>(p, k, v) \<in> set xs. p = hm_get st k"
  shows "hm_get (snd (fold (seed_step (\<lambda>k. True)) xs (n, st))) k =
    (case hm_get st k of Some v \<Rightarrow> Some v | None \<Rightarrow> map_of (map snd xs) k)"
  using assms
proof (induction xs arbitrary: n st)
  case (Cons x xs)
  obtain p k' v where x: "x = (p, k', v)" by (cases x)
  let ?st = "snd (seed_step (\<lambda>k. True) x (n, st))"
  have st: "?st = (if hm_get st k' = None then hm_insert k' v st else st)"
    using Cons.prems(2) x by (auto simp: seed_step_def)
  have "\<forall>(p, k, v) \<in> set xs. p = hm_get ?st k"
    using Cons.prems x st by (force simp: hm_get_update)
  from Cons.IH [OF _ this, of "fst (seed_step (\<lambda>k. True) x (n, st))"] Cons.prems(1)
  have "hm_get (snd (fold (seed_step (\<lambda>k. True)) (x # xs) (n, st))) k =
      (case hm_get ?st k of Some v \<Rightarrow> Some v | None \<Rightarrow> map_of (map snd xs) k)"
    by simp
  then show ?case using st x by (auto simp: hm_get_update split: option.split)
qed (simp split: option.split)

lemma seeded_store:
  "hm_get (snd (fold (seed_step (\<lambda>k. True))
      (zip (map (hm_get st) REDIS_SETTING_NAMES) (settings_entries s)) (n, st))) k =
   (case hm_get st k of Some v \<Rightarrow> Some v | None \<Rightarrow> stored_value s k)"
proof -
  let ?xs = "zip (map (hm_get st) REDIS_SETTING_NAMES) (settings_entries s)"
  have len: "length (settings_entries s) = length REDIS_SETTING_NAMES"
    using stored_names [of s] by (metis length_map)
  have snds: "map snd ?xs = settings_entries s" using len by (simp add: map_snd_zip)
  have fsts: "map (fst \<circ> snd) ?xs = REDIS_SETTING_NAMES"
    using snds stored_names [of s] by (metis map_map)
  have all: "\<forall>(p, k, v) \<in> set ?xs. p = hm_get st k"
  proof (clarify)
    fix p k v assume "(p, k, v) \<in> set ?xs"
    then obtain i where i: "i < length REDIS_SETTING_NAMES" "?xs ! i = (p, k, v)" using len by (auto simp: in_set_conv_nth)
    then have "k = REDIS_SETTING_NAMES ! i"
      using fsts len by (metis (no_types, lifting) comp_apply fst_conv length_map nth_map snd_conv)
    then show "p = hm_get st k" using i len by simp
  qed
  have "distinct (map (fst \<circ> snd) ?xs)" unfolding fsts by (rule names_distinct)
  from seed_fold [OF this all] show ?thesis unfolding snds stored_value_def .
qed

text \<open>
  C19. Hosts that share a Redis come to the same settings: after one host has seeded the store and another has joined,
  both have the settings of the store, and a later periodic load changes nothing. A value that was
  already shared wins over the local one.
\<close>

theorem hosts_share_their_settings:
  assumes "settings_ok a" "canonical_store st"
    "seed_and_load (\<lambda>k. True) (Some st) a = (na, Some st1, a1)"
    "seed_and_load (\<lambda>k. True) (Some st1) b = (nb, Some st2, b1)"
  shows "a1 = b1 \<and> snd (load_from_redis (Some st2) a1) = a1 \<and>
    (\<forall>k \<in> set REDIS_SETTING_NAMES. \<forall>v. hm_get st k = Some v \<longrightarrow> stored_value b1 k = Some v)"
proof -
  define s1 where "s1 = (\<lambda>st s. snd (fold (seed_step (\<lambda>k. True))
      (zip (map (hm_get st) REDIS_SETTING_NAMES) (settings_entries s)) (0, st)))"
  have run: "st' = s1 st s \<and> t = snd (load_from_redis (Some (s1 st s)) s)"
    if "seed_and_load (\<lambda>k. True) (Some st) s = (n, Some st', t)" for st s n st' t
    using that by (auto simp: seed_and_load_def s1_def Let_def split: prod.splits)
  note r1 = run [OF assms(3)] and r2 = run [OF assms(4)]
  have g1: "hm_get st1 k = (case hm_get st k of Some v \<Rightarrow> Some v | None \<Rightarrow> stored_value a k)" for k
    using r1 seeded_store [of st a 0 k] by (simp add: s1_def)
  have full: "hm_get st1 k \<noteq> None" if "k \<in> set REDIS_SETTING_NAMES" for k
    using that has_value [of k a] g1 [of k] by (simp split: option.split)
  have canon: "canonical_store st1"
    using assms(1, 2) g1 unfolding canonical_store_def canonical_def by (auto split: option.splits)
  have g2: "hm_get st2 k = hm_get st1 k" if "k \<in> set REDIS_SETTING_NAMES" for k
    using r2 seeded_store [of st1 b 0 k] full [OF that] by (auto simp: s1_def)
  then have canon2: "canonical_store st2" using canon by (simp add: canonical_store_def)
  have va: "stored_value a1 k = hm_get st1 k" if "k \<in> set REDIS_SETTING_NAMES" for k
    using redis_values [OF canon that, of a] r1 full [OF that] by auto
  have vl: "stored_value (snd (load_from_redis (Some st2) s)) k = hm_get st1 k" if "k \<in> set REDIS_SETTING_NAMES" for k s
    using redis_values [OF canon2 that, of s] g2 [OF that] full [OF that] by auto
  have "a1 = b1" by (rule same_values) (use va vl r2 in auto)
  moreover have "snd (load_from_redis (Some st2) a1) = a1" by (rule same_values) (use va vl in auto)
  moreover have "stored_value a1 k = Some v" if "k \<in> set REDIS_SETTING_NAMES" "hm_get st k = Some v" for k v
    using va [OF that(1)] g1 [of k] that(2) by simp
  ultimately show ?thesis by blast
qed

section \<open>The handler\<close>

definition with_hook :: "string \<Rightarrow> app_settings \<Rightarrow> app_settings" where
  "with_hook w s = s\<lparr>discord_webhook_url := w\<rparr>"

lemma update_hook: "f \<in> set setting_updates \<Longrightarrow> f updates (with_hook w s) = map_sum (\<lambda>e. e) (with_hook w) (f updates s)"
  by (auto simp: setting_updates_def set_endpoint_def set_atmos_def set_u32_def with_hook_def
      split: sum.split option.split)

lemma apply_updates_hook:
  "set fs \<subseteq> set setting_updates \<Longrightarrow>
    apply_updates fs updates (with_hook w s) = map_prod (\<lambda>e. e) (with_hook w) (apply_updates fs updates s)"
  by (induction fs arbitrary: s) (auto simp: update_hook split: sum.split)

lemma snapshot_hook: "settings_snapshot (with_hook w s) = settings_snapshot s"
  by (simp add: settings_snapshot_def with_hook_def)

text \<open>
  The Discord webhook, a secret, cannot be read through the panel: what the settings page and the update request
  answer, errors included, is the same whatever the webhook is.
\<close>

lemma webhook_stays_secret:
  "settings_snapshot (s\<lparr>discord_webhook_url := w\<rparr>) = settings_snapshot s \<and>
   fst (update_settings body db_ok ok db store (s\<lparr>discord_webhook_url := w\<rparr>)) =
     fst (update_settings body db_ok ok db store s)"
proof -
  have "apply_settings u (with_hook w s) = map_prod (\<lambda>e. e) (with_hook w) (apply_settings u s)" for u
    unfolding apply_settings_def by (rule apply_updates_hook) simp
  then have "fst (update_settings body db_ok ok db store (with_hook w s)) = fst (update_settings body db_ok ok db store s)"
    unfolding update_settings_def Let_def by (auto simp: snapshot_hook split: prod.split sum.split)
  then show ?thesis using snapshot_hook [of w s] by (simp add: with_hook_def)
qed

text \<open>
  An update is saved completely or not at all: when the handler answers with an error, it is a 400 and neither
  the table nor the shared store has changed; when it succeeds, a process that reads the table has exactly
  the settings now in force.
\<close>

lemma updates_are_saved_whole:
  assumes "settings_ok s" "hm_wf db"
    "update_settings body (\<lambda>k. True) ok (Some db) store s = (r, db', store', s')"
  shows "case r of
      Inl err \<Rightarrow> status err = 400 \<and> db' = Some db \<and> store' = store
    | Inr _ \<Rightarrow> (\<forall>t webhook. load_settings db' webhook t = s')"
proof -
  have "settings_ok s'"
    using settings_stay_in_range_core [OF assms(1), of body "\<lambda>k. True" ok "Some db" store] assms(3) by simp
  then show ?thesis
    using assms(3) saved_back [OF _ assms(2)]
    by (auto simp: update_settings_def Let_def split: sum.splits prod.splits)
qed

text \<open>
  What a rejected update leaves in memory: the fields that come before the wrong one have been changed,
  although the answer is an error and nothing is saved.
\<close>

lemma rejected_update_changes_memory:
  assumes "jget ''settings'' body = None" "jget ''rate_limits'' body = None"
    "jget ''v1_playback_endpoint'' body = None" "jget ''atmos_mode'' body = Some (JStr v)"
    "jget ''track_requests_per_account'' body = Some (JBool b)"
  shows "update_settings body db_ok ok db store s =
    (Inl (BadRequest ''track_requests_per_account must be an integer''), db, store,
     s\<lparr>atmos_mode := normalize_atmos_mode v\<rparr>)"
  using assms
  by (simp add: update_settings_def apply_settings_def setting_updates_def set_endpoint_def set_atmos_def
      set_u32_def first_opt_u32_def)

section \<open>The properties at work\<close>

definition default_settings :: app_settings where
  "default_settings = settings_from_env None None"

lemma default_settings_ok: "settings_ok default_settings"
  by (simp add: default_settings_def settings_from_env_def settings_ok_def)

theorem settings_stay_in_range_witness:
  "settings_ok (load_settings (Some [(''track_requests_per_account'', ''99'')]) None default_settings)"
  using settings_stay_in_range default_settings_ok by blast

theorem saved_settings_come_back_witness:
  "load_settings (Some (save_to_db (\<lambda>k. True) default_settings [])) None
     (default_settings\<lparr>track_request_delay_ms := 500\<rparr>) = default_settings"
  by (rule saved_settings_come_back [OF default_settings_ok]) (simp add: hm_wf_def)

theorem hosts_share_their_settings_witness:
  "\<exists>na st1 a1 nb st2 b1.
     seed_and_load (\<lambda>k. True) (Some []) (default_settings\<lparr>atmos_mode := ''high''\<rparr>) = (na, Some st1, a1) \<and>
     seed_and_load (\<lambda>k. True) (Some st1) default_settings = (nb, Some st2, b1) \<and> a1 = b1"
proof -
  let ?a = "default_settings\<lparr>atmos_mode := ''high''\<rparr>"
  have a: "settings_ok ?a" using default_settings_ok by (simp add: settings_ok_def mode_ok_def)
  have st: "canonical_store []" by (simp add: canonical_store_def hm_get_def)
  have ex: "\<exists>n st' t. seed_and_load (\<lambda>k. True) (Some st) s = (n, Some st', t)" for st s
    by (simp add: seed_and_load_def Let_def split: prod.split)
  obtain na st1 a1 where r1: "seed_and_load (\<lambda>k. True) (Some []) ?a = (na, Some st1, a1)" using ex by blast
  obtain nb st2 b1 where r2: "seed_and_load (\<lambda>k. True) (Some st1) default_settings = (nb, Some st2, b1)" using ex by blast
  have "a1 = b1" using hosts_share_their_settings [OF a st r1 r2] by blast
  then show ?thesis using r1 r2 by blast
qed

theorem updates_are_saved_whole_witness:
  "\<exists>r db' store' s'.
     update_settings (JObj [(''track_request_delay_ms'', JInt 500)]) (\<lambda>k. True) (\<lambda>k. True) (Some []) None default_settings =
       (r, db', store', s') \<and>
     (case r of Inl err \<Rightarrow> False | Inr _ \<Rightarrow> load_settings db' None default_settings = s' \<and> track_request_delay_ms s' = 500)"
proof -
  let ?r = "update_settings (JObj [(''track_request_delay_ms'', JInt 500)]) (\<lambda>k. True) (\<lambda>k. True) (Some []) None default_settings"
  obtain r db' store' s' where r: "?r = (r, db', store', s')" by (cases ?r)
  have "\<not> isl (fst ?r) \<and> track_request_delay_ms (snd (snd (snd ?r))) = 500"
    by (simp add: update_settings_def apply_settings_def setting_updates_def set_endpoint_def set_atmos_def
        set_u32_def first_opt_u32_def normalize_defs)
  then have "\<not> isl r" "track_request_delay_ms s' = 500" using r by simp_all
  then show ?thesis
    using updates_are_saved_whole [OF default_settings_ok _ r] r by (auto simp: hm_wf_def split: sum.splits)
qed

end
