(* ===== verification/RequestLog.thy ===== *)
theory RequestLog
  imports Playback AdminAuth ScannerGuard
begin

text \<open>
  \<open>src/request_log.rs\<close>: the middleware every request passes, what it records of a request, and what the
  overview computes from the records.

  The state keeps the last 5000 entries (oldest first), the counts per second of about a minute, and the
  total. A response is reduced to what the middleware reads of it. Percent decoding
  (\<open>form_urlencoded\<close>) and the JSON parser are parameters. Averages are real numbers; the counters are
  natural numbers (\<open>u64\<close> does not overflow on counts of requests).
\<close>

section \<open>What is recorded\<close>

record logged_account =
  account_id :: string
  account_label :: string
  account_role :: string

text \<open>\<open>note_account\<close>, on the trace of the request being served.\<close>

definition note_account :: "string \<Rightarrow> string \<Rightarrow> string \<Rightarrow> logged_account list \<Rightarrow> logged_account list" where
  "note_account aid label role trace =
     (if trace \<noteq> [] \<and> account_id (last trace) = aid \<and> account_role (last trace) = role then trace
      else trace @ [\<lparr>account_id = aid, account_label = label, account_role = role\<rparr>])"

definition should_log_path :: "string \<Rightarrow> bool" where
  "should_log_path path \<longleftrightarrow>
     path \<noteq> ''/admin'' \<and> \<not> starts_with ''/admin/'' path \<and> path \<noteq> ''/health'' \<and> path \<noteq> ''/favicon.ico''"

record log_entry =
  ts :: int
  verb :: string
  path :: string
  detail :: string
  code :: nat
  latency_ms :: nat
  client :: string
  cache_verdict :: string
  picked :: "logged_account list"
  rejected :: bool
  error_detail :: string

datatype traffic = PlaybackT | SearchT | CatalogT | CachedT | ServiceT

definition segments :: "string \<Rightarrow> string list" where
  "segments p = filter (\<lambda>s. s \<noteq> []) (split_on CHR ''/'' p)"

definition path_class :: "string \<Rightarrow> traffic" where
  "path_class p =
     (case segments p of
        [] \<Rightarrow> ServiceT
      | s # _ \<Rightarrow>
          if s \<in> {''track'', ''trackManifests'', ''dash'', ''video'', ''widevine''} then PlaybackT
          else if s = ''search'' then SearchT
          else if s \<in> {''info'', ''album'', ''artist'', ''mix'', ''playlist'', ''cover'', ''lyrics'',
                       ''recommendations'', ''topvideos''} then CatalogT
          else ServiceT)"

definition traffic_of :: "log_entry \<Rightarrow> traffic" where
  "traffic_of e =
     (if rejected e then ServiceT
      else case path_class (path e) of
             ServiceT \<Rightarrow> ServiceT
           | class \<Rightarrow> if cache_verdict e \<in> {''HIT'', ''STALE'', ''NEGATIVE''} then CachedT else class)"

definition is_api_error :: "log_entry \<Rightarrow> bool" where
  "is_api_error e \<longleftrightarrow>
     code e \<ge> 400 \<and> \<not> rejected e \<and> (traffic_of e \<noteq> ServiceT \<or> starts_with ''/playback/'' (path e))"

section \<open>Counts per second\<close>

record second_counts =
  playback :: nat
  search :: nat
  catalog :: nat
  cached :: nat
  throttled :: nat

definition no_counts :: second_counts where
  "no_counts = \<lparr>playback = 0, search = 0, catalog = 0, cached = 0, throttled = 0\<rparr>"

definition counts_of :: "log_entry \<Rightarrow> second_counts" where
  "counts_of e =
     (let t = traffic_of e;
          queued = (t = PlaybackT \<and> code e = 202);
          sent = (picked e \<noteq> [] \<or> queued)
      in \<lparr>playback = of_bool (sent \<and> t = PlaybackT), search = of_bool (sent \<and> t = SearchT),
          catalog = of_bool (sent \<and> t = CatalogT), cached = of_bool (t = CachedT),
          throttled = of_bool (t \<noteq> ServiceT \<and> code e = 429 \<and> \<not> is_accounts_busy (error_detail e))\<rparr>)"

definition add_counts :: "second_counts \<Rightarrow> second_counts \<Rightarrow> second_counts" where
  "add_counts a b =
     \<lparr>playback = playback a + playback b, search = search a + search b, catalog = catalog a + catalog b,
      cached = cached a + cached b, throttled = throttled a + throttled b\<rparr>"

definition upstream :: "second_counts \<Rightarrow> nat" where
  "upstream c = playback c + search c + catalog c"

section \<open>The log\<close>

definition MAX_ENTRIES :: nat where
  "MAX_ENTRIES = 5000"

definition RATE_WINDOW_SECONDS :: int where
  "RATE_WINDOW_SECONDS = 60"

definition RATE_NOW_SECONDS :: int where
  "RATE_NOW_SECONDS = 5"

record request_log =
  entries :: "log_entry list"
  per_second :: "(int \<times> second_counts) list"
  total_requests :: nat

definition request_log_new :: request_log where
  "request_log_new = \<lparr>entries = [], per_second = [], total_requests = 0\<rparr>"

definition push_entry :: "log_entry \<Rightarrow> log_entry list \<Rightarrow> log_entry list" where
  "push_entry e es = (if length es \<ge> MAX_ENTRIES then tl es else es) @ [e]"

text \<open>\<open>find\<close> and \<open>add\<close> on the first bucket of the second, or a new bucket at the end.\<close>

fun count_second :: "int \<Rightarrow> second_counts \<Rightarrow> (int \<times> second_counts) list \<Rightarrow> (int \<times> second_counts) list" where
  "count_second t c [] = [(t, c)]"
| "count_second t c ((s, n) # bs) = (if s = t then (s, add_counts n c) # bs else (s, n) # count_second t c bs)"

definition record_entry :: "log_entry \<Rightarrow> request_log \<Rightarrow> request_log" where
  "record_entry e l =
     \<lparr>entries = push_entry e (entries l),
      per_second = count_second (ts e) (counts_of e)
        (filter (\<lambda>(second, _). second > ts e - RATE_WINDOW_SECONDS) (per_second l)),
      total_requests = total_requests l + 1\<rparr>"

section \<open>Rates\<close>

record request_rate =
  now_rate :: real
  avg_60s :: real
  peak_60s :: nat

record request_rates =
  all_rate :: request_rate
  playback_rate :: request_rate
  search_rate :: request_rate
  catalog_rate :: request_rate
  cached_rate :: request_rate
  throttled_60s :: nat
  history :: "(nat \<times> nat \<times> nat) list"

record rate_scan =
  window :: second_counts
  recent :: second_counts
  peak :: second_counts
  peak_upstream :: nat
  slots :: "(nat \<times> nat \<times> nat) list"

definition scan_bucket :: "int \<Rightarrow> int \<times> second_counts \<Rightarrow> rate_scan \<Rightarrow> rate_scan" where
  "scan_bucket now = (\<lambda>(second, c) r.
     let r = (if second > now - RATE_WINDOW_SECONDS \<and> second \<le> now
              then r\<lparr>window := add_counts (window r) c\<rparr> else r);
         r = (if second \<ge> now - RATE_NOW_SECONDS \<and> second < now
              then r\<lparr>recent := add_counts (recent r) c\<rparr> else r)
     in if second \<ge> now - RATE_WINDOW_SECONDS \<and> second < now
        then r\<lparr>slots := (slots r)[nat (second - (now - RATE_WINDOW_SECONDS)) := (playback c, search c, catalog c)],
               peak := (peak r)\<lparr>playback := max (playback (peak r)) (playback c),
                                search := max (search (peak r)) (search c),
                                catalog := max (catalog (peak r)) (catalog c),
                                cached := max (cached (peak r)) (cached c)\<rparr>,
               peak_upstream := max (peak_upstream r) (upstream c)\<rparr>
        else r)"

definition rate :: "nat \<Rightarrow> nat \<Rightarrow> nat \<Rightarrow> request_rate" where
  "rate lately minute busiest =
     \<lparr>now_rate = real lately / of_int RATE_NOW_SECONDS, avg_60s = real minute / of_int RATE_WINDOW_SECONDS,
      peak_60s = busiest\<rparr>"

definition scan_start :: rate_scan where
  "scan_start = \<lparr>window = no_counts, recent = no_counts, peak = no_counts, peak_upstream = 0,
     slots = replicate (nat RATE_WINDOW_SECONDS) (0, 0, 0)\<rparr>"

definition request_rates_at :: "int \<Rightarrow> request_log \<Rightarrow> request_rates" where
  "request_rates_at now l =
     (let r = fold (scan_bucket now) (per_second l) scan_start
      in \<lparr>all_rate = rate (upstream (recent r)) (upstream (window r)) (peak_upstream r),
          playback_rate = rate (playback (recent r)) (playback (window r)) (playback (peak r)),
          search_rate = rate (search (recent r)) (search (window r)) (search (peak r)),
          catalog_rate = rate (catalog (recent r)) (catalog (window r)) (catalog (peak r)),
          cached_rate = rate (cached (recent r)) (cached (window r)) (cached (peak r)),
          throttled_60s = throttled (window r), history = slots r\<rparr>)"

section \<open>Latencies and outcomes\<close>

definition recent_p95_ms :: "request_log \<Rightarrow> nat option" where
  "recent_p95_ms l = percentile (sort (map latency_ms (entries l))) (95 / 100)"

record class_latency =
  class_count :: nat
  class_p50 :: "nat option"
  class_p95 :: "nat option"
  class_p99 :: "nat option"

definition class_summary :: "traffic \<Rightarrow> request_log \<Rightarrow> class_latency" where
  "class_summary t l =
     (let vs = sort (map latency_ms (filter (\<lambda>e. \<not> (code e \<ge> 400 \<or> code e = 202) \<and> traffic_of e = t) (entries l)))
      in \<lparr>class_count = length vs, class_p50 = percentile vs (1 / 2), class_p95 = percentile vs (95 / 100),
          class_p99 = percentile vs (99 / 100)\<rparr>)"

definition latency_by_class :: "request_log \<Rightarrow> class_latency \<times> class_latency" where
  "latency_by_class l = (class_summary SearchT l, class_summary CatalogT l)"

definition outcome_counts :: "request_log \<Rightarrow> nat \<times> nat" where
  "outcome_counts l = (length (entries l), length (filter (\<lambda>e. code e \<ge> 400) (entries l)))"

text \<open>The summary of the requests page. Ties of the top lists keep the order of the tally.\<close>

definition tally :: "('e \<Rightarrow> 'k) \<Rightarrow> 'e list \<Rightarrow> ('k, nat) hash_map" where
  "tally key es = fold (\<lambda>e m. hm_insert (key e) ((case hm_get m (key e) of None \<Rightarrow> 0 | Some n \<Rightarrow> n) + 1) m) es []"

definition top_hits :: "nat \<Rightarrow> ('k, nat) hash_map \<Rightarrow> ('k \<times> nat) list" where
  "top_hits n m = take n (sort_key (\<lambda>(_, hits). - int hits) m)"

fun keep_first :: "('e \<Rightarrow> 'k) \<Rightarrow> 'k list \<Rightarrow> 'e list \<Rightarrow> 'e list" where
  "keep_first key seen [] = []"
| "keep_first key seen (e # es) =
     (if key e \<in> set seen then keep_first key seen es else e # keep_first key (key e # seen) es)"

definition floor_percentile :: "nat list \<Rightarrow> real \<Rightarrow> nat" where
  "floor_percentile vs p =
     (if vs = [] then 0 else vs ! min (nat \<lfloor>p * real (length vs)\<rfloor>) (length vs - 1))"

definition RECENT_ERRORS :: nat where
  "RECENT_ERRORS = 50"

record log_summary =
  sum_total :: nat
  sum_errors :: nat
  sum_user_errors :: nat
  sum_upstream_errors :: nat
  sum_slowest :: "(string \<times> string \<times> nat) list"
  sum_p50 :: nat
  sum_p95 :: nat
  sum_endpoints :: "(string \<times> nat) list"
  sum_status :: "(nat, nat) hash_map"
  sum_ips :: "(string \<times> nat) list"
  sum_tracks :: "(string \<times> nat) list"
  sum_recent :: "log_entry list"
  sum_recent_errors :: "log_entry list"

definition upstream_failure :: "nat \<Rightarrow> bool" where
  "upstream_failure st \<longleftrightarrow> st = 429 \<or> st \<ge> 500"

definition log_summary_of :: "nat \<Rightarrow> request_log \<Rightarrow> log_summary" where
  "log_summary_of shown l =
     (let es = entries l; failed = filter (\<lambda>e. code e \<ge> 400) es; vs = sort (map latency_ms es)
      in \<lparr>sum_total = length es, sum_errors = length failed,
          sum_user_errors = length (filter (\<lambda>e. \<not> upstream_failure (code e)) failed),
          sum_upstream_errors = length (filter (\<lambda>e. upstream_failure (code e)) failed),
          sum_slowest = map (\<lambda>e. (path e, detail e, latency_ms e))
            (take 5 (keep_first (\<lambda>e. (path e, detail e)) [] (sort_key (\<lambda>e. - int (latency_ms e)) es))),
          sum_p50 = floor_percentile vs (1 / 2), sum_p95 = floor_percentile vs (95 / 100),
          sum_endpoints = top_hits 20 (tally path es), sum_status = tally code es,
          sum_ips = top_hits 10 (tally client es),
          sum_tracks = top_hits 10 (tally detail (filter (\<lambda>e. detail e \<noteq> []) es)),
          sum_recent = take (min shown MAX_ENTRIES) (rev es),
          sum_recent_errors = take RECENT_ERRORS (filter is_api_error (rev es))\<rparr>)"

section \<open>The middleware\<close>

fun join_slash :: "string list \<Rightarrow> string" where
  "join_slash [] = []"
| "join_slash [s] = s"
| "join_slash (s # ss) = s @ ''/'' @ join_slash ss"

definition normalize_path :: "string \<Rightarrow> string" where
  "normalize_path p =
     (let segs = segments p
      in if segs = [] then ''/''
         else if length segs \<le> 2 then ''/'' @ join_slash segs
         else ''/'' @ segs ! 0 @ ''/'' @ segs ! 1)"

text \<open>The loop over the query: the first non-empty \<open>id\<close> wins, else the first \<open>s\<close>.\<close>

fun scan_query :: "(string \<times> string) list \<Rightarrow> string option \<Rightarrow> string" where
  "scan_query [] text = (case text of Some s \<Rightarrow> if s \<noteq> [] then take 64 s else [] | None \<Rightarrow> [])"
| "scan_query ((k, v) # kvs) text =
     (if k = ''id'' \<and> v \<noteq> [] then take 64 v
      else if k = ''s'' \<and> text = None then scan_query kvs (Some v)
      else scan_query kvs text)"

definition extract_detail :: "(string \<Rightarrow> (string \<times> string) list) \<Rightarrow> string \<Rightarrow> string option \<Rightarrow> string" where
  "extract_detail decode p query =
     (let segs = segments p
      in if length segs \<ge> 2 \<and> segs ! 0 \<in> {''track'', ''trackManifests'', ''dash''} then take 64 (segs ! 1)
         else case query of None \<Rightarrow> [] | Some q \<Rightarrow> scan_query (decode q) None)"

definition MAX_ERROR_BODY :: nat where
  "MAX_ERROR_BODY = 16384"

definition MAX_ERROR_DETAIL :: nat where
  "MAX_ERROR_DETAIL = 300"

text \<open>
  A response: its status, the \<open>X-Cache\<close> header, the mark of a refusal, the exact size of the body if it
  is known, and the body (\<open>None\<close> when reading it fails).
\<close>

record logged_response =
  st :: nat
  x_cache :: "string option"
  refused_mark :: bool
  exact_size :: "nat option"
  body :: "string option"

definition take_error_detail :: "(string \<Rightarrow> json option) \<Rightarrow> logged_response \<Rightarrow> logged_response \<times> string" where
  "take_error_detail parse r =
     (case exact_size r of
        None \<Rightarrow> (r, [])
      | Some n \<Rightarrow>
          if \<not> (st r \<ge> 400 \<and> n \<le> MAX_ERROR_BODY) then (r, [])
          else (case body r of
                  None \<Rightarrow> (\<lparr>st = 502, x_cache = None, refused_mark = False, exact_size = Some 25,
                            body = Some ''Upstream body read failed''\<rparr>, [])
                | Some bytes \<Rightarrow>
                    (r, take MAX_ERROR_DETAIL
                          (case parse bytes of
                             Some v \<Rightarrow> unwrap_or (jget_str ''detail'' v) []
                           | None \<Rightarrow> trim bytes))))"

text \<open>
  \<open>log_requests\<close>: \<open>handler\<close> is the rest of the stack with the accounts it picked; it is not run for a
  client the scanner guard refuses. \<open>wall\<close> is the clock when the entry is made, \<open>took\<close> the time it took.
\<close>

record request_world =
  scan_decode :: "string \<Rightarrow> string"
  query_decode :: "string \<Rightarrow> (string \<times> string) list"
  parse_body :: "string \<Rightarrow> json option"
  print_ip :: "ip_addr \<Rightarrow> string"

definition refusal :: "nat \<Rightarrow> logged_response" where
  "refusal retry_after = \<lparr>st = 403, x_cache = None, refused_mark = True, exact_size = Some 67,
     body = Some ''{\"detail\":\"IP temporarily blocked after repeated scanner requests\"}''\<rparr>"

definition log_requests ::
    "request_world \<Rightarrow> string \<Rightarrow> string \<Rightarrow> string option \<Rightarrow> ip_addr \<Rightarrow> instant \<Rightarrow> int \<Rightarrow> nat \<Rightarrow>
     (unit \<Rightarrow> logged_response \<times> logged_account list) \<Rightarrow> guard_state \<Rightarrow> request_log \<Rightarrow>
     logged_response \<times> guard_state \<times> request_log" where
  "log_requests w m p query ip start wall took handler g l =
     (let (blocked, g) = scanner_check (scan_decode w) ip p start g;
          (resp, accounts) = (case blocked of Some retry_after \<Rightarrow> (refusal retry_after, []) | None \<Rightarrow> handler ())
      in if \<not> should_log_path p then (resp, g, l)
         else (let (resp, err) = take_error_detail (parse_body w) resp
               in (resp, g,
                   record_entry
                     \<lparr>ts = wall, verb = m, path = normalize_path p, detail = extract_detail (query_decode w) p query,
                      code = st resp, latency_ms = took, client = print_ip w ip,
                      cache_verdict = unwrap_or (x_cache resp) [], picked = accounts,
                      rejected = refused_mark resp, error_detail = err\<rparr> l)))"

end
