(* ===== verification/LogProps.thy ===== *)
theory LogProps
  imports RequestLog
begin

text \<open>
  The properties of the request log: what it keeps, that the rates of the overview are the true counts, and
  that refused clients reach neither a handler nor the statistics.
\<close>

section \<open>What is kept\<close>

definition record_all :: "log_entry list \<Rightarrow> request_log" where
  "record_all es = fold record_entry es request_log_new"

lemma record_all_snoc: "record_all (es @ [e]) = record_entry e (record_all es)"
  by (simp add: record_all_def)

lemma record_all_empty: "record_all [] = request_log_new"
  by (simp add: record_all_def)

lemma kept_entries: "entries (record_all es) = drop (length es - MAX_ENTRIES) es"
proof (induction es rule: rev_induct)
  case Nil
  then show ?case by (simp add: record_all_empty request_log_new_def)
next
  case (snoc e es)
  have "push_entry e (drop (length es - MAX_ENTRIES) es) = drop (length (es @ [e]) - MAX_ENTRIES) (es @ [e])"
  proof (cases "MAX_ENTRIES \<le> length es")
    case True
    then have "length (es @ [e]) - MAX_ENTRIES = Suc (length es - MAX_ENTRIES)" by simp
    then show ?thesis using True by (simp add: push_entry_def drop_Suc tl_drop MAX_ENTRIES_def)
  qed (simp add: push_entry_def)
  then show ?case using snoc by (simp add: record_all_snoc record_entry_def)
qed

text \<open>
  The log keeps the 5000 most recent requests, in order, and forgets only older ones; the total counts every
  request recorded since the start.
\<close>

lemma log_keeps_the_latest:
  "entries (record_all es) = drop (length es - 5000) es \<and> length (entries (record_all es)) \<le> 5000 \<and>
   total_requests (record_all es) = length es"
proof -
  have "total_requests (record_all es) = length es"
    by (induction es rule: rev_induct)
      (simp_all add: record_all_empty record_all_snoc record_entry_def request_log_new_def)
  then show ?thesis using kept_entries [of es] by (simp add: MAX_ENTRIES_def)
qed

section \<open>Counts\<close>

definition plus_counts :: "log_entry list \<Rightarrow> second_counts" where
  "plus_counts es = fold (\<lambda>e c. add_counts c (counts_of e)) es no_counts"

lemma add_counts_no [simp]: "add_counts no_counts c = c" "add_counts c no_counts = c"
  by (simp_all add: add_counts_def no_counts_def)

lemma add_counts_assoc: "add_counts (add_counts a b) c = add_counts a (add_counts b c)"
  and add_counts_commute: "add_counts a b = add_counts b a"
  by (simp_all add: add_counts_def)

lemma add_counts_left_commute: "add_counts b (add_counts a c) = add_counts a (add_counts b c)"
  by (simp add: add_counts_def)

lemmas add_counts_ac = add_counts_assoc add_counts_commute add_counts_left_commute

lemma plus_counts_snoc: "plus_counts (es @ [e]) = add_counts (plus_counts es) (counts_of e)"
  by (simp add: plus_counts_def)

lemma plus_counts_Nil [simp]: "plus_counts [] = no_counts"
  by (simp add: plus_counts_def)

text \<open>The requests of one second, and of a range of seconds.\<close>

definition in_second :: "int \<Rightarrow> log_entry list \<Rightarrow> second_counts" where
  "in_second t es = plus_counts (filter (\<lambda>e. ts e = t) es)"

definition bucket :: "int \<Rightarrow> (int \<times> second_counts) list \<Rightarrow> second_counts" where
  "bucket t bs = (case map_of bs t of Some c \<Rightarrow> c | None \<Rightarrow> no_counts)"

definition sum_buckets :: "(int \<Rightarrow> bool) \<Rightarrow> (int \<times> second_counts) list \<Rightarrow> second_counts" where
  "sum_buckets P bs = fold (\<lambda>(s, c) n. if P s then add_counts n c else n) bs no_counts"

lemma count_second_bucket:
  "bucket s (count_second t c bs) = (if s = t then add_counts (bucket s bs) c else bucket s bs)"
  by (induction bs) (auto simp: bucket_def)

lemma count_second_keys: "fst ` set (count_second t c bs) = insert t (fst ` set bs)"
proof (induction bs)
  case (Cons b bs)
  then show ?case by (cases b) (auto simp: insert_commute)
qed simp

lemma count_second_distinct: "distinct (map fst bs) \<Longrightarrow> distinct (map fst (count_second t c bs))"
proof (induction bs)
  case (Cons b bs)
  then show ?case using count_second_keys [of t c bs] by (cases b) auto
qed simp

lemma fold_add_start:
  "fold (\<lambda>(s, c) n. if P s then add_counts n c else n) bs a =
     add_counts a (fold (\<lambda>(s, c) n. if P s then add_counts n c else n) bs no_counts)"
proof (induction bs arbitrary: a)
  case (Cons b bs)
  obtain s c where b: "b = (s, c)" by force
  show ?case
    using Cons [of "add_counts a c"] Cons [of c] Cons [of a] by (auto simp: b add_counts_assoc)
qed simp

lemma sum_buckets_Cons: "sum_buckets P ((s, c) # bs) = (if P s then add_counts c (sum_buckets P bs) else sum_buckets P bs)"
  unfolding sum_buckets_def using fold_add_start [of P bs c] by simp

lemma sum_buckets_cong: "(\<And>s. s \<in> fst ` set bs \<Longrightarrow> P s = Q s) \<Longrightarrow> sum_buckets P bs = sum_buckets Q bs"
proof (induction bs)
  case (Cons b bs)
  then show ?case by (cases b) (simp add: sum_buckets_Cons)
qed (simp add: sum_buckets_def)

lemma sum_buckets_none: "(\<And>s. s \<in> fst ` set bs \<Longrightarrow> \<not> P s) \<Longrightarrow> sum_buckets P bs = no_counts"
  by (induction bs) (auto simp: sum_buckets_Cons sum_buckets_def)

lemma sum_buckets_count:
  "distinct (map fst bs) \<Longrightarrow> sum_buckets P (count_second t c bs) =
     (if P t then add_counts (sum_buckets P bs) c else sum_buckets P bs)"
proof (induction bs)
  case Nil
  then show ?case by (simp add: sum_buckets_Cons) (simp add: sum_buckets_def)
next
  case (Cons b bs)
  obtain s n where b: "b = (s, n)" by force
  show ?case using Cons by (auto simp: b sum_buckets_Cons add_counts_ac)
qed

lemma sum_buckets_filter: "sum_buckets P (filter (\<lambda>(s, _). Q s) bs) = sum_buckets (\<lambda>s. P s \<and> Q s) bs"
proof (induction bs)
  case (Cons b bs)
  then show ?case by (cases b) (simp add: sum_buckets_Cons)
qed (simp add: sum_buckets_def)

lemma bucket_filter: "Q t \<Longrightarrow> bucket t (filter (\<lambda>(s, _). Q s) bs) = bucket t bs"
  by (induction bs) (auto simp: bucket_def)

text \<open>The buckets of a log whose requests came in the order of their times.\<close>

definition in_order :: "log_entry list \<Rightarrow> bool" where
  "in_order es \<longleftrightarrow> sorted (map ts es)"

lemma rows_in_order_snoc: "in_order (es @ [e]) \<Longrightarrow> in_order es \<and> (\<forall>d \<in> set es. ts d \<le> ts e)"
  by (simp add: in_order_def sorted_append)

definition buckets_match :: "log_entry list \<Rightarrow> (int \<times> second_counts) list \<Rightarrow> bool" where
  "buckets_match es bs \<longleftrightarrow>
     distinct (map fst bs) \<and> fst ` set bs \<subseteq> ts ` set es \<and>
     (es \<noteq> [] \<longrightarrow> (\<forall>s > ts (last es) - 60. bucket s bs = in_second s es)) \<and>
     (es \<noteq> [] \<longrightarrow> (\<forall>s \<in> fst ` set bs. s > ts (last es) - 60))"

lemma buckets_right: "in_order es \<Longrightarrow> buckets_match es (per_second (record_all es))"
proof (induction es rule: rev_induct)
  case Nil
  then show ?case by (simp add: record_all_empty request_log_new_def buckets_match_def)
next
  case (snoc e es)
  let ?bs = "per_second (record_all es)"
  let ?kept = "filter (\<lambda>(s, _). s > ts e - 60) ?bs"
  have match: "buckets_match es ?bs" and last: "\<forall>d \<in> set es. ts d \<le> ts e"
    using snoc rows_in_order_snoc by blast+
  have step: "per_second (record_all (es @ [e])) = count_second (ts e) (counts_of e) ?kept"
    by (simp add: record_all_snoc record_entry_def RATE_WINDOW_SECONDS_def)
  have d: "distinct (map fst ?kept)" using match by (simp add: buckets_match_def distinct_map_filter)
  have keys: "fst ` set ?kept \<subseteq> ts ` set es" using match unfolding buckets_match_def by fastforce
  have old: "bucket s ?kept = in_second s es" if "s > ts e - 60" for s
  proof (cases "es = []")
    case True
    then show ?thesis
      by (simp add: record_all_empty request_log_new_def bucket_def in_second_def)
  next
    case False
    then have "ts (last es) \<le> ts e" using last by simp
    then show ?thesis using False match that bucket_filter [of "\<lambda>s. s > ts e - 60" s ?bs]
      by (simp add: buckets_match_def)
  qed
  show ?case
    unfolding buckets_match_def step
    using d keys old count_second_keys [of "ts e" "counts_of e" ?kept]
    by (auto simp: count_second_distinct count_second_bucket in_second_def plus_counts_snoc)
qed

definition requests_in :: "(int \<Rightarrow> bool) \<Rightarrow> log_entry list \<Rightarrow> second_counts" where
  "requests_in P es = plus_counts (filter (\<lambda>e. P (ts e)) es)"

lemma sums_right:
  "in_order es \<Longrightarrow> (\<And>s. P s \<Longrightarrow> es \<noteq> [] \<Longrightarrow> s > ts (last es) - 60) \<Longrightarrow>
    sum_buckets P (per_second (record_all es)) = requests_in P es"
proof (induction es rule: rev_induct)
  case Nil
  then show ?case by (simp add: record_all_empty request_log_new_def sum_buckets_def requests_in_def)
next
  case (snoc e es)
  let ?bs = "per_second (record_all es)"
  let ?kept = "filter (\<lambda>(s, _). s > ts e - 60) ?bs"
  have order: "in_order es" and last: "\<forall>d \<in> set es. ts d \<le> ts e"
    using snoc rows_in_order_snoc by blast+
  have P: "P s \<Longrightarrow> s > ts e - 60" for s using snoc.prems(2) by simp
  have IH: "sum_buckets P ?bs = requests_in P es"
  proof (rule snoc.IH [OF order])
    fix s assume "P s" "es \<noteq> []"
    then have "ts (last es) \<le> ts e" "s > ts e - 60" using P last by simp_all
    then show "s > ts (last es) - 60" by simp
  qed
  have "(\<lambda>s. P s \<and> s > ts e - 60) = P" using P by auto
  then have "sum_buckets P ?kept = sum_buckets P ?bs"
    using sum_buckets_filter [of P "\<lambda>s. s > ts e - 60" ?bs] by simp
  moreover have "distinct (map fst ?kept)"
    using buckets_right [OF order] by (simp add: buckets_match_def distinct_map_filter)
  ultimately show ?case
    using IH by (simp add: record_all_snoc record_entry_def RATE_WINDOW_SECONDS_def sum_buckets_count
        requests_in_def plus_counts_snoc)
qed

section \<open>The scan\<close>

lemma scan_sums:
  "window (fold (scan_bucket now) bs r) =
     add_counts (window r) (sum_buckets (\<lambda>s. now - 60 < s \<and> s \<le> now) bs)"
  "recent (fold (scan_bucket now) bs r) =
     add_counts (recent r) (sum_buckets (\<lambda>s. now - 5 \<le> s \<and> s < now) bs)"
proof (induction bs arbitrary: r)
  case Nil
  case 1 show ?case by (simp add: sum_buckets_def)
  case 2 show ?case by (simp add: sum_buckets_def)
next
  case (Cons b bs)
  obtain s c where b: "b = (s, c)" by force
  have step: "window (scan_bucket now (s, c) r) = (if now - 60 < s \<and> s \<le> now then add_counts (window r) c else window r)"
    "recent (scan_bucket now (s, c) r) = (if now - 5 \<le> s \<and> s < now then add_counts (recent r) c else recent r)" for r
    by (simp_all add: scan_bucket_def Let_def RATE_WINDOW_SECONDS_def RATE_NOW_SECONDS_def)
  case 1 show ?case using Cons(1) [of "scan_bucket now b r"] by (simp add: b sum_buckets_Cons step add_counts_ac)
  case 2 show ?case using Cons(2) [of "scan_bucket now b r"] by (simp add: b sum_buckets_Cons step add_counts_ac)
qed

definition triple :: "second_counts \<Rightarrow> nat \<times> nat \<times> nat" where
  "triple c = (playback c, search c, catalog c)"

lemma scan_slot_step:
  "length (slots (scan_bucket now (s, c) r)) = length (slots r)"
  "i < 60 \<Longrightarrow> length (slots r) = 60 \<Longrightarrow>
    slots (scan_bucket now (s, c) r) ! i = (if s = now - 60 + int i then triple c else slots r ! i)"
  by (auto simp: scan_bucket_def Let_def RATE_WINDOW_SECONDS_def triple_def nth_list_update nat_eq_iff)

lemma scan_slots:
  "distinct (map fst bs) \<Longrightarrow> i < 60 \<Longrightarrow> length (slots r) = 60 \<Longrightarrow>
    slots (fold (scan_bucket now) bs r) ! i =
      (case map_of bs (now - 60 + int i) of Some c \<Rightarrow> triple c | None \<Rightarrow> slots r ! i)"
proof (induction bs arbitrary: r)
  case (Cons b bs)
  obtain s c where b: "b = (s, c)" by force
  have "map_of bs s = None" using Cons.prems(1) b by (auto simp: map_of_eq_None_iff)
  then show ?case
    using Cons.IH [of "scan_bucket now b r"] Cons.prems scan_slot_step [where now = now and s = s and c = c and r = r]
    by (auto simp: b split: option.split)
qed simp

lemma scan_peak_step:
  "peak_upstream (scan_bucket now (s, c) r) =
     (if now - 60 \<le> s \<and> s < now then max (peak_upstream r) (upstream c) else peak_upstream r)"
  by (simp add: scan_bucket_def Let_def RATE_WINDOW_SECONDS_def)

lemma scan_peak:
  "peak_upstream r \<le> peak_upstream (fold (scan_bucket now) bs r) \<and>
   (\<forall>(s, c) \<in> set bs. now - 60 \<le> s \<and> s < now \<longrightarrow> upstream c \<le> peak_upstream (fold (scan_bucket now) bs r)) \<and>
   (peak_upstream (fold (scan_bucket now) bs r) = peak_upstream r \<or>
    (\<exists>(s, c) \<in> set bs. now - 60 \<le> s \<and> s < now \<and> upstream c = peak_upstream (fold (scan_bucket now) bs r)))"
proof (induction bs arbitrary: r)
  case (Cons b bs)
  obtain s c where b: "b = (s, c)" by force
  show ?case
    using Cons [of "scan_bucket now b r"] by (auto simp: b scan_peak_step max_def split: if_splits)
qed simp

text \<open>
  C20. The rates of the overview are what they say: for a log filled in the order of time, the averages are the requests
  of the last 60 seconds and of the five completed seconds before now, divided by 60 and 5, for every
  class of traffic, and the number of throttled answers is exact, whatever has been forgotten.
\<close>

theorem rates_are_true_counts:
  assumes "in_order es" "\<forall>e \<in> set es. ts e \<le> now"
  defines "r \<equiv> request_rates_at now (record_all es)"
  defines "minute \<equiv> requests_in (\<lambda>t. now - 60 < t \<and> t \<le> now) es"
  defines "lately \<equiv> requests_in (\<lambda>t. now - 5 \<le> t \<and> t < now) es"
  shows "(avg_60s (all_rate r), now_rate (all_rate r)) = (upstream minute / 60, upstream lately / 5) \<and>
    (avg_60s (playback_rate r), now_rate (playback_rate r)) = (playback minute / 60, playback lately / 5) \<and>
    (avg_60s (search_rate r), now_rate (search_rate r)) = (search minute / 60, search lately / 5) \<and>
    (avg_60s (catalog_rate r), now_rate (catalog_rate r)) = (catalog minute / 60, catalog lately / 5) \<and>
    (avg_60s (cached_rate r), now_rate (cached_rate r)) = (cached minute / 60, cached lately / 5) \<and>
    throttled_60s r = throttled minute"
proof -
  let ?bs = "per_second (record_all es)"
  have last: "ts (last es) \<le> now" if "es \<noteq> []" using assms(2) that by simp
  have "sum_buckets (\<lambda>s. now - 60 < s \<and> s \<le> now) ?bs = minute"
    "sum_buckets (\<lambda>s. now - 5 \<le> s \<and> s < now) ?bs = lately"
    unfolding minute_def lately_def using last by (auto intro!: sums_right [OF assms(1)])
  then have "window (fold (scan_bucket now) ?bs scan_start) = minute"
    "recent (fold (scan_bucket now) ?bs scan_start) = lately"
    by (simp_all add: scan_sums) (simp_all add: scan_start_def)
  then show ?thesis
    by (simp add: r_def request_rates_at_def Let_def rate_def RATE_NOW_SECONDS_def RATE_WINDOW_SECONDS_def)
qed

lemma buckets_distinct: "in_order es \<Longrightarrow> distinct (map fst (per_second (record_all es)))"
  using buckets_right by (simp add: buckets_match_def)

text \<open>
  C21. The chart and the peak are right for every second they can be right for: slot \<open>i\<close> of the history holds the
  requests sent to Tidal in second \<open>now - 60 + i\<close>, for all slots but the first, and for the first too when no
  request has completed in the current second; no such second was busier than the peak.
\<close>

theorem chart_shows_each_second:
  assumes "in_order es" "\<forall>e \<in> set es. ts e \<le> now" "i < 60" "0 < i \<or> (\<forall>e \<in> set es. ts e < now)"
  shows "history (request_rates_at now (record_all es)) ! i = triple (in_second (now - 60 + int i) es) \<and>
    upstream (in_second (now - 60 + int i) es) \<le> peak_60s (all_rate (request_rates_at now (record_all es)))"
proof -
  let ?bs = "per_second (record_all es)"
  let ?s = "now - 60 + int i"
  have match: "bucket ?s ?bs = in_second ?s es"
  proof (cases "es = []")
    case True
    then show ?thesis by (simp add: record_all_empty request_log_new_def bucket_def in_second_def)
  next
    case False
    then have "ts (last es) \<le> now" "0 < i \<or> ts (last es) < now" using assms(2, 4) by auto
    then have "?s > ts (last es) - 60" by auto
    then show ?thesis using buckets_right [OF assms(1)] False by (simp add: buckets_match_def)
  qed
  have "slots (fold (scan_bucket now) ?bs scan_start) ! i = triple (in_second ?s es)"
  proof (cases "map_of ?bs ?s")
    case None
    then have "in_second ?s es = no_counts" using match by (simp add: bucket_def)
    then have "triple (in_second ?s es) = (0, 0, 0)" by (simp add: triple_def no_counts_def)
    then show ?thesis
      using scan_slots [OF buckets_distinct [OF assms(1)] assms(3), of scan_start now] None assms(3)
      by (simp add: scan_start_def RATE_WINDOW_SECONDS_def)
  next
    case (Some c)
    then have "c = in_second ?s es" using match by (simp add: bucket_def)
    then show ?thesis
      using scan_slots [OF buckets_distinct [OF assms(1)] assms(3), of scan_start now] Some
      by (simp add: scan_start_def RATE_WINDOW_SECONDS_def)
  qed
  moreover have "upstream (in_second ?s es) \<le> peak_upstream (fold (scan_bucket now) ?bs scan_start)"
  proof (cases "map_of ?bs ?s")
    case None
    then have "in_second ?s es = no_counts" using match by (simp add: bucket_def)
    then show ?thesis by (simp add: upstream_def no_counts_def)
  next
    case (Some c)
    then have "(?s, c) \<in> set ?bs" by (rule map_of_SomeD)
    moreover have "now - 60 \<le> ?s" "?s < now" using assms(3) by auto
    ultimately have "upstream c \<le> peak_upstream (fold (scan_bucket now) ?bs scan_start)"
      using scan_peak [of scan_start now ?bs] by blast
    then show ?thesis using Some match by (simp add: bucket_def)
  qed
  ultimately show ?thesis by (simp add: request_rates_at_def Let_def rate_def)
qed

text \<open>
  The first slot is empty as soon as one request has completed in the current second, whatever was sent 60
  seconds ago: recording forgets that second while the chart still shows it.
\<close>

lemma oldest_second_is_lost:
  assumes "in_order (es @ [e])"
  shows "history (request_rates_at (ts e) (record_all (es @ [e]))) ! 0 = (0, 0, 0)"
proof -
  let ?bs = "per_second (record_all (es @ [e]))"
  have "buckets_match (es @ [e]) ?bs" by (rule buckets_right [OF assms])
  then have "ts e - 60 \<notin> fst ` set ?bs" by (auto simp: buckets_match_def)
  then have "map_of ?bs (ts e - 60) = None" by (simp add: map_of_eq_None_iff)
  then show ?thesis
    using scan_slots [OF buckets_distinct [OF assms], of 0 scan_start "ts e"]
    by (simp add: request_rates_at_def Let_def scan_start_def RATE_WINDOW_SECONDS_def)
qed

section \<open>The middleware\<close>

lemma take_error_detail_same:
  assumes "exact_size r = None \<or> st r < 400 \<or> body r \<noteq> None" shows "fst (take_error_detail parse r) = r"
  using assms by (auto simp: take_error_detail_def split: option.split)

text \<open>
  A client the scanner guard refuses costs nothing: its request gets the 403 with the remaining time whatever the
  handlers would have answered, no account is used for it, and the record of it counts neither as traffic
  to Tidal nor as a failure of the service.
\<close>

lemma refused_clients_cost_nothing:
  assumes "scanner_check (scan_decode w) ip p start g = (Some retry_after, g1)"
  shows "\<exists>e. (\<forall>handler. log_requests w m p query ip start wall took handler g l =
      (refusal retry_after, g1, if should_log_path p then record_entry e l else l)) \<and>
    counts_of e = no_counts \<and> \<not> is_api_error e \<and> picked e = []"
proof -
  obtain err where err: "take_error_detail (parse_body w) (refusal retry_after) = (refusal retry_after, err)"
    using take_error_detail_same [of "refusal retry_after" "parse_body w"]
    by (metis (no_types) refusal_def option.distinct(1) prod.collapse logged_response.select_convs(5))
  let ?e = "\<lparr>ts = wall, verb = m, path = normalize_path p, detail = extract_detail (query_decode w) p query,
      code = 403, latency_ms = took, client = print_ip w ip, cache_verdict = [], picked = [],
      rejected = True, error_detail = err\<rparr>"
  have "log_requests w m p query ip start wall took handler g l =
      (refusal retry_after, g1, if should_log_path p then record_entry ?e l else l)" for handler
    using assms err by (simp add: log_requests_def refusal_def)
  moreover have "counts_of ?e = no_counts" "\<not> is_api_error ?e" "picked ?e = []"
    by (simp_all add: counts_of_def traffic_of_def no_counts_def is_api_error_def)
  ultimately show ?thesis by blast
qed

text \<open>
  Logging does not change an answer: a client that is not refused gets exactly the response of the handlers (the
  one exception is a small error response whose body cannot be read back), and the request is recorded
  with that status, unless it is of the panel or the health check.
\<close>

lemma logging_changes_no_answer:
  assumes "scanner_check (scan_decode w) ip p start g = (None, g1)" "handler () = (resp, accounts)"
    "exact_size resp = None \<or> st resp < 400 \<or> body resp \<noteq> None"
    "log_requests w m p query ip start wall took handler g l = (answer, g2, l2)"
  shows "answer = resp \<and> g2 = g1 \<and>
    (if should_log_path p
     then \<exists>e. l2 = record_entry e l \<and> code e = st resp \<and> picked e = accounts \<and> rejected e = refused_mark resp
     else l2 = l)"
  using assms take_error_detail_same [OF assms(3), of "parse_body w"]
  by (auto simp: log_requests_def Let_def split: if_splits prod.splits)

section \<open>The summary\<close>

text \<open>
  The summary counts each failed request once: the errors are the errors of clients and those of Tidal or the
  service, and the list of recent errors holds at most 50 entries of the log, newest first, every one a
  failure of the service itself.
\<close>

lemma summary_counts_errors_once:
  "sum_errors (log_summary_of n l) = sum_user_errors (log_summary_of n l) + sum_upstream_errors (log_summary_of n l) \<and>
   sum_errors (log_summary_of n l) = snd (outcome_counts l) \<and>
   length (sum_recent_errors (log_summary_of n l)) \<le> 50 \<and>
   (\<exists>older. rev (sum_recent_errors (log_summary_of n l)) = drop older (filter is_api_error (entries l)))"
proof -
  let ?failed = "filter (\<lambda>e. code e \<ge> 400) (entries l)"
  have "length (filter (\<lambda>e. \<not> upstream_failure (code e)) ?failed) + length (filter (\<lambda>e. upstream_failure (code e)) ?failed) =
      length ?failed"
    using sum_length_filter_compl [of "\<lambda>e. upstream_failure (code e)" ?failed] by simp
  moreover have "rev (take k (filter is_api_error (rev es))) = drop (length (filter is_api_error es) - k) (filter is_api_error es)"
    for k es by (simp add: rev_filter rev_take flip: rev_filter)
  ultimately show ?thesis
    by (auto simp: log_summary_of_def Let_def outcome_counts_def RECENT_ERRORS_def simp del: filter_filter)
qed

text \<open>
  The percentile of the summary is not the one of the overview: with a number of requests divisible by
  twenty the summary's p95 is one place too far, so the two disagree on the same log.
\<close>

lemma percentiles_disagree:
  assumes "length vs = 20 * k" "0 < k"
  shows "floor_percentile vs (95 / 100) = vs ! (19 * k) \<and> percentile vs (95 / 100) = Some (vs ! (19 * k - 1))"
proof -
  have "95 / 100 * real (length vs) = real (19 * k)" "real (length vs) * (95 / 100) = real (19 * k)"
    using assms by simp_all
  then have "nat \<lfloor>95 / 100 * real (length vs)\<rfloor> = 19 * k" "nat \<lceil>real (length vs) * (95 / 100)\<rceil> = 19 * k"
    by (simp_all only: floor_of_nat ceiling_of_nat nat_int)
  then show ?thesis
    using assms by (auto simp: floor_percentile_def percentile_def min_def max_def)
qed

text \<open>
  A path of two segments is recorded as it is, so an identifier in the second one is not collapsed.
\<close>

lemma identifiers_are_not_collapsed:
  "normalize_path ''/trackManifests/192157851'' = ''/trackManifests/192157851''"
  by code_simp

section \<open>The properties at work\<close>

definition plain_entry :: "int \<Rightarrow> log_entry" where
  "plain_entry t = \<lparr>ts = t, verb = ''GET'', path = ''/search'', detail = [], code = 200, latency_ms = 5,
     client = ''1.2.3.4'', cache_verdict = [], picked = [\<lparr>account_id = ''a'', account_label = ''A'', account_role = ''catalog''\<rparr>],
     rejected = False, error_detail = []\<rparr>"

theorem rates_are_true_counts_witness:
  "avg_60s (search_rate (request_rates_at 100 (record_all [plain_entry 90, plain_entry 99]))) = 2 / 60"
proof -
  have o: "in_order [plain_entry 90, plain_entry 99]" "\<forall>e \<in> set [plain_entry 90, plain_entry 99]. ts e \<le> 100"
    by (simp_all add: in_order_def plain_entry_def)
  have "search (requests_in (\<lambda>t. 100 - 60 < t \<and> t \<le> 100) [plain_entry 90, plain_entry 99]) = 2"
    by code_simp
  then show ?thesis using rates_are_true_counts [OF o] by simp
qed

theorem chart_shows_each_second_witness:
  "history (request_rates_at 100 (record_all [plain_entry 90, plain_entry 99])) ! 59 = (0, 1, 0)"
proof -
  have o: "in_order [plain_entry 90, plain_entry 99]" "\<forall>e \<in> set [plain_entry 90, plain_entry 99]. ts e \<le> 100"
    by (simp_all add: in_order_def plain_entry_def)
  have "triple (in_second 99 [plain_entry 90, plain_entry 99]) = (0, 1, 0)"
    by code_simp
  then show ?thesis using chart_shows_each_second [OF o, of 59] by simp
qed

definition plain_world :: request_world where
  "plain_world = \<lparr>scan_decode = \<lambda>s. s, query_decode = \<lambda>q. [], parse_body = \<lambda>b. None, print_ip = \<lambda>i. ''ip''\<rparr>"

definition fine :: logged_response where
  "fine = \<lparr>st = 200, x_cache = None, refused_mark = False, exact_size = Some 2, body = Some ''{}''\<rparr>"

theorem logging_changes_no_answer_witness:
  "fst (log_requests plain_world ''GET'' ''/search'' None (V4 1) 0 100 5 (\<lambda>_. (fine, [])) (scanner_new 0) request_log_new) = fine"
proof -
  have "\<not> is_scanner_path (\<lambda>s. s) ''/search''" by code_simp
  then have "fst (scanner_check (scan_decode plain_world) (V4 1) ''/search'' 0 (scanner_new 0)) = None"
    by (simp add: scanner_check_def scanner_new_def guard_new_def guard_step_def guard_cleanup_def active_lock_def
        hm_get_def plain_world_def scanner_cfg_def ns_per_sec_def)
  then obtain g1 where g: "scanner_check (scan_decode plain_world) (V4 1) ''/search'' 0 (scanner_new 0) = (None, g1)"
    by (metis prod.collapse)
  obtain a g2 l2 where r: "log_requests plain_world ''GET'' ''/search'' None (V4 1) 0 100 5 (\<lambda>_. (fine, [])) (scanner_new 0) request_log_new = (a, g2, l2)"
    by (metis prod.exhaust)
  have "a = fine" using logging_changes_no_answer [OF g refl _ r] by (simp add: fine_def)
  then show ?thesis using r by simp
qed

theorem refused_clients_cost_nothing_witness:
  "st (fst (log_requests plain_world ''GET'' ''/search'' None (V4 1) 4 100 5 (\<lambda>_. (fine, [])) banned_state request_log_new)) = 403"
proof -
  have "\<exists>n. fst (scanner_check (scan_decode plain_world) (V4 1) ''/search'' 4 banned_state) = Some n"
    by (simp add: scanner_check_def banned_state_def guard_step_def guard_cleanup_def active_lock_def
        hm_get_def plain_world_def scanner_cfg_def ns_per_sec_def)
  then obtain n g1 where g: "scanner_check (scan_decode plain_world) (V4 1) ''/search'' 4 banned_state = (Some n, g1)"
    by (metis prod.collapse)
  from refused_clients_cost_nothing [OF g]
  have "fst (log_requests plain_world ''GET'' ''/search'' None (V4 1) 4 100 5 (\<lambda>_. (fine, [])) banned_state request_log_new) = refusal n"
    by (metis fst_conv)
  then show ?thesis by (simp add: refusal_def)
qed

end
