(* ===== verification/Track.thy ===== *)
theory Track
  imports Settings Playback Accounts
begin

text \<open>
  \<open>src/routes/track.rs\<close>: the track, manifest and DASH routes. A quality chooses an operation of the
  playback queue, a preference chooses the formats asked for, and an answer that names another
  track than the requested one is served only when both are releases of one recording.

  \<open>track_world\<close> holds what the routes call: the playback and the metadata requests of the
  Tidal client (\<open>TidalClient\<close> models how they choose accounts; here they are what they return for a
  URL and its parameters) and the crates \<open>base64\<close>, \<open>serde_json\<close>, \<open>url\<close> and \<open>form_urlencoded\<close>.
  The cache of verdicts is the crate \<open>moka\<close>: a map from which entries may vanish at any time.
\<close>

section \<open>Reading an answer\<close>

text \<open>\<open>Value::pointer\<close>, with its tokens already split; an array is indexed by a number without
  leading zeros or sign.\<close>

fun step_into :: "json \<Rightarrow> string \<Rightarrow> json option" where
  "step_into (JObj kvs) t = map_of kvs t"
| "step_into (JArr vs) t =
     (if starts_with ''+'' t \<or> starts_with ''0'' t \<and> length t \<noteq> 1 then None
      else (case parse_u64 t of Some i \<Rightarrow> (if i < length vs then Some (vs ! i) else None) | None \<Rightarrow> None))"
| "step_into v t = None"

fun pointer :: "string list \<Rightarrow> json \<Rightarrow> json option" where
  "pointer [] v = Some v"
| "pointer (t # ts) v = Option.bind (step_into v t) (pointer ts)"

definition pointer_str :: "string list \<Rightarrow> json \<Rightarrow> string option" where
  "pointer_str ts v = Option.bind (pointer ts v) as_str"

fun as_object :: "json \<Rightarrow> (string \<times> json) list option" where
  "as_object (JObj kvs) = Some kvs"
| "as_object v = None"

text \<open>Assignment to a field of an object, and to a field below one; anything else is left alone.\<close>

fun json_set :: "string \<Rightarrow> json \<Rightarrow> json \<Rightarrow> json" where
  "json_set k x (JObj kvs) = JObj (AList.update k x kvs)"
| "json_set k x v = v"

fun json_alter :: "string \<Rightarrow> (json \<Rightarrow> json) \<Rightarrow> json \<Rightarrow> json" where
  "json_alter k f (JObj kvs) =
     (case map_of kvs k of Some x \<Rightarrow> JObj (AList.update k (f x) kvs) | None \<Rightarrow> JObj kvs)"
| "json_alter k f v = v"

section \<open>Qualities\<close>

datatype track_format = High | V2 string

definition track_format :: "string \<Rightarrow> track_format option" where
  "track_format quality =
     (let q = map to_ascii_upper (trim quality)
      in if q = ''HIGH'' then Some High
         else if q \<in> {''LOW'', ''HEAACV1''} then Some (V2 ''HEAACV1'')
         else if q = ''AACLC'' then Some (V2 ''AACLC'')
         else if q \<in> {''LOSSLESS'', ''FLAC''} then Some (V2 ''FLAC'')
         else if q \<in> {''HI_RES_LOSSLESS'', ''FLAC_HIRES''} then Some (V2 ''FLAC_HIRES'')
         else if q \<in> {''DOLBY_ATMOS'', ''ATMOS'', ''EAC3_JOC''} then Some (V2 ''EAC3_JOC'')
         else None)"

definition v2_quality :: "string \<Rightarrow> string list \<Rightarrow> string \<Rightarrow> json" where
  "v2_quality q aliases fmt =
     JObj ([(''quality'', JStr q)] @ (if aliases = [] then [] else [(''aliases'', JArr (map JStr aliases))])
           @ [(''api'', JStr ''v2''), (''format'', JStr fmt)])"

definition unsupported_quality_info :: "int \<Rightarrow> string \<Rightarrow> json" where
  "unsupported_quality_info track quality = JObj
     [(''status'', JStr ''unsupported_quality''),
      (''trackId'', JInt track),
      (''requestedQuality'', JStr quality),
      (''defaultQuality'', JStr ''HIGH''),
      (''supportedQualities'', JArr
         [JObj [(''quality'', JStr ''HIGH''), (''api'', JStr ''v1''), (''format'', JStr ''AAC''),
                (''bitrate'', JStr ''up to 320 kbps'')],
          v2_quality ''LOW'' [''HEAACV1''] ''HEAACV1'',
          v2_quality ''AACLC'' [] ''AACLC'',
          v2_quality ''LOSSLESS'' [''FLAC''] ''FLAC'',
          v2_quality ''HI_RES_LOSSLESS'' [''FLAC_HIRES''] ''FLAC_HIRES'',
          v2_quality ''DOLBY_ATMOS'' [''ATMOS'', ''EAC3_JOC''] ''EAC3_JOC''])]"

definition default_manifest_params :: manifest_params where
  "default_manifest_params =
     \<lparr>adaptive = ''true'', manifestType = ''MPEG_DASH'', uriScheme = ''HTTPS'', usage = ''PLAYBACK'',
      countryCode = None, atmos = None\<rparr>"

definition host_or_localhost :: "string option \<Rightarrow> string" where
  "host_or_localhost host = unwrap_or host ''localhost''"

text \<open>What the route does with a request: an answer at once, or an operation for the queue.\<close>

definition dispatch_track :: "int \<Rightarrow> string \<Rightarrow> bool \<Rightarrow> string option \<Rightarrow> response + playback_op" where
  "dispatch_track track quality immersive host =
     (case track_format quality of
        None \<Rightarrow> Inl (job_result_response (Json (unsupported_quality_info track quality)))
      | Some High \<Rightarrow> Inr (Track track ''HIGH'' immersive)
      | Some (V2 fmt) \<Rightarrow>
          Inr (Manifest (show_int track) default_manifest_params (Some (''formats='' @ fmt))
                 (host_or_localhost host)))"

text \<open>\<open>get_track_manifests\<close> and \<open>get_track_manifests_query\<close>, which differ in where the id comes from.\<close>

definition get_track_manifests ::
    "string \<Rightarrow> manifest_params \<Rightarrow> string option \<Rightarrow> string option \<Rightarrow> playback_op" where
  "get_track_manifests track params raw_query host = Manifest track params raw_query (host_or_localhost host)"

section \<open>Formats\<close>

definition default_formats :: "string list" where
  "default_formats = [''HEAACV1'', ''AACLC'', ''FLAC'', ''FLAC_HIRES'', ''EAC3_JOC'']"

definition atmos_first :: "string list \<Rightarrow> string list" where
  "atmos_first formats = ''EAC3_JOC'' # filter (\<lambda>f. f \<noteq> ''EAC3_JOC'') formats"

text \<open>\<open>query\<close> is \<open>form_urlencoded::parse\<close>.\<close>

definition explicit_formats :: "(string \<Rightarrow> (string \<times> string) list) \<Rightarrow> string option \<Rightarrow> string list option" where
  "explicit_formats query raw =
     (case raw of
        None \<Rightarrow> None
      | Some q \<Rightarrow>
          (let out = concat (map (\<lambda>(k, v). if k = ''formats''
                                        then filter (\<lambda>p. p \<noteq> []) (map trim (split_on (CHR '','') v))
                                        else []) (query q))
           in if out = [] then None else Some out))"

text \<open>Lower case of ASCII letters: no other character has a lower case among the words compared.\<close>

definition atmos_word :: "string option \<Rightarrow> string option" where
  "atmos_word a =
     (case a of Some s \<Rightarrow> (let v = map to_ascii_lower (trim s) in if v = [] then None else Some v) | None \<Rightarrow> None)"

definition resolve_formats ::
    "(string \<Rightarrow> (string \<times> string) list) \<Rightarrow> string option \<Rightarrow> string option \<Rightarrow> bool \<Rightarrow> string list" where
  "resolve_formats query raw a default_prefer =
     (let explicit = explicit_formats query raw; mode = atmos_word a
      in if mode = Some ''only'' then [''EAC3_JOC'']
         else if mode \<in> {Some ''true'', Some ''1'', Some ''prefer''}
              then atmos_first (unwrap_or explicit default_formats)
         else if explicit \<noteq> None then unwrap_or explicit default_formats
         else if mode \<in> {Some ''false'', Some ''0'', Some ''off''}
              then filter (\<lambda>f. f \<noteq> ''EAC3_JOC'') default_formats
         else if default_prefer then atmos_first default_formats
         else default_formats)"

definition dash_formats :: "string option \<Rightarrow> bool \<Rightarrow> string" where
  "dash_formats a default_prefer =
     (let mode = atmos_word a
      in if mode = Some ''only'' then ''EAC3_JOC''
         else if mode \<in> {Some ''true'', Some ''1'', Some ''prefer''} then ''EAC3_JOC,FLAC_HIRES,FLAC,AACLC''
         else if mode \<in> {Some ''false'', Some ''0'', Some ''off''} then ''FLAC_HIRES,FLAC,AACLC''
         else if default_prefer then ''EAC3_JOC,FLAC_HIRES,FLAC,AACLC''
         else ''FLAC_HIRES,FLAC,EAC3_JOC,AACLC'')"

definition atmos_default_on :: "app_settings \<Rightarrow> bool" where
  "atmos_default_on s \<longleftrightarrow> atmos_mode s = ''prefer''"

definition high_default_on :: "app_settings \<Rightarrow> bool" where
  "high_default_on s \<longleftrightarrow> atmos_mode s = ''high''"

definition use_high_for_dash :: "string option \<Rightarrow> bool \<Rightarrow> bool" where
  "use_high_for_dash a high_default \<longleftrightarrow>
     high_default
     \<and> map_option (\<lambda>s. map to_ascii_lower (trim s)) a \<notin> {Some ''true'', Some ''1'', Some ''prefer'', Some ''only''}"

definition manifest_has_atmos :: "json \<Rightarrow> bool" where
  "manifest_has_atmos result =
     (let attrs = pointer [''data'', ''data'', ''attributes''] result;
          names = (\<lambda>k. unwrap_or (Option.bind (Option.bind attrs (jget k)) as_array) [])
      in (\<exists>f \<in> set (names ''formats''). as_str f = Some ''EAC3_JOC'')
         \<or> (\<exists>f \<in> set (names ''audioModes''). as_str f = Some ''DOLBY_ATMOS''))"

section \<open>The outside of the routes\<close>

record track_world =
  ask_api :: "string \<Rightarrow> (string \<times> string) list \<Rightarrow> app_error + json"
  ask_catalog :: "string \<Rightarrow> (string \<times> string) list \<Rightarrow> app_error + json"
  home_country :: string
  preferences :: app_settings
  decode64 :: "string \<Rightarrow> string option"
  json_from :: "string \<Rightarrow> json option"
  parse_url :: "string \<Rightarrow> (string \<times> string option) option"
  query_pairs :: "string \<Rightarrow> (string \<times> string) list"

type_synonym verdicts = "string \<Rightarrow> string option option"

section \<open>Recordings\<close>

definition SAME_RECORDING_SECONDS :: int where "SAME_RECORDING_SECONDS = 2"

record recording =
  isrc :: string
  seconds :: int

definition recording_of :: "json \<Rightarrow> recording option" where
  "recording_of track =
     (case Option.bind (jget ''isrc'' track) as_str of
        None \<Rightarrow> None
      | Some i \<Rightarrow>
          (let i = map to_ascii_upper (trim i)
           in case Option.bind (jget ''duration'' track) as_i64 of
                None \<Rightarrow> None
              | Some secs \<Rightarrow> if i \<noteq> [] then Some \<lparr>isrc = i, seconds = secs\<rparr> else None))"

definition NOT_EQUAL :: string where "NOT_EQUAL = [CHR 0xE2, CHR 0x89, CHR 0xA0]"

text \<open>Subtraction and \<open>abs\<close> of \<open>i64\<close>, which wrap in a release build.\<close>

definition abs_gap :: "int \<Rightarrow> int \<Rightarrow> int" where
  "abs_gap a b = signed_take_bit 63 \<bar>signed_take_bit 63 (a - b)\<bar>"

definition difference :: "recording \<Rightarrow> recording \<Rightarrow> string option" where
  "difference a b =
     (if isrc a \<noteq> isrc b then Some (''ISRC '' @ isrc a @ '' '' @ NOT_EQUAL @ '' '' @ isrc b)
      else if abs_gap (seconds a) (seconds b) > SAME_RECORDING_SECONDS
           then Some (''length '' @ show_int (seconds a) @ '' s '' @ NOT_EQUAL @ '' '' @ show_int (seconds b) @ '' s'')
      else None)"

definition recording :: "track_world \<Rightarrow> string \<Rightarrow> recording option" where
  "recording w track =
     (case ask_catalog w (''https://api.tidal.com/v1/tracks/'' @ track @ ''/'')
             [(''countryCode'', home_country w)] of
        Inl e \<Rightarrow> None
      | Inr v \<Rightarrow> recording_of v)"

definition NOT_COMPARED :: string where "NOT_COMPARED = ''could not compare ISRC and length''"

definition verdict_key :: "string \<Rightarrow> string \<Rightarrow> string" where
  "verdict_key requested seen = trim requested @ '':'' @ seen"

definition substitution_refusal ::
    "track_world \<Rightarrow> string \<Rightarrow> string \<Rightarrow> verdicts \<Rightarrow> string option \<times> verdicts" where
  "substitution_refusal w requested seen c =
     (case c (verdict_key requested seen) of
        Some verdict \<Rightarrow> (verdict, c)
      | None \<Rightarrow>
          (case (recording w (trim requested), recording w seen) of
             (Some wanted, Some got) \<Rightarrow>
               (let verdict = difference wanted got in (verdict, c(verdict_key requested seen \<mapsto> verdict)))
           | _ \<Rightarrow> (Some NOT_COMPARED, c)))"

section \<open>The track an answer names\<close>

fun json_track_id :: "json \<Rightarrow> string option" where
  "json_track_id (JInt i) = (if - (2 ^ 63) \<le> i \<and> i < 2 ^ 64 then Some (show_int i) else None)"
| "json_track_id (JStr s) = Some (trim s)"
| "json_track_id v = None"

definition named_track :: "json \<Rightarrow> string option" where
  "named_track result =
     (case Option.bind (pointer [''data'', ''trackId''] result) json_track_id of
        Some t \<Rightarrow> Some t
      | None \<Rightarrow> Option.bind (pointer [''data'', ''data'', ''trackId''] result) json_track_id)"

fun after_marker :: "string \<Rightarrow> string \<Rightarrow> string option" where
  "after_marker m s =
     (if starts_with m s then Some (drop (length m) s)
      else (case s of [] \<Rightarrow> None | _ # cs \<Rightarrow> after_marker m cs))"

function pad_base64 :: "string \<Rightarrow> string" where
  "pad_base64 s = (if length s mod 4 \<noteq> 0 then pad_base64 (s @ ''='') else s)"
  by auto
termination
  by (relation "measure (\<lambda>s. (4 - length s mod 4) mod 4)") (auto simp: mod_Suc)

declare pad_base64.simps [simp del]

text \<open>The first run of at least five digits. \<open>from_utf8_lossy\<close> keeps ASCII bytes and turns any
  others into characters that are no digits, so the bytes are scanned as they are.\<close>

fun digit_run :: "string \<Rightarrow> string \<Rightarrow> string option" where
  "digit_run run [] = (if 5 \<le> length run then Some run else None)"
| "digit_run run (c # cs) =
     (if is_ascii_digit c then digit_run (run @ [c]) cs
      else if 5 \<le> length run then Some run
      else digit_run [] cs)"

definition from_url_alphabet :: "char \<Rightarrow> char" where
  "from_url_alphabet c = (if c = CHR ''-'' then CHR ''+'' else if c = CHR ''_'' then CHR ''/'' else c)"

definition manifest_code :: "string \<Rightarrow> string option" where
  "manifest_code url =
     map_option
       (\<lambda>rest. pad_base64 (map from_url_alphabet (takeWhile (\<lambda>c. c \<notin> set ''.?/&'') rest)))
       (after_marker ''/manifests/'' url)"

definition manifest_track_id :: "(string \<Rightarrow> string option) \<Rightarrow> string \<Rightarrow> string option" where
  "manifest_track_id decode url = Option.bind (Option.bind (manifest_code url) decode) (digit_run [])"

definition manifest_matches_track :: "(string \<Rightarrow> string option) \<Rightarrow> string \<Rightarrow> string \<Rightarrow> bool" where
  "manifest_matches_track decode uri track =
     (case manifest_track_id decode uri of None \<Rightarrow> True | Some mid \<Rightarrow> mid = trim track)"

section \<open>The fetches\<close>

definition CONFLICT :: nat where "CONFLICT = 409"

definition v1_playback_url :: "app_settings \<Rightarrow> int \<Rightarrow> string" where
  "v1_playback_url s track =
     ''https://api.tidal.com/v1/tracks/'' @ show_int track @ ''/'' @ endpoint_str (v1_endpoint s)"

definition refuse_track :: "string \<Rightarrow> string \<Rightarrow> string \<Rightarrow> app_error" where
  "refuse_track seen requested reason =
     UpstreamError CONFLICT
       (''Tidal returned audio for track '' @ seen @ '' for requested '' @ requested
        @ '': refusing to serve a different track ('' @ reason @ '')'')"

definition fetch_track_playback ::
    "track_world \<Rightarrow> int \<Rightarrow> string \<Rightarrow> bool \<Rightarrow> verdicts \<Rightarrow> (app_error + json) \<times> verdicts" where
  "fetch_track_playback w track quality immersive c =
     (case ask_api w (v1_playback_url (preferences w) track)
             [(''audioquality'', quality), (''playbackmode'', ''STREAM''),
              (''assetpresentation'', ''FULL''), (''immersiveaudio'', show_bool immersive)] of
        Inl e \<Rightarrow> (Inl e, c)
      | Inr result \<Rightarrow>
          if pointer_str [''data'', ''assetPresentation''] result = Some ''PREVIEW''
          then (let reason = unwrap_or (pointer_str [''data'', ''previewReason''] result) ''FULL_REQUIRES_SUBSCRIPTION''
                in (Inl (PreviewOnly (''Preview only ('' @ reason @ ''): track '' @ show_int track
                       @ '' requires subscription or is not available as FULL in this region'')), c))
          else
            (case named_track result of
               None \<Rightarrow> (Inr result, c)
             | Some seen \<Rightarrow>
                 if seen = show_int track then (Inr result, c)
                 else (case substitution_refusal w (show_int track) seen c of
                         (Some reason, c') \<Rightarrow> (Inl (refuse_track seen (show_int track) reason), c')
                       | (None, c') \<Rightarrow> (Inr result, c'))))"

definition refuse_manifest :: "string \<Rightarrow> string \<Rightarrow> string \<Rightarrow> app_error" where
  "refuse_manifest seen requested reason =
     UpstreamError CONFLICT
       (''Tidal returned manifest for track '' @ seen @ '' for requested '' @ requested
        @ '': refusing to serve a different track ('' @ reason @ '')'')"

definition manifest_preview :: "string \<Rightarrow> json \<Rightarrow> app_error option" where
  "manifest_preview track result =
     (if pointer_str [''data'', ''data'', ''attributes'', ''trackPresentation''] result = Some ''PREVIEW''
      then (let reason = unwrap_or (pointer_str [''data'', ''data'', ''attributes'', ''previewReason''] result) ''PREVIEW''
            in Some (PreviewOnly (''Preview only ('' @ reason @ ''): track '' @ track @ '' not available as FULL'')))
      else None)"

text \<open>The check both manifest routes make on the URI they were given.\<close>

definition manifest_refusal :: "track_world \<Rightarrow> string \<Rightarrow> string \<Rightarrow> verdicts \<Rightarrow> app_error option \<times> verdicts" where
  "manifest_refusal w uri track c =
     (if manifest_matches_track (decode64 w) uri track then (None, c)
      else (let seen = unwrap_or (manifest_track_id (decode64 w) uri) ''unknown''
            in case substitution_refusal w track seen c of
                 (Some reason, c') \<Rightarrow> (Some (refuse_manifest seen track reason), c')
               | (None, c') \<Rightarrow> (None, c')))"

definition own_license :: "string \<Rightarrow> json \<Rightarrow> json" where
  "own_license host drm =
     json_set ''certificateUrl'' (JStr (''https://'' @ host @ ''/widevine''))
       (json_set ''licenseUrl'' (JStr (''https://'' @ host @ ''/widevine'')) drm)"

definition rewrite_manifest :: "string \<Rightarrow> json \<Rightarrow> json" where
  "rewrite_manifest host result =
     json_alter ''data'' (json_alter ''data'' (json_alter ''attributes'' (json_alter ''drmData'' (own_license host))))
       (json_set ''atmos_available'' (JBool (manifest_has_atmos result)) result)"

definition manifest_url :: "string \<Rightarrow> string" where
  "manifest_url track = ''https://openapi.tidal.com/v2/trackManifests/'' @ track"

definition fetch_manifest_inner ::
    "track_world \<Rightarrow> string \<Rightarrow> manifest_params \<Rightarrow> string \<Rightarrow> string option \<Rightarrow> verdicts \<Rightarrow>
     (app_error + json) \<times> verdicts" where
  "fetch_manifest_inner w track params host raw c =
     (let formats = resolve_formats (query_pairs w) raw (atmos params) (atmos_default_on (preferences w));
          country = unwrap_or (countryCode params) (home_country w);
          all_params = [(''adaptive'', adaptive params), (''manifestType'', manifestType params),
                        (''uriScheme'', uriScheme params), (''usage'', usage params), (''countryCode'', country)]
                       @ map (\<lambda>f. (''formats'', f)) formats
      in case ask_api w (manifest_url track) all_params of
           Inl e \<Rightarrow> (Inl e, c)
         | Inr result \<Rightarrow>
             (case manifest_preview track result of
                Some e \<Rightarrow> (Inl e, c)
              | None \<Rightarrow>
                  (case (case pointer_str [''data'', ''data'', ''attributes'', ''uri''] result of
                           Some uri \<Rightarrow> manifest_refusal w uri track c
                         | None \<Rightarrow> (None, c)) of
                     (Some e, c') \<Rightarrow> (Inl e, c')
                   | (None, c') \<Rightarrow> (Inr (rewrite_manifest host result), c'))))"

definition bad_v1_manifest :: app_error where
  "bad_v1_manifest = Internal ''Invalid URL in v1 audio manifest''"

definition high_audio_uri :: "track_world \<Rightarrow> json \<Rightarrow> app_error + string" where
  "high_audio_uri w result =
     (if pointer_str [''data'', ''audioQuality''] result \<noteq> Some ''HIGH''
      then Inl (BadGateway ''Tidal did not return HIGH audio'')
      else case pointer_str [''data'', ''manifest''] result of
             None \<Rightarrow> Inl (Internal ''No v1 audio manifest in response'')
           | Some manifest \<Rightarrow>
        (case decode64 w manifest of
           None \<Rightarrow> Inl (Internal ''Invalid v1 audio manifest encoding'')
         | Some bytes \<Rightarrow>
        (case json_from w bytes of
           None \<Rightarrow> Inl (Internal ''Invalid v1 audio manifest JSON'')
         | Some decoded \<Rightarrow>
        (case pointer_str [''urls'', ''0''] decoded of
           None \<Rightarrow> Inl (Internal ''No URL in v1 audio manifest'')
         | Some uri \<Rightarrow>
        (case parse_url w uri of
           None \<Rightarrow> Inl bad_v1_manifest
         | Some (scheme, host) \<Rightarrow>
             if scheme \<noteq> ''https'' \<or> host = None then Inl bad_v1_manifest else Inr uri)))))"

definition fetch_dash_uri ::
    "track_world \<Rightarrow> string \<Rightarrow> string option \<Rightarrow> verdicts \<Rightarrow> (app_error + string) \<times> verdicts" where
  "fetch_dash_uri w track a c =
     (if use_high_for_dash a (high_default_on (preferences w))
      then (case parse_i64 track of
              None \<Rightarrow> (Inl (BadRequest ''Invalid track id''), c)
            | Some i \<Rightarrow>
                (case fetch_track_playback w i ''HIGH'' False c of
                   (Inl e, c') \<Rightarrow> (Inl e, c')
                 | (Inr result, c') \<Rightarrow> (high_audio_uri w result, c')))
      else
        (let all_params = [(''adaptive'', ''true''), (''manifestType'', ''MPEG_DASH''), (''uriScheme'', ''HTTPS''),
                           (''usage'', ''PLAYBACK''), (''countryCode'', home_country w),
                           (''formats'', dash_formats a (atmos_default_on (preferences w)))]
         in case ask_api w (manifest_url track) all_params of
              Inl e \<Rightarrow> (Inl e, c)
            | Inr result \<Rightarrow>
                (case manifest_preview track result of
                   Some e \<Rightarrow> (Inl e, c)
                 | None \<Rightarrow>
                     (case pointer_str [''data'', ''data'', ''attributes'', ''uri''] result of
                        None \<Rightarrow> (Inl (Internal ''No manifest URI in response''), c)
                      | Some uri \<Rightarrow>
                          (case manifest_refusal w uri track c of
                             (Some e, c') \<Rightarrow> (Inl e, c')
                           | (None, c') \<Rightarrow> (Inr uri, c'))))))"

end
