(* ===== verification/TrackProps.thy ===== *)
theory TrackProps
  imports Track
begin

text \<open>
  Properties of the track routes: an answer that names another track is served only when both ids
  are releases of one recording, whatever was cached before; previews are errors; the formats asked
  for follow the request, then the preference; licences are requested through this server.
\<close>

section \<open>Recordings\<close>

text \<open>\<open>T\<close> is the catalogue: what each id is a recording of. The metadata may be unreadable at times
  but does not contradict it.\<close>

type_synonym catalogue = "string \<Rightarrow> recording option"

definition agrees :: "catalogue \<Rightarrow> track_world \<Rightarrow> bool" where
  "agrees T w \<longleftrightarrow> (\<forall>t r. recording w t = Some r \<longrightarrow> T t = Some r)"

definition true_verdict :: "catalogue \<Rightarrow> string \<Rightarrow> string \<Rightarrow> string option \<Rightarrow> bool" where
  "true_verdict T a b v \<longleftrightarrow> (\<exists>x y. T (trim a) = Some x \<and> T b = Some y \<and> difference x y = v)"

definition same_track :: "catalogue \<Rightarrow> string \<Rightarrow> string \<Rightarrow> bool" where
  "same_track T requested seen \<longleftrightarrow> seen = trim requested \<or> true_verdict T requested seen None"

definition plain_id :: "string \<Rightarrow> bool" where
  "plain_id t \<longleftrightarrow> CHR '':'' \<notin> set t"

definition truthful :: "catalogue \<Rightarrow> verdicts \<Rightarrow> bool" where
  "truthful T c \<longleftrightarrow> (\<forall>a b v. plain_id b \<longrightarrow> c (verdict_key a b) = Some v \<longrightarrow> true_verdict T a b v)"

lemma truthfulD: "truthful T c \<Longrightarrow> plain_id b \<Longrightarrow> c (verdict_key a b) = Some v \<Longrightarrow> true_verdict T a b v"
  by (simp add: truthful_def)

lemma snoc_cancel: "d \<notin> set b \<Longrightarrow> d \<notin> set b' \<Longrightarrow> x @ d # b = x' @ d # b' \<Longrightarrow> x = x' \<and> b = b'"
proof -
  assume a: "d \<notin> set b" "d \<notin> set b'" and e: "x @ d # b = x' @ d # b'"
  have upto: "takeWhile (\<lambda>c. c \<noteq> d) (ys @ d # zs) = ys" if "d \<notin> set ys" for ys zs
    using that by (induction ys) auto
  have "rev b @ d # rev x = rev b' @ d # rev x'" using arg_cong [OF e, of rev] by simp
  then have "rev b = rev b'" using upto [of "rev b" "rev x"] upto [of "rev b'" "rev x'"] a by simp
  then show ?thesis using e by auto
qed

lemma verdict_key_inj:
  "plain_id b \<Longrightarrow> plain_id b' \<Longrightarrow> verdict_key a b = verdict_key a' b' \<Longrightarrow> trim a = trim a' \<and> b = b'"
  using snoc_cancel [of "CHR '':''" b b' "trim a" "trim a'"] by (simp add: verdict_key_def plain_id_def)

lemma truthful_insert:
  assumes "truthful T c" "plain_id b" "true_verdict T a b v"
  shows "truthful T (c(verdict_key a b \<mapsto> v))"
  unfolding truthful_def
proof (intro allI impI)
  fix a' b' v' assume p: "plain_id b'" and get: "(c(verdict_key a b \<mapsto> v)) (verdict_key a' b') = Some v'"
  show "true_verdict T a' b' v'"
  proof (cases "verdict_key a' b' = verdict_key a b")
    case True
    then have "trim a' = trim a \<and> b' = b" by (rule verdict_key_inj [OF p assms(2)])
    moreover have "v' = v" using get True by simp
    ultimately show ?thesis using assms(3) by (simp add: true_verdict_def)
  next
    case False
    then show ?thesis using get truthfulD [OF assms(1) p] by simp
  qed
qed

lemma truthful_fewer: "truthful T c \<Longrightarrow> c' \<subseteq>\<^sub>m c \<Longrightarrow> truthful T c'"
  unfolding truthful_def map_le_def by (metis domI)

lemma refusal_cases:
  assumes "agrees T w" "truthful T c" "plain_id seen" "substitution_refusal w requested seen c = (v, c')"
  shows "truthful T c'" and "v = None \<Longrightarrow> true_verdict T requested seen None"
proof -
  show "truthful T c'"
    using assms truthful_insert [OF assms(2,3), of requested]
    by (auto simp: substitution_refusal_def agrees_def true_verdict_def Let_def split: option.splits)
  show "true_verdict T requested seen None" if "v = None"
    using assms that truthfulD [OF assms(2,3)]
    by (auto simp: substitution_refusal_def agrees_def true_verdict_def Let_def split: option.splits)
qed

section \<open>Ids\<close>

lemma digit_no_space: "is_ascii_digit c \<Longrightarrow> \<not> is_ascii_space c"
  by (auto simp: is_ascii_digit_def is_ascii_space_def Let_def)

lemma trim_no_space: "(\<And>c. c \<in> set s \<Longrightarrow> \<not> is_ascii_space c) \<Longrightarrow> trim s = s"
proof -
  assume plain: "\<And>c. c \<in> set s \<Longrightarrow> \<not> is_ascii_space c"
  have "dropWhile is_ascii_space t = t" if "set t = set s" for t
    using plain that by (cases t) auto
  then show ?thesis by (simp add: trim_def)
qed

lemma show_nat_set: "c \<in> set (show_nat n) \<Longrightarrow> is_ascii_digit c"
  using show_nat_digits [of n] by (auto simp: list_all_iff)

lemma show_int_set: "c \<in> set (show_int i) \<Longrightarrow> is_ascii_digit c \<or> c = CHR ''-''"
  by (auto simp: show_int_def split: if_splits dest: show_nat_set)

lemma trim_show_int [simp]: "trim (show_int i) = show_int i"
  by (rule trim_no_space) (auto dest!: show_int_set digit_no_space simp: is_ascii_space_def)

lemma digits_plain: "list_all is_ascii_digit s \<Longrightarrow> plain_id s"
  by (auto simp: plain_id_def list_all_iff is_ascii_digit_def)

lemma digit_run_digits: "list_all is_ascii_digit run \<Longrightarrow> digit_run run s = Some r \<Longrightarrow> list_all is_ascii_digit r"
  by (induction run s rule: digit_run.induct) (auto split: if_splits)

lemma manifest_id_plain: "manifest_track_id decode uri = Some t \<Longrightarrow> plain_id t"
  by (auto simp: manifest_track_id_def bind_eq_Some_conv intro!: digits_plain dest: digit_run_digits [rotated])

section \<open>Every fetch\<close>

lemma track_served:
  assumes "agrees T w" "truthful T c"
    and plain: "\<And>u p r t. ask_api w u p = Inr r \<Longrightarrow> named_track r = Some t \<Longrightarrow> plain_id t"
    and "fetch_track_playback w track q imm c = (res, c')"
  shows "truthful T c'" and "res = Inr v \<Longrightarrow> named_track v = Some t \<Longrightarrow> same_track T (show_int track) t"
proof -
  let ?a = "ask_api w (v1_playback_url (preferences w) track)
     [(''audioquality'', q), (''playbackmode'', ''STREAM''), (''assetpresentation'', ''FULL''),
      (''immersiveaudio'', show_bool imm)]"
  have p: "\<And>r t. ?a = Inr r \<Longrightarrow> named_track r = Some t \<Longrightarrow> plain_id t" using plain by blast
  show "truthful T c'"
  proof (cases ?a)
    case (Inr r)
    show ?thesis using assms(4) Inr assms(2) refusal_cases(1) [OF assms(1,2) p [OF Inr]]
      by (auto simp: fetch_track_playback_def Let_def split: if_splits option.splits prod.splits)
  qed (use assms in \<open>simp add: fetch_track_playback_def\<close>)
  show "same_track T (show_int track) t" if "res = Inr v" "named_track v = Some t"
  proof (cases ?a)
    case (Inr r)
    show ?thesis using assms(4) Inr that refusal_cases(2) [OF assms(1,2) p [OF Inr]]
      by (auto simp: fetch_track_playback_def Let_def same_track_def split: if_splits option.splits prod.splits)
  qed (use assms that in \<open>simp add: fetch_track_playback_def\<close>)
qed

lemma manifest_checked:
  assumes "agrees T w" "truthful T c" "manifest_refusal w uri track c = (e, c')"
  shows "truthful T c'"
    and "e = None \<Longrightarrow> manifest_track_id (decode64 w) uri = Some t \<Longrightarrow> same_track T track t"
  using assms(3) refusal_cases [OF assms(1,2) manifest_id_plain] assms(2)
  by (auto simp: manifest_refusal_def manifest_matches_track_def Let_def same_track_def
      split: if_splits option.splits prod.splits)

lemma json_set_other [simp]: "k \<noteq> t \<Longrightarrow> step_into (json_set k x v) t = step_into v t"
  by (cases v) (auto simp: update_conv')

lemma json_set_same: "v = JObj kvs \<Longrightarrow> step_into (json_set k x v) k = Some x"
  by (simp add: update_conv')

lemma json_alter_other [simp]: "k \<noteq> t \<Longrightarrow> step_into (json_alter k f v) t = step_into v t"
  by (cases v) (auto simp: update_conv' split: option.splits)

lemma step_array [simp]: "\<not> is_ascii_digit c \<Longrightarrow> c \<noteq> CHR ''+'' \<Longrightarrow> step_into (JArr vs) (c # cs) = None"
  by (simp add: parse_u64_def Let_def)

lemma alter_field:
  "c \<noteq> CHR ''+'' \<Longrightarrow> \<not> is_ascii_digit c \<Longrightarrow>
   step_into (json_alter (c # cs) f v) (c # cs) = map_option f (step_into v (c # cs))"
  by (cases v) (auto simp: update_conv' simp del: step_into.simps(2) split: option.splits)

lemma map_pointer: "map_option f (pointer (t # ts) v) = Option.bind (step_into v t) (\<lambda>y. map_option f (pointer ts y))"
  by (cases "step_into v t") (simp_all add: pointer.simps)

lemma bind_map_option: "Option.bind (map_option f x) g = Option.bind x (\<lambda>y. g (f y))"
  by (cases x) simp_all

lemma bind_some: "Option.bind x (\<lambda>y. Some (f y)) = map_option f x"
  by (cases x) simp_all

lemma pointer_fun: "pointer [] = Some" "pointer (t # ts) = (\<lambda>v. Option.bind (step_into v t) (pointer ts))"
  by (auto simp: fun_eq_iff)

lemma attribute_kept:
  "k \<noteq> ''drmData'' \<Longrightarrow>
   pointer [''data'', ''data'', ''attributes'', k] (rewrite_manifest host r) = pointer [''data'', ''data'', ''attributes'', k] r"
  by (simp add: pointer_fun rewrite_manifest_def alter_field is_ascii_digit_def bind_map_option del: pointer.simps)

lemma attribute_str_kept [simp]:
  "k \<noteq> ''drmData'' \<Longrightarrow>
   pointer_str [''data'', ''data'', ''attributes'', k] (rewrite_manifest host r)
     = pointer_str [''data'', ''data'', ''attributes'', k] r"
  unfolding pointer_str_def by (subst attribute_kept) simp_all

declare pointer.simps [simp del]

section \<open>Whatever was cached before\<close>

definition honest :: "catalogue \<Rightarrow> track_world \<Rightarrow> bool" where
  "honest T w \<longleftrightarrow> agrees T w
     \<and> (\<forall>u p r t. ask_api w u p = Inr r \<longrightarrow> named_track r = Some t \<longrightarrow> plain_id t)"

text \<open>The caches that requests of any kind can leave behind, entries vanishing at any time.\<close>

inductive seen_verdicts :: "catalogue \<Rightarrow> verdicts \<Rightarrow> bool" for T where
  start: "seen_verdicts T (\<lambda>_. None)"
| track: "seen_verdicts T c \<Longrightarrow> honest T w \<Longrightarrow> seen_verdicts T (snd (fetch_track_playback w t q i c))"
| manifest: "seen_verdicts T c \<Longrightarrow> honest T w \<Longrightarrow> seen_verdicts T (snd (fetch_manifest_inner w m p h raw c))"
| dash: "seen_verdicts T c \<Longrightarrow> honest T w \<Longrightarrow> seen_verdicts T (snd (fetch_dash_uri w m a c))"
| evict: "seen_verdicts T c \<Longrightarrow> c' \<subseteq>\<^sub>m c \<Longrightarrow> seen_verdicts T c'"

lemmas honestD = honest_def [THEN iffD1, THEN conjunct1]

lemma honest_served:
  assumes "honest T w" "truthful T c" "fetch_track_playback w track q imm c = (res, c')"
  shows "truthful T c'" and "res = Inr v \<Longrightarrow> named_track v = Some t \<Longrightarrow> same_track T (show_int track) t"
  using track_served [OF honestD [OF assms(1)] assms(2) _ assms(3)] assms(1) unfolding honest_def by blast+

lemma manifest_served:
  assumes "honest T w" "truthful T c" "fetch_manifest_inner w track p h raw c = (res, c')"
  shows "truthful T c'"
    and "res = Inr v \<Longrightarrow> pointer_str [''data'', ''data'', ''attributes'', ''uri''] v = Some uri
         \<Longrightarrow> manifest_track_id (decode64 w) uri = Some t \<Longrightarrow> same_track T track t"
  using assms(3) manifest_checked [OF honestD [OF assms(1)] assms(2)] assms(2)
  by (auto simp: fetch_manifest_inner_def Let_def
      split: sum.splits if_splits option.splits prod.splits)

lemma dash_served:
  assumes "honest T w" "truthful T c" "fetch_dash_uri w track a c = (res, c')"
  shows "truthful T c'"
    and "res = Inr uri \<Longrightarrow> \<not> use_high_for_dash a (high_default_on (preferences w))
         \<Longrightarrow> manifest_track_id (decode64 w) uri = Some t \<Longrightarrow> same_track T track t"
proof -
  show "truthful T c'"
    using assms(3) manifest_checked(1) [OF honestD [OF assms(1)] assms(2)] honest_served(1) [OF assms(1,2)] assms(2)
    by (auto simp: fetch_dash_uri_def Let_def split: sum.splits if_splits option.splits prod.splits)
  show "same_track T track t"
    if "res = Inr uri" "\<not> use_high_for_dash a (high_default_on (preferences w))"
       "manifest_track_id (decode64 w) uri = Some t"
    using assms(3) manifest_checked(2) [OF honestD [OF assms(1)] assms(2)] that
    by (auto simp: fetch_dash_uri_def Let_def split: sum.splits if_splits option.splits prod.splits)
qed

lemma seen_verdicts_truthful: "seen_verdicts T c \<Longrightarrow> truthful T c"
proof (induction rule: seen_verdicts.induct)
  case start show ?case by (simp add: truthful_def)
next
  case track then show ?case using honest_served(1) prod.collapse by metis
next
  case manifest then show ?case using manifest_served(1) prod.collapse by metis
next
  case dash then show ?case using dash_served(1) prod.collapse by metis
next
  case evict then show ?case by (blast intro: truthful_fewer)
qed

text \<open>Metadata and answers for one retired id, used below.\<close>

definition moved_answer :: json where
  "moved_answer = JObj [(''data'', JObj [(''trackId'', JInt 360563532), (''assetPresentation'', JStr ''FULL'')])]"

definition moved_world :: "string \<Rightarrow> track_world" where
  "moved_world code =
     \<lparr>ask_api = (\<lambda>_ _. Inr moved_answer),
      ask_catalog = (\<lambda>u _. Inr (JObj [(''isrc'', JStr code), (''duration'', JInt 213)])),
      home_country = ''US'', preferences = settings_from_env None None, decode64 = (\<lambda>_. None),
      json_from = (\<lambda>_. None), parse_url = (\<lambda>_. None), query_pairs = (\<lambda>_. [])\<rparr>"

lemma moved_recording: "recording (moved_world code) t = recording_of (JObj [(''isrc'', JStr code), (''duration'', JInt 213)])"
  by (simp add: recording_def moved_world_def)

lemma moved_of: "recording_of (JObj [(''isrc'', JStr ''ITB''), (''duration'', JInt 213)]) = Some \<lparr>isrc = ''ITB'', seconds = 213\<rparr>"
  by code_simp

lemma moved_named: "named_track moved_answer = Some ''360563532''"
  by (simp add: named_track_def moved_answer_def pointer.simps show_int_def show_nat.simps, code_simp)

lemma moved_honest: "honest (\<lambda>_. Some \<lparr>isrc = ''ITB'', seconds = 213\<rparr>) (moved_world ''ITB'')"
proof -
  have "agrees (\<lambda>_. Some \<lparr>isrc = ''ITB'', seconds = 213\<rparr>) (moved_world ''ITB'')"
    unfolding agrees_def moved_recording moved_of by simp
  moreover have "ask_api (moved_world ''ITB'') u p = Inr r \<Longrightarrow> named_track r = Some t \<Longrightarrow> plain_id t" for u p r t
    using moved_named by (auto simp: moved_world_def plain_id_def)
  ultimately show ?thesis unfolding honest_def by blast
qed

lemma moved_difference: "difference \<lparr>isrc = ''ITB'', seconds = 213\<rparr> \<lparr>isrc = ''ITB'', seconds = 213\<rparr> = None"
  by code_simp

lemma other_recordings_are_served_demo:
  "fst (fetch_track_playback (moved_world ''ITB'') 3686705 ''HIGH'' False (\<lambda>_. None)) = Inr moved_answer"
proof -
  have "pointer_str [''data'', ''assetPresentation''] moved_answer = Some ''FULL''"
    by (simp add: pointer_str_def pointer.simps moved_answer_def)
  moreover have "substitution_refusal (moved_world ''ITB'') (show_int 3686705) ''360563532'' (\<lambda>_. None)
      = (None, (\<lambda>_. None)(verdict_key (show_int 3686705) ''360563532'' \<mapsto> None))"
    by (simp add: substitution_refusal_def moved_recording moved_of moved_difference)
  moreover have "ask_api (moved_world ''ITB'') u p = Inr moved_answer" for u p by (simp add: moved_world_def)
  ultimately show ?thesis by (simp add: fetch_track_playback_def moved_named)
qed

text \<open>
  C1. Another recording is never served for the requested track, whatever requests came before and
  whatever verdicts they left in the cache: when an answer of the v1 route names a track, or the
  manifest handed out by \<open>/trackManifests\<close> or \<open>/dash\<close> carries one, it is the requested track or a
  release of the same recording in the catalogue.\<close>

theorem other_recordings_are_never_served:
  assumes "seen_verdicts T c" and "honest T w"
  shows "(\<forall>track q i v t. fst (fetch_track_playback w track q i c) = Inr v \<longrightarrow> named_track v = Some t
            \<longrightarrow> same_track T (show_int track) t)
       \<and> (\<forall>track p h raw v uri t. fst (fetch_manifest_inner w track p h raw c) = Inr v
            \<longrightarrow> pointer_str [''data'', ''data'', ''attributes'', ''uri''] v = Some uri
            \<longrightarrow> manifest_track_id (decode64 w) uri = Some t \<longrightarrow> same_track T track t)
       \<and> (\<forall>track a uri t. fst (fetch_dash_uri w track a c) = Inr uri
            \<longrightarrow> \<not> use_high_for_dash a (high_default_on (preferences w))
            \<longrightarrow> manifest_track_id (decode64 w) uri = Some t \<longrightarrow> same_track T track t)"
proof (intro conjI allI impI)
  fix track q i v t
  assume "fst (fetch_track_playback w track q i c) = Inr v" "named_track v = Some t"
  then show "same_track T (show_int track) t"
    using honest_served(2) [OF assms(2) seen_verdicts_truthful [OF assms(1)] surjective_pairing] by blast
next
  fix track p h raw v uri t
  assume "fst (fetch_manifest_inner w track p h raw c) = Inr v"
    "pointer_str [''data'', ''data'', ''attributes'', ''uri''] v = Some uri"
    "manifest_track_id (decode64 w) uri = Some t"
  then show "same_track T track t"
    using manifest_served(2) [OF assms(2) seen_verdicts_truthful [OF assms(1)] surjective_pairing] by blast
next
  fix track a uri t
  assume "fst (fetch_dash_uri w track a c) = Inr uri"
    "\<not> use_high_for_dash a (high_default_on (preferences w))"
    "manifest_track_id (decode64 w) uri = Some t"
  then show "same_track T track t"
    using dash_served(2) [OF assms(2) seen_verdicts_truthful [OF assms(1)] surjective_pairing] by blast
qed

theorem other_recordings_are_never_served_witness:
  "fst (fetch_track_playback (moved_world ''ITB'') 3686705 ''HIGH'' False (\<lambda>_. None)) = Inr moved_answer
   \<and> same_track (\<lambda>_. Some \<lparr>isrc = ''ITB'', seconds = 213\<rparr>) (show_int 3686705) ''360563532''"
proof -
  show ?thesis
    using other_recordings_are_served_demo moved_named other_recordings_are_never_served [OF seen_verdicts.start moved_honest] by blast
qed

text \<open>
  C22. A track retired by Tidal is served from the release that replaced it, and a refusal made only
  because the metadata could not be read does not last: the next request that can read it serves
  the track.\<close>

theorem replaced_track_is_served_once_readable:
  assumes "seen_verdicts T c" "honest T w" "honest T w'"
    and answer: "\<And>u p. ask_api w u p = Inr r" "\<And>u p. ask_api w' u p = Inr r"
    and full: "pointer_str [''data'', ''assetPresentation''] r \<noteq> Some ''PREVIEW''"
    and moved: "named_track r = Some t" "t \<noteq> show_int track" "c (verdict_key (show_int track) t) = None"
    and unread: "recording w (show_int track) = None \<or> recording w t = None"
    and same: "recording w' (show_int track) = Some x" "recording w' t = Some y" "difference x y = None"
  shows "fetch_track_playback w track q i c = (Inl (refuse_track t (show_int track) NOT_COMPARED), c)
       \<and> fst (fetch_track_playback w' track q i (snd (fetch_track_playback w track q i c))) = Inr r"
proof -
  have no: "substitution_refusal w (show_int track) t c = (Some NOT_COMPARED, c)"
    using moved(3) unread by (auto simp: substitution_refusal_def split: option.splits)
  have ok: "fst (substitution_refusal w' (show_int track) t c) = None"
    using moved(3) same by (simp add: substitution_refusal_def Let_def)
  have "fetch_track_playback w track q i c = (Inl (refuse_track t (show_int track) NOT_COMPARED), c)"
    using no full moved(1,2) by (simp add: fetch_track_playback_def answer)
  moreover have "fst (fetch_track_playback w' track q i c) = Inr r"
    using ok full moved(1,2) by (cases "substitution_refusal w' (show_int track) t c")
      (simp add: fetch_track_playback_def answer)
  ultimately show ?thesis by simp
qed

theorem replaced_track_is_served_once_readable_witness:
  "fst (fetch_track_playback (moved_world ''ITB'') 3686705 ''HIGH'' False
     (snd (fetch_track_playback (moved_world ''ITB''\<lparr>ask_catalog := \<lambda>_ _. Inl Timeout\<rparr>) 3686705 ''HIGH'' False (\<lambda>_. None))))
   = Inr moved_answer"
proof -
  let ?r = "\<lparr>isrc = ''ITB'', seconds = 213\<rparr>" and ?w = "moved_world ''ITB''\<lparr>ask_catalog := \<lambda>_ _. Inl Timeout\<rparr>"
  have none: "recording ?w t = None" for t by (simp add: recording_def)
  have h: "honest (\<lambda>_. Some ?r) ?w"
    using moved_named unfolding honest_def agrees_def none by (auto simp: moved_world_def plain_id_def)
  have a: "ask_api (moved_world ''ITB'') u p = Inr moved_answer" for u p by (simp add: moved_world_def)
  have full: "pointer_str [''data'', ''assetPresentation''] moved_answer \<noteq> Some ''PREVIEW''"
    by (simp add: pointer_str_def pointer.simps moved_answer_def)
  have other: "''360563532'' \<noteq> show_int 3686705" by (simp add: show_int_def show_nat.simps)
  have r: "recording (moved_world ''ITB'') t = Some ?r" for t by (simp add: moved_recording moved_of)
  show ?thesis
    by (rule replaced_track_is_served_once_readable
          [OF seen_verdicts.start h moved_honest _ a full moved_named other _ _ r r moved_difference, THEN conjunct2])
      (simp_all add: none a)
qed

text \<open>
  Two ids are the same recording exactly when their ISRCs agree and their lengths differ by at
  most two seconds; the comparison does not depend on which one was requested.\<close>

lemma same_recording_is_isrc_and_length:
  assumes "0 \<le> seconds a" "seconds a < 2 ^ 63" "0 \<le> seconds b" "seconds b < 2 ^ 63"
  shows "(difference a b = None \<longleftrightarrow> isrc a = isrc b \<and> \<bar>seconds a - seconds b\<bar> \<le> 2)
       \<and> (difference a b = None \<longleftrightarrow> difference b a = None)"
proof -
  have gap: "abs_gap x y = \<bar>x - y\<bar>" if "0 \<le> x" "x < 2 ^ 63" "0 \<le> y" "y < 2 ^ 63" for x y
    using that by (simp add: abs_gap_def signed_take_bit_int_eq_self)
  show ?thesis using assms by (auto simp: difference_def gap SAME_RECORDING_SECONDS_def)
qed

theorem same_recording_is_isrc_and_length_witness:
  "difference \<lparr>isrc = ''ITB'', seconds = 213\<rparr> \<lparr>isrc = ''ITB'', seconds = 215\<rparr> = None
   \<and> difference \<lparr>isrc = ''ITB'', seconds = 213\<rparr> \<lparr>isrc = ''ITB'', seconds = 216\<rparr> \<noteq> None"
proof -
  have "difference \<lparr>isrc = ''ITB'', seconds = 213\<rparr> \<lparr>isrc = ''ITB'', seconds = 215\<rparr> = None"
    by (subst same_recording_is_isrc_and_length [THEN conjunct1]) simp_all
  moreover have "difference \<lparr>isrc = ''ITB'', seconds = 213\<rparr> \<lparr>isrc = ''ITB'', seconds = 216\<rparr> \<noteq> None"
    by (subst same_recording_is_isrc_and_length [THEN conjunct1]) simp_all
  ultimately show ?thesis by blast
qed

section \<open>Previews\<close>

text \<open>
  A preview is never handed out as a track: neither route returns an answer that Tidal marks as a
  preview, whatever the answer holds besides.\<close>

lemma previews_are_never_served:
  "(\<forall>v. fst (fetch_track_playback w track q i c) = Inr v
      \<longrightarrow> pointer_str [''data'', ''assetPresentation''] v \<noteq> Some ''PREVIEW'')
   \<and> (\<forall>v. fst (fetch_manifest_inner w m p h raw c) = Inr v
      \<longrightarrow> pointer_str [''data'', ''data'', ''attributes'', ''trackPresentation''] v \<noteq> Some ''PREVIEW'')"
proof (intro conjI allI impI)
  fix v assume "fst (fetch_track_playback w track q i c) = Inr v"
  then show "pointer_str [''data'', ''assetPresentation''] v \<noteq> Some ''PREVIEW''"
    by (auto simp: fetch_track_playback_def Let_def split: sum.splits if_splits option.splits prod.splits)
next
  fix v assume "fst (fetch_manifest_inner w m p h raw c) = Inr v"
  then show "pointer_str [''data'', ''data'', ''attributes'', ''trackPresentation''] v \<noteq> Some ''PREVIEW''"
    by (auto simp: fetch_manifest_inner_def Let_def manifest_preview_def
        split: sum.splits if_splits option.splits prod.splits)
qed

theorem previews_are_never_served_witness:
  "pointer_str [''data'', ''assetPresentation''] moved_answer \<noteq> Some ''PREVIEW''"
  using previews_are_never_served [of "moved_world ''ITB''" 3686705 "''HIGH''" False "\<lambda>_. None"]
    other_recordings_are_served_demo by blast

section \<open>Formats\<close>

text \<open>
  C23. The formats asked of Tidal follow the request, then the server. \<open>only\<close> asks for Atmos alone,
  whatever list the query has; \<open>true\<close>, \<open>1\<close> and \<open>prefer\<close> put Atmos first, once, and keep the other formats
  of the query's list (or of the five defaults) in their order; any other request gets the list of its
  query word for word. A request with neither a list nor an answer to the Atmos question gets the
  defaults, Atmos first exactly when the owner's setting is \<open>prefer\<close>; \<open>false\<close>, \<open>0\<close> and \<open>off\<close> drop Atmos from
  the defaults against that setting. There is always a format and none is blank.\<close>

theorem formats_follow_the_request:
  "let asked = resolve_formats query raw a (atmos_default_on s);
       listed = unwrap_or (explicit_formats query raw) [''HEAACV1'', ''AACLC'', ''FLAC'', ''FLAC_HIRES'', ''EAC3_JOC'']
   in asked \<noteq> [] \<and> (\<forall>f \<in> set asked. f \<noteq> [])
   \<and> (atmos_word a = Some ''only'' \<longrightarrow> asked = [''EAC3_JOC''])
   \<and> (atmos_word a \<in> {Some ''true'', Some ''1'', Some ''prefer''} \<longrightarrow>
        (\<exists>rest. asked = ''EAC3_JOC'' # rest \<and> ''EAC3_JOC'' \<notin> set rest \<and> rest = filter (\<lambda>f. f \<noteq> ''EAC3_JOC'') listed))
   \<and> (atmos_word a \<notin> {Some ''only'', Some ''true'', Some ''1'', Some ''prefer''} \<and> explicit_formats query raw \<noteq> None \<longrightarrow>
        Some asked = explicit_formats query raw)
   \<and> (atmos_word a \<in> {Some ''false'', Some ''0'', Some ''off''} \<and> explicit_formats query raw = None \<longrightarrow>
        asked = [''HEAACV1'', ''AACLC'', ''FLAC'', ''FLAC_HIRES''])
   \<and> (atmos_word a \<notin> {Some ''only'', Some ''true'', Some ''1'', Some ''prefer'', Some ''false'', Some ''0'', Some ''off''}
        \<and> explicit_formats query raw = None \<longrightarrow>
        asked = (if atmos_mode s = ''prefer'' then [''EAC3_JOC'', ''HEAACV1'', ''AACLC'', ''FLAC'', ''FLAC_HIRES'']
                 else [''HEAACV1'', ''AACLC'', ''FLAC'', ''FLAC_HIRES'', ''EAC3_JOC'']))"
proof -
  have explicit: "fs \<noteq> [] \<and> (\<forall>f \<in> set fs. f \<noteq> [])" if "explicit_formats query raw = Some fs" for fs
  proof
    show "fs \<noteq> []" using that
      by (auto simp: explicit_formats_def Let_def simp del: concat_eq_Nil_conv split: option.splits if_splits)
    show "\<forall>f \<in> set fs. f \<noteq> []" using that
      by (auto simp: explicit_formats_def Let_def simp del: concat_eq_Nil_conv split: option.splits if_splits)
  qed
  show ?thesis
  proof (cases "explicit_formats query raw")
    case None
    then show ?thesis unfolding Let_def
      by (auto simp: resolve_formats_def Let_def atmos_first_def default_formats_def atmos_default_on_def unwrap_or_def)
  next
    case (Some fs)
    then show ?thesis using explicit [OF Some] unfolding Let_def
      by (auto simp: resolve_formats_def Let_def atmos_first_def unwrap_or_def)
  qed
qed

theorem formats_follow_the_request_witness:
  "resolve_formats (\<lambda>_. [(''formats'', ''FLAC, AACLC'')]) (Some ''q'') (Some '' Only '') (atmos_default_on (preferences (moved_world ''ITB''))) = [''EAC3_JOC'']
   \<and> resolve_formats (\<lambda>_. []) (Some ''q'') None (atmos_default_on ((preferences (moved_world ''ITB''))\<lparr>atmos_mode := ''prefer''\<rparr>))
       = [''EAC3_JOC'', ''HEAACV1'', ''AACLC'', ''FLAC'', ''FLAC_HIRES'']"
  (is "?only \<and> ?server")
proof
  have "atmos_word (Some '' Only '') = Some ''only''" by code_simp
  then show ?only using formats_follow_the_request [of "\<lambda>_. [(''formats'', ''FLAC, AACLC'')]" "Some ''q''" "Some '' Only ''" "preferences (moved_world ''ITB'')"]
    by (simp add: Let_def)
  have "atmos_word None = None" "explicit_formats (\<lambda>_. []) (Some ''q'') = None"
    by (simp_all add: atmos_word_def explicit_formats_def)
  then show ?server using formats_follow_the_request [of "\<lambda>_. []" "Some ''q''" None "(preferences (moved_world ''ITB''))\<lparr>atmos_mode := ''prefer''\<rparr>"]
    by (simp add: Let_def)
qed

text \<open>The parser of query strings, on the strings \<open>dispatch_track\<close> writes.\<close>

definition parses_formats :: "(string \<Rightarrow> (string \<times> string) list) \<Rightarrow> bool" where
  "parses_formats query \<longleftrightarrow>
     (\<forall>fmt \<in> {''HEAACV1'', ''AACLC'', ''FLAC'', ''FLAC_HIRES'', ''EAC3_JOC''}.
        query (''formats='' @ fmt) = [(''formats'', fmt)])"

lemma one_format:
  "fmt \<in> {''HEAACV1'', ''AACLC'', ''FLAC'', ''FLAC_HIRES'', ''EAC3_JOC''} \<Longrightarrow>
   filter (\<lambda>p. p \<noteq> []) (map trim (split_on (CHR '','') fmt)) = [fmt]"
  by (elim insertE emptyE; clarsimp; code_simp)

lemma format_names: "track_format q = Some (V2 fmt) \<Longrightarrow>
   fmt \<in> {''HEAACV1'', ''AACLC'', ''FLAC'', ''FLAC_HIRES'', ''EAC3_JOC''}"
  by (auto simp: track_format_def Let_def split: if_splits)

text \<open>
  A quality of \<open>/track\<close> other than HIGH asks Tidal for exactly the format it stands for, whatever
  Atmos preference the server has, and the three ways to write the path agree.\<close>

lemma quality_asks_for_its_format:
  assumes "parses_formats query" "dispatch_track track quality imm host = Inr (Manifest t p raw h)"
  shows "\<exists>fmt. track_format quality = Some (V2 fmt) \<and> t = show_int track
           \<and> resolve_formats query raw (atmos p) pref = [fmt]"
proof -
  obtain fmt where fmt: "track_format quality = Some (V2 fmt)"
      and op: "t = show_int track" "p = default_manifest_params" "raw = Some (''formats='' @ fmt)"
    using assms(2) by (auto simp: dispatch_track_def split: option.splits track_format.splits)
  have "query (''formats='' @ fmt) = [(''formats'', fmt)]"
    using assms(1) format_names [OF fmt] by (simp only: parses_formats_def)
  then have "explicit_formats query raw = Some [fmt]"
    using one_format [OF format_names [OF fmt]] by (simp add: explicit_formats_def op(3))
  then show ?thesis using fmt op(1,2)
    by (simp add: resolve_formats_def Let_def atmos_word_def default_manifest_params_def)
qed

theorem quality_asks_for_its_format_witness:
  "resolve_formats (\<lambda>q. [(''formats'', drop 8 q)]) (Some ''formats=FLAC'') (atmos default_manifest_params) True = [''FLAC'']"
proof -
  have d: "dispatch_track 7 '' lossless'' False None
      = Inr (Manifest (show_int 7) default_manifest_params (Some ''formats=FLAC'') ''localhost'')"
    by code_simp
  have q: "parses_formats (\<lambda>q. [(''formats'', drop 8 q)])" by (simp add: parses_formats_def)
  have f: "track_format '' lossless'' = Some (V2 ''FLAC'')" by code_simp
  show ?thesis using quality_asks_for_its_format [OF q d, of True] f by auto
qed

definition advertised :: "json \<Rightarrow> (string \<times> string \<times> string) list" where
  "advertised info =
     concat (map (\<lambda>e.
       (let q = unwrap_or (jget_str ''quality'' e) []; api = unwrap_or (jget_str ''api'' e) [];
            fmt = unwrap_or (jget_str ''format'' e) [];
            al = List.map_filter as_str (unwrap_or (Option.bind (jget ''aliases'' e) as_array) [])
        in map (\<lambda>n. (n, api, fmt)) (q # al)))
     (unwrap_or (Option.bind (jget ''supportedQualities'' info) as_array) []))"

lemma advertised_list:
  "advertised (unsupported_quality_info track q) =
     [(''HIGH'', ''v1'', ''AAC''), (''LOW'', ''v2'', ''HEAACV1''), (''HEAACV1'', ''v2'', ''HEAACV1''),
      (''AACLC'', ''v2'', ''AACLC''), (''LOSSLESS'', ''v2'', ''FLAC''), (''FLAC'', ''v2'', ''FLAC''),
      (''HI_RES_LOSSLESS'', ''v2'', ''FLAC_HIRES''), (''FLAC_HIRES'', ''v2'', ''FLAC_HIRES''),
      (''DOLBY_ATMOS'', ''v2'', ''EAC3_JOC''), (''ATMOS'', ''v2'', ''EAC3_JOC''), (''EAC3_JOC'', ''v2'', ''EAC3_JOC'')]"
  by (simp add: unsupported_quality_info_def v2_quality_def advertised_def jget_str_def List.map_filter_simps Let_def)

text \<open>
  The list of qualities in the answer to an unsupported one is true: each quality and each alias
  it names is accepted, and selects the format it says.\<close>

lemma advertised_qualities_are_accepted:
  "list_all (\<lambda>(name, api, fmt).
      track_format name = Some (if api = ''v1'' then High else V2 fmt))
    (advertised (unsupported_quality_info track q))"
  unfolding advertised_list by code_simp

section \<open>The id inside a manifest URL\<close>

lemma digit_run_skip: "list_all (\<lambda>c. \<not> is_ascii_digit c) pre \<Longrightarrow> digit_run [] (pre @ s) = digit_run [] s"
  by (induction pre) auto

lemma digit_run_take: "list_all is_ascii_digit ds \<Longrightarrow> digit_run run (ds @ s) = digit_run (run @ ds) s"
  by (induction ds arbitrary: run) auto

lemma digit_run_stop:
  "5 \<le> length run \<Longrightarrow> post = [] \<or> \<not> is_ascii_digit (hd post) \<Longrightarrow> digit_run run post = Some run"
  by (cases post) auto

text \<open>
  The id Tidal writes into a manifest is found again: when the bytes of the manifest name are a
  prefix without digits, an id of at least five digits and a rest that does not start with one, the
  check reads exactly that id from the URL.\<close>

lemma manifest_id_is_read_back:
  assumes "manifest_code url = Some code" "decode code = Some (pre @ ident @ post)"
    and "list_all (\<lambda>c. \<not> is_ascii_digit c) pre" "list_all is_ascii_digit ident" "5 \<le> length ident"
    and "post = [] \<or> \<not> is_ascii_digit (hd post)"
  shows "manifest_track_id decode url = Some ident
       \<and> (manifest_matches_track decode url track \<longleftrightarrow> ident = trim track)"
proof -
  have "digit_run [] (pre @ ident @ post) = digit_run [] (ident @ post)"
    using assms(3) by (rule digit_run_skip)
  also have "\<dots> = Some ident" using assms(4-6) by (simp add: digit_run_take digit_run_stop)
  finally show ?thesis using assms(1,2) by (simp add: manifest_track_id_def manifest_matches_track_def)
qed

theorem manifest_id_is_read_back_witness:
  "manifest_track_id (\<lambda>c. if c = ''Egk1Mjc='' then Some ([CHR 0x12, CHR 0x09] @ ''527739156'' @ [CHR 0x18]) else None)
     ''https://im-cf.manifest.tidal.com/1/manifests/Egk1Mjc.mpd?Expires=1'' = Some ''527739156''"
proof -
  have "manifest_code ''https://im-cf.manifest.tidal.com/1/manifests/Egk1Mjc.mpd?Expires=1'' = Some ''Egk1Mjc=''"
    by code_simp
  then show ?thesis
    by (rule manifest_id_is_read_back [where pre = "[CHR 0x12, CHR 0x09]" and post = "[CHR 0x18]", THEN conjunct1])
      (simp_all add: is_ascii_digit_def)
qed

section \<open>Licences\<close>

definition drm_of :: "json \<Rightarrow> json option" where
  "drm_of = pointer [''data'', ''data'', ''attributes'', ''drmData'']"

lemma drm_rewritten: "drm_of (rewrite_manifest host r) = map_option (own_license host) (drm_of r)"
  by (simp add: drm_of_def map_pointer)
    (simp add: pointer_fun rewrite_manifest_def alter_field is_ascii_digit_def bind_map_option
      bind_some option.map_ident)

text \<open>
  Players are sent to this server for licences: whenever a served manifest carries DRM data, both
  its licence and its certificate address are this server's, its other fields are Tidal's, and so is
  every other attribute of the manifest.\<close>

lemma licences_come_from_this_server:
  assumes "fst (fetch_manifest_inner w track p host raw c) = Inr v" "drm_of v = Some (JObj kvs)"
  shows "\<exists>r kvs'. v = rewrite_manifest host r \<and> drm_of r = Some (JObj kvs')
       \<and> map_of kvs ''licenseUrl'' = Some (JStr (''https://'' @ host @ ''/widevine''))
       \<and> map_of kvs ''certificateUrl'' = Some (JStr (''https://'' @ host @ ''/widevine''))
       \<and> (\<forall>k. k \<notin> {''licenseUrl'', ''certificateUrl''} \<longrightarrow> map_of kvs k = map_of kvs' k)
       \<and> (\<forall>k. k \<noteq> ''drmData'' \<longrightarrow> pointer [''data'', ''data'', ''attributes'', k] v
                                     = pointer [''data'', ''data'', ''attributes'', k] r)"
proof -
  obtain r where v: "v = rewrite_manifest host r"
    using assms(1) by (auto simp: fetch_manifest_inner_def Let_def split: sum.splits option.splits prod.splits)
  obtain d where d: "drm_of r = Some d" "own_license host d = JObj kvs"
    using assms(2) by (auto simp: v drm_rewritten)
  obtain kvs' where k: "d = JObj kvs'" using d(2) by (cases d) (auto simp: own_license_def)
  have kvs: "kvs = AList.update ''certificateUrl'' (JStr (''https://'' @ host @ ''/widevine''))
                     (AList.update ''licenseUrl'' (JStr (''https://'' @ host @ ''/widevine'')) kvs')"
    using d(2) by (simp add: k own_license_def)
  show ?thesis
    by (intro exI [of _ r] exI [of _ kvs']) (auto simp: v d(1) k attribute_kept kvs update_conv')
qed

definition drm_answer :: json where
  "drm_answer = JObj [(''data'', JObj [(''data'', JObj [(''attributes'', JObj
     [(''drmData'', JObj [(''licenseUrl'', JStr ''https://tidal'')])])])])]"

theorem licences_come_from_this_server_witness:
  "\<exists>kvs. drm_of (rewrite_manifest ''me'' drm_answer) = Some (JObj kvs)
     \<and> map_of kvs ''licenseUrl'' = Some (JStr ''https://me/widevine'')"
proof -
  let ?w = "moved_world ''ITB''\<lparr>ask_api := \<lambda>_ _. Inr drm_answer\<rparr>"
  have f: "fst (fetch_manifest_inner ?w ''7'' default_manifest_params ''me'' None (\<lambda>_. None))
      = Inr (rewrite_manifest ''me'' drm_answer)"
    by (simp add: fetch_manifest_inner_def Let_def drm_answer_def manifest_preview_def pointer_str_def pointer.simps)
  have d: "drm_of (rewrite_manifest ''me'' drm_answer) = Some (JObj [(''licenseUrl'', JStr ''https://me/widevine''),
      (''certificateUrl'', JStr ''https://me/widevine'')])"
    by (simp add: drm_rewritten) (simp add: drm_of_def drm_answer_def pointer.simps own_license_def)
  show ?thesis using licences_come_from_this_server [OF f d] d by auto
qed

section \<open>Findings\<close>

text \<open>The comment on \<open>resolve_formats\<close> says explicit formats win; \<open>atmos=only\<close> discards them.\<close>

theorem explicit_formats_lose_to_only:
  "atmos_word a = Some ''only'' \<Longrightarrow> resolve_formats query raw a pref = [''EAC3_JOC'']"
  by (simp add: resolve_formats_def Let_def)

text \<open>The id of \<open>/trackManifests\<close> is any string and is written into the URL as it is, so a path in it
  leaves the collection: the account's request goes where the client says, and the answer comes back.\<close>

theorem manifest_id_chooses_the_url:
  assumes "ask_api w = (\<lambda>u p. if u = ''https://openapi.tidal.com/v2/trackManifests/../users/me'' then Inr secret else Inl Timeout)"
    and "pointer [''data'', ''data'', ''attributes''] secret = None"
  shows "fst (fetch_manifest_inner w ''../users/me'' p host raw c) = Inr (rewrite_manifest host secret)"
proof -
  have no: "pointer_str [''data'', ''data'', ''attributes'', k] secret = None" for k
    using assms(2) by (auto simp: pointer_str_def pointer.simps bind_eq_None_conv)
  show ?thesis
    by (simp add: fetch_manifest_inner_def Let_def manifest_url_def assms(1) manifest_preview_def no)
qed

end
