(* ===== verification/Metadata.thy ===== *)
theory Metadata
  imports TidalClient Track
begin

text \<open>
  The metadata routes of \<open>src/routes/\<close>: album, artist, search, cover, similar albums and artists, top
  videos, playlist, mix, recommendations, info, lyrics and health. Each asks the catalogue one or more
  times and puts the answers together. \<open>catalog_answer\<close> is what \<open>catalog_get\<close> of the Tidal client
  returns for a URL and its parameters (\<open>TidalClient\<close> models how); requests that run at the same time
  differ in URL or parameters. Fields of an object are in the order the code lists them.
\<close>

record site =
  catalog_answer :: "string \<Rightarrow> (string \<times> string) list \<Rightarrow> app_error + json"
  country :: string
  api_version :: string

definition make_catalog_authed_request ::
    "site \<Rightarrow> string \<Rightarrow> (string \<times> string) list \<Rightarrow> app_error + json" where
  "make_catalog_authed_request s url params = catalog_answer s url params"

definition make_catalog_request :: "site \<Rightarrow> string \<Rightarrow> (string \<times> string) list \<Rightarrow> app_error + json" where
  "make_catalog_request s url params = map_sum id (envelope (api_version s)) (catalog_answer s url params)"

text \<open>\<open>?\<close> on an error, an optional value in \<open>json!\<close>, and \<open>item.get("item").cloned().unwrap_or(item)\<close>.\<close>

fun and_then :: "app_error + 'a \<Rightarrow> ('a \<Rightarrow> app_error + 'b) \<Rightarrow> app_error + 'b" where
  "and_then (Inl e) f = Inl e"
| "and_then (Inr v) f = f v"

definition opt_json :: "json option \<Rightarrow> json" where
  "opt_json v = unwrap_or v JNull"

definition inner_item :: "json \<Rightarrow> json" where
  "inner_item i = unwrap_or (jget ''item'' i) i"

definition get_array :: "string \<Rightarrow> json \<Rightarrow> json list option" where
  "get_array k v = Option.bind (jget k v) as_array"

definition array_or_empty :: "string \<Rightarrow> json \<Rightarrow> json list" where
  "array_or_empty k v = unwrap_or (get_array k v) []"

definition slashes :: "string \<Rightarrow> string" where
  "slashes = map (\<lambda>c. if c = CHR ''-'' then CHR ''/'' else c)"

section \<open>Albums\<close>

definition ALBUM_CHUNK :: int where "ALBUM_CHUNK = 100"

text \<open>The pages one request is split into; the offset is an \<open>i64\<close> and wraps.\<close>

function album_pages :: "int \<Rightarrow> int \<Rightarrow> (int \<times> int) list" where
  "album_pages offset remaining =
     (if remaining > 0
      then (let chunk = min remaining ALBUM_CHUNK
            in (offset, chunk) # album_pages (signed_take_bit 63 (offset + chunk)) (remaining - chunk))
      else [])"
  by auto
termination
  by (relation "measure (\<lambda>(_, r). nat r)") (auto simp: ALBUM_CHUNK_def)

declare album_pages.simps [simp del]

definition page_items :: "json \<Rightarrow> json list" where
  "page_items data =
     (case get_array ''items'' data of Some items \<Rightarrow> items | None \<Rightarrow> unwrap_or (as_array data) [])"

definition album_url :: "int \<Rightarrow> string" where
  "album_url album = ''https://api.tidal.com/v1/albums/'' @ show_int album"

definition fetch_album_page :: "site \<Rightarrow> int \<Rightarrow> int \<times> int \<Rightarrow> app_error + json" where
  "fetch_album_page s album page =
     make_catalog_authed_request s (album_url album @ ''/items'')
       [(''countryCode'', country s), (''limit'', show_int (snd page)), (''offset'', show_int (fst page))]"

definition get_album :: "site \<Rightarrow> int \<Rightarrow> int \<Rightarrow> int \<Rightarrow> app_error + json" where
  "get_album s album count offset =
     and_then (make_catalog_authed_request s (album_url album) [(''countryCode'', country s)])
       (\<lambda>data.
          (let results = map (fetch_album_page s album) (album_pages offset count);
               items = concat (map (case_sum (\<lambda>_. []) page_items) results)
           in Inr (JObj [(''version'', JStr (api_version s)), (''data'', json_set ''items'' (JArr items) data)])))"

section \<open>Artists\<close>

definition image_url :: "string \<Rightarrow> string \<Rightarrow> string" where
  "image_url cover file = ''https://resources.tidal.com/images/'' @ slashes cover @ ''/'' @ file"

definition artist_by_id :: "site \<Rightarrow> int \<Rightarrow> app_error + json" where
  "artist_by_id s artist =
     and_then (make_catalog_authed_request s (''https://api.tidal.com/v1/artists/'' @ show_int artist)
                 [(''countryCode'', country s)])
       (\<lambda>data.
          (let picture = jget_str ''picture'' data;
               fallback = jget_str ''selectedAlbumCoverFallback'' data;
               artist_data = (case (picture, fallback) of
                                (None, Some fb) \<Rightarrow> json_set ''picture'' (JStr fb) data
                              | _ \<Rightarrow> data);
               cover = map_option
                 (\<lambda>pic. JObj [(''id'', JInt artist), (''name'', opt_json (jget ''name'' artist_data)),
                             (''750'', JStr (image_url pic ''750x750.jpg''))])
                 (case picture of Some p \<Rightarrow> Some p | None \<Rightarrow> fallback)
           in Inr (JObj [(''version'', JStr (api_version s)), (''artist'', artist_data), (''cover'', opt_json cover)])))"

text \<open>\<open>print\<close> is \<open>Value::to_string\<close>; \<open>seen\<close> the set of printed ids.\<close>

fun unique_releases :: "(json \<Rightarrow> string) \<Rightarrow> string list \<Rightarrow> json list \<Rightarrow> json list" where
  "unique_releases print seen [] = []"
| "unique_releases print seen (item # items) =
     (case jget ''id'' item of
        None \<Rightarrow> unique_releases print seen items
      | Some i \<Rightarrow>
          if print i \<in> set seen then unique_releases print seen items
          else item # unique_releases print (print i # seen) items)"

definition listed :: "app_error + json \<Rightarrow> json list" where
  "listed res = (case res of Inl e \<Rightarrow> [] | Inr data \<Rightarrow> array_or_empty ''items'' data)"

definition album_page_tracks :: "json \<Rightarrow> json list" where
  "album_page_tracks data =
     (let rows = array_or_empty ''rows'' data
      in if length rows < 2 then []
         else (case get_array ''modules'' (rows ! 1) of
                 Some (m # ms) \<Rightarrow>
                   map inner_item (unwrap_or (Option.bind (jget ''pagedList'' m) (get_array ''items'')) [])
               | _ \<Rightarrow> []))"

definition fetch_album_tracks :: "site \<Rightarrow> string \<Rightarrow> json list" where
  "fetch_album_tracks s aid =
     (case make_catalog_authed_request s ''https://api.tidal.com/v1/pages/album''
             [(''albumId'', aid), (''countryCode'', country s), (''deviceType'', ''BROWSER'')] of
        Inl e \<Rightarrow> []
      | Inr data \<Rightarrow> album_page_tracks data)"

definition artist_releases :: "site \<Rightarrow> (json \<Rightarrow> string) \<Rightarrow> int \<Rightarrow> json list" where
  "artist_releases s print artist =
     (let url = ''https://api.tidal.com/v1/artists/'' @ show_int artist @ ''/albums'';
          albums = make_catalog_authed_request s url [(''countryCode'', country s), (''limit'', ''100'')];
          singles = make_catalog_authed_request s url
                      [(''countryCode'', country s), (''limit'', ''100''), (''filter'', ''EPSANDSINGLES'')]
      in unique_releases print [] (listed albums @ listed singles))"

definition release_ids :: "json list \<Rightarrow> string list" where
  "release_ids items = List.map_filter (\<lambda>i. map_option show_int (jget_i64 ''id'' i)) items"

definition artist_page :: "site \<Rightarrow> (json \<Rightarrow> string) \<Rightarrow> int \<Rightarrow> bool \<Rightarrow> app_error + json" where
  "artist_page s print artist skip_tracks =
     (let releases = artist_releases s print artist;
          page = (\<lambda>tracks. Inr (JObj [(''version'', JStr (api_version s)),
                                    (''albums'', JObj [(''items'', JArr releases)]), (''tracks'', tracks)]))
      in if skip_tracks
         then page (case make_catalog_authed_request s
                           (''https://api.tidal.com/v1/artists/'' @ show_int artist @ ''/toptracks'')
                           [(''countryCode'', country s), (''limit'', ''15'')] of
                      Inl e \<Rightarrow> JArr []
                    | Inr v \<Rightarrow> unwrap_or (jget ''items'' v) (JArr []))
         else if release_ids releases = [] then page (JArr [])
         else page (JArr (concat (map (fetch_album_tracks s) (release_ids releases)))))"

definition get_artist ::
    "site \<Rightarrow> (json \<Rightarrow> string) \<Rightarrow> int option \<Rightarrow> int option \<Rightarrow> bool \<Rightarrow> app_error + json" where
  "get_artist s print by_id by_f skip_tracks =
     (case (by_id, by_f) of
        (None, None) \<Rightarrow> Inl (BadRequest ''Provide id or f query param'')
      | (Some artist, _) \<Rightarrow> artist_by_id s artist
      | (None, Some artist) \<Rightarrow> artist_page s print artist skip_tracks)"

section \<open>Search\<close>

record search_params =
  sp_s :: "string option"
  sp_a :: "string option"
  sp_al :: "string option"
  sp_v :: "string option"
  sp_p :: "string option"
  sp_i :: "string option"
  sp_offset :: int
  sp_limit :: int

definition TOP_HITS :: string where "TOP_HITS = ''https://api.tidal.com/v1/search/top-hits''"

definition query_defs :: "site \<Rightarrow> search_params \<Rightarrow> (string \<times> string \<times> (string \<times> string) list) list" where
  "query_defs s p =
     (let text = (\<lambda>v. unwrap_or v []);
          page = [(''limit'', show_int (sp_limit p)), (''offset'', show_int (sp_offset p))];
          hits = (\<lambda>v types. (text v, TOP_HITS,
                   [(''query'', text v)] @ page @ [(''types'', types), (''countryCode'', country s)]))
      in [(text (sp_s p), ''https://api.tidal.com/v1/search/tracks'',
             [(''query'', text (sp_s p))] @ page @ [(''countryCode'', country s)]),
          hits (sp_a p) ''ARTISTS,TRACKS'', hits (sp_al p) ''ALBUMS'', hits (sp_v p) ''VIDEOS'',
          hits (sp_p p) ''PLAYLISTS''])"

fun first_query :: "site \<Rightarrow> (string \<times> string \<times> (string \<times> string) list) list \<Rightarrow> app_error + json" where
  "first_query s [] = Inl (BadRequest ''Provide one of s, a, al, v, p, or i'')"
| "first_query s ((text, url, params) # qs) =
     (if text \<noteq> [] then make_catalog_request s url params else first_query s qs)"

definition search_route :: "site \<Rightarrow> search_params \<Rightarrow> app_error + json" where
  "search_route s p =
     (let isrc = unwrap_or (map_option trim (sp_i p)) []
      in if isrc \<noteq> []
         then make_catalog_request s ''https://api.tidal.com/v1/tracks''
                [(''isrc'', isrc), (''limit'', show_int (sp_limit p)), (''offset'', show_int (sp_offset p)),
                 (''countryCode'', country s)]
         else first_query s (query_defs s p))"

section \<open>Covers\<close>

definition build_cover_entry :: "string \<Rightarrow> string option \<Rightarrow> json option \<Rightarrow> json" where
  "build_cover_entry cover name track =
     JObj [(''id'', opt_json track), (''name'', opt_str name),
           (''1280'', JStr (image_url cover ''1280x1280.jpg'')),
           (''640'', JStr (image_url cover ''640x640.jpg'')),
           (''80'', JStr (image_url cover ''80x80.jpg''))]"

definition no_cover :: app_error where "no_cover = NotFound ''Cover not found''"

definition object_at :: "string \<Rightarrow> json \<Rightarrow> json option" where
  "object_at k v = Option.bind (jget k v) (\<lambda>o'. if as_object o' = None then None else Some o')"

definition cover_by_id :: "site \<Rightarrow> int \<Rightarrow> app_error + json" where
  "cover_by_id s track =
     and_then (make_catalog_authed_request s (''https://api.tidal.com/v1/tracks/'' @ show_int track @ ''/'')
                 [(''countryCode'', country s)])
       (\<lambda>data.
          (let album = object_at ''album'' data
           in case Option.bind album (jget_str ''cover'') of
                None \<Rightarrow> Inl no_cover
              | Some cover \<Rightarrow>
                  (let name = (case Option.bind album (jget_str ''title'') of
                                 Some t \<Rightarrow> Some t | None \<Rightarrow> jget_str ''title'' data);
                       album_id = unwrap_or (Option.bind album (jget ''id'')) (JInt track)
                   in Inr (JObj [(''version'', JStr (api_version s)),
                                 (''covers'', JArr [build_cover_entry cover name (Some album_id)])]))))"

definition track_cover :: "json \<Rightarrow> json option" where
  "track_cover track =
     Option.bind (object_at ''album'' track) (\<lambda>album.
       map_option (\<lambda>cover. build_cover_entry cover (jget_str ''title'' track) (jget ''id'' track))
         (jget_str ''cover'' album))"

definition cover_by_query :: "site \<Rightarrow> string \<Rightarrow> app_error + json" where
  "cover_by_query s q =
     (if q = [] then Inl (BadRequest ''Provide id or q query param'')
      else and_then (make_catalog_authed_request s ''https://api.tidal.com/v1/search/tracks''
                       [(''countryCode'', country s), (''query'', q), (''limit'', ''10'')])
        (\<lambda>data.
           (case get_array ''items'' data of
              None \<Rightarrow> Inl no_cover
            | Some items \<Rightarrow>
                (let covers = List.map_filter track_cover (take 10 items)
                 in if covers = [] then Inl no_cover
                    else Inr (JObj [(''version'', JStr (api_version s)), (''covers'', JArr covers)])))))"

definition get_cover :: "site \<Rightarrow> int option \<Rightarrow> string option \<Rightarrow> app_error + json" where
  "get_cover s by_id q =
     (case (by_id, q) of
        (None, None) \<Rightarrow> Inl (BadRequest ''Provide id or q query param'')
      | (Some track, _) \<Rightarrow> cover_by_id s track
      | (None, Some q) \<Rightarrow> cover_by_query s q)"

end
