(* ===== verification/Related.thy ===== *)
theory Related
  imports Metadata
begin

text \<open>
  The metadata routes that follow relations and pages: similar albums and artists, top videos,
  playlist, mix, recommendations, info, lyrics and health. A \<open>HashMap\<close> filled in a loop is the
  map in which the last entry of a key wins.
\<close>

section \<open>Similar albums and artists\<close>

fun join_with :: "char \<Rightarrow> string list \<Rightarrow> string" where
  "join_with d [] = []"
| "join_with d [w] = w"
| "join_with d (w # ws) = w @ d # join_with d ws"

definition extract_uuid_from_tidal_url :: "string \<Rightarrow> string option" where
  "extract_uuid_from_tidal_url href =
     (let parts = split_on (CHR ''/'') href
      in if 9 \<le> length parts then Some (join_with (CHR ''-'') (take 5 (drop 4 parts))) else None)"

definition included_map :: "string \<Rightarrow> json list \<Rightarrow> string \<Rightarrow> json option" where
  "included_map kind included =
     map_of (rev (List.map_filter
       (\<lambda>item. if jget_str ''type'' item = Some kind
               then map_option (\<lambda>i. (i, item)) (jget_str ''id'' item) else None) included))"

fun jfirst :: "json list \<Rightarrow> json option" where
  "jfirst [] = None"
| "jfirst (v # vs) = Some v"

text \<open>The picture of an included object, through a relation, an artwork and its first file.\<close>

definition picture_of :: "string \<Rightarrow> (string \<Rightarrow> json option) \<Rightarrow> json option \<Rightarrow> string option" where
  "picture_of relation artworks inc =
     Option.bind (Option.bind (Option.bind (Option.bind (Option.bind inc
       (jget ''relationships'')) (jget relation)) (get_array ''data'')) jfirst) (\<lambda>item.
     Option.bind (Option.bind (jget_str ''id'' item) artworks) (\<lambda>art.
     Option.bind (Option.bind (Option.bind (jget ''attributes'' art) (get_array ''files'')) jfirst) (\<lambda>file.
     Option.bind (jget_str ''href'' file) extract_uuid_from_tidal_url)))"

definition attributes_of :: "json option \<Rightarrow> json" where
  "attributes_of inc = unwrap_or (Option.bind inc (jget ''attributes'')) JNull"

definition id_number :: "string \<Rightarrow> int" where
  "id_number aid = unwrap_or (parse_i64 aid) 0"

definition artist_entry :: "(string \<Rightarrow> json option) \<Rightarrow> json \<Rightarrow> json option" where
  "artist_entry artists a_entry =
     map_option
       (\<lambda>a. JObj [(''id'', JInt (unwrap_or (Option.bind (jget_str ''id'' a) parse_i64) 0)),
                 (''name'', opt_json (Option.bind (jget ''attributes'' a) (jget ''name'')))])
       (Option.bind (jget_str ''id'' a_entry) artists)"

definition album_artists :: "(string \<Rightarrow> json option) \<Rightarrow> json option \<Rightarrow> json list" where
  "album_artists artists inc =
     List.map_filter (artist_entry artists)
       (unwrap_or (Option.bind (Option.bind (Option.bind inc (jget ''relationships'')) (jget ''artists''))
                     (get_array ''data'')) [])"

definition similar_album :: "json list \<Rightarrow> json \<Rightarrow> json option" where
  "similar_album included entry =
     map_option
       (\<lambda>aid.
          (let inc = included_map ''albums'' included aid
           in JObj [(''id'', JInt (id_number aid)),
                    (''name'', opt_json (jget ''name'' (attributes_of inc))),
                    (''cover'', JStr (unwrap_or (picture_of ''coverArt'' (included_map ''artworks'' included) inc) [])),
                    (''artists'', JArr (album_artists (included_map ''artists'' included) inc)),
                    (''url'', JStr (''http://www.tidal.com/album/'' @ aid))]))
       (jget_str ''id'' entry)"

definition get_similar_albums :: "site \<Rightarrow> int \<Rightarrow> string option \<Rightarrow> app_error + json" where
  "get_similar_albums s album cursor =
     and_then (make_catalog_authed_request s
         (''https://openapi.tidal.com/v2/albums/'' @ show_int album @ ''/relationships/similarAlbums'')
         [(''page[cursor]'', unwrap_or cursor []), (''countryCode'', country s),
          (''include'', ''similarAlbums,similarAlbums.coverArt,similarAlbums.artists'')])
       (\<lambda>payload. Inr (JObj [(''version'', JStr (api_version s)),
          (''albums'', JArr (List.map_filter (similar_album (array_or_empty ''included'' payload))
                                            (array_or_empty ''data'' payload)))]))"

definition similar_artist :: "json list \<Rightarrow> json \<Rightarrow> json option" where
  "similar_artist included entry =
     map_option
       (\<lambda>aid.
          (let inc = included_map ''artists'' included aid;
               pic = picture_of ''profileArt'' (included_map ''artworks'' included) inc;
               fallback = jget_str ''selectedAlbumCoverFallback'' (attributes_of inc)
           in JObj [(''id'', JInt (id_number aid)),
                    (''name'', opt_json (jget ''name'' (attributes_of inc))),
                    (''picture'', JStr (unwrap_or (case pic of Some p \<Rightarrow> Some p | None \<Rightarrow> fallback) [])),
                    (''url'', JStr (''http://www.tidal.com/artist/'' @ aid)),
                    (''relationType'', JStr ''SIMILAR_ARTIST'')]))
       (jget_str ''id'' entry)"

definition get_similar_artists :: "site \<Rightarrow> int \<Rightarrow> string option \<Rightarrow> app_error + json" where
  "get_similar_artists s artist cursor =
     and_then (make_catalog_authed_request s
         (''https://openapi.tidal.com/v2/artists/'' @ show_int artist @ ''/relationships/similarArtists'')
         [(''page[cursor]'', unwrap_or cursor []), (''countryCode'', country s),
          (''include'', ''similarArtists,similarArtists.profileArt'')])
       (\<lambda>payload. Inr (JObj [(''version'', JStr (api_version s)),
          (''artists'', JArr (List.map_filter (similar_artist (array_or_empty ''included'' payload))
                                             (array_or_empty ''data'' payload)))]))"

section \<open>Pages\<close>

text \<open>\<open>as usize\<close> of an \<open>i64\<close>.\<close>

definition as_usize :: "int \<Rightarrow> nat" where
  "as_usize i = nat (i mod 2 ^ 64)"

definition page_modules :: "json \<Rightarrow> json list" where
  "page_modules data = concat (map (array_or_empty ''modules'') (array_or_empty ''rows'' data))"

definition module_videos :: "json \<Rightarrow> json list" where
  "module_videos m =
     (let kind = unwrap_or (jget_str ''type'' m) []
      in if is_substring ''VIDEO'' kind \<or> is_substring ''PAGED_LIST'' kind
         then map inner_item (unwrap_or (Option.bind (jget ''pagedList'' m) (get_array ''items'')) [])
              @ (case object_at ''item'' m of Some i \<Rightarrow> [i] | None \<Rightarrow> [])
         else [])"

definition get_top_videos ::
    "site \<Rightarrow> string \<Rightarrow> string \<Rightarrow> string \<Rightarrow> int \<Rightarrow> int \<Rightarrow> app_error + json" where
  "get_top_videos s cc locale device count offset =
     and_then (make_catalog_authed_request s ''https://api.tidal.com/v1/pages/mymusic_recommended_videos''
                 [(''countryCode'', cc), (''locale'', locale), (''deviceType'', device)])
       (\<lambda>data.
          (let all_videos = concat (map module_videos (page_modules data))
           in Inr (JObj [(''version'', JStr (api_version s)),
                         (''videos'', JArr (take (as_usize count) (drop (as_usize offset) all_videos))),
                         (''total'', JInt (int (length all_videos)))])))"

definition get_playlist :: "site \<Rightarrow> string \<Rightarrow> int \<Rightarrow> app_error + json" where
  "get_playlist s playlist offset =
     (let url = ''https://api.tidal.com/v1/playlists/'' @ playlist;
          playlist_result = make_catalog_authed_request s url [(''countryCode'', country s)];
          items_result = make_catalog_authed_request s (url @ ''/items'')
            [(''countryCode'', country s), (''limit'', ''100''), (''offset'', show_int offset)]
      in and_then playlist_result (\<lambda>playlist_data. and_then items_result (\<lambda>items_data.
           Inr (JObj [(''version'', JStr (api_version s)), (''playlist'', playlist_data),
                      (''items'', unwrap_or (jget ''items'' items_data) items_data)]))))"

definition mix_module :: "json \<Rightarrow> json \<times> json list \<Rightarrow> json \<times> json list" where
  "mix_module m acc =
     (case acc of (header, items) \<Rightarrow>
        if jget_str ''type'' m = Some ''MIX_HEADER'' then (unwrap_or (jget ''mix'' m) JNull, items)
        else if jget_str ''type'' m = Some ''TRACK_LIST''
        then (case Option.bind (jget ''pagedList'' m) (get_array ''items'') of
                Some raw \<Rightarrow> (header, map inner_item raw)
              | None \<Rightarrow> (header, items))
        else (header, items))"

definition get_mix :: "site \<Rightarrow> string \<Rightarrow> app_error + json" where
  "get_mix s mix =
     and_then (make_catalog_authed_request s ''https://api.tidal.com/v1/pages/mix''
                 [(''mixId'', mix), (''countryCode'', country s), (''deviceType'', ''BROWSER'')])
       (\<lambda>data.
          (let (header, items) = fold mix_module (page_modules data) (JObj [], [])
           in Inr (JObj [(''version'', JStr (api_version s)), (''mix'', header), (''items'', JArr items)])))"

definition get_recommendations :: "site \<Rightarrow> int \<Rightarrow> app_error + json" where
  "get_recommendations s track =
     make_catalog_request s (''https://api.tidal.com/v1/tracks/'' @ show_int track @ ''/recommendations'')
       [(''limit'', ''20''), (''countryCode'', country s)]"

definition get_info :: "site \<Rightarrow> int \<Rightarrow> app_error + json" where
  "get_info s track =
     make_catalog_request s (''https://api.tidal.com/v1/tracks/'' @ show_int track @ ''/'')
       [(''countryCode'', country s)]"

text \<open>\<open>redis\<close> is the verdict of the shared store, when there is one (\<open>SharedStore\<close> models it).\<close>

definition health :: "bool option \<Rightarrow> json" where
  "health redis =
     (let verdict = (case redis of
          None \<Rightarrow> JObj [(''configured'', JBool False), (''status'', JStr ''disabled'')]
        | Some True \<Rightarrow> JObj [(''configured'', JBool True), (''status'', JStr ''ok'')]
        | Some False \<Rightarrow> JObj [(''configured'', JBool True), (''status'', JStr ''unreachable'')])
      in JObj [(''status'', JStr ''healthy''), (''redis'', verdict)])"

section \<open>Lyrics\<close>

definition NEWLINE :: char where "NEWLINE = CHR 0x0A"

text \<open>\<open>str::lines\<close>; a carriage return is left to the \<open>trim\<close> that follows.\<close>

definition text_lines :: "string \<Rightarrow> string list" where
  "text_lines s =
     (let ls = split_on NEWLINE s in if last ls = [] then butlast ls else ls)"

definition trim_start :: "string \<Rightarrow> string" where
  "trim_start s = dropWhile is_ascii_space s"

text \<open>\<open>strip_prefix('[')\<close> and \<open>split_once(']')\<close>: the tag at the start of a line and what follows it.\<close>

definition split_tag :: "string \<Rightarrow> (string \<times> string) option" where
  "split_tag s =
     (case s of
        c # cs \<Rightarrow>
          if c = CHR ''['' \<and> CHR '']'' \<in> set cs
          then Some (takeWhile (\<lambda>x. x \<noteq> CHR '']'') cs, tl (dropWhile (\<lambda>x. x \<noteq> CHR '']'') cs))
          else None
      | [] \<Rightarrow> None)"

lemma split_tag_shorter: "split_tag s = Some (tag, rest) \<Longrightarrow> length (trim_start rest) < length s"
proof -
  assume a: "split_tag s = Some (tag, rest)"
  then obtain c cs where s: "s = c # cs" and r: "rest = tl (dropWhile (\<lambda>x. x \<noteq> CHR '']'') cs)"
    by (auto simp: split_tag_def split: list.splits if_splits)
  have "length (trim_start rest) \<le> length rest" by (simp add: trim_start_def length_dropWhile_le)
  also have "\<dots> \<le> length cs" unfolding r using length_dropWhile_le [of "\<lambda>x. x \<noteq> CHR '']''" cs] by simp
  finally show ?thesis by (simp add: s)
qed

function strip_tags :: "string \<Rightarrow> string option" where
  "strip_tags rest =
     (case split_tag rest of
        None \<Rightarrow> Some rest
      | Some (tag, after) \<Rightarrow>
          if tag \<noteq> [] \<and> is_ascii_digit (hd tag) then strip_tags (trim_start after) else None)"
  by auto
termination
  by (relation "measure length") (auto dest: split_tag_shorter)

declare strip_tags.simps [simp del]

definition lrc_to_text :: "string \<Rightarrow> string" where
  "lrc_to_text lrc =
     trim (join_with NEWLINE (List.map_filter (\<lambda>l. strip_tags (trim l)) (text_lines lrc)))"

definition lyrics_from_openapi :: "int \<Rightarrow> json \<Rightarrow> json option" where
  "lyrics_from_openapi track body =
     Option.bind (get_array ''included'' body) (\<lambda>included.
     Option.bind (case find (\<lambda>item. jget_str ''type'' item = Some ''lyrics'') included of
                    Some item \<Rightarrow> Some item | None \<Rightarrow> jfirst included) (\<lambda>item.
       (let attributes = opt_json (jget ''attributes'' item);
            non_empty = (\<lambda>k. case map_option trim (jget_str k attributes) of
                               Some (c # cs) \<Rightarrow> Some (c # cs) | _ \<Rightarrow> None);
            lrc = non_empty ''lrcText''
        in case (case non_empty ''text'' of Some t \<Rightarrow> Some t | None \<Rightarrow> map_option lrc_to_text lrc) of
             Some (c # cs) \<Rightarrow>
               Some (JObj [(''trackId'', JInt track), (''lyrics'', JStr (c # cs)), (''subtitles'', opt_str lrc),
                           (''isRightToLeft'', JBool (jget_str ''direction'' attributes = Some ''RIGHT_TO_LEFT'')),
                           (''source'', JStr ''openapi_v2'')])
           | _ \<Rightarrow> None)))"

definition lyrics_response :: "site \<Rightarrow> json \<Rightarrow> json" where
  "lyrics_response s data = JObj [(''version'', JStr (api_version s)), (''lyrics'', data)]"

definition filled_object :: "json \<Rightarrow> bool" where
  "filled_object data \<longleftrightarrow> (case as_object data of Some kvs \<Rightarrow> kvs \<noteq> [] | None \<Rightarrow> False)"

fun busy_error :: "app_error \<Rightarrow> bool" where
  "busy_error (RateLimited n) = True"
| "busy_error (AccountsBusy d n) = True"
| "busy_error (ServiceUnavailableRetry d n) = True"
| "busy_error e = False"

definition get_lyrics :: "site \<Rightarrow> int \<Rightarrow> app_error + json" where
  "get_lyrics s track =
     (let v1 = make_catalog_authed_request s
                 (''https://api.tidal.com/v1/tracks/'' @ show_int track @ ''/lyrics'')
                 [(''countryCode'', country s), (''locale'', ''en_US''), (''deviceType'', ''BROWSER'')];
          v2 = (\<lambda>v1_error.
                 (case make_catalog_authed_request s (''https://openapi.tidal.com/v2/tracks/'' @ show_int track)
                         [(''countryCode'', country s), (''include'', ''lyrics'')] of
                    Inl e \<Rightarrow> Inl v1_error
                  | Inr body \<Rightarrow>
                      (case lyrics_from_openapi track body of
                         Some data \<Rightarrow> Inr (lyrics_response s data)
                       | None \<Rightarrow> Inl v1_error)))
      in case v1 of
           Inr data \<Rightarrow>
             if data \<noteq> JNull \<and> filled_object data then Inr (lyrics_response s data)
             else v2 (NotFound ''Lyrics not found'')
         | Inl e \<Rightarrow> if busy_error e then Inl e else v2 e)"

end
