(* ===== verification/MetadataProps.thy ===== *)
theory MetadataProps
  imports Related
begin

text \<open>
  Properties of the metadata routes: an album read in pages is the album, a release is listed once,
  cover addresses and ids correspond, timed lyrics become their text, and which answer wins when
  there are several.
\<close>

section \<open>Albums\<close>

lemma album_pages_step:
  "remaining > 0 \<Longrightarrow> album_pages offset remaining =
     (offset, min remaining 100) # album_pages (signed_take_bit 63 (offset + min remaining 100)) (remaining - min remaining 100)"
  by (subst album_pages.simps) (simp add: Let_def ALBUM_CHUNK_def)

lemma album_pages_none [simp]: "remaining \<le> 0 \<Longrightarrow> album_pages offset remaining = []"
  by (subst album_pages.simps) simp

lemma album_pages_induct [consumes 2, case_names none page]:
  assumes range: "0 \<le> offset" "offset + remaining < 2 ^ 63"
    and none: "\<And>offset remaining. remaining \<le> 0 \<Longrightarrow> P offset remaining"
    and page: "\<And>offset remaining chunk. 0 \<le> offset \<Longrightarrow> 0 < remaining \<Longrightarrow> chunk = min remaining 100 \<Longrightarrow> offset + remaining < 2 ^ 63
       \<Longrightarrow> album_pages offset remaining = (offset, chunk) # album_pages (offset + chunk) (remaining - chunk)
       \<Longrightarrow> P (offset + chunk) (remaining - chunk) \<Longrightarrow> P offset remaining"
  shows "P offset remaining"
  using range
proof (induction "nat remaining" arbitrary: offset remaining rule: less_induct)
  case less
  show ?case
  proof (cases "remaining > 0")
    case True
    let ?c = "min remaining 100"
    have s: "signed_take_bit 63 (offset + ?c) = offset + ?c"
      using less.prems True by (intro signed_take_bit_int_eq_self) auto
    show ?thesis
    proof (rule page [OF less.prems(1) True refl])
      show "offset + remaining < 2 ^ 63" by (rule less.prems)
      show "album_pages offset remaining = (offset, ?c) # album_pages (offset + ?c) (remaining - ?c)"
        using album_pages_step [OF True, of offset] s by simp
      show "P (offset + ?c) (remaining - ?c)" using less.prems True by (intro less.hyps) auto
    qed
  qed (simp add: none)
qed

definition slice :: "'a list \<Rightarrow> int \<times> int \<Rightarrow> 'a list" where
  "slice xs page = take (nat (snd page)) (drop (nat (fst page)) xs)"

lemma slices_join:
  "0 \<le> offset \<Longrightarrow> 0 < n \<Longrightarrow> 0 \<le> r \<Longrightarrow> slice xs (offset, n) @ slice xs (offset + n, r) = slice xs (offset, n + r)"
  by (simp add: slice_def nat_add_distrib take_add add.commute)

lemma pages_slice:
  assumes "0 \<le> offset" "offset + remaining < 2 ^ 63"
  shows "concat (map (slice xs) (album_pages offset remaining)) = slice xs (offset, remaining)"
  using assms
proof (induction rule: album_pages_induct)
  case (none offset remaining)
  then show ?case by (simp add: slice_def)
next
  case (page offset remaining chunk)
  then show ?case using slices_join [of offset chunk "remaining - chunk" xs] by auto
qed

lemma pages_count: "length (album_pages offset remaining) = nat ((remaining + 99) div 100)"
proof (induction "nat remaining" arbitrary: offset remaining rule: less_induct)
  case less
  show ?case
  proof (cases "remaining > 0")
    case True
    let ?c = "min remaining 100"
    have "length (album_pages (signed_take_bit 63 (offset + ?c)) (remaining - ?c)) = nat ((remaining - ?c + 99) div 100)"
      using True by (intro less.hyps) auto
    moreover have "nat ((remaining + 99) div 100) = Suc (nat ((remaining - ?c + 99) div 100))" using True by (auto simp: min_def)
    ultimately show ?thesis by (simp add: album_pages_step [OF True])
  next
    case False
    then have "(remaining + 99) div 100 \<le> 0" by simp
    then show ?thesis using False by simp
  qed
qed

text \<open>
  C27. An album fetched in pages is the album: when the catalogue answers every page with its part of
  the tracks, the route returns exactly the tracks from \<open>offset\<close> on, \<open>limit\<close> at most, in order and
  each once, with one request for every hundred.\<close>

theorem album_is_put_together:
  assumes "0 \<le> offset" "offset + count < 2 ^ 63"
    and "make_catalog_authed_request s (album_url album) [(''countryCode'', country s)] = Inr data"
    and pages: "\<And>page. page \<in> set (album_pages offset count) \<Longrightarrow>
      fetch_album_page s album page = Inr (JObj [(''items'', JArr (slice tracks page))])"
  shows "get_album s album count offset =
           Inr (JObj [(''version'', JStr (api_version s)),
                      (''data'', json_set ''items'' (JArr (slice tracks (offset, count))) data)])
       \<and> length (album_pages offset count) = nat ((count + 99) div 100)"
proof -
  have item: "page_items (JObj [(''items'', JArr xs)]) = xs" for xs
    by (simp add: page_items_def get_array_def)
  have "concat (map (case_sum (\<lambda>_. []) page_items) (map (fetch_album_page s album) (album_pages offset count)))
      = slice tracks (offset, count)"
    using pages_slice [OF assms(1,2), of tracks] by (simp add: comp_def pages item cong: map_cong)
  then show ?thesis using assms(3) pages_count by (simp add: get_album_def Let_def)
qed

definition demo_tracks :: "json list" where "demo_tracks = map (\<lambda>n. JInt (int n)) [0..<250]"

lemma demo_tracks_length: "length demo_tracks = 250" by (simp add: demo_tracks_def)

text \<open>A catalogue that knows one album; the page asked for is read from the parameters.\<close>

definition album_site :: site where
  "album_site =
     \<lparr>catalog_answer = (\<lambda>u p.
        case (map_of p ''limit'', map_of p ''offset'') of
          (Some n, Some i) \<Rightarrow>
            Inr (JObj [(''items'', JArr (slice demo_tracks (unwrap_or (parse_i64 i) 0, unwrap_or (parse_i64 n) 0)))])
        | _ \<Rightarrow> Inr (JObj [(''title'', JStr ''t'')])),
      country = ''US'', api_version = ''2''\<rparr>"

theorem album_is_put_together_witness:
  "get_album album_site 7 150 100 =
     Inr (JObj [(''version'', JStr ''2''),
                (''data'', JObj [(''title'', JStr ''t''), (''items'', JArr (slice demo_tracks (100, 150)))])])"
proof -
  have info: "make_catalog_authed_request album_site (album_url 7) [(''countryCode'', country album_site)]
      = Inr (JObj [(''title'', JStr ''t'')])"
    by (simp add: make_catalog_authed_request_def album_site_def)
  have page: "fetch_album_page album_site 7 (i, n) = Inr (JObj [(''items'', JArr (slice demo_tracks (i, n)))])"
    if "0 \<le> i" "i < 1000" "0 \<le> n" "n < 1000" for i n
    using that by (simp add: fetch_album_page_def make_catalog_authed_request_def album_site_def parse_show_int)
  have "set (album_pages 100 150) = {(100, 100), (200, 50)}"
    by (simp add: album_pages_step)
  then have "fetch_album_page album_site 7 p = Inr (JObj [(''items'', JArr (slice demo_tracks p))])"
    if "p \<in> set (album_pages 100 150)" for p
    using that page [of 100 100] page [of 200 50] by auto
  from album_is_put_together [OF _ _ info this] show ?thesis by (simp add: album_site_def)
qed

section \<open>Artists\<close>

definition printed_id :: "(json \<Rightarrow> string) \<Rightarrow> json \<Rightarrow> string option" where
  "printed_id print item = map_option print (jget ''id'' item)"

lemma unique_ids:
  "distinct (map (printed_id print) (unique_releases print seen items))
   \<and> set (map (printed_id print) (unique_releases print seen items))
      = {Some i | i. Some i \<in> printed_id print ` set items \<and> i \<notin> set seen}
   \<and> subseq (unique_releases print seen items) items"
proof (induction print seen items rule: unique_releases.induct)
  case (2 print seen item items)
  show ?case
  proof (cases "jget ''id'' item")
    case None
    then show ?thesis using 2(1) by (auto simp: printed_id_def image_iff)
  next
    case (Some i)
    show ?thesis
    proof (cases "print i \<in> set seen")
      case True
      then show ?thesis using 2(2) [OF Some] Some by (auto simp: printed_id_def image_iff)
    next
      case False
      then show ?thesis using 2(3) [OF Some] Some by (auto simp: printed_id_def image_iff)
    qed
  qed
qed simp

definition artist_lists :: "site \<Rightarrow> int \<Rightarrow> json list" where
  "artist_lists s artist =
     (let url = ''https://api.tidal.com/v1/artists/'' @ show_int artist @ ''/albums''
      in listed (make_catalog_authed_request s url [(''countryCode'', country s), (''limit'', ''100'')])
         @ listed (make_catalog_authed_request s url
                     [(''countryCode'', country s), (''limit'', ''100''), (''filter'', ''EPSANDSINGLES'')]))"

lemma artist_releases_lists: "artist_releases s print artist = unique_releases print [] (artist_lists s artist)"
  by (simp add: artist_releases_def artist_lists_def Let_def)

text \<open>
  The page of an artist lists every release of the two lists that has an id, each id once, albums
  before singles and in the order of the catalogue; unless they are skipped, the tracks follow the
  releases in the same order.\<close>

lemma artist_page_lists_releases_once:
  assumes "get_artist s print None (Some artist) skip_tracks = Inr v"
  shows "\<exists>rs. jget ''albums'' v = Some (JObj [(''items'', JArr rs)])
       \<and> subseq rs (artist_lists s artist) \<and> distinct (map (printed_id print) rs)
       \<and> (\<forall>item \<in> set (artist_lists s artist). jget ''id'' item \<noteq> None \<longrightarrow>
            (\<exists>r \<in> set rs. printed_id print r = printed_id print item))
       \<and> (\<not> skip_tracks \<longrightarrow>
            jget ''tracks'' v = Some (JArr (concat (map (fetch_album_tracks s) (release_ids rs)))))"
proof -
  let ?rs = "artist_releases s print artist"
  have u: "distinct (map (printed_id print) ?rs)"
      "set (map (printed_id print) ?rs) = {Some i | i. Some i \<in> printed_id print ` set (artist_lists s artist)}"
      "subseq ?rs (artist_lists s artist)"
    using unique_ids [of print "[]" "artist_lists s artist"] by (simp_all add: artist_releases_lists)
  have kept: "\<exists>r \<in> set ?rs. printed_id print r = printed_id print item"
    if item: "item \<in> set (artist_lists s artist)" "jget ''id'' item \<noteq> None" for item
  proof -
    obtain i where "printed_id print item = Some i" using item(2) by (auto simp: printed_id_def)
    then have "printed_id print item \<in> set (map (printed_id print) ?rs)" using u(2) item(1) by force
    then show ?thesis by auto
  qed
  have v: "jget ''albums'' v = Some (JObj [(''items'', JArr ?rs)])"
      "\<not> skip_tracks \<longrightarrow> jget ''tracks'' v = Some (JArr (concat (map (fetch_album_tracks s) (release_ids ?rs))))"
    using assms by (auto simp: get_artist_def artist_page_def Let_def split: if_splits)
  show ?thesis using u(1,3) kept v by blast
qed

definition artist_site :: site where
  "artist_site =
     \<lparr>catalog_answer = (\<lambda>u p.
        if map_of p ''filter'' = None
        then Inr (JObj [(''items'', JArr [JObj [(''id'', JInt 1)], JObj [(''id'', JInt 2)]])])
        else Inr (JObj [(''items'', JArr [JObj [(''id'', JInt 2)], JObj [(''id'', JInt 3)]])])),
      country = ''US'', api_version = ''2''\<rparr>"

definition print_demo :: "json \<Rightarrow> string" where
  "print_demo v = (case v of JInt i \<Rightarrow> show_int i | _ \<Rightarrow> [])"

theorem artist_page_lists_releases_once_witness:
  "\<exists>rs. distinct (map (printed_id print_demo) rs)
      \<and> (\<exists>r \<in> set rs. printed_id print_demo r = printed_id print_demo (JObj [(''id'', JInt 3)]))"
proof -
  obtain v where v: "get_artist artist_site print_demo None (Some 9) True = Inr v"
    by (simp add: get_artist_def artist_page_def Let_def)
  have i: "JObj [(''id'', JInt 3)] \<in> set (artist_lists artist_site 9)" "jget ''id'' (JObj [(''id'', JInt 3)]) \<noteq> None"
    by (simp_all add: artist_lists_def Let_def listed_def make_catalog_authed_request_def artist_site_def
        array_or_empty_def get_array_def)
  from artist_page_lists_releases_once [OF v] obtain rs where
    "distinct (map (printed_id print_demo) rs)"
    "\<forall>item \<in> set (artist_lists artist_site 9). jget ''id'' item \<noteq> None \<longrightarrow>
       (\<exists>r \<in> set rs. printed_id print_demo r = printed_id print_demo item)"
    by blast
  then show ?thesis using i by blast
qed

section \<open>Covers\<close>

lemma join_no_delim: "gs \<noteq> [] \<Longrightarrow> (\<And>g. g \<in> set gs \<Longrightarrow> d \<notin> set g) \<Longrightarrow>
  split_on d (join_with d gs @ d # t) = gs @ split_on d t"
proof (induction d gs rule: join_with.induct)
  case (2 d w)
  then show ?case by (simp add: split_on_no_delim)
next
  case (3 d w v vs)
  then show ?case using split_on_no_delim [of d w "join_with d (v # vs) @ d # t"] by simp
qed simp

lemma slashes_plain: "CHR ''-'' \<notin> set w \<Longrightarrow> slashes w = w"
  by (induction w) (auto simp: slashes_def)

lemma slashes_join: "(\<And>g. g \<in> set gs \<Longrightarrow> CHR ''-'' \<notin> set g) \<Longrightarrow>
  slashes (join_with (CHR ''-'') gs) = join_with (CHR ''/'') gs"
proof (induction "CHR ''-''" gs rule: join_with.induct)
  case (2 w)
  then show ?case by (simp add: slashes_plain)
next
  case (3 w v vs)
  have "slashes w = w" using 3(2) by (simp add: slashes_plain)
  moreover have "slashes (join_with (CHR ''-'') (v # vs)) = join_with (CHR ''/'') (v # vs)" using 3 by simp
  ultimately show ?case by (simp add: slashes_def)
qed (simp add: slashes_def)

text \<open>
  The address of an image and the id of its cover correspond: from every address the cover routes
  build for an id of five groups, the similar-album and similar-artist routes read that id back.\<close>

lemma cover_id_is_read_back:
  assumes "length gs = 5" "\<And>g. g \<in> set gs \<Longrightarrow> CHR ''-'' \<notin> set g \<and> CHR ''/'' \<notin> set g"
  shows "extract_uuid_from_tidal_url (image_url (join_with (CHR ''-'') gs) file) = Some (join_with (CHR ''-'') gs)"
proof -
  have ne: "gs \<noteq> []" using assms(1) by auto
  have tail: "split_on (CHR ''/'') (join_with (CHR ''/'') gs @ CHR ''/'' # file) = gs @ split_on (CHR ''/'') file"
    using assms(2) by (intro join_no_delim [OF ne]) blast
  have url: "image_url (join_with (CHR ''-'') gs) file =
      ''https:'' @ CHR ''/'' # ([] @ CHR ''/'' # (''resources.tidal.com'' @ CHR ''/'' # (''images'' @ CHR ''/'' #
        (join_with (CHR ''/'') gs @ CHR ''/'' # file))))"
    using assms(2) by (simp add: image_url_def slashes_join)
  have "split_on (CHR ''/'') (image_url (join_with (CHR ''-'') gs) file)
      = [''https:'', [], ''resources.tidal.com'', ''images''] @ gs @ split_on (CHR ''/'') file"
    unfolding url by (subst split_on_no_delim, simp)+ (simp only: tail append_Cons append_Nil)
  moreover have "split_on (CHR ''/'') file \<noteq> []" by simp
  ultimately show ?thesis using assms(1) by (simp add: extract_uuid_from_tidal_url_def Let_def)
qed

theorem cover_id_is_read_back_witness:
  "extract_uuid_from_tidal_url (image_url ''aa-bb-cc-dd-ee'' ''80x80.jpg'') = Some ''aa-bb-cc-dd-ee''"
proof -
  have "CHR ''-'' \<notin> set g \<and> CHR ''/'' \<notin> set g" if "g \<in> set [''aa'', ''bb'', ''cc'', ''dd'', ''ee'']" for g
    using that by auto
  then have "extract_uuid_from_tidal_url (image_url (join_with (CHR ''-'') [''aa'', ''bb'', ''cc'', ''dd'', ''ee'']) ''80x80.jpg'')
      = Some (join_with (CHR ''-'') [''aa'', ''bb'', ''cc'', ''dd'', ''ee''])"
    by (intro cover_id_is_read_back) (simp_all only: list.size, simp)
  then show ?thesis by simp
qed

section \<open>Similar albums\<close>

text \<open>
  The similar albums are the related ones, in order: one entry for each related album with an id,
  linked to that album, whether or not its details were included.\<close>

lemma similar_albums_keep_the_relation:
  assumes "catalog_answer s
     (''https://openapi.tidal.com/v2/albums/'' @ show_int album @ ''/relationships/similarAlbums'')
     [(''page[cursor]'', unwrap_or cursor []), (''countryCode'', country s),
      (''include'', ''similarAlbums,similarAlbums.coverArt,similarAlbums.artists'')] = Inr payload"
  shows "\<exists>albums. get_similar_albums s album cursor = Inr (JObj [(''version'', JStr (api_version s)), (''albums'', JArr albums)])
       \<and> map (\<lambda>a. (jget ''id'' a, jget ''url'' a)) albums
         = map (\<lambda>aid. (Some (JInt (id_number aid)), Some (JStr (''http://www.tidal.com/album/'' @ aid))))
             (List.map_filter (jget_str ''id'') (array_or_empty ''data'' payload))"
proof -
  have "map (\<lambda>a. (jget ''id'' a, jget ''url'' a)) (List.map_filter (similar_album inc) es)
      = map (\<lambda>aid. (Some (JInt (id_number aid)), Some (JStr (''http://www.tidal.com/album/'' @ aid))))
          (List.map_filter (jget_str ''id'') es)" for inc es
    by (induction es) (auto simp: List.map_filter_simps similar_album_def Let_def split: option.splits)
  then show ?thesis
    using assms by (simp add: get_similar_albums_def make_catalog_authed_request_def)
qed

definition related_site :: site where
  "related_site =
     \<lparr>catalog_answer = (\<lambda>_ _. Inr (JObj [(''data'', JArr [JObj [(''id'', JStr ''5'')], JNull, JObj [(''id'', JStr ''6'')]])])),
      country = ''US'', api_version = ''2''\<rparr>"

theorem similar_albums_keep_the_relation_witness:
  "\<exists>albums. get_similar_albums related_site 1 None = Inr (JObj [(''version'', JStr ''2''), (''albums'', JArr albums)])
     \<and> length albums = 2"
proof -
  let ?p = "JObj [(''data'', JArr [JObj [(''id'', JStr ''5'')], JNull, JObj [(''id'', JStr ''6'')]])]"
  have a: "catalog_answer related_site u q = Inr ?p" for u q by (simp add: related_site_def)
  have two: "length (List.map_filter (jget_str ''id'') (array_or_empty ''data'' ?p)) = 2"
    by (simp add: array_or_empty_def get_array_def List.map_filter_simps jget_str_def)
  from similar_albums_keep_the_relation [OF a, of 1 None] obtain albums where
    g: "get_similar_albums related_site 1 None = Inr (JObj [(''version'', JStr (api_version related_site)), (''albums'', JArr albums)])"
    and m: "map (\<lambda>a. (jget ''id'' a, jget ''url'' a)) albums
         = map (\<lambda>aid. (Some (JInt (id_number aid)), Some (JStr (''http://www.tidal.com/album/'' @ aid))))
             (List.map_filter (jget_str ''id'') (array_or_empty ''data'' ?p))"
    by blast
  have "length albums = 2" using arg_cong [OF m, of length] two by (simp only: length_map)
  then show ?thesis using g by (auto simp: related_site_def)
qed

section \<open>Lyrics\<close>

definition tag_text :: "string \<Rightarrow> string" where
  "tag_text t = CHR ''['' # t @ [CHR '']'']"

definition timed_line :: "string list \<times> string \<Rightarrow> string" where
  "timed_line l = concat (map tag_text (fst l)) @ snd l"

text \<open>A line of an LRC file: some time tags, then text without padding that does not start with a bracket.\<close>

definition time_tag :: "string \<Rightarrow> bool" where
  "time_tag t \<longleftrightarrow> t \<noteq> [] \<and> is_ascii_digit (hd t) \<and> CHR '']'' \<notin> set t \<and> NEWLINE \<notin> set t"

definition plain_text :: "string \<Rightarrow> bool" where
  "plain_text s \<longleftrightarrow> trim s = s \<and> NEWLINE \<notin> set s \<and> (s = [] \<or> hd s \<noteq> CHR ''['')"

definition timed :: "string list \<times> string \<Rightarrow> bool" where
  "timed l \<longleftrightarrow> fst l \<noteq> [] \<and> list_all time_tag (fst l) \<and> plain_text (snd l)"

lemma split_tag_tag: "CHR '']'' \<notin> set t \<Longrightarrow> split_tag (tag_text t @ s) = Some (t, s)"
proof -
  assume t: "CHR '']'' \<notin> set t"
  have "takeWhile (\<lambda>x. x \<noteq> CHR '']'') (t @ CHR '']'' # s) = t"
       "dropWhile (\<lambda>x. x \<noteq> CHR '']'') (t @ CHR '']'' # s) = CHR '']'' # s"
    using t by (induction t) auto
  then show ?thesis by (simp add: split_tag_def tag_text_def)
qed

lemma trim_first: "trim s = s \<Longrightarrow> s = [] \<or> \<not> is_ascii_space (hd s)"
proof (cases "s \<noteq> [] \<and> is_ascii_space (hd s)")
  case True
  then have "length (dropWhile is_ascii_space s) < length s"
    using length_dropWhile_le [of is_ascii_space "tl s"] by (cases s) auto
  moreover have "length (trim s) \<le> length (dropWhile is_ascii_space s)"
    using length_dropWhile_le [of is_ascii_space "rev (dropWhile is_ascii_space s)"] by (simp add: trim_def)
  moreover assume "trim s = s"
  ultimately show ?thesis by simp
qed blast

lemma trim_last: "trim s = s \<Longrightarrow> s \<noteq> [] \<Longrightarrow> \<not> is_ascii_space (last s)"
proof -
  assume t: "trim s = s" and ne: "s \<noteq> []"
  have "dropWhile is_ascii_space s = s" using trim_first [OF t] ne by (cases s) auto
  then have "dropWhile is_ascii_space (rev s) = rev s" using t by (simp add: trim_def rev_swap)
  then show ?thesis using ne length_dropWhile_le [of is_ascii_space "rev (butlast s)"]
    by (cases s rule: rev_cases) (auto split: if_splits)
qed

lemma drop_none: "xs = [] \<or> \<not> P (hd xs) \<Longrightarrow> dropWhile P xs = xs"
  by (cases xs) auto

lemma trim_id: "s = [] \<or> \<not> is_ascii_space (hd s) \<and> \<not> is_ascii_space (last s) \<Longrightarrow> trim s = s"
  by (auto simp: trim_def drop_none hd_rev)

lemma trim_start_plain: "trim s = s \<Longrightarrow> trim_start s = s"
  using trim_first [of s] by (cases s) (auto simp: trim_start_def)

lemma bracket_no_space [simp]: "\<not> is_ascii_space (CHR ''['')" "\<not> is_ascii_space (CHR '']'')"
  by (simp_all add: is_ascii_space_def)

lemma timed_start: "list_all time_tag ts \<Longrightarrow> trim x = x \<Longrightarrow> trim_start (timed_line (ts, x)) = timed_line (ts, x)"
  by (cases ts) (auto simp: timed_line_def trim_start_plain, simp add: trim_start_def tag_text_def)

lemma strip_timed: "list_all time_tag ts \<Longrightarrow> plain_text x \<Longrightarrow> strip_tags (timed_line (ts, x)) = Some x"
proof (induction ts)
  case Nil
  have "split_tag x = None" using Nil by (cases x) (auto simp: plain_text_def split_tag_def)
  then show ?case by (subst strip_tags.simps) (simp add: timed_line_def)
next
  case (Cons t ts)
  have "timed_line (t # ts, x) = tag_text t @ timed_line (ts, x)" by (simp add: timed_line_def)
  moreover have "split_tag (tag_text t @ timed_line (ts, x)) = Some (t, timed_line (ts, x))"
    using Cons.prems by (intro split_tag_tag) (simp add: time_tag_def)
  moreover have "trim_start (timed_line (ts, x)) = timed_line (ts, x)"
    using Cons.prems by (intro timed_start) (simp_all add: plain_text_def)
  ultimately show ?case using Cons by (subst strip_tags.simps) (simp add: time_tag_def)
qed

lemma timed_trim: "timed (ts, x) \<Longrightarrow> trim (timed_line (ts, x)) = timed_line (ts, x)"
proof (rule trim_id, rule disjI2)
  assume t: "timed (ts, x)"
  obtain t us where ts: "ts = t # us" using t by (cases ts) (auto simp: timed_def)
  obtain u vs where vs: "ts = vs @ [u]" using ts by (metis rev_exhaust list.distinct(1))
  have h: "hd (timed_line (ts, x)) = CHR ''[''" by (simp add: ts timed_line_def tag_text_def)
  have l: "last (timed_line (ts, x)) = (if x = [] then CHR '']'' else last x)"
    by (simp add: vs timed_line_def tag_text_def)
  show "\<not> is_ascii_space (hd (timed_line (ts, x))) \<and> \<not> is_ascii_space (last (timed_line (ts, x)))"
    using t trim_last [of x] by (auto simp: h l timed_def plain_text_def)
qed

lemma timed_no_newline: "timed l \<Longrightarrow> NEWLINE \<notin> set (timed_line l)"
  by (auto simp: timed_def timed_line_def tag_text_def time_tag_def plain_text_def list_all_iff NEWLINE_def)

lemma timed_not_empty: "timed l \<Longrightarrow> timed_line l \<noteq> []"
  by (cases l; cases "fst l") (auto simp: timed_def timed_line_def tag_text_def)

lemma join_lines:
  "ls \<noteq> [] \<Longrightarrow> (\<And>l. l \<in> set ls \<Longrightarrow> d \<notin> set l) \<Longrightarrow> split_on d (join_with d ls) = ls"
proof (induction d ls rule: join_with.induct)
  case (2 d w)
  then show ?case by (simp add: split_on_plain)
next
  case (3 d w v vs)
  then show ?case using split_on_no_delim [of d w "join_with d (v # vs)"] by simp
qed simp

text \<open>
  C28. Timed lyrics become their text: each line loses its time tags, however many it has, and keeps its
  text; the lines stay in order. Reading the text of a line ends for every input.\<close>

theorem timed_lyrics_become_text:
  assumes "lines \<noteq> []" "\<And>l. l \<in> set lines \<Longrightarrow> timed l"
  shows "lrc_to_text (join_with NEWLINE (map timed_line lines)) = trim (join_with NEWLINE (map snd lines))"
proof -
  have split: "split_on NEWLINE (join_with NEWLINE (map timed_line lines)) = map timed_line lines"
    using assms timed_no_newline by (intro join_lines) auto
  have "last (map timed_line lines) \<noteq> []"
    using assms timed_not_empty by (simp add: last_map)
  then have ls: "text_lines (join_with NEWLINE (map timed_line lines)) = map timed_line lines"
    by (simp add: text_lines_def split)
  have one: "strip_tags (trim (timed_line l)) = Some (snd l)" if "timed l" for l
    using that timed_trim [of "fst l" "snd l"] strip_timed [of "fst l" "snd l"] by (simp add: timed_def)
  have "List.map_filter (\<lambda>l. strip_tags (trim l)) (map timed_line lines) = map snd lines"
    using assms(2) by (induction lines) (simp_all add: List.map_filter_simps one)
  then show ?thesis by (simp add: lrc_to_text_def ls)
qed

theorem timed_lyrics_become_text_witness:
  "lrc_to_text (''[00:01.00][00:30.00]Chorus'' @ [NEWLINE] @ ''[00:05.00]'' @ [NEWLINE] @ ''[00:06.00]Line'')
     = ''Chorus'' @ [NEWLINE, NEWLINE] @ ''Line''"
proof -
  let ?ls = "[([''00:01.00'', ''00:30.00''], ''Chorus''), ([''00:05.00''], []), ([''00:06.00''], ''Line'')]"
  have t: "timed l" if "l \<in> set ?ls" for l
  proof -
    have "list_all timed ?ls" by code_simp
    then show ?thesis using that by (auto simp: list_all_iff)
  qed
  have "trim (join_with NEWLINE (map snd ?ls)) = ''Chorus'' @ [NEWLINE, NEWLINE] @ ''Line''" by code_simp
  moreover have "join_with NEWLINE (map timed_line ?ls)
      = ''[00:01.00][00:30.00]Chorus'' @ [NEWLINE] @ ''[00:05.00]'' @ [NEWLINE] @ ''[00:06.00]Line''" by code_simp
  ultimately show ?thesis using timed_lyrics_become_text [OF _ t] by (metis list.distinct(1))
qed

text \<open>
  What \<open>/lyrics\<close> answers when one of its sources fails. A busy pool or a rate limit is reported at
  once and costs no second request; lyrics of v1 are used whatever v2 says; otherwise v2 decides, and
  an error is always that of v1, never that of the fallback.\<close>

lemma lyrics_errors_are_those_of_v1:
  assumes "v1 = make_catalog_authed_request s (''https://api.tidal.com/v1/tracks/'' @ show_int track @ ''/lyrics'')
     [(''countryCode'', country s), (''locale'', ''en_US''), (''deviceType'', ''BROWSER'')]"
  shows "(\<forall>e. v1 = Inl e \<longrightarrow> busy_error e \<longrightarrow> get_lyrics s track = Inl e)
       \<and> (\<forall>data. v1 = Inr data \<longrightarrow> filled_object data \<longrightarrow> get_lyrics s track = Inr (lyrics_response s data))
       \<and> (\<forall>e. get_lyrics s track = Inl e \<longrightarrow> v1 = Inl e \<or> (\<exists>data. v1 = Inr data) \<and> e = NotFound ''Lyrics not found'')"
proof -
  have "filled_object data \<Longrightarrow> data \<noteq> JNull" for data by (auto simp: filled_object_def)
  then show ?thesis
    unfolding get_lyrics_def Let_def assms [symmetric]
    by (auto split: sum.splits option.splits if_splits)
qed

theorem lyrics_errors_are_those_of_v1_witness:
  "get_lyrics \<lparr>catalog_answer = (\<lambda>_ _. Inl (RateLimited 3)), country = ''US'', api_version = ''2''\<rparr> 5 = Inl (RateLimited 3)"
  using lyrics_errors_are_those_of_v1 [OF refl,
      of "\<lparr>catalog_answer = (\<lambda>_ _. Inl (RateLimited 3)), country = ''US'', api_version = ''2''\<rparr>" 5]
  by (simp add: make_catalog_authed_request_def)

section \<open>Search and top videos\<close>

text \<open>
  A search sends one query, for the first parameter that is set in the order ISRC, track, artist,
  album, video, playlist; without any it is a bad request.\<close>

lemma search_uses_the_first_parameter:
  "search_route s p =
     (let set = (\<lambda>v. v \<noteq> None \<and> v \<noteq> Some [])
      in if sp_i p \<noteq> None \<and> trim (the (sp_i p)) \<noteq> [] then
           make_catalog_request s ''https://api.tidal.com/v1/tracks''
             [(''isrc'', trim (the (sp_i p))), (''limit'', show_int (sp_limit p)), (''offset'', show_int (sp_offset p)),
              (''countryCode'', country s)]
         else if set (sp_s p) then
           make_catalog_request s ''https://api.tidal.com/v1/search/tracks''
             [(''query'', the (sp_s p)), (''limit'', show_int (sp_limit p)), (''offset'', show_int (sp_offset p)),
              (''countryCode'', country s)]
         else (case find (\<lambda>(v, _). set v) [(sp_a p, ''ARTISTS,TRACKS''), (sp_al p, ''ALBUMS''), (sp_v p, ''VIDEOS''),
                                           (sp_p p, ''PLAYLISTS'')] of
                 Some (v, types) \<Rightarrow>
                   make_catalog_request s TOP_HITS
                     [(''query'', the v), (''limit'', show_int (sp_limit p)), (''offset'', show_int (sp_offset p)),
                      (''types'', types), (''countryCode'', country s)]
               | None \<Rightarrow> Inl (BadRequest ''Provide one of s, a, al, v, p, or i'')))"
  by (cases "sp_i p"; cases "sp_s p"; cases "sp_a p"; cases "sp_al p"; cases "sp_v p"; cases "sp_p p")
    (simp_all add: search_route_def query_defs_def Let_def)

text \<open>
  Pages of the top videos fit together: two consecutive pages are the page of both, and the total
  counts every video of the answer, whatever page is asked for.\<close>

lemma top_video_pages_fit:
  assumes "0 \<le> n" "n < 2 ^ 63" "0 \<le> m" "m < 2 ^ 63" "0 \<le> offset" "offset + n < 2 ^ 63" "n + m < 2 ^ 63"
    and "get_top_videos s cc loc dev n offset = Inr v" "get_top_videos s cc loc dev m (offset + n) = Inr v'"
  shows "\<exists>w. get_top_videos s cc loc dev (n + m) offset = Inr w
       \<and> array_or_empty ''videos'' w = array_or_empty ''videos'' v @ array_or_empty ''videos'' v'
       \<and> jget ''total'' w = jget ''total'' v"
proof -
  have u: "as_usize x = nat x" if "0 \<le> x" "x < 2 ^ 63" for x using that by (simp add: as_usize_def)
  obtain data where d: "make_catalog_authed_request s ''https://api.tidal.com/v1/pages/mymusic_recommended_videos''
      [(''countryCode'', cc), (''locale'', loc), (''deviceType'', dev)] = Inr data"
    using assms(8) by (cases "make_catalog_authed_request s ''https://api.tidal.com/v1/pages/mymusic_recommended_videos''
      [(''countryCode'', cc), (''locale'', loc), (''deviceType'', dev)]") (auto simp: get_top_videos_def)
  have us: "as_usize (n + m) = nat n + nat m" "as_usize offset = nat offset" "as_usize (offset + n) = nat n + nat offset"
      "as_usize n = nat n" "as_usize m = nat m"
    using assms(1-7) u by (auto simp: nat_add_distrib)
  show ?thesis using assms(8,9)
    by (auto simp: get_top_videos_def d Let_def array_or_empty_def get_array_def us take_add)
qed

definition video_site :: site where
  "video_site =
     \<lparr>catalog_answer = (\<lambda>_ _. Inr (JObj [(''rows'', JArr [JObj [(''modules'', JArr
        [JObj [(''type'', JStr ''VIDEO_LIST''), (''pagedList'', JObj [(''items'', JArr [JInt 1, JInt 2, JInt 3])])]])]])])),
      country = ''US'', api_version = ''2''\<rparr>"

theorem top_video_pages_fit_witness:
  "\<exists>w. get_top_videos video_site ''US'' ''en'' ''B'' 3 0 = Inr w \<and> jget ''total'' w = Some (JInt 3)"
proof -
  obtain v v' where v: "get_top_videos video_site ''US'' ''en'' ''B'' 1 0 = Inr v"
      "get_top_videos video_site ''US'' ''en'' ''B'' 2 (0 + 1) = Inr v'" "jget ''total'' v = Some (JInt 3)"
    by (simp add: get_top_videos_def make_catalog_authed_request_def video_site_def page_modules_def array_or_empty_def
        get_array_def module_videos_def Let_def jget_str_def object_at_def starts_with_def)
  show ?thesis using top_video_pages_fit [OF _ _ _ _ _ _ _ v(1,2)] v(3) by auto
qed

section \<open>Findings\<close>

text \<open>A page of an album that fails is left out without a trace: the answer is a success with fewer tracks.\<close>

theorem lost_page_goes_unnoticed:
  assumes "make_catalog_authed_request s (album_url album) [(''countryCode'', country s)] = Inr (JObj kvs)"
    and "\<And>page. page \<in> set (album_pages offset count) \<Longrightarrow> fetch_album_page s album page = Inl e"
  shows "get_album s album count offset =
     Inr (JObj [(''version'', JStr (api_version s)), (''data'', json_set ''items'' (JArr []) (JObj kvs))])"
proof -
  have "concat (map (case_sum (\<lambda>_. []) page_items) (map (fetch_album_page s album) (album_pages offset count))) = []"
    using assms(2) by simp
  then show ?thesis using assms(1) by (simp only: get_album_def and_then.simps Let_def)
qed

text \<open>One request for an album starts a hundredth as many requests upstream as its \<open>limit\<close> says.\<close>

theorem album_limit_is_unbounded: "length (album_pages offset (100 * int n)) = n"
  by (simp add: pages_count)

text \<open>When neither list of releases can be read, the artist looks like one without releases.\<close>

theorem outage_looks_like_an_empty_artist:
  "(\<And>u p. catalog_answer s u p = Inl e) \<Longrightarrow>
   get_artist s print None (Some artist) skip_tracks =
     Inr (JObj [(''version'', JStr (api_version s)), (''albums'', JObj [(''items'', JArr [])]), (''tracks'', JArr [])])"
  by (simp add: get_artist_def artist_page_def artist_releases_def listed_def make_catalog_authed_request_def Let_def
      release_ids_def List.map_filter_simps)

end
