(* ===== verification/Notifier.thy ===== *)
theory Notifier
  imports Lifecycle Settings "HOL-Library.List_Lexorder" "HOL-Library.Char_ord"
begin

text \<open>
  \<open>src/notifier.rs\<close> and \<open>src/admin/alerts.rs\<close>: Discord alerts and reports. The alerts are the effects
  the account operations leave in their outbox (\<open>Selection\<close>); here they become messages, throttled to
  one of a kind in 15 minutes. The parser of URLs (crate \<open>url\<close>) and the answer of Discord are
  parameters; the time of a message is text the clock gives. Symbols outside ASCII are their UTF-8 bytes.
\<close>

section \<open>Webhooks\<close>

record parsed_url =
  scheme :: string
  host :: "string option"
  username :: string
  password :: "string option"
  port :: "nat option"
  query :: "string option"
  fragment :: "string option"
  segments :: "string list"
  rendered :: string

definition DISCORD_HOSTS :: "string list" where
  "DISCORD_HOSTS = [''discord.com'', ''discordapp.com'', ''canary.discord.com'', ''ptb.discord.com'']"

definition validate_webhook_url :: "(string \<Rightarrow> parsed_url option) \<Rightarrow> string \<Rightarrow> string + string" where
  "validate_webhook_url parse raw =
     (case parse (trim raw) of
        None \<Rightarrow> Inl ''Invalid Discord webhook URL''
      | Some u \<Rightarrow>
          if scheme u \<noteq> ''https'' \<or> unwrap_or (host u) [] \<notin> set DISCORD_HOSTS \<or> username u \<noteq> []
             \<or> password u \<noteq> None \<or> port u \<noteq> None \<or> query u \<noteq> None \<or> fragment u \<noteq> None
             \<or> length (segments u) \<noteq> 4 \<or> segments u ! 0 \<noteq> ''api'' \<or> segments u ! 1 \<noteq> ''webhooks''
             \<or> segments u ! 2 = [] \<or> segments u ! 3 = []
          then Inl ''Use a Discord HTTPS webhook URL (https://discord.com/api/webhooks/ID/TOKEN)''
          else Inr (rendered u))"

section \<open>Messages\<close>

definition field_of :: "string \<Rightarrow> string \<Rightarrow> bool \<Rightarrow> json" where
  "field_of name value inl = JObj [(''name'', JStr name), (''value'', JStr value), (''inline'', JBool inl)]"

definition embed :: "string \<Rightarrow> string \<Rightarrow> string \<Rightarrow> int \<Rightarrow> json list \<Rightarrow> json" where
  "embed stamp title description color entries =
     JObj [(''embeds'', JArr [JObj
       [(''title'', JStr title), (''description'', JStr description), (''color'', JInt color),
        (''fields'', JArr entries), (''footer'', JObj [(''text'', JStr ''HiFi API'')]),
        (''timestamp'', JStr stamp)]])]"

definition RED :: int where "RED = 16273737"
definition GREEN :: int where "GREEN = 4176208"
definition AMBER :: int where "AMBER = 13801762"
definition BLUE :: int where "BLUE = 2060267"

definition SIREN :: string where "SIREN = [CHR 0xF0, CHR 0x9F, CHR 0x9A, CHR 0xA8]"
definition STOP :: string where "STOP = [CHR 0xF0, CHR 0x9F, CHR 0x9B, CHR 0x91]"
definition CHECK :: string where "CHECK = [CHR 0xE2, CHR 0x9C, CHR 0x85]"
definition WARNING :: string where "WARNING = [CHR 0xE2, CHR 0x9A, CHR 0xA0, CHR 0xEF, CHR 0xB8, CHR 0x8F]"
definition NO_ENTRY :: string where "NO_ENTRY = [CHR 0xE2, CHR 0x9B, CHR 0x94]"
definition CREDIT_CARD :: string where "CREDIT_CARD = [CHR 0xF0, CHR 0x9F, CHR 0x92, CHR 0xB3]"
definition CHART :: string where "CHART = [CHR 0xF0, CHR 0x9F, CHR 0x93, CHR 0x8A]"
definition PEOPLE :: string where "PEOPLE = [CHR 0xF0, CHR 0x9F, CHR 0x91, CHR 0xA5]"
definition DASH :: string where "DASH = [CHR 0xE2, CHR 0x80, CHR 0x94]"
definition DOT :: string where "DOT = [CHR 0xC2, CHR 0xB7]"

definition of_total :: "nat \<Rightarrow> nat \<Rightarrow> string" where
  "of_total healthy pool = show_nat healthy @ ''/'' @ show_nat pool"

definition account_field :: "string \<Rightarrow> json" where
  "account_field name = field_of ''Account'' name True"

text \<open>The key an alert is throttled under and its message; an effect that is no alert has neither.\<close>

fun alert_message :: "string \<Rightarrow> effect \<Rightarrow> (string \<times> json) option" where
  "alert_message stamp (AlertForbidden name healthy pool) =
     Some (''403'', embed stamp (SIREN @ '' Account 403 '' @ DASH @ '' suspension risk'')
       ''Tidal forbade this account. Check whether it needs fresh credentials.'' RED
       [account_field name, field_of ''Healthy'' (of_total healthy pool) True])"
| "alert_message stamp (AlertAllDown pool) =
     Some (''down'', embed stamp (STOP @ '' All accounts down'')
       ''No active account available. Playback is returning 503.'' RED
       [field_of ''Total accounts'' (show_nat pool) True])"
| "alert_message stamp (AlertHealed name healthy pool) =
     Some (''healed'', embed stamp (CHECK @ '' Account recovered'')
       ''Auto-heal refreshed credentials and returned the account to rotation.'' GREEN
       [account_field name, field_of ''Healthy'' (of_total healthy pool) True])"
| "alert_message stamp (AlertCatalogOnly name) =
     Some (''catalog'', embed stamp (WARNING @ '' Account moved to catalog-only'')
       ''Three automatic checks in a row returned PREVIEW. The account now serves metadata only.'' AMBER
       [account_field name])"
| "alert_message stamp (AlertFreePlan name) =
     Some (''free:'' @ name, embed stamp (WARNING @ '' Account moved to catalog-only'')
       ''Tidal reports a FREE plan. The account now serves metadata only.'' AMBER [account_field name])"
| "alert_message stamp (AlertAuthDisabled name hours suspended) =
     (let reason = (if suspended
            then ''Token refresh has failed for '' @ show_nat hours
                 @ '' h with HTTP 403 abuse_detected (Tidal reports the account as suspended).''
            else ''Token refresh has failed with HTTP 403 for '' @ show_nat hours @ '' h.'')
      in Some (''auth_disabled:'' @ name, embed stamp (NO_ENTRY @ '' Account switched off'')
           (reason @ '' The account stays off until it is turned on in the admin panel.'') RED
           [account_field name]))"
| "alert_message stamp (AlertSubscription name problem) =
     Some (''subscription:'' @ name, embed stamp (CREDIT_CARD @ '' Subscription needs attention'') problem AMBER
       [account_field name])"
| "alert_message stamp _ = None"

section \<open>Sending\<close>

datatype post = TimedOutPost | Unreachable | Answered nat

fun send_to_discord :: "post \<Rightarrow> string + unit" where
  "send_to_discord TimedOutPost = Inl ''Discord request timed out''"
| "send_to_discord Unreachable = Inl ''Could not reach Discord''"
| "send_to_discord (Answered s) =
     (if 200 \<le> s \<and> s < 300 then Inr () else Inl (''Discord returned HTTP '' @ show_nat s))"

definition MIN_INTERVAL_SECS :: int where "MIN_INTERVAL_SECS = 900"

type_synonym last_sent = "string \<times> string \<Rightarrow> int option"

definition configured :: "app_settings \<Rightarrow> bool" where
  "configured s \<longleftrightarrow> discord_webhook_url s \<noteq> []"

text \<open>Whether a message is posted, and what is remembered: the time is noted before the post is made,
  so the outcome of the post does not matter to it.\<close>

definition send_throttled :: "string \<Rightarrow> string \<Rightarrow> int \<Rightarrow> last_sent \<Rightarrow> bool \<times> last_sent" where
  "send_throttled url kind now sent =
     (if url = [] then (False, sent)
      else (case sent (kind, url) of
              Some prev \<Rightarrow>
                if now - prev < MIN_INTERVAL_SECS then (False, sent) else (True, sent((kind, url) \<mapsto> now))
            | None \<Rightarrow> (True, sent((kind, url) \<mapsto> now))))"

text \<open>One alert: the message posted to which webhook, if any.\<close>

definition raise_alert :: "app_settings \<Rightarrow> string \<Rightarrow> int \<Rightarrow> effect \<Rightarrow> last_sent \<Rightarrow> (string \<times> json) option \<times> last_sent" where
  "raise_alert s stamp now e sent =
     (case alert_message stamp e of
        None \<Rightarrow> (None, sent)
      | Some (kind, message) \<Rightarrow>
          (case send_throttled (discord_webhook_url s) kind now sent of
             (True, sent') \<Rightarrow> (Some (discord_webhook_url s, message), sent')
           | (False, sent') \<Rightarrow> (None, sent')))"

definition send_report :: "app_settings \<Rightarrow> post \<Rightarrow> string + unit" where
  "send_report s answer =
     (if discord_webhook_url s = [] then Inl ''Discord webhook is not configured'' else send_to_discord answer)"

section \<open>Reports\<close>

definition status_report ::
    "string \<Rightarrow> nat \<Rightarrow> nat \<Rightarrow> nat \<Rightarrow> nat \<Rightarrow> nat \<Rightarrow> nat \<Rightarrow> string \<Rightarrow> json" where
  "status_report stamp healthy pool total_requests total_errors cache_hits cache_misses proxy_summary =
     embed stamp (if healthy > 0 then CHART @ '' Status '' @ DASH @ '' operational''
               else CHART @ '' Status '' @ DASH @ '' DOWN'')
       ''On-demand snapshot from the admin panel.'' (if healthy > 0 then BLUE else RED)
       [field_of ''Accounts'' (of_total healthy pool @ '' healthy'') True,
        field_of ''Traffic'' (show_nat total_requests @ '' requests '' @ DOT @ '' '' @ show_nat total_errors @ '' errors'') True,
        field_of ''Cache'' (show_nat cache_hits @ '' hits '' @ DOT @ '' '' @ show_nat cache_misses @ '' misses'') True,
        field_of ''Proxies'' proxy_summary True]"

definition REPORT_FIELDS :: nat where "REPORT_FIELDS = 25"

definition accounts_report :: "string \<Rightarrow> nat \<Rightarrow> (string \<times> string) list \<Rightarrow> json" where
  "accounts_report stamp pool lines =
     (let entries = map (\<lambda>(code, st). field_of code st True) (take REPORT_FIELDS lines);
          entries = (if entries = [] then [field_of ''No accounts'' ''Add one via the admin panel.'' False] else entries)
      in embed stamp (PEOPLE @ '' Accounts roster'')
           (show_nat pool @ '' account(s). Codenames are stable per id order within a report.'') BLUE entries)"

definition test_message :: "string \<Rightarrow> json" where
  "test_message stamp = embed stamp (CHECK @ '' Discord alerts working'')
     ''Test alert from the HiFi API admin panel. Ban and outage alerts will arrive as embeds like this one.'' GREEN []"

section \<open>The handlers\<close>

definition alert_answer :: "string \<Rightarrow> string + unit \<Rightarrow> app_error + json" where
  "alert_answer message sent =
     (case sent of Inr _ \<Rightarrow> Inr (JObj [(''message'', JStr message)]) | Inl e \<Rightarrow> Inl (BadRequest e))"

definition alert_test :: "app_settings \<Rightarrow> post \<Rightarrow> app_error + json" where
  "alert_test s answer = alert_answer ''Test alert sent to Discord'' (send_report s answer)"

definition report_line :: "nat \<times> account \<Rightarrow> string \<times> string" where
  "report_line p =
     (''TIDAL-'' @ show_nat (fst p + 1),
      (if is_active (snd p) then CHECK @ '' active'' else NO_ENTRY @ '' inactive'')
      @ '' '' @ DOT @ '' '' @ show_nat (request_count (snd p)) @ '' req '' @ DOT @ '' ''
      @ show_nat (error_count (snd p)) @ '' err'')"

record report_world =
  hits_now :: nat
  misses_now :: nat
  proxies :: json

definition proxy_line :: "json \<Rightarrow> string" where
  "proxy_line st =
     (if unwrap_or (jget_bool ''enabled'' st) False
      then unwrap_or (jget_str ''current'' st) (''resolving'' @ [CHR 0xE2, CHR 0x80, CHR 0xA6])
      else ''direct (proxies off)'')"

text \<open>The totals are \<open>u64\<close> and stay far below their range. Ids are compared as strings.\<close>

definition report_payload ::
    "string \<Rightarrow> report_world \<Rightarrow> account list \<Rightarrow> string \<Rightarrow> app_error + json" where
  "report_payload stamp w accs kind =
     (if kind = ''status''
      then Inr (status_report stamp (length (filter is_active accs)) (length accs)
                  (sum_list (map request_count accs)) (sum_list (map error_count accs))
                  (hits_now w) (misses_now w) (proxy_line (proxies w)))
      else if kind = ''accounts''
      then Inr (accounts_report stamp (length accs)
                  (map report_line (enumerate 0 (sort_key acc_id accs))))
      else Inl (BadRequest (''Unknown report kind '' @ [CHR 0x27] @ kind @ [CHR 0x27] @ '' (use status|accounts)'')))"

definition alert_report ::
    "string \<Rightarrow> report_world \<Rightarrow> account list \<Rightarrow> string \<Rightarrow> app_settings \<Rightarrow> post \<Rightarrow>
     (app_error + json) \<times> json option" where
  "alert_report stamp w accs kind s answer =
     (case report_payload stamp w accs kind of
        Inl e \<Rightarrow> (Inl e, None)
      | Inr payload \<Rightarrow>
          (alert_answer ''Report sent to Discord'' (send_report s answer),
           if discord_webhook_url s = [] then None else Some payload))"

definition update_webhook ::
    "(string \<Rightarrow> parsed_url option) \<Rightarrow> string \<Rightarrow> bool \<Rightarrow> (string \<Rightarrow> bool) \<Rightarrow> kv_store option \<Rightarrow> kv_store option \<Rightarrow>
     app_settings \<Rightarrow> (app_error + json) \<times> kv_store option \<times> kv_store option \<times> app_settings" where
  "update_webhook parse raw db_ok ok db store s =
     (case validate_webhook_url parse raw of
        Inl e \<Rightarrow> (Inl (BadRequest e), db, store, s)
      | Inr url \<Rightarrow>
          (case set_discord_webhook_url url db_ok ok db store s of
             (done_, db', store', s') \<Rightarrow>
               ((if done_ then Inr (JObj [(''alerts'', JObj [(''discord_configured'', JBool True)])])
                 else Inl DB_ERROR), db', store', s')))"

definition delete_webhook ::
    "bool \<Rightarrow> (string \<Rightarrow> bool) \<Rightarrow> kv_store option \<Rightarrow> kv_store option \<Rightarrow>
     app_settings \<Rightarrow> (app_error + json) \<times> kv_store option \<times> kv_store option \<times> app_settings" where
  "delete_webhook db_ok ok db store s =
     (case set_discord_webhook_url [] db_ok ok db store s of
        (done_, db', store', s') \<Rightarrow>
          ((if done_ then Inr (JObj [(''alerts'', JObj [(''discord_configured'', JBool False)])])
            else Inl DB_ERROR), db', store', s'))"

end
