(* ===== verification/NotifierProps.thy ===== *)
theory NotifierProps
  imports Notifier "HOL-Library.Multiset"
begin

text \<open>
  Properties of the alerts: how far apart messages of one kind are and that no alert is dropped for
  another reason, which webhooks the panel accepts, and that a report names no account.
\<close>

section \<open>Throttling\<close>

text \<open>The messages posted for a run of alerts: the webhook, the kind and the time of each.\<close>

fun posts :: "(string \<times> string \<times> int) list \<Rightarrow> last_sent \<Rightarrow> (string \<times> string \<times> int) list" where
  "posts [] sent = []"
| "posts ((url, kind, now) # rs) sent =
     (case send_throttled url kind now sent of
        (True, sent') \<Rightarrow> (url, kind, now) # posts rs sent'
      | (False, sent') \<Rightarrow> posts rs sent')"

definition spaced :: "string \<times> string \<times> int \<Rightarrow> string \<times> string \<times> int \<Rightarrow> bool" where
  "spaced p q \<longleftrightarrow> (case (p, q) of ((u, k, t), (u', k', t')) \<Rightarrow> u = u' \<and> k = k' \<longrightarrow> t + MIN_INTERVAL_SECS \<le> t')"

lemma posts_after:
  "sent (k, u) = Some t \<Longrightarrow> q \<in> set (posts rs sent) \<Longrightarrow> spaced (u, k, t) q"
proof (induction rs arbitrary: sent t)
  case (Cons r rs)
  obtain url kind now where r: "r = (url, kind, now)" by (cases r)
  obtain b sent' where s: "send_throttled url kind now sent = (b, sent')" by fastforce
  have q: "b \<and> q = (url, kind, now) \<or> q \<in> set (posts rs sent')"
    using Cons.prems(2) r s by (cases b) auto
  have same: "b \<Longrightarrow> (kind, url) = (k, u) \<Longrightarrow> t + MIN_INTERVAL_SECS \<le> now \<and> sent' (k, u) = Some now"
    using s Cons.prems(1) by (auto simp: send_throttled_def split: if_splits option.splits)
  have other: "\<not> b \<or> (kind, url) \<noteq> (k, u) \<Longrightarrow> sent' (k, u) = Some t"
    using s Cons.prems(1) by (auto simp: send_throttled_def split: if_splits option.splits)
  show ?case
  proof (cases "b \<and> (kind, url) = (k, u)")
    case True
    have "spaced (u, k, now) q" if "q \<in> set (posts rs sent')"
      using Cons.IH [OF _ that, of now] same True by simp
    then show ?thesis using q same True
      by (cases q) (auto simp: spaced_def MIN_INTERVAL_SECS_def)
  next
    case False
    then have "sent' (k, u) = Some t" using other by blast
    then show ?thesis using q False Cons.IH [of sent' t] by (cases q) (auto simp: spaced_def)
  qed
qed simp

lemma posts_cover:
  "(u, k, t) \<in> set rs \<Longrightarrow> u \<noteq> [] \<Longrightarrow>
   \<exists>t'. ((u, k, t') \<in> set (posts rs sent) \<or> sent (k, u) = Some t') \<and> t - t' < MIN_INTERVAL_SECS"
proof (induction rs arbitrary: sent)
  case (Cons r rs)
  obtain url kind now where r: "r = (url, kind, now)" by (cases r)
  obtain b sent' where s: "send_throttled url kind now sent = (b, sent')" by fastforce
  have step: "sent' (k, u) = Some t' \<Longrightarrow> (u, k, t') \<in> set (posts (r # rs) sent) \<or> sent (k, u) = Some t'" for t'
    using s r by (cases b) (auto simp: send_throttled_def split: if_splits option.splits)
  show ?case
  proof (cases "(u, k, t) = r")
    case True
    then show ?thesis using r s Cons.prems(2)
      by (cases b) (auto simp: send_throttled_def MIN_INTERVAL_SECS_def split: if_splits option.splits)
  next
    case False
    then obtain t' where t': "(u, k, t') \<in> set (posts rs sent') \<or> sent' (k, u) = Some t'" "t - t' < MIN_INTERVAL_SECS"
      using Cons.IH [of sent'] Cons.prems by auto
    have "(u, k, t') \<in> set (posts (r # rs) sent) \<or> sent (k, u) = Some t'"
      using t'(1) step s r by (cases b) auto
    then show ?thesis using t'(2) by blast
  qed
qed simp

text \<open>
  C26. Discord is not flooded and nothing else is lost: two messages of one kind to one webhook are stamp
  least 15 minutes apart, and an alert that is not posted follows a message of its kind that is
  younger than that.\<close>

theorem alerts_are_spaced:
  "sorted_wrt spaced (posts rs sent)
   \<and> (\<forall>u k t. (u, k, t) \<in> set rs \<longrightarrow> u \<noteq> [] \<longrightarrow>
        (\<exists>t'. ((u, k, t') \<in> set (posts rs sent) \<or> sent (k, u) = Some t') \<and> t - t' < MIN_INTERVAL_SECS))"
proof (intro conjI allI impI posts_cover)
  show "sorted_wrt spaced (posts rs sent)"
  proof (induction rs arbitrary: sent)
    case (Cons r rs)
    obtain url kind now where r: "r = (url, kind, now)" by (cases r)
    obtain b sent' where s: "send_throttled url kind now sent = (b, sent')" by fastforce
    have "b \<Longrightarrow> sent' (kind, url) = Some now"
      using s by (auto simp: send_throttled_def split: if_splits option.splits)
    then show ?case using Cons.IH [of sent'] posts_after [of sent' kind url now _ rs] r s by (cases b) auto
  qed simp
qed

theorem alerts_are_spaced_witness:
  "posts [(''u'', ''403'', 0), (''u'', ''403'', 899), (''u'', ''403'', 900)] (\<lambda>_. None)
     = [(''u'', ''403'', 0), (''u'', ''403'', 900)]
   \<and> sorted_wrt spaced (posts [(''u'', ''403'', 0), (''u'', ''403'', 899), (''u'', ''403'', 900)] (\<lambda>_. None))"
proof -
  have "posts [(''u'', ''403'', 0), (''u'', ''403'', 899), (''u'', ''403'', 900)] (\<lambda>_. None)
     = [(''u'', ''403'', 0), (''u'', ''403'', 900)]"
    by (simp add: send_throttled_def MIN_INTERVAL_SECS_def)
  then show ?thesis using alerts_are_spaced by blast
qed

section \<open>Webhooks\<close>

definition discord_webhook :: "parsed_url \<Rightarrow> bool" where
  "discord_webhook u \<longleftrightarrow> scheme u = ''https'' \<and> (\<exists>h \<in> set DISCORD_HOSTS. host u = Some h)
     \<and> username u = [] \<and> password u = None \<and> port u = None \<and> query u = None \<and> fragment u = None
     \<and> (\<exists>i t. segments u = [''api'', ''webhooks'', i, t] \<and> i \<noteq> [] \<and> t \<noteq> [])"

lemma four: "length xs = 4 \<Longrightarrow> xs = [xs ! 0, xs ! 1, xs ! 2, xs ! 3]"
  by (auto simp: eval_nat_numeral length_Suc_conv)

lemma accepted_is_discord: "validate_webhook_url parse raw = Inr url \<Longrightarrow>
  \<exists>u. parse (trim raw) = Some u \<and> url = rendered u \<and> discord_webhook u"
proof -
  assume a: "validate_webhook_url parse raw = Inr url"
  then obtain u where u: "parse (trim raw) = Some u" by (auto simp: validate_webhook_url_def split: option.splits)
  have n: "[] \<notin> set DISCORD_HOSTS" by (simp add: DISCORD_HOSTS_def)
  have v: "scheme u = ''https''" "unwrap_or (host u) [] \<in> set DISCORD_HOSTS" "username u = []" "password u = None"
      "port u = None" "query u = None" "fragment u = None" "length (segments u) = 4" "segments u ! 0 = ''api''"
      "segments u ! 1 = ''webhooks''" "segments u ! 2 \<noteq> []" "segments u ! 3 \<noteq> []" "url = rendered u"
    using a by (simp_all add: validate_webhook_url_def u split: if_splits)
  have "\<exists>h \<in> set DISCORD_HOSTS. host u = Some h" using v(2) n by (cases "host u") auto
  then show ?thesis using u v four [OF v(8)] by (auto simp: discord_webhook_def)
qed

text \<open>
  The panel makes the server post to Discord only: after any request to set the webhook, it is the
  one before or an https webhook of a Discord host without credentials, port or query; a refused
  request changes neither the settings nor what is stored.\<close>

lemma panel_sets_only_discord_webhooks:
  assumes "update_webhook parse raw db_ok ok db store s = (res, db', store', s')"
  shows "(discord_webhook_url s' \<noteq> discord_webhook_url s \<longrightarrow>
            (\<exists>u. parse (trim raw) = Some u \<and> discord_webhook_url s' = rendered u \<and> discord_webhook u))
       \<and> (\<forall>e. res = Inl e \<longrightarrow> db' = db \<and> store' = store \<and> s' = s)"
  using assms accepted_is_discord [of parse raw]
  by (auto simp: update_webhook_def set_discord_webhook_url_def split: sum.splits if_splits)

definition demo_url :: parsed_url where
  "demo_url = \<lparr>scheme = ''https'', host = Some ''discord.com'', username = [], password = None, port = None,
     query = None, fragment = None, segments = [''api'', ''webhooks'', ''123'', ''token''],
     rendered = ''https://discord.com/api/webhooks/123/token''\<rparr>"

theorem panel_sets_only_discord_webhooks_witness:
  "\<exists>res db' store' s'. update_webhook (\<lambda>_. Some demo_url) ''x'' True (\<lambda>_. True) None None (settings_from_env None None)
       = (res, db', store', s') \<and> discord_webhook demo_url \<and> discord_webhook_url s' = rendered demo_url"
proof -
  have v: "validate_webhook_url (\<lambda>_. Some demo_url) ''x'' = Inr (rendered demo_url)"
    by (simp add: validate_webhook_url_def demo_url_def DISCORD_HOSTS_def)
  let ?s = "settings_from_env None None"
  have u: "update_webhook (\<lambda>_. Some demo_url) ''x'' True (\<lambda>_. True) None None ?s
      = (Inr (JObj [(''alerts'', JObj [(''discord_configured'', JBool True)])]), None, None,
         ?s\<lparr>discord_webhook_url := rendered demo_url\<rparr>)"
    by (simp add: update_webhook_def set_discord_webhook_url_def v)
  have "discord_webhook_url (?s\<lparr>discord_webhook_url := rendered demo_url\<rparr>) \<noteq> discord_webhook_url ?s"
    by (simp add: settings_from_env_def demo_url_def)
  then have "discord_webhook demo_url" using panel_sets_only_discord_webhooks [OF u] by auto
  then show ?thesis using u by auto
qed

section \<open>Reports\<close>

definition shown :: "account \<Rightarrow> bool \<times> nat \<times> nat" where
  "shown a = (is_active a, request_count a, error_count a)"

lemma sum_sorted: "sum_list (map f (sort_key k xs)) = sum_list (map f xs)" for f :: "'a \<Rightarrow> nat"
  by (metis mset_map mset_sort sum_mset_sum_list)

lemma filter_sorted: "length (filter P (sort_key k xs)) = length (filter P xs)"
  by (metis mset_filter mset_sort size_mset)

text \<open>
  A report names no account: what is sent depends only on whether each account is active and on its
  counters, in the order of the ids, and a roster has at least one entry and no more than Discord
  takes.\<close>

lemma reports_name_no_account:
  assumes "map shown (sort_key acc_id xs) = map shown (sort_key acc_id ys)"
  shows "report_payload stamp w xs kind = report_payload stamp w ys kind
       \<and> (\<exists>fs. accounts_report stamp n lines = embed stamp (PEOPLE @ '' Accounts roster'')
             (show_nat n @ '' account(s). Codenames are stable per id order within a report.'') BLUE fs
           \<and> 1 \<le> length fs \<and> length fs \<le> REPORT_FIELDS)"
proof (rule conjI)
  let ?s = "sort_key acc_id"
  have len: "length xs = length ys" using arg_cong [OF assms, of length] by simp
  have act: "length (filter is_active xs) = length (filter is_active ys)"
    using arg_cong [OF assms, of "\<lambda>l. length (filter fst l)"]
    by (simp add: filter_map comp_def shown_def filter_sorted)
  have req: "sum_list (map request_count xs) = sum_list (map request_count ys)"
    using arg_cong [OF assms, of "\<lambda>l. sum_list (map (fst \<circ> snd) l)"]
    by (simp add: comp_def shown_def sum_sorted)
  have err: "sum_list (map error_count xs) = sum_list (map error_count ys)"
    using arg_cong [OF assms, of "\<lambda>l. sum_list (map (snd \<circ> snd) l)"]
    by (simp add: comp_def shown_def sum_sorted)
  have line: "map report_line (enumerate 0 zs) = map (\<lambda>(i, b, r, e).
      (''TIDAL-'' @ show_nat (i + 1), (if b then CHECK @ '' active'' else NO_ENTRY @ '' inactive'')
       @ '' '' @ DOT @ '' '' @ show_nat r @ '' req '' @ DOT @ '' '' @ show_nat e @ '' err'')) (enumerate 0 (map shown zs))" for zs
    by (auto simp: list_eq_iff_nth_eq report_line_def shown_def nth_enumerate_eq)
  show "report_payload stamp w xs kind = report_payload stamp w ys kind"
    by (simp add: report_payload_def len act req err line assms)
  show "\<exists>fs. accounts_report stamp n lines = embed stamp (PEOPLE @ '' Accounts roster'')
             (show_nat n @ '' account(s). Codenames are stable per id order within a report.'') BLUE fs
           \<and> 1 \<le> length fs \<and> length fs \<le> REPORT_FIELDS"
    by (cases lines) (auto simp: accounts_report_def Let_def REPORT_FIELDS_def)
qed

theorem reports_name_no_account_witness:
  "report_payload [] \<lparr>hits_now = 0, misses_now = 0, proxies = JNull\<rparr>
     [account_new (\<lambda>_. None) ''i'' ''label'' ''c'' ''s'' ''secret'' None True []] ''accounts''
   = report_payload [] \<lparr>hits_now = 0, misses_now = 0, proxies = JNull\<rparr>
     [account_new (\<lambda>_. None) ''i'' [] [] [] [] None True []] ''accounts''"
  by (rule reports_name_no_account [where n = 0 and lines = "[]", THEN conjunct1]) (simp add: shown_def account_new_def)

section \<open>Findings\<close>

text \<open>The time is noted before the message is posted: an alert that Discord did not take is not sent again,
  and the next ones of its kind are dropped for 15 minutes.\<close>

theorem failed_alert_is_not_repeated:
  assumes "url \<noteq> []" "sent (kind, url) = None" "now \<le> later" "later < now + MIN_INTERVAL_SECS"
    and "send_to_discord answer = Inl e"
  shows "fst (send_throttled url kind now sent)
       \<and> \<not> fst (send_throttled url kind later (snd (send_throttled url kind now sent)))"
  using assms by (simp add: send_throttled_def)

end
