(* ===== verification/Backup.thy ===== *)
theory Backup
  imports Json Errors
begin

text \<open>
  The database schema of \<open>src/db.rs\<close> and the backup of \<open>src/admin/backup.rs\<close>: what a restore copies
  from an uploaded database into the live one, in one transaction.

  SQLite and the crate \<open>sqlx\<close> are not in the repository. A database is its tables, a table its columns
  and rows. From their documentation: a value is read only as its type, a transaction that is not
  committed leaves the database as it was, a foreign key declared with \<open>ON DELETE CASCADE\<close> is followed
  (\<open>sqlx\<close> enables foreign keys). Whether a row is accepted (keys, checks) and whether a statement fails
  are parameters.
\<close>

section \<open>Tables\<close>

datatype cell = Null | Num int | Txt string

type_synonym row = "(string \<times> cell) list"

record table =
  columns :: "string list"
  rows :: "row list"

type_synonym database = "string \<Rightarrow> table option"

text \<open>What a column that is not given gets: nothing, when it is \<open>NOT NULL\<close> without a default.\<close>

datatype column_rule = Required | Default cell

text \<open>The tables of \<open>init_pool\<close>, with the columns its migrations add.\<close>

definition MIGRATED_ACCOUNT_COLUMNS :: "(string \<times> column_rule) list" where
  "MIGRATED_ACCOUNT_COLUMNS =
     [(''auto_disabled'', Default (Num 0)), (''disabled_at'', Default (Num 0)), (''is_catalog'', Default (Num 0)),
      (''heal_failures'', Default (Num 0)), (''heal_next_retry'', Default (Num 0)),
      (''rejected_access_token'', Default Null), (''last_refresh_error'', Default Null),
      (''preview_streak'', Default (Num 0)), (''rate_limited_until'', Default (Num 0)),
      (''auth_failing_since'', Default (Num 0)), (''country_code'', Default Null),
      (''subscription_json'', Default Null), (''subscription_checked_at'', Default (Num 0)),
      (''subscription_error'', Default Null), (''subscription_error_at'', Default (Num 0))]"

definition SCHEMA :: "(string \<times> (string \<times> column_rule) list) list" where
  "SCHEMA =
     [(''accounts'',
        [(''id'', Default Null), (''label'', Default (Txt [])), (''client_id'', Required), (''client_secret'', Required),
         (''refresh_token'', Required), (''user_id'', Default Null), (''is_active'', Default (Num 1)),
         (''notes'', Default (Txt [])), (''created_at'', Required), (''updated_at'', Required)]
        @ MIGRATED_ACCOUNT_COLUMNS),
      (''tokens'',
        [(''account_id'', Default Null), (''access_token'', Required), (''expires_at'', Required), (''refreshed_at'', Required)]),
      (''account_metrics'',
        [(''account_id'', Default Null), (''request_count'', Default (Num 0)), (''error_count'', Default (Num 0)),
         (''rate_limit_hits'', Default (Num 0)), (''last_used_at'', Default Null), (''last_error_at'', Default Null),
         (''last_error_message'', Default Null)]),
      (''account_uptime_events'',
        [(''id'', Default Null), (''account_id'', Required), (''observed_at'', Required), (''is_active'', Required),
         (''token_ready'', Default (Num 1)), (''token_expires_at'', Default Null)]),
      (''daily_usage'', [(''account_id'', Default Null), (''day'', Required), (''count'', Default (Num 0))]),
      (''api_keys'',
        [(''id'', Default Null), (''label'', Default (Txt [])), (''key_hash'', Required), (''key_prefix'', Default (Txt [])),
         (''quota'', Default (Num 0)), (''used'', Default (Num 0)), (''is_active'', Default (Num 1)), (''created_at'', Required)]),
      (''settings'', [(''key'', Default Null), (''value'', Required)]),
      (''proxy_assignments'', [(''account_id'', Default Null), (''proxy_url'', Required)])]"

definition rule_of :: "string \<Rightarrow> string \<Rightarrow> column_rule" where
  "rule_of name c = unwrap_or (Option.bind (map_of SCHEMA name) (\<lambda>cs. map_of cs c)) Required"

text \<open>\<open>ALTER TABLE ADD COLUMN\<close> for each column that is missing.\<close>

definition default_cell :: "column_rule \<Rightarrow> cell" where
  "default_cell r = (case r of Required \<Rightarrow> Null | Default v \<Rightarrow> v)"

definition add_column :: "string \<times> column_rule \<Rightarrow> table \<Rightarrow> table" where
  "add_column c t =
     (if fst c \<in> set (columns t) then t
      else t\<lparr>columns := columns t @ [fst c], rows := map (\<lambda>r. r @ [(fst c, default_cell (snd c))]) (rows t)\<rparr>)"

definition migrate_accounts :: "table \<Rightarrow> table" where
  "migrate_accounts t = fold add_column MIGRATED_ACCOUNT_COLUMNS t"

section \<open>Copying a table\<close>

datatype col_type = TextCol | NullableText | IntCol | NullableInt

fun read_cell :: "col_type \<Rightarrow> cell \<Rightarrow> cell option" where
  "read_cell TextCol (Txt s) = Some (Txt s)"
| "read_cell NullableText (Txt s) = Some (Txt s)"
| "read_cell NullableText Null = Some Null"
| "read_cell IntCol (Num i) = Some (Num i)"
| "read_cell NullableInt (Num i) = Some (Num i)"
| "read_cell NullableInt Null = Some Null"
| "read_cell _ _ = None"

text \<open>The text SQLite adds to an error is left out. The statements that may fail, and the rows SQLite accepts.\<close>

record sql =
  reads :: "string \<Rightarrow> bool"
  deletes :: "string \<Rightarrow> bool"
  accepts :: "database \<Rightarrow> string \<Rightarrow> row \<Rightarrow> bool"
  commits :: bool

definition CASCADES :: "string list" where
  "CASCADES = [''tokens'', ''account_metrics'', ''account_uptime_events'', ''daily_usage'']"

definition empty_table :: "string \<Rightarrow> database \<Rightarrow> database" where
  "empty_table name d = d(name := map_option (\<lambda>t. t\<lparr>rows := []\<rparr>) (d name))"

definition delete_all :: "string \<Rightarrow> database \<Rightarrow> database" where
  "delete_all name d = (if name = ''accounts'' then fold empty_table CASCADES (empty_table name d) else empty_table name d)"

definition read_row :: "(string \<times> col_type) list \<Rightarrow> row \<Rightarrow> row option" where
  "read_row cols r =
     those (map (\<lambda>(c, ty). map_option (Pair c) (read_cell ty (unwrap_or (map_of r c) Null))) cols)"

text \<open>The row an \<open>INSERT\<close> of some columns makes; \<open>None\<close> when a required one is missing.\<close>

definition full_row :: "string \<Rightarrow> string list \<Rightarrow> row \<Rightarrow> row option" where
  "full_row name cols given =
     those (map (\<lambda>c. case map_of given c of
                       Some v \<Rightarrow> Some (c, v)
                     | None \<Rightarrow> (case rule_of name c of Default v \<Rightarrow> Some (c, v) | Required \<Rightarrow> None)) cols)"

definition append_row :: "string \<Rightarrow> row \<Rightarrow> database \<Rightarrow> database" where
  "append_row name r d = d(name := map_option (\<lambda>t. t\<lparr>rows := rows t @ [r]\<rparr>) (d name))"

definition cannot_read :: app_error where "cannot_read = BadRequest ''Cannot read backup''"

definition restore_failed :: app_error where "restore_failed = Internal ''Restore failed''"

fun insert_rows :: "sql \<Rightarrow> string \<Rightarrow> (string \<times> col_type) list \<Rightarrow> row list \<Rightarrow> database \<Rightarrow> app_error + database" where
  "insert_rows q name cols [] d = Inr d"
| "insert_rows q name cols (r # rs) d =
     (case read_row cols r of
        None \<Rightarrow> Inl cannot_read
      | Some given \<Rightarrow>
          (case Option.bind (d name) (\<lambda>t. full_row name (columns t) given) of
             None \<Rightarrow> Inl restore_failed
           | Some new_row \<Rightarrow>
               if accepts q d name new_row then insert_rows q name cols rs (append_row name new_row d)
               else Inl restore_failed))"

definition usable :: "string list \<Rightarrow> (string \<times> col_type) list \<Rightarrow> (string \<times> col_type) list" where
  "usable present cols = filter (\<lambda>(c, _). c \<in> set present) cols"

definition copy_table ::
    "sql \<Rightarrow> table \<Rightarrow> string \<Rightarrow> (string \<times> col_type) list \<Rightarrow> database \<Rightarrow> app_error + nat \<times> database" where
  "copy_table q src name cols d =
     (if \<not> reads q name then Inl cannot_read
      else (let use_cols = usable (columns src) cols
            in if use_cols = [] then Inr (0, d)
               else if \<not> deletes q name then Inl restore_failed
               else map_sum id (Pair (length (rows src))) (insert_rows q name use_cols (rows src) (delete_all name d))))"

section \<open>Restoring\<close>

definition EM_DASH :: string where "EM_DASH = [CHR 0xE2, CHR 0x80, CHR 0x94]"

definition RESTORED :: "(string \<times> (string \<times> col_type) list) list" where
  "RESTORED =
     [(''accounts'',
        [(''id'', TextCol), (''label'', TextCol), (''client_id'', TextCol), (''client_secret'', TextCol),
         (''refresh_token'', TextCol), (''user_id'', NullableText), (''is_active'', IntCol), (''auto_disabled'', IntCol),
         (''disabled_at'', IntCol), (''is_catalog'', IntCol), (''notes'', TextCol), (''created_at'', IntCol),
         (''updated_at'', IntCol), (''heal_failures'', IntCol), (''heal_next_retry'', IntCol),
         (''rejected_access_token'', NullableText), (''last_refresh_error'', NullableText)]),
      (''tokens'', [(''account_id'', TextCol), (''access_token'', TextCol), (''expires_at'', IntCol), (''refreshed_at'', IntCol)]),
      (''account_metrics'',
        [(''account_id'', TextCol), (''request_count'', IntCol), (''error_count'', IntCol), (''rate_limit_hits'', IntCol),
         (''last_used_at'', NullableInt), (''last_error_at'', NullableInt), (''last_error_message'', NullableText)]),
      (''account_uptime_events'',
        [(''id'', IntCol), (''account_id'', TextCol), (''observed_at'', IntCol), (''is_active'', IntCol),
         (''token_ready'', IntCol), (''token_expires_at'', NullableInt)]),
      (''api_keys'',
        [(''id'', TextCol), (''label'', TextCol), (''key_hash'', TextCol), (''key_prefix'', TextCol), (''quota'', IntCol),
         (''used'', IntCol), (''is_active'', IntCol), (''created_at'', IntCol)]),
      (''settings'', [(''key'', TextCol), (''value'', TextCol)]),
      (''proxy_assignments'', [(''account_id'', TextCol), (''proxy_url'', TextCol)])]"

fun copy_tables ::
    "sql \<Rightarrow> database \<Rightarrow> (string \<times> (string \<times> col_type) list) list \<Rightarrow> database \<Rightarrow> app_error + database" where
  "copy_tables q src [] d = Inr d"
| "copy_tables q src ((name, cols) # cs) d =
     (case src name of
        None \<Rightarrow> copy_tables q src cs d
      | Some t \<Rightarrow>
          (case copy_table q t name cols d of
             Inl e \<Rightarrow> Inl e
           | Inr (n, d') \<Rightarrow> copy_tables q src cs d'))"

text \<open>The transaction: what would be committed.\<close>

definition restore_tables :: "sql \<Rightarrow> database \<Rightarrow> database \<Rightarrow> app_error + database" where
  "restore_tables q src d =
     (if \<not> deletes q ''proxy_assignments'' \<or> \<not> deletes q ''account_uptime_events'' then Inl restore_failed
      else case copy_tables q src RESTORED
                  (delete_all ''account_uptime_events'' (delete_all ''proxy_assignments'' d)) of
             Inl e \<Rightarrow> Inl e
           | Inr d' \<Rightarrow> if commits q then Inr d' else Inl restore_failed)"

record server =
  live :: "database option"
  uploads_left :: "string list"

definition MAGIC :: string where "MAGIC = ''SQLite format 3'' @ [CHR 0x00]"

definition MAX_BACKUP_BYTES :: nat where "MAX_BACKUP_BYTES = 50 * 1024 * 1024"

definition REQUIRED_TABLES :: "string list" where "REQUIRED_TABLES = [''accounts'', ''api_keys'', ''settings'']"

text \<open>\<open>written\<close>: the upload could be written to the temporary file; \<open>opened\<close>: SQLite's view of it. The
  file is removed when a required table is missing and after the commit.\<close>

definition restore_backup ::
    "sql \<Rightarrow> bool \<Rightarrow> (string \<Rightarrow> database option) \<Rightarrow> string \<Rightarrow> server \<Rightarrow> (app_error + unit) \<times> server" where
  "restore_backup q written opened body s =
     (if length body < 100 \<or> take 16 body \<noteq> MAGIC then (Inl (BadRequest ''Not a SQLite database file''), s)
      else if length body > MAX_BACKUP_BYTES then (Inl (BadRequest ''Backup file too large (max 50MB)''), s)
      else (case live s of
              None \<Rightarrow> (Inl (BadRequest ''No database configured (ephemeral mode)''), s)
            | Some d \<Rightarrow>
                if \<not> written then (Inl (Internal ''Restore write failed''), s)
                else (let kept = s\<lparr>uploads_left := body # uploads_left s\<rparr>
                      in case opened body of
                           None \<Rightarrow> (Inl (BadRequest ''Cannot open backup''), kept)
                         | Some src \<Rightarrow>
                             if \<not> reads q ''sqlite_master'' then (Inl cannot_read, kept)
                             else (case find (\<lambda>t. src t = None) REQUIRED_TABLES of
                                     Some t \<Rightarrow>
                                       (Inl (BadRequest (''Backup is missing the '' @ [CHR 0x27] @ t @ [CHR 0x27] @ '' table '' @ EM_DASH
                                             @ '' not a hifi-api database'')), s)
                                   | None \<Rightarrow>
                                       (case restore_tables q src d of
                                          Inl e \<Rightarrow> (Inl e, kept)
                                        | Inr d' \<Rightarrow> (Inr (), s\<lparr>live := Some d'\<rparr>))))))"

text \<open>The path of the database file, and the snapshot that is downloaded.\<close>

definition strip_prefix :: "string \<Rightarrow> string \<Rightarrow> string" where
  "strip_prefix p s = (if starts_with p s then drop (length p) s else s)"

definition db_path :: "string \<Rightarrow> app_error + string" where
  "db_path url =
     (if url = [] \<or> url = ''ephemeral''
      then Inl (BadRequest (''No database configured (ephemeral mode) '' @ EM_DASH @ '' nothing to back up''))
      else (let path = takeWhile (\<lambda>c. c \<noteq> CHR ''?'') (strip_prefix ''sqlite://'' url)
            in if path = [] then Inl (BadRequest ''Cannot determine database file path'') else Inr path))"

definition download_backup :: "(database \<Rightarrow> string option) \<Rightarrow> string \<Rightarrow> server \<Rightarrow> app_error + string" where
  "download_backup snapshot url s =
     (case live s of
        None \<Rightarrow> Inl (BadRequest ''No database configured (ephemeral mode)'')
      | Some d \<Rightarrow>
          (case db_path url of
             Inl e \<Rightarrow> Inl e
           | Inr path \<Rightarrow> (case snapshot d of Some bytes \<Rightarrow> Inr bytes | None \<Rightarrow> Inl (Internal ''Backup failed''))))"

end
