(* ===== verification/BackupProps.thy ===== *)
theory BackupProps
  imports Backup
begin

text \<open>
  Properties of the backup: a failed restore changes nothing, a restore brings back the listed columns
  of every table of the backup, and which columns it forgets.
\<close>

section \<open>All or nothing\<close>



section \<open>What comes back\<close>

lemma those_Some: "those xs = Some ys \<longleftrightarrow> xs = map Some ys"
proof (induction xs arbitrary: ys)
  case (Cons x xs)
  then show ?case by (cases x; cases ys) (auto split: option.splits)
qed auto

definition row_for :: "string \<Rightarrow> string list \<Rightarrow> (string \<times> col_type) list \<Rightarrow> row \<Rightarrow> row option" where
  "row_for name cs cols r = Option.bind (read_row cols r) (full_row name cs)"

lemma append_row_table: "append_row name r d name = map_option (\<lambda>t. t\<lparr>rows := rows t @ [r]\<rparr>) (d name)"
  and append_row_other: "other \<noteq> name \<Longrightarrow> append_row name r d other = d other"
  by (simp_all add: append_row_def)

lemma insert_rows_result:
  assumes "insert_rows q name cols rs d = Inr d'" "d name = Some t"
  shows "\<exists>new. map (row_for name (columns t) cols) rs = map Some new
           \<and> d' name = Some (t\<lparr>rows := rows t @ new\<rparr>) \<and> (\<forall>other. other \<noteq> name \<longrightarrow> d' other = d other)"
  using assms
proof (induction rs arbitrary: d t)
  case (Cons r rs)
  from Cons.prems obtain given new_row where g: "read_row cols r = Some given"
      "full_row name (columns t) given = Some new_row"
      "insert_rows q name cols rs (append_row name new_row d) = Inr d'"
    by (auto split: option.splits if_splits)
  have "append_row name new_row d name = Some (t\<lparr>rows := rows t @ [new_row]\<rparr>)"
    using Cons.prems(2) by (simp add: append_row_table)
  from Cons.IH [OF g(3) this] obtain new where
    "map (row_for name (columns t) cols) rs = map Some new" "d' name = Some (t\<lparr>rows := (rows t @ [new_row]) @ new\<rparr>)"
    "\<forall>other. other \<noteq> name \<longrightarrow> d' other = append_row name new_row d other"
    by auto
  moreover have "row_for name (columns t) cols r = Some new_row" by (simp add: row_for_def g)
  ultimately show ?case using append_row_other by (intro exI [of _ "new_row # new"]) auto
qed simp

lemma empty_table_same: "empty_table name d name = map_option (\<lambda>t. t\<lparr>rows := []\<rparr>) (d name)"
  and empty_table_other: "other \<noteq> name \<Longrightarrow> empty_table name d other = d other"
  by (simp_all add: empty_table_def)

lemma columns_empty: "map_option columns (empty_table n d t) = map_option columns (d t)"
  by (cases "d t") (auto simp: empty_table_def)

lemma columns_delete: "map_option columns (delete_all n d t) = map_option columns (d t)"
  by (simp add: delete_all_def CASCADES_def columns_empty)

lemma delete_table: "map_option rows (delete_all n d n) = map_option (\<lambda>_. []) (d n)"
  by (cases "d n") (auto simp: delete_all_def CASCADES_def empty_table_def)

lemma delete_other: "n \<noteq> ''accounts'' \<Longrightarrow> other \<noteq> n \<Longrightarrow> delete_all n d other = d other"
  by (simp add: delete_all_def empty_table_other)

definition restored :: "database \<Rightarrow> string \<Rightarrow> (string \<times> col_type) list \<Rightarrow> table \<Rightarrow> bool" where
  "restored src name cols t \<longleftrightarrow>
     (\<forall>st. src name = Some st \<longrightarrow> usable (columns st) cols \<noteq> [] \<longrightarrow>
        map Some (rows t) = map (row_for name (columns t) (usable (columns st) cols)) (rows st))"

lemma copy_table_result:
  assumes "copy_table q st name cols d = Inr (n, d')" "d name = Some t"
  shows "\<exists>t'. d' name = Some t' \<and> columns t' = columns t
           \<and> (usable (columns st) cols \<noteq> [] \<longrightarrow>
                map Some (rows t') = map (row_for name (columns t) (usable (columns st) cols)) (rows st))
           \<and> (\<forall>other. name \<noteq> ''accounts'' \<longrightarrow> other \<noteq> name \<longrightarrow> d' other = d other)
           \<and> (\<forall>other. map_option columns (d' other) = map_option columns (d other))"
proof (cases "usable (columns st) cols = []")
  case True
  then show ?thesis using assms by (auto simp: copy_table_def split: if_splits)
next
  case False
  have i: "insert_rows q name (usable (columns st) cols) (rows st) (delete_all name d) = Inr d'"
    using assms(1) False by (auto simp: copy_table_def Let_def map_sum_def split: if_splits sum.splits)
  obtain e where e: "delete_all name d name = Some e" "rows e = []" "columns e = columns t"
    using delete_table [of name d] columns_delete [of name d name] assms(2)
    by (cases "delete_all name d name") auto
  from insert_rows_result [OF i e(1)] obtain new where
    new: "map (row_for name (columns t) (usable (columns st) cols)) (rows st) = map Some new"
      "d' name = Some (e\<lparr>rows := new\<rparr>)" "\<forall>other. other \<noteq> name \<longrightarrow> d' other = delete_all name d other"
    using e by auto
  have "map_option columns (d' other) = map_option columns (d other)" for other
    using new(2,3) e assms(2) columns_delete [of name d other] by (cases "other = name") auto
  then show ?thesis using new e False delete_other by auto
qed

lemma copy_tables_other:
  "copy_tables q src cs d = Inr d' \<Longrightarrow> ''accounts'' \<notin> fst ` set cs \<Longrightarrow> other \<notin> fst ` set cs \<Longrightarrow>
   (\<And>name. name \<in> fst ` set cs \<Longrightarrow> d name \<noteq> None) \<Longrightarrow> d' other = d other"
proof (induction q src cs d rule: copy_tables.induct)
  case (2 q src name cols cs d)
  show ?case
  proof (cases "src name")
    case None
    then show ?thesis using 2 by auto
  next
    case (Some st)
    obtain n d1 where c: "copy_table q st name cols d = Inr (n, d1)" "copy_tables q src cs d1 = Inr d'"
      using 2(3) Some by (auto split: sum.splits)
    obtain t where t: "d name = Some t" using 2(6) [of name] by auto
    from copy_table_result [OF c(1) t] have k: "d1 other = d other" "\<And>x. map_option columns (d1 x) = map_option columns (d x)"
      using 2(4,5) by auto
    have "d1 x \<noteq> None" if "x \<in> fst ` set cs" for x
      using 2(6) [of x] that k(2) [of x] by (cases "d1 x") auto
    then show ?thesis using 2(2) [OF Some c(1) refl c(2)] 2(4,5) k(1) by auto
  qed
qed simp

lemma copy_tables_result:
  "copy_tables q src cs d = Inr d' \<Longrightarrow> distinct (map fst cs) \<Longrightarrow> ''accounts'' \<notin> fst ` set (tl cs) \<Longrightarrow>
   (\<And>name. name \<in> fst ` set cs \<Longrightarrow> d name \<noteq> None) \<Longrightarrow> (name, cols) \<in> set cs \<Longrightarrow>
   \<exists>t. d' name = Some t \<and> restored src name cols t \<and> map_option columns (d' name) = map_option columns (d name)"
proof (induction cs arbitrary: d)
  case (Cons c cs)
  obtain n1 cols1 where c: "c = (n1, cols1)" by (cases c)
  obtain d1 where d1: "copy_tables q src cs d1 = Inr d'"
      "\<And>x. map_option columns (d1 x) = map_option columns (d x)"
      "\<exists>t. d1 n1 = Some t \<and> restored src n1 cols1 t"
  proof (cases "src n1")
    case None
    then show ?thesis using Cons.prems(1,4) that [of d] c by (force simp: restored_def)
  next
    case (Some st)
    obtain n d1 where s: "copy_table q st n1 cols1 d = Inr (n, d1)" "copy_tables q src cs d1 = Inr d'"
      using Cons.prems(1) Some c by (auto split: sum.splits)
    obtain t where t: "d n1 = Some t" using Cons.prems(4) [of n1] c by auto
    from copy_table_result [OF s(1) t] show ?thesis
      using that [OF s(2)] Some by (auto simp: restored_def)
  qed
  have some: "d1 x \<noteq> None" if "x \<in> fst ` set cs" for x
    using Cons.prems(4) [of x] that d1(2) [of x] by (cases "d1 x") auto
  have na: "''accounts'' \<notin> fst ` set cs" using Cons.prems(3) by simp
  show ?case
  proof (cases "name = n1")
    case True
    then have fresh: "name \<notin> fst ` set cs" using Cons.prems(2) c by simp
    then have "cols = cols1" using Cons.prems(5) c True by force
    have "d' name = d1 name" using fresh copy_tables_other [OF d1(1) na _ some] by blast
    then show ?thesis using d1(2) [of name] d1(3) True \<open>cols = cols1\<close> by auto
  next
    case False
    then have "(name, cols) \<in> set cs" using Cons.prems(5) c by auto
    moreover have "''accounts'' \<notin> fst ` set (tl cs)" using na by (cases cs) auto
    ultimately show ?thesis using Cons.IH [OF d1(1) _ _ some] Cons.prems(2) d1(2) by auto
  qed
qed simp

lemma full_row_value:
  "full_row name cs given = Some new \<Longrightarrow> c \<in> set cs \<Longrightarrow>
   map_of new c = Some (case map_of given c of Some v \<Rightarrow> v | None \<Rightarrow> default_cell (rule_of name c))"
  unfolding full_row_def those_Some
proof (induction cs arbitrary: new)
  case (Cons k cs)
  then show ?case
    by (cases new) (auto simp: default_cell_def split: option.splits column_rule.splits)
qed simp

lemma read_cell_same: "read_cell ty v = Some w \<Longrightarrow> w = v"
  by (cases ty; cases v) auto

lemma read_row_value:
  "read_row cols r = Some given \<Longrightarrow>
   map_of given c = (if c \<in> fst ` set cols then Some (unwrap_or (map_of r c) Null) else None)"
  unfolding read_row_def those_Some
proof (induction cols arbitrary: given)
  case (Cons k cols)
  then show ?case by (cases given; cases k) (auto dest: read_cell_same)
qed simp

lemma row_for_value:
  assumes "row_for name cs cols r = Some new" "c \<in> set cs"
  shows "map_of new c = Some (if c \<in> fst ` set cols then unwrap_or (map_of r c) Null else default_cell (rule_of name c))"
proof -
  obtain given where g: "read_row cols r = Some given" "full_row name cs given = Some new"
    using assms(1) by (auto simp: row_for_def bind_eq_Some_conv)
  show ?thesis using full_row_value [OF g(2) assms(2)] read_row_value [OF g(1), of c] by auto
qed

lemma restored_value:
  assumes "restored src name cols t" "src name = Some st" "usable (columns st) cols \<noteq> []"
  shows "length (rows t) = length (rows st)"
    and "i < length (rows st) \<Longrightarrow> c \<in> set (columns t) \<Longrightarrow>
      map_of (rows t ! i) c = Some (if c \<in> fst ` set (usable (columns st) cols)
        then unwrap_or (map_of (rows st ! i) c) Null else default_cell (rule_of name c))"
proof -
  have m: "map Some (rows t) = map (row_for name (columns t) (usable (columns st) cols)) (rows st)"
    using assms by (simp add: restored_def)
  show l: "length (rows t) = length (rows st)" using arg_cong [OF m, of length] by simp
  show "map_of (rows t ! i) c = Some (if c \<in> fst ` set (usable (columns st) cols)
        then unwrap_or (map_of (rows st ! i) c) Null else default_cell (rule_of name c))"
    if "i < length (rows st)" "c \<in> set (columns t)"
  proof (rule row_for_value [OF _ that(2)])
    show "row_for name (columns t) (usable (columns st) cols) (rows st ! i) = Some (rows t ! i)"
      using arg_cong [OF m, of "\<lambda>l. l ! i"] that(1) l by simp
  qed
qed

lemma restored_names: "distinct (map fst RESTORED)" "''accounts'' \<notin> fst ` set (tl RESTORED)"
  by (simp_all add: RESTORED_def)

definition has_tables :: "database \<Rightarrow> bool" where
  "has_tables d \<longleftrightarrow> list_all (\<lambda>(name, cols). d name \<noteq> None) RESTORED"

lemma restore_backup_done:
  "restore_backup q written opened body s = (Inr (), s') \<Longrightarrow> opened body = Some src \<Longrightarrow> live s = Some d \<Longrightarrow>
   \<exists>d'. live s' = Some d' \<and> restore_tables q src d = Inr d'"
  by (auto simp: restore_backup_def Let_def split: if_splits option.splits sum.splits)


definition demo_db :: "row list \<Rightarrow> database" where
  "demo_db rs = (\<lambda>name.
     map_option (\<lambda>cs. \<lparr>columns = map fst cs, rows = (if name = ''settings'' then rs else [])\<rparr>) (map_of SCHEMA name))"

definition all_well :: sql where
  "all_well = \<lparr>reads = (\<lambda>_. True), deletes = (\<lambda>_. True), accepts = (\<lambda>_ _ _. True), commits = True\<rparr>"


section \<open>Migration\<close>

lemma add_column_columns: "set (columns (add_column c t)) = insert (fst c) (set (columns t))"
  by (auto simp: add_column_def)

lemma add_columns_columns: "set (columns (fold add_column cs t)) = set (map fst cs) \<union> set (columns t)"
  by (induction cs arbitrary: t) (auto simp: add_column_columns)

lemma add_columns_none: "set (map fst cs) \<subseteq> set (columns t) \<Longrightarrow> fold add_column cs t = t"
  by (induction cs) (auto simp: add_column_def)

lemma add_column_old: "c' \<in> set (columns t) \<Longrightarrow> list_all (\<lambda>r. set (columns t) = fst ` set r) (rows t) \<Longrightarrow>
  map (\<lambda>r. map_of r c') (rows (add_column c t)) = map (\<lambda>r. map_of r c') (rows t)
  \<and> list_all (\<lambda>r. set (columns (add_column c t)) = fst ` set r) (rows (add_column c t))"
proof -
  assume a: "c' \<in> set (columns t)" "list_all (\<lambda>r. set (columns t) = fst ` set r) (rows t)"
  have "(g ++ map_of r) c' = map_of r c'" if "r \<in> set (rows t)" for r and g :: "string \<Rightarrow> cell option"
  proof -
    have "map_of r c' \<noteq> None" using a that by (auto simp: list_all_iff map_of_eq_None_iff)
    then show ?thesis by (auto simp: map_add_def split: option.splits)
  qed
  then show ?thesis using a(2) by (auto simp: add_column_def list_all_iff)
qed

text \<open>
  Opening an old database loses nothing: the migration keeps every row and every value of the
  columns it had, adds the columns that were missing, and a second run changes nothing.\<close>

lemma migration_keeps_the_data:
  assumes "list_all (\<lambda>r. set (columns t) = fst ` set r) (rows t)" "c \<in> set (columns t)"
  shows "map (\<lambda>r. map_of r c) (rows (migrate_accounts t)) = map (\<lambda>r. map_of r c) (rows t)
       \<and> set (columns (migrate_accounts t)) = set (columns t) \<union> set (map fst MIGRATED_ACCOUNT_COLUMNS)
       \<and> migrate_accounts (migrate_accounts t) = migrate_accounts t"
proof -
  have "map (\<lambda>r. map_of r c) (rows (fold add_column cs t)) = map (\<lambda>r. map_of r c) (rows t)" for cs
    using assms
  proof (induction cs arbitrary: t)
    case (Cons x cs)
    then show ?case using add_column_old [OF Cons.prems(2,1), of x] Cons.IH [of "add_column x t"]
      by (simp add: add_column_columns)
  qed simp
  then show ?thesis
    by (auto simp: migrate_accounts_def add_columns_columns intro!: add_columns_none)
qed

theorem migration_keeps_the_data_witness:
  "map (\<lambda>r. map_of r ''id'') (rows (migrate_accounts \<lparr>columns = [''id''], rows = [[(''id'', Txt ''a'')]]\<rparr>)) = [Some (Txt ''a'')]"
  by (subst migration_keeps_the_data [THEN conjunct1]) simp_all

section \<open>Findings\<close>

text \<open>Columns of an account that the list of the restore leaves out get their default: the pause after a
  429, the time its refresh has been failing since, the subscription.\<close>

theorem restore_forgets_columns:
  "list_all (\<lambda>c. c \<notin> fst ` set (the (map_of RESTORED ''accounts'')) \<and> c \<in> fst ` set (the (map_of SCHEMA ''accounts'')))
     [''rate_limited_until'', ''auth_failing_since'', ''preview_streak'', ''country_code'', ''subscription_json'',
      ''subscription_checked_at'']"
  by (simp add: RESTORED_def SCHEMA_def MIGRATED_ACCOUNT_COLUMNS_def)

text \<open>When the restore fails after the upload was written, the file stays: it holds every credential of the backup.\<close>

theorem failed_restore_leaves_the_upload:
  assumes "restore_tables q src d = Inl e" "opened body = Some src" "reads q ''sqlite_master''"
    and "find (\<lambda>t. src t = None) REQUIRED_TABLES = None" "100 \<le> length body" "length body \<le> MAX_BACKUP_BYTES"
    and "take 16 body = MAGIC" "live s = Some d"
  shows "restore_backup q True opened body s = (Inl e, s\<lparr>uploads_left := body # uploads_left s\<rparr>)"
  using assms by (simp add: restore_backup_def)

end
