(* ===== verification/Stats.thy ===== *)
theory Stats
  imports Lifecycle
begin

text \<open>
  \<open>src/admin/stats.rs\<close>: how the panel explains each account (\<open>account_availability\<close>), the tallies of
  the overview, and their agreement with what the selection of accounts does. The figures of the
  request log and of the queue are those of \<open>RequestLog\<close> and \<open>Playback\<close>.
\<close>

section \<open>One account\<close>

datatype token_status = TokenMissing | TokenExpired | TokenRejected | TokenValid

datatype readiness = Off | NoToken | RateLimitPause | NeedsCheck | PreviewOnlyAccount | ReadyAccount

record availability =
  av_state :: readiness
  av_token :: token_status
  full_check_fresh :: bool
  metadata_ready :: bool

definition token_status_of :: "int \<Rightarrow> account \<Rightarrow> token_status" where
  "token_status_of now a =
     (case access_token a of
        None \<Rightarrow> TokenMissing
      | Some t \<Rightarrow>
          if t = [] then TokenMissing
          else if rejected_access_token a = Some t then TokenRejected
          else if token_expires_at a \<le> now then TokenExpired
          else TokenValid)"

definition account_availability :: "int \<Rightarrow> account \<Rightarrow> availability" where
  "account_availability now a =
     (let token = token_status_of now a;
          checked = premium_checked_at a;
          fresh = (checked > 0 \<and> checked \<ge> now - FULL_CHECK_MAX_AGE_SECS);
          enabled = is_active a;
          paused = (rate_limited_until a > now);
          st = (if \<not> enabled then Off
                else if token \<noteq> TokenValid then NoToken
                else if paused then RateLimitPause
                else if is_catalog a then ReadyAccount
                else if premium_status a = ''preview-only'' \<and> fresh then PreviewOnlyAccount
                else if premium_status a \<noteq> ''premium'' \<or> \<not> fresh then NeedsCheck
                else ReadyAccount)
      in \<lparr>av_state = st, av_token = token, full_check_fresh = fresh,
          metadata_ready = (enabled \<and> \<not> paused \<and> token = TokenValid)\<rparr>)"

section \<open>Tallies\<close>

record readiness_counts =
  rc_all :: nat
  rc_enabled :: nat
  rc_ready :: nat
  rc_disabled :: nat
  rc_no_token :: nat
  rc_rate_limited :: nat
  rc_needs_check :: nat
  rc_preview_only :: nat
  rc_metadata_ready :: nat

definition no_readiness :: readiness_counts where
  "no_readiness = \<lparr>rc_all = 0, rc_enabled = 0, rc_ready = 0, rc_disabled = 0, rc_no_token = 0, rc_rate_limited = 0,
     rc_needs_check = 0, rc_preview_only = 0, rc_metadata_ready = 0\<rparr>"

definition include_account :: "availability \<Rightarrow> readiness_counts \<Rightarrow> readiness_counts" where
  "include_account av c =
     (let c = c\<lparr>rc_all := rc_all c + 1,
                rc_enabled := rc_enabled c + (if av_state av \<noteq> Off then 1 else 0),
                rc_metadata_ready := rc_metadata_ready c + (if metadata_ready av then 1 else 0)\<rparr>
      in case av_state av of
           ReadyAccount \<Rightarrow> c\<lparr>rc_ready := rc_ready c + 1\<rparr>
         | Off \<Rightarrow> c\<lparr>rc_disabled := rc_disabled c + 1\<rparr>
         | NoToken \<Rightarrow> c\<lparr>rc_no_token := rc_no_token c + 1\<rparr>
         | RateLimitPause \<Rightarrow> c\<lparr>rc_rate_limited := rc_rate_limited c + 1\<rparr>
         | NeedsCheck \<Rightarrow> c\<lparr>rc_needs_check := rc_needs_check c + 1\<rparr>
         | PreviewOnlyAccount \<Rightarrow> c\<lparr>rc_preview_only := rc_preview_only c + 1\<rparr>)"

record overview_tally =
  live_count :: nat
  premium_count :: nat
  account_readiness :: readiness_counts
  playback_readiness :: readiness_counts
  catalog_readiness :: readiness_counts

definition no_tally :: overview_tally where
  "no_tally = \<lparr>live_count = 0, premium_count = 0, account_readiness = no_readiness,
     playback_readiness = no_readiness, catalog_readiness = no_readiness\<rparr>"

definition tally_account :: "int \<Rightarrow> account \<Rightarrow> overview_tally \<Rightarrow> overview_tally" where
  "tally_account now a t =
     (let av = account_availability now a;
          t = t\<lparr>account_readiness := include_account av (account_readiness t)\<rparr>;
          t = (if is_catalog a then t\<lparr>catalog_readiness := include_account av (catalog_readiness t)\<rparr>
               else t\<lparr>playback_readiness := include_account av (playback_readiness t)\<rparr>);
          t = (if av_state av = ReadyAccount then t\<lparr>live_count := live_count t + 1\<rparr> else t)
      in if is_active a \<and> premium_status a = ''premium'' then t\<lparr>premium_count := premium_count t + 1\<rparr> else t)"

datatype catalog_mode = StaticToken | CatalogAccount string | FromPool

definition catalog_mode_of :: "string \<Rightarrow> int \<Rightarrow> account list \<Rightarrow> catalog_mode" where
  "catalog_mode_of static_token now as =
     (if static_token \<noteq> [] then StaticToken
      else (case find (\<lambda>a. is_catalog a \<and> is_active a \<and> rate_limited_until a \<le> now) as of
              Some a \<Rightarrow> CatalogAccount (label a)
            | None \<Rightarrow> FromPool))"

record overview =
  ov_requests :: nat
  ov_errors :: nat
  ov_attempts :: nat
  ov_attempt_errors :: nat
  ov_recent :: nat
  ov_error_percent :: "real option"
  ov_tally :: overview_tally
  ov_accounts :: nat
  ov_active :: nat
  ov_playback :: nat
  ov_catalog :: catalog_mode

text \<open>\<open>total\<close> and \<open>outcomes\<close> are what the request log answers (\<open>total_requests\<close>, \<open>outcome_counts\<close>);
  ratios of \<open>f64\<close> are real numbers.\<close>

definition get_stats :: "nat \<Rightarrow> nat \<times> nat \<Rightarrow> string \<Rightarrow> int \<Rightarrow> manager \<Rightarrow> overview" where
  "get_stats total_logged outcomes static_token now m =
     (let as = map (heap m) (accounts m); (recent_requests, total_errors) = outcomes
      in \<lparr>ov_requests = total_logged, ov_errors = total_errors,
          ov_attempts = sum_list (map request_count as), ov_attempt_errors = sum_list (map error_count as),
          ov_recent = recent_requests,
          ov_error_percent = (if recent_requests > 0 then Some (real total_errors * 100 / real recent_requests) else None),
          ov_tally = fold (tally_account now) as no_tally,
          ov_accounts = length as, ov_active = length (filter is_active as),
          ov_playback = playback_count m,
          ov_catalog = catalog_mode_of static_token now as\<rparr>)"

section \<open>The panel and the selection agree\<close>

lemma valid_is_usable: "token_status_of now a = TokenValid \<longleftrightarrow> has_usable_token now a"
  by (auto simp: token_status_of_def has_usable_token_def split: option.splits)

lemma paused_iff:
  "- (2 ^ 62) \<le> now \<Longrightarrow> now < 2 ^ 62 \<Longrightarrow> - (2 ^ 62) \<le> rate_limited_until a \<Longrightarrow> rate_limited_until a < 2 ^ 62 \<Longrightarrow>
   rate_limit_remaining now a = None \<longleftrightarrow> rate_limited_until a \<le> now"
  by (auto simp: rate_limit_remaining_def sat_sub_i64_def clamp_i64_def i64_max_def Let_def)

text \<open>Times within reach of the clock.\<close>

definition plain_times :: "int \<Rightarrow> account \<Rightarrow> bool" where
  "plain_times now a \<longleftrightarrow> - (2 ^ 62) \<le> now \<and> now < 2 ^ 62 \<and> - (2 ^ 62) \<le> rate_limited_until a \<and> rate_limited_until a < 2 ^ 62"

text \<open>
  The panel explains an account by the rules the selection uses: what it calls ready, in need of a
  check or preview-only can be leased, what it calls rate limited is paused, what it calls disabled is
  skipped; a playback account called ready is in the best tier, one called preview-only in the worst.\<close>

lemma panel_matches_selection:
  assumes "plain_times now a" "\<not> is_catalog a"
  shows "(av_state (account_availability now a) \<in> {ReadyAccount, NeedsCheck, PreviewOnlyAccount} \<longrightarrow>
            classify now a = lease_class.Ready)
       \<and> (av_state (account_availability now a) = RateLimitPause \<longrightarrow> (\<exists>s. classify now a = Paused s))
       \<and> (av_state (account_availability now a) = Off \<longrightarrow> classify now a = Skip)
       \<and> (av_state (account_availability now a) = ReadyAccount \<longrightarrow> full_tier now a = 0)
       \<and> (av_state (account_availability now a) = PreviewOnlyAccount \<longrightarrow> full_tier now a = 2)
       \<and> (metadata_ready (account_availability now a) \<longleftrightarrow>
            is_active a \<and> rate_limit_remaining now a = None \<and> has_usable_token now a)"
proof -
  have p: "rate_limit_remaining now a = None \<longleftrightarrow> rate_limited_until a \<le> now"
    using assms(1) by (intro paused_iff) (auto simp: plain_times_def)
  show ?thesis
    using assms(2) p
    by (auto simp: account_availability_def Let_def valid_is_usable classify_def refresh_cooldown_def full_tier_def
        split: option.splits)
qed

lemma include_sums:
  "rc_all (include_account av c) = Suc (rc_all c)"
  "rc_enabled (include_account av c) + rc_disabled (include_account av c) = Suc (rc_enabled c + rc_disabled c)"
  "rc_ready (include_account av c) + rc_disabled (include_account av c) + rc_no_token (include_account av c)
     + rc_rate_limited (include_account av c) + rc_needs_check (include_account av c) + rc_preview_only (include_account av c)
   = Suc (rc_ready c + rc_disabled c + rc_no_token c + rc_rate_limited c + rc_needs_check c + rc_preview_only c)"
  by (auto simp: include_account_def Let_def split: readiness.splits)

definition partitioned :: "readiness_counts \<Rightarrow> bool" where
  "partitioned c \<longleftrightarrow>
     rc_ready c + rc_disabled c + rc_no_token c + rc_rate_limited c + rc_needs_check c + rc_preview_only c = rc_all c
     \<and> rc_enabled c + rc_disabled c = rc_all c"

lemma partitioned_include: "partitioned c \<Longrightarrow> partitioned (include_account av c)"
  using include_sums [of av c] by (simp add: partitioned_def)

definition tally_ok :: "overview_tally \<Rightarrow> bool" where
  "tally_ok t \<longleftrightarrow> partitioned (account_readiness t) \<and> partitioned (playback_readiness t) \<and> partitioned (catalog_readiness t)
     \<and> rc_all (account_readiness t) = rc_all (playback_readiness t) + rc_all (catalog_readiness t)
     \<and> live_count t = rc_ready (account_readiness t)
     \<and> rc_metadata_ready (account_readiness t) = rc_metadata_ready (playback_readiness t) + rc_metadata_ready (catalog_readiness t)"

lemma tally_step: "tally_ok t \<Longrightarrow> tally_ok (tally_account now a t)
    \<and> rc_all (account_readiness (tally_account now a t)) = Suc (rc_all (account_readiness t))"
  by (auto simp: tally_ok_def tally_account_def Let_def partitioned_include include_sums)
    (auto simp: include_account_def Let_def split: readiness.splits)

lemma tally_fold: "tally_ok t \<Longrightarrow> tally_ok (fold (tally_account now) as t)
    \<and> rc_all (account_readiness (fold (tally_account now) as t)) = rc_all (account_readiness t) + length as"
proof (induction as arbitrary: t)
  case (Cons a as)
  then show ?case using tally_step [OF Cons.prems, of now a] Cons.IH [of "tally_account now a t"] by simp
qed simp

lemma metadata_ready_fold:
  "rc_metadata_ready (playback_readiness (fold (tally_account now) as t)) = rc_metadata_ready (playback_readiness t)
     + length (filter (\<lambda>a. \<not> is_catalog a \<and> metadata_ready (account_availability now a)) as)"
proof (induction as arbitrary: t)
  case (Cons a as)
  have "rc_metadata_ready (playback_readiness (tally_account now a t)) = rc_metadata_ready (playback_readiness t)
     + (if \<not> is_catalog a \<and> metadata_ready (account_availability now a) then 1 else 0)"
    by (auto simp: tally_account_def Let_def include_account_def split: readiness.splits)
  then show ?case using Cons.IH [of "tally_account now a t"] by simp
qed simp

text \<open>
  The figures of the overview add up: every account is in exactly one state and in one of the two
  groups, the live accounts are the ready ones, and the accounts the queue gives slots to are the
  playback accounts that are ready for metadata (at least one slot is given).\<close>

lemma overview_adds_up:
  assumes "list_all (\<lambda>x. plain_times now (heap m x)) (accounts m)"
  shows "tally_ok (ov_tally (get_stats n outcomes token now m))
       \<and> rc_all (account_readiness (ov_tally (get_stats n outcomes token now m))) = account_count m
       \<and> playback_slots now m = max 1 (rc_metadata_ready (playback_readiness (ov_tally (get_stats n outcomes token now m))))"
proof -
  have t: "ov_tally (get_stats n outcomes token now m) = fold (tally_account now) (map (heap m) (accounts m)) no_tally"
    by (simp add: get_stats_def Let_def split: prod.splits)
  have zero: "tally_ok no_tally" by (simp add: tally_ok_def no_tally_def no_readiness_def partitioned_def)
  have same: "(\<not> is_catalog a \<and> is_active a \<and> rate_limit_remaining now a = None \<and> has_usable_token now a)
      = (\<not> is_catalog a \<and> metadata_ready (account_availability now a))" if "plain_times now a" for a
    using that paused_iff [of now a]
    by (auto simp: plain_times_def account_availability_def Let_def valid_is_usable)
  have "filter (\<lambda>x. \<not> is_catalog (heap m x) \<and> is_active (heap m x) \<and>
        rate_limit_remaining now (heap m x) = None \<and> has_usable_token now (heap m x)) (accounts m)
      = filter (\<lambda>x. \<not> is_catalog (heap m x) \<and> metadata_ready (account_availability now (heap m x))) (accounts m)"
    using assms same by (intro filter_cong) (auto simp: list_all_iff)
  then have "playback_slots now m = max 1 (length (filter (\<lambda>a. \<not> is_catalog a \<and> metadata_ready (account_availability now a))
      (map (heap m) (accounts m))))"
    by (simp add: playback_slots_def filter_map comp_def)
  moreover have "rc_metadata_ready (playback_readiness no_tally) = 0" "rc_all (account_readiness no_tally) = 0"
    by (simp_all add: no_tally_def no_readiness_def)
  ultimately show ?thesis
    using tally_fold [OF zero, of now "map (heap m) (accounts m)"]
      metadata_ready_fold [of now "map (heap m) (accounts m)" no_tally]
    by (simp add: t account_count_def)
qed

definition shown_account :: account where
  "shown_account = (account_new (\<lambda>_. None) ''a'' ''l'' ''c'' ''s'' ''r'' None True [])
     \<lparr>access_token := Some ''t'', token_expires_at := 500, premium_status := ''premium'', premium_checked_at := 90\<rparr>"

theorem panel_matches_selection_witness:
  "classify 100 shown_account = lease_class.Ready \<and> full_tier 100 shown_account = 0"
proof -
  have "av_state (account_availability 100 shown_account) = ReadyAccount"
    by (simp add: account_availability_def token_status_of_def shown_account_def account_new_def FULL_CHECK_MAX_AGE_SECS_def)
  moreover have "plain_times 100 shown_account" "\<not> is_catalog shown_account"
    by (simp_all add: plain_times_def shown_account_def account_new_def)
  ultimately show ?thesis using panel_matches_selection [of 100 shown_account] by simp
qed

theorem overview_adds_up_witness:
  "playback_slots 100 ((manager_new (\<lambda>_. shown_account))\<lparr>accounts := [0]\<rparr>)
     = max 1 (rc_metadata_ready (playback_readiness (ov_tally
         (get_stats 0 (0, 0) [] 100 ((manager_new (\<lambda>_. shown_account))\<lparr>accounts := [0]\<rparr>)))))"
  by (rule overview_adds_up [THEN conjunct2, THEN conjunct2])
    (simp add: manager_new_def plain_times_def shown_account_def account_new_def)

end
