(* ===== verification/Media.thy ===== *)
theory Media
  imports Probe TidalLeases Track
begin

text \<open>
  \<open>src/routes/video.rs\<close> and \<open>src/routes/widevine.rs\<close>: the two playback routes that walk over the
  pool's accounts themselves, and \<open>run_op\<close> of \<open>src/playback.rs\<close>, which runs a playback job.

  Both loops have the same frame, \<open>walk\<close>: stop after the fallbacks from a 429, lease an account that
  was not given up, ask it, go on or return. \<open>one\<close> is the body of the loop; what the license route
  keeps between accounts besides \<open>tries\<close> is its \<open>kept_reply\<close>. The outside is an \<open>api_world\<close>:
  \<open>first_client_error\<close> is the client fetched before the token, \<open>client_error\<close> the ones fetched for
  the first request and the one after a 401. The bytes and the content type of a license reply are
  arguments of their own.
\<close>

section \<open>The walk over the pool\<close>

datatype 'r move =
    Finish 'r
  | Onward

definition fall_back ::
    "nat \<Rightarrow> nat \<Rightarrow> app_error \<Rightarrow> tries \<Rightarrow> manager \<Rightarrow> (app_error + 'r) move \<times> tries \<times> manager" where
  "fall_back i x e t m =
     (case schedule i (acc_id (heap m x)) e t of
        (Some e', t1) \<Rightarrow> (Finish (Inl e'), t1, m)
      | (None, t1) \<Rightarrow> (Onward, t1, m))"

definition abandon ::
    "nat \<Rightarrow> int \<Rightarrow> app_error \<Rightarrow> tries \<Rightarrow> manager \<Rightarrow> 'r move \<times> tries \<times> manager" where
  "abandon x now_ms e t m =
     (Onward, t\<lparr>failed_ids := failed_ids t @ [acc_id (heap m x)], last_error := Some e\<rparr>,
      mark_account_error (acc_id (heap m x)) now_ms m)"

text \<open>An error for which the account is left: a 429 counts as a fallback, any other against the account.\<close>

definition leave ::
    "nat \<Rightarrow> nat \<Rightarrow> int \<Rightarrow> app_error \<Rightarrow> tries \<Rightarrow> manager \<Rightarrow> (app_error + 'r) move \<times> tries \<times> manager" where
  "leave i x now_ms e t m =
     (case e of RateLimited s \<Rightarrow> fall_back i x e t m | _ \<Rightarrow> abandon x now_ms e t m)"

fun walk ::
    "api_world \<Rightarrow> (nat \<Rightarrow> nat \<Rightarrow> 'h \<Rightarrow> tries \<Rightarrow> manager \<Rightarrow> 'r move \<times> 'h \<times> tries \<times> manager) \<Rightarrow>
     (app_error \<Rightarrow> 'h \<Rightarrow> tries \<Rightarrow> 'r) \<Rightarrow> ('h \<Rightarrow> tries \<Rightarrow> 'r) \<Rightarrow>
     nat \<Rightarrow> nat \<Rightarrow> 'h \<Rightarrow> tries \<Rightarrow> manager \<Rightarrow> 'r option \<times> 'h \<times> tries \<times> manager" where
  "walk w one no_lease ended 0 i h t m = (Some (ended h t), h, t, m)"
| "walk w one no_lease ended (Suc n) i h t m =
     (if exhausted i (limits t) then (Some (ended h t), h, t, m)
      else case lease_pool_account w Playback i (failed_ids t) m of
             (None, m1) \<Rightarrow> (None, h, t, m1)
           | (Some (Inl e), m1) \<Rightarrow> (Some (no_lease e h t), h, t, m1)
           | (Some (Inr l), m1) \<Rightarrow>
               (case one i (lease_addr l) h t m1 of
                  (Finish r, h2, t2, m2) \<Rightarrow> (Some r, h2, t2, drop_lease (drop_ms w i) l m2)
                | (Onward, h2, t2, m2) \<Rightarrow>
                    walk w one no_lease ended n (Suc i) h2 t2 (drop_lease (drop_ms w i) l m2)))"

definition NONE_LEFT :: app_error where
  "NONE_LEFT = ServiceUnavailable ''All accounts failed''"

section \<open>Video\<close>

text \<open>One call of \<open>make_authed_request\<close>; the trace has the reply when a request went out.\<close>

definition ask_video ::
    "api_world \<Rightarrow> nat \<Rightarrow> nat \<Rightarrow> nat \<Rightarrow> tries \<Rightarrow> manager \<Rightarrow> (app_error + json) \<times> tries \<times> manager" where
  "ask_video w i k x t m =
     (let aid = acc_id (heap m x); sent_at = secs (send_ms w i k);
          (r, m1) = make_authed_request (token_world w i k) aid (client_error w i k) sent_at (reply_ms w i k) (reply w i k) m;
          sent = (Option.bind (get_account_by_id aid m) (\<lambda>y. rate_limit_remaining sent_at (heap m y)) = None
                  \<and> client_error w i k = None)
      in (r, if sent then t\<lparr>trace := trace t @ [(x, reply w i k)]\<rparr> else t, m1))"

definition video_answer :: "string \<Rightarrow> json \<Rightarrow> json" where
  "video_answer v data = JObj [(''version'', JStr v), (''video'', data)]"

text \<open>After a 401: one renewal of the token and one more request.\<close>

definition video_again ::
    "api_world \<Rightarrow> nat \<Rightarrow> nat \<Rightarrow> string \<Rightarrow> tries \<Rightarrow> manager \<Rightarrow> (app_error + json) move \<times> tries \<times> manager" where
  "video_again w i x token t m =
     (case refresh_after_unauthorized (retry_world w i 0) x token m of
        (Inl e, m1) \<Rightarrow> leave i x (reply_ms w i 0) e t m1
      | (Inr fresh, m1) \<Rightarrow>
          (case ask_video w i 1 x t m1 of
             (Inr data, t2, m2) \<Rightarrow> (Finish (Inr (video_answer (version w) data)), t2, m2)
           | (Inl e, t2, m2) \<Rightarrow>
               leave i x (reply_ms w i 1) e t2
                 (case e of
                    UpstreamError s msg \<Rightarrow>
                      if s = 401 then reject_refreshed_token (jitter (retry_world w i 0)) x fresh (secs (reply_ms w i 1)) m2
                      else m2
                  | _ \<Rightarrow> m2)))"

definition video_failed ::
    "api_world \<Rightarrow> nat \<Rightarrow> nat \<Rightarrow> string \<Rightarrow> app_error \<Rightarrow> tries \<Rightarrow> manager \<Rightarrow> (app_error + json) move \<times> tries \<times> manager" where
  "video_failed w i x token e t m =
     (case e of
        UpstreamError s msg \<Rightarrow>
          if s = 401 then video_again w i x token t m
          else if s = 403 \<or> s \<ge> 500 then abandon x (reply_ms w i 0) e t m
          else (Finish (Inl e), t, m)
      | RateLimited s \<Rightarrow> fall_back i x e t m
      | _ \<Rightarrow> (Finish (Inl e), t, m))"

definition video_one ::
    "api_world \<Rightarrow> nat \<Rightarrow> nat \<Rightarrow> tries \<Rightarrow> manager \<Rightarrow> (app_error + json) move \<times> tries \<times> manager" where
  "video_one w i x t m =
     (case first_client_error w i of
        Some e \<Rightarrow> (Finish (Inl (ServiceUnavailable e)), t, m)
      | None \<Rightarrow>
          (case get_token (token_world w i 0) x m of
             (Inl e, m1) \<Rightarrow> leave i x (send_ms w i 0) e t m1
           | (Inr token, m1) \<Rightarrow>
               (case ask_video w i 0 x t m1 of
                  (Inr data, t2, m2) \<Rightarrow> (Finish (Inr (video_answer (version w) data)), t2, m2)
                | (Inl e, t2, m2) \<Rightarrow> video_failed w i x token e t2 m2)))"

text \<open>The frame of \<open>walk\<close> with nothing kept besides \<open>tries\<close>.\<close>

definition video_body ::
    "api_world \<Rightarrow> nat \<Rightarrow> nat \<Rightarrow> unit \<Rightarrow> tries \<Rightarrow> manager \<Rightarrow> (app_error + json) move \<times> unit \<times> tries \<times> manager" where
  "video_body w i x h t m = (let (s, t1, m1) = video_one w i x t m in (s, h, t1, m1))"

definition fetch_video_playback ::
    "api_world \<Rightarrow> manager \<Rightarrow> (app_error + json) option \<times> unit \<times> tries \<times> manager" where
  "fetch_video_playback w m =
     walk w (video_body w) (\<lambda>e h t. Inl (after_failover e (last_error t)))
       (\<lambda>h t. Inl (unwrap_or (last_error t) NONE_LEFT))
       (max 1 (playback_count m)) 0 () fresh_tries m"

section \<open>Licenses\<close>

type_synonym license = "nat \<times> string \<times> string"

record license_bytes =
  type_of :: "nat \<Rightarrow> nat \<Rightarrow> string option"
  bytes_of :: "nat \<Rightarrow> nat \<Rightarrow> string option"

definition WIDEVINE_DOWN :: app_error where
  "WIDEVINE_DOWN = ServiceUnavailable ''Error communicating with widevine server''"

text \<open>Sending once, and what the proxy manager is told.\<close>

definition send_license ::
    "api_world \<Rightarrow> nat \<Rightarrow> nat \<Rightarrow> nat \<Rightarrow> tries \<Rightarrow> manager \<Rightarrow> (nat \<times> string option) option \<times> tries \<times> manager" where
  "send_license w i k x t m =
     (let t1 = t\<lparr>trace := trace t @ [(x, reply w i k)]\<rparr>; aid = acc_id (heap m x)
      in case reply w i k of
           NoReply e \<Rightarrow> (None, t1, if is_connect e \<or> is_timeout e then emit (ProxyFailed aid) m else m)
         | Reply s retry_after body \<Rightarrow> (Some (s, retry_after), t1, emit (ProxyAnswered aid) m))"

definition license_text :: "license_bytes \<Rightarrow> nat \<Rightarrow> nat \<Rightarrow> nat \<Rightarrow> license" where
  "license_text b i k s = (s, unwrap_or (type_of b i k) ''application/json'', unwrap_or (bytes_of b i k) [])"

text \<open>The status the reply has after a possible second request; \<open>k\<close> is the request it answers.\<close>

definition license_status ::
    "api_world \<Rightarrow> license_bytes \<Rightarrow> nat \<Rightarrow> nat \<Rightarrow> nat \<Rightarrow> nat \<times> string option \<Rightarrow> license option \<Rightarrow> tries \<Rightarrow> manager \<Rightarrow>
     (app_error + license) move \<times> license option \<times> tries \<times> manager" where
  "license_status w b i k x answer h t m =
     (case answer of (s, retry_after) \<Rightarrow>
        if s = 429 then
          (let (seconds, a) = pause_account (dates (token_world w i 0)) (secs (reply_ms w i k)) retry_after (heap m x);
               m1 = mark_account_error (acc_id a) (reply_ms w i k) (at_addr x (\<lambda>_. a) m);
               (r, t1, m2) = fall_back i x (RateLimited seconds) t m1
           in (r, h, t1, m2))
        else if s = 403 \<or> s \<ge> 500 then
          (let (r, t1, m1) = abandon x (reply_ms w i k) (UpstreamError s UPSTREAM_ERROR) t m
           in (r, Some (license_text b i k s), t1, m1))
        else (Finish (Inr (license_text b i k s)), h, t, m))"

definition license_again ::
    "api_world \<Rightarrow> license_bytes \<Rightarrow> nat \<Rightarrow> nat \<Rightarrow> string \<Rightarrow> license option \<Rightarrow> tries \<Rightarrow> manager \<Rightarrow>
     (app_error + license) move \<times> license option \<times> tries \<times> manager" where
  "license_again w b i x token h t m =
     (case refresh_after_unauthorized (retry_world w i 0) x token m of
        (Inl e, m1) \<Rightarrow> (let (r, t1, m2) = leave i x (reply_ms w i 0) e t m1 in (r, h, t1, m2))
      | (Inr fresh, m1) \<Rightarrow>
          (case client_error w i 1 of
             Some e \<Rightarrow> (Finish (Inl (ServiceUnavailable e)), h, t, m1)
           | None \<Rightarrow>
               (case send_license w i 1 x t m1 of
                  (None, t2, m2) \<Rightarrow> (Finish (Inl WIDEVINE_DOWN), h, t2, m2)
                | (Some (s, ra), t2, m2) \<Rightarrow>
                    license_status w b i 1 x (s, ra) h t2
                      (if s = 401 then reject_refreshed_token (jitter (retry_world w i 0)) x fresh (secs (reply_ms w i 1)) m2
                       else m2))))"

definition license_one ::
    "api_world \<Rightarrow> license_bytes \<Rightarrow> nat \<Rightarrow> nat \<Rightarrow> license option \<Rightarrow> tries \<Rightarrow> manager \<Rightarrow>
     (app_error + license) move \<times> license option \<times> tries \<times> manager" where
  "license_one w b i x h t m =
     (case first_client_error w i of
        Some e \<Rightarrow> (Finish (Inl (ServiceUnavailable e)), h, t, m)
      | None \<Rightarrow>
          (case get_token (token_world w i 0) x m of
             (Inl e, m1) \<Rightarrow> (let (r, t1, m2) = leave i x (send_ms w i 0) e t m1 in (r, h, t1, m2))
           | (Inr token, m1) \<Rightarrow>
               (case rate_limit_remaining (secs (send_ms w i 0)) (heap m1 x) of
                  Some s \<Rightarrow> (let (r, t1, m2) = fall_back i x (RateLimited s) t m1 in (r, h, t1, m2))
                | None \<Rightarrow>
                    (case client_error w i 0 of
                       Some e \<Rightarrow> (Finish (Inl (ServiceUnavailable e)), h, t, m1)
                     | None \<Rightarrow>
                         (case send_license w i 0 x t m1 of
                            (None, t2, m2) \<Rightarrow> (Finish (Inl WIDEVINE_DOWN), h, t2, m2)
                          | (Some (s, ra), t2, m2) \<Rightarrow>
                              if s = 401 then license_again w b i x token h t2 m2
                              else license_status w b i 0 x (s, ra) h t2 m2)))))"

text \<open>What is answered when no account is left; \<open>e\<close> is the error to give when nothing else is known.\<close>

definition license_end :: "app_error \<Rightarrow> license option \<Rightarrow> tries \<Rightarrow> app_error + license" where
  "license_end e kept_reply t =
     (case last_error t of
        Some (RateLimited s) \<Rightarrow> Inl (RateLimited s)
      | _ \<Rightarrow> (case kept_reply of Some r \<Rightarrow> Inr r | None \<Rightarrow> Inl e))"

definition fetch_widevine_license ::
    "api_world \<Rightarrow> license_bytes \<Rightarrow> manager \<Rightarrow>
     (app_error + license) option \<times> license option \<times> tries \<times> manager" where
  "fetch_widevine_license w b m =
     walk w (license_one w b) (\<lambda>e h t. license_end (after_failover e (last_error t)) h t)
       (\<lambda>h t. license_end (unwrap_or (last_error t) NONE_LEFT) h t)
       (max 1 (playback_count m)) 0 None fresh_tries m"

section \<open>Routes and jobs\<close>

record video_params =
  video_id :: int
  video_quality :: "string option"
  video_mode :: "string option"
  video_presentation :: "string option"

definition get_video :: "video_params \<Rightarrow> playback_op" where
  "get_video p = Video (video_id p) (unwrap_or (video_quality p) ''HIGH'') (unwrap_or (video_mode p) ''STREAM'')
     (unwrap_or (video_presentation p) ''FULL'')"

definition widevine_proxy :: "string \<Rightarrow> string option \<Rightarrow> string \<Rightarrow> playback_op" where
  "widevine_proxy http_method content_type body =
     Widevine http_method (Some (unwrap_or content_type ''application/octet-stream'')) body"

text \<open>The outside of a job: the track routes answer in their own world.\<close>

record job_world =
  track_side :: track_world
  verdicts_known :: verdicts
  api_side :: api_world
  license_side :: license_bytes

definition run_op :: "job_world \<Rightarrow> playback_op \<Rightarrow> manager \<Rightarrow> (app_error + job_result) option" where
  "run_op w op m =
     (case op of
        Track track quality immersive \<Rightarrow>
          Some (map_sum (\<lambda>e. e) Json (fst (fetch_track_playback (track_side w) track quality immersive (verdicts_known w))))
      | Manifest track params raw host \<Rightarrow>
          Some (map_sum (\<lambda>e. e) Json (fst (fetch_manifest_inner (track_side w) track params host raw (verdicts_known w))))
      | Dash track atmos_param \<Rightarrow>
          Some (map_sum (\<lambda>e. e) Redirect (fst (fetch_dash_uri (track_side w) track atmos_param (verdicts_known w))))
      | Video i quality mode presentation \<Rightarrow>
          map_option (map_sum (\<lambda>e. e) Json) (fst (fetch_video_playback (api_side w) m))
      | Widevine http_method content_type body \<Rightarrow>
          map_option (map_sum (\<lambda>e. e) (\<lambda>(s, ct, out). Binary s ct out))
            (fst (fetch_widevine_license (api_side w) (license_side w) m)))"

end
