(* ===== verification/MediaProps.thy ===== *)
theory MediaProps
  imports Media
begin

text \<open>
  What the video and license routes promise: the contract of a loop body (\<open>turn\<close>) carries the walk
  over the pool (locale \<open>pool_walk\<close>), both bodies satisfy it, and what the client gets is an answer
  Tidal gave.
\<close>

section \<open>One round\<close>

text \<open>
  \<open>turn n i x m t out\<close>: the body asked \<open>x\<close> at most \<open>n\<close> times, every 429 among the replies was counted as
  a fallback, and the account is among the failed ones when the walk goes on.
\<close>

definition turn :: "nat \<Rightarrow> nat \<Rightarrow> nat \<Rightarrow> manager \<Rightarrow> tries \<Rightarrow> 'r move \<times> tries \<times> manager \<Rightarrow> bool" where
  "turn n i x m t out \<longleftrightarrow>
     (case out of (s, t', m') \<Rightarrow>
        kept m m' \<and>
        (\<exists>rs. trace t' = trace t @ map (Pair x) rs \<and> length rs \<le> n \<and>
              hits (limits t) + length (filter is_429 rs) \<le> hits (limits t')) \<and>
        (s = Onward \<longrightarrow> failed_ids t' = failed_ids t @ [acc_id (heap m x)]) \<and>
        (limits t' = limits t \<or>
         hits (limits t') = hits (limits t) + 1 \<and>
         (s = Onward \<longrightarrow> hits (limits t') \<le> 2 \<and> first_try (limits t') = Some (unwrap_or (first_try (limits t)) i)) \<and>
         (s \<noteq> Onward \<longrightarrow> first_try (limits t') = first_try (limits t))))"

definition bare :: "'r move \<times> 'h \<times> tries \<times> manager \<Rightarrow> 'r move \<times> tries \<times> manager" where
  "bare out = (case out of (s, h, t, m) \<Rightarrow> (s, t, m))"

lemma bare_simp [simp]: "bare (s, h, t, m) = (s, t, m)"
  by (simp add: bare_def)

lemma turn_fall_back: "turn n i x m t (fall_back i x e t m)"
  by (auto simp: turn_def fall_back_def schedule_def RATE_LIMIT_FALLBACKS_def Let_def intro!: exI [of _ "[]"])

lemma turn_fall_back_reply: "turn (Suc n) i x m t (fall_back i x e (t\<lparr>trace := trace t @ [(x, rep)]\<rparr>) m)"
  by (auto simp: turn_def fall_back_def schedule_def RATE_LIMIT_FALLBACKS_def Let_def intro!: exI [of _ "[rep]"])

lemma turn_abandon: "turn n i x m t (abandon x now_ms e t m)"
  by (auto simp: turn_def abandon_def kept_mark intro!: exI [of _ "[]"])

lemma turn_finish: "turn n i x m t (Finish r, t, m)"
  by (auto simp: turn_def intro!: exI [of _ "[]"])

lemma turn_leave: "turn n i x m t (leave i x now_ms e t m)"
  by (cases e) (simp_all add: leave_def turn_fall_back turn_abandon)

lemma turn_kept: "kept m m1 \<Longrightarrow> turn n i x m1 t out \<Longrightarrow> turn n i x m t out"
  by (auto simp: turn_def acc_id_kept [of m m1] intro: kept_trans)

lemma turn_more:
  assumes "turn n i x m (t\<lparr>trace := trace t @ [(x, rep)]\<rparr>) out" "\<not> is_429 rep"
  shows "turn (Suc n) i x m t out"
proof -
  obtain s t' m' where out: "out = (s, t', m')" by (cases out)
  from assms(1) obtain rs where rs: "trace t' = trace t @ (x, rep) # map (Pair x) rs" "length rs \<le> n"
    "hits (limits t) + length (filter is_429 rs) \<le> hits (limits t')"
    by (auto simp: turn_def out)
  then have "\<exists>rs. trace t' = trace t @ map (Pair x) rs \<and> length rs \<le> Suc n \<and>
      hits (limits t) + length (filter is_429 rs) \<le> hits (limits t')"
    using assms(2) by (intro exI [of _ "rep # rs"]) simp
  then show ?thesis using assms(1) by (simp add: turn_def out)
qed

section \<open>The walk\<close>

locale pool_walk =
  fixes one :: "nat \<Rightarrow> nat \<Rightarrow> 'h \<Rightarrow> tries \<Rightarrow> manager \<Rightarrow> 'r move \<times> 'h \<times> tries \<times> manager"
  assumes one_turn: "turn 2 i x m t (bare (one i x h t m))"
begin

lemma walk_cases:
  assumes "walk w one nl en (Suc n) i h t m = (r, h', t', m')"
  obtains (ended) "r = Some (en h t)" "h' = h" "t' = t" "m' = m"
  | (gone) m1 where "lease_pool_account w Playback i (failed_ids t) m = (None, m1)"
      "r = None" "h' = h" "t' = t" "m' = m1"
  | (refused) e m1 where "lease_pool_account w Playback i (failed_ids t) m = (Some (Inl e), m1)"
      "r = Some (nl e h t)" "h' = h" "t' = t" "m' = m1"
  | (finished) l m1 q h2 t2 m2 where "\<not> exhausted i (limits t)"
      "lease_pool_account w Playback i (failed_ids t) m = (Some (Inr l), m1)"
      "one i (lease_addr l) h t m1 = (Finish q, h2, t2, m2)"
      "r = Some q" "h' = h2" "t' = t2" "m' = drop_lease (drop_ms w i) l m2"
  | (onward) l m1 h2 t2 m2 where "\<not> exhausted i (limits t)"
      "lease_pool_account w Playback i (failed_ids t) m = (Some (Inr l), m1)"
      "one i (lease_addr l) h t m1 = (Onward, h2, t2, m2)"
      "walk w one nl en n (Suc i) h2 t2 (drop_lease (drop_ms w i) l m2) = (r, h', t', m')"
proof -
  obtain q m1 where q: "lease_pool_account w Playback i (failed_ids t) m = (q, m1)" by force
  note run = assms [unfolded walk.simps(2) q]
  show ?thesis
  proof (cases "exhausted i (limits t)")
    case True
    with run show ?thesis by (intro ended) auto
  next
    case False
    show ?thesis
    proof (cases q)
      case None
      with run q False show ?thesis by (intro gone) auto
    next
      case (Some v)
      show ?thesis
      proof (cases v)
        case (Inl e)
        with run q Some False show ?thesis by (intro refused) auto
      next
        case (Inr l)
        obtain s h2 t2 m2 where o: "one i (lease_addr l) h t m1 = (s, h2, t2, m2)" by (metis prod_cases4)
        show ?thesis
        proof (cases s)
          case (Finish y)
          with run q Some Inr o False show ?thesis by (intro finished) auto
        next
          case Onward
          with run q Some Inr o False show ?thesis by (intro onward) auto
        qed
      qed
    qed
  qed
qed

lemma walk_once:
  assumes "walk w one nl en n i h t m = (r, h', t', m')" "ids_kept w"
    and "set (asked_ids t m) \<subseteq> set (failed_ids t)" "distinct (remdups_adj (asked_ids t m))"
  shows "distinct (remdups_adj (asked_ids t' m)) \<and> length (trace t') \<le> length (trace t) + 2 * n"
  using assms
proof (induction n arbitrary: i h t m)
  case (Suc n)
  have leased: "distinct (remdups_adj (asked_ids t2 m)) \<and> length (trace t2) \<le> length (trace t) + 2
      \<and> same_ids m (drop_lease (drop_ms w i) l m2)
      \<and> (s = Onward \<longrightarrow> set (asked_ids t2 (drop_lease (drop_ms w i) l m2)) \<subseteq> set (failed_ids t2))"
    if "lease_pool_account w Playback i (failed_ids t) m = (Some (Inr l), m1)"
      "one i (lease_addr l) h t m1 = (s, h2, t2, m2)" for l m1 s h2 t2 m2
  proof -
    let ?x = "lease_addr l"
    note ids = pool_lease_ids [OF that(1) Suc.prems(2)]
    from one_turn [of i ?x m1 t h] that(2) obtain rs where rs: "kept m1 m2" "trace t2 = trace t @ map (Pair ?x) rs"
      "length rs \<le> 2" "s = Onward \<longrightarrow> failed_ids t2 = failed_ids t @ [acc_id (heap m1 ?x)]"
      by (auto simp: turn_def)
    have a2: "asked_ids t2 m = asked_ids t m @ replicate (length rs) (acc_id (heap m ?x))"
      using rs(2) by (simp add: asked_ids_def comp_def map_replicate_const)
    have ids3: "same_ids m (drop_lease (drop_ms w i) l m2)"
      by (rule same_ids_trans [OF ids(1) same_ids_trans [OF same_ids_kept [OF rs(1)] ids_drop]])
    have "distinct (remdups_adj (asked_ids t2 m))"
      unfolding a2 using Suc.prems(3,4) ids(2) by (intro remdups_adj_block) auto
    moreover have "s = Onward \<longrightarrow> set (asked_ids t2 (drop_lease (drop_ms w i) l m2)) \<subseteq> set (failed_ids t2)"
      using Suc.prems(3) rs(4) ids(1) by (auto simp: asked_ids_same [OF ids3] a2 same_ids_def)
    ultimately show ?thesis using rs(2,3) ids3 by simp
  qed
  from Suc.prems(1) show ?case
  proof (cases rule: walk_cases)
    case (finished l m1 q h2 t2 m2)
    with leased [OF finished(2,3)] show ?thesis by simp
  next
    case (onward l m1 h2 t2 m2)
    note l = leased [OF onward(2,3)]
    then have same: "asked_ids t'' (drop_lease (drop_ms w i) l m2) = asked_ids t'' m" for t''
      by (intro asked_ids_same) simp
    with Suc.IH [OF onward(4) Suc.prems(2)] l show ?thesis by simp
  qed (use Suc.prems(4) in auto)
qed simp

lemma walk_unmoved:
  assumes "walk w one nl en n i h t m = (r, h', t', m')" "calm w"
  shows "unmoved m m'"
  using assms(1)
proof (induction n arbitrary: i h t m)
  case (Suc n)
  have leased: "unmoved m (drop_lease (drop_ms w i) l m2)"
    if "lease_pool_account w Playback i (failed_ids t) m = (Some (Inr l), m1)"
      "one i (lease_addr l) h t m1 = (s, h2, t2, m2)" for l m1 s h2 t2 m2
  proof -
    have k: "kept m1 m2" using one_turn [of i "lease_addr l" m1 t h] that(2) by (auto simp: turn_def)
    have tk: "taken l m m1" using balanced_pool [OF that(1) assms(2)] by (simp add: balanced_def)
    show ?thesis by (rule taken_dropped [OF taken_unmoved [OF tk unmoved_kept [OF k]]])
  qed
  from Suc.prems show ?case
  proof (cases rule: walk_cases)
    case (onward l m1 h2 t2 m2)
    show ?thesis by (rule unmoved_trans [OF leased [OF onward(2,3)] Suc.IH [OF onward(4)]])
  next
    case (finished l m1 q h2 t2 m2)
    with leased [OF finished(2,3)] show ?thesis by simp
  next
    case (gone m1)
    with balanced_pool [OF gone(1) assms(2)] show ?thesis by (simp add: balanced_def)
  next
    case (refused e m1)
    with balanced_pool [OF refused(1) assms(2)] show ?thesis by (simp add: balanced_def)
  qed simp
qed simp

text \<open>The fallbacks of the walk, as for the other requests (\<open>fallback_inv\<close>).\<close>

lemma turn_fallback:
  assumes "one i x h t m = (s, h2, t2, m2)" "fallback_inv i t" "\<not> exhausted i (limits t)"
  shows "count_429 (trace t2) \<le> 3 \<and> card (after_429 t2) \<le> 3 \<and> (s = Onward \<longrightarrow> fallback_inv (Suc i) t2)"
proof -
  from one_turn [of i x m t h] assms(1) obtain rs where rs: "trace t2 = trace t @ map (Pair x) rs"
    "hits (limits t) + length (filter is_429 rs) \<le> hits (limits t2)"
    "limits t2 = limits t \<or> hits (limits t2) = hits (limits t) + 1
       \<and> (s = Onward \<longrightarrow> hits (limits t2) \<le> 2 \<and> first_try (limits t2) = Some (unwrap_or (first_try (limits t)) i))
       \<and> (s \<noteq> Onward \<longrightarrow> first_try (limits t2) = first_try (limits t))"
    by (force simp: turn_def)
  have cnt: "count_429 (trace t2) \<le> hits (limits t2)" "hits (limits t) \<le> 2" "count_429 (trace t) \<le> hits (limits t)"
    using rs(1,2) assms(2) by (auto simp: fallback_inv_def)
  have blk: "card (after_429 t2) \<le> card (after_429 t) + 1" by (rule after_429_block [OF rs(1)])
  have none: "card (after_429 t) = 0" if "first_try (limits t) = None"
    using assms(2) that cnt by (auto simp: fallback_inv_def after_429_def dropWhile_not_429)
  have none2: "card (after_429 t2) = 0" if "hits (limits t2) = 0"
    using cnt(1) that by (simp add: after_429_def dropWhile_not_429)
  have some: "card (after_429 t) + f \<le> i \<and> i \<le> f + 2 \<and> f \<le> i" if "first_try (limits t) = Some f" for f
    using assms(2,3) that by (auto simp: fallback_inv_def exhausted_def RATE_LIMIT_FALLBACKS_def)
  have "card (after_429 t2) \<le> 3"
  proof (cases "first_try (limits t)")
    case (Some f)
    from some [OF this] blk show ?thesis by linarith
  qed (use blk none in simp)
  moreover have "count_429 (trace t2) \<le> 3" using cnt rs(3) by auto
  moreover have "fallback_inv (Suc i) t2" if "s = Onward"
  proof (cases "first_try (limits t)")
    case None
    have "hits (limits t) = 0" using None assms(2) by (simp add: fallback_inv_def)
    with None rs(3) that cnt(1) blk none none2 show ?thesis by (auto simp: fallback_inv_def unwrap_or_def)
  next
    case (Some f)
    from rs(3) that Some cnt(2) have "first_try (limits t2) = Some f" "hits (limits t2) \<le> 2"
      by (elim disjE; simp add: unwrap_or_def)+
    with some [OF Some] cnt(1) blk show ?thesis by (simp add: fallback_inv_def)
  qed
  ultimately show ?thesis by blast
qed

lemma walk_fallback:
  assumes "walk w one nl en n i h t m = (r, h', t', m')" "fallback_inv i t"
  shows "count_429 (trace t') \<le> 3 \<and> card (after_429 t') \<le> 3"
  using assms
proof (induction n arbitrary: i h t m)
  have stay: "count_429 (trace t) \<le> 3 \<and> card (after_429 t) \<le> 3" if "fallback_inv i t" for i t
    using that by (auto simp: fallback_inv_def after_429_def dropWhile_not_429 split: option.splits)
  case 0
  then show ?case using stay by simp
next
  have stay: "count_429 (trace t) \<le> 3 \<and> card (after_429 t) \<le> 3" if "fallback_inv i t" for i t
    using that by (auto simp: fallback_inv_def after_429_def dropWhile_not_429 split: option.splits)
  case (Suc n)
  from Suc.prems(1) show ?case
  proof (cases rule: walk_cases)
    case (finished l m1 q h2 t2 m2)
    then show ?thesis using turn_fallback [OF finished(3) Suc.prems(2) finished(1)] by simp
  next
    case (onward l m1 h2 t2 m2)
    show ?thesis
      using Suc.IH [OF onward(4)] turn_fallback [OF onward(3) Suc.prems(2) onward(1)] by simp
  qed (use stay [OF Suc.prems(2)] in auto)
qed

end

section \<open>The two loop bodies\<close>

declare One_nat_def [simp del]

abbreviation heard :: "api_world \<Rightarrow> nat \<Rightarrow> nat \<Rightarrow> nat \<Rightarrow> tries \<Rightarrow> tries" where
  "heard w i k x t \<equiv> t\<lparr>trace := trace t @ [(x, reply w i k)]\<rparr>"

lemma turn_mono: "turn n i x m t out \<Longrightarrow> n \<le> n' \<Longrightarrow> turn n' i x m t out"
  by (force simp: turn_def)

lemma kept_authed: "kept m (snd (make_authed_request w aid egress sent now_ms rep m))"
proof -
  have p: "kept m (mark_account_error j u (at_addr y (\<lambda>_. snd (pause_account d n v (heap m y))) (emit (ProxyAnswered k) m)))"
    for j u y d n v k
    by (rule kept_trans [OF _ kept_mark]) (simp add: kept_def emit_def at_addr_def)
  have e: "kept m (mark_account_error j u (emit (ProxyAnswered k) m))" for j u k
    by (rule kept_trans [OF _ kept_mark]) simp
  show ?thesis
    using p e by (simp add: make_authed_request_def Let_def split_beta split: option.split api_reply.split)
qed

lemma ask_video_cases:
  assumes "ask_video w i k x t m = (r, t1, m1)"
  shows "kept m m1 \<and> (t1 = t \<and> (\<exists>e. r = Inl e) \<or>
     t1 = heard w i k x t \<and> (is_429 (reply w i k) \<longrightarrow> (\<exists>s. r = Inl (RateLimited s)))
       \<and> (\<forall>data. r = Inr data \<longrightarrow> (\<exists>s ra. reply w i k = Reply s ra (Parsed data) \<and> is_success s)))"
proof -
  have "m1 = snd (make_authed_request (token_world w i k) (acc_id (heap m x)) (client_error w i k) (secs (send_ms w i k))
      (reply_ms w i k) (reply w i k) m)"
    using assms by (simp add: ask_video_def split_beta Let_def split: prod.splits)
  then have k: "kept m m1" by (simp add: kept_authed)
  show ?thesis
    using assms k
    by (auto simp: ask_video_def make_authed_request_def read_json_def Let_def split_beta
        split: option.splits api_reply.splits if_splits read_body.splits)
qed

lemma turn_video_again: "turn 1 i x m t (video_again w i x token t m)"
proof -
  obtain q m1 where q: "refresh_after_unauthorized (retry_world w i 0) x token m = (q, m1)" by force
  have k1: "kept m m1" using kept_unauthorized [of m "retry_world w i 0" x token] q by simp
  show ?thesis
  proof (cases q)
    case (Inl e)
    then show ?thesis by (simp add: video_again_def q turn_kept [OF k1 turn_leave])
  next
    case (Inr fresh)
    obtain r t2 m2 where a: "ask_video w i 1 x t m1 = (r, t2, m2)" by (metis prod_cases3)
    note c = ask_video_cases [OF a]
    show ?thesis
    proof (cases r)
      case (Inl e)
      define m3 where "m3 = (case e of
          UpstreamError s msg \<Rightarrow>
            if s = 401 then reject_refreshed_token (jitter (retry_world w i 0)) x fresh (secs (reply_ms w i 1)) m2 else m2
        | _ \<Rightarrow> m2)"
      have "kept m2 m3" by (simp add: m3_def kept_reject_refreshed split: app_error.split)
      with c have k3: "kept m1 m3" by (blast intro: kept_trans)
      have out: "video_again w i x token t m = leave i x (reply_ms w i 1) e t2 m3"
        by (simp add: video_again_def q Inr a Inl m3_def)
      have "turn 1 i x m3 t (leave i x (reply_ms w i 1) e t2 m3)"
      proof (cases "t2 = t")
        case False
        with c have t2: "t2 = heard w i 1 x t" by blast
        show ?thesis
        proof (cases "is_429 (reply w i 1)")
          case True
          with c False Inl obtain s where "e = RateLimited s" by auto
          then show ?thesis using turn_fall_back_reply [of 0] by (simp add: leave_def t2 One_nat_def)
        next
          case False
          then show ?thesis unfolding t2 One_nat_def
            by (rule turn_more [OF turn_leave])
        qed
      qed (simp add: turn_leave)
      then show ?thesis unfolding out by (rule turn_kept [OF kept_trans [OF k1 k3]])
    next
      case (Inr data)
      then have t2: "t2 = heard w i 1 x t" "\<not> is_429 (reply w i 1)" using c by auto
      have "turn 1 i x m2 t (Finish (Inr (video_answer (version w) data)), t2, m2)"
        using turn_more [OF turn_finish [of 0]] t2 by (metis One_nat_def)
      then have "turn 1 i x m t (Finish (Inr (video_answer (version w) data)), t2, m2)"
        using c k1 by (blast intro: turn_kept kept_trans)
      then show ?thesis by (simp add: video_again_def q \<open>q = Inr fresh\<close> a Inr)
    qed
  qed
qed

lemma turn_video_failed: "turn 1 i x m t (video_failed w i x token e t m)"
  by (cases e) (simp_all add: video_failed_def turn_video_again turn_abandon turn_finish turn_fall_back)

lemma turn_video: "turn 2 i x m t (video_one w i x t m)"
proof (cases "first_client_error w i")
  case (Some e)
  then show ?thesis by (simp add: video_one_def turn_finish)
next
  case None
  obtain q m1 where q: "get_token (token_world w i 0) x m = (q, m1)" by force
  have k1: "kept m m1" using kept_get_token [of m "token_world w i 0" x] q by simp
  show ?thesis
  proof (cases q)
    case (Inl e)
    then show ?thesis by (simp add: video_one_def None q turn_kept [OF k1 turn_leave])
  next
    case (Inr token)
    obtain r t2 m2 where a: "ask_video w i 0 x t m1 = (r, t2, m2)" by (metis prod_cases3)
    note c = ask_video_cases [OF a]
    define out where "out = (case r of Inr data \<Rightarrow> (Finish (Inr (video_answer (version w) data)), t2, m2)
        | Inl e \<Rightarrow> video_failed w i x token e t2 m2)"
    have one: "turn 1 i x m2 t2 out" unfolding out_def using turn_video_failed turn_finish by (cases r) auto
    have "turn 2 i x m2 t out"
    proof (cases "t2 = t")
      case True
      then show ?thesis using one by (auto intro: turn_mono)
    next
      case False
      with c have t2: "t2 = heard w i 0 x t" by blast
      show ?thesis
      proof (cases "is_429 (reply w i 0)")
        case True
        with c False obtain s where "r = Inl (RateLimited s)" by auto
        then show ?thesis using turn_fall_back_reply [of 1 i x m2 t "RateLimited s" "reply w i 0"]
          by (simp add: out_def video_failed_def t2)
      next
        case False
        show ?thesis unfolding Suc_1 [symmetric] by (rule turn_more) (use one t2 False in auto)
      qed
    qed
    then have "turn 2 i x m t out" using c k1 by (blast intro: turn_kept kept_trans)
    then show ?thesis by (cases r) (simp_all add: video_one_def None q Inr a out_def)
  qed
qed

interpretation video: pool_walk "video_body w" for w
proof
  show "turn 2 i x m t (bare (video_body w i x h t m))" for i x m t h
    using turn_video [of i x m t w] by (cases "video_one w i x t m") (simp add: video_body_def)
qed

lemma turn_license_status:
  assumes "reply w i k = Reply s ra body"
  shows "turn (Suc n) i x m t (bare (license_status w b i k x (s, ra) h (heard w i k x t) m))"
proof -
  have p: "kept m (mark_account_error j u (at_addr x (\<lambda>_. snd (pause_account d n' v (heap m x))) m))" for j u d n' v
    by (rule kept_pause)
  have "turn (Suc n) i x m t (bare (license_status w b i k x (s, ra) h (heard w i k x t) m))" if "s = 429"
  proof -
    let ?p = "pause_account (dates (token_world w i 0)) (secs (reply_ms w i k)) ra (heap m x)"
    let ?m = "mark_account_error (acc_id (snd ?p)) (reply_ms w i k) (at_addr x (\<lambda>_. snd ?p) m)"
    have "bare (license_status w b i k x (s, ra) h (heard w i k x t) m)
        = fall_back i x (RateLimited (fst ?p)) (heard w i k x t) ?m"
      using that by (simp add: license_status_def split_beta Let_def bare_def)
    then show ?thesis using turn_kept [OF p turn_fall_back_reply] by metis
  qed
  moreover have "turn (Suc n) i x m t (bare (license_status w b i k x (s, ra) h (heard w i k x t) m))" if "s \<noteq> 429"
  proof -
    have n429: "\<not> is_429 (reply w i k)" using that assms by simp
    have "turn (Suc n) i x m t (abandon x u e (heard w i k x t) m)" for u e
      using turn_more [OF turn_abandon [of n i x m "heard w i k x t" u e, unfolded abandon_def] n429]
      by (simp add: abandon_def)
    moreover have "turn (Suc n) i x m t (Finish q, heard w i k x t, m)" for q
      by (rule turn_more [OF turn_finish n429])
    ultimately show ?thesis using that by (auto simp: license_status_def bare_def split_beta)
  qed
  ultimately show ?thesis by blast
qed

lemma send_license_cases:
  assumes "send_license w i k x t m = (q, t1, m1)"
  shows "kept m m1 \<and> t1 = heard w i k x t \<and>
     (q = None \<and> \<not> is_429 (reply w i k) \<or> (\<exists>s ra body. q = Some (s, ra) \<and> reply w i k = Reply s ra body))"
  using assms by (auto simp: send_license_def Let_def split: api_reply.splits)

lemma turn_license_again: "turn 1 i x m t (bare (license_again w b i x token h t m))"
proof -
  obtain q m1 where q: "refresh_after_unauthorized (retry_world w i 0) x token m = (q, m1)" by force
  have k1: "kept m m1" using kept_unauthorized [of m "retry_world w i 0" x token] q by simp
  show ?thesis
  proof (cases q)
    case (Inl e)
    then show ?thesis using turn_kept [OF k1 turn_leave [of 1 i x m1 t "reply_ms w i 0" e]]
      by (simp add: license_again_def q split_beta bare_def)
  next
    case (Inr fresh)
    obtain r t2 m2 where a: "send_license w i 1 x t m1 = (r, t2, m2)" by (metis prod_cases3)
    note c = send_license_cases [OF a]
    have rej: "kept m2 (if s = 401 then reject_refreshed_token j x fresh u m2 else m2)" for s j u
      by (simp add: kept_reject_refreshed)
    show ?thesis
    proof (cases "client_error w i 1")
      case None
      show ?thesis
      proof (cases r)
        case r: None
        have "turn 1 i x m2 t (Finish (Inl WIDEVINE_DOWN), t2, m2)"
          using turn_more [OF turn_finish [of 0]] c r by (metis One_nat_def option.distinct(1))
        then have "turn 1 i x m t (Finish (Inl WIDEVINE_DOWN), t2, m2)" using c k1 by (blast intro: turn_kept kept_trans)
        then show ?thesis by (simp add: license_again_def q Inr None a r)
      next
        case (Some y)
        then obtain s ra body where y: "r = Some (s, ra)" "reply w i 1 = Reply s ra body" using c by auto
        define m3 where "m3 = (if s = 401 then reject_refreshed_token (jitter (retry_world w i 0)) x fresh (secs (reply_ms w i 1)) m2 else m2)"
        have "turn 1 i x m3 t (bare (license_status w b i 1 x (s, ra) h t2 m3))"
          using turn_license_status [OF y(2), of 0] c by (auto simp: One_nat_def [symmetric])
        moreover have "kept m m3" unfolding m3_def using c by (intro kept_trans [OF k1 kept_trans [OF _ rej]]) simp
        ultimately show ?thesis
          by (simp add: license_again_def q Inr None a y(1) turn_kept flip: m3_def)
      qed
    qed (simp add: license_again_def q Inr turn_kept [OF k1 turn_finish])
  qed
qed

lemma turn_license: "turn 2 i x m t (bare (license_one w b i x h t m))"
proof (cases "first_client_error w i")
  case (Some e)
  then show ?thesis by (simp add: license_one_def turn_finish)
next
  case None
  obtain q m1 where q: "get_token (token_world w i 0) x m = (q, m1)" by force
  have k1: "kept m m1" using kept_get_token [of m "token_world w i 0" x] q by simp
  show ?thesis
  proof (cases q)
    case (Inl e)
    then show ?thesis using turn_kept [OF k1 turn_leave [of 2 i x m1 t "send_ms w i 0" e]]
      by (simp add: license_one_def None q split_beta bare_def)
  next
    case (Inr token)
    show ?thesis
    proof (cases "rate_limit_remaining (secs (send_ms w i 0)) (heap m1 x)")
      case (Some s)
      then show ?thesis using turn_kept [OF k1 turn_fall_back [of 2 i x m1 t "RateLimited s"]]
        by (simp add: license_one_def None q Inr split_beta bare_def)
    next
      case free: None
      obtain r t2 m2 where a: "send_license w i 0 x t m1 = (r, t2, m2)" by (metis prod_cases3)
      note c = send_license_cases [OF a]
      then have k2: "kept m m2" using k1 by (blast intro: kept_trans)
      show ?thesis
      proof (cases "client_error w i 0")
        case ok: None
        show ?thesis
        proof (cases r)
          case r: None
          have "turn 2 i x m2 t (Finish (Inl WIDEVINE_DOWN), t2, m2)"
            using turn_more [OF turn_finish [of 1]] c r by (metis Suc_1 option.distinct(1))
          then have "turn 2 i x m t (Finish (Inl WIDEVINE_DOWN), t2, m2)" by (rule turn_kept [OF k2])
          then show ?thesis by (simp add: license_one_def None q Inr free ok a r)
        next
          case (Some y)
          then obtain s ra body where y: "r = Some (s, ra)" "reply w i 0 = Reply s ra body" using c by auto
          have "turn 2 i x m2 t (bare (license_again w b i x token h t2 m2))" if "s = 401"
          proof -
            have n: "\<not> is_429 (reply w i 0)" using that y by simp
            show ?thesis unfolding Suc_1 [symmetric]
              by (rule turn_more [OF _ n]) (use turn_license_again [of i x m2 t2 w b token h] c in auto)
          qed
          moreover have "turn 2 i x m2 t (bare (license_status w b i 0 x (s, ra) h t2 m2))"
            using turn_license_status [OF y(2), of 1] c by simp
          ultimately have "turn 2 i x m2 t (bare (if s = 401 then license_again w b i x token h t2 m2
              else license_status w b i 0 x (s, ra) h t2 m2))" by simp
          then have "turn 2 i x m t (bare (if s = 401 then license_again w b i x token h t2 m2
              else license_status w b i 0 x (s, ra) h t2 m2))" by (rule turn_kept [OF k2])
          then show ?thesis by (simp add: license_one_def None q Inr free ok a y(1))
        qed
      qed (simp add: license_one_def None q Inr free turn_kept [OF k1 turn_finish])
    qed
  qed
qed

interpretation license: pool_walk "license_one w b" for w b
  by unfold_locales (rule turn_license)

declare One_nat_def [simp]

section \<open>Whom the routes ask\<close>

lemma fresh_start: "asked_ids fresh_tries m = []" "fallback_inv 0 fresh_tries" "trace fresh_tries = []"
  by (simp_all add: asked_ids_def fresh_tries_def fallback_inv_def count_429_def)

text \<open>
  A video and a license request ask each account at most once, with at most one more request after
  a renewed token, and as many accounts as the playback pool has.
\<close>

lemma media_asks_each_account_once:
  assumes "fetch_video_playback w m = (r, u, t, m')" "fetch_widevine_license w b m = (r2, h2, t2, m2)" "ids_kept w"
  shows "distinct (remdups_adj (asked_ids t m)) \<and> length (trace t) \<le> 2 * max 1 (playback_count m)
    \<and> distinct (remdups_adj (asked_ids t2 m)) \<and> length (trace t2) \<le> 2 * max 1 (playback_count m)"
  using video.walk_once [OF assms(1) [unfolded fetch_video_playback_def] assms(3)]
    license.walk_once [OF assms(2) [unfolded fetch_widevine_license_def] assms(3)]
  by (simp add: fresh_start)

text \<open>
  Tidal's 429s stop a video or license request early: it meets at most three of them, and from the
  first on at most three accounts are asked.
\<close>

lemma media_stops_after_429s:
  "(case fetch_video_playback w m of (r, u, t, m') \<Rightarrow> count_429 (trace t) \<le> 3 \<and> card (after_429 t) \<le> 3)
   \<and> (case fetch_widevine_license w b m of (r, h, t, m') \<Rightarrow> count_429 (trace t) \<le> 3 \<and> card (after_429 t) \<le> 3)"
proof -
  obtain r u t m' r2 h2 t2 m2 where "fetch_video_playback w m = (r, u, t, m')" "fetch_widevine_license w b m = (r2, h2, t2, m2)"
    by (metis prod_cases4)
  then show ?thesis
    using video.walk_fallback [OF _ fresh_start(2)] license.walk_fallback [OF _ fresh_start(2)]
    by (fastforce simp: fetch_video_playback_def fetch_widevine_license_def)
qed

text \<open>
  A video or license request gives back every lease it took: whichever way it ends, each account
  has as many requests in flight as before it, as far as the request itself goes.
\<close>

lemma media_gives_back_leases:
  assumes "fetch_video_playback w m = (r, u, t, m')" "fetch_widevine_license w b m = (r2, h2, t2, m2)" "calm w"
  shows "inflight (heap m' x) = inflight (heap m x) \<and> inflight (heap m2 x) = inflight (heap m x)"
  using video.walk_unmoved [OF assms(1) [unfolded fetch_video_playback_def] assms(3)]
    license.walk_unmoved [OF assms(2) [unfolded fetch_widevine_license_def] assms(3)]
  by (simp add: unmoved_def)

section \<open>What the client gets\<close>

lemma walk_result:
  assumes "walk w one nl en n i h t m = (r, h', t', m')" "P h t"
    and "\<And>i x h t m s h2 t2 m2. one i x h t m = (s, h2, t2, m2) \<Longrightarrow> P h t \<Longrightarrow>
           (s = Onward \<longrightarrow> P h2 t2) \<and> (\<forall>q. s = Finish q \<longrightarrow> Q q h2 t2)"
    and "\<And>h t. P h t \<Longrightarrow> Q (en h t) h t" "\<And>e h t. P h t \<Longrightarrow> Q (nl e h t) h t"
  shows "\<forall>q. r = Some q \<longrightarrow> Q q h' t'"
  using assms(1,2)
proof (induction n arbitrary: i h t m)
  case 0
  then show ?case using assms(4) by auto
next
  case (Suc n)
  obtain q m1 where q: "lease_pool_account w Playback i (failed_ids t) m = (q, m1)" by force
  note run = Suc.prems(1) [unfolded walk.simps(2) q]
  show ?case
  proof (cases "\<not> exhausted i (limits t) \<and> (\<exists>l. q = Some (Inr l))")
    case False
    then show ?thesis using run assms(4,5) [OF Suc.prems(2)]
      by (auto split: if_splits option.splits sum.splits)
  next
    case True
    then obtain l where l: "q = Some (Inr l)" by blast
    obtain s h2 t2 m2 where o: "one i (lease_addr l) h t m1 = (s, h2, t2, m2)" by (metis prod_cases4)
    note step = assms(3) [OF o Suc.prems(2)]
    show ?thesis
    proof (cases s)
      case (Finish y)
      with run True l o step show ?thesis by auto
    next
      case Onward
      with run True l o have "walk w one nl en n (Suc i) h2 t2 (drop_lease (drop_ms w i) l m2) = (r, h', t', m')" by simp
      from Suc.IH [OF this] step Onward show ?thesis by blast
    qed
  qed
qed

definition told_license :: "api_world \<Rightarrow> license_bytes \<Rightarrow> tries \<Rightarrow> license \<Rightarrow> bool" where
  "told_license w b t l \<longleftrightarrow>
     (\<exists>x i k ra body. (x, reply w i k) \<in> set (trace t) \<and> reply w i k = Reply (fst l) ra body
        \<and> l = license_text b i k (fst l))"

lemma told_more: "told_license w b t l \<Longrightarrow> set (trace t) \<subseteq> set (trace t2) \<Longrightarrow> told_license w b t2 l"
  unfolding told_license_def by blast

definition refusal_code :: "nat \<Rightarrow> bool" where
  "refusal_code s \<longleftrightarrow> s = 403 \<or> s \<ge> 500"

text \<open>What is kept between accounts was told, and is a refusal.\<close>

definition kept_told :: "api_world \<Rightarrow> license_bytes \<Rightarrow> license option \<Rightarrow> tries \<Rightarrow> bool" where
  "kept_told w b h t \<longleftrightarrow> (\<forall>l. h = Some l \<longrightarrow> told_license w b t l \<and> refusal_code (fst l))"

lemma trace_leave [simp]:
  "trace (fst (snd (fall_back i x e t m))) = trace t" "trace (fst (snd (abandon x u e t m))) = trace t"
  "trace (fst (snd (leave i x u e t m))) = trace t"
  by (auto simp: fall_back_def abandon_def leave_def schedule_def Let_def split: app_error.split)

lemma no_license [simp]:
  "fst (fall_back i x e t m) \<noteq> Finish (Inr q)" "fst (abandon x u e t m) \<noteq> Finish (Inr q)"
  "fst (leave i x u e t m) \<noteq> Finish (Inr q)"
  by (auto simp: fall_back_def abandon_def leave_def schedule_def Let_def split: app_error.split)

lemma leave_no_answer [simp]: "leave i x u e t m \<noteq> (Finish (Inr q), t', m')"
  using no_license(3) by (metis fst_conv)

definition license_ok :: "api_world \<Rightarrow> license_bytes \<Rightarrow> app_error + license \<Rightarrow> license option \<Rightarrow> tries \<Rightarrow> bool" where
  "license_ok w b q h t \<longleftrightarrow>
     (\<forall>l. q = Inr l \<longrightarrow> told_license w b t l \<and> fst l \<noteq> 429 \<and> (refusal_code (fst l) \<longrightarrow> h = Some l))"

definition license_step_ok :: "api_world \<Rightarrow> license_bytes \<Rightarrow> (app_error + license) move \<times> license option \<times> tries \<times> manager \<Rightarrow> bool" where
  "license_step_ok w b out \<longleftrightarrow>
     (case out of (s, h, t, m) \<Rightarrow> kept_told w b h t \<and> (\<forall>q. s = Finish q \<longrightarrow> license_ok w b q h t))"

lemma license_quit_ok: "kept_told w b h t \<Longrightarrow> license_step_ok w b (Finish (Inl e), h, t, m)"
  by (simp add: license_step_ok_def license_ok_def)

lemma license_leave_ok:
  assumes "kept_told w b h t" "trace (fst (snd out)) = trace t" "\<And>q. fst out \<noteq> Finish (Inr q)"
  shows "license_step_ok w b (fst out, h, snd out)"
proof -
  obtain s t1 m1 where out: "out = (s, t1, m1)" by (cases out)
  have "kept_told w b h t1" using assms(1,2) by (simp add: out kept_told_def told_license_def)
  moreover have "license_ok w b q h t1" if "s = Finish q" for q
    using assms(3) [of "projr q"] that by (cases q) (simp_all add: out license_ok_def)
  ultimately show ?thesis by (simp add: out license_step_ok_def)
qed

lemma license_status_ok:
  assumes "reply w i k = Reply s ra body" "(x, reply w i k) \<in> set (trace t)" "kept_told w b h t"
  shows "license_step_ok w b (license_status w b i k x (s, ra) h t m)"
proof -
  have told: "told_license w b t1 (license_text b i k s)" if "trace t1 = trace t" for t1
    unfolding told_license_def
    using assms(1,2) that by (intro exI [of _ x] exI [of _ i] exI [of _ k]) (auto simp: license_text_def)
  consider "s = 429" | "s \<noteq> 429" "s = 403 \<or> s \<ge> 500" | "s \<noteq> 429" "\<not> (s = 403 \<or> s \<ge> 500)" by blast
  then show ?thesis
  proof cases
    case 1
    then show ?thesis
      by (simp add: license_status_def split_beta Let_def license_leave_ok [OF assms(3)])
  next
    case 2
    have "kept_told w b (Some (license_text b i k s)) t1" if "trace t1 = trace t" for t1
      using told [OF that] 2 by (simp add: kept_told_def refusal_code_def license_text_def)
    with 2 show ?thesis
      by (auto simp: license_status_def split_beta Let_def license_step_ok_def license_ok_def refusal_code_def abandon_def)
  next
    case 3
    with told [OF refl] assms(3) show ?thesis
      by (auto simp: license_status_def license_step_ok_def license_ok_def license_text_def refusal_code_def)
  qed
qed

lemma license_again_ok:
  assumes "kept_told w b h t"
  shows "license_step_ok w b (license_again w b i x token h t m)"
proof -
  obtain q m1 where q: "refresh_after_unauthorized (retry_world w i 0) x token m = (q, m1)" by force
  show ?thesis
  proof (cases q)
    case (Inl e)
    then show ?thesis by (simp add: license_again_def q split_beta license_leave_ok [OF assms])
  next
    case (Inr fresh)
    obtain r t2 m2 where a: "send_license w i 1 x t m1 = (r, t2, m2)" by (metis prod_cases3)
    note c = send_license_cases [OF a]
    have k2: "kept_told w b h t2" using assms c by (auto simp: kept_told_def intro: told_more)
    show ?thesis
    proof (cases "client_error w i 1 = None \<and> r \<noteq> None")
      case True
      then obtain s ra body where "r = Some (s, ra)" "reply w i 1 = Reply s ra body" using c by auto
      then show ?thesis
        using True license_status_ok [of w i 1 s ra body x t2 b h] c k2
        by (simp add: license_again_def q Inr a del: One_nat_def)
    next
      case False
      then show ?thesis
        by (auto simp: license_again_def q Inr a license_quit_ok [OF k2] license_quit_ok [OF assms]
            simp del: One_nat_def split: option.split)
    qed
  qed
qed

lemma license_one_ok:
  assumes "kept_told w b h t"
  shows "license_step_ok w b (license_one w b i x h t m)"
proof -
  obtain q m1 where q: "get_token (token_world w i 0) x m = (q, m1)" by force
  show ?thesis
  proof (cases "first_client_error w i = None \<and> (\<exists>token. q = Inr token) \<and>
      rate_limit_remaining (secs (send_ms w i 0)) (heap m1 x) = None \<and> client_error w i 0 = None")
    case False
    then show ?thesis
      by (auto simp: license_one_def q split_beta license_quit_ok [OF assms] license_leave_ok [OF assms]
          split: option.split sum.split)
  next
    case True
    then obtain token where token: "q = Inr token" by blast
    obtain r t2 m2 where a: "send_license w i 0 x t m1 = (r, t2, m2)" by (metis prod_cases3)
    note c = send_license_cases [OF a]
    have k2: "kept_told w b h t2" using assms c by (auto simp: kept_told_def intro: told_more)
    have open_: "license_one w b i x h t m = (case r of
        None \<Rightarrow> (Finish (Inl WIDEVINE_DOWN), h, t2, m2)
      | Some (s, ra) \<Rightarrow> if s = 401 then license_again w b i x token h t2 m2 else license_status w b i 0 x (s, ra) h t2 m2)"
      using True by (simp add: license_one_def q token a split: option.split)
    show ?thesis
    proof (cases r)
      case None
      then show ?thesis by (simp add: open_ license_quit_ok [OF k2])
    next
      case (Some y)
      then obtain s ra body where y: "r = Some (s, ra)" "reply w i 0 = Reply s ra body" using c by auto
      have "license_step_ok w b (license_again w b i x token h t2 m2)" by (rule license_again_ok [OF k2])
      moreover have "license_step_ok w b (license_status w b i 0 x (s, ra) h t2 m2)"
        by (rule license_status_ok [OF y(2) _ k2]) (use c in simp)
      ultimately show ?thesis using y(1) by (simp add: open_)
    qed
  qed
qed

lemma license_end_ok: "kept_told w b h t \<Longrightarrow> license_ok w b (license_end e h t) h t"
  by (auto simp: license_end_def license_ok_def kept_told_def refusal_code_def split: option.splits app_error.splits)

text \<open>
  The license route answers what Tidal said: the status, the content type and the bytes are those of
  one of the replies it got, never of a 429; a 403 or 5xx is answered only as the reply kept from an
  account that was given up.
\<close>

lemma license_is_tidals:
  assumes "fetch_widevine_license w b m = (Some (Inr l), h, t, m')"
  shows "told_license w b t l \<and> fst l \<noteq> 429 \<and> (refusal_code (fst l) \<longrightarrow> h = Some l)"
proof -
  have "\<forall>q. Some (Inr l) = Some q \<longrightarrow> license_ok w b q h t"
  proof (rule walk_result [OF assms [unfolded fetch_widevine_license_def], of "kept_told w b" "license_ok w b"])
    show "kept_told w b None fresh_tries" by (simp add: kept_told_def)
    show "(s = Onward \<longrightarrow> kept_told w b h2 t2) \<and> (\<forall>q. s = Finish q \<longrightarrow> license_ok w b q h2 t2)"
      if "license_one w b i x h t m = (s, h2, t2, m2)" "kept_told w b h t" for i x h t m s h2 t2 m2
      using license_one_ok [OF that(2), of i x m] that(1) by (simp add: license_step_ok_def)
  qed (rule license_end_ok, assumption)+
  then show ?thesis unfolding license_ok_def by blast
qed

definition video_told :: "api_world \<Rightarrow> json \<Rightarrow> tries \<Rightarrow> bool" where
  "video_told w out t \<longleftrightarrow>
     (\<exists>x i k s ra data. trace t \<noteq> [] \<and> last (trace t) = (x, reply w i k) \<and> reply w i k = Reply s ra (Parsed data)
        \<and> is_success s \<and> out = video_answer (version w) data)"

lemma ask_video_told:
  assumes "ask_video w i k x t m = (Inr data, t1, m1)"
  shows "video_told w (video_answer (version w) data) t1"
proof -
  from ask_video_cases [OF assms] obtain s ra where "t1 = heard w i k x t"
    "reply w i k = Reply s ra (Parsed data)" "is_success s" by auto
  then show ?thesis unfolding video_told_def
    by (intro exI [of _ x] exI [of _ i] exI [of _ k] exI [of _ s] exI [of _ ra] exI [of _ data]) simp
qed

lemma video_again_told:
  assumes "video_again w i x token t m = (Finish (Inr out), t', m')"
  shows "video_told w out t'"
proof -
  obtain q m1 where q: "refresh_after_unauthorized (retry_world w i 0) x token m = (q, m1)" by force
  show ?thesis
  proof (cases q)
    case (Inl e)
    with assms q show ?thesis by (simp add: video_again_def)
  next
    case (Inr fresh)
    obtain r t2 m2 where a: "ask_video w i 1 x t m1 = (r, t2, m2)" by (metis prod_cases3)
    show ?thesis
    proof (cases r)
      case (Inl e)
      with assms q Inr a show ?thesis by (simp add: video_again_def del: One_nat_def)
    next
      case (Inr data)
      with assms q \<open>q = Inr fresh\<close> a ask_video_told show ?thesis
        by (auto simp: video_again_def simp del: One_nat_def)
    qed
  qed
qed

lemma video_one_told:
  assumes "video_one w i x t m = (Finish (Inr out), t', m')"
  shows "video_told w out t'"
proof -
  obtain q m1 where q: "get_token (token_world w i 0) x m = (q, m1)" by force
  show ?thesis
  proof (cases "first_client_error w i = None \<and> (\<exists>token. q = Inr token)")
    case False
    with assms q show ?thesis by (auto simp: video_one_def split: option.splits sum.splits)
  next
    case True
    then obtain token where token: "q = Inr token" by blast
    obtain r t2 m2 where a: "ask_video w i 0 x t m1 = (r, t2, m2)" by (metis prod_cases3)
    show ?thesis
    proof (cases r)
      case (Inl e)
      then have "video_failed w i x token e t2 m2 = (Finish (Inr out), t', m')"
        using assms True q token a by (simp add: video_one_def)
      then show ?thesis using video_again_told
        by (cases e) (auto simp: video_failed_def abandon_def fall_back_def split: if_splits prod.splits option.splits)
    next
      case (Inr data)
      with assms True q token a ask_video_told show ?thesis by (auto simp: video_one_def)
    qed
  qed
qed

text \<open>
  A video request that succeeds answers what the last account it asked replied: the body of a 2xx
  reply that could be read, under \<open>video\<close>.
\<close>

lemma video_is_tidals:
  assumes "fetch_video_playback w m = (Some (Inr out), u, t, m')"
  shows "video_told w out t"
proof -
  have "\<forall>q :: app_error + json. Some (Inr out) = Some q \<longrightarrow> (\<forall>out. q = Inr out \<longrightarrow> video_told w out t)"
  proof (rule walk_result [OF assms [unfolded fetch_video_playback_def], 
        where P = "\<lambda>h t. True" and Q = "\<lambda>q h t. \<forall>out. q = Inr out \<longrightarrow> video_told w out t"])
    show "(s = Onward \<longrightarrow> True) \<and> (\<forall>q. s = Finish q \<longrightarrow> (\<forall>out. q = Inr out \<longrightarrow> video_told w out t2))"
      if "video_body w i x h t m = (s, h2, t2, m2)" for i x h t m s h2 t2 m2
      using that video_one_told by (fastforce simp: video_body_def split: prod.splits)
  qed auto
  then show ?thesis by simp
qed

section \<open>A license refused twice\<close>

text \<open>
  The license route renews the token once after a 401, as its comment says, but does not go on to
  another account when the second request is refused too: the client gets that 401 (the video route
  gives the account up).
\<close>

lemma license_refused_twice:
  assumes "first_client_error w i = None" "get_token (token_world w i 0) x m = (Inr token, m1)"
    "rate_limit_remaining (secs (send_ms w i 0)) (heap m1 x) = None"
    "client_error w i 0 = None" "client_error w i 1 = None"
    "reply w i 0 = Reply 401 ra body" "reply w i 1 = Reply 401 ra' body'"
    "refresh_after_unauthorized (retry_world w i 0) x token (emit (ProxyAnswered (acc_id (heap m1 x))) m1) = (Inr fresh, m2)"
  shows "fst (license_one w b i x h t m) = Finish (Inr (license_text b i 1 401))"
  using assms by (simp add: license_one_def send_license_def license_again_def license_status_def Let_def)

lemma video_refused_twice:
  assumes "first_client_error w i = None" "get_token (token_world w i 0) x m = (Inr token, m1)"
    "ask_video w i 0 x t m1 = (Inl (UpstreamError 401 msg), t2, m2)"
    "refresh_after_unauthorized (retry_world w i 0) x token m2 = (Inr fresh, m3)"
    "ask_video w i 1 x t2 m3 = (Inl (UpstreamError 401 msg'), t4, m4)"
  shows "fst (video_one w i x t m) = Onward"
  using assms by (simp add: video_one_def video_failed_def video_again_def leave_def abandon_def)

section \<open>A concrete request\<close>

definition demo_media :: api_world where
  "demo_media = demo_api\<lparr>reply := (\<lambda>_ _. Reply 200 None (Parsed full_track))\<rparr>"

definition demo_bytes :: license_bytes where
  "demo_bytes = \<lparr>type_of = (\<lambda>_ _. None), bytes_of = (\<lambda>_ _. Some ''key'')\<rparr>"

abbreviation demo_leased :: manager where
  "demo_leased \<equiv> snd (try_lease 600000 [] Playback one_at_a_time 1000 1000000 demo_manager)"

lemma demo_pool_lease:
  "lease_pool_account demo_media Playback 0 [] demo_manager =
     (Some (Inr \<lparr>lease_addr = 1, lease_of = Playback, lease_rest = 50\<rparr>), demo_leased)"
proof -
  obtain q m1 where t: "try_lease 600000 [] Playback one_at_a_time 1000 1000000 demo_manager = (q, m1)" by force
  with demo_lease have "q = Inr (Some \<lparr>lease_addr = 1, lease_of = Playback, lease_rest = 50\<rparr>)" by simp
  with t show ?thesis
    by (simp add: lease_pool_account_def lease_account_for_def demo_media_def demo_api_def demo_pass_def)
qed

lemma demo_leased_token:
  "rate_limited_until (heap demo_leased 1) = 0" "token_expires_at (heap demo_leased 1) = 9000"
  "access_token (heap demo_leased 1) = Some ''tok''" "rejected_access_token (heap demo_leased 1) = None"
proof -
  have "accounts demo_manager \<noteq> []" "rest_ms one_at_a_time = 50"
    by (simp_all add: demo_manager_def one_at_a_time_def)
  note run = this demo_eligible try_lease_def Let_def split_beta pick_addr_def take_lease_def at_addrs_def
    note_selection_def note_recent_def requests_last_hour_def recent_error_rate_def
  show "rate_limited_until (heap demo_leased 1) = 0" by (simp add: run) (simp add: demo_defs)
  show "token_expires_at (heap demo_leased 1) = 9000" by (simp add: run) (simp add: demo_defs)
  show "access_token (heap demo_leased 1) = Some ''tok''" by (simp add: run) (simp add: demo_defs)
  show "rejected_access_token (heap demo_leased 1) = None" by (simp add: run) (simp add: demo_defs)
qed

lemma demo_heard: "get_token (token_world demo_media 0 0) 1 demo_leased = (Inr ''tok'', demo_leased)"
    "rate_limit_remaining (secs (send_ms demo_media 0 0)) (heap demo_leased 1) = None"
  using demo_calls [OF demo_leased_token, of 0 0]
  by (simp_all add: demo_media_def secs_def) (simp add: demo_api_def secs_def)

lemma demo_license:
  "\<exists>t m'. fetch_widevine_license demo_media demo_bytes demo_manager
     = (Some (Inr (200, ''application/json'', ''key'')), None, t, m')"
proof -
  have pool: "max 1 (playback_count demo_manager) = Suc 1" by (simp add: playback_count_def demo_defs)
  have outside: "first_client_error demo_media 0 = None" "client_error demo_media 0 0 = None"
    "reply demo_media 0 0 = Reply 200 None (Parsed full_track)"
    by (simp_all add: demo_media_def demo_api_def)
  have one: "\<exists>t m'. license_one demo_media demo_bytes 0 1 None fresh_tries demo_leased
      = (Finish (Inr (200, ''application/json'', ''key'')), None, t, m')"
    by (simp add: license_one_def outside demo_heard send_license_def license_status_def license_text_def
        demo_bytes_def Let_def del: One_nat_def)
  have start: "\<not> exhausted 0 (limits fresh_tries)" "failed_ids fresh_tries = []"
    by (simp_all add: exhausted_def fresh_tries_def)
  show ?thesis
    unfolding fetch_widevine_license_def pool walk.simps(2)
    using one by (auto simp: start demo_pool_lease simp del: One_nat_def)
qed

theorem license_is_tidals_witness:
  "\<exists>h t m'. fetch_widevine_license demo_media demo_bytes demo_manager
     = (Some (Inr (200, ''application/json'', ''key'')), h, t, m')
   \<and> told_license demo_media demo_bytes t (200, ''application/json'', ''key'')"
proof -
  from demo_license obtain t m' where run: "fetch_widevine_license demo_media demo_bytes demo_manager
     = (Some (Inr (200, ''application/json'', ''key'')), None, t, m')" by blast
  from license_is_tidals [OF this] run show ?thesis by blast
qed

lemma demo_video:
  "\<exists>t m'. fetch_video_playback demo_media demo_manager = (Some (Inr (video_answer ''2.2'' full_track)), (), t, m')"
proof -
  have pool: "max 1 (playback_count demo_manager) = Suc 1" by (simp add: playback_count_def demo_defs)
  have outside: "first_client_error demo_media 0 = None" "client_error demo_media 0 0 = None" "version demo_media = ''2.2''"
    "reply demo_media 0 0 = Reply 200 None (Parsed full_track)"
    by (simp_all add: demo_media_def demo_api_def)
  have ids: "accounts demo_leased = [0, 1, 2]" "acc_id (heap demo_leased x) = acc_id (heap demo_manager x)" for x
  proof -
    have "accounts demo_manager \<noteq> []" "rest_ms one_at_a_time = 50" by (simp_all add: demo_manager_def one_at_a_time_def)
    then show "accounts demo_leased = [0, 1, 2]"
      by (simp add: demo_eligible try_lease_def Let_def split_beta take_lease_def at_addrs_def) (simp add: demo_manager_def)
    show "acc_id (heap demo_leased x) = acc_id (heap demo_manager x)"
      using ids_try_lease [of demo_manager 600000 "[]" Playback one_at_a_time 1000 1000000] by (simp add: same_ids_def)
  qed
  have "get_account_by_id (acc_id (heap demo_leased 1)) demo_leased = Some 1"
    by (simp add: get_account_by_id_def ids) (simp add: demo_defs)
  then have "\<exists>t m'. ask_video demo_media 0 0 1 fresh_tries demo_leased = (Inr full_track, t, m')"
    using demo_heard(2) by (simp add: ask_video_def make_authed_request_def outside is_success_def read_json_def Let_def
        del: One_nat_def)
  then have one: "\<exists>t m'. video_body demo_media 0 1 () fresh_tries demo_leased
      = (Finish (Inr (video_answer ''2.2'' full_track)), (), t, m')"
    by (auto simp: video_body_def video_one_def outside demo_heard simp del: One_nat_def)
  have start: "\<not> exhausted 0 (limits fresh_tries)" "failed_ids fresh_tries = []"
    by (simp_all add: exhausted_def fresh_tries_def)
  show ?thesis
    unfolding fetch_video_playback_def pool walk.simps(2)
    using one by (auto simp: start demo_pool_lease simp del: One_nat_def)
qed

theorem video_is_tidals_witness:
  "\<exists>u t m'. fetch_video_playback demo_media demo_manager = (Some (Inr (video_answer ''2.2'' full_track)), u, t, m')
     \<and> video_told demo_media (video_answer ''2.2'' full_track) t"
proof -
  from demo_video obtain t m' where run: "fetch_video_playback demo_media demo_manager
      = (Some (Inr (video_answer ''2.2'' full_track)), (), t, m')" by blast
  from video_is_tidals [OF this] run show ?thesis by blast
qed

lemma demo_media_world: "ids_kept demo_media" "calm demo_media"
  by (simp_all add: ids_kept_def calm_def demo_media_def demo_api_def demo_pass_def)

theorem media_asks_each_account_once_witness:
  "length (trace (fst (snd (snd (fetch_widevine_license demo_media demo_bytes demo_manager))))) \<le> 4"
proof -
  obtain r u t m' r2 h2 t2 m2 where run: "fetch_video_playback demo_media demo_manager = (r, u, t, m')"
    "fetch_widevine_license demo_media demo_bytes demo_manager = (r2, h2, t2, m2)" by (metis prod_cases4)
  have "max 1 (playback_count demo_manager) = 2" by (simp add: playback_count_def demo_defs)
  then show ?thesis using media_asks_each_account_once [OF run demo_media_world(1)] run(2) by simp
qed

theorem media_gives_back_leases_witness:
  "inflight (heap (snd (snd (snd (fetch_widevine_license demo_media demo_bytes demo_manager)))) 1)
     = inflight (heap demo_manager 1)"
proof -
  obtain r u t m' r2 h2 t2 m2 where run: "fetch_video_playback demo_media demo_manager = (r, u, t, m')"
    "fetch_widevine_license demo_media demo_bytes demo_manager = (r2, h2, t2, m2)" by (metis prod_cases4)
  from media_gives_back_leases [OF run demo_media_world(2)] run(2) show ?thesis by simp
qed

end
