(* ===== verification/Roster.thy ===== *)
theory Roster
  imports HealLive Stats "HOL-Library.List_Lexorder" "HOL-Library.Char_ord"
begin

text \<open>
  \<open>src/admin/accounts.rs\<close>: what the owner's panel does with accounts. The handlers over the
  operations of the account manager (\<open>Lifecycle\<close>), the manual refresh, checks and tests of an account,
  and the export and import of the credentials.

  The clocks, the writes, the new ids (\<open>Uuid::new_v4\<close>) and the replies are arguments; \<open>debug\<close> is the
  \<open>Debug\<close> text of an error. The tests of all accounts run in tasks of their own; they are modelled one
  after the other.
\<close>

section \<open>The list\<close>

definition created_key :: "manager \<Rightarrow> nat \<Rightarrow> int \<times> string" where
  "created_key m x = (created_at (heap m x), acc_id (heap m x))"

definition sort_accounts_by_created_at :: "manager \<Rightarrow> nat list \<Rightarrow> nat list" where
  "sort_accounts_by_created_at m xs = sort_key (created_key m) xs"

text \<open>A row repeats the fields of the account and adds what is computed for it.\<close>

record account_row =
  row_of :: account
  row_error_rate :: real
  row_requests_hour :: nat
  row_disable_at :: "int option"
  row_availability :: availability

definition account_row_of :: "int \<Rightarrow> int \<Rightarrow> int \<Rightarrow> account \<Rightarrow> account_row \<times> account" where
  "account_row_of now now_ms disable_secs a =
     (let av = account_availability now a;
          (rate, a1) = recent_error_rate now_ms a;
          (n, a2) = requests_last_hour (now * 1000) a1
      in (\<lparr>row_of = a2, row_error_rate = rate, row_requests_hour = n,
           row_disable_at = (if auth_failing_since a > 0 \<and> disable_secs > 0
                             then Some (auth_failing_since a + disable_secs) else None),
           row_availability = av\<rparr>, a2))"

fun account_rows :: "int \<Rightarrow> int \<Rightarrow> int \<Rightarrow> nat list \<Rightarrow> manager \<Rightarrow> account_row list \<times> manager" where
  "account_rows now now_ms disable_secs [] m = ([], m)"
| "account_rows now now_ms disable_secs (x # xs) m =
     (let (r, a) = account_row_of now now_ms disable_secs (heap m x);
          (rs, m1) = account_rows now now_ms disable_secs xs (at_addr x (\<lambda>_. a) m)
      in (r # rs, m1))"

definition list_accounts :: "int \<Rightarrow> int \<Rightarrow> nat \<Rightarrow> manager \<Rightarrow> account_row list \<times> manager" where
  "list_accounts now now_ms disable_hours m =
     account_rows now now_ms (int disable_hours * 3600) (sort_accounts_by_created_at m (accounts m)) m"

section \<open>Adding, switching, removing\<close>

record add_request =
  new_label :: "string option"
  new_client_id :: string
  new_client_secret :: string
  new_refresh_token :: string
  new_user_id :: "string option"
  new_catalog :: "bool option"
  new_role :: "string option"

text \<open>What one addition meets outside: the new id, the clocks and the writes of both calls.\<close>

record add_world =
  uuid :: string
  added_at :: int
  flagged_at :: int
  add_db :: db
  flag_db :: db

definition is_catalog_role :: "string option \<Rightarrow> bool" where
  "is_catalog_role r \<longleftrightarrow> (case r of Some s \<Rightarrow> map to_ascii_lower s = ''catalog'' | None \<Rightarrow> False)"

definition add_account_route ::
    "(string \<Rightarrow> string option) \<Rightarrow> bool \<Rightarrow> add_world \<Rightarrow> add_request \<Rightarrow> manager \<Rightarrow>
     (app_error + string \<times> string) \<times> manager" where
  "add_account_route pct proxies w payload m =
     (case add_account pct proxies (uuid w) (unwrap_or (new_label payload) []) (new_client_id payload) (new_client_secret payload)
             (new_refresh_token payload) (new_user_id payload) (added_at w) (add_db w) m of
        (Inl e, m1) \<Rightarrow> (Inl e, m1)
      | (Inr y, m1) \<Rightarrow>
          (if unwrap_or (new_catalog payload) False \<or> is_catalog_role (new_role payload)
           then (case set_account_catalog (acc_id (heap m1 y)) True (flagged_at w) (flag_db w) m1 of
                   (Inl e, m2) \<Rightarrow> (Inl e, m2)
                 | (Inr _, m2) \<Rightarrow> (Inr (acc_id (heap m2 y), label (heap m2 y)), m2))
           else (Inr (acc_id (heap m1 y), label (heap m1 y)), m1)))"

definition message :: "string \<Rightarrow> (app_error + unit) \<times> manager \<Rightarrow> (app_error + string) \<times> manager" where
  "message text out = (map_sum (\<lambda>e. e) (\<lambda>_. text) (fst out), snd out)"

definition set_account_catalog_route :: "string \<Rightarrow> bool \<Rightarrow> int \<Rightarrow> db \<Rightarrow> manager \<Rightarrow> (app_error + string) \<times> manager" where
  "set_account_catalog_route i catalog now db m =
     message (''Account '' @ i @ '' set to '' @ (if catalog then ''catalog-only'' else ''playback''))
       (set_account_catalog i catalog now db m)"

definition toggle_account :: "string \<Rightarrow> bool \<Rightarrow> int \<Rightarrow> db \<Rightarrow> manager \<Rightarrow> (app_error + string) \<times> manager" where
  "toggle_account i active now db m =
     message (''Account '' @ i @ '' set to '' @ (if active then ''active'' else ''inactive''))
       (set_account_active i active now db m)"

definition remove_account_route :: "string \<Rightarrow> db \<Rightarrow> manager \<Rightarrow> (app_error + string) \<times> manager" where
  "remove_account_route i db m = message ''Account removed'' (remove_account i db m)"

record update_request =
  set_label :: "string option"
  set_client_id :: "string option"
  set_client_secret :: "string option"
  set_refresh_token :: "string option"
  set_user_id :: "string option"

definition update_account_route ::
    "(string \<Rightarrow> string option) \<Rightarrow> read_locks \<Rightarrow> string \<Rightarrow> update_request \<Rightarrow> int \<Rightarrow> db \<Rightarrow> manager \<Rightarrow>
     (app_error + string) \<times> manager" where
  "update_account_route pct locks i payload now db m =
     message ''Account updated''
       (update_account pct locks i (set_label payload) (set_client_id payload) (set_client_secret payload)
          (set_refresh_token payload) (set_user_id payload) now db m)"

text \<open>\<open>AccountManager::reset_uptime\<close>: the first history that cannot be deleted ends it.\<close>

fun reset_histories :: "int \<Rightarrow> (nat \<Rightarrow> db) \<Rightarrow> nat list \<Rightarrow> manager \<Rightarrow> app_error option \<times> manager" where
  "reset_histories now deletes [] m = (None, m)"
| "reset_histories now deletes (x # xs) m =
     (if db_fails (deletes x) 0 then (Some DB_ERROR, m) else reset_histories now deletes xs (reset_uptime x now m))"

definition reset_uptime_route :: "int \<Rightarrow> (nat \<Rightarrow> db) \<Rightarrow> manager \<Rightarrow> (app_error + nat) \<times> manager" where
  "reset_uptime_route now deletes m =
     (case reset_histories now deletes (accounts m) m of
        (Some e, m1) \<Rightarrow> (Inl e, m1)
      | (None, m1) \<Rightarrow> (Inr (length (accounts m)), m1))"

section \<open>Refreshing and checking one account\<close>

definition refresh_account_token ::
    "(app_error \<Rightarrow> string) \<Rightarrow> string option \<Rightarrow> auth_world \<Rightarrow> heal_world \<Rightarrow> string \<Rightarrow> int \<Rightarrow> int \<Rightarrow> db \<Rightarrow> manager \<Rightarrow>
     (app_error + string) \<times> manager" where
  "refresh_account_token debug egress w hw i now now_ms db m =
     (case get_account_by_id i m of
        None \<Rightarrow> (Inl (account_not_found i), m)
      | Some x \<Rightarrow>
          (case egress of
             Some e \<Rightarrow> (Inl (ServiceUnavailable e), m)
           | None \<Rightarrow>
               (case renew_token w x m of
                  (Inl e, m1) \<Rightarrow>
                    (Inl (UpstreamError 502 (''Token refresh failed: '' @ debug e)), mark_account_error i now_ms m1)
                | (Inr t, m1) \<Rightarrow>
                    (case set_account_active i True now db m1 of
                       (Inl e, m2) \<Rightarrow> (Inl e, m2)
                     | (Inr _, m2) \<Rightarrow>
                         (Inr ''Token refreshed, account reactivated'',
                          if is_catalog (heap m2 x) then m2 else check_subscription_now hw x m2)))))"

definition check_account_premium ::
    "probe_world \<Rightarrow> string \<Rightarrow> int \<Rightarrow> manager \<Rightarrow> (app_error + string \<times> string \<times> int) \<times> manager" where
  "check_account_premium w i now m =
     (case get_account_by_id i m of
        None \<Rightarrow> (Inl (account_not_found i), m)
      | Some x \<Rightarrow>
          (let ((st, why), tr, m1) = probe_account_premium w x m;
               m2 = set_premium i st now m1
           in (Inr (st, why, premium_checked_at (heap m2 x)), m2)))"

definition check_account_subscription ::
    "probe_world \<Rightarrow> string \<Rightarrow> string \<Rightarrow> (string \<Rightarrow> (int \<times> string \<times> string) option) \<Rightarrow> string \<Rightarrow> int \<Rightarrow> int \<Rightarrow> db \<Rightarrow>
     manager \<Rightarrow> (app_error + json) \<times> manager" where
  "check_account_subscription w number_txt country until_of i now written db m =
     (case get_account_by_id i m of
        None \<Rightarrow> (Inl (account_not_found i), m)
      | Some x \<Rightarrow>
          (case account_subscription w number_txt country x m of
             (Inl e, tr, m1) \<Rightarrow> (Inl e, m1)
           | (Inr v, tr, m1) \<Rightarrow>
               (let sub = unwrap_or (jget ''subscription'' v) JNull;
                    m2 = apply_subscription until_of x sub now written db m1
                in (Inr (JObj [(''user_id'', unwrap_or (jget ''user_id'' v) JNull), (''subscription'', sub),
                          (''account_id'', JStr i), (''is_catalog'', JBool (is_catalog (heap m2 x))),
                          (''checked_at'', JInt now)]), m2))))"

section \<open>Testing accounts\<close>

datatype test_reply =
    TestLost send_error
  | TestAnswer nat "string option" string

record test_world =
  test_auth :: auth_world
  test_egress :: "string option"
  test_egress_again :: "string option"
  tested_at :: int
  answered_at_ms :: int
  test_reply_of :: test_reply
  body_json :: "string \<Rightarrow> json option"
  token_took :: int
  test_took :: int

text \<open>A 429 pauses the account.\<close>

definition test_429 :: "test_world \<Rightarrow> nat \<Rightarrow> string option \<Rightarrow> nat \<Rightarrow> manager \<Rightarrow> manager" where
  "test_429 w s retry_after x m =
     (if s = 429 then snd (note_429 (test_auth w) (answered_at_ms w) retry_after x m) else m)"

definition test_state :: "account \<Rightarrow> (string \<times> json) list" where
  "test_state a = [(''token_expires_at'', JInt (token_expires_at a)), (''is_active'', JBool (is_active a))]"

definition test_account ::
    "(app_error \<Rightarrow> string) \<Rightarrow> test_world \<Rightarrow> string \<Rightarrow> manager \<Rightarrow> (app_error + json) \<times> manager" where
  "test_account debug w i m =
     (case get_account_by_id i m of
        None \<Rightarrow> (Inl (account_not_found i), m)
      | Some x \<Rightarrow>
          (let before = test_state (heap m x)
           in case test_egress w of
                Some e \<Rightarrow> (Inl (ServiceUnavailable e), m)
              | None \<Rightarrow>
                  (case get_token (test_auth w) x m of
                     (Inl e, m1) \<Rightarrow>
                       (Inr (JObj ([(''status'', JStr ''error''), (''ms'', JInt (test_took w)),
                                    (''error'', JStr (''Token: '' @ debug e))] @ before)), m1)
                   | (Inr t, m1) \<Rightarrow>
                       (case rate_limit_remaining (tested_at w) (heap m1 x) of
                          Some s \<Rightarrow> (Inl (RateLimited s), m1)
                        | None \<Rightarrow>
                            (case test_egress_again w of
                               Some e \<Rightarrow> (Inl (ServiceUnavailable e), m1)
                             | None \<Rightarrow>
                                 (case test_reply_of w of
                                    TestLost e \<Rightarrow>
                                      (Inr (JObj ([(''status'', JStr ''error''), (''ms'', JInt (test_took w)),
                                         (''token_ms'', JInt (token_took w)), (''error'', JStr (err_text e))] @ before)), m1)
                                  | TestAnswer s retry_after payload \<Rightarrow>
                                      (Inr (JObj ([(''status'', JStr (if s = 200 then ''ok'' else ''error'')),
                                         (''ms'', JInt (test_took w)), (''token_ms'', JInt (token_took w)),
                                         (''status_code'', JInt (int s))] @ before @
                                         [(''response'', unwrap_or (body_json w payload) (JObj [(''raw'', JStr payload)]))])),
                                       test_429 w s retry_after x m1)))))))"

text \<open>
  \<open>&payload[..500]\<close> counts bytes and panics inside a character: the task of that account then has no
  result. Strings are the bytes of their UTF-8 text.
\<close>

definition is_continuation :: "char \<Rightarrow> bool" where
  "is_continuation c = (let n = (of_char c :: nat) in 128 \<le> n \<and> n < 192)"

definition response_preview :: "string \<Rightarrow> string option" where
  "response_preview payload =
     (if length payload > 500
      then (if is_continuation (payload ! 500) then None else Some (take 500 payload @ ''...''))
      else Some payload)"

definition test_entry :: "string \<Rightarrow> string \<Rightarrow> bool \<Rightarrow> (string \<times> json) list \<Rightarrow> json" where
  "test_entry i lbl ok rest = JObj ([(''id'', JStr i), (''label'', JStr lbl), (''ok'', JBool ok)] @ rest)"

definition test_one :: "(app_error \<Rightarrow> string) \<Rightarrow> test_world \<Rightarrow> nat \<Rightarrow> manager \<Rightarrow> json option \<times> manager" where
  "test_one debug w x m =
     (let a = heap m x; entry = test_entry (acc_id a) (label a); before = test_state a; ms = (''ms'', JInt (test_took w))
      in case get_token (test_auth w) x m of
           (Inl e, m1) \<Rightarrow> (Some (entry False ([ms, (''error'', JStr (''Token: '' @ debug e))] @ before)), m1)
         | (Inr t, m1) \<Rightarrow>
             (case rate_limit_remaining (tested_at w) (heap m1 x) of
                Some s \<Rightarrow>
                  (Some (entry False [(''status_code'', JInt 429), (''retry_after'', JInt (int s)),
                           (''error'', JStr ''Account is rate limited'')]), m1)
              | None \<Rightarrow>
                  (case test_egress_again w of
                     Some e \<Rightarrow> (Some (entry False [(''error'', JStr e)]), m1)
                   | None \<Rightarrow>
                       (case test_reply_of w of
                          TestLost e \<Rightarrow> (Some (entry False ([ms, (''error'', JStr (err_text e))] @ before)), m1)
                        | TestAnswer s retry_after payload \<Rightarrow>
                            (map_option (\<lambda>shown. entry (s = 200)
                               ([ms, (''status_code'', JInt (int s))]
                                @ (if s = 200 then [] else [(''error'', JStr (''HTTP '' @ show_nat s))])
                                @ [(''response_preview'', JStr shown), (''response_body'', JStr payload)] @ before))
                               (response_preview payload),
                             test_429 w s retry_after x m1)))))"

text \<open>The tests started before an account without a client end the request (and still run).\<close>

fun test_each ::
    "(app_error \<Rightarrow> string) \<Rightarrow> (nat \<Rightarrow> test_world) \<Rightarrow> nat list \<Rightarrow> json list \<Rightarrow> manager \<Rightarrow> (app_error + json list) \<times> manager" where
  "test_each debug ws [] results m = (Inr results, m)"
| "test_each debug ws (x # xs) results m =
     (case test_egress (ws x) of
        Some e \<Rightarrow> (Inl (ServiceUnavailable e), m)
      | None \<Rightarrow>
          (case test_one debug (ws x) x m of
             (r, m1) \<Rightarrow> test_each debug ws xs (results @ (case r of Some v \<Rightarrow> [v] | None \<Rightarrow> [])) m1))"

type_synonym test_cache = "(int \<times> json list) option"

definition test_all_accounts ::
    "(app_error \<Rightarrow> string) \<Rightarrow> (nat \<Rightarrow> test_world) \<Rightarrow> int \<Rightarrow> int \<Rightarrow> test_cache \<Rightarrow> manager \<Rightarrow>
     (app_error + json list) \<times> test_cache \<times> manager" where
  "test_all_accounts debug ws now ended cache m =
     (case (case cache of Some (ts, results) \<Rightarrow> if now - ts < 30 then Some results else None | None \<Rightarrow> None) of
        Some results \<Rightarrow> (Inr results, cache, m)
      | None \<Rightarrow>
          (case test_each debug ws (accounts m) [] m of
             (Inl e, m1) \<Rightarrow> (Inl e, cache, m1)
           | (Inr results, m1) \<Rightarrow> (Inr results, Some (ended, results), m1)))"

section \<open>Export and import\<close>

definition export_account :: "account \<Rightarrow> json" where
  "export_account a =
     JObj ([(''label'', JStr (label a)), (''client_id'', JStr (client_id a)), (''client_secret'', JStr (client_secret a)),
            (''refresh_token'', JStr (refresh_token a)), (''user_id'', opt_str (user_id a))]
           @ (if is_catalog a then [(''role'', JStr ''catalog'')] else []))"

definition export_accounts :: "manager \<Rightarrow> json" where
  "export_accounts m = JObj [(''accounts'', JArr (map (\<lambda>x. export_account (heap m x)) (accounts m)))]"

record import_counts =
  imported :: nat
  skipped :: nat
  import_errors :: "(nat \<times> string) list"

definition no_imports :: import_counts where
  "no_imports = \<lparr>imported = 0, skipped = 0, import_errors = []\<rparr>"

definition import_array :: "json \<Rightarrow> json list option" where
  "import_array payload =
     (case Option.bind (jget ''accounts'' payload) as_array of
        Some vs \<Rightarrow> Some vs
      | None \<Rightarrow> (case as_array payload of Some vs \<Rightarrow> Some vs | None \<Rightarrow> Option.bind (jget ''credentials'' payload) as_array))"

definition import_one ::
    "(app_error \<Rightarrow> string) \<Rightarrow> (string \<Rightarrow> string option) \<Rightarrow> bool \<Rightarrow> add_world \<Rightarrow> string list \<Rightarrow> nat \<Rightarrow> json \<Rightarrow>
     import_counts \<Rightarrow> manager \<Rightarrow> import_counts \<times> manager" where
  "import_one debug pct proxies w existing_tokens i v c m =
     (let cid = unwrap_or (jget_str ''client_id'' v) []; secret = unwrap_or (jget_str ''client_secret'' v) [];
          refresh = unwrap_or (jget_str ''refresh_token'' v) []
      in if cid = [] \<or> secret = [] \<or> refresh = []
         then (c\<lparr>import_errors := import_errors c @ [(i, ''missing client_id/client_secret/refresh_token'')],
                 skipped := skipped c + 1\<rparr>, m)
         else if refresh \<in> set existing_tokens then (c\<lparr>skipped := skipped c + 1\<rparr>, m)
         else
           (case add_account pct proxies (uuid w) (unwrap_or (jget_str ''label'' v) []) cid secret refresh
                   (jget_str ''user_id'' v) (added_at w) (add_db w) m of
              (Inl e, m1) \<Rightarrow>
                (c\<lparr>import_errors := import_errors c @ [(i, debug e)], skipped := skipped c + 1\<rparr>, m1)
            | (Inr y, m1) \<Rightarrow>
                (c\<lparr>imported := imported c + 1\<rparr>,
                 if is_catalog_role (jget_str ''role'' v) \<or> unwrap_or (jget_bool ''catalog'' v) False
                 then snd (set_account_catalog (acc_id (heap m1 y)) True (flagged_at w) (flag_db w) m1) else m1)))"

fun import_all ::
    "(app_error \<Rightarrow> string) \<Rightarrow> (string \<Rightarrow> string option) \<Rightarrow> bool \<Rightarrow> (nat \<Rightarrow> add_world) \<Rightarrow> string list \<Rightarrow> nat \<Rightarrow> json list \<Rightarrow>
     import_counts \<Rightarrow> manager \<Rightarrow> import_counts \<times> manager" where
  "import_all debug pct proxies ws existing_tokens i [] c m = (c, m)"
| "import_all debug pct proxies ws existing_tokens i (v # vs) c m =
     (case import_one debug pct proxies (ws i) existing_tokens i v c m of
        (c1, m1) \<Rightarrow> import_all debug pct proxies ws existing_tokens (Suc i) vs c1 m1)"

definition EXPECTED_ACCOUNTS :: app_error where
  "EXPECTED_ACCOUNTS =
     BadRequest ''Expected {accounts: [...]} or [...] with client_id/client_secret/refresh_token''"

definition import_accounts ::
    "(app_error \<Rightarrow> string) \<Rightarrow> (string \<Rightarrow> string option) \<Rightarrow> bool \<Rightarrow> (nat \<Rightarrow> add_world) \<Rightarrow> json \<Rightarrow> manager \<Rightarrow>
     (app_error + import_counts) \<times> manager" where
  "import_accounts debug pct proxies ws payload m =
     (case import_array payload of
        None \<Rightarrow> (Inl EXPECTED_ACCOUNTS, m)
      | Some vs \<Rightarrow>
          (let (c, m1) = import_all debug pct proxies ws (map (\<lambda>x. refresh_token (heap m x)) (accounts m)) 0 vs no_imports m
           in (Inr c, m1)))"

end
