(* ===== verification/Setup.thy ===== *)
theory Setup
  imports Roster
begin

text \<open>
  Signing an account in by code: \<open>src/admin/setup.rs\<close> (the panel: a session, and a task that asks Tidal
  every five seconds until the owner has confirmed) and \<open>src/setup.rs\<close> (the console, at the first
  start).

  The state is the table of sessions, the tasks that still run and the account manager. One round of
  a task is one step; what it meets outside is in a \<open>poll_world\<close>, the time since the task began
  (\<open>poll_age\<close>, in seconds) included. The shapes of Tidal's answers are read from JSON as \<open>serde\<close> does;
  the texts of its errors are arguments.
\<close>

section \<open>Tidal's answers\<close>

definition AUTH_CLIENT_ID :: string where "AUTH_CLIENT_ID = ''fX2JxdmntZWK0ixT''"

definition AUTH_CLIENT_SECRET :: string where
  "AUTH_CLIENT_SECRET = ''1Nm5AfDAjxrgJFJbKNWLeAyKGVGmINuXPPLHVXAvxAg=''"

definition REQUEST_CLIENT_ID :: string where "REQUEST_CLIENT_ID = ''lw3vR6GE1vtNBsjv''"

definition REQUEST_CLIENT_SECRET :: string where
  "REQUEST_CLIENT_SECRET = ''Y8tIpqKJxs9BEIwYr0I9bSbMWDsogXJx9LaN3mCHwD4=''"

definition issued_token_expires_at :: "int \<Rightarrow> int \<Rightarrow> int" where
  "issued_token_expires_at now expires_in =
     (let e = max expires_in 60 in sat_sub_i64 (sat_add_i64 now e) (min 60 (e div 10)))"

record device_authorization =
  device_code :: string
  verification_uri_complete :: string

definition device_of :: "json \<Rightarrow> device_authorization option" where
  "device_of v =
     (case (jget_str ''deviceCode'' v, jget_str ''userCode'' v, jget_str ''verificationUri'' v,
            jget_str ''verificationUriComplete'' v, jget_i64 ''interval'' v, jget_i64 ''expiresIn'' v) of
        (Some code, Some _, Some _, Some url, Some _, Some _) \<Rightarrow>
          Some \<lparr>device_code = code, verification_uri_complete = url\<rparr>
      | _ \<Rightarrow> None)"

fun de_string_or_int :: "json \<Rightarrow> string option" where
  "de_string_or_int (JStr s) = Some s"
| "de_string_or_int (JInt i) = (if - (2 ^ 63) \<le> i \<and> i < 2 ^ 64 then Some (show_int i) else None)"
| "de_string_or_int v = None"

text \<open>A field with \<open>#[serde(default)]\<close>: missing is the default, present must have the type.\<close>

definition field_or :: "'a \<Rightarrow> (json \<Rightarrow> 'a option) \<Rightarrow> string \<Rightarrow> json \<Rightarrow> 'a option" where
  "field_or d get k v = (case jget k v of None \<Rightarrow> Some d | Some w \<Rightarrow> get w)"

text \<open>The panel reads the country of the user under \<open>countryCode\<close>, the console under \<open>country_code\<close>.\<close>

definition user_info :: "string \<Rightarrow> json \<Rightarrow> (string \<times> string) option" where
  "user_info country_field v =
     (case (Option.bind (jget ''userId'' v) de_string_or_int, field_or [] as_str country_field v) of
        (Some uid, Some country) \<Rightarrow> Some (uid, country)
      | _ \<Rightarrow> None)"

definition optional :: "(json \<Rightarrow> 'a option) \<Rightarrow> json \<Rightarrow> 'a option option" where
  "optional get v = (if v = JNull then Some None else map_option Some (get v))"

record token_response =
  issued_token :: string
  issued_refresh :: string
  issued_lifetime :: int
  issued_user :: "(string \<times> string) option"

definition token_of :: "string \<Rightarrow> json \<Rightarrow> token_response option" where
  "token_of country_field v =
     (case (jget_str ''access_token'' v, jget_str ''refresh_token'' v, field_or 0 as_i64 ''expires_in'' v,
            field_or [] as_str ''token_type'' v, field_or None (optional (user_info country_field)) ''user'' v) of
        (Some t, Some r, Some e, Some _, Some u) \<Rightarrow>
          Some \<lparr>issued_token = t, issued_refresh = r, issued_lifetime = e, issued_user = u\<rparr>
      | _ \<Rightarrow> None)"

text \<open>Access token, rotated refresh token, lifetime.\<close>

definition refreshed_of :: "json \<Rightarrow> (string \<times> string option \<times> int) option" where
  "refreshed_of v =
     (case (jget_str ''access_token'' v, field_or None (optional as_str) ''refresh_token'' v,
            field_or 0 as_i64 ''expires_in'' v) of
        (Some t, Some r, Some e) \<Rightarrow> Some (t, r, e)
      | _ \<Rightarrow> None)"

text \<open>
  A reply: lost with the texts of its causes, or a status, the text and what parsing it gives; \<open>TextLost\<close>
  is a 2xx whose text could not be read, with the error this leads to.
\<close>

datatype setup_reply =
    SetupLost send_error "string list"
  | SetupReply nat string "string + json"
  | TextLost string

fun error_chain :: "string \<Rightarrow> string list \<Rightarrow> string" where
  "error_chain text [] = text"
| "error_chain text (cause # causes) = error_chain (text @ '': '' @ cause) causes"

definition read_shape :: "string \<Rightarrow> (json \<Rightarrow> 'a option) \<Rightarrow> string + json \<Rightarrow> string + 'a" where
  "read_shape shape_error of_json parsed =
     (case parsed of
        Inl e \<Rightarrow> Inl e
      | Inr v \<Rightarrow> (case of_json v of Some x \<Rightarrow> Inr x | None \<Rightarrow> Inl shape_error))"

section \<open>Sessions and tasks\<close>

datatype setup_status =
    SetupPending
  | Complete string string string
  | SetupError string

record setup_session =
  session_code :: string
  session_status :: setup_status
  session_label :: "string option"

record setup_task =
  task_secret :: string
  task_label :: "string option"
  task_catalog :: bool

record setup_state =
  sessions :: "string \<Rightarrow> setup_session option"
  tasks :: "string \<Rightarrow> setup_task option"
  pool :: manager

record start_request =
  wanted_label :: "string option"
  wanted_catalog :: bool

record start_world =
  auth_client_error :: "string option"
  code_reply :: setup_reply
  replace_error :: "string option"
  code_reply_again :: setup_reply
  code_shape_error :: string
  new_session :: string

record poll_world =
  poll_age :: int
  poll_reply :: setup_reply
  renew_reply :: setup_reply
  poll_shape_error :: string
  renew_shape_error :: string
  status_line :: "nat \<Rightarrow> string"
  issued_at :: int
  joining :: add_world
  cached_at :: int
  cache_db :: db

definition setup_client_secret :: "manager \<Rightarrow> string" where
  "setup_client_secret m =
     (case find (\<lambda>x. client_id (heap m x) = REQUEST_CLIENT_ID \<and> client_secret (heap m x) \<noteq> []) (accounts m) of
        Some x \<Rightarrow> client_secret (heap m x)
      | None \<Rightarrow> REQUEST_CLIENT_SECRET)"

definition filled_label :: "string option \<Rightarrow> string option" where
  "filled_label l = (case map_option trim l of Some s \<Rightarrow> if s = [] then None else Some s | None \<Rightarrow> None)"

definition sign_in_url :: "string \<Rightarrow> string" where
  "sign_in_url url = (if starts_with ''http'' url then url else ''https://'' @ url)"

text \<open>The code request; one that cannot connect is sent once more through another proxy.\<close>

definition request_code :: "(nat \<Rightarrow> string) \<Rightarrow> start_world \<Rightarrow> app_error + setup_reply" where
  "request_code line w =
     (case auth_client_error w of
        Some e \<Rightarrow> Inl (ServiceUnavailable e)
      | None \<Rightarrow>
          (case code_reply w of
             SetupLost e causes \<Rightarrow>
               if is_connect e \<or> is_timeout e
               then (case replace_error w of Some e \<Rightarrow> Inl (ServiceUnavailable e) | None \<Rightarrow> Inr (code_reply_again w))
               else Inr (code_reply w)
           | _ \<Rightarrow> Inr (code_reply w)))"

definition code_answer :: "(nat \<Rightarrow> string) \<Rightarrow> start_world \<Rightarrow> app_error + device_authorization" where
  "code_answer line w =
     (case request_code line w of
        Inl e \<Rightarrow> Inl e
      | Inr (SetupLost e causes) \<Rightarrow>
          Inl (ServiceUnavailable (''Device auth request failed: '' @ error_chain (err_text e) causes))
      | Inr (SetupReply s txt parsed) \<Rightarrow>
          if \<not> is_success s
          then Inl (ServiceUnavailable (''Tidal refused sign-in by code: HTTP '' @ line s @ '' '' @ take 200 txt))
          else (case read_shape (code_shape_error w) device_of parsed of
                  Inl e \<Rightarrow> Inl (ServiceUnavailable (''Device auth parse failed: '' @ e))
                | Inr d \<Rightarrow> Inr d)
      | Inr (TextLost e) \<Rightarrow> Inl (ServiceUnavailable (''Device auth parse failed: '' @ e)))"

definition start_setup ::
    "(nat \<Rightarrow> string) \<Rightarrow> start_world \<Rightarrow> start_request option \<Rightarrow> setup_state \<Rightarrow> (app_error + string \<times> string) \<times> setup_state" where
  "start_setup line w request st =
     (case code_answer line w of
        Inl e \<Rightarrow> (Inl e, st)
      | Inr d \<Rightarrow>
          (let custom = filled_label (Option.bind request wanted_label); sid = new_session w
           in (Inr (sid, sign_in_url (verification_uri_complete d)),
               st\<lparr>sessions := (sessions st)(sid \<mapsto>
                     \<lparr>session_code = device_code d, session_status = SetupPending, session_label = custom\<rparr>),
                  tasks := (tasks st)(sid \<mapsto>
                     \<lparr>task_secret = setup_client_secret (pool st), task_label = custom,
                      task_catalog = (case request of Some b \<Rightarrow> wanted_catalog b | None \<Rightarrow> False)\<rparr>)\<rparr>)))"

section \<open>One round of a task\<close>

definition end_task :: "string \<Rightarrow> setup_status \<Rightarrow> setup_state \<Rightarrow> setup_state" where
  "end_task sid outcome st =
     st\<lparr>sessions := (sessions st)(sid := map_option (\<lambda>s. s\<lparr>session_status := outcome\<rparr>) (sessions st sid)),
        tasks := (tasks st)(sid := None)\<rparr>"

definition refresh_with_client :: "poll_world \<Rightarrow> string + (string \<times> string option \<times> int)" where
  "refresh_with_client w =
     (case renew_reply w of
        SetupLost e causes \<Rightarrow> Inl (err_text e)
      | TextLost e \<Rightarrow> read_shape (renew_shape_error w) refreshed_of (Inl e)
      | SetupReply s txt parsed \<Rightarrow>
          if \<not> is_success s then Inl (''HTTP '' @ status_line w s @ '' '' @ take 200 txt)
          else read_shape (renew_shape_error w) refreshed_of parsed)"

definition signed_in_label :: "string option \<Rightarrow> string option \<Rightarrow> string \<Rightarrow> string" where
  "signed_in_label live custom uid =
     (case live of
        Some l \<Rightarrow> l
      | None \<Rightarrow> (case custom of Some l \<Rightarrow> l | None \<Rightarrow> ''Tidal Account ('' @ uid @ '')''))"

text \<open>The account is added, marked, and gets its first token; only adding it must succeed.\<close>

definition join_pool ::
    "(string \<Rightarrow> string option) \<Rightarrow> bool \<Rightarrow> poll_world \<Rightarrow> setup_task \<Rightarrow> string \<Rightarrow> string \<Rightarrow> string option \<Rightarrow>
     string \<Rightarrow> string \<Rightarrow> int \<Rightarrow> manager \<Rightarrow> (app_error + string) \<times> manager" where
  "join_pool pct proxies w task lbl uid country access kept_token expires m =
     (case add_account pct proxies (uuid (joining w)) lbl REQUEST_CLIENT_ID (task_secret task) kept_token (Some uid)
             (added_at (joining w)) (add_db (joining w)) m of
        (Inl e, m1) \<Rightarrow> (Inl e, m1)
      | (Inr y, m1) \<Rightarrow>
          (let m2 = at_addr y (set_country country) m1;
               m3 = (if task_catalog task
                     then snd (set_account_catalog (acc_id (heap m2 y)) True (flagged_at (joining w)) (flag_db (joining w)) m2)
                     else m2);
               m4 = snd (store_refreshed_credentials y kept_token None access expires (cached_at w) (cache_db w) m3)
           in (Inr (acc_id (heap m4 y)), m4)))"

definition sign_in ::
    "(string \<Rightarrow> string option) \<Rightarrow> bool \<Rightarrow> poll_world \<Rightarrow> string \<Rightarrow> setup_task \<Rightarrow> token_response \<Rightarrow> setup_state \<Rightarrow> setup_state" where
  "sign_in pct proxies w sid task t st =
     (let uid = (case issued_user t of Some (u, c) \<Rightarrow> u | None \<Rightarrow> ''unknown'');
          lbl = signed_in_label (Option.bind (sessions st sid) session_label) (task_label task) uid
      in case refresh_with_client w of
           Inl e \<Rightarrow> end_task sid (SetupError (''Signed in, but client '' @ REQUEST_CLIENT_ID
                     @ '' could not refresh the token: '' @ e)) st
         | Inr (access, rotated, lifetime) \<Rightarrow>
             (case join_pool pct proxies w task lbl uid (map_option snd (issued_user t)) access
                     (unwrap_or rotated (issued_refresh t)) (issued_token_expires_at (issued_at w) lifetime) (pool st) of
                (Inr aid, m1) \<Rightarrow> end_task sid (Complete aid lbl uid) (st\<lparr>pool := m1\<rparr>)
              | (Inl e, m1) \<Rightarrow> end_task sid (SetupError (''Add failed: '' @ display (status_line w) e)) (st\<lparr>pool := m1\<rparr>)))"

definition poll_once ::
    "(string \<Rightarrow> string option) \<Rightarrow> bool \<Rightarrow> poll_world \<Rightarrow> string \<Rightarrow> setup_state \<Rightarrow> setup_state" where
  "poll_once pct proxies w sid st =
     (case tasks st sid of
        None \<Rightarrow> st
      | Some task \<Rightarrow>
          if poll_age w > 600 then end_task sid (SetupError ''Timed out waiting for authorization'') st
          else (case poll_reply w of
                  SetupLost e causes \<Rightarrow> end_task sid (SetupError (''Poll failed: '' @ error_chain (err_text e) causes)) st
                | TextLost e \<Rightarrow> end_task sid (SetupError (''Parse failed: '' @ e)) st
                | SetupReply s txt parsed \<Rightarrow>
                    if \<not> is_success s then
                      (if s = 400 \<or> s = 429 then st
                       else end_task sid (SetupError (''Tidal refused the token: HTTP '' @ status_line w s @ '' '' @ take 200 txt)) st)
                    else (case read_shape (poll_shape_error w) (token_of ''countryCode'') parsed of
                            Inl e \<Rightarrow> end_task sid (SetupError (''Parse failed: '' @ e)) st
                          | Inr t \<Rightarrow> sign_in pct proxies w sid task t st)))"

section \<open>Looking at a session and renaming it\<close>

definition NO_SESSION :: app_error where "NO_SESSION = NotFound ''Session not found''"

definition check_setup :: "string \<Rightarrow> setup_state \<Rightarrow> app_error + json" where
  "check_setup sid st =
     (case sessions st sid of
        None \<Rightarrow> Inl NO_SESSION
      | Some s \<Rightarrow>
          Inr (case session_status s of
                 SetupPending \<Rightarrow> JObj [(''status'', JStr ''pending'')]
               | Complete aid lbl uid \<Rightarrow>
                   JObj [(''status'', JStr ''complete''), (''account_id'', JStr aid), (''label'', JStr lbl), (''user_id'', JStr uid)]
               | SetupError msg \<Rightarrow> JObj [(''status'', JStr ''error''), (''error'', JStr msg)]))"

definition update_setup :: "string \<Rightarrow> start_request \<Rightarrow> setup_state \<Rightarrow> (app_error + json) \<times> setup_state" where
  "update_setup sid request st =
     (case sessions st sid of
        None \<Rightarrow> (Inl NO_SESSION, st)
      | Some s \<Rightarrow>
          if session_status s \<noteq> SetupPending then (Inl (BadRequest ''Session is no longer pending''), st)
          else (Inr (JObj [(''status'', JStr ''pending'')]),
                st\<lparr>sessions := (sessions st)(sid \<mapsto> s\<lparr>session_label := filled_label (wanted_label request)\<rparr>)\<rparr>))"

text \<open>What happens to the sessions of a server; \<open>others\<close> is the rest of the server at work.\<close>

inductive setup_step :: "setup_state \<Rightarrow> setup_state \<Rightarrow> bool" where
  start: "sessions st (new_session w) = None \<Longrightarrow> start_setup line w request st = (r, st') \<Longrightarrow> setup_step st st'"
| poll: "setup_step st (poll_once pct proxies w sid st)"
| update: "setup_step st (snd (update_setup sid request st))"
| others: "setup_step st (st\<lparr>pool := m\<rparr>)"

definition no_sessions :: "manager \<Rightarrow> setup_state" where
  "no_sessions m = \<lparr>sessions = (\<lambda>_. None), tasks = (\<lambda>_. None), pool = m\<rparr>"

section \<open>The console\<close>

text \<open>Rounds until the deadline: \<open>None\<close> when the list of rounds runs out, the process being stopped.\<close>

fun await_token :: "poll_world list \<Rightarrow> (app_error + token_response) option" where
  "await_token [] = None"
| "await_token (w # ws) =
     (if poll_age w > 600 then Some (Inl Timeout)
      else case poll_reply w of
             SetupLost e causes \<Rightarrow> Some (Inl (ServiceUnavailable (''Token poll failed: '' @ err_text e)))
           | TextLost e \<Rightarrow> Some (Inl (ServiceUnavailable (''Token parse failed: '' @ e)))
           | SetupReply s txt parsed \<Rightarrow>
               if is_success s then
                 (case read_shape (poll_shape_error w) (token_of ''country_code'') parsed of
                    Inl e \<Rightarrow> Some (Inl (ServiceUnavailable (''Token parse failed: '' @ e)))
                  | Inr t \<Rightarrow> Some (Inr t))
               else await_token ws)"

definition run_setup ::
    "(string \<Rightarrow> string option) \<Rightarrow> bool \<Rightarrow> start_world \<Rightarrow> poll_world list \<Rightarrow> add_world \<Rightarrow> int \<Rightarrow> int \<Rightarrow> db \<Rightarrow> manager \<Rightarrow>
     (app_error + unit) option \<times> manager" where
  "run_setup pct proxies w ws join issued cached write m =
     (case (case code_reply w of
              SetupLost e causes \<Rightarrow> Some (''Device auth request failed: '' @ err_text e)
            | TextLost e \<Rightarrow> Some (''Device auth parse failed: '' @ e)
            | SetupReply s txt parsed \<Rightarrow>
                (case read_shape (code_shape_error w) device_of parsed of
                   Inl e \<Rightarrow> Some (''Device auth parse failed: '' @ e) | Inr d \<Rightarrow> None)) of
        Some e \<Rightarrow> (Some (Inl (ServiceUnavailable e)), m)
      | None \<Rightarrow>
          (case await_token ws of
             None \<Rightarrow> (None, m)
           | Some (Inl e) \<Rightarrow> (Some (Inl e), m)
           | Some (Inr t) \<Rightarrow>
               (let uid = (case issued_user t of Some (u, c) \<Rightarrow> u | None \<Rightarrow> ''unknown'')
                in case add_account pct proxies (uuid join) (''Tidal Account ('' @ uid @ '')'') AUTH_CLIENT_ID AUTH_CLIENT_SECRET
                          (issued_refresh t) (Some uid) (added_at join) (add_db join) m of
                     (Inl e, m1) \<Rightarrow> (Some (Inl e), m1)
                   | (Inr y, m1) \<Rightarrow>
                       (Some (Inr ()),
                        snd (store_refreshed_credentials y (issued_refresh t) None (issued_token t)
                          (issued_token_expires_at issued (issued_lifetime t)) cached write m1)))))"

end
