(* ===== verification/RosterProps.thy ===== *)
theory RosterProps
  imports Roster "HOL-Library.Multiset"
begin

text \<open>
  The owner's list, and what export and import do to the credentials.
\<close>

section \<open>The list\<close>

lemma row_static: "account_row_of now now_ms d a = (r, a') \<Longrightarrow>
    created_at a' = created_at a \<and> acc_id a' = acc_id a \<and> label a' = label a \<and> row_of r = a'"
  by (auto simp: account_row_of_def Let_def recent_error_rate_def requests_last_hour_def)

lemma rows_keys:
  "account_rows now now_ms d xs m = (rs, m') \<Longrightarrow>
     map (\<lambda>r. (created_at (row_of r), acc_id (row_of r))) rs = map (created_key m) xs"
proof (induction xs arbitrary: m rs m')
  case (Cons x xs)
  obtain r a where r: "account_row_of now now_ms d (heap m x) = (r, a)" by force
  obtain qs m1 where q: "account_rows now now_ms d xs (at_addr x (\<lambda>_. a) m) = (qs, m1)" by force
  have same: "created_key (at_addr x (\<lambda>_. a) m) = created_key m"
    using row_static [OF r] by (auto simp: created_key_def at_addr_def fun_eq_iff)
  from Cons.IH [OF q] Cons.prems row_static [OF r] show ?case
    by (auto simp: r q same) (simp_all add: created_key_def)
qed simp

text \<open>
  The panel lists every account once, the oldest first; accounts of the same second come in the order
  of their ids, whatever order the pool has.
\<close>

lemma list_is_in_order:
  assumes "list_accounts now now_ms hours m = (rows, m')"
  shows "sorted (map (\<lambda>r. (created_at (row_of r), acc_id (row_of r))) rows)
    \<and> mset (map (\<lambda>r. acc_id (row_of r)) rows) = mset (map (\<lambda>x. acc_id (heap m x)) (accounts m))"
proof -
  note k = rows_keys [OF assms [unfolded list_accounts_def]]
  have "map (\<lambda>r. acc_id (row_of r)) rows = map snd (map (created_key m) (sort_accounts_by_created_at m (accounts m)))"
    using arg_cong [OF k, of "map snd"] by (simp add: comp_def)
  then have "mset (map (\<lambda>r. acc_id (row_of r)) rows) = mset (map (\<lambda>x. acc_id (heap m x)) (accounts m))"
    by (simp add: created_key_def comp_def sort_accounts_by_created_at_def flip: mset_map)
      (simp add: mset_map)
  then show ?thesis by (simp add: k sort_accounts_by_created_at_def)
qed

section \<open>One addition\<close>

definition essence :: "account \<Rightarrow> string \<times> string \<times> string \<times> string \<times> string option \<times> bool" where
  "essence a = (label a, client_id a, client_secret a, refresh_token a, user_id a, is_catalog a)"

lemma add_account_fresh:
  assumes "add_account pct proxies u l c s r uid now db m = (Inr y, m1)"
  shows "y = next_addr m \<and> next_addr m1 = Suc y \<and> accounts m1 = accounts m @ [y]
    \<and> (\<forall>z. z \<noteq> y \<longrightarrow> heap m1 z = heap m z) \<and> acc_id (heap m1 y) = u
    \<and> essence (heap m1 y) = (l, c, normalize_client_secret pct s, r, uid, False)"
  using assms
  by (auto simp: add_account_def alloc_def Let_def essence_def account_new_def split: if_splits)

lemma add_account_succeeds:
  assumes "\<not> db_fails db 0" "\<not> db_fails db 1"
  obtains y m1 where "add_account pct proxies u l c s r uid now db m = (Inr y, m1)"
  using assms that by (auto simp: add_account_def alloc_def Let_def)

lemma find_snoc: "\<forall>x\<in>set xs. \<not> P x \<Longrightarrow> P y \<Longrightarrow> find P (xs @ [y]) = Some y"
  by (induction xs) auto

lemma flag_new:
  assumes "accounts m1 = xs @ [y]" "acc_id (heap m1 y) = u" "\<forall>x\<in>set xs. acc_id (heap m1 x) \<noteq> u"
  shows "heap (snd (set_account_catalog u True now db m1)) = (heap m1)(y := (heap m1 y)\<lparr>is_catalog := True, updated_at := now\<rparr>)
    \<and> accounts (snd (set_account_catalog u True now db m1)) = accounts m1
    \<and> next_addr (snd (set_account_catalog u True now db m1)) = next_addr m1"
proof -
  have "get_account_by_id u m1 = Some y"
    unfolding get_account_by_id_def assms(1) by (rule find_snoc) (use assms(2,3) in auto)
  then show ?thesis by (auto simp: set_account_catalog_def Let_def at_addr_def fun_eq_iff)
qed

section \<open>Export and import\<close>

lemma export_fields [simp]:
  "jget_str ''label'' (export_account a) = Some (label a)"
  "jget_str ''client_id'' (export_account a) = Some (client_id a)"
  "jget_str ''client_secret'' (export_account a) = Some (client_secret a)"
  "jget_str ''refresh_token'' (export_account a) = Some (refresh_token a)"
  "jget_str ''user_id'' (export_account a) = user_id a"
  "is_catalog_role (jget_str ''role'' (export_account a)) = is_catalog a"
  "jget_bool ''catalog'' (export_account a) = None"
  by (simp_all add: export_account_def jget_str_def jget_bool_def is_catalog_role_def to_ascii_lower_def Let_def)

text \<open>An account whose credentials survive being entered again.\<close>

definition reenterable :: "(string \<Rightarrow> string option) \<Rightarrow> account \<Rightarrow> bool" where
  "reenterable pct a \<longleftrightarrow> client_id a \<noteq> [] \<and> client_secret a \<noteq> [] \<and> refresh_token a \<noteq> []
     \<and> normalize_client_secret pct (client_secret a) = client_secret a"

definition all_stored :: "(nat \<Rightarrow> add_world) \<Rightarrow> bool" where
  "all_stored ws \<longleftrightarrow> (\<forall>i. \<not> db_fails (add_db (ws i)) 0 \<and> \<not> db_fails (add_db (ws i)) 1)"

text \<open>New ids: none given out twice, none in use.\<close>

definition fresh_ids :: "(nat \<Rightarrow> add_world) \<Rightarrow> nat \<Rightarrow> manager \<Rightarrow> bool" where
  "fresh_ids ws i m \<longleftrightarrow> inj (\<lambda>j. uuid (ws j)) \<and> (\<forall>x\<in>set (accounts m). \<forall>j\<ge>i. acc_id (heap m x) \<noteq> uuid (ws j))"

definition placed :: "manager \<Rightarrow> bool" where
  "placed m \<longleftrightarrow> (\<forall>x\<in>set (accounts m). x < next_addr m)"

definition essences :: "manager \<Rightarrow> (string \<times> string \<times> string \<times> string \<times> string option \<times> bool) list" where
  "essences m = map (\<lambda>x. essence (heap m x)) (accounts m)"

lemma import_exported_one:
  assumes "all_stored ws" "fresh_ids ws i m" "placed m" "reenterable pct a" "refresh_token a \<notin> set existing"
    and "import_one debug pct proxies (ws i) existing i (export_account a) c m = (c1, m1)"
  shows "c1 = c\<lparr>imported := imported c + 1\<rparr> \<and> fresh_ids ws (Suc i) m1 \<and> placed m1
    \<and> essences m1 = essences m @ [essence a]"
proof -
  have st: "\<not> db_fails (add_db (ws i)) 0" "\<not> db_fails (add_db (ws i)) 1" using assms(1) by (simp_all add: all_stored_def)
  obtain y m2 where add: "add_account pct proxies (uuid (ws i)) (label a) (client_id a) (client_secret a) (refresh_token a)
      (user_id a) (added_at (ws i)) (add_db (ws i)) m = (Inr y, m2)" by (rule add_account_succeeds [OF st])
  note new = add_account_fresh [OF add]
  have old: "x \<noteq> y" if "x \<in> set (accounts m)" for x using assms(3) new that by (auto simp: placed_def)
  have fresh: "\<forall>x\<in>set (accounts m). acc_id (heap m2 x) \<noteq> uuid (ws i)"
    using assms(2) new old by (auto simp: fresh_ids_def)
  have m1: "m1 = (if is_catalog a then snd (set_account_catalog (uuid (ws i)) True (flagged_at (ws i)) (flag_db (ws i)) m2) else m2)"
    and c1: "c1 = c\<lparr>imported := imported c + 1\<rparr>"
    using assms(4,5,6) add new by (auto simp: import_one_def reenterable_def Let_def)
  have flag: "heap m1 = (if is_catalog a then (heap m2)(y := (heap m2 y)\<lparr>is_catalog := True, updated_at := flagged_at (ws i)\<rparr>) else heap m2)"
    "accounts m1 = accounts m2" "next_addr m1 = next_addr m2"
    using flag_new [of m2 "accounts m" y "uuid (ws i)"] new fresh by (auto simp: m1)
  have es: "essence (heap m1 y) = essence a"
    using new flag(1) assms(4) by (auto simp: essence_def reenterable_def)
  have keep: "heap m1 x = heap m x" if "x \<in> set (accounts m)" for x
    using old [OF that] new flag(1) by simp
  have "essences m1 = essences m @ [essence a]"
    using keep es new flag(2) by (auto simp: essences_def)
  moreover have "placed m1" using assms(3) new flag(2,3) by (auto simp: placed_def)
  moreover have "fresh_ids ws (Suc i) m1"
  proof -
    have "acc_id (heap m1 y) = uuid (ws i)" using new flag(1) by auto
    then show ?thesis
      using assms(2) keep new flag(2) by (auto simp: fresh_ids_def inj_def) (metis not_less_eq_eq order_refl)
  qed
  ultimately show ?thesis using c1 by blast
qed

lemma import_exported:
  assumes "all_stored ws" "fresh_ids ws i m" "placed m"
    and "list_all (reenterable pct) as" "list_all (\<lambda>a. refresh_token a \<notin> set existing) as"
    and "import_all debug pct proxies ws existing i (map export_account as) c m = (c', m')"
  shows "c' = c\<lparr>imported := imported c + length as\<rparr> \<and> essences m' = essences m @ map essence as"
  using assms(2-)
proof (induction as arbitrary: i c m)
  case (Cons a as)
  obtain c1 m1 where one: "import_one debug pct proxies (ws i) existing i (export_account a) c m = (c1, m1)" by force
  have "reenterable pct a" "refresh_token a \<notin> set existing" using Cons.prems by simp_all
  note step = import_exported_one [OF assms(1) Cons.prems(1,2) this one]
  with Cons.IH [of "Suc i" m1 c1] Cons.prems one show ?case by simp
qed simp

lemma exported_array: "import_array (export_accounts m) = Some (map (\<lambda>x. export_account (heap m x)) (accounts m))"
  by (simp add: import_array_def export_accounts_def)

text \<open>
  What the panel exports can be imported into an empty server: every account comes back, in the same
  order, with its label, its credentials, its user and its catalog role, under a new id (given that the
  writes succeed and no stored secret changes when it is decoded once more).
\<close>

lemma export_import_restores:
  assumes "all_stored ws" "inj (\<lambda>j. uuid (ws j))" "accounts m0 = []"
    and "list_all (\<lambda>x. reenterable pct (heap m x)) (accounts m)"
  shows "case import_accounts debug pct proxies ws (export_accounts m) m0 of (r, m1) \<Rightarrow>
      r = Inr \<lparr>imported = account_count m, skipped = 0, import_errors = []\<rparr> \<and> essences m1 = essences m"
proof -
  obtain c m1 where run: "import_all debug pct proxies ws [] 0 (map export_account (map (heap m) (accounts m))) no_imports m0 = (c, m1)"
    by force
  have "c = no_imports\<lparr>imported := imported no_imports + length (map (heap m) (accounts m))\<rparr>
      \<and> essences m1 = essences m0 @ map essence (map (heap m) (accounts m))"
    by (rule import_exported [OF assms(1) _ _ _ _ run])
      (use assms(2-4) in \<open>simp_all add: fresh_ids_def placed_def list_all_iff\<close>)
  then show ?thesis
    using run assms(3)
    by (simp add: import_accounts_def exported_array comp_def essences_def no_imports_def account_count_def)
qed

lemma import_known:
  assumes "list_all (\<lambda>a. refresh_token a \<in> set existing) as"
    and "import_all debug pct proxies ws existing i (map export_account as) c m = (c', m')"
  shows "m' = m \<and> imported c' = imported c \<and> skipped c' = skipped c + length as"
  using assms
proof (induction as arbitrary: i c)
  case (Cons a as)
  obtain c1 m1 where one: "import_one debug pct proxies (ws i) existing i (export_account a) c m = (c1, m1)" by force
  then have "m1 = m \<and> imported c1 = imported c \<and> skipped c1 = skipped c + 1"
    using Cons.prems(1) by (auto simp: import_one_def Let_def split: if_splits)
  with Cons.IH [of "Suc i" c1] Cons.prems one show ?case by simp
qed simp

text \<open>
  Importing into a server what it exported changes nothing: every entry is skipped, as its refresh
  token is already there (or incomplete).
\<close>

lemma reimport_changes_nothing:
  "case import_accounts debug pct proxies ws (export_accounts m) m of (r, m1) \<Rightarrow>
     m1 = m \<and> (case r of Inr c \<Rightarrow> imported c = 0 \<and> skipped c = account_count m | Inl e \<Rightarrow> False)"
proof -
  obtain c m1 where run: "import_all debug pct proxies ws (map (\<lambda>x. refresh_token (heap m x)) (accounts m)) 0
      (map export_account (map (heap m) (accounts m))) no_imports m = (c, m1)" by force
  have "m1 = m \<and> imported c = imported no_imports \<and> skipped c = skipped no_imports + length (map (heap m) (accounts m))"
    by (rule import_known [OF _ run]) (simp add: list_all_iff)
  then show ?thesis
    using run by (simp add: import_accounts_def exported_array comp_def no_imports_def account_count_def)
qed

section \<open>What an import does not see\<close>

text \<open>Known tokens are collected once, before the import: an account listed twice is added twice.\<close>

lemma listed_twice_is_added_twice:
  assumes "all_stored ws" "inj (\<lambda>j. uuid (ws j))" "accounts m = []" "reenterable pct a"
  shows "essences (snd (import_accounts debug pct proxies ws (JArr [export_account a, export_account a]) m))
     = [essence a, essence a]"
proof -
  obtain c m1 where run: "import_all debug pct proxies ws [] 0 (map export_account [a, a]) no_imports m = (c, m1)" by force
  have "essences m1 = essences m @ map essence [a, a]"
    using import_exported [OF assms(1) _ _ _ _ run] assms(2-4) by (simp add: fresh_ids_def placed_def)
  then show ?thesis using run assms(3) by (simp add: import_accounts_def import_array_def essences_def)
qed

text \<open>
  A stored secret was decoded when it was entered; an import (and each load from the database)
  decodes it again: a secret that still contains a percent escape is changed.
\<close>

lemma import_decodes_again:
  assumes "add_account pct proxies u (label a) (client_id a) (client_secret a) (refresh_token a) (user_id a) now db m = (Inr y, m1)"
    "pct (client_secret a) = Some s" "s \<noteq> client_secret a"
  shows "client_secret (heap m1 y) \<noteq> client_secret a"
  using add_account_fresh [OF assms(1)] assms(2,3) by (auto simp: essence_def normalize_client_secret_def)

text \<open>A reply whose 500th byte falls inside a character costs the account its test result.\<close>

lemma cut_character_loses_the_test:
  assumes "get_token (test_auth w) x m = (Inr t, m1)" "rate_limit_remaining (tested_at w) (heap m1 x) = None"
    "test_egress_again w = None" "test_reply_of w = TestAnswer 200 ra payload" "500 < length payload"
    "is_continuation (payload ! 500)"
  shows "fst (test_one debug w x m) = None"
  using assms by (simp add: test_one_def Let_def response_preview_def)

section \<open>Concrete lists\<close>

theorem list_is_in_order_witness:
  "mset (map (\<lambda>r. acc_id (row_of r)) (fst (list_accounts 5 5000 48 demo_manager))) = {# ''p'', ''q'', ''c'' #}"
  using list_is_in_order [OF prod.collapse [symmetric], of 5 5000 48 demo_manager] by (simp add: demo_defs)

definition numbered :: "nat \<Rightarrow> add_world" where
  "numbered i = \<lparr>uuid = replicate i (CHR ''n''), added_at = 7, flagged_at = 8, add_db = None, flag_db = None\<rparr>"

lemma numbered_inj: "inj (\<lambda>j. uuid (numbered j))"
  by (auto simp: inj_def numbered_def)

theorem export_import_restores_witness:
  "essences (snd (import_accounts (\<lambda>_. []) (\<lambda>s. Some s) False numbered (export_accounts demo_manager)
     (demo_manager\<lparr>accounts := []\<rparr>))) = essences demo_manager
   \<and> length (essences demo_manager) = 3"
proof -
  have "list_all (\<lambda>x. reenterable (\<lambda>s. Some s) (heap demo_manager x)) (accounts demo_manager)"
    by (simp add: reenterable_def normalize_client_secret_def demo_defs)
  moreover have "all_stored numbered" by (simp add: all_stored_def numbered_def db_fails_def)
  moreover have "accounts (demo_manager\<lparr>accounts := []\<rparr>) = []" by simp
  moreover have "length (accounts demo_manager) = 3" by (simp add: demo_manager_def)
  ultimately show ?thesis
    using export_import_restores [where debug = "\<lambda>_. []" and pct = "\<lambda>s. Some s" and proxies = False and ws = numbered
        and m = demo_manager and ?m0.0 = "demo_manager\<lparr>accounts := []\<rparr>"] numbered_inj
    by (simp add: split_beta essences_def)
qed

theorem reimport_changes_nothing_witness:
  "snd (import_accounts (\<lambda>_. []) (\<lambda>s. Some s) False numbered (export_accounts demo_manager) demo_manager) = demo_manager"
  using reimport_changes_nothing [where debug = "\<lambda>_. []" and pct = "\<lambda>s. Some s" and proxies = False and ws = numbered
      and m = demo_manager] by (simp add: split_beta)

end
