(* ===== verification/SetupProps.thy ===== *)
theory SetupProps
  imports Setup RosterProps
begin

text \<open>
  What signing in by code promises: a session ends once and stays as it ended, a task never outlives
  ten minutes, and a session that says it is complete has its account in the pool.
\<close>

section \<open>The life of a session\<close>

definition waiting :: "setup_state \<Rightarrow> string \<Rightarrow> bool" where
  "waiting st sid \<longleftrightarrow> (case sessions st sid of Some s \<Rightarrow> session_status s = SetupPending | None \<Rightarrow> False)"

text \<open>A task runs exactly for the sessions that wait.\<close>

definition tasks_match :: "setup_state \<Rightarrow> bool" where
  "tasks_match st \<longleftrightarrow> (\<forall>sid. (tasks st sid \<noteq> None) = waiting st sid)"

definition ends_with :: "string \<Rightarrow> setup_state \<Rightarrow> setup_state \<Rightarrow> bool" where
  "ends_with sid st st' \<longleftrightarrow>
     (\<exists>outcome m. outcome \<noteq> SetupPending \<and> st' = end_task sid outcome (st\<lparr>pool := m\<rparr>))"

lemma ends_same: "outcome \<noteq> SetupPending \<Longrightarrow> ends_with sid st (end_task sid outcome st)"
  unfolding ends_with_def by (rule exI [of _ outcome], rule exI [of _ "pool st"]) simp

lemma ends_pool: "outcome \<noteq> SetupPending \<Longrightarrow> ends_with sid st (end_task sid outcome (st\<lparr>pool := m\<rparr>))"
  unfolding ends_with_def by blast

lemma sign_in_ends: "ends_with sid st (sign_in pct proxies w sid task t st)"
  by (auto simp: sign_in_def Let_def split: sum.split prod.split intro: ends_same ends_pool)

lemma poll_cases:
  obtains (idle) "tasks st sid = None" "poll_once pct proxies w sid st = st"
  | (again) "tasks st sid \<noteq> None" "poll_age w \<le> 600" "poll_once pct proxies w sid st = st"
  | (ends) "tasks st sid \<noteq> None" "ends_with sid st (poll_once pct proxies w sid st)"
proof (cases "tasks st sid")
  case None
  then show ?thesis by (intro idle) (simp_all add: poll_once_def)
next
  case (Some task)
  show ?thesis
  proof (cases "poll_age w > 600")
    case True
    then show ?thesis by (intro ends) (simp_all add: Some poll_once_def ends_same)
  next
    case False
    have "poll_once pct proxies w sid st = st \<or> ends_with sid st (poll_once pct proxies w sid st)"
      using False
      by (auto simp: poll_once_def Some ends_same sign_in_ends split: setup_reply.split sum.split)
    with Some False show ?thesis by (auto intro: again ends)
  qed
qed

lemma ended:
  assumes "ends_with sid st st'"
  shows "tasks st' = (tasks st)(sid := None)" "\<not> waiting st' sid"
    "z \<noteq> sid \<Longrightarrow> sessions st' z = sessions st z" "(sessions st' z = None) = (sessions st z = None)"
  using assms by (auto simp: ends_with_def end_task_def waiting_def split: option.splits if_splits)

lemma match_ended: "tasks_match st \<Longrightarrow> ends_with sid st st' \<Longrightarrow> tasks_match st'"
  unfolding tasks_match_def
  by (metis ended fun_upd_other fun_upd_same waiting_def)

lemma start_cases:
  assumes "start_setup line w request st = (r, st')"
  shows "st' = st \<or> (\<exists>s task. session_status s = SetupPending
    \<and> st' = st\<lparr>sessions := (sessions st)(new_session w \<mapsto> s), tasks := (tasks st)(new_session w \<mapsto> task)\<rparr>)"
proof (cases "code_answer line w")
  case (Inl e)
  then show ?thesis using assms by (simp add: start_setup_def)
next
  case (Inr d)
  define s where "s = \<lparr>session_code = device_code d, session_status = SetupPending,
      session_label = filled_label (Option.bind request wanted_label)\<rparr>"
  define task where "task = \<lparr>task_secret = setup_client_secret (pool st),
      task_label = filled_label (Option.bind request wanted_label),
      task_catalog = (case request of Some b \<Rightarrow> wanted_catalog b | None \<Rightarrow> False)\<rparr>"
  have "st' = st\<lparr>sessions := (sessions st)(new_session w \<mapsto> s), tasks := (tasks st)(new_session w \<mapsto> task)\<rparr>"
    using assms Inr by (simp add: start_setup_def Let_def s_def task_def)
  moreover have "session_status s = SetupPending" by (simp add: s_def)
  ultimately show ?thesis by blast
qed

lemma update_cases:
  "snd (update_setup sid request st) = st \<or>
   (\<exists>s l. sessions st sid = Some s \<and> session_status s = SetupPending
      \<and> snd (update_setup sid request st) = st\<lparr>sessions := (sessions st)(sid \<mapsto> s\<lparr>session_label := l\<rparr>)\<rparr>)"
  by (auto simp: update_setup_def split: option.split)

lemma step_keeps:
  assumes "setup_step st st'" "tasks_match st"
  shows "tasks_match st' \<and> (\<forall>sid s. sessions st sid = Some s \<longrightarrow> session_status s \<noteq> SetupPending \<longrightarrow> sessions st' sid = Some s)
    \<and> (\<forall>sid. sessions st sid \<noteq> None \<longrightarrow> sessions st' sid \<noteq> None)"
  using assms
proof (induction rule: setup_step.induct)
  case (start st w line request r st')
  from start_cases [OF start(2)] start(1,3) show ?case
    by (elim disjE exE conjE) (simp_all add: tasks_match_def waiting_def)
next
  case (poll st pct proxies w sid)
  show ?case
  proof (cases rule: poll_cases [of st sid pct proxies w])
    case ends
    then have w: "waiting st sid" using poll by (simp add: tasks_match_def)
    have "sessions (poll_once pct proxies w sid st) z = Some s"
      if "sessions st z = Some s" "session_status s \<noteq> SetupPending" for z s
      using that w ended(3) [OF ends(2), of z] by (cases "z = sid") (simp_all add: waiting_def)
    then show ?thesis using match_ended [OF poll ends(2)] ended(4) [OF ends(2)] by simp
  qed (use poll in simp_all)
next
  case (update st sid request)
  from update_cases [of sid request st] update show ?case
    by (elim disjE exE conjE) (auto simp: tasks_match_def waiting_def)
qed (simp add: tasks_match_def waiting_def)

lemma steps_keep:
  assumes "setup_step\<^sup>*\<^sup>* st st'" "tasks_match st"
  shows "tasks_match st' \<and> (\<forall>sid s. sessions st sid = Some s \<longrightarrow> session_status s \<noteq> SetupPending \<longrightarrow> sessions st' sid = Some s)
    \<and> (\<forall>sid. sessions st sid \<noteq> None \<longrightarrow> sessions st' sid \<noteq> None)"
  using assms
proof (induction rule: rtranclp_induct)
  case (step st1 st2)
  with step_keeps [OF step(2)] show ?case by blast
qed simp

lemma start_matches: "tasks_match (no_sessions m)"
  by (simp add: tasks_match_def waiting_def no_sessions_def)

text \<open>
  A sign-in that is complete or has failed stays what it is: whatever happens later (rounds of its own
  task, renaming, other sign-ins, the rest of the server), its session shows the same outcome.
\<close>

lemma finished_sign_in_stays:
  assumes "setup_step\<^sup>*\<^sup>* (no_sessions m) st" "setup_step\<^sup>*\<^sup>* st st'"
    and "sessions st sid = Some s" "session_status s \<noteq> SetupPending"
  shows "sessions st' sid = Some s"
  using steps_keep [OF assms(2)] steps_keep [OF assms(1) start_matches] assms(3,4) by blast

text \<open>No step takes a session out of the table: it grows with every sign-in.\<close>

lemma sessions_are_never_removed:
  "setup_step\<^sup>*\<^sup>* (no_sessions m) st \<Longrightarrow> setup_step\<^sup>*\<^sup>* st st' \<Longrightarrow> sessions st sid \<noteq> None \<Longrightarrow> sessions st' sid \<noteq> None"
  using steps_keep start_matches by blast

section \<open>A task ends\<close>

lemma poll_match: "tasks_match st \<Longrightarrow> tasks_match (poll_once pct proxies w sid st)"
  using step_keeps [OF setup_step.poll] by blast

lemma poll_not_waiting: "tasks_match st \<Longrightarrow> \<not> waiting st sid \<Longrightarrow> poll_once pct proxies w sid st = st"
  by (cases rule: poll_cases [of st sid pct proxies w]) (auto simp: tasks_match_def)

text \<open>
  A sign-in comes to an end: the round of its task that begins more than ten minutes after the task ends
  it, if nothing did before, whatever Tidal answers.
\<close>

lemma sign_in_comes_to_an_end:
  assumes "setup_step\<^sup>*\<^sup>* (no_sessions m) st" "\<exists>w\<in>set ws. 600 < poll_age w"
  shows "\<not> waiting (fold (\<lambda>w. poll_once pct proxies w sid) ws st) sid"
proof -
  have "tasks_match st" using steps_keep [OF assms(1) start_matches] by blast
  then show ?thesis
    using assms(2)
  proof (induction ws arbitrary: st)
    case (Cons w ws)
    let ?st = "poll_once pct proxies w sid st"
    have stay: "\<not> waiting (fold (\<lambda>w. poll_once pct proxies w sid) ws s) sid" if "tasks_match s" "\<not> waiting s sid" for s
      using that by (induction ws) (simp_all add: poll_not_waiting)
    show ?case
    proof (cases "600 < poll_age w")
      case True
      have "\<not> waiting ?st sid"
      proof (cases rule: poll_cases [of st sid pct proxies w])
        case idle
        have "(tasks st sid \<noteq> None) = waiting st sid" using Cons.prems(1) unfolding tasks_match_def by blast
        with idle show ?thesis by simp
      qed (use True ended(2) in auto)
      then show ?thesis using stay [OF poll_match [OF Cons.prems(1)]] by simp
    next
      case False
      with Cons.prems have "\<exists>w\<in>set ws. 600 < poll_age w" by simp
      then show ?thesis using Cons.IH [OF poll_match [OF Cons.prems(1)]] by simp
    qed
  qed simp
qed

section \<open>The account of a completed sign-in\<close>

lemma set_country_essence [simp]:
  "essence (set_country c a) = essence a" "acc_id (set_country c a) = acc_id a" "access_token (set_country c a) = access_token a"
  "refresh_token (set_country c a) = refresh_token a"
  by (simp_all add: set_country_def essence_def split: option.split)

lemma essence_flagged [simp]: "essence (a\<lparr>is_catalog := c, updated_at := u\<rparr>) = (label a, client_id a, client_secret a, refresh_token a, user_id a, c)"
  by (simp add: essence_def)

lemma set_country_parts [simp]:
  "label (set_country c a) = label a" "client_id (set_country c a) = client_id a" "client_secret (set_country c a) = client_secret a"
  "user_id (set_country c a) = user_id a"
  by (simp_all add: set_country_def split: option.split)

lemma essence_parts: "essence a = (l, c, s, r, u, f) \<Longrightarrow>
    label a = l \<and> client_id a = c \<and> client_secret a = s \<and> refresh_token a = r \<and> user_id a = u"
  by (simp add: essence_def)

lemma store_credentials_new:
  assumes "x \<in> set (accounts m)" "refresh_token (heap m x) = r"
    "store_refreshed_credentials x r None t e now db m = (q, m')"
  shows "accounts m' = accounts m \<and> essence (heap m' x) = essence (heap m x) \<and> acc_id (heap m' x) = acc_id (heap m x)
    \<and> (persist_token db = None \<longrightarrow> access_token (heap m' x) = Some t \<and> token_expires_at (heap m' x) = e)"
  using assms by (auto simp: store_refreshed_credentials_def Let_def essence_def split: option.splits)

lemma join_pool_stores:
  assumes "join_pool pct proxies w task lbl uid country access refr expires m = (Inr aid, m')"
    and "placed m" "\<forall>x\<in>set (accounts m). acc_id (heap m x) \<noteq> uuid (joining w)"
  shows "let y = next_addr m in accounts m' = accounts m @ [y] \<and> acc_id (heap m' y) = aid \<and> aid = uuid (joining w)
    \<and> essence (heap m' y) = (lbl, REQUEST_CLIENT_ID, normalize_client_secret pct (task_secret task), refr, Some uid, task_catalog task)
    \<and> (persist_token (cache_db w) = None \<longrightarrow> access_token (heap m' y) = Some access \<and> token_expires_at (heap m' y) = expires)"
proof -
  obtain y m1 where add: "add_account pct proxies (uuid (joining w)) lbl REQUEST_CLIENT_ID (task_secret task) refr (Some uid)
      (added_at (joining w)) (add_db (joining w)) m = (Inr y, m1)"
    using assms(1) by (auto simp: join_pool_def split: prod.splits sum.splits)
  note new = add_account_fresh [OF add]
  let ?m2 = "at_addr y (set_country country) m1"
  define m3 where "m3 = (if task_catalog task
      then snd (set_account_catalog (acc_id (heap ?m2 y)) True (flagged_at (joining w)) (flag_db (joining w)) ?m2) else ?m2)"
  have old: "x \<noteq> y" if "x \<in> set (accounts m)" for x using assms(2) new that by (auto simp: placed_def)
  have ids: "acc_id (heap ?m2 y) = uuid (joining w)" "\<forall>x\<in>set (accounts m). acc_id (heap ?m2 x) \<noteq> uuid (joining w)"
    using new old assms(3) by auto
  have es: "essence (heap m1 y) = (lbl, REQUEST_CLIENT_ID, normalize_client_secret pct (task_secret task), refr, Some uid, False)"
    using new by blast
  have m3: "accounts m3 = accounts m @ [y]" "acc_id (heap m3 y) = uuid (joining w)"
    "essence (heap m3 y) = (lbl, REQUEST_CLIENT_ID, normalize_client_secret pct (task_secret task), refr, Some uid, task_catalog task)"
    using flag_new [of ?m2 "accounts m" y "uuid (joining w)" "flagged_at (joining w)" "flag_db (joining w)"] new ids es essence_parts [OF es]
    by (auto simp: m3_def)
  obtain q m4 where st: "store_refreshed_credentials y refr None access expires (cached_at w) (cache_db w) m3 = (q, m4)"
    by force
  have "(Inr aid, m') = (Inr (acc_id (heap m4 y)), m4)"
    using assms(1) add st by (auto simp: join_pool_def Let_def simp flip: m3_def)
  moreover have "refresh_token (heap m3 y) = refr" using m3(3) by (simp add: essence_def)
  moreover note store_credentials_new [OF _ this st]
  ultimately show ?thesis using m3 new by (auto simp: Let_def)
qed

text \<open>
  When a sign-in becomes complete, its account is in the pool, at the end of it: with the id, the label and
  the user the session shows, the request client and the secret chosen at the start, its catalog role, and
  the refresh token Tidal gave to that client; its first access token too if it could be stored.
\<close>

lemma completed_sign_in_is_in_the_pool:
  assumes "tasks st sid = Some task" "sessions st sid = Some s0"
    and "poll_once pct proxies w sid st = st'" "sessions st' sid = Some s" "session_status s = Complete aid lbl uid"
    and "session_status s0 = SetupPending" "placed (pool st)"
    and "\<forall>x\<in>set (accounts (pool st)). acc_id (heap (pool st) x) \<noteq> uuid (joining w)"
  shows "\<exists>code words v t access rotated lifetime.
      poll_reply w = SetupReply code words (Inr v) \<and> is_success code \<and> token_of ''countryCode'' v = Some t
    \<and> refresh_with_client w = Inr (access, rotated, lifetime)
    \<and> lbl = signed_in_label (session_label s0) (task_label task) uid
    \<and> (let y = next_addr (pool st); a = heap (pool st') y
       in accounts (pool st') = accounts (pool st) @ [y] \<and> acc_id a = aid
        \<and> essence a = (lbl, REQUEST_CLIENT_ID, normalize_client_secret pct (task_secret task),
             unwrap_or rotated (issued_refresh t), Some uid, task_catalog task)
        \<and> (persist_token (cache_db w) = None \<longrightarrow> access_token a = Some access
             \<and> token_expires_at a = issued_token_expires_at (issued_at w) lifetime))"
proof -
  have "\<exists>code words v t. st' = sign_in pct proxies w sid task t st
      \<and> poll_reply w = SetupReply code words (Inr v) \<and> is_success code \<and> token_of ''countryCode'' v = Some t"
    using assms(1-6)
    by (auto simp: poll_once_def end_task_def read_shape_def split: if_splits setup_reply.splits sum.splits option.splits)
  then obtain code words v t where st': "st' = sign_in pct proxies w sid task t st"
    and told: "poll_reply w = SetupReply code words (Inr v)" "is_success code" "token_of ''countryCode'' v = Some t" by blast
  let ?uid = "case issued_user t of Some (u, c) \<Rightarrow> u | None \<Rightarrow> ''unknown''"
  let ?lbl = "signed_in_label (Option.bind (sessions st sid) session_label) (task_label task) ?uid"
  have "\<exists>access rotated lifetime. refresh_with_client w = Inr (access, rotated, lifetime)"
    using assms(2,4,5) unfolding st'
    by (auto simp: sign_in_def Let_def end_task_def split: sum.splits)
  then obtain access rotated lifetime where r: "refresh_with_client w = Inr (access, rotated, lifetime)" by blast
  obtain q m1 where j: "join_pool pct proxies w task ?lbl ?uid (map_option snd (issued_user t)) access
      (unwrap_or rotated (issued_refresh t)) (issued_token_expires_at (issued_at w) lifetime) (pool st) = (q, m1)" by force
  have q: "q = Inr aid \<and> lbl = ?lbl \<and> uid = ?uid \<and> pool st' = m1"
  proof -
    have "st' = (case q of
        Inr aid \<Rightarrow> end_task sid (Complete aid ?lbl ?uid) (st\<lparr>pool := m1\<rparr>)
      | Inl e \<Rightarrow> end_task sid (SetupError (''Add failed: '' @ display (status_line w) e)) (st\<lparr>pool := m1\<rparr>))"
      using j by (simp add: st' sign_in_def Let_def r)
    then show ?thesis using assms(2,4,5) by (cases q) (auto simp: end_task_def)
  qed
  note new = join_pool_stores [OF j [unfolded conjunct1 [OF q]] assms(7,8)]
  show ?thesis
    by (intro exI [of _ code] exI [of _ words] exI [of _ v] exI [of _ t] exI [of _ access] exI [of _ rotated] exI [of _ lifetime])
      (use r q new told assms(2) in \<open>simp add: Let_def\<close>)
qed

section \<open>How long an issued token is used\<close>

text \<open>
  A token is taken to run out before it does, but never at once: at least 54 seconds after it was
  issued, and before its lifetime ends when that is a minute or more.
\<close>

lemma issued_tokens_end_early:
  assumes "0 \<le> now" "now < 2 ^ 62" "lifetime < 2 ^ 62"
  shows "now + 54 \<le> issued_token_expires_at now lifetime
    \<and> (60 \<le> lifetime \<longrightarrow> issued_token_expires_at now lifetime < now + lifetime
         \<and> now + lifetime - 60 \<le> issued_token_expires_at now lifetime)"
proof -
  define e where "e = max lifetime 60"
  have e: "60 \<le> e" "e < 2 ^ 62" using assms(3) by (auto simp: e_def)
  have m: "6 \<le> min 60 (e div 10)" "min 60 (e div 10) \<le> 60" "min 60 (e div 10) * 10 \<le> e" using e(1) by linarith+
  have sum: "sat_add_i64 now e = now + e"
    using assms(1,2) e by (simp add: sat_add_i64_def clamp_i64_def i64_max_def)
  have "issued_token_expires_at now lifetime = now + e - min 60 (e div 10)"
    using assms(1,2) e m by (simp add: issued_token_expires_at_def Let_def e_def [symmetric] sum sat_sub_i64_def clamp_i64_def i64_max_def)
  moreover have "54 \<le> e - min 60 (e div 10)" using m(3) e(1) by linarith
  moreover have "0 < min 60 (e div 10)" "min 60 (e div 10) \<le> 60" using m by linarith+
  moreover have "60 \<le> lifetime \<longrightarrow> e = lifetime" by (simp add: e_def)
  ultimately show ?thesis by linarith
qed

section \<open>A label taken back\<close>

text \<open>
  The owner can empty the label of a session that waits, but the account then gets the label the
  session was started with.
\<close>

lemma cleared_label_comes_back:
  assumes "sessions st sid = Some s" "session_status s = SetupPending"
  shows "signed_in_label (Option.bind (sessions (snd (update_setup sid \<lparr>wanted_label = Some [], wanted_catalog = False\<rparr> st)) sid)
     session_label) (Some custom) uid = custom"
  using assms by (simp add: update_setup_def filled_label_def trim_def signed_in_label_def)

section \<open>A concrete sign-in\<close>

definition demo_code :: json where
  "demo_code = JObj [(''deviceCode'', JStr ''d''), (''userCode'', JStr ''u''), (''verificationUri'', JStr ''v''),
     (''verificationUriComplete'', JStr ''link''), (''interval'', JInt 5), (''expiresIn'', JInt 600)]"

definition demo_start :: start_world where
  "demo_start = \<lparr>auth_client_error = None, code_reply = SetupReply 200 [] (Inr demo_code), replace_error = None,
     code_reply_again = SetupReply 200 [] (Inr demo_code), code_shape_error = [], new_session = ''s''\<rparr>"

definition demo_issued :: json where
  "demo_issued = JObj [(''access_token'', JStr ''a''), (''refresh_token'', JStr ''r''), (''expires_in'', JInt 3600),
     (''user'', JObj [(''userId'', JInt 7), (''countryCode'', JStr ''DE'')])]"

definition demo_round :: "int \<Rightarrow> poll_world" where
  "demo_round age = \<lparr>poll_age = age, poll_reply = SetupReply 200 [] (Inr demo_issued),
     renew_reply = SetupReply 200 [] (Inr demo_issued), poll_shape_error = [], renew_shape_error = [],
     status_line = (\<lambda>_. []), issued_at = 1000, joining = numbered 5, cached_at = 1001, cache_db = None\<rparr>"

definition demo_session :: setup_session where
  "demo_session = \<lparr>session_code = ''d'', session_status = SetupPending, session_label = None\<rparr>"

definition demo_task :: setup_task where
  "demo_task = \<lparr>task_secret = REQUEST_CLIENT_SECRET, task_label = None, task_catalog = False\<rparr>"

definition demo_signing :: setup_state where
  "demo_signing = (no_sessions demo_manager)\<lparr>sessions := [''s'' \<mapsto> demo_session], tasks := [''s'' \<mapsto> demo_task]\<rparr>"

lemma demo_started: "snd (start_setup (\<lambda>_. []) demo_start None (no_sessions demo_manager)) = demo_signing"
proof -
  have "setup_client_secret demo_manager = REQUEST_CLIENT_SECRET"
    by (simp add: setup_client_secret_def demo_defs REQUEST_CLIENT_ID_def)
  moreover have "code_answer (\<lambda>_. []) demo_start = Inr \<lparr>device_code = ''d'', verification_uri_complete = ''link''\<rparr>"
    by (simp add: code_answer_def request_code_def demo_start_def is_success_def read_shape_def device_of_def demo_code_def
        jget_str_def jget_i64_def)
  moreover have "new_session demo_start = ''s''" by (simp add: demo_start_def)
  ultimately show ?thesis
    by (simp add: start_setup_def Let_def demo_signing_def demo_session_def demo_task_def no_sessions_def filled_label_def)
qed

lemma demo_reached: "setup_step\<^sup>*\<^sup>* (no_sessions demo_manager) demo_signing"
proof -
  obtain r where "start_setup (\<lambda>_. []) demo_start None (no_sessions demo_manager) = (r, demo_signing)"
    using demo_started by (metis prod.collapse)
  then show ?thesis by (intro r_into_rtranclp setup_step.start) (auto simp: no_sessions_def)
qed

abbreviation demo_ended :: setup_state where
  "demo_ended \<equiv> poll_once (\<lambda>s. Some s) False (demo_round 601) ''s'' demo_signing"

lemma demo_timeout: "sessions demo_ended ''s'' =
    Some (demo_session\<lparr>session_status := SetupError ''Timed out waiting for authorization''\<rparr>)"
  by (simp add: poll_once_def demo_signing_def demo_round_def end_task_def no_sessions_def)

theorem finished_sign_in_stays_witness:
  "sessions (poll_once (\<lambda>s. Some s) False (demo_round 5) ''s'' demo_ended) ''s'' =
     Some (demo_session\<lparr>session_status := SetupError ''Timed out waiting for authorization''\<rparr>)"
  by (rule finished_sign_in_stays [OF rtranclp.rtrancl_into_rtrancl [OF demo_reached setup_step.poll]
        r_into_rtranclp [of setup_step, OF setup_step.poll] demo_timeout]) simp

theorem sign_in_comes_to_an_end_witness:
  "\<not> waiting (fold (\<lambda>w. poll_once (\<lambda>s. Some s) False w ''s'') [demo_round 5, demo_round 700] demo_signing) ''s''"
  by (rule sign_in_comes_to_an_end [OF demo_reached]) (simp add: demo_round_def)

theorem completed_sign_in_is_in_the_pool_witness:
  "\<exists>aid lbl uid. map_option session_status (sessions (poll_once (\<lambda>s. Some s) False (demo_round 5) ''s'' demo_signing) ''s'')
       = Some (Complete aid lbl uid)
     \<and> length (accounts (pool (poll_once (\<lambda>s. Some s) False (demo_round 5) ''s'' demo_signing))) = 4"
proof -
  let ?st = "poll_once (\<lambda>s. Some s) False (demo_round 5) ''s'' demo_signing"
  let ?t = "\<lparr>issued_token = ''a'', issued_refresh = ''r'', issued_lifetime = 3600, issued_user = Some (show_int 7, ''DE'')\<rparr>"
  have answer: "token_of ''countryCode'' demo_issued = Some ?t"
    by (simp add: token_of_def demo_issued_def jget_str_def field_or_def optional_def user_info_def)
  have renew: "refresh_with_client (demo_round 5) = Inr (''a'', Some ''r'', 3600)"
    by (simp add: refresh_with_client_def demo_round_def is_success_def read_shape_def refreshed_of_def demo_issued_def
        jget_str_def field_or_def optional_def)
  have running: "tasks demo_signing ''s'' = Some demo_task" "sessions demo_signing ''s'' = Some demo_session"
    "pool demo_signing = demo_manager" by (simp_all add: demo_signing_def no_sessions_def)
  have st: "?st = sign_in (\<lambda>s. Some s) False (demo_round 5) ''s'' demo_task ?t demo_signing"
    using answer by (simp add: poll_once_def running read_shape_def demo_round_def is_success_def)
  have ok: "\<exists>aid m1. join_pool (\<lambda>s. Some s) False (demo_round 5) demo_task l u c a r e m = (Inr aid, m1)" for l u c a r e m
    by (auto simp: join_pool_def add_account_def alloc_def db_fails_def demo_round_def numbered_def Let_def)
  obtain s aid lbl uid where s: "sessions ?st ''s'' = Some s" "session_status s = Complete aid lbl uid"
  proof -
    obtain aid m1 where "join_pool (\<lambda>s. Some s) False (demo_round 5) demo_task
        (signed_in_label (Option.bind (sessions demo_signing ''s'') session_label) (task_label demo_task) (show_int 7)) (show_int 7)
        (Some ''DE'') ''a'' ''r'' (issued_token_expires_at (issued_at (demo_round 5)) 3600) (pool demo_signing) = (Inr aid, m1)"
      using ok by blast
    then have "\<exists>s lbl. sessions ?st ''s'' = Some s \<and> session_status s = Complete aid lbl (show_int 7)"
      by (simp add: st sign_in_def Let_def renew end_task_def running)
    then show ?thesis using that by blast
  qed
  have p: "session_status demo_session = SetupPending" "placed (pool demo_signing)"
    "\<forall>x\<in>set (accounts (pool demo_signing)). acc_id (heap (pool demo_signing) x) \<noteq> uuid (joining (demo_round 5))"
    by (simp add: demo_session_def, simp add: running placed_def demo_manager_def,
        simp add: running demo_defs demo_round_def numbered_def numeral_eq_Suc)
  have "accounts (pool ?st) = accounts demo_manager @ [next_addr demo_manager]"
    using completed_sign_in_is_in_the_pool [OF running(1,2) refl s p] unfolding running Let_def by blast
  then have "length (accounts (pool ?st)) = 4" by (simp add: demo_manager_def)
  then show ?thesis using s by auto
qed

theorem issued_tokens_end_early_witness:
  "1054 \<le> issued_token_expires_at 1000 3600 \<and> issued_token_expires_at 1000 3600 < 4600"
  using issued_tokens_end_early [of 1000 3600] by simp

end
