(* ===== verification/Startup.thy ===== *)
theory Startup
  imports RosterProps
begin

text \<open>
  \<open>src/config.rs\<close>, and the accounts a server starts with (\<open>src/main.rs\<close>): the legacy token file, the
  catalog credential and the default account of the environment. \<open>env\<close> is \<open>std::env::var(..).ok()\<close>; the
  version of the build is an argument. Lower-casing matters only for comparisons with ASCII words.
\<close>

section \<open>The configuration\<close>

record config =
  cfg_database_url :: string
  cfg_admin_key :: string
  cfg_country_code :: string
  cfg_host :: string
  cfg_port :: nat
  cfg_use_proxies :: bool
  cfg_trust_proxy :: bool
  cfg_proxies_file :: string
  cfg_fallback_to_direct :: bool
  cfg_api_version :: string
  cfg_user_agent :: string
  cfg_dev_mode :: bool
  cfg_rotate_proxies_on_refresh :: bool
  cfg_catalog_client_id :: string
  cfg_catalog_client_secret :: string
  cfg_catalog_refresh_token :: string
  cfg_catalog_user_id :: "string option"
  cfg_catalog_token :: string
  cfg_token_file :: string
  cfg_upstash_url :: string
  cfg_upstash_token :: string

definition parse_u16 :: "string \<Rightarrow> nat option" where
  "parse_u16 s = (case parse_u64 s of Some n \<Rightarrow> if n < 2 ^ 16 then Some n else None | None \<Rightarrow> None)"

definition says_true :: "string \<Rightarrow> bool" where
  "says_true s \<longleftrightarrow> map to_ascii_lower s = ''true''"

definition env_flag :: "(string \<Rightarrow> string option) \<Rightarrow> string \<Rightarrow> bool \<Rightarrow> bool" where
  "env_flag env key d =
     (case env key of
        Some v \<Rightarrow> (let v = map to_ascii_lower v in v = ''true'' \<or> v = ''1'' \<or> v = ''yes'')
      | None \<Rightarrow> d)"

definition config_from_env :: "string \<Rightarrow> (string \<Rightarrow> string option) \<Rightarrow> config" where
  "config_from_env build env =
     (let var = (\<lambda>k d. unwrap_or (env k) d);
          main_client_id = var ''CLIENT_ID'' []; main_client_secret = var ''CLIENT_SECRET'' []
      in \<lparr>cfg_database_url = var ''DATABASE_URL'' ''hifi.db'', cfg_admin_key = var ''ADMIN_KEY'' [],
          cfg_country_code = var ''COUNTRY_CODE'' ''US'', cfg_host = var ''HOST'' ''0.0.0.0'',
          cfg_port = unwrap_or (Option.bind (env ''PORT'') parse_u16) 8000,
          cfg_use_proxies = says_true (var ''USE_PROXIES'' []),
          cfg_trust_proxy = says_true (var ''TRUST_PROXY_HEADERS'' ''true''),
          cfg_proxies_file = var ''PROXIES_FILE'' ''proxies.txt'',
          cfg_fallback_to_direct = says_true (var ''FALLBACK_TO_DIRECT_CONNECTION'' []),
          cfg_api_version = build, cfg_user_agent = var ''USER_AGENT'' ''okhttp/5.3.2'',
          cfg_dev_mode = env_flag env ''DEV_MODE'' False,
          cfg_rotate_proxies_on_refresh = env_flag env ''ROTATE_PROXIES_ON_REFRESH'' False,
          cfg_catalog_client_id = var ''CATALOG_CLIENT_ID'' main_client_id,
          cfg_catalog_client_secret = var ''CATALOG_CLIENT_SECRET'' main_client_secret,
          cfg_catalog_refresh_token = var ''CATALOG_REFRESH_TOKEN'' [],
          cfg_catalog_user_id = (case env ''CATALOG_USER_ID'' of Some u \<Rightarrow> if u = [] then None else Some u | None \<Rightarrow> None),
          cfg_catalog_token = var ''CATALOG_TOKEN'' (var ''CATALOG_ACCESS_TOKEN'' []),
          cfg_token_file = var ''TOKEN_FILE'' ''token.json'',
          cfg_upstash_url = trim_end_slashes (trim (var ''UPSTASH_REDIS_REST_URL'' [])),
          cfg_upstash_token = trim (var ''UPSTASH_REDIS_REST_TOKEN'' [])\<rparr>)"

section \<open>The token file\<close>

text \<open>\<open>None\<close> stands for a file that is absent, is not JSON or has another shape.\<close>

definition file_entries :: "json option \<Rightarrow> json list" where
  "file_entries parsed =
     (case parsed of Some (JArr vs) \<Rightarrow> vs | Some (JObj kvs) \<Rightarrow> [JObj kvs] | _ \<Rightarrow> [])"

fun first_str :: "string list \<Rightarrow> json \<Rightarrow> string option" where
  "first_str [] v = None"
| "first_str (k # ks) v = (case jget_str k v of Some s \<Rightarrow> Some s | None \<Rightarrow> first_str ks v)"

definition or_env :: "string \<Rightarrow> string \<Rightarrow> string" where
  "or_env s d = (if s = [] then d else s)"

definition file_client :: "(string \<Rightarrow> string option) \<Rightarrow> json \<Rightarrow> string" where
  "file_client env v =
     or_env (unwrap_or (first_str [''client_id'', ''client_ID'', ''clientID''] v) []) (unwrap_or (env ''CLIENT_ID'') [])"

definition file_token :: "json \<Rightarrow> string" where
  "file_token v = unwrap_or (first_str [''refresh_token'', ''refreshToken''] v) []"

definition import_entry ::
    "(string \<Rightarrow> string option) \<Rightarrow> bool \<Rightarrow> (string \<Rightarrow> string option) \<Rightarrow> add_world \<Rightarrow> json \<Rightarrow> string list \<Rightarrow> manager \<Rightarrow>
     string list \<times> manager" where
  "import_entry pct proxies env w v seen m =
     (let cid = file_client env v;
          secret = or_env (unwrap_or (first_str [''client_secret'', ''clientSecret''] v) []) (unwrap_or (env ''CLIENT_SECRET'') []);
          token = file_token v
      in if cid = [] \<or> token = [] \<or> token \<in> set seen then (seen, m)
         else (case add_account pct proxies (uuid w) (unwrap_or (jget_str ''label'' v) []) cid secret token
                     (first_str [''user_id'', ''userID'', ''userId''] v) (added_at w) (add_db w) m of
                 (Inl e, m1) \<Rightarrow> (seen, m1)
               | (Inr y, m1) \<Rightarrow>
                   (token # seen,
                    if is_catalog_role (jget_str ''role'' v) \<or> unwrap_or (jget_bool ''catalog'' v) False
                    then snd (set_account_catalog (acc_id (heap m1 y)) True (flagged_at w) (flag_db w) m1) else m1)))"

fun import_entries ::
    "(string \<Rightarrow> string option) \<Rightarrow> bool \<Rightarrow> (string \<Rightarrow> string option) \<Rightarrow> (nat \<Rightarrow> add_world) \<Rightarrow> nat \<Rightarrow> json list \<Rightarrow>
     string list \<Rightarrow> manager \<Rightarrow> string list \<times> manager" where
  "import_entries pct proxies env ws i [] seen m = (seen, m)"
| "import_entries pct proxies env ws i (v # vs) seen m =
     (case import_entry pct proxies env (ws i) v seen m of
        (seen1, m1) \<Rightarrow> import_entries pct proxies env ws (Suc i) vs seen1 m1)"

definition refresh_tokens :: "manager \<Rightarrow> string list" where
  "refresh_tokens m = map (\<lambda>x. refresh_token (heap m x)) (accounts m)"

definition import_token_file ::
    "(string \<Rightarrow> string option) \<Rightarrow> bool \<Rightarrow> (string \<Rightarrow> string option) \<Rightarrow> (nat \<Rightarrow> add_world) \<Rightarrow> string \<Rightarrow> json option \<Rightarrow>
     manager \<Rightarrow> manager" where
  "import_token_file pct proxies env ws path parsed m =
     (if path = [] then m
      else snd (import_entries pct proxies env ws 0 (file_entries parsed) (refresh_tokens m) m))"

section \<open>The accounts of the environment\<close>

definition find_catalog_account :: "manager \<Rightarrow> nat option" where
  "find_catalog_account m =
     (case find (\<lambda>x. is_catalog (heap m x) \<and> is_active (heap m x)) (accounts m) of
        Some x \<Rightarrow> Some x
      | None \<Rightarrow> find (\<lambda>x. is_catalog (heap m x)) (accounts m))"

definition FALLBACK_SECRET :: string where
  "FALLBACK_SECRET = ''Y8tIpqKJxs9BEIwYr0I9bSbMWDsogXJx9LaN3mCHwD4%3D''"

definition env_catalog ::
    "(string \<Rightarrow> string option) \<Rightarrow> bool \<Rightarrow> config \<Rightarrow> add_world \<Rightarrow> manager \<Rightarrow> manager" where
  "env_catalog pct proxies c w m =
     (if find_catalog_account m = None \<and> cfg_catalog_refresh_token c \<noteq> []
      then (case add_account pct proxies (uuid w) ''Catalog (env)'' (cfg_catalog_client_id c)
                  (if cfg_catalog_client_secret c = [] then FALLBACK_SECRET else cfg_catalog_client_secret c)
                  (cfg_catalog_refresh_token c) (cfg_catalog_user_id c) (added_at w) (add_db w) m of
              (Inl e, m1) \<Rightarrow> m1
            | (Inr y, m1) \<Rightarrow> snd (set_account_catalog (acc_id (heap m1 y)) True (flagged_at w) (flag_db w) m1))
      else m)"

definition env_default ::
    "(string \<Rightarrow> string option) \<Rightarrow> bool \<Rightarrow> (string \<Rightarrow> string option) \<Rightarrow> add_world \<Rightarrow> manager \<Rightarrow> manager" where
  "env_default pct proxies env w m =
     (let cid = unwrap_or (env ''CLIENT_ID'') []; secret = unwrap_or (env ''CLIENT_SECRET'') [];
          token = unwrap_or (env ''REFRESH_TOKEN'') []
      in if accounts m = [] \<and> cid \<noteq> [] \<and> token \<noteq> []
         then snd (add_account pct proxies (uuid w) ''Default Account (env)'' cid
                     (if secret = [] then FALLBACK_SECRET else secret) token (env ''USER_ID'') (added_at w) (add_db w) m)
         else m)"

definition starts_setup :: "(string \<Rightarrow> string option) \<Rightarrow> manager \<Rightarrow> bool" where
  "starts_setup env m \<longleftrightarrow> accounts m = [] \<and> env ''AUTO_SETUP'' = Some ''true''"

text \<open>What \<open>main\<close> does after the accounts of the database and of the shared store are loaded.\<close>

definition first_accounts ::
    "(string \<Rightarrow> string option) \<Rightarrow> bool \<Rightarrow> (string \<Rightarrow> string option) \<Rightarrow> config \<Rightarrow> (nat \<Rightarrow> add_world) \<Rightarrow> add_world \<Rightarrow>
     add_world \<Rightarrow> json option \<Rightarrow> manager \<Rightarrow> manager \<times> bool" where
  "first_accounts pct proxies env c ws w1 w2 parsed m =
     (let m1 = import_token_file pct proxies env ws (cfg_token_file c) parsed m;
          m2 = env_catalog pct proxies c w1 m1;
          m3 = env_default pct proxies env w2 m2
      in (m3, starts_setup env m3))"

section \<open>Starting again\<close>

lemma tokens_added:
  assumes "add_account pct proxies u l c s r uid now db m = (Inr y, m1)" "placed m"
  shows "refresh_tokens m1 = refresh_tokens m @ [r] \<and> placed m1 \<and> accounts m1 = accounts m @ [y]"
proof -
  note new = add_account_fresh [OF assms(1)]
  moreover have "x \<noteq> y" if "x \<in> set (accounts m)" for x using assms(2) new that by (auto simp: placed_def)
  ultimately show ?thesis using assms(2) by (auto simp: refresh_tokens_def placed_def essence_def)
qed

lemma tokens_flagged:
  "refresh_tokens (snd (set_account_catalog i c now db m)) = refresh_tokens m"
  "accounts (snd (set_account_catalog i c now db m)) = accounts m"
  "placed (snd (set_account_catalog i c now db m)) = placed m"
  by (auto simp: set_account_catalog_def refresh_tokens_def placed_def at_addr_def Let_def split: option.split)

lemma import_entry_known:
  assumes "all_stored ws" "placed m" "set seen \<subseteq> set (refresh_tokens m)"
    and "import_entry pct proxies env (ws i) v seen m = (seen1, m1)"
  shows "placed m1 \<and> set (refresh_tokens m) \<subseteq> set (refresh_tokens m1) \<and> set seen1 \<subseteq> set (refresh_tokens m1)
    \<and> set seen \<subseteq> set seen1 \<and> (file_client env v \<noteq> [] \<longrightarrow> file_token v \<noteq> [] \<longrightarrow> file_token v \<in> set seen1)"
proof (cases "file_client env v = [] \<or> file_token v = [] \<or> file_token v \<in> set seen")
  case True
  then show ?thesis using assms(2-4) by (auto simp: import_entry_def Let_def)
next
  case False
  let ?w = "ws i"
  have st: "\<not> db_fails (add_db ?w) 0" "\<not> db_fails (add_db ?w) 1" using assms(1) by (simp_all add: all_stored_def)
  obtain y m2 where add: "add_account pct proxies (uuid ?w) (unwrap_or (jget_str ''label'' v) []) (file_client env v)
      (or_env (unwrap_or (first_str [''client_secret'', ''clientSecret''] v) []) (unwrap_or (env ''CLIENT_SECRET'') []))
      (file_token v) (first_str [''user_id'', ''userID'', ''userId''] v) (added_at ?w) (add_db ?w) m = (Inr y, m2)"
    by (rule add_account_succeeds [OF st])
  have "seen1 = file_token v # seen \<and> refresh_tokens m1 = refresh_tokens m2 \<and> placed m1 = placed m2"
    using assms(4) False add
    by (auto simp: import_entry_def Let_def tokens_flagged simp del: first_str.simps split: if_splits)
  then show ?thesis using tokens_added [OF add assms(2)] assms(3) by auto
qed

lemma import_entries_known:
  assumes "all_stored ws" "placed m" "set seen \<subseteq> set (refresh_tokens m)"
    and "import_entries pct proxies env ws i vs seen m = (seen1, m1)"
  shows "set (refresh_tokens m) \<subseteq> set (refresh_tokens m1) \<and> set seen1 \<subseteq> set (refresh_tokens m1) \<and> set seen \<subseteq> set seen1
    \<and> list_all (\<lambda>v. file_client env v = [] \<or> file_token v = [] \<or> file_token v \<in> set (refresh_tokens m1)) vs"
  using assms(2-)
proof (induction vs arbitrary: i seen m)
  case (Cons v vs)
  obtain seen2 m2 where one: "import_entry pct proxies env (ws i) v seen m = (seen2, m2)" by force
  note step = import_entry_known [OF assms(1) Cons.prems(1,2) one]
  have "import_entries pct proxies env ws (Suc i) vs seen2 m2 = (seen1, m1)" using Cons.prems(3) one by simp
  from Cons.IH [OF _ _ this] step show ?case by auto
qed simp

lemma import_nothing:
  "list_all (\<lambda>v. file_client env v = [] \<or> file_token v = [] \<or> file_token v \<in> set seen) vs \<Longrightarrow>
     import_entries pct proxies env ws i vs seen m = (seen, m)"
  by (induction vs arbitrary: i) (auto simp: import_entry_def Let_def simp del: first_str.simps)

text \<open>
  Reading the same token file again, as every start does, adds nothing as long as the accounts it gave
  keep their refresh tokens: each entry is imported at most once, and one listed twice only once.
\<close>

lemma token_file_is_read_once:
  assumes "all_stored ws" "placed m"
  shows "import_token_file pct proxies env ws' path parsed (import_token_file pct proxies env ws path parsed m)
     = import_token_file pct proxies env ws path parsed m"
proof (cases "path = []")
  case False
  obtain seen1 m1 where one: "import_entries pct proxies env ws 0 (file_entries parsed) (refresh_tokens m) m = (seen1, m1)"
    by force
  from import_entries_known [OF assms subset_refl one]
  have "import_entries pct proxies env ws' 0 (file_entries parsed) (refresh_tokens m1) m1 = (refresh_tokens m1, m1)"
    by (intro import_nothing) simp
  then show ?thesis using False one by (simp add: import_token_file_def)
qed (simp add: import_token_file_def)

text \<open>
  The comment says the file is imported once. An account whose refresh token was rotated since, or that
  the owner removed, is imported again at the next start.
\<close>

lemma changed_account_is_imported_again:
  assumes "file_client env v \<noteq> []" "file_token v \<noteq> []" "file_token v \<notin> set (refresh_tokens m)" "path \<noteq> []"
    and "\<not> db_fails (add_db (ws 0)) 0" "\<not> db_fails (add_db (ws 0)) 1" "v = JObj kvs"
  shows "length (accounts (import_token_file pct proxies env ws path (Some v) m)) = Suc (length (accounts m))"
proof -
  obtain y m2 where add: "add_account pct proxies (uuid (ws 0)) (unwrap_or (jget_str ''label'' v) []) (file_client env v)
      (or_env (unwrap_or (first_str [''client_secret'', ''clientSecret''] v) []) (unwrap_or (env ''CLIENT_SECRET'') []))
      (file_token v) (first_str [''user_id'', ''userID'', ''userId''] v) (added_at (ws 0)) (add_db (ws 0)) m = (Inr y, m2)"
    by (rule add_account_succeeds [OF assms(5,6)])
  have "file_entries (Some v) = [v]" using assms(7) by (simp add: file_entries_def)
  then show ?thesis
    using assms(1-4) add add_account_fresh [OF add]
    by (auto simp: import_token_file_def import_entry_def Let_def tokens_flagged simp del: first_str.simps)
qed

text \<open>The catalog credential is added again at the next start once no account has the catalog role.\<close>

lemma unflagged_catalog_account_is_doubled:
  assumes "find_catalog_account m = None" "cfg_catalog_refresh_token c \<in> set (refresh_tokens m)"
    "cfg_catalog_refresh_token c \<noteq> []" "\<not> db_fails (add_db w) 0" "\<not> db_fails (add_db w) 1"
  shows "length (accounts (env_catalog pct proxies c w m)) = Suc (length (accounts m))"
proof -
  obtain y m2 where add: "add_account pct proxies (uuid w) ''Catalog (env)'' (cfg_catalog_client_id c)
      (if cfg_catalog_client_secret c = [] then FALLBACK_SECRET else cfg_catalog_client_secret c)
      (cfg_catalog_refresh_token c) (cfg_catalog_user_id c) (added_at w) (add_db w) m = (Inr y, m2)"
    by (rule add_account_succeeds [OF assms(4,5)])
  then show ?thesis using assms(1,3) add_account_fresh [OF add] by (simp add: env_catalog_def tokens_flagged)
qed

text \<open>The newer name of the static token wins over the old one.\<close>

lemma catalog_token_names:
  "cfg_catalog_token (config_from_env build env) =
     (case env ''CATALOG_TOKEN'' of Some t \<Rightarrow> t | None \<Rightarrow> unwrap_or (env ''CATALOG_ACCESS_TOKEN'') [])"
  by (simp add: config_from_env_def Let_def split: option.split)

theorem token_file_is_read_once_witness:
  "import_token_file (\<lambda>s. Some s) False (\<lambda>_. None) numbered ''token.json'' (Some (export_account (heap demo_manager 1)))
     (import_token_file (\<lambda>s. Some s) False (\<lambda>_. None) numbered ''token.json'' (Some (export_account (heap demo_manager 1)))
        (demo_manager\<lparr>accounts := []\<rparr>))
   = import_token_file (\<lambda>s. Some s) False (\<lambda>_. None) numbered ''token.json'' (Some (export_account (heap demo_manager 1)))
        (demo_manager\<lparr>accounts := []\<rparr>)"
  by (rule token_file_is_read_once) (simp_all add: all_stored_def numbered_def db_fails_def placed_def)

end
