(* ===== verification/Panel.thy ===== *)
theory Panel
  imports EgressProps ApiKeys Cache Playback RequestLog
begin

text \<open>
  The small handlers of the panel (\<open>src/admin/api_keys.rs\<close>, \<open>cache.rs\<close>, \<open>proxies.rs\<close>, \<open>requests.rs\<close>) over
  the components they call, and how \<open>main.rs\<close> takes up the proxy settings the panel saved.

  \<open>rows\<close> is the table \<open>settings\<close>; the JSON text of a list of strings and its parser are \<open>serde_json\<close>
  (\<open>list_text\<close>, \<open>text_list\<close>).
\<close>

section \<open>API keys\<close>

record create_key_request =
  wanted_key_label :: "string option"
  wanted_quota :: "64 word option"

definition create_key_route ::
    "(byte list \<Rightarrow> byte list) \<Rightarrow> byte list \<Rightarrow> string \<Rightarrow> create_key_request \<Rightarrow> int \<Rightarrow> bool option \<Rightarrow> key_table \<Rightarrow>
     (app_error + (string \<times> string \<times> string \<times> 64 word) \<times> string) \<times> key_table" where
  "create_key_route sha random_bytes new_id request now db t =
     (case create_key sha random_bytes new_id (unwrap_or (wanted_key_label request) [])
             (unwrap_or (wanted_quota request) 0) now db t of
        (Inl e, t1) \<Rightarrow> (Inl e, t1)
      | (Inr (k, raw), t1) \<Rightarrow> (Inr ((key_id k, key_label k, key_prefix k, quota k), raw), t1))"

definition list_keys :: "key_table \<Rightarrow> (string \<times> string \<times> string \<times> 64 word \<times> 64 word \<times> bool) list" where
  "list_keys t = map (\<lambda>k. (key_id k, key_label k, key_prefix k, quota k, used k, key_active k)) (keys t)"

definition toggle_key :: "string \<Rightarrow> json \<Rightarrow> int \<Rightarrow> bool option \<Rightarrow> key_table \<Rightarrow> (app_error + string) \<times> key_table" where
  "toggle_key i payload now db t =
     (case jget_bool ''active'' payload of
        None \<Rightarrow> (Inl (BadRequest ''Missing {active: bool}''), t)
      | Some active \<Rightarrow>
          (case set_key_active i active now db t of
             (Inl e, t1) \<Rightarrow> (Inl e, t1)
           | (Inr _, t1) \<Rightarrow> (Inr (''API key '' @ i @ '' set to '' @ (if active then ''active'' else ''inactive'')), t1)))"

definition remove_key_route :: "string \<Rightarrow> bool option \<Rightarrow> key_table \<Rightarrow> (app_error + string) \<times> key_table" where
  "remove_key_route i db t =
     (case remove_key i db t of (Inl e, t1) \<Rightarrow> (Inl e, t1) | (Inr _, t1) \<Rightarrow> (Inr ''API key removed'', t1))"

section \<open>Caches and the request log\<close>

record cache_figures =
  shown_hits :: nat
  shown_misses :: nat
  shown_coalesced :: nat
  shown_stale :: nat
  shown_negative :: nat
  shown_tracks :: nat

definition cache_stats :: "response_cache \<Rightarrow> queue \<Rightarrow> cache_figures" where
  "cache_stats c q =
     \<lparr>shown_hits = response_cache.hits c, shown_misses = response_cache.misses c,
      shown_coalesced = response_cache.coalesced c, shown_stale = response_cache.stale_hits c,
      shown_negative = response_cache.negative_hits c, shown_tracks = cache_hits q\<rparr>"

definition cache_clear :: "response_cache \<Rightarrow> queue \<Rightarrow> response_cache \<times> queue" where
  "cache_clear c q = (invalidate_all c, clear_cache q)"

definition get_requests :: "nat option \<Rightarrow> request_log \<Rightarrow> log_summary" where
  "get_requests shown l = log_summary_of (unwrap_or shown 20) l"

section \<open>Proxies\<close>

type_synonym settings_rows = "string \<Rightarrow> string option"

definition proxy_status_route :: "proxy_env \<Rightarrow> proxy_manager \<Rightarrow> status_view \<times> bool" where
  "proxy_status_route e m = (proxy_status e m, ProxyManager.has_db e)"

text \<open>
  Both rows are written in one transaction, before anything changes. The search that an enabled mode
  starts in the background is a later step of its own (\<open>try_resolve\<close>).
\<close>

definition update_proxies ::
    "(string list \<Rightarrow> string) \<Rightarrow> proxy_env \<Rightarrow> probes \<Rightarrow> bool \<Rightarrow> bool \<Rightarrow> string list \<Rightarrow> settings_rows \<Rightarrow> proxy_manager \<Rightarrow>
     (app_error + string \<times> status_view \<times> bool) \<times> settings_rows \<times> proxy_manager" where
  "update_proxies list_text e seen writes enable raw rows m =
     (case normalize_proxies (net e) (add_one e) raw enable of
        Inl err \<Rightarrow> (Inl err, rows, m)
      | Inr us \<Rightarrow>
          if ProxyManager.has_db e \<and> \<not> writes then (Inl (Internal ''Database error''), rows, m)
          else
            (let rows1 = (if ProxyManager.has_db e
                          then rows(''proxy_enabled'' \<mapsto> (if enable then ''true'' else ''false''), ''proxy_urls'' \<mapsto> list_text us)
                          else rows)
             in case configure e seen enable us m of
                  (Inl err, m1) \<Rightarrow> (Inl err, rows1, m1)
                | (Inr _, m1) \<Rightarrow>
                    (Inr (if enable then ''Proxy mode enabled'' else ''Proxy mode disabled'', proxy_status_route e m1), rows1, m1)))"

text \<open>\<open>main\<close> after \<open>ProxyManager::new\<close>.\<close>

definition saved_proxies ::
    "(string \<Rightarrow> string list option) \<Rightarrow> proxy_env \<Rightarrow> probes \<Rightarrow> settings_rows \<Rightarrow> proxy_manager \<Rightarrow> proxy_manager" where
  "saved_proxies text_list e seen rows m =
     (if ProxyManager.has_db e \<and> (rows ''proxy_enabled'' \<noteq> None \<or> rows ''proxy_urls'' \<noteq> None)
      then snd (configure e seen
             (case rows ''proxy_enabled'' of Some v \<Rightarrow> v = ''true'' | None \<Rightarrow> use_proxies e)
             (case Option.bind (rows ''proxy_urls'') text_list of Some us \<Rightarrow> us | None \<Rightarrow> proxies m) m)
      else m)"

section \<open>The proxy settings survive a restart\<close>

lemma trim_trim: "trim (trim s) = trim s"
proof -
  let ?d = "dropWhile is_ascii_space"
  have dd: "?d (?d xs) = ?d xs" for xs :: string by (induction xs) auto
  have keep: "?d (rev (?d (rev (?d s)))) = rev (?d (rev (?d s)))"
  proof (cases "?d s")
    case (Cons c cs)
    then have c: "\<not> is_ascii_space c" by (metis dropWhile_eq_Cons_conv)
    have "\<exists>zs. ?d (rev cs @ [c]) = zs @ [c]"
      using c by (induction "rev cs" arbitrary: cs rule: list.induct) (auto simp: dropWhile_append3 dropWhile_append)
    then obtain zs where "?d (rev (?d s)) = zs @ [c]" by (auto simp: Cons)
    then show ?thesis using c by simp
  next
    case Nil
    show ?thesis by (simp only: Nil rev.simps dropWhile.simps)
  qed
  show ?thesis unfolding trim_def keep by (simp add: dd)
qed

lemma fold_add_new_distinct: "distinct (acc @ us) \<Longrightarrow> fold add_new us acc = acc @ us"
  by (induction us arbitrary: acc) (auto simp: add_new_def)

lemma normalize_again:
  assumes "normalize_proxies n a raw enable = Inr us"
  shows "normalize_proxies n a us enable = Inr us"
proof -
  let ?vs = "filter (\<lambda>u. u \<noteq> []) (map trim raw)"
  have us: "us = fold add_new ?vs []" and ok: "List.find (\<lambda>u. bad_url n u \<noteq> None) ?vs = None" and en: "\<not> (enable \<and> us = [])"
    using assms by (auto simp: normalize_proxies_def normalize_loop_fold Let_def split: option.splits if_splits)
  have f: "distinct us" "set us = set ?vs" using fold_add_new [of "[]" ?vs] by (simp_all add: us)
  have same: "filter (\<lambda>u. u \<noteq> []) (map trim us) = us"
  proof -
    have "map trim us = us" using f(2) by (intro map_idI) (auto simp: trim_trim)
    moreover have "filter (\<lambda>u. u \<noteq> []) us = us" using f(2) by (intro filter_True) auto
    ultimately show ?thesis by simp
  qed
  have "List.find (\<lambda>u. bad_url n u \<noteq> None) us = None" using ok f(2) by (auto simp: find_None_iff)
  moreover have "fold add_new us [] = us" using fold_add_new_distinct [of "[]" us] f(1) by simp
  ultimately show ?thesis using en
    by (simp add: normalize_proxies_def normalize_loop_fold same Let_def split: if_splits)
qed

lemma configure_sets:
  assumes "configure e seen enable raw m = (Inr x, m')"
  shows "\<exists>us. normalize_proxies (net e) (add_one e) raw enable = Inr us \<and> enabled m' = enable \<and> proxies m' = us"
proof (cases "normalize_proxies (net e) (add_one e) raw enable")
  case (Inr us)
  let ?m = "configure_routes e us (fold (\<lambda>f. f) (configure_stores enable us) m)"
  have "enabled ?m = enable" "proxies ?m = us" by (simp_all add: configure_routes_def configure_stores_def Let_def)
  then have "enabled m' = enable \<and> proxies m' = us"
    using assms Inr rebalance_same [of ?m e seen us]
    by (auto simp: configure_def Let_def same_egress_def split: if_splits)
  then show ?thesis using Inr by blast
qed (use assms in \<open>simp add: configure_def\<close>)

lemma configure_normal:
  assumes "normalize_proxies (net e) (add_one e) raw enable = Inr us"
  shows "\<exists>x m'. configure e seen enable us m = (Inr x, m') \<and> enabled m' = enable \<and> proxies m' = us"
proof -
  obtain r m' where c: "configure e seen enable us m = (r, m')" by force
  moreover have "\<exists>x. r = Inr x" using c normalize_again [OF assms] by (simp add: configure_def Let_def)
  ultimately show ?thesis using configure_sets [of e seen enable us m] normalize_again [OF assms] by force
qed

text \<open>
  The proxy settings the owner saves survive a restart: a server that has a database comes up with the
  same mode and the same list as the one that saved them, whatever its environment and its proxy file
  say.
\<close>

lemma proxy_settings_survive_a_restart:
  assumes "update_proxies list_text e seen writes enable raw rows m = (Inr msg, rows', m')"
    and "ProxyManager.has_db e" "\<And>us. text_list (list_text us) = Some us"
  shows "enabled (saved_proxies text_list e seen' rows' m0) = enabled m'
    \<and> proxies (saved_proxies text_list e seen' rows' m0) = proxies m'"
proof -
  obtain us where us: "normalize_proxies (net e) (add_one e) raw enable = Inr us"
    using assms(1) by (cases "normalize_proxies (net e) (add_one e) raw enable") (auto simp: update_proxies_def)
  obtain x m1 where c: "configure e seen enable us m = (Inr x, m1)" "enabled m1 = enable" "proxies m1 = us"
    using configure_normal [OF us] by blast
  obtain y m2 where d: "configure e seen' enable us m0 = (Inr y, m2)" "enabled m2 = enable" "proxies m2 = us"
    using configure_normal [OF us] by blast
  have "writes" "m' = m1" "rows' ''proxy_enabled'' = Some (if enable then ''true'' else ''false'')"
    "rows' ''proxy_urls'' = Some (list_text us)"
    using assms(1,2) us c(1) by (auto simp: update_proxies_def Let_def split: if_splits)
  then show ?thesis using assms(2,3) c d by (cases enable) (simp_all add: saved_proxies_def)
qed

text \<open>
  A request that is refused (a bad address, an empty list, a database that does not write) changes
  neither the rows nor the manager.
\<close>

lemma refused_update_changes_nothing:
  assumes "update_proxies list_text e seen writes enable raw rows m = (Inl err, rows', m')"
  shows "rows' = rows \<and> m' = m"
proof (cases "normalize_proxies (net e) (add_one e) raw enable")
  case (Inr us)
  from configure_normal [OF Inr, of seen m] show ?thesis
    using assms Inr by (auto simp: update_proxies_def Let_def split: if_splits)
qed (use assms in \<open>simp add: update_proxies_def\<close>)

text \<open>An example: a list is written with a mark before each character and one after each string.\<close>

definition marked :: "string list \<Rightarrow> string" where
  "marked us = concat (map (\<lambda>u. concat (map (\<lambda>c. [CHR ''-'', c]) u) @ [CHR ''.'']) us)"

fun unmarked :: "string \<Rightarrow> string \<Rightarrow> string list option" where
  "unmarked u [] = (if u = [] then Some [] else None)"
| "unmarked u [c] = (if c = CHR ''.'' then Some [u] else None)"
| "unmarked u (c # d # cs) =
     (if c = CHR ''.'' then map_option (Cons u) (unmarked [] (d # cs)) else unmarked (u @ [d]) cs)"

lemma unmarked_end: "unmarked u (CHR ''.'' # t) = map_option (Cons u) (unmarked [] t)"
  by (cases t) simp_all

lemma unmarked_one:
  "unmarked a (concat (map (\<lambda>c. [CHR ''-'', c]) u) @ CHR ''.'' # t) = map_option (Cons (a @ u)) (unmarked [] t)"
  by (induction u arbitrary: a) (simp_all add: unmarked_end)

lemma unmarked_marked: "unmarked [] (marked us) = Some us"
  by (induction us) (simp_all add: marked_def unmarked_one)

definition stored_env :: proxy_env where
  "stored_env = plain_env\<lparr>ProxyManager.has_db := True\<rparr>"

definition off_once :: "(app_error + string \<times> status_view \<times> bool) \<times> settings_rows \<times> proxy_manager" where
  "off_once = update_proxies marked stored_env half_up True False [''http://a:1''] Map.empty plain_pool"

theorem proxy_settings_survive_a_restart_witness:
  "\<not> enabled (saved_proxies (unmarked []) stored_env half_up (fst (snd off_once)) plain_pool)
    \<and> proxies (saved_proxies (unmarked []) stored_env half_up (fst (snd off_once)) plain_pool) = [''http://a:1'']"
proof -
  have on: "ProxyManager.has_db stored_env" "\<not> isl (fst off_once)"
    "\<not> enabled (snd (snd off_once))" "proxies (snd (snd off_once)) = [''http://a:1'']"
    by (code_simp+)
  have "update_proxies marked stored_env half_up True False [''http://a:1''] Map.empty plain_pool =
      (Inr (projr (fst off_once)), fst (snd off_once), snd (snd off_once))"
    using on(2) by (simp add: off_once_def [symmetric] prod_eq_iff)
  from proxy_settings_survive_a_restart [OF this on(1) unmarked_marked] show ?thesis using on(3, 4) by simp
qed

end
