(* ===== verification/Spec2Isabelle.thy ===== *)
theory Spec2Isabelle
  imports Errors ScannerGuard AuthGuard MergeProps PlaybackProps TidalLeases ApiKeys CacheProps HealLive ProxyFleet SettingsProps LogProps TrackProps MetadataProps NotifierProps BackupProps Stats MediaProps SetupProps Startup Panel
begin

text \<open>
  A verification development for hifi-api-rust, a server that answers music requests by
  spreading them over a pool of Tidal accounts.

  Parts of the program and theories that model them:

  \<^item> \<open>src/error.rs\<close>: \<open>Errors\<close> (the error values every part returns, their HTTP status and text).
  \<^item> \<open>src/scanner_guard.rs\<close> and \<open>src/admin/auth_guard.rs\<close>: \<open>IpGuard\<close> (the sliding-window table the
    two have in common), \<open>ScannerGuard\<close>, \<open>AuthGuard\<close>.
  \<^item> \<open>src/account_uptime.rs\<close>: \<open>Uptime\<close>.
  \<^item> \<open>src/account_manager.rs\<close>: \<open>Accounts\<close> (the record of an account), \<open>RateLimit\<close> (pauses after a
    429), \<open>Slots\<close> (the contract of a slot counter), \<open>Selection\<close> and \<open>SelectionProps\<close> (leases and
    catalog slots), \<open>Lifecycle\<close> and \<open>LifecycleProps\<close> (every operation that changes an account).
\<close>

end
